(* ===== verification/Peony_Prelude.thy ===== *)
theory Peony_Prelude
  imports Main "HOL-Library.Word" "HOL-Library.AList" "HOL-Library.Multiset"
    "HOL-Library.Code_Target_Numeral"
begin

text \<open>
  Shared vocabulary of the development: Rust's machine integers, results and panics,
  little-endian byte strings, in-place writes into a byte buffer, and the generic list lemmas the
  component theories use.  The release profile of the workspace leaves overflow checks off, so an
  unsigned \<^verbatim>\<open>+\<close> of the source is the wrapping addition of \<open>'a word\<close>; a slice
  index out of range is a panic and is written out as \<open>Panic\<close> or \<open>None\<close>.
\<close>

unbundle bit_operations_syntax

named_theorems byte_simps

section \<open>Machine integers and outcomes\<close>

type_synonym u8 = "8 word"
type_synonym u16 = "16 word"
type_synonym u32 = "32 word"
type_synonym u64 = "64 word"
type_synonym i64 = "64 word"
type_synonym bytes = "u8 list"
type_synonym name = string

datatype ('e, 'a) outcome = Ok 'a | Err 'e | Panic

primrec bind_outcome ::
  "('e, 'a) outcome \<Rightarrow> ('a \<Rightarrow> ('e, 'b) outcome) \<Rightarrow> ('e, 'b) outcome" where
  "bind_outcome (Ok a) f = f a"
| "bind_outcome (Err e) f = Err e"
| "bind_outcome Panic f = Panic"

lemma bind_outcome_Ok:
  "bind_outcome m f = Ok b \<Longrightarrow> (\<And>a. m = Ok a \<Longrightarrow> f a = Ok b \<Longrightarrow> thesis) \<Longrightarrow> thesis"
  by (cases m) auto

definition checked_add :: "'a::len word \<Rightarrow> 'a word \<Rightarrow> 'a word option" where
  "checked_add a b = (if unat a + unat b < 2 ^ LENGTH('a) then Some (a + b) else None)"

definition saturating_add :: "'a::len word \<Rightarrow> 'a word \<Rightarrow> 'a word" where
  "saturating_add a b = (if unat a + unat b < 2 ^ LENGTH('a) then a + b else - 1)"

definition saturating_sub :: "'a::len word \<Rightarrow> 'a word \<Rightarrow> 'a word" where
  "saturating_sub a b = (if b \<le> a then a - b else 0)"

lemma unat_add_no_wrap:
  "unat a + unat b < 2 ^ LENGTH('a) \<Longrightarrow> unat (a + b :: 'a::len word) = unat a + unat b"
  by (simp add: unat_add_lem)

lemma checked_add_Some [simp]:
  "checked_add a b = Some c \<longleftrightarrow>
     unat a + unat b < 2 ^ LENGTH('a) \<and> c = (a + b :: 'a::len word)"
  by (auto simp: checked_add_def)

lemma unat_saturating_add:
  "unat (saturating_add a b :: 'a::len word) = min (unat a + unat b) (2 ^ LENGTH('a) - 1)"
proof (cases "unat a + unat b < 2 ^ LENGTH('a)")
  case True
  then show ?thesis by (simp add: saturating_add_def unat_add_no_wrap)
next
  case False
  moreover have "unat (- 1 :: 'a word) = 2 ^ LENGTH('a) - 1"
    by (simp add: unsigned_minus_1_eq_mask mask_eq_exp_minus_1)
  ultimately show ?thesis by (simp add: saturating_add_def)
qed

lemma unat_saturating_sub: "unat (saturating_sub a b :: 'a::len word) = unat a - unat b"
  by (auto simp: saturating_sub_def unat_sub word_le_nat_alt)

section \<open>Little-endian bytes\<close>

definition to_le :: "nat \<Rightarrow> 'a::len word \<Rightarrow> bytes" where
  "to_le n w = map (\<lambda>i. ucast (drop_bit (8 * i) w)) [0..<n]"

fun from_le :: "bytes \<Rightarrow> 'a::len word" where
  "from_le [] = 0"
| "from_le (b # bs) = ucast b OR push_bit 8 (from_le bs)"

lemma length_to_le [simp]: "length (to_le n w) = n"
  by (simp add: to_le_def)

lemma nth_to_le [simp]: "i < n \<Longrightarrow> to_le n w ! i = ucast (drop_bit (8 * i) w)"
  by (simp add: to_le_def)

lemma bit_from_le:
  "bit (from_le bs :: 'a::len word) i \<longleftrightarrow>
     i < LENGTH('a) \<and> i div 8 < length bs \<and> bit (bs ! (i div 8)) (i mod 8)"
proof (induction bs arbitrary: i)
  case Nil
  then show ?case by simp
next
  case (Cons b bs)
  show ?case
  proof (cases "i < 8")
    case True
    then show ?thesis by (auto simp: bit_or_iff bit_push_bit_iff bit_ucast_iff)
  next
    case False
    then have i: "i div 8 = Suc ((i - 8) div 8)" "i mod 8 = (i - 8) mod 8"
      by (simp_all add: le_div_geq le_mod_geq)
    have nb: "\<not> bit b i"
      using False bit_imp_le_length [of b i] by auto
    have "bit (from_le (b # bs) :: 'a word) i \<longleftrightarrow>
        i < LENGTH('a) \<and> bit (from_le bs :: 'a word) (i - 8)"
      using False nb by (auto simp: bit_or_iff bit_push_bit_iff bit_ucast_iff)
    then show ?thesis using Cons.IH [of "i - 8"] i by auto
  qed
qed

lemma from_le_to_le [byte_simps]:
  assumes "LENGTH('a) = 8 * n"
  shows "from_le (to_le n (w :: 'a::len word)) = w"
proof (rule bit_word_eqI)
  fix i assume i: "i < LENGTH('a)"
  then have "i div 8 < n" using assms by simp
  then show "bit (from_le (to_le n w) :: 'a word) i = bit w i"
    using i by (simp add: bit_from_le bit_ucast_iff bit_drop_bit_eq)
qed


section \<open>In-place writes into a buffer\<close>

text \<open>
  \<open>slice lo n buf\<close> is Rust's \<^verbatim>\<open>&buf[lo..lo + n]\<close>, \<open>splice buf lo bs\<close> is
  \<^verbatim>\<open>buf[lo..lo + bs.len()].copy_from_slice(bs)\<close>; both are \<open>None\<close> where the range
  does not lie in the buffer, which is where Rust panics.
\<close>

definition slice :: "nat \<Rightarrow> nat \<Rightarrow> 'a list \<Rightarrow> 'a list option" where
  "slice lo n buf = (if lo + n \<le> length buf then Some (take n (drop lo buf)) else None)"

definition splice :: "'a list \<Rightarrow> nat \<Rightarrow> 'a list \<Rightarrow> 'a list option" where
  "splice buf lo bs =
     (if lo + length bs \<le> length buf
      then Some (take lo buf @ bs @ drop (lo + length bs) buf) else None)"

text \<open>Two buffers of one length that agree everywhere but on \<open>[lo, hi)\<close>.\<close>

definition same_outside :: "nat \<Rightarrow> nat \<Rightarrow> 'a list \<Rightarrow> 'a list \<Rightarrow> bool" where
  "same_outside lo hi b b' \<longleftrightarrow>
     length b' = length b \<and> (\<forall>i < length b. i < lo \<or> hi \<le> i \<longrightarrow> b' ! i = b ! i)"

lemma slice_Some_iff: "slice lo n buf = Some s \<longleftrightarrow> lo + n \<le> length buf \<and> s = take n (drop lo buf)"
  by (auto simp: slice_def)

lemma splice_Some_iff:
  "splice buf lo bs = Some b' \<longleftrightarrow>
     lo + length bs \<le> length buf \<and> b' = take lo buf @ bs @ drop (lo + length bs) buf"
  by (auto simp: splice_def)

lemma splice_defined [simp]: "splice buf lo bs = None \<longleftrightarrow> length buf < lo + length bs"
  by (auto simp: splice_def)

lemma splice_length: "splice buf lo bs = Some b' \<Longrightarrow> length b' = length buf"
  by (auto simp: splice_Some_iff)

lemma slice_splice: "splice buf lo bs = Some b' \<Longrightarrow> slice lo (length bs) b' = Some bs"
  by (auto simp: splice_Some_iff slice_Some_iff)

lemma nth_splice:
  assumes "splice buf lo bs = Some b'" "i < length buf"
  shows "b' ! i = (if lo \<le> i \<and> i < lo + length bs then bs ! (i - lo) else buf ! i)"
  using assms by (auto simp: splice_Some_iff nth_append min_def)

lemma splice_same_outside:
  "splice buf lo bs = Some b' \<Longrightarrow> same_outside lo (lo + length bs) buf b'"
  by (auto simp: same_outside_def nth_splice splice_length)

lemma same_outside_refl [simp, intro]: "same_outside lo hi b b"
  by (simp add: same_outside_def)

lemma same_outside_trans [trans]:
  "same_outside lo hi a b \<Longrightarrow> same_outside lo hi b c \<Longrightarrow> same_outside lo hi a c"
  by (simp add: same_outside_def)

lemma same_outside_mono:
  "same_outside lo hi b b' \<Longrightarrow> lo' \<le> lo \<Longrightarrow> hi \<le> hi' \<Longrightarrow> same_outside lo' hi' b b'"
  by (auto simp: same_outside_def)

lemma same_outside_length: "same_outside lo hi b b' \<Longrightarrow> length b' = length b"
  by (simp add: same_outside_def)

lemma splice_within:
  assumes "splice buf lo bs = Some b'" "lo' \<le> lo" "lo + length bs \<le> hi'"
  shows "same_outside lo' hi' buf b'"
  using same_outside_mono [OF splice_same_outside [OF assms(1)]] assms(2,3) by blast

text \<open>Writes to disjoint ranges commute.\<close>

lemma splice_commute:
  assumes x: "splice buf lo xs = Some b1" "splice b1 lo' ys = Some b2"
    and y: "splice buf lo' ys = Some c1" "splice c1 lo xs = Some c2"
    and dis: "lo + length xs \<le> lo' \<or> lo' + length ys \<le> lo"
  shows "b2 = c2"
proof (rule nth_equalityI)
  have len: "length b1 = length buf" "length b2 = length buf"
      "length c1 = length buf" "length c2 = length buf"
    using x y by (simp_all add: splice_length)
  then show "length b2 = length c2" by simp
  fix i assume "i < length b2"
  then have "i < length buf" "i < length b1" "i < length c1" using len by simp_all
  then show "b2 ! i = c2 ! i"
    using dis by (auto simp: nth_splice [OF x(1)] nth_splice [OF x(2)] nth_splice [OF y(1)]
        nth_splice [OF y(2)])
qed

end
