(* ===== verification/Object_Model.thy ===== *)
theory Object_Model
  imports Peony_Prelude
begin

text \<open>
  The parsed input objects of \<^verbatim>\<open>peony-object\<close> (\<^verbatim>\<open>model.rs\<close>, \<^verbatim>\<open>arena.rs\<close>,
  \<^verbatim>\<open>input.rs\<close>, \<^verbatim>\<open>section_parse.rs\<close>, the constants of \<^verbatim>\<open>elf.rs\<close>): sections, symbols
  and relocations as records, the raw-index lookup table in its dense and sparse form, the arena that
  owns the section bytes, and the name and magic based classifiers.  Reading the ELF container itself
  is the \<^verbatim>\<open>object\<close> crate's work and is not modelled.

  A raw ELF index and a position in a Rust vector are \<open>nat\<close> (\<^verbatim>\<open>usize\<close>); offsets, sizes,
  flags and values keep their 64 bits.  Names are byte strings, Isabelle's \<open>char list\<close>.
\<close>

section \<open>ELF constants\<close>

abbreviation (input) SHT_NULL :: u32 where "SHT_NULL \<equiv> 0"
abbreviation (input) SHT_PROGBITS :: u32 where "SHT_PROGBITS \<equiv> 1"
abbreviation (input) SHT_SYMTAB :: u32 where "SHT_SYMTAB \<equiv> 2"
abbreviation (input) SHT_STRTAB :: u32 where "SHT_STRTAB \<equiv> 3"
abbreviation (input) SHT_RELA :: u32 where "SHT_RELA \<equiv> 4"
abbreviation (input) SHT_HASH :: u32 where "SHT_HASH \<equiv> 5"
abbreviation (input) SHT_DYNAMIC :: u32 where "SHT_DYNAMIC \<equiv> 6"
abbreviation (input) SHT_NOTE :: u32 where "SHT_NOTE \<equiv> 7"
abbreviation (input) SHT_NOBITS :: u32 where "SHT_NOBITS \<equiv> 8"
abbreviation (input) SHT_DYNSYM :: u32 where "SHT_DYNSYM \<equiv> 11"
abbreviation (input) SHT_INIT_ARRAY :: u32 where "SHT_INIT_ARRAY \<equiv> 14"
abbreviation (input) SHT_FINI_ARRAY :: u32 where "SHT_FINI_ARRAY \<equiv> 15"
abbreviation (input) SHT_PREINIT_ARRAY :: u32 where "SHT_PREINIT_ARRAY \<equiv> 16"
abbreviation (input) SHT_SYMTAB_SHNDX :: u32 where "SHT_SYMTAB_SHNDX \<equiv> 18"

abbreviation (input) SHF_WRITE :: u64 where "SHF_WRITE \<equiv> 0x1"
abbreviation (input) SHF_ALLOC :: u64 where "SHF_ALLOC \<equiv> 0x2"
abbreviation (input) SHF_EXECINSTR :: u64 where "SHF_EXECINSTR \<equiv> 0x4"
abbreviation (input) SHF_MERGE :: u64 where "SHF_MERGE \<equiv> 0x10"
abbreviation (input) SHF_STRINGS :: u64 where "SHF_STRINGS \<equiv> 0x20"
abbreviation (input) SHF_TLS :: u64 where "SHF_TLS \<equiv> 0x400"
abbreviation (input) SHF_GNU_RETAIN :: u64 where "SHF_GNU_RETAIN \<equiv> 0x200000"

abbreviation (input) STT_NOTYPE :: u8 where "STT_NOTYPE \<equiv> 0"
abbreviation (input) STT_OBJECT :: u8 where "STT_OBJECT \<equiv> 1"
abbreviation (input) STT_FUNC :: u8 where "STT_FUNC \<equiv> 2"
abbreviation (input) STT_SECTION :: u8 where "STT_SECTION \<equiv> 3"
abbreviation (input) STT_FILE :: u8 where "STT_FILE \<equiv> 4"
abbreviation (input) STT_TLS :: u8 where "STT_TLS \<equiv> 6"
abbreviation (input) STT_GNU_IFUNC :: u8 where "STT_GNU_IFUNC \<equiv> 10"
abbreviation (input) STV_DEFAULT :: u8 where "STV_DEFAULT \<equiv> 0"
abbreviation (input) STV_HIDDEN :: u8 where "STV_HIDDEN \<equiv> 2"
abbreviation (input) STV_PROTECTED :: u8 where "STV_PROTECTED \<equiv> 3"

section \<open>Raw-index lookup\<close>

text \<open>\<open>MISSING_INDEX\<close> is \<^verbatim>\<open>usize::MAX\<close>.\<close>

abbreviation (input) MISSING_INDEX :: nat where "MISSING_INDEX \<equiv> 2 ^ 64 - 1"

datatype index_lookup = Dense "nat list" | Sparse "(nat \<times> nat) list"

definition with_dense_len :: "nat \<Rightarrow> index_lookup" where
  "with_dense_len n = Dense (replicate n MISSING_INDEX)"

definition index_default :: index_lookup where
  "index_default = Sparse []"

text \<open>The entries of a dense table as the pairs the conversion to a sparse one inserts.\<close>

definition dense_entries :: "nat list \<Rightarrow> (nat \<times> nat) list" where
  "dense_entries d = filter (\<lambda>(i, p). p \<noteq> MISSING_INDEX) (enumerate 0 d)"

fun index_insert :: "index_lookup \<Rightarrow> nat \<Rightarrow> nat \<Rightarrow> index_lookup" where
  "index_insert (Dense d) raw pos =
     (if raw < length d then Dense (d[raw := pos])
      else Sparse (AList.update raw pos (dense_entries d)))"
| "index_insert (Sparse m) raw pos = Sparse (AList.update raw pos m)"

fun index_position :: "index_lookup \<Rightarrow> nat \<Rightarrow> nat option" where
  "index_position (Dense d) raw =
     (if raw < length d \<and> d ! raw \<noteq> MISSING_INDEX then Some (d ! raw) else None)"
| "index_position (Sparse m) raw = map_of m raw"

lemma map_of_dense_entries:
  "map_of (dense_entries d) i =
     (if i < length d \<and> d ! i \<noteq> MISSING_INDEX then Some (d ! i) else None)"
proof (induction d rule: rev_induct)
  case Nil
  then show ?case by (simp add: dense_entries_def)
next
  case (snoc x d)
  have "dense_entries (d @ [x]) =
      dense_entries d @ (if x \<noteq> MISSING_INDEX then [(length d, x)] else [])"
    by (simp add: dense_entries_def enumerate_append_eq)
  then show ?case using snoc.IH
    by (auto simp: map_add_def nth_append less_Suc_eq split: option.splits)
qed

text \<open>
  The interface the rest of the program uses: a finite map from raw indices to positions.  An
  implementation promises that inserting overrides one key and leaves the others alone.
\<close>

locale index_map =
  fixes empty :: 'm
    and insert :: "'m \<Rightarrow> nat \<Rightarrow> nat \<Rightarrow> 'm"
    and lookup :: "'m \<Rightarrow> nat \<Rightarrow> nat option"
    and valid :: "nat \<Rightarrow> bool"
  assumes lookup_empty: "lookup empty i = None"
    and lookup_insert: "valid p \<Longrightarrow> lookup (insert m i p) = (lookup m)(i \<mapsto> p)"
begin

lemma lookup_fold:
  assumes "\<forall>(p, i) \<in> set ps. valid p"
  shows "lookup (fold (\<lambda>(p, i) m. insert m i p) ps m) =
         lookup m ++ map_of (rev (map prod.swap ps))"
  using assms
proof (induction ps arbitrary: m)
  case Nil
  then show ?case by simp
next
  case (Cons a ps)
  obtain p i where a: "a = (p, i)" by (cases a)
  with Cons.prems have "valid p" by simp
  with Cons.IH [of "insert m i p"] Cons.prems show ?case
    by (simp add: a lookup_insert map_add_assoc [symmetric])
       (simp add: map_add_upd_left map_add_def fun_eq_iff split: option.splits)
qed

text \<open>Numbering the elements of a list in order makes the map their position function.\<close>

lemma lookup_enumerate:
  assumes valid: "\<forall>p < length is. valid p" and dist: "distinct is"
  shows "p < length is \<Longrightarrow>
           lookup (fold (\<lambda>(p, i) m. insert m i p) (enumerate 0 is) empty) (is ! p) = Some p"
    and "i \<notin> set is \<Longrightarrow>
           lookup (fold (\<lambda>(p, i) m. insert m i p) (enumerate 0 is) empty) i = None"
proof -
  let ?ps = "map prod.swap (enumerate 0 is)"
  have v: "\<forall>(p, i) \<in> set (enumerate 0 is). valid p"
    using valid by (auto simp: in_set_enumerate_eq)
  have keys: "map fst ?ps = is"
    by (simp add: comp_def)
  have "lookup empty = Map.empty" by (rule ext) (rule lookup_empty)
  then have eq: "lookup (fold (\<lambda>(p, i) m. insert m i p) (enumerate 0 is) empty) = map_of (rev ?ps)"
    using lookup_fold [OF v, of empty] by simp
  { assume p: "p < length is"
    then have "(is ! p, p) \<in> set (rev ?ps)"
      using imageI [of "(p, is ! p)" "set (enumerate 0 is)" prod.swap]
      by (simp add: in_set_enumerate_eq)
    moreover have "distinct (map fst (rev ?ps))"
      using dist keys by (simp add: rev_map [symmetric])
    ultimately show "lookup (fold (\<lambda>(p, i) m. insert m i p) (enumerate 0 is) empty) (is ! p) = Some p"
      unfolding eq by (simp add: map_of_is_SomeI) }
  { assume "i \<notin> set is"
    then have "i \<notin> fst ` set (rev ?ps)" using keys by (metis set_map set_rev)
    then show "lookup (fold (\<lambda>(p, i) m. insert m i p) (enumerate 0 is) empty) i = None"
      unfolding eq by (simp add: map_of_eq_None_iff) }
qed

end

text \<open>Both starting points of the code, the default and a pre-sized dense table, give the map.\<close>

lemma index_position_insert:
  "p \<noteq> MISSING_INDEX \<Longrightarrow> index_position (index_insert m i p) = (index_position m)(i \<mapsto> p)"
  by (cases m) (auto simp: fun_eq_iff map_of_dense_entries update_conv' nth_list_update)

interpretation dense_index: index_map "with_dense_len n" index_insert index_position
    "\<lambda>p. p \<noteq> MISSING_INDEX" for n
  by unfold_locales (auto simp: with_dense_len_def index_position_insert)

interpretation sparse_index: index_map index_default index_insert index_position
    "\<lambda>p. p \<noteq> MISSING_INDEX"
  by unfold_locales (auto simp: index_default_def index_position_insert)

section \<open>Sections, symbols, relocations, objects\<close>

datatype section_kind = Text | ReadOnly | KData | Bss | Debug | EhFrame | MergeString | MergeConst
  | InitArray | Tdata | Tbss | Other

datatype data_src = Mmap u32 | Owned u32

record section_data =
  sd_src :: data_src
  sd_off :: u32
  sd_len :: u32

definition section_data_EMPTY :: section_data where
  "section_data_EMPTY = \<lparr>sd_src = Mmap 0, sd_off = 0, sd_len = 0\<rparr>"

definition section_data_len :: "section_data \<Rightarrow> nat" where
  "section_data_len d = unat (sd_len d)"

definition section_data_is_empty :: "section_data \<Rightarrow> bool" where
  "section_data_is_empty d \<longleftrightarrow> sd_len d = 0"

record input_reloc =
  r_offset :: u64
  r_type :: u32
  r_symbol :: nat
  r_addend :: i64

record input_section =
  sec_index :: nat
  sec_name :: name
  sec_kind :: section_kind
  sec_sh_type :: u32
  sec_data :: section_data
  sec_align :: u64
  sec_size :: u64
  sec_flags :: u64
  sec_relocs :: "input_reloc list"

datatype binding = Local | Global | Weak

record input_symbol =
  sym_index :: nat
  sym_name :: name
  sym_binding :: binding
  sym_is_undefined :: bool
  sym_is_common :: bool
  sym_is_ifunc :: bool
  sym_st_type :: u8
  sym_visibility :: u8
  sym_section :: "nat option"
  sym_value :: u64
  sym_size :: u64

record comdat_group =
  cg_signature :: name
  cg_members :: "nat list"

record input_object =
  path :: string
  sections :: "input_section list"
  symbols :: "input_symbol list"
  section_map :: index_lookup
  symbol_map :: index_lookup
  comdat_groups :: "comdat_group list"

text \<open>\<^verbatim>\<open>Vec::get\<close>.\<close>

definition get :: "'a list \<Rightarrow> nat \<Rightarrow> 'a option" where
  "get xs i = (if i < length xs then Some (xs ! i) else None)"

lemma get_simps [simp]:
  "get [] i = None"
  "get (x # xs) 0 = Some x"
  "get (x # xs) (Suc i) = get xs i"
  "get (x # xs) (numeral n) = get xs (pred_numeral n)"
  by (simp_all add: get_def numeral_eq_Suc)

lemma get_Some_iff: "get xs i = Some x \<longleftrightarrow> i < length xs \<and> x = xs ! i"
  by (auto simp: get_def)

lemma get_None_iff [simp]: "get xs i = None \<longleftrightarrow> length xs \<le> i"
  by (simp add: get_def)

lemma get_in_set: "get xs i = Some x \<Longrightarrow> x \<in> set xs"
  by (auto simp: get_Some_iff)

definition section_pos :: "input_object \<Rightarrow> nat \<Rightarrow> nat option" where
  "section_pos obj raw = index_position (section_map obj) raw"

definition section_by_index :: "input_object \<Rightarrow> nat \<Rightarrow> input_section option" where
  "section_by_index obj raw = Option.bind (section_pos obj raw) (get (sections obj))"

definition symbol_pos :: "input_object \<Rightarrow> nat \<Rightarrow> nat option" where
  "symbol_pos obj raw = index_position (symbol_map obj) raw"

definition symbol_by_index :: "input_object \<Rightarrow> nat \<Rightarrow> input_symbol option" where
  "symbol_by_index obj raw = Option.bind (symbol_pos obj raw) (get (symbols obj))"

text \<open>
  How the parser fills the two tables: it numbers the sections (symbols) in the order it pushes them,
  into a dense table pre-sized from the \<^verbatim>\<open>size_hint\<close> of the ELF reader's iterator, whatever that is.
\<close>

definition build_section_map :: "nat \<Rightarrow> input_section list \<Rightarrow> index_lookup" where
  "build_section_map hint secs =
     fold (\<lambda>(p, i) m. index_insert m i p) (enumerate 0 (map sec_index secs))
       (with_dense_len (hint + 1))"

definition build_symbol_map :: "nat \<Rightarrow> input_symbol list \<Rightarrow> index_lookup" where
  "build_symbol_map hint syms =
     fold (\<lambda>(p, i) m. index_insert m i p) (enumerate 0 (map sym_index syms))
       (with_dense_len hint)"

definition parsed_object ::
  "nat \<times> nat \<Rightarrow> string \<Rightarrow> input_section list \<Rightarrow> input_symbol list \<Rightarrow> comdat_group list \<Rightarrow>
   input_object" where
  "parsed_object hints p secs syms groups =
     \<lparr>path = p, sections = secs, symbols = syms, section_map = build_section_map (fst hints) secs,
      symbol_map = build_symbol_map (snd hints) syms, comdat_groups = groups\<rparr>"

text \<open>In an object as the parser builds it, looking a raw symbol index up returns exactly the
  symbol that carries that index, and an index no symbol carries is not found.  This is what every
  pass that follows a relocation's symbol index relies on.\<close>

theorem symbol_by_index_parsed:
  assumes "distinct (map sym_index syms)" "length syms \<le> MISSING_INDEX"
  shows "symbol_by_index (parsed_object hints p secs syms groups) i = Some s \<longleftrightarrow>
           s \<in> set syms \<and> sym_index s = i"
proof -
  have pos: "symbol_pos (parsed_object hints p secs syms groups) (sym_index (syms ! k)) = Some k"
    if "k < length syms" for k
    using that assms dense_index.lookup_enumerate(1) [of "map sym_index syms" k "snd hints"]
    by (simp add: symbol_pos_def parsed_object_def build_symbol_map_def)
  have none: "symbol_pos (parsed_object hints p secs syms groups) i = None"
    if "i \<notin> set (map sym_index syms)"
    using that assms dense_index.lookup_enumerate(2) [of "map sym_index syms" i "snd hints"]
    by (simp add: symbol_pos_def parsed_object_def build_symbol_map_def)
  have syms: "symbols (parsed_object hints p secs syms groups) = syms" by (simp add: parsed_object_def)
  show ?thesis
  proof (cases "i \<in> set (map sym_index syms)")
    case True
    then obtain k where k: "k < length syms" "i = sym_index (syms ! k)"
      by (auto simp: in_set_conv_nth)
    then have "symbol_by_index (parsed_object hints p secs syms groups) i = Some (syms ! k)"
      using pos [OF k(1)] by (simp add: symbol_by_index_def syms get_def)
    then show ?thesis
      using k assms(1) by (auto simp: in_set_conv_nth distinct_conv_nth)
  next
    case False
    then show ?thesis using none by (auto simp: symbol_by_index_def)
  qed
qed

definition example_symbol :: "nat \<Rightarrow> name \<Rightarrow> input_symbol" where
  "example_symbol i n =
     \<lparr>sym_index = i, sym_name = n, sym_binding = Global, sym_is_undefined = False,
      sym_is_common = False, sym_is_ifunc = False, sym_st_type = STT_FUNC,
      sym_visibility = STV_DEFAULT, sym_section = Some 1, sym_value = 0, sym_size = 0\<rparr>"

theorem symbol_by_index_parsed_witness:
  "symbol_by_index
     (parsed_object (0, 4) ''a.o'' [] [example_symbol 1 ''f'', example_symbol 9 ''g''] []) 9 =
   Some (example_symbol 9 ''g'')"
proof -
  have d: "distinct (map sym_index [example_symbol 1 ''f'', example_symbol 9 ''g''])"
    by (simp add: example_symbol_def)
  have l: "length [example_symbol 1 ''f'', example_symbol 9 ''g''] \<le> MISSING_INDEX" by simp
  show ?thesis
    using symbol_by_index_parsed [OF d l, of "(0, 4)" "''a.o''" "[]" "[]" 9 "example_symbol 9 ''g''"]
    by (simp add: example_symbol_def)
qed

end
