(* ===== verification/Object_Input.thy ===== *)
theory Object_Input
  imports Object_Model
begin

text \<open>
  The input arena (\<^verbatim>\<open>arena.rs\<close>), which owns every byte a section handle points into, and
  the classifiers that decide from a name, the flags or the leading bytes what an input is
  (\<^verbatim>\<open>section_parse.rs\<close>, \<^verbatim>\<open>input.rs\<close>).
\<close>

section \<open>The arena\<close>

record input_arena =
  mmaps :: "bytes list"
  owned :: "bytes list"
  arena_names :: "name set"

definition arena_new :: input_arena where
  "arena_new = \<lparr>mmaps = [], owned = [], arena_names = {}\<rparr>"

definition push_mmap :: "input_arena \<Rightarrow> bytes \<Rightarrow> u32 \<times> input_arena" where
  "push_mmap a m = (of_nat (length (mmaps a)), a\<lparr>mmaps := mmaps a @ [m]\<rparr>)"

definition push_owned :: "input_arena \<Rightarrow> bytes \<Rightarrow> u32 \<times> input_arena" where
  "push_owned a v = (of_nat (length (owned a)), a\<lparr>owned := owned a @ [v]\<rparr>)"

text \<open>\<^verbatim>\<open>InputArena::bytes\<close>; \<open>None\<close> where the indexing panics.\<close>

definition arena_bytes :: "input_arena \<Rightarrow> section_data \<Rightarrow> bytes option" where
  "arena_bytes a d =
     Option.bind (case sd_src d of Mmap i \<Rightarrow> get (mmaps a) (unat i) | Owned i \<Rightarrow> get (owned a) (unat i))
       (slice (unat (sd_off d)) (unat (sd_len d)))"

text \<open>Every section handle of the objects lies in the arena, as the parser leaves them.\<close>

definition sections_readable :: "input_arena \<Rightarrow> input_object list \<Rightarrow> bool" where
  "sections_readable arena objs \<longleftrightarrow>
     (\<forall>obj \<in> set objs. \<forall>s \<in> set (sections obj). arena_bytes arena (sec_data s) \<noteq> None)"

text \<open>\<open>None\<close> is the failed assertion on the length.\<close>

definition intern_bytes :: "input_arena \<Rightarrow> bytes \<Rightarrow> (section_data \<times> input_arena) option" where
  "intern_bytes a bs =
     (if length bs < 2 ^ 32
      then (let (id, a') = push_owned a bs
            in Some (\<lparr>sd_src = Owned id, sd_off = 0, sd_len = of_nat (length bs)\<rparr>, a'))
      else None)"

definition rebase_owned :: "u32 \<Rightarrow> input_section \<Rightarrow> input_section" where
  "rebase_owned base s =
     (case sd_src (sec_data s) of
        Owned i \<Rightarrow> s\<lparr>sec_data := (sec_data s)\<lparr>sd_src := Owned (base + i)\<rparr>\<rparr>
      | Mmap _ \<Rightarrow> s)"

definition merge_parsed_owned ::
  "input_arena \<Rightarrow> input_object \<Rightarrow> bytes list \<Rightarrow> input_arena \<times> input_object" where
  "merge_parsed_owned a obj local_owned =
     (if local_owned = [] then (a, obj)
      else (a\<lparr>owned := owned a @ local_owned\<rparr>,
            obj\<lparr>sections := map (rebase_owned (of_nat (length (owned a)))) (sections obj)\<rparr>))"

definition intern_name :: "input_arena \<Rightarrow> name \<Rightarrow> name \<times> input_arena" where
  "intern_name a n =
     (if n \<in> arena_names a then (n, a) else (n, a\<lparr>arena_names := insert n (arena_names a)\<rparr>))"

definition interned_name_count :: "input_arena \<Rightarrow> nat" where
  "interned_name_count a = card (arena_names a)"

lemma get_append_left: "get xs i = Some x \<Longrightarrow> get (xs @ ys) i = Some x"
  by (simp add: get_Some_iff nth_append)

lemma get_append_length [simp]: "get (xs @ y # ys) (length xs) = Some y"
  by (simp add: get_Some_iff)

lemma arena_bytes_grow:
  assumes "arena_bytes a d = Some bs" "mmaps a' = mmaps a" "owned a' = owned a @ new"
  shows "arena_bytes a' d = Some bs"
  using assms
  by (cases "sd_src d") (auto simp: arena_bytes_def bind_eq_Some_conv intro: get_append_left)

text \<open>Interning bytes hands out a handle that reads back exactly those
  bytes, and every handle the arena could already read still reads the same bytes: the arena never
  moves or reuses a buffer (as long as fewer than \<open>2 ^ 32\<close> owned buffers exist).\<close>

theorem intern_bytes_reads_back:
  assumes "intern_bytes a bs = Some (d, a')" "length (owned a) < 2 ^ 32"
  shows "arena_bytes a' d = Some bs \<and>
         (\<forall>d' bs'. arena_bytes a d' = Some bs' \<longrightarrow> arena_bytes a' d' = Some bs')"
proof -
  have len: "length bs < 2 ^ 32"
    and d: "d = \<lparr>sd_src = Owned (of_nat (length (owned a))), sd_off = 0, sd_len = of_nat (length bs)\<rparr>"
    and a': "a' = a\<lparr>owned := owned a @ [bs]\<rparr>"
    using assms(1) by (auto simp: intern_bytes_def push_owned_def split: if_splits)
  have "arena_bytes a' d = Some bs"
    using assms(2) len by (simp add: a' d arena_bytes_def slice_def unat_of_nat)
  then show ?thesis
    using arena_bytes_grow [where a = a and a' = a' and new = "[bs]"] by (simp add: a')
qed

theorem intern_bytes_reads_back_witness:
  "\<exists>d a'. intern_bytes arena_new [1, 2, 3] = Some (d, a') \<and> arena_bytes a' d = Some [1, 2, 3]"
proof -
  obtain d a' where i: "intern_bytes arena_new [1, 2, 3] = Some (d, a')"
    by (simp add: intern_bytes_def push_owned_def)
  have "length (owned arena_new) < 2 ^ 32" by (simp add: arena_new_def)
  then show ?thesis using intern_bytes_reads_back [OF i] i by blast
qed

text \<open>Merging a worker's private buffers: the worker numbered them from 0, the merge rebases them.\<close>

lemma merge_parsed_owned_bytes:
  assumes merge: "merge_parsed_owned a obj local_owned = (a', obj')"
    and room: "length (owned a) + length local_owned < 2 ^ 32"
    and s: "s \<in> set (sections obj)" "sd_src (sec_data s) = Owned i" "unat i < length local_owned"
  shows "arena_bytes a' (sec_data (rebase_owned (of_nat (length (owned a))) s)) =
         slice (unat (sd_off (sec_data s))) (unat (sd_len (sec_data s))) (local_owned ! unat i)"
proof -
  have ne: "local_owned \<noteq> []" using s(3) by auto
  then have a': "a' = a\<lparr>owned := owned a @ local_owned\<rparr>"
    using merge by (auto simp: merge_parsed_owned_def)
  have l: "unat (of_nat (length (owned a)) :: u32) = length (owned a)"
    using room by (simp add: unat_of_nat)
  have u: "unat (of_nat (length (owned a)) + i) = length (owned a) + unat i"
    using room s(3) l unat_add_no_wrap [of "of_nat (length (owned a))" i] by simp
  then show ?thesis
    using s(2,3) by (simp add: rebase_owned_def arena_bytes_def a' u get_def nth_append)
qed

lemma intern_name_same: "fst (intern_name a n) = n"
  by (simp add: intern_name_def)

section \<open>Classification by name, flags and magic\<close>

definition starts_with :: "'a list \<Rightarrow> 'a list \<Rightarrow> bool" where
  "starts_with xs p \<longleftrightarrow> take (length p) xs = p"

lemma starts_with_append [simp]: "starts_with (p @ xs) p"
  by (simp add: starts_with_def)

definition is_debug_section_name :: "name \<Rightarrow> bool" where
  "is_debug_section_name n \<longleftrightarrow>
     n = ''.debug'' \<or> starts_with n ''.debug_'' \<or> starts_with n ''.zdebug_'' \<or>
     starts_with n ''.gnu.debuglto_''"

definition normalize_debug_section_name :: "name \<Rightarrow> name" where
  "normalize_debug_section_name n =
     (if starts_with n ''.zdebug_'' then ''.debug_'' @ drop (length ''.zdebug_'') n else n)"

definition classify_section :: "name \<Rightarrow> u64 \<Rightarrow> section_kind" where
  "classify_section n flags =
     (if flags AND SHF_TLS \<noteq> 0 then (if starts_with n ''.tbss'' then Tbss else Tdata)
      else if flags AND SHF_MERGE \<noteq> 0 then
        (if flags AND SHF_STRINGS \<noteq> 0 then MergeString else MergeConst)
      else if starts_with n ''.text'' then Text
      else if starts_with n ''.rodata'' then ReadOnly
      else if starts_with n ''.data'' then KData
      else if starts_with n ''.bss'' then Bss
      else if is_debug_section_name n then Debug
      else if n = ''.eh_frame'' then EhFrame
      else if starts_with n ''.init_array'' \<or> starts_with n ''.fini_array'' then InitArray
      else Other)"

datatype file_kind = Bare | Archive | Shared

definition ascii :: "string \<Rightarrow> bytes" where
  "ascii s = map of_char s"

definition classify_bytes :: "bytes \<Rightarrow> file_kind" where
  "classify_bytes h =
     (if 8 \<le> length h \<and>
         (take 8 h = ascii ''!<arch>'' @ [10] \<or> take 8 h = ascii ''!<thin>'' @ [10]) then Archive
      else if 18 \<le> length h \<and> take 4 h = [0x7f, 0x45, 0x4c, 0x46] \<and>
         (from_le [h ! 16, h ! 17] :: u16) = 3 then Shared
      else Bare)"

lemma normalize_debug_idem [simp]:
  "normalize_debug_section_name (normalize_debug_section_name n) = normalize_debug_section_name n"
  by (simp add: normalize_debug_section_name_def starts_with_def)

lemma normalize_debug_is_debug [simp]:
  "is_debug_section_name (normalize_debug_section_name n) = is_debug_section_name n"
  by (simp add: normalize_debug_section_name_def is_debug_section_name_def starts_with_def)

text \<open>A section whose flags carry neither TLS nor MERGE is classified by name alone, and decompressing
  a \<^verbatim>\<open>.zdebug_\<close> section under its normalized name does not change its kind.\<close>

lemma classify_normalized:
  "classify_section (normalize_debug_section_name n) flags = classify_section n flags"
proof (cases "starts_with n ''.zdebug_''")
  case True
  then obtain rest where n: "n = ''.zdebug_'' @ rest"
    by (metis append_take_drop_id starts_with_def)
  show ?thesis
    by (simp add: n classify_section_def normalize_debug_section_name_def is_debug_section_name_def
        starts_with_def)
next
  case False
  then show ?thesis by (simp add: normalize_debug_section_name_def)
qed

end
