(* ===== verification/Script.thy ===== *)
theory Script
  imports Object_Input "HOL-Library.Sublist"
begin

text \<open>
  Linker-script placement, \<^verbatim>\<open>peony-layout/src/script.rs\<close>: the output section a script assigns to an
  input name, the order it gives output sections, and its \<^verbatim>\<open>*\<close> patterns.  A Rust \<^verbatim>\<open>str\<close> is the byte list
  of its UTF-8 encoding; searching and splitting at ASCII bytes is the same on bytes and on characters.

  The matcher is compared with the textbook meaning of a pattern, in which each \<^verbatim>\<open>*\<close> stands for any text:
  it never accepts a name the pattern does not match, and accepts all of them when the pattern has no \<^verbatim>\<open>*\<close>
  or ends in one.
\<close>

section \<open>UTF-8 and substrings\<close>

definition cont_byte :: "nat \<Rightarrow> bool" where
  "cont_byte b \<longleftrightarrow> 0x80 \<le> b \<and> b \<le> 0xbf"

text \<open>\<^verbatim>\<open>std::str::from_utf8\<close> accepts exactly these byte strings.\<close>

fun utf8_valid :: "nat list \<Rightarrow> bool" where
  "utf8_valid [] = True"
| "utf8_valid (a # bs) =
     (if a < 0x80 then utf8_valid bs
      else case bs of
        [] \<Rightarrow> False
      | b # bs1 \<Rightarrow>
          if 0xc2 \<le> a \<and> a \<le> 0xdf then cont_byte b \<and> utf8_valid bs1
          else (case bs1 of
            [] \<Rightarrow> False
          | c # bs2 \<Rightarrow>
              if a = 0xe0 then 0xa0 \<le> b \<and> b \<le> 0xbf \<and> cont_byte c \<and> utf8_valid bs2
              else if a = 0xed then 0x80 \<le> b \<and> b \<le> 0x9f \<and> cont_byte c \<and> utf8_valid bs2
              else if 0xe1 \<le> a \<and> a \<le> 0xef then cont_byte b \<and> cont_byte c \<and> utf8_valid bs2
              else (case bs2 of
                [] \<Rightarrow> False
              | d # bs3 \<Rightarrow>
                  (if a = 0xf0 then 0x90 \<le> b \<and> b \<le> 0xbf
                   else if a = 0xf4 then 0x80 \<le> b \<and> b \<le> 0x8f
                   else 0xf1 \<le> a \<and> a \<le> 0xf3 \<and> cont_byte b) \<and>
                  cont_byte c \<and> cont_byte d \<and> utf8_valid bs3)))"

definition is_utf8 :: "name \<Rightarrow> bool" where
  "is_utf8 n = utf8_valid (map of_char n)"

text \<open>\<^verbatim>\<open>str::find\<close>: the least position at which the needle starts.\<close>

fun find_sub :: "'a list \<Rightarrow> 'a list \<Rightarrow> nat option" where
  "find_sub needle [] = (if needle = [] then Some 0 else None)"
| "find_sub needle (x # xs) =
     (if starts_with (x # xs) needle then Some 0 else map_option Suc (find_sub needle xs))"

text \<open>\<^verbatim>\<open>str::split\<close> at a character.\<close>

fun split_at :: "'a \<Rightarrow> 'a list \<Rightarrow> 'a list list" where
  "split_at c [] = [[]]"
| "split_at c (x # xs) =
     (if x = c then [] # split_at c xs
      else case split_at c xs of [] \<Rightarrow> [[x]] | p # ps \<Rightarrow> (x # p) # ps)"

definition ends_with :: "'a list \<Rightarrow> 'a list \<Rightarrow> bool" where
  "ends_with xs s = starts_with (rev xs) (rev s)"

section \<open>The script\<close>

record script_output_section =
  so_name :: name
  so_patterns :: "name list"

record script_layout =
  sl_output_sections :: "script_output_section list"
  sl_keep_patterns :: "name list"

text \<open>The loop over the remaining pieces of a pattern: what is left of the name, and the last piece that
  was not empty.\<close>

fun match_parts :: "name list \<Rightarrow> name \<Rightarrow> name \<Rightarrow> (name \<times> name) option" where
  "match_parts [] rest last_part = Some (rest, last_part)"
| "match_parts (p # ps) rest last_part =
     (if p = [] then match_parts ps rest last_part
      else case find_sub p rest of
        None \<Rightarrow> None
      | Some i \<Rightarrow> match_parts ps (drop (i + length p) rest) p)"

definition match_first :: "name \<Rightarrow> name \<Rightarrow> name \<Rightarrow> name option" where
  "match_first pattern first n =
     (if first = [] then Some n
      else if \<not> starts_with pattern ''*'' then (if starts_with n first then Some (drop (length first) n) else None)
      else map_option (\<lambda>i. drop (i + length first) n) (find_sub first n))"

definition script_pattern_matches :: "name \<Rightarrow> name \<Rightarrow> bool" where
  "script_pattern_matches pattern n =
     (if pattern = ''*'' then True
      else (let parts = split_at CHR ''*'' pattern; anchored_end = (\<not> ends_with pattern ''*'') in
        case match_first pattern (hd parts) n of
          None \<Rightarrow> False
        | Some rest \<Rightarrow>
            (case match_parts (tl parts) rest [] of
               None \<Rightarrow> False
             | Some (rest', last_part) \<Rightarrow> \<not> anchored_end \<or> (ends_with pattern last_part \<and> rest' = []))))"

definition output_for_input :: "script_layout \<Rightarrow> name \<Rightarrow> name option" where
  "output_for_input sl input_name =
     (if is_utf8 input_name
      then map_option so_name
        (find (\<lambda>out. list_ex (\<lambda>pat. script_pattern_matches pat input_name) (so_patterns out)) (sl_output_sections sl))
      else None)"

fun position :: "('a \<Rightarrow> bool) \<Rightarrow> 'a list \<Rightarrow> nat option" where
  "position P [] = None"
| "position P (x # xs) = (if P x then Some 0 else map_option Suc (position P xs))"

definition order_of :: "script_layout \<Rightarrow> name \<Rightarrow> nat option" where
  "order_of sl n = position (\<lambda>out. so_name out = n) (sl_output_sections sl)"

definition keeps_input :: "script_layout \<Rightarrow> name \<Rightarrow> bool" where
  "keeps_input sl input_name \<longleftrightarrow>
     is_utf8 input_name \<and> list_ex (\<lambda>pat. script_pattern_matches pat input_name) (sl_keep_patterns sl)"

section \<open>The meaning of a pattern\<close>

text \<open>Each \<^verbatim>\<open>*\<close> stands for any text, everything else for itself.\<close>

fun glob :: "name \<Rightarrow> name \<Rightarrow> bool" where
  "glob [] n \<longleftrightarrow> n = []"
| "glob (c # p) n \<longleftrightarrow>
     (if c = CHR ''*'' then list_ex (glob p) (suffixes n)
      else case n of [] \<Rightarrow> False | d # n' \<Rightarrow> d = c \<and> glob p n')"

text \<open>The same on the pieces between the stars.\<close>

fun glob_parts :: "name list \<Rightarrow> name \<Rightarrow> bool" where
  "glob_parts [] n \<longleftrightarrow> False"
| "glob_parts [p] n \<longleftrightarrow> n = p"
| "glob_parts (p # ps) n \<longleftrightarrow> (\<exists>m. suffix m (drop (length p) n) \<and> starts_with n p \<and> glob_parts ps m)"

lemma split_at_not_Nil [simp]: "split_at c xs \<noteq> []"
  by (induction xs) (auto split: list.splits)

lemma starts_with_Cons [simp]: "starts_with (x # xs) (y # ys) \<longleftrightarrow> x = y \<and> starts_with xs ys"
  "starts_with xs []" "\<not> starts_with [] (y # ys)"
  by (auto simp: starts_with_def)

lemma starts_with_iff: "starts_with xs p \<longleftrightarrow> (\<exists>r. xs = p @ r)"
  by (auto simp: starts_with_def) (metis append_take_drop_id)

lemma glob_split: "glob pat n \<longleftrightarrow> glob_parts (split_at CHR ''*'' pat) n"
proof (induction pat arbitrary: n)
  case (Cons c pat)
  obtain p ps where sp: "split_at CHR ''*'' pat = p # ps" by (cases "split_at CHR ''*'' pat") simp_all
  show ?case
  proof (cases "c = CHR ''*''")
    case True
    then show ?thesis by (simp add: Cons list_ex_iff sp Bex_def)
  next
    case False
    then show ?thesis
      by (cases n; cases ps) (auto simp: Cons sp)
  qed
qed simp

section \<open>The matcher against the meaning\<close>

text \<open>The pieces occur one after the other.\<close>

fun embeds :: "name list \<Rightarrow> name \<Rightarrow> bool" where
  "embeds [] n \<longleftrightarrow> True"
| "embeds (p # ps) n \<longleftrightarrow> (\<exists>m. suffix (p @ m) n \<and> embeds ps m)"

lemma embeds_mono: "embeds ps m \<Longrightarrow> suffix m n \<Longrightarrow> embeds ps n"
  by (cases ps) (auto intro: suffix_order.order_trans)

lemma find_sub_Some: "find_sub p n = Some i \<Longrightarrow> \<exists>r. drop i n = p @ r"
  by (induction n arbitrary: i) (auto simp: starts_with_iff split: if_splits)

lemma find_sub_leftmost:
  "suffix (p @ m) n \<Longrightarrow> \<exists>i. find_sub p n = Some i \<and> suffix m (drop (i + length p) n)"
proof (induction n)
  case Nil
  then show ?case by (simp add: suffix_def)
next
  case (Cons x n)
  show ?case
  proof (cases "starts_with (x # n) p")
    case True
    then obtain r where r: "x # n = p @ r" by (auto simp: starts_with_iff)
    have "suffix m (drop (length p) (x # n))"
    proof -
      have "suffix m (p @ r)" using Cons.prems unfolding r by (metis suffix_appendD)
      moreover have "length m \<le> length r"
        using suffix_length_le [OF Cons.prems] unfolding r by simp
      ultimately have "suffix m r"
        using suffix_length_suffix [of m "p @ r" r] by (simp add: suffix_def)
      then show ?thesis by (simp add: r)
    qed
    then show ?thesis using True by simp
  next
    case False
    moreover have "suffix (p @ m) n \<or> p @ m = x # n" using Cons.prems by (auto simp: suffix_Cons)
    ultimately have "suffix (p @ m) n" unfolding starts_with_iff by metis
    then show ?thesis using Cons.IH False by auto
  qed
qed

lemma match_parts_embeds: "(match_parts ps n l \<noteq> None) \<longleftrightarrow> embeds ps n"
proof (induction ps arbitrary: n l)
  case (Cons p ps)
  show ?case
  proof (cases "p = []")
    case True
    then show ?thesis using Cons by (auto intro: embeds_mono)
  next
    case False
    show ?thesis
    proof (cases "find_sub p n")
      case None
      then show ?thesis using False find_sub_leftmost [of p _ n] by auto
    next
      case (Some i)
      obtain r where r: "drop i n = p @ r" using find_sub_Some [OF Some] by blast
      have d: "drop (i + length p) n = r" using r by (metis add.commute append_eq_conv_conj drop_drop)
      have "embeds (p # ps) n \<longleftrightarrow> embeds ps r"
      proof
        assume "embeds (p # ps) n"
        then obtain m where m: "suffix (p @ m) n" "embeds ps m" by auto
        then have "suffix m r" using find_sub_leftmost [OF m(1)] Some d by simp
        then show "embeds ps r" using m(2) by (rule embeds_mono [rotated])
      next
        assume "embeds ps r"
        moreover have "suffix (p @ r) n" unfolding r [symmetric] by (rule suffix_drop)
        ultimately show "embeds (p # ps) n" by auto
      qed
      then show ?thesis using False Some Cons d by simp
    qed
  qed
qed simp

text \<open>A pattern that ends in a star: the last piece is empty.\<close>

lemma glob_parts_open: "(\<exists>m. suffix m n \<and> glob_parts (ps @ [[]]) m) \<longleftrightarrow> embeds ps n"
proof (induction ps arbitrary: n)
  case (Cons p ps)
  obtain q qs where q: "ps @ [[]] = q # qs" by (cases "ps @ [[]]") simp_all
  have "glob_parts (p # ps @ [[]]) m \<longleftrightarrow> starts_with m p \<and> embeds ps (drop (length p) m)" for m
    using Cons [of "drop (length p) m"] by (auto simp: q)
  moreover have "(\<exists>m. suffix m n \<and> starts_with m p \<and> embeds ps (drop (length p) m)) \<longleftrightarrow> embeds (p # ps) n"
    by (auto simp: starts_with_iff)
  ultimately show ?case by simp
qed (simp add: Nil_suffix)

text \<open>A pattern that ends otherwise: the name must be used up.\<close>

lemma match_parts_closed:
  "match_parts ps n l = Some ([], l') \<Longrightarrow> ps \<noteq> [] \<Longrightarrow> last ps \<noteq> [] \<Longrightarrow> \<exists>m. suffix m n \<and> glob_parts ps m"
proof (induction ps arbitrary: n l)
  case (Cons p ps)
  obtain n' where n': "suffix (p @ n') n" "match_parts ps n' (if p = [] then l else p) = Some ([], l')"
  proof (cases "p = []")
    case True
    then show ?thesis using Cons.prems(1) that [of n] by simp
  next
    case False
    then obtain i where i: "find_sub p n = Some i" "match_parts ps (drop (i + length p) n) p = Some ([], l')"
      using Cons.prems(1) by (auto split: option.splits)
    obtain r where r: "drop i n = p @ r" using find_sub_Some [OF i(1)] by blast
    have "drop (i + length p) n = r" using r by (metis add.commute append_eq_conv_conj drop_drop)
    then show ?thesis using that [of r] i(2) False suffix_drop [of i n] unfolding r by simp
  qed
  show ?case
  proof (cases ps)
    case Nil
    then have "n' = []" using n'(2) by simp
    then show ?thesis using n'(1) Nil by auto
  next
    case (Cons q qs)
    then obtain m where m: "suffix m n'" "glob_parts ps m"
      using Cons.IH [OF n'(2)] Cons.prems(3) by auto
    then have "glob_parts (p # ps) (p @ n')" using Cons by auto
    then show ?thesis using n'(1) by blast
  qed
qed simp

lemma split_at_single: "split_at c xs = [p] \<Longrightarrow> p = xs \<and> c \<notin> set xs"
  by (induction xs arbitrary: p) (auto split: list.splits if_splits)

lemma split_at_last: "last (split_at c xs) = [] \<longleftrightarrow> xs = [] \<or> last xs = c"
proof (induction xs)
  case (Cons x xs)
  obtain p ps where sp: "split_at c xs = p # ps" by (cases "split_at c xs") simp_all
  show ?case
  proof (cases "ps = []")
    case True
    then have "p = xs" "c \<notin> set xs" using split_at_single sp by metis+
    then show ?thesis using True sp last_in_set [of xs] by auto
  next
    case False
    then have "xs \<noteq> []" using sp by auto
    then show ?thesis using Cons sp False by simp
  qed
qed simp

lemma split_at_none: "c \<notin> set xs \<Longrightarrow> split_at c xs = [xs]"
  by (induction xs) auto

lemma ends_with_single: "ends_with xs [c] \<longleftrightarrow> xs \<noteq> [] \<and> last xs = c"
  by (cases xs rule: rev_cases) (auto simp: ends_with_def)

lemma split_at_hd: "hd (split_at c xs) \<noteq> [] \<Longrightarrow> \<not> starts_with xs [c]"
  by (cases xs) auto

lemma match_first_eq:
  "match_first pat (hd (split_at CHR ''*'' pat)) n =
     (let p = hd (split_at CHR ''*'' pat) in if starts_with n p then Some (drop (length p) n) else None)"
  using split_at_hd [of "CHR ''*''" pat] by (auto simp: match_first_def Let_def)

lemma matches_iff:
  assumes "split_at CHR ''*'' pat = p # ps" "pat \<noteq> ''*''"
  shows "script_pattern_matches pat n \<longleftrightarrow> starts_with n p \<and>
     (\<exists>r l. match_parts ps (drop (length p) n) [] = Some (r, l) \<and>
        (ends_with pat ''*'' \<or> ends_with pat l \<and> r = []))"
  using assms match_first_eq [of pat n]
  by (auto simp: script_pattern_matches_def Let_def split: option.split)

lemma matches_sound:
  assumes "script_pattern_matches pat n" shows "glob pat n"
proof (cases "pat = ''*''")
  case False
  obtain p ps where sp: "split_at CHR ''*'' pat = p # ps" by (cases "split_at CHR ''*'' pat") simp_all
  let ?m = "drop (length p) n"
  obtain r l where m: "starts_with n p" "match_parts ps ?m [] = Some (r, l)"
      "ends_with pat ''*'' \<or> r = []"
    using assms unfolding matches_iff [OF sp False] by blast
  show ?thesis
  proof (cases "ps = []")
    case True
    then have "pat = p" "CHR ''*'' \<notin> set pat" using split_at_single sp by metis+
    then have "\<not> ends_with pat ''*''" using last_in_set [of pat] unfolding ends_with_single by metis
    then have "n = p" using m True by (auto simp: starts_with_iff)
    then show ?thesis using True by (simp add: glob_split sp)
  next
    case False
    have "\<exists>m. suffix m ?m \<and> glob_parts ps m"
    proof (cases "last ps = []")
      case True
      then have eq: "ps = butlast ps @ [[]]" using False by (metis append_butlast_last_id)
      have "embeds ps ?m" using m(2) match_parts_embeds [of ps ?m "[]"] by simp
      moreover have "embeds (qs @ [[]]) k \<Longrightarrow> embeds qs k" for qs k
        by (induction qs arbitrary: k) auto
      ultimately have "embeds (butlast ps) ?m" using eq by metis
      then show ?thesis using glob_parts_open eq by metis
    next
      case l: False
      have "last (split_at CHR ''*'' pat) \<noteq> []" using l False by (simp add: sp)
      then have "r = []" using m(3) by (simp add: split_at_last ends_with_single)
      then show ?thesis using match_parts_closed [of ps ?m "[]" l] m(2) False l by blast
    qed
    then show ?thesis using m(1) False by (cases ps) (auto simp: glob_split sp)
  qed
qed (simp add: list_ex_iff)

lemma matches_complete:
  assumes "ends_with pat ''*'' \<or> CHR ''*'' \<notin> set pat" "glob pat n"
  shows "script_pattern_matches pat n"
proof (cases "pat = ''*''")
  case False
  obtain p ps where sp: "split_at CHR ''*'' pat = p # ps" by (cases "split_at CHR ''*'' pat") simp_all
  let ?m = "drop (length p) n"
  show ?thesis
  proof (cases "ps = []")
    case True
    then have "pat = p" using split_at_single sp by metis
    moreover have "n = p" using assms(2) True by (simp add: glob_split sp)
    ultimately show ?thesis using True unfolding matches_iff [OF sp False] by (simp add: starts_with_def ends_with_def)
  next
    case ps: False
    then have "CHR ''*'' \<in> set pat" using split_at_none [of "CHR ''*''" pat] sp by auto
    then have star: "ends_with pat ''*''" using assms(1) by simp
    then have "last ps = []" using split_at_last [of "CHR ''*''" pat] ps by (simp add: sp ends_with_single)
    then have eq: "ps = butlast ps @ [[]]" using ps by (metis append_butlast_last_id)
    have g: "starts_with n p" "\<exists>m. suffix m ?m \<and> glob_parts ps m"
      using assms(2) ps by (cases ps; simp add: glob_split sp; blast)+
    then have "embeds (butlast ps) ?m" using glob_parts_open eq by metis
    moreover have "embeds qs k \<Longrightarrow> embeds (qs @ [[]]) k" for qs k
      by (induction qs arbitrary: k) auto
    ultimately have "embeds ps ?m" using eq by metis
    then have "match_parts ps ?m [] \<noteq> None" by (simp only: match_parts_embeds)
    then show ?thesis using g(1) star by (auto simp: matches_iff [OF sp False])
  qed
qed (simp add: script_pattern_matches_def)

text \<open>The pattern matcher of linker scripts is sound, it accepts only names in which
  the pattern's text occurs with each star standing for some text, and it is exact on the patterns that
  have no star or end in one, such as \<^verbatim>\<open>.text\<close> and \<^verbatim>\<open>.text.*\<close>.\<close>

theorem script_pattern_meaning:
  "(script_pattern_matches pat n \<longrightarrow> glob pat n) \<and>
   (ends_with pat ''*'' \<or> CHR ''*'' \<notin> set pat \<longrightarrow> script_pattern_matches pat n = glob pat n)"
  using matches_sound matches_complete by blast

theorem script_pattern_meaning_witness:
  "script_pattern_matches ''.text*'' ''.text.hot'' \<and> glob ''.text*'' ''.text.hot''"
proof -
  have m: "script_pattern_matches ''.text*'' ''.text.hot''"
    by (simp add: script_pattern_matches_def match_first_def ends_with_single)
  moreover have "ends_with ''.text*'' ''*''" by (simp add: ends_with_single)
  ultimately show ?thesis using script_pattern_meaning [of "''.text*''" "''.text.hot''"] by blast
qed

text \<open>With an anchored end the leftmost search can overshoot: \<^verbatim>\<open>*.o\<close> rejects \<^verbatim>\<open>a.o.o\<close>.\<close>

lemma script_pattern_greedy:
  "\<not> script_pattern_matches ''*.o'' ''a.o.o'' \<and> glob ''*.o'' ''a.o.o''"
  by (simp add: script_pattern_matches_def match_first_def ends_with_single ends_with_def)

end
