(* ===== verification/Rust_Text.thy ===== *)
theory Rust_Text
  imports Script
begin

text \<open>
  The text operations of the Rust standard library that the driver's small parsers are written with, on UTF-8 byte
  strings: white space, trimming, splitting, lines, and integers.  White space is Unicode's, so some of it takes two or
  three bytes; these encodings start with a byte no other character contains, which is why looking at bytes is enough.
\<close>

section \<open>White space\<close>

text \<open>The length of the white space character a text starts with, 0 if it starts with another one.\<close>

definition is_ascii_ws :: "char \<Rightarrow> bool" where
  "is_ascii_ws c \<longleftrightarrow> of_char c \<in> {9, 10, 11, 12, 13, 32 :: nat}"

definition ws_pair :: "nat \<Rightarrow> nat \<Rightarrow> bool" where
  "ws_pair a b \<longleftrightarrow> a = 0xc2 \<and> (b = 0x85 \<or> b = 0xa0)"

definition ws_triple :: "nat \<Rightarrow> nat \<Rightarrow> nat \<Rightarrow> bool" where
  "ws_triple a b c \<longleftrightarrow>
     (a = 0xe1 \<and> b = 0x9a \<and> c = 0x80) \<or>
     (a = 0xe2 \<and> b = 0x80 \<and> (0x80 \<le> c \<and> c \<le> 0x8a \<or> c = 0xa8 \<or> c = 0xa9 \<or> c = 0xaf)) \<or>
     (a = 0xe2 \<and> b = 0x81 \<and> c = 0x9f) \<or> (a = 0xe3 \<and> b = 0x80 \<and> c = 0x80)"

fun ws_len :: "name \<Rightarrow> nat" where
  "ws_len [] = 0"
| "ws_len (a # s) =
     (if is_ascii_ws a then 1
      else case s of
        b # c # _ \<Rightarrow> (if ws_pair (of_char a) (of_char b) then 2
                     else if ws_triple (of_char a) (of_char b) (of_char c) then 3 else 0)
      | [b] \<Rightarrow> (if ws_pair (of_char a) (of_char b) then 2 else 0)
      | [] \<Rightarrow> 0)"

lemma ws_len_le: "ws_len s \<le> length s"
  by (cases s) (auto split: list.splits)

function trim_start :: "name \<Rightarrow> name" where
  "trim_start s = (if ws_len s = 0 then s else trim_start (drop (ws_len s) s))"
  by auto
termination by (relation "measure length") (use ws_len_le le_less_trans in \<open>auto simp: not_le intro!: diff_less\<close>)

declare trim_start.simps [simp del]

fun trim_end :: "name \<Rightarrow> name" where
  "trim_end [] = []"
| "trim_end (a # s) = (if trim_start (a # s) = [] then [] else a # trim_end s)"

definition trim :: "name \<Rightarrow> name" where
  "trim s = trim_end (trim_start s)"

text \<open>\<^verbatim>\<open>str::split_whitespace\<close>; the accumulator holds the word before the rest, reversed.\<close>

definition end_word :: "name \<Rightarrow> name list" where
  "end_word w = (if w = [] then [] else [rev w])"

function words_from :: "name \<Rightarrow> name \<Rightarrow> name list" where
  "words_from w [] = end_word w"
| "words_from w (a # s) =
     (if ws_len (a # s) = 0 then words_from (a # w) s
      else end_word w @ words_from [] (drop (ws_len (a # s)) (a # s)))"
  by pat_completeness auto
termination by (relation "measure (\<lambda>(w, s). length s)") (auto simp del: ws_len.simps drop.simps)

definition split_whitespace :: "name \<Rightarrow> name list" where
  "split_whitespace s = words_from [] s"

lemma in_map_filter: "y \<in> set (List.map_filter f xs) \<longleftrightarrow> (\<exists>x \<in> set xs. f x = Some y)"
  by (force simp: List.map_filter_def)

section \<open>Decoding\<close>

text \<open>The length of the character a byte string starts with, or the length of the longest start of one that is not
  continued; \<^verbatim>\<open>String::from_utf8_lossy\<close> puts U+FFFD for each of the latter.\<close>

fun utf8_char :: "nat list \<Rightarrow> bool \<times> nat" where
  "utf8_char [] = (True, 0)"
| "utf8_char (a # bs) =
     (let second = (\<lambda>b. if a = 0xe0 then 0xa0 \<le> b \<and> b \<le> 0xbf else if a = 0xed then 0x80 \<le> b \<and> b \<le> 0x9f
                       else if a = 0xf0 then 0x90 \<le> b \<and> b \<le> 0xbf else if a = 0xf4 then 0x80 \<le> b \<and> b \<le> 0x8f
                       else cont_byte b);
          follow = takeWhile cont_byte (drop 1 bs)
      in if a < 0x80 then (True, 1)
         else if a < 0xc2 \<or> 0xf4 < a \<or> bs = [] \<or> \<not> second (hd bs) then (False, 1)
         else if a \<le> 0xdf then (True, 2)
         else if a \<le> 0xef then (if follow = [] then (False, 2) else (True, 3))
         else if length follow < 2 then (False, 2 + length follow) else (True, 4))"

lemma utf8_char_length: "0 < snd (utf8_char (a # bs))"
  by (simp add: Let_def)

function from_utf8_lossy :: "name \<Rightarrow> name" where
  "from_utf8_lossy [] = []"
| "from_utf8_lossy (c # s) =
     (let (ok, n) = utf8_char (map of_char (c # s))
      in (if ok then take n (c # s) else map char_of [0xef, 0xbf, 0xbd :: nat]) @ from_utf8_lossy (drop n (c # s)))"
  by pat_completeness auto
termination
proof (relation "measure length")
  fix c s x ok n assume "x = utf8_char (map of_char (c # s))" "(ok, n) = x"
  then have "0 < n" using utf8_char_length [of "of_char c" "map of_char s"] by (metis list.simps(9) snd_conv)
  then show "(drop n (c # s), c # s) \<in> measure length" by simp
qed simp

section \<open>Lines and pieces\<close>

text \<open>\<^verbatim>\<open>str::lines\<close>: a line ends in a line feed, which takes a carriage return before it along.\<close>

definition strip_cr :: "name \<Rightarrow> name" where
  "strip_cr l = (if l \<noteq> [] \<and> of_char (last l) = (13 :: nat) then butlast l else l)"

definition text_lines :: "name \<Rightarrow> name list" where
  "text_lines s =
     (let ls = split_at (char_of (10 :: nat)) s in map strip_cr (butlast ls) @ (if last ls = [] then [] else [last ls]))"

text \<open>\<^verbatim>\<open>str::split\<close> at a string, and its first piece.\<close>

definition before_str :: "name \<Rightarrow> name \<Rightarrow> name" where
  "before_str sep s = (case find_sub sep s of Some i \<Rightarrow> take i s | None \<Rightarrow> s)"

text \<open>\<^verbatim>\<open>str::split\<close> at any of several ASCII characters.\<close>

fun split_any :: "char set \<Rightarrow> name \<Rightarrow> name list" where
  "split_any cs [] = [[]]"
| "split_any cs (x # xs) =
     (if x \<in> cs then [] # split_any cs xs
      else case split_any cs xs of [] \<Rightarrow> [[x]] | p # ps \<Rightarrow> (x # p) # ps)"

definition split_once :: "char \<Rightarrow> name \<Rightarrow> (name \<times> name) option" where
  "split_once c s =
     (if c \<in> set s then Some (takeWhile (\<lambda>x. x \<noteq> c) s, tl (dropWhile (\<lambda>x. x \<noteq> c) s)) else None)"

definition strip_prefix :: "name \<Rightarrow> name \<Rightarrow> name option" where
  "strip_prefix p s = (if starts_with s p then Some (drop (length p) s) else None)"

definition strip_suffix :: "name \<Rightarrow> name \<Rightarrow> name option" where
  "strip_suffix p s = (if ends_with s p then Some (take (length s - length p) s) else None)"

definition contains_str :: "name \<Rightarrow> name \<Rightarrow> bool" where
  "contains_str s p \<longleftrightarrow> find_sub p s \<noteq> None"

text \<open>A character map over an ASCII set: every character of it becomes a space.\<close>

definition blank_out :: "char set \<Rightarrow> name \<Rightarrow> name" where
  "blank_out cs s = map (\<lambda>c. if c \<in> cs then CHR '' '' else c) s"

section \<open>Paths\<close>

text \<open>\<^verbatim>\<open>Path::with_extension\<close>: the text after the last dot of the file name is replaced; a dot that starts the name begins
  no extension.  Slashes and \<^verbatim>\<open>.\<close> components at the end do not count; \<open>path_core\<close> drops them from the reversed path.\<close>

fun path_core :: "string \<Rightarrow> string" where
  "path_core p =
     (case p of
        c # q \<Rightarrow>
          (if c = CHR ''/'' then path_core q
           else case q of
             d # r \<Rightarrow> (if c = CHR ''.'' \<and> d = CHR ''/'' then path_core r else p)
           | [] \<Rightarrow> p)
      | [] \<Rightarrow> [])"

definition file_name :: "string \<Rightarrow> string option" where
  "file_name p =
     (let f = rev (takeWhile (\<lambda>c. c \<noteq> CHR ''/'') (path_core (rev p)))
      in if f \<in> {[], ''.'', ''..''} then None else Some f)"

definition file_stem :: "string \<Rightarrow> string" where
  "file_stem f =
     (case dropWhile (\<lambda>c. c \<noteq> CHR ''.'') (rev f) of
        [] \<Rightarrow> f
      | [_] \<Rightarrow> f
      | _ # s \<Rightarrow> rev s)"

definition with_extension :: "string \<Rightarrow> string \<Rightarrow> string" where
  "with_extension p e =
     (case file_name p of
        None \<Rightarrow> p
      | Some f \<Rightarrow>
          (let q = rev (path_core (rev p)) in take (length q - length f) q @ file_stem f @ ''.'' @ e))"

declare path_core.simps [simp del]

section \<open>Character classes and integers\<close>

definition is_digit :: "char \<Rightarrow> bool" where
  "is_digit c \<longleftrightarrow> 48 \<le> (of_char c :: nat) \<and> (of_char c :: nat) \<le> 57"

definition is_alpha :: "char \<Rightarrow> bool" where
  "is_alpha c \<longleftrightarrow> (65 \<le> (of_char c :: nat) \<and> (of_char c :: nat) \<le> 90) \<or> (97 \<le> (of_char c :: nat) \<and> (of_char c :: nat) \<le> 122)"

definition is_alnum :: "char \<Rightarrow> bool" where
  "is_alnum c \<longleftrightarrow> is_alpha c \<or> is_digit c"

definition digit_value :: "char \<Rightarrow> nat option" where
  "digit_value c =
     (let n = of_char c in
      if 48 \<le> n \<and> n \<le> 57 then Some (n - 48)
      else if 97 \<le> n \<and> n \<le> 122 then Some (n - 87)
      else if 65 \<le> n \<and> n \<le> 90 then Some (n - 55) else None)"

fun digits_value :: "nat \<Rightarrow> nat \<Rightarrow> name \<Rightarrow> nat option" where
  "digits_value radix acc [] = (if acc < 2 ^ 64 then Some acc else None)"
| "digits_value radix acc (c # cs) =
     (case digit_value c of
        Some d \<Rightarrow> if d < radix \<and> acc < 2 ^ 64 then digits_value radix (acc * radix + d) cs else None
      | None \<Rightarrow> None)"

text \<open>\<^verbatim>\<open>u64::from_str_radix\<close>: an optional plus sign, at least one digit, no overflow.\<close>

definition u64_from_str_radix :: "nat \<Rightarrow> name \<Rightarrow> u64 option" where
  "u64_from_str_radix radix s =
     (let ds = (if starts_with s ''+'' then tl s else s)
      in if ds = [] then None else map_option of_nat (digits_value radix 0 ds))"

end
