(* ===== verification/Symbols.thy ===== *)
theory Symbols
  imports Object_Input
begin

text \<open>
  The global symbol table of \<^verbatim>\<open>peony-symbols/src/lib.rs\<close>.  The hash map from names to
  resolutions is an association list with distinct keys (no result below depends on its order),
  \<^verbatim>\<open>get_mut\<close> followed by field assignments is \<open>put_res\<close> of the changed record.  Symbol and object ids
  are \<open>u32\<close> as in the code, minted by truncating the length of a vector.

  The contract of resolution is the per-name specification \<open>adef\<close>: nothing, an undefined reference,
  a tentative definition, a weak or a strong definition.  \<open>merge_symbol_refines\<close> shows that the code's
  merge implements one step of it, \<open>merge_all_spec\<close> gives the outcome of resolving a whole link in closed
  form, and \<open>table_ops_ok\<close> shows that every sequence of table operations keeps the id table sound.
\<close>

section \<open>State\<close>

record resolution =
  res_id :: u32
  res_binding :: binding
  res_defined_in :: "u32 option"
  res_section_index :: "nat option"
  res_value :: u64
  res_size :: u64
  res_common :: "(u64 \<times> u64) option"
  res_import :: bool
  res_copy_reloc :: bool
  res_dynsym_index :: u32
  res_virtual_address :: u64
  res_got_address :: u64
  res_plt_address :: u64
  res_gottp_address :: u64
  res_version :: "name option"
  res_soname :: "string option"
  res_is_ifunc :: bool
  res_st_type :: u8
  res_visibility :: u8

datatype symbol_error = DuplicateSymbol name string string | UndefinedSymbol name

record symbol_table =
  resolutions :: "(name \<times> resolution) list"
  names :: "name list"
  object_paths :: "string list"

definition cached_defined :: "u64 \<Rightarrow> u64 \<Rightarrow> u64 \<Rightarrow> u64 \<Rightarrow> resolution" where
  "cached_defined va got plt sz =
     \<lparr>res_id = - 1, res_binding = Global, res_defined_in = Some 0, res_section_index = None,
      res_value = 0, res_size = sz, res_common = None, res_import = False,
      res_copy_reloc = False, res_dynsym_index = 0, res_virtual_address = va,
      res_got_address = got, res_plt_address = plt, res_gottp_address = 0, res_version = None,
      res_soname = None, res_is_ifunc = False, res_st_type = 0, res_visibility = 0\<rparr>"

definition is_export :: "resolution \<Rightarrow> bool" where
  "is_export r \<longleftrightarrow> res_defined_in r \<noteq> None \<and> \<not> res_import r \<and> res_common r = None \<and>
     (res_visibility r = 0 \<or> res_visibility r = 3)"

definition is_defined :: "resolution \<Rightarrow> bool" where
  "is_defined r \<longleftrightarrow> res_defined_in r \<noteq> None \<or> res_import r"

definition symbol_table_new :: symbol_table where
  "symbol_table_new = \<lparr>resolutions = [], names = [], object_paths = []\<rparr>"

definition add_object :: "string \<Rightarrow> symbol_table \<Rightarrow> u32 \<times> symbol_table" where
  "add_object p st =
     (of_nat (length (object_paths st)), st\<lparr>object_paths := object_paths st @ [p]\<rparr>)"

definition lookup :: "symbol_table \<Rightarrow> name \<Rightarrow> resolution option" where
  "lookup st n = map_of (resolutions st) n"

definition put_res :: "name \<Rightarrow> resolution \<Rightarrow> symbol_table \<Rightarrow> symbol_table" where
  "put_res n r st = st\<lparr>resolutions := AList.update n r (resolutions st)\<rparr>"

text \<open>\<^verbatim>\<open>SymbolId(self.names.len() as u32)\<close> and the push of the name.\<close>

definition next_id :: "symbol_table \<Rightarrow> u32" where
  "next_id st = of_nat (length (names st))"

definition push_name :: "name \<Rightarrow> symbol_table \<Rightarrow> symbol_table" where
  "push_name n st = st\<lparr>names := names st @ [n]\<rparr>"

definition make_undefined_resolution :: resolution where
  "make_undefined_resolution =
     \<lparr>res_id = - 1, res_binding = Global, res_defined_in = None, res_section_index = None,
      res_value = 0, res_size = 0, res_common = None, res_import = False,
      res_copy_reloc = False, res_dynsym_index = 0, res_virtual_address = 0,
      res_got_address = 0, res_plt_address = 0, res_gottp_address = 0, res_version = None,
      res_soname = None, res_is_ifunc = False, res_st_type = 0, res_visibility = 0\<rparr>"

section \<open>Merging\<close>

datatype conflict_action = SatisfyUndef | Upgrade | KeepExisting | WarnLocal

definition conflict_action ::
  "resolution \<Rightarrow> u32 \<Rightarrow> input_symbol \<Rightarrow> string list \<Rightarrow> (symbol_error, conflict_action) outcome" where
  "conflict_action e obj_id s paths =
     (case (res_defined_in e, res_binding e, sym_binding s) of
        (None, _, _) \<Rightarrow> Ok SatisfyUndef
      | (Some _, Weak, Global) \<Rightarrow> Ok Upgrade
      | (Some d, Global, Global) \<Rightarrow>
          (case (get paths (unat d), get paths (unat obj_id)) of
             (Some p, Some q) \<Rightarrow> Err (DuplicateSymbol (sym_name s) p q)
           | _ \<Rightarrow> Panic)
      | (Some _, _, Weak) \<Rightarrow> Ok KeepExisting
      | _ \<Rightarrow> Ok WarnLocal)"

definition merge_common :: "u32 \<Rightarrow> input_symbol \<Rightarrow> symbol_table \<Rightarrow> symbol_table" where
  "merge_common obj_id s st =
     (let n = sym_name s; sz = sym_size s; align = max (sym_value s) 1 in
      case lookup st n of
        Some e \<Rightarrow>
          (case (res_defined_in e, res_common e) of
             (Some _, None) \<Rightarrow> st
           | (_, Some (es, ea)) \<Rightarrow>
               put_res n (e\<lparr>res_common := Some (max sz es, max align ea),
                            res_size := max sz es\<rparr>) st
           | (None, None) \<Rightarrow>
               put_res n (e\<lparr>res_id := next_id st, res_binding := sym_binding s,
                            res_defined_in := Some obj_id, res_section_index := None,
                            res_size := sz, res_common := Some (sz, align)\<rparr>)
                 (push_name n st))
      | None \<Rightarrow>
          put_res n (make_undefined_resolution
              \<lparr>res_id := next_id st, res_binding := sym_binding s,
               res_defined_in := Some obj_id, res_size := sz,
               res_common := Some (sz, align)\<rparr>)
            (push_name n st))"

text \<open>The fields a definition binds, in the assignment sequence of \<^verbatim>\<open>merge_symbol\<close>.\<close>

definition bind_definition :: "u32 \<Rightarrow> input_symbol \<Rightarrow> resolution \<Rightarrow> resolution" where
  "bind_definition obj_id s e =
     e\<lparr>res_binding := sym_binding s, res_defined_in := Some obj_id,
       res_section_index := sym_section s, res_value := sym_value s,
       res_size := sym_size s, res_st_type := sym_st_type s,
       res_visibility := sym_visibility s\<rparr>"

definition merge_defined ::
  "u32 \<Rightarrow> input_symbol \<Rightarrow> symbol_table \<Rightarrow> (symbol_error, symbol_table) outcome" where
  "merge_defined obj_id s st =
     (let n = sym_name s in
      case lookup st n of
        Some e \<Rightarrow>
          if res_common e \<noteq> None then
            Ok (put_res n ((bind_definition obj_id s e)\<lparr>res_common := None\<rparr>) st)
          else bind_outcome (conflict_action e obj_id s (object_paths st)) (\<lambda>action.
            case action of
              SatisfyUndef \<Rightarrow>
                Ok (put_res n ((bind_definition obj_id s e)
                      \<lparr>res_id := next_id st, res_is_ifunc := sym_is_ifunc s\<rparr>) (push_name n st))
            | Upgrade \<Rightarrow>
                Ok (put_res n ((bind_definition obj_id s e)
                      \<lparr>res_is_ifunc := sym_is_ifunc s\<rparr>) st)
            | KeepExisting \<Rightarrow> Ok st
            | WarnLocal \<Rightarrow> Ok st)
      | None \<Rightarrow>
          Ok (put_res n ((bind_definition obj_id s make_undefined_resolution)
                \<lparr>res_id := next_id st, res_is_ifunc := sym_is_ifunc s\<rparr>) (push_name n st)))"

definition merge_symbol ::
  "u32 \<Rightarrow> input_symbol \<Rightarrow> symbol_table \<Rightarrow> (symbol_error, symbol_table) outcome" where
  "merge_symbol obj_id s st =
     (let n = sym_name s in
      if sym_is_undefined s then
        (case lookup st n of
           Some e \<Rightarrow>
             if res_defined_in e \<noteq> None then Ok st
             else if sym_binding s = Global
             then Ok (put_res n (e\<lparr>res_binding := Global\<rparr>) st) else Ok st
         | None \<Rightarrow>
             Ok (put_res n (make_undefined_resolution\<lparr>res_binding := sym_binding s\<rparr>) st))
      else if sym_is_common s then Ok (merge_common obj_id s st)
      else merge_defined obj_id s st)"

text \<open>Which symbols of an object reach the table.\<close>

definition merges :: "nat set \<Rightarrow> input_symbol \<Rightarrow> bool" where
  "merges excluded s \<longleftrightarrow>
     sym_binding s \<noteq> Local \<and> sym_name s \<noteq> [] \<and>
     (case sym_section s of Some si \<Rightarrow> si \<notin> excluded | None \<Rightarrow> True)"

fun process_symbols ::
  "u32 \<Rightarrow> nat set \<Rightarrow> input_symbol list \<Rightarrow> symbol_table \<Rightarrow> (symbol_error, symbol_table) outcome" where
  "process_symbols obj_id excluded [] st = Ok st"
| "process_symbols obj_id excluded (s # syms) st =
     (if merges excluded s
      then bind_outcome (merge_symbol obj_id s st) (process_symbols obj_id excluded syms)
      else process_symbols obj_id excluded syms st)"

definition process_object_excluding ::
  "u32 \<Rightarrow> input_object \<Rightarrow> nat set \<Rightarrow> symbol_table \<Rightarrow> (symbol_error, symbol_table) outcome" where
  "process_object_excluding obj_id obj excluded st =
     process_symbols obj_id excluded (symbols obj) st"

definition process_object ::
  "u32 \<Rightarrow> input_object \<Rightarrow> symbol_table \<Rightarrow> (symbol_error, symbol_table) outcome" where
  "process_object obj_id obj st = process_object_excluding obj_id obj {} st"

section \<open>Lookups, imports and linker-defined symbols\<close>

definition insert_cached :: "name \<Rightarrow> resolution \<Rightarrow> symbol_table \<Rightarrow> symbol_table" where
  "insert_cached n r st = put_res n r st"

fun id_index_from :: "symbol_table \<Rightarrow> name list \<Rightarrow> resolution option list \<Rightarrow> resolution option list" where
  "id_index_from st [] out = out"
| "id_index_from st (n # ns) out =
     (case lookup st n of
        Some r \<Rightarrow>
          (if unat (res_id r) < length out
           then id_index_from st ns (out[unat (res_id r) := Some r])
           else id_index_from st ns out)
      | None \<Rightarrow> id_index_from st ns out)"

definition build_id_index :: "symbol_table \<Rightarrow> resolution option list" where
  "build_id_index st = id_index_from st (names st) (replicate (length (names st)) None)"

definition force_undefined :: "name \<Rightarrow> symbol_table \<Rightarrow> symbol_table" where
  "force_undefined n st =
     (let e = (case lookup st n of Some e \<Rightarrow> e | None \<Rightarrow> make_undefined_resolution) in
      put_res n (if \<not> is_defined e then e\<lparr>res_binding := Global\<rparr> else e) st)"

definition satisfies :: "symbol_table \<Rightarrow> name \<Rightarrow> bool" where
  "satisfies st n =
     (case lookup st n of Some r \<Rightarrow> res_defined_in r = None \<and> \<not> res_import r | None \<Rightarrow> False)"

definition import_from :: "name \<Rightarrow> (resolution \<Rightarrow> resolution) \<Rightarrow> symbol_table \<Rightarrow> symbol_table" where
  "import_from n f st =
     (case lookup st n of
        Some r \<Rightarrow> put_res n (f (r\<lparr>res_import := True, res_copy_reloc := False,
                                   res_id := next_id st\<rparr>)) (push_name n st)
      | None \<Rightarrow> st)"

fun register_exports_from ::
  "name list \<Rightarrow> nat \<Rightarrow> name option list \<Rightarrow> string \<Rightarrow> nat \<Rightarrow> symbol_table \<Rightarrow> nat \<times> symbol_table" where
  "register_exports_from [] i versions soname cnt st = (cnt, st)"
| "register_exports_from (n # ns) i versions soname cnt st =
     (if satisfies st n then
        register_exports_from ns (i + 1) versions soname (cnt + 1)
          (import_from n (\<lambda>r. r\<lparr>res_version := Option.bind (get versions i) id,
                                 res_soname := Some soname\<rparr>) st)
      else register_exports_from ns (i + 1) versions soname cnt st)"

definition register_shared_exports_versioned ::
  "name list \<Rightarrow> name option list \<Rightarrow> string \<Rightarrow> symbol_table \<Rightarrow> nat \<times> symbol_table" where
  "register_shared_exports_versioned exports versions soname st =
     register_exports_from exports 0 versions soname 0 st"

definition register_shared_exports :: "name list \<Rightarrow> symbol_table \<Rightarrow> nat \<times> symbol_table" where
  "register_shared_exports exports st = register_shared_exports_versioned exports [] [] st"

record shared_export =
  ex_name :: name
  ex_version :: "name option"
  ex_size :: u64
  ex_st_type :: u8

fun register_export_symbols_from ::
  "shared_export list \<Rightarrow> string \<Rightarrow> nat \<Rightarrow> symbol_table \<Rightarrow> nat \<times> symbol_table" where
  "register_export_symbols_from [] soname cnt st = (cnt, st)"
| "register_export_symbols_from (ex # exs) soname cnt st =
     (if satisfies st (ex_name ex) then
        register_export_symbols_from exs soname (cnt + 1)
          (import_from (ex_name ex)
             (\<lambda>r. r\<lparr>res_version := ex_version ex, res_soname := Some soname,
                     res_size := ex_size ex, res_st_type := ex_st_type ex\<rparr>) st)
      else register_export_symbols_from exs soname cnt st)"

definition register_shared_export_symbols ::
  "shared_export list \<Rightarrow> string \<Rightarrow> symbol_table \<Rightarrow> nat \<times> symbol_table" where
  "register_shared_export_symbols exports soname st =
     register_export_symbols_from exports soname 0 st"

definition mark_copy_reloc :: "name \<Rightarrow> symbol_table \<Rightarrow> symbol_table" where
  "mark_copy_reloc n st =
     (case lookup st n of
        Some r \<Rightarrow> if res_import r then put_res n (r\<lparr>res_copy_reloc := True\<rparr>) st else st
      | None \<Rightarrow> st)"

definition has_imports :: "symbol_table \<Rightarrow> bool" where
  "has_imports st = list_ex (\<lambda>(n, r). res_import r) (resolutions st)"

definition ensure_id :: "name \<Rightarrow> symbol_table \<Rightarrow> u32 option \<times> symbol_table" where
  "ensure_id n st =
     (case lookup st n of
        Some r \<Rightarrow>
          (if res_id r = - 1
           then (Some (next_id st), put_res n (r\<lparr>res_id := next_id st\<rparr>) (push_name n st))
           else (Some (res_id r), st))
      | None \<Rightarrow> (None, st))"

definition define_absolute :: "name \<Rightarrow> u64 \<Rightarrow> symbol_table \<Rightarrow> symbol_table" where
  "define_absolute n v st =
     (let e = (case lookup st n of Some e \<Rightarrow> e | None \<Rightarrow> make_undefined_resolution) in
      put_res n (e\<lparr>res_defined_in := Some 0, res_section_index := None, res_value := v,
                   res_virtual_address := v\<rparr>) st)"

definition name_by_id :: "symbol_table \<Rightarrow> u32 \<Rightarrow> name option" where
  "name_by_id st i = get (names st) (unat i)"

definition id_count :: "symbol_table \<Rightarrow> nat" where
  "id_count st = length (names st)"

definition object_path :: "symbol_table \<Rightarrow> u32 \<Rightarrow> string option" where
  "object_path st i = get (object_paths st) (unat i)"

section \<open>Access lemmas\<close>

lemma lookup_put_res [simp]: "lookup (put_res n r st) m = (if m = n then Some r else lookup st m)"
  by (simp add: lookup_def put_res_def update_conv')

lemma lookup_push_name [simp]: "lookup (push_name n st) = lookup st"
  by (simp add: lookup_def push_name_def fun_eq_iff)

lemma table_access [simp]:
  "names (put_res n r st) = names st"
  "object_paths (put_res n r st) = object_paths st"
  "names (push_name n st) = names st @ [n]"
  "object_paths (push_name n st) = object_paths st"
  by (simp_all add: put_res_def push_name_def)

lemma bind_definition_access [simp]:
  "res_binding (bind_definition o' s e) = sym_binding s"
  "res_defined_in (bind_definition o' s e) = Some o'"
  "res_section_index (bind_definition o' s e) = sym_section s"
  "res_value (bind_definition o' s e) = sym_value s"
  "res_size (bind_definition o' s e) = sym_size s"
  "res_common (bind_definition o' s e) = res_common e"
  "res_id (bind_definition o' s e) = res_id e"
  "res_import (bind_definition o' s e) = res_import e"
  by (simp_all add: bind_definition_def)

lemma undefined_access [simp]:
  "res_binding make_undefined_resolution = Global"
  "res_defined_in make_undefined_resolution = None"
  "res_common make_undefined_resolution = None"
  "res_id make_undefined_resolution = - 1"
  "res_import make_undefined_resolution = False"
  by (simp_all add: make_undefined_resolution_def)


section \<open>The contract of resolution, per name\<close>

type_synonym def_site = "u32 \<times> nat option \<times> u64 \<times> u64"

datatype adef = ANone | AUndef binding | ACommon u64 u64 | AWeak def_site | AStrong def_site

definition site :: "u32 \<times> input_symbol \<Rightarrow> def_site" where
  "site e = (case e of (obj, s) \<Rightarrow> (obj, sym_section s, sym_value s, sym_size s))"

text \<open>One more declaration of a name; \<open>None\<close> is the duplicate-symbol error.\<close>

fun amerge :: "adef \<Rightarrow> u32 \<times> input_symbol \<Rightarrow> adef option" where
  "amerge a (obj, s) =
     (if sym_is_undefined s then
        (case a of
           ANone \<Rightarrow> Some (AUndef (sym_binding s))
         | AUndef b \<Rightarrow> Some (AUndef (if sym_binding s = Global then Global else b))
         | _ \<Rightarrow> Some a)
      else if sym_is_common s then
        (case a of
           ACommon sz al \<Rightarrow> Some (ACommon (max (sym_size s) sz) (max (max (sym_value s) 1) al))
         | AWeak d \<Rightarrow> Some a
         | AStrong d \<Rightarrow> Some a
         | _ \<Rightarrow> Some (ACommon (sym_size s) (max (sym_value s) 1)))
      else if sym_binding s = Weak then
        (case a of
           AWeak d \<Rightarrow> Some a
         | AStrong d \<Rightarrow> Some a
         | _ \<Rightarrow> Some (AWeak (site (obj, s))))
      else
        (case a of AStrong d \<Rightarrow> None | _ \<Rightarrow> Some (AStrong (site (obj, s)))))"

definition abs_res :: "resolution option \<Rightarrow> adef" where
  "abs_res r =
     (case r of
        None \<Rightarrow> ANone
      | Some e \<Rightarrow>
          (case res_defined_in e of
             None \<Rightarrow> AUndef (res_binding e)
           | Some obj \<Rightarrow>
               (case res_common e of
                  Some (sz, al) \<Rightarrow> ACommon sz al
                | None \<Rightarrow>
                    (let d = (obj, res_section_index e, res_value e, res_size e) in
                     if res_binding e = Weak then AWeak d else AStrong d))))"

text \<open>What the table promises between calls: no local binding, tentative definitions are
  definitions, and every defining object has a path (object 0 also stands for the linker itself).\<close>

definition res_ok :: "string list \<Rightarrow> resolution \<Rightarrow> bool" where
  "res_ok paths e \<longleftrightarrow> res_binding e \<noteq> Local \<and> (res_common e \<noteq> None \<longrightarrow> res_defined_in e \<noteq> None) \<and>
     (\<forall>d. res_defined_in e = Some d \<longrightarrow> d = 0 \<or> unat d < length paths)"

definition table_ok :: "symbol_table \<Rightarrow> bool" where
  "table_ok st \<longleftrightarrow> (\<forall>n e. lookup st n = Some e \<longrightarrow> res_ok (object_paths st) e)"

lemma table_ok_new [simp]: "table_ok (symbol_table_new\<lparr>object_paths := ps\<rparr>)"
  by (simp add: table_ok_def lookup_def symbol_table_new_def)

lemma table_ok_put [intro]:
  "table_ok st \<Longrightarrow> res_ok (object_paths st) e \<Longrightarrow> table_ok (put_res n e st)"
  by (auto simp: table_ok_def)

lemma table_ok_push [intro]: "table_ok st \<Longrightarrow> table_ok (push_name n st)"
  by (auto simp: table_ok_def)

lemma not_Local: "b \<noteq> Local \<Longrightarrow> b \<noteq> Weak \<Longrightarrow> b = Global"
  by (cases b) auto

definition event_ok :: "string list \<Rightarrow> u32 \<times> input_symbol \<Rightarrow> bool" where
  "event_ok paths e \<longleftrightarrow> unat (fst e) < length paths \<and> sym_binding (snd e) \<noteq> Local"

lemma event_ok_get: "event_ok paths (obj, s) \<Longrightarrow> get paths (unat obj) = Some (paths ! unat obj)"
  by (simp add: event_ok_def get_def)

lemma owner_get:
  "res_ok paths e \<Longrightarrow> event_ok paths ev \<Longrightarrow> res_defined_in e = Some d \<Longrightarrow>
     get paths (unat d) = Some (paths ! unat d)"
  by (auto simp: res_ok_def event_ok_def get_def)

lemma merge_symbol_cases:
  assumes ok: "table_ok st" and ev: "event_ok (object_paths st) (obj, s)"
  shows "(case amerge (abs_res (lookup st (sym_name s))) (obj, s) of
            None \<Rightarrow> (\<exists>p q. merge_symbol obj s st = Err (DuplicateSymbol (sym_name s) p q))
          | Some a \<Rightarrow> (\<exists>st'. merge_symbol obj s st = Ok st' \<and> table_ok st' \<and>
              object_paths st' = object_paths st \<and> abs_res (lookup st' (sym_name s)) = a \<and>
              (\<forall>m. m \<noteq> sym_name s \<longrightarrow> lookup st' m = lookup st m)))"
proof (cases "lookup st (sym_name s)")
  case None
  then show ?thesis
    using ok ev
    by (auto simp: merge_symbol_def merge_common_def merge_defined_def abs_res_def site_def
        res_ok_def event_ok_def Let_def not_Local)
next
  case (Some e)
  then have e: "res_ok (object_paths st) e" using ok by (auto simp: table_ok_def)
  show ?thesis
  proof (cases "res_defined_in e")
    case None
    then have "res_common e = None" using e by (cases "res_common e") (auto simp: res_ok_def)
    then show ?thesis
      using ok ev e Some None
      by (auto simp: merge_symbol_def merge_common_def merge_defined_def abs_res_def site_def
          conflict_action_def res_ok_def event_ok_def Let_def not_Local)
  next
    case d: (Some d)
    show ?thesis
    proof (cases "res_common e")
      case None
      consider "res_binding e = Weak" | "res_binding e = Global"
        using e by (cases "res_binding e") (auto simp: res_ok_def)
      then show ?thesis
        using ok ev e Some d None owner_get [OF e ev d] event_ok_get [OF ev]
        by cases
           (cases "sym_binding s";
             auto simp: merge_symbol_def merge_common_def merge_defined_def abs_res_def site_def
              conflict_action_def res_ok_def event_ok_def Let_def split: option.splits)+
    next
      case (Some c)
      then show ?thesis
        using ok ev e d \<open>lookup st (sym_name s) = Some e\<close>
        by (cases c) (auto simp: merge_symbol_def merge_common_def merge_defined_def abs_res_def site_def
            conflict_action_def res_ok_def event_ok_def Let_def not_Local split: prod.splits)
    qed
  qed
qed

definition abs_table :: "symbol_table \<Rightarrow> name \<Rightarrow> adef" where
  "abs_table st n = abs_res (lookup st n)"

text \<open>C34: \<^verbatim>\<open>merge_symbol\<close> implements the contract of resolution.  In a table whose
  invariant holds, merging one global or weak symbol of a registered object never panics; it reports
  a duplicate symbol exactly where the contract does (a strong definition over a strong definition),
  and otherwise the entry of the symbol's name makes the step of the contract (undefined, then
  tentative, then weak, then strong; equals keep the first, tentative definitions take the larger size
  and alignment) while every other name keeps its entry.\<close>

theorem merge_symbol_refines:
  assumes "table_ok st" "event_ok (object_paths st) (obj, s)"
  shows "case merge_symbol obj s st of
           Ok st' \<Rightarrow> table_ok st' \<and> object_paths st' = object_paths st \<and>
             map_option (\<lambda>a. (abs_table st)(sym_name s := a))
               (amerge (abs_table st (sym_name s)) (obj, s)) = Some (abs_table st')
         | Err e \<Rightarrow> amerge (abs_table st (sym_name s)) (obj, s) = None \<and>
             (\<exists>p q. e = DuplicateSymbol (sym_name s) p q)
         | Panic \<Rightarrow> False"
  using merge_symbol_cases [OF assms]
  by (auto simp: abs_table_def fun_eq_iff split: option.splits outcome.splits)

section \<open>A whole link\<close>

fun merge_all ::
  "(u32 \<times> input_symbol) list \<Rightarrow> symbol_table \<Rightarrow> (symbol_error, symbol_table) outcome" where
  "merge_all [] st = Ok st"
| "merge_all ((obj, s) # evs) st = bind_outcome (merge_symbol obj s st) (merge_all evs)"

lemma process_symbols_merge_all:
  "process_symbols obj excluded syms st =
     merge_all (map (Pair obj) (filter (merges excluded) syms)) st"
proof (induction syms arbitrary: st)
  case (Cons s syms)
  have "process_symbols obj excluded syms =
      merge_all (map (Pair obj) (filter (merges excluded) syms))"
    using Cons.IH by (rule ext)
  then show ?case by simp
qed simp

lemma merge_all_append:
  "merge_all (xs @ ys) st = bind_outcome (merge_all xs st) (merge_all ys)"
proof (induction xs arbitrary: st)
  case (Cons x xs)
  obtain obj s where "x = (obj, s)" by force
  then show ?case using Cons.IH by (cases "merge_symbol obj s st") auto
qed simp

text \<open>The driver's loop: register each object, then merge its symbols.\<close>

fun process_objects ::
  "(string \<times> input_object \<times> nat set) list \<Rightarrow> symbol_table \<Rightarrow> (symbol_error, symbol_table) outcome" where
  "process_objects [] st = Ok st"
| "process_objects ((p, obj, excluded) # rest) st =
     (case add_object p st of
        (i, st') \<Rightarrow> bind_outcome (process_object_excluding i obj excluded st') (process_objects rest))"

text \<open>The declarations of one name among a list of them.\<close>

definition is_strong :: "input_symbol \<Rightarrow> bool" where
  "is_strong s \<longleftrightarrow> \<not> sym_is_undefined s \<and> \<not> sym_is_common s \<and> sym_binding s = Global"

definition is_weak_def :: "input_symbol \<Rightarrow> bool" where
  "is_weak_def s \<longleftrightarrow> \<not> sym_is_undefined s \<and> \<not> sym_is_common s \<and> sym_binding s = Weak"

definition is_tentative :: "input_symbol \<Rightarrow> bool" where
  "is_tentative s \<longleftrightarrow> \<not> sym_is_undefined s \<and> sym_is_common s"

definition picks ::
  "(input_symbol \<Rightarrow> bool) \<Rightarrow> name \<Rightarrow> (u32 \<times> input_symbol) list \<Rightarrow> (u32 \<times> input_symbol) list" where
  "picks P n evs = filter (\<lambda>(obj, s). sym_name s = n \<and> P s) evs"

definition resolved :: "name \<Rightarrow> (u32 \<times> input_symbol) list \<Rightarrow> adef" where
  "resolved n evs =
     (if picks is_strong n evs \<noteq> [] then AStrong (site (hd (picks is_strong n evs)))
      else if picks is_weak_def n evs \<noteq> [] then AWeak (site (hd (picks is_weak_def n evs)))
      else if picks is_tentative n evs \<noteq> [] then
        ACommon (fold max (map (\<lambda>(obj, s). sym_size s) (picks is_tentative n evs)) 0)
                (fold max (map (\<lambda>(obj, s). max (sym_value s) 1) (picks is_tentative n evs)) 1)
      else if picks sym_is_undefined n evs \<noteq> [] then
        AUndef (if list_ex (\<lambda>(obj, s). sym_binding s = Global) (picks sym_is_undefined n evs)
                then Global else Weak)
      else ANone)"

definition no_duplicates :: "(u32 \<times> input_symbol) list \<Rightarrow> bool" where
  "no_duplicates evs \<longleftrightarrow> (\<forall>n. length (picks is_strong n evs) \<le> 1)"

lemma picks_append: "picks P n (xs @ ys) = picks P n xs @ picks P n ys"
  by (simp add: picks_def)

lemma picks_single:
  "picks P n [(obj, s)] = (if sym_name s = n \<and> P s then [(obj, s)] else [])"
  by (simp add: picks_def)

lemma fold_max_snoc: "fold max (xs @ [x]) a = max x (fold max xs (a :: 'a::linorder))"
  by simp

lemma max_zero_word: "max (x :: u64) 0 = x"
  by (simp add: max_def)

lemma amerge_resolved:
  assumes "sym_binding s \<noteq> Local" "\<forall>(o', s') \<in> set evs. sym_binding s' \<noteq> Local"
  shows "amerge (resolved (sym_name s) evs) (obj, s) =
     (if is_strong s \<and> picks is_strong (sym_name s) evs \<noteq> [] then None
      else Some (resolved (sym_name s) (evs @ [(obj, s)])))"
proof -
  have und: "list_ex (\<lambda>(obj, s). sym_binding s = Global) (picks sym_is_undefined n evs) = False \<Longrightarrow>
      \<forall>e \<in> set (picks sym_is_undefined n evs). sym_binding (snd e) = Weak" for n
    using assms(2) not_Local by (fastforce simp: list_ex_iff picks_def)
  have b: "sym_binding s = Weak \<or> sym_binding s = Global"
    using assms(1) not_Local by blast
  show ?thesis
    using b
    by (auto simp: resolved_def picks_append picks_single is_strong_def is_weak_def_def
        is_tentative_def max_zero_word)
qed

lemma resolved_other: "sym_name s \<noteq> n \<Longrightarrow> resolved n (evs @ [(obj, s)]) = resolved n evs"
  by (simp add: resolved_def picks_append picks_single)

text \<open>Where a list of declarations leaves the table: the state after \<open>done\<close>.\<close>

definition table_after :: "(u32 \<times> input_symbol) list \<Rightarrow> symbol_table \<Rightarrow> bool" where
  "table_after done st \<longleftrightarrow> table_ok st \<and> no_duplicates done \<and>
     (\<forall>(o', s) \<in> set done. sym_binding s \<noteq> Local) \<and> (\<forall>n. abs_table st n = resolved n done)"

lemma picks_snoc:
  "picks P n (evs @ [(obj, s)]) =
     (if sym_name s = n \<and> P s then picks P n evs @ [(obj, s)] else picks P n evs)"
  by (simp add: picks_append picks_single)

lemma no_duplicates_snoc:
  "no_duplicates (evs @ [(obj, s)]) \<longleftrightarrow>
     no_duplicates evs \<and> \<not> (is_strong s \<and> picks is_strong (sym_name s) evs \<noteq> [])"
proof (cases "is_strong s")
  case True
  then have eq: "length (picks is_strong n (evs @ [(obj, s)])) =
      length (picks is_strong n evs) + (if n = sym_name s then 1 else 0)" for n
    by (simp add: picks_snoc)
  show ?thesis
  proof
    assume "no_duplicates (evs @ [(obj, s)])"
    then have le: "length (picks is_strong n evs) + (if n = sym_name s then 1 else 0) \<le> 1" for n
      by (simp only: no_duplicates_def eq)
    have "length (picks is_strong n evs) \<le> 1" for n using le [of n] by linarith
    moreover have "picks is_strong (sym_name s) evs = []" using le [of "sym_name s"] by simp
    ultimately show "no_duplicates evs \<and> \<not> (is_strong s \<and> picks is_strong (sym_name s) evs \<noteq> [])"
      by (simp add: no_duplicates_def)
  next
    assume "no_duplicates evs \<and> \<not> (is_strong s \<and> picks is_strong (sym_name s) evs \<noteq> [])"
    then show "no_duplicates (evs @ [(obj, s)])"
      using True by (simp add: no_duplicates_def eq)
  qed
next
  case False
  then show ?thesis by (simp add: no_duplicates_def picks_snoc)
qed

lemma no_duplicates_prefix: "no_duplicates (xs @ ys) \<Longrightarrow> no_duplicates xs"
  by (auto simp: no_duplicates_def picks_append intro: order_trans [OF le_add1])

lemma merge_symbol_after:
  assumes st: "table_after done st" and ev: "event_ok (object_paths st) (obj, s)"
  shows "case merge_symbol obj s st of
           Ok st' \<Rightarrow> table_after (done @ [(obj, s)]) st' \<and> object_paths st' = object_paths st
         | Err e \<Rightarrow> \<not> no_duplicates (done @ [(obj, s)])
         | Panic \<Rightarrow> False"
proof -
  have loc: "sym_binding s \<noteq> Local" "\<forall>(o', s') \<in> set done. sym_binding s' \<noteq> Local"
    using st ev by (auto simp: table_after_def event_ok_def)
  have ok: "table_ok st" "abs_res (lookup st (sym_name s)) = resolved (sym_name s) done"
    using st by (auto simp: table_after_def abs_table_def)
  have nd: "no_duplicates done" using st by (simp add: table_after_def)
  note step = merge_symbol_cases [OF ok(1) ev, unfolded ok(2) amerge_resolved [OF loc]]
  show ?thesis
  proof (cases "is_strong s \<and> picks is_strong (sym_name s) done \<noteq> []")
    case True
    then show ?thesis using step by (auto simp: no_duplicates_snoc)
  next
    case False
    then obtain st' where st': "merge_symbol obj s st = Ok st'" "table_ok st'"
        "object_paths st' = object_paths st"
        "abs_res (lookup st' (sym_name s)) = resolved (sym_name s) (done @ [(obj, s)])"
        "\<forall>m. m \<noteq> sym_name s \<longrightarrow> lookup st' m = lookup st m"
      using step by auto
    have "abs_table st' n = resolved n (done @ [(obj, s)])" for n
      using st st'(4,5) by (cases "n = sym_name s") (auto simp: table_after_def abs_table_def resolved_other)
    then show ?thesis
      using st' loc nd False by (auto simp: table_after_def no_duplicates_snoc)
  qed
qed

lemma merge_all_after:
  assumes "table_after done st" "\<forall>ev \<in> set evs. event_ok (object_paths st) ev"
  shows "case merge_all evs st of
           Ok st' \<Rightarrow> table_after (done @ evs) st' \<and> object_paths st' = object_paths st
         | Err e \<Rightarrow> \<not> no_duplicates (done @ evs)
         | Panic \<Rightarrow> False"
  using assms
proof (induction evs arbitrary: st "done")
  case (Cons ev evs)
  obtain obj s where ev: "ev = (obj, s)" by force
  have step: "event_ok (object_paths st) (obj, s)" using Cons.prems(2) ev by simp
  note m = merge_symbol_after [OF Cons.prems(1) step]
  show ?case
  proof (cases "merge_symbol obj s st")
    case (Ok st')
    then have "table_after (done @ [ev]) st'" "object_paths st' = object_paths st"
      using m ev by auto
    then show ?thesis
      using Cons.IH [of "done @ [ev]" st'] Cons.prems(2) Ok
      by (cases "merge_all evs st'") (simp_all add: ev)
  next
    case (Err e)
    then show ?thesis
      using m ev no_duplicates_prefix [of "done @ [ev]" evs] by auto
  next
    case Panic
    then show ?thesis using m by simp
  qed
qed simp

lemma table_after_new: "table_after [] (symbol_table_new\<lparr>object_paths := ps\<rparr>)"
proof -
  have "lookup (symbol_table_new\<lparr>object_paths := ps\<rparr>) n = None" for n
    by (simp add: lookup_def symbol_table_new_def)
  then show ?thesis
    by (simp add: table_after_def no_duplicates_def picks_def resolved_def abs_table_def abs_res_def)
qed

text \<open>The declarations a link merges, in order, each with the id its object gets.\<close>

fun link_events ::
  "nat \<Rightarrow> (string \<times> input_object \<times> nat set) list \<Rightarrow> (u32 \<times> input_symbol) list" where
  "link_events i [] = []"
| "link_events i ((p, obj, excluded) # rest) =
     map (Pair (of_nat i)) (filter (merges excluded) (symbols obj)) @ link_events (i + 1) rest"

lemma add_object_after:
  "table_after done st \<Longrightarrow> table_after done (snd (add_object p st))"
proof -
  have l: "lookup (snd (add_object p st)) = lookup st"
    by (simp add: add_object_def lookup_def fun_eq_iff)
  have "res_ok ps e \<Longrightarrow> res_ok (ps @ [p]) e" for ps e
    by (auto simp: res_ok_def)
  then have "table_ok st \<Longrightarrow> table_ok (snd (add_object p st))"
    by (auto simp: table_ok_def l) (simp add: add_object_def)
  then show "table_after done st \<Longrightarrow> table_after done (snd (add_object p st))"
    by (simp add: table_after_def abs_table_def l)
qed

lemma process_objects_after:
  assumes "table_after done st" "length (object_paths st) + length objs < 2 ^ 32"
  shows "case process_objects objs st of
           Ok st' \<Rightarrow> table_after (done @ link_events (length (object_paths st)) objs) st'
         | Err e \<Rightarrow> \<not> no_duplicates (done @ link_events (length (object_paths st)) objs)
         | Panic \<Rightarrow> False"
  using assms
proof (induction objs arbitrary: st "done")
  case (Cons o' objs)
  obtain p obj ex where o': "o' = (p, obj, ex)" by (cases o')
  let ?i = "of_nat (length (object_paths st)) :: u32"
  define st1 where "st1 = snd (add_object p st)"
  let ?st = st1
  let ?evs = "map (Pair ?i) (filter (merges ex) (symbols obj))"
  have add: "add_object p st = (?i, st1)" by (simp add: add_object_def st1_def)
  have paths: "object_paths st1 = object_paths st @ [p]" by (simp add: add_object_def st1_def)
  have "unat ?i = length (object_paths st)"
    using Cons.prems(2) by (simp add: unat_of_nat)
  then have evs: "\<forall>ev \<in> set ?evs. event_ok (object_paths st1) ev"
    by (auto simp: event_ok_def merges_def paths)
  note m = merge_all_after [OF add_object_after [OF Cons.prems(1), of p, folded st1_def] evs]
  have po: "process_object_excluding ?i obj ex ?st = merge_all ?evs ?st"
    by (simp add: process_object_excluding_def process_symbols_merge_all)
  show ?case
  proof (cases "merge_all ?evs ?st")
    case (Ok st')
    then have st': "table_after (done @ ?evs) st'" "object_paths st' = object_paths st @ [p]"
      using m paths by auto
    have "length (object_paths st') + length objs < 2 ^ 32"
      using Cons.prems(2) by (simp add: st'(2))
    from Cons.IH [OF st'(1) this] show ?thesis
      using Ok by (cases "process_objects objs st'") (simp_all add: o' add po st'(2))
  next
    case (Err e)
    then show ?thesis
      using m no_duplicates_prefix [of "done @ ?evs"] by (auto simp: o' add po)
  next
    case Panic
    then show ?thesis using m by simp
  qed
qed simp

text \<open>C33: The result of resolving all the objects of a link.  Registering each object and
  merging its global and weak symbols outside the discarded sections never panics.  It succeeds
  exactly when no name has two strong definitions, and then every name resolves as the Unix rules
  say: to its strong definition, else its first weak definition, else a tentative definition of
  the largest size and alignment declared, else an undefined reference that is strong exactly when some
  reference is.\<close>

theorem process_objects_spec:
  assumes "length objs < 2 ^ 32"
  shows "case process_objects objs symbol_table_new of
           Ok st \<Rightarrow> no_duplicates (link_events 0 objs) \<and>
             (\<forall>n. abs_table st n = resolved n (link_events 0 objs))
         | Err e \<Rightarrow> \<not> no_duplicates (link_events 0 objs)
         | Panic \<Rightarrow> False"
proof -
  have new: "symbol_table_new\<lparr>object_paths := []\<rparr> = symbol_table_new"
    by (simp add: symbol_table_new_def)
  have "object_paths symbol_table_new = []" by (simp add: symbol_table_new_def)
  then show ?thesis
    using process_objects_after [OF table_after_new [of "[]", unfolded new], of objs] assms
    by (auto simp: table_after_def split: outcome.splits)
qed

lemma mset_picks: "mset evs = mset evs' \<Longrightarrow> mset (picks P n evs) = mset (picks P n evs')"
  by (simp add: picks_def)

lemma mset_single_eq: "mset xs = mset ys \<Longrightarrow> length xs \<le> 1 \<Longrightarrow> xs = ys"
  by (cases xs) (auto simp: le_Suc_eq dest: mset_eq_length)

lemma fold_max_mset:
  "mset xs = mset ys \<Longrightarrow> fold max (map f xs) a = fold max (map f ys) (a :: 'b::linorder)"
  using Max.set_eq_fold [of a "map f xs"] Max.set_eq_fold [of a "map f ys"]
  by (metis image_set list.set(2) mset_eq_setD)

lemma resolved_perm:
  assumes m: "mset evs = mset evs'" and nd: "no_duplicates evs"
    and w: "picks is_strong n evs \<noteq> [] \<or> length (picks is_weak_def n evs) \<le> 1"
  shows "resolved n evs = resolved n evs'"
proof -
  have e: "picks P n evs = [] \<longleftrightarrow> picks P n evs' = []" for P
    using mset_picks [OF m, of P n] by (metis mset_zero_iff)
  have s: "picks is_strong n evs = picks is_strong n evs'"
    using mset_single_eq [OF mset_picks [OF m]] nd by (simp add: no_duplicates_def)
  show ?thesis
  proof (cases "picks is_strong n evs = []")
    case False
    then show ?thesis using s by (simp add: resolved_def)
  next
    case True
    then have "picks is_weak_def n evs = picks is_weak_def n evs'"
      using w mset_single_eq [OF mset_picks [OF m]] by blast
    moreover have "list_ex P (picks sym_is_undefined n evs) = list_ex P (picks sym_is_undefined n evs')" for P
      using mset_eq_setD [OF mset_picks [OF m, of sym_is_undefined n]] by (simp add: list_ex_iff)
    ultimately show ?thesis
      using True s e by (simp add: resolved_def fold_max_mset [OF mset_picks [OF m]])
  qed
qed

text \<open>C40: Resolution does not depend on the order in which symbols are merged: a
  permutation of the declarations of registered objects succeeds exactly when the original does, and
  every name that does not rest on a choice between several weak definitions resolves to the same
  definition, tentative size and alignment, or undefined reference.\<close>

theorem merge_order_independent:
  assumes m: "mset evs = mset evs'" and ok: "\<forall>ev \<in> set evs. event_ok paths ev"
  defines "st0 \<equiv> symbol_table_new\<lparr>object_paths := paths\<rparr>"
  shows "(case merge_all evs st0 of
            Ok st \<Rightarrow> (case merge_all evs' st0 of
                Ok st' \<Rightarrow> \<forall>n. picks is_strong n evs \<noteq> [] \<or> length (picks is_weak_def n evs) \<le> 1 \<longrightarrow>
                  abs_table st n = abs_table st' n
              | _ \<Rightarrow> False)
          | Err e \<Rightarrow> (\<exists>e'. merge_all evs' st0 = Err e')
          | Panic \<Rightarrow> False)"
proof -
  have ok': "\<forall>ev \<in> set evs'. event_ok paths ev" using ok mset_eq_setD [OF m] by simp
  have p: "object_paths st0 = paths" by (simp add: st0_def)
  have nd: "no_duplicates evs \<longleftrightarrow> no_duplicates evs'"
    using mset_eq_length [OF mset_picks [OF m]] by (simp add: no_duplicates_def)
  note a = table_after_new [of paths, folded st0_def]
  note r = merge_all_after [OF a, unfolded p append.simps, OF ok]
    merge_all_after [OF a, unfolded p append.simps, OF ok']
  show ?thesis
    using r nd resolved_perm [OF m]
    by (auto simp: table_after_def split: outcome.splits)
qed


section \<open>Symbol ids\<close>

definition ids_ok :: "symbol_table \<Rightarrow> bool" where
  "ids_ok st \<longleftrightarrow> (\<forall>n r. lookup st n = Some r \<longrightarrow> res_id r \<noteq> - 1 \<longrightarrow>
     unat (res_id r) < length (names st) \<and> names st ! unat (res_id r) = n)"

text \<open>What one operation does to the id table: names are only appended, and an id table that was
  sound stays sound while the \<open>u32\<close> id space lasts.\<close>

definition id_step :: "symbol_table \<Rightarrow> symbol_table \<Rightarrow> bool" where
  "id_step st st' \<longleftrightarrow> (\<exists>ns. names st' = names st @ ns) \<and>
     (ids_ok st \<and> length (names st') < 2 ^ 32 \<longrightarrow> ids_ok st')"

lemma id_step_refl [simp, intro]: "id_step st st"
  by (simp add: id_step_def)

lemma id_step_trans [trans]: "id_step a b \<Longrightarrow> id_step b c \<Longrightarrow> id_step a c"
  by (auto simp: id_step_def)

lemma id_step_keep:
  assumes "\<And>e. lookup st n = Some e \<Longrightarrow> res_id r = res_id e"
    and "lookup st n = None \<Longrightarrow> res_id r = - 1"
  shows "id_step st (put_res n r st)"
  using assms by (cases "lookup st n") (auto simp: id_step_def ids_ok_def)

lemma id_step_mint:
  assumes "res_id r = next_id st"
  shows "id_step st (put_res n r (push_name n st))"
proof -
  have "length (names st) < 2 ^ 32 \<Longrightarrow> unat (next_id st) = length (names st)"
    by (simp add: next_id_def unat_of_nat)
  then show ?thesis
    using assms by (fastforce simp: id_step_def ids_ok_def nth_append)
qed

lemma id_step_lookup_eq:
  "lookup st' = lookup st \<Longrightarrow> names st' = names st \<Longrightarrow> id_step st st'"
  by (simp add: id_step_def ids_ok_def)

lemma merge_symbol_id_step:
  "merge_symbol obj s st = Ok st' \<Longrightarrow> id_step st st'"
  by (auto simp: merge_symbol_def merge_common_def merge_defined_def Let_def
      intro!: id_step_keep id_step_mint split: option.splits if_splits prod.splits
      elim!: bind_outcome_Ok split: conflict_action.splits)

lemma process_symbols_id_step:
  "process_symbols obj ex syms st = Ok st' \<Longrightarrow> id_step st st'"
proof (induction syms arbitrary: st)
  case (Cons s syms)
  then show ?case
    by (fastforce split: if_splits elim!: bind_outcome_Ok
        dest: merge_symbol_id_step intro: id_step_trans)
qed simp

lemma import_from_id_step:
  "(\<And>r. res_id (f r) = res_id r) \<Longrightarrow> id_step st (import_from n f st)"
  by (auto simp: import_from_def intro!: id_step_mint split: option.splits)

lemma register_exports_id_step:
  "id_step st (snd (register_exports_from ns i vs so cnt st))"
proof (induction ns arbitrary: i cnt st)
  case (Cons n ns)
  let ?st = "import_from n (\<lambda>r. r\<lparr>res_version := Option.bind (get vs i) id,
      res_soname := Some so\<rparr>) st"
  have "id_step st ?st" by (rule import_from_id_step) simp
  from id_step_trans [OF this Cons.IH [of ?st "i + 1" "cnt + 1"]] Cons.IH [of st "i + 1" cnt]
  show ?case by simp
qed simp

lemma register_export_symbols_id_step:
  "id_step st (snd (register_export_symbols_from exs so cnt st))"
proof (induction exs arbitrary: cnt st)
  case (Cons ex exs)
  let ?st = "import_from (ex_name ex) (\<lambda>r. r\<lparr>res_version := ex_version ex, res_soname := Some so,
      res_size := ex_size ex, res_st_type := ex_st_type ex\<rparr>) st"
  have "id_step st ?st" by (rule import_from_id_step) simp
  from id_step_trans [OF this Cons.IH [of ?st "cnt + 1"]] Cons.IH [of st cnt]
  show ?case by simp
qed simp

text \<open>Every operation that changes a table, and sequences of them.\<close>

datatype table_op = AddObject string | ProcessObject u32 input_object "nat set"
  | ForceUndefined name | RegisterExports "name list" "name option list" string
  | RegisterExportSymbols "shared_export list" string | MarkCopyReloc name | EnsureId name
  | DefineAbsolute name u64

fun exec_op :: "table_op \<Rightarrow> symbol_table \<Rightarrow> (symbol_error, symbol_table) outcome" where
  "exec_op (AddObject p) st = Ok (snd (add_object p st))"
| "exec_op (ProcessObject i obj ex) st = process_object_excluding i obj ex st"
| "exec_op (ForceUndefined n) st = Ok (force_undefined n st)"
| "exec_op (RegisterExports ns vs so) st = Ok (snd (register_shared_exports_versioned ns vs so st))"
| "exec_op (RegisterExportSymbols exs so) st = Ok (snd (register_shared_export_symbols exs so st))"
| "exec_op (MarkCopyReloc n) st = Ok (mark_copy_reloc n st)"
| "exec_op (EnsureId n) st = Ok (snd (ensure_id n st))"
| "exec_op (DefineAbsolute n v) st = Ok (define_absolute n v st)"

fun exec_ops :: "table_op list \<Rightarrow> symbol_table \<Rightarrow> (symbol_error, symbol_table) outcome" where
  "exec_ops [] st = Ok st"
| "exec_ops (x # xs) st = bind_outcome (exec_op x st) (exec_ops xs)"

lemma exec_op_id_step: "exec_op x st = Ok st' \<Longrightarrow> id_step st st'"
proof (cases x)
  case (AddObject p)
  assume "exec_op x st = Ok st'"
  then show ?thesis
    using AddObject by (auto simp: add_object_def lookup_def fun_eq_iff intro!: id_step_lookup_eq)
qed (auto simp: process_object_excluding_def force_undefined_def mark_copy_reloc_def ensure_id_def
    define_absolute_def register_shared_exports_versioned_def register_shared_export_symbols_def Let_def
    intro: register_exports_id_step register_export_symbols_id_step process_symbols_id_step
    intro!: id_step_keep id_step_mint split: option.splits)

lemma exec_ops_id_step: "exec_ops xs st = Ok st' \<Longrightarrow> id_step st st'"
  by (induction xs arbitrary: st)
     (auto elim!: bind_outcome_Ok dest!: exec_op_id_step intro: id_step_trans)

lemma id_index_nth:
  assumes "ids_ok st" "length (names st) < 2 ^ 32" "i < length out" "length out = length (names st)"
  shows "id_index_from st ns out ! i =
     (case lookup st (names st ! i) of
        Some r \<Rightarrow> if names st ! i \<in> set ns \<and> unat (res_id r) = i then Some r else out ! i
      | None \<Rightarrow> out ! i)"
  using assms(3,4)
proof (induction ns arbitrary: out)
  case Nil
  then show ?case by (simp split: option.splits)
next
  case (Cons n ns)
  show ?case
  proof (cases "\<exists>r. lookup st n = Some r \<and> unat (res_id r) < length out")
    case True
    then obtain r where r: "lookup st n = Some r" "unat (res_id r) < length out" by blast
    have "res_id r \<noteq> - 1"
      using r(2) Cons.prems(2) assms(2) by (auto simp: unsigned_minus_1_eq_mask mask_eq_exp_minus_1)
    then have n: "names st ! unat (res_id r) = n" using assms(1) r(1) by (simp add: ids_ok_def)
    show ?thesis
      using Cons.IH [of "out[unat (res_id r) := Some r]"] Cons.prems r n
      by (auto simp: nth_list_update split: option.splits)
  next
    case False
    then have "id_index_from st (n # ns) out = id_index_from st ns out"
      by (auto split: option.splits)
    then show ?thesis
      using Cons.IH [of out] Cons.prems False by (auto split: option.splits)
  qed
qed

lemma length_id_index [simp]: "length (id_index_from st ns out) = length out"
  by (induction ns arbitrary: out) (auto split: option.splits)

text \<open>C35: The id table stays sound.  After any sequence of table operations on a new table (objects
  added and merged, imports registered, references forced, ids ensured, absolute symbols defined, in any
  order) that minted fewer than \<open>2 ^ 32\<close> ids, every entry with an id is found under that id by
  \<^verbatim>\<open>build_id_index\<close> and \<^verbatim>\<open>name_by_id\<close> gives its name back; and the index holds nothing else: its entry \<open>i\<close> is
  the resolution of the name \<open>i\<close>, when that resolution carries the id \<open>i\<close>.\<close>

theorem table_ops_ids:
  assumes "exec_ops ops symbol_table_new = Ok st" "id_count st < 2 ^ 32"
  shows "(\<forall>n r. lookup st n = Some r \<and> res_id r \<noteq> - 1 \<longrightarrow>
            get (build_id_index st) (unat (res_id r)) = Some (Some r) \<and>
            name_by_id st (res_id r) = Some n) \<and>
         (\<forall>i r. get (build_id_index st) i = Some (Some r) \<longrightarrow>
            unat (res_id r) = i \<and> Option.bind (get (names st) i) (lookup st) = Some r)"
proof -
  have "ids_ok symbol_table_new" by (simp add: ids_ok_def lookup_def symbol_table_new_def)
  then have ok: "ids_ok st"
    using exec_ops_id_step [OF assms(1)] assms(2) by (simp add: id_step_def id_count_def)
  note nth = id_index_nth [OF ok, of _ "replicate (length (names st)) None" "names st"]
  have "get (build_id_index st) i = Some (Some r) \<longleftrightarrow>
      unat (res_id r) = i \<and> Option.bind (get (names st) i) (lookup st) = Some r" for i r
    using nth [of i] assms(2)
    by (auto simp: build_id_index_def get_def id_count_def split: option.splits if_splits)
  then show ?thesis
    using ok by (auto simp: ids_ok_def name_by_id_def get_def)
qed


section \<open>Two objects: a weak and a strong definition of one name\<close>

definition weak_main :: input_symbol where
  "weak_main = (example_symbol 1 ''main'')\<lparr>sym_binding := Weak, sym_value := 16\<rparr>"

definition strong_main :: input_symbol where
  "strong_main = (example_symbol 1 ''main'')\<lparr>sym_value := 32\<rparr>"

definition example_table :: symbol_table where
  "example_table = symbol_table_new\<lparr>object_paths := [''a.o'', ''b.o'']\<rparr>"

lemmas symbols_eval = Let_def example_table_def weak_main_def strong_main_def example_symbol_def
  merge_symbol_def merge_defined_def lookup_def symbol_table_new_def put_res_def push_name_def
  bind_definition_def make_undefined_resolution_def next_id_def conflict_action_def
  event_ok_def table_ok_def abs_table_def abs_res_def site_def res_ok_def

theorem merge_symbol_refines_witness:
  "\<exists>st. merge_symbol 1 strong_main example_table = Ok st \<and> table_ok st"
proof -
  have "table_ok example_table" by (simp add: example_table_def)
  moreover have "event_ok (object_paths example_table) (1, strong_main)" by (simp add: symbols_eval)
  moreover obtain st where "merge_symbol 1 strong_main example_table = Ok st"
    by (simp add: symbols_eval)
  ultimately show ?thesis
    using merge_symbol_refines [of example_table 1 strong_main] by simp
qed

theorem process_objects_spec_witness:
  "case process_objects [(''a.o'', parsed_object (0, 2) ''a.o'' [] [weak_main] [], {}),
                         (''b.o'', parsed_object (0, 2) ''b.o'' [] [strong_main] [], {})] symbol_table_new of
     Ok st \<Rightarrow> abs_table st ''main'' = AStrong (1, sym_section strong_main, 32, sym_size strong_main)
   | _ \<Rightarrow> False"
  (is "case process_objects ?objs _ of Ok st \<Rightarrow> _ | _ \<Rightarrow> _")
proof -
  have evs: "link_events 0 ?objs = [(0, weak_main), (1, strong_main)]"
    by (simp add: parsed_object_def merges_def weak_main_def strong_main_def example_symbol_def)
  have "no_duplicates (link_events 0 ?objs)"
    unfolding evs
    by (simp add: no_duplicates_def picks_def is_strong_def weak_main_def strong_main_def example_symbol_def)
  moreover have "resolved ''main'' (link_events 0 ?objs) =
      AStrong (1, sym_section strong_main, 32, sym_size strong_main)"
    unfolding evs
    by (simp add: resolved_def picks_def is_strong_def site_def weak_main_def strong_main_def example_symbol_def)
  ultimately show ?thesis
    using process_objects_spec [of ?objs] by (auto split: outcome.splits)
qed

theorem merge_order_independent_witness:
  "\<exists>st st'. merge_all [(0, weak_main), (1, strong_main)] example_table = Ok st \<and>
     merge_all [(1, strong_main), (0, weak_main)] example_table = Ok st' \<and>
     abs_table st ''main'' = abs_table st' ''main''"
proof -
  have "\<exists>st. merge_all [(0, weak_main), (1, strong_main)] example_table = Ok st"
    by (simp add: symbols_eval)
  moreover have "picks is_strong ''main'' [(0, weak_main), (1, strong_main)] \<noteq> []"
    by (simp add: picks_def is_strong_def weak_main_def strong_main_def example_symbol_def)
  ultimately show ?thesis
    using merge_order_independent [of "[(0, weak_main), (1, strong_main)]"
        "[(1, strong_main), (0, weak_main)]" "[''a.o'', ''b.o'']", folded example_table_def]
    by (auto simp: event_ok_def weak_main_def strong_main_def example_symbol_def split: outcome.splits)
qed

theorem table_ops_ids_witness:
  "\<exists>st. exec_ops [AddObject ''a.o'', ForceUndefined ''puts'', EnsureId ''puts''] symbol_table_new = Ok st \<and>
     name_by_id st 0 = Some ''puts''"
proof -
  let ?ops = "[AddObject ''a.o'', ForceUndefined ''puts'', EnsureId ''puts'']"
  obtain st where st: "exec_ops ?ops symbol_table_new = Ok st" by simp
  then have "\<exists>r. lookup st ''puts'' = Some r \<and> res_id r = 0" "id_count st < 2 ^ 32"
    by (auto simp: ensure_id_def force_undefined_def add_object_def id_count_def is_defined_def symbols_eval)
  then show ?thesis
    using table_ops_ids [OF st] st by fastforce
qed

end
