(* ===== verification/Layout_Model.thy ===== *)
theory Layout_Model
  imports Symbols
begin

text \<open>
  The data of \<^verbatim>\<open>peony-layout/src/lib.rs\<close>: contributions, output sections, program headers, the planned
  symbol table and the finished \<open>layout\<close> every later pass reads.  Hash maps are association lists;
  \<open>usize\<close> ids and positions are \<open>nat\<close>, addresses, offsets and sizes are \<open>u64\<close>.
\<close>

section \<open>Records\<close>

record section_contribution =
  con_object_id :: nat
  con_section_index :: nat
  con_section_pos :: nat
  con_offset :: u64
  con_size :: u64

datatype sec_source = SrcInput | SrcBss | SrcGot | SrcSymTab | SrcSymTabShndx | SrcStrTab
  | SrcShStrTab | SrcNoteBuildId | SrcNoteGnuProperty | SrcInterp | SrcHash | SrcDynSym | SrcDynStr
  | SrcRelaDyn | SrcDynamic | SrcPlt | SrcGotPlt | SrcRelaPlt | SrcGnuVersion | SrcGnuVersionR
  | SrcEhFrameHdr | SrcGnuHash | SrcRelaEmit nat

record output_section =
  os_name :: name
  os_kind :: section_kind
  os_sh_type :: u32
  os_sh_flags :: u64
  os_sh_addr :: u64
  os_sh_offset :: u64
  os_sh_size :: u64
  os_sh_link :: u32
  os_sh_info :: u32
  os_sh_addralign :: u64
  os_sh_entsize :: u64
  os_sh_name :: u32
  os_shndx :: u32
  os_contributions :: "section_contribution list"
  os_source :: sec_source

record program_header =
  p_type :: u32
  p_flags :: u32
  p_offset :: u64
  p_vaddr :: u64
  p_paddr :: u64
  p_filesz :: u64
  p_memsz :: u64
  p_align :: u64

record sym_entry =
  se_name :: name
  se_name_off :: u32
  se_shndx :: u32
  se_info :: u8
  se_local :: "(u64 \<times> u64) option"

text \<open>Identity of a TLS symbol: a local one by object and position, a global one by its id.\<close>

datatype tls_ref = TlsLocal nat nat | TlsGlobal u32

record tls_got_info =
  tg_gd :: "tls_ref list"
  tg_ie :: "tls_ref list"
  tg_desc :: "tls_ref list"
  tg_ldm :: bool

definition tls_got_byte_size :: "tls_got_info \<Rightarrow> u64" where
  "tls_got_byte_size t =
     of_nat (length (tg_gd t)) * 16 + of_nat (length (tg_desc t)) * 16 +
     (if tg_ldm t then 16 else 0) + of_nat (length (tg_ie t)) * 8"

definition tls_got_is_empty :: "tls_got_info \<Rightarrow> bool" where
  "tls_got_is_empty t \<longleftrightarrow> tg_gd t = [] \<and> tg_ie t = [] \<and> tg_desc t = [] \<and> \<not> tg_ldm t"

record dyn_blobs =
  db_interp :: bytes
  db_hash :: bytes
  db_dynsym :: bytes
  db_dynstr :: bytes
  db_rela_dyn :: bytes
  db_dynamic :: bytes
  db_plt :: bytes
  db_got_plt :: bytes
  db_rela_plt :: bytes
  db_gnu_version :: bytes
  db_gnu_version_r :: bytes
  db_verneed_num :: u64
  db_rela_glob_dat :: bytes
  db_rela_copy :: bytes
  db_eh_frame_hdr :: bytes
  db_gnu_hash :: bytes

type_synonym sec_key = "nat \<times> nat"

record layout =
  output_sections :: "output_section list"
  addresses :: "(sec_key \<times> u64) list"
  segments :: "program_header list"
  ly_entry :: u64
  ly_e_type :: u16
  ly_phoff :: u64
  ly_phnum :: u64
  ly_shoff :: u64
  ly_shnum :: u64
  ly_shstrndx :: u64
  ly_file_size :: u64
  got_slots :: "u32 list"
  got_base :: u64
  ly_strtab :: bytes
  ly_shstrtab :: bytes
  ly_symtab :: "sym_entry list"
  ly_symtab_shndx :: bytes
  image_base :: u64
  bss_start :: u64
  edata :: u64
  image_end :: u64
  ly_common :: "(u32 \<times> u64) list"
  ly_copy_relocs :: "(u32 \<times> u64) list"
  ly_dyn :: dyn_blobs
  plt_slots :: "u32 list"
  plt_base :: u64
  ifunc_plt_patches :: "(nat \<times> u32) list"
  tls_size :: u64
  tls_offsets :: "(sec_key \<times> u64) list"
  tls_gd_addr :: "(tls_ref \<times> u64) list"
  tls_ie_addr :: "(tls_ref \<times> u64) list"
  tls_desc_addr :: "(tls_ref \<times> u64) list"
  tls_ldm_addr :: "u64 option"
  ly_shared :: bool
  tls_got_writes :: "(u64 \<times> u64) list"
  emit_relocs :: "bytes list"
  gnu_property_note :: bytes

datatype layout_error = BadAlignment u64 string | AddressOverflow | NoEntry name | Undefined name
  | PhdrCountMismatch u64 u64 | Unsupported string

definition address_of :: "layout \<Rightarrow> nat \<Rightarrow> nat \<Rightarrow> u64 option" where
  "address_of ly obj_id si = map_of (addresses ly) (obj_id, si)"

definition tls_offset :: "layout \<Rightarrow> nat \<Rightarrow> nat \<Rightarrow> u64 option" where
  "tls_offset ly obj_id si = map_of (tls_offsets ly) (obj_id, si)"

section \<open>Which sections an output takes\<close>

datatype section_filter = All | Only "sec_key set" | OnlyLive "sec_key set" | Except "sec_key set"

fun emits :: "section_filter \<Rightarrow> sec_key \<Rightarrow> bool" where
  "emits All k = True"
| "emits (Only s) k = (k \<in> s)"
| "emits (OnlyLive s) k = (k \<in> s)"
| "emits (Except s) k = (k \<notin> s)"

section \<open>Alignment and addresses\<close>

definition align_up :: "u64 \<Rightarrow> u64 \<Rightarrow> u64" where
  "align_up val align =
     (let align = max align 1 in (val + align - 1) AND NOT (align - 1))"

lemma and_not_mask_unat: "unat (w AND NOT (mask n) :: 'a::len word) = unat w div 2 ^ n * 2 ^ n"
proof -
  have "w AND NOT (mask n) = push_bit n (drop_bit n w)"
    by (rule bit_word_eqI) (auto simp: bit_simps)
  moreover have "unat (push_bit n (drop_bit n w)) = unat w div 2 ^ n * 2 ^ n"
  proof -
    have "unat w div 2 ^ n * 2 ^ n \<le> unat w" by simp
    also have "\<dots> < 2 ^ LENGTH('a)" by simp
    finally have "unat w div 2 ^ n * 2 ^ n < 2 ^ LENGTH('a)" .
    then have "take_bit LENGTH('a) (unat w div 2 ^ n * 2 ^ n) = unat w div 2 ^ n * 2 ^ n"
      by (rule take_bit_nat_eq_self)
    then show ?thesis
      by (simp only: unsigned_push_bit_eq unsigned_drop_bit_eq)
         (simp add: push_bit_eq_mult drop_bit_eq_div take_bit_nat_eq_self)
  qed
  ultimately show ?thesis by simp
qed

text \<open>For a power of two that does not carry past the address space, \<open>align_up\<close> is the least multiple of the
  alignment at or above the value.\<close>

lemma align_up_pow2:
  assumes "unat val + 2 ^ k \<le> 2 ^ 64" "k < 64"
  shows "unat (align_up val (2 ^ k)) = (unat val + 2 ^ k - 1) div 2 ^ k * 2 ^ k"
proof -
  have "(2 ^ k :: nat) < 2 ^ 64" using assms(2) by (intro power_strict_increasing) auto
  then have k: "unat (2 ^ k :: u64) = 2 ^ k"
    using unat_of_nat [of "2 ^ k", where 'a = 64] by simp
  have one: "1 \<le> (2 ^ k :: u64)" by (simp add: word_le_nat_alt k)
  then have mx: "max (2 ^ k) 1 = (2 ^ k :: u64)" by (rule max.absorb1)
  have m: "(2 ^ k :: u64) - 1 = mask k" by (simp add: mask_eq_exp_minus_1)
  have "unat (val + (2 ^ k - 1)) = unat val + (2 ^ k - 1)"
    using assms one by (subst unat_add_no_wrap) (simp_all add: unat_sub k)
  then show ?thesis
    by (simp add: align_up_def mx m and_not_mask_unat add_diff_eq [symmetric])
qed

end
