(* ===== verification/Provided_Symbols.thy ===== *)
theory Provided_Symbols
  imports Rust_Text Layout_Model
begin

text \<open>
  Linker-provided symbols, \<^verbatim>\<open>peony/src/provided_symbols.rs\<close>: the well-known names and the \<^verbatim>\<open>__start_\<close>/\<^verbatim>\<open>__stop_\<close> names of
  sections are defined at address 0 before the layout, where inputs refer to them without a definition, and get their
  addresses after it.

  \<open>provided_symbols_placed\<close> shows the PROVIDE semantics for names that are not imports of a shared library: exactly the
  undefined ones are taken over, no definition is replaced, every other entry of the table is untouched, and each
  provided one ends at its address.  \<open>provided_import_replaced\<close> shows that an import, which the table counts as defined,
  is replaced.
\<close>

section \<open>The names\<close>

definition LINKER_SYMS :: "name list" where
  "LINKER_SYMS =
     [''_GLOBAL_OFFSET_TABLE_'', ''__executable_start'', ''__ehdr_start'', ''__bss_start'', ''_edata'', ''edata'', ''_end'',
      ''end'', ''__dso_handle'']"

datatype provided_symbol = Fixed name | SectionStart name name | SectionStop name name

fun provided_name :: "provided_symbol \<Rightarrow> name" where
  "provided_name (Fixed n) = n"
| "provided_name (SectionStart n s) = n"
| "provided_name (SectionStop n s) = n"

definition linker_symbol_addr :: "name \<Rightarrow> layout \<Rightarrow> u64" where
  "linker_symbol_addr n ly =
     (if n = ''_GLOBAL_OFFSET_TABLE_'' then got_base ly
      else if n \<in> {''__executable_start'', ''__ehdr_start'', ''__dso_handle''} then image_base ly
      else if n = ''__bss_start'' then bss_start ly
      else if n \<in> {''_edata'', ''edata''} then edata ly
      else if n \<in> {''_end'', ''end''} then image_end ly
      else 0)"

definition section_bound_addr :: "name \<Rightarrow> layout \<Rightarrow> bool \<Rightarrow> u64" where
  "section_bound_addr section ly stop =
     (case find (\<lambda>out. os_name out = section \<or> strip_prefix ''.'' (os_name out) = Some section) (output_sections ly) of
        Some out \<Rightarrow> if stop then os_sh_addr out + os_sh_size out else os_sh_addr out
      | None \<Rightarrow> 0)"

definition c_identifier_suffix :: "name \<Rightarrow> bool" where
  "c_identifier_suffix s =
     (case s of
        [] \<Rightarrow> False
      | c # cs \<Rightarrow> (c = CHR ''_'' \<or> is_alpha c) \<and> list_all (\<lambda>c. c = CHR ''_'' \<or> is_alnum c) cs)"

text \<open>The UTF-8 test of the source is implied: the accepted names are ASCII.\<close>

definition start_stop_symbol :: "name \<Rightarrow> provided_symbol option" where
  "start_stop_symbol n =
     (case strip_prefix ''__start_'' n of
        Some s \<Rightarrow>
          if c_identifier_suffix s then Some (SectionStart n s)
          else (case strip_prefix ''__stop_'' n of
                  Some t \<Rightarrow> if c_identifier_suffix t then Some (SectionStop n t) else None | None \<Rightarrow> None)
      | None \<Rightarrow>
          (case strip_prefix ''__stop_'' n of
             Some t \<Rightarrow> if c_identifier_suffix t then Some (SectionStop n t) else None | None \<Rightarrow> None))"

section \<open>The two passes\<close>

text \<open>An entry of the table that nothing defines.\<close>

definition open_entry :: "symbol_table \<Rightarrow> name \<Rightarrow> bool" where
  "open_entry st n \<longleftrightarrow> (case lookup st n of Some r \<Rightarrow> res_defined_in r = None | None \<Rightarrow> False)"

fun provide_fixed :: "name list \<Rightarrow> symbol_table \<Rightarrow> provided_symbol list \<Rightarrow> symbol_table \<times> provided_symbol list" where
  "provide_fixed [] st out = (st, out)"
| "provide_fixed (n # ns) st out =
     (if open_entry st n then provide_fixed ns (define_absolute n 0 st) (out @ [Fixed n]) else provide_fixed ns st out)"

definition dynamic_provided :: "symbol_table \<Rightarrow> provided_symbol list" where
  "dynamic_provided st =
     List.map_filter (\<lambda>(n, r). start_stop_symbol n) (filter (\<lambda>(n, r). res_defined_in r = None) (resolutions st))"

definition predefine_linker_symbols :: "symbol_table \<Rightarrow> symbol_table \<times> provided_symbol list" where
  "predefine_linker_symbols st =
     (let (st1, out) = provide_fixed LINKER_SYMS st []; dyn = dynamic_provided st1
      in (fold (\<lambda>s. define_absolute (provided_name s) 0) dyn st1, out @ dyn))"

fun provided_addr :: "layout \<Rightarrow> provided_symbol \<Rightarrow> u64" where
  "provided_addr ly (Fixed n) = linker_symbol_addr n ly"
| "provided_addr ly (SectionStart n s) = section_bound_addr s ly False"
| "provided_addr ly (SectionStop n s) = section_bound_addr s ly True"

definition set_linker_address :: "layout \<Rightarrow> provided_symbol \<Rightarrow> symbol_table \<Rightarrow> symbol_table" where
  "set_linker_address ly s st =
     (case lookup st (provided_name s) of
        Some r \<Rightarrow> put_res (provided_name s) (r\<lparr>res_value := provided_addr ly s, res_virtual_address := provided_addr ly s\<rparr>) st
      | None \<Rightarrow> st)"

definition set_linker_addresses :: "layout \<Rightarrow> provided_symbol list \<Rightarrow> symbol_table \<Rightarrow> symbol_table" where
  "set_linker_addresses ly provided st = fold (set_linker_address ly) provided st"

section \<open>Provide semantics\<close>

lemma lookup_define_absolute:
  "lookup (define_absolute n v st) m =
     (if m = n then Some ((case lookup st n of Some e \<Rightarrow> e | None \<Rightarrow> make_undefined_resolution)
        \<lparr>res_defined_in := Some 0, res_section_index := None, res_value := v, res_virtual_address := v\<rparr>)
      else lookup st m)"
  by (simp add: define_absolute_def Let_def)

text \<open>The result of a run of definitions at 0 on one name.\<close>

definition taken_over :: "resolution \<Rightarrow> resolution" where
  "taken_over r = r\<lparr>res_defined_in := Some 0, res_section_index := None, res_value := 0, res_virtual_address := 0\<rparr>"

lemma taken_over_idem [simp]: "taken_over (taken_over r) = taken_over r"
  by (simp add: taken_over_def)

lemma lookup_define_all:
  assumes "\<forall>n \<in> set ns. lookup st n \<noteq> None"
  shows "lookup (fold (\<lambda>n. define_absolute n 0) ns st) m =
     (if m \<in> set ns then map_option taken_over (lookup st m) else lookup st m)"
  using assms
proof (induction ns arbitrary: st)
  case (Cons n ns)
  have "\<forall>k \<in> set ns. lookup (define_absolute n 0 st) k \<noteq> None"
    using Cons.prems by (auto simp: lookup_define_absolute)
  moreover obtain r where "lookup st n = Some r" using Cons.prems by auto
  ultimately show ?case
    using Cons.IH by (auto simp: lookup_define_absolute taken_over_def [symmetric])
qed simp

lemma provide_fixed_spec:
  "distinct ns \<Longrightarrow>
     provide_fixed ns st out =
       (fold (\<lambda>n. define_absolute n 0) (filter (open_entry st) ns) st, out @ map Fixed (filter (open_entry st) ns))"
proof (induction ns arbitrary: st out)
  case (Cons n ns)
  have f: "filter (open_entry (define_absolute n 0 st)) ns = filter (open_entry st) ns"
    using Cons.prems by (intro filter_cong) (auto simp: open_entry_def lookup_define_absolute)
  show ?case using Cons f by simp
qed simp

lemma start_stop_name: "start_stop_symbol n = Some s \<Longrightarrow> provided_name s = n"
  by (auto simp: start_stop_symbol_def split: option.splits if_splits)

lemma set_dynamic_provided:
  "distinct (map fst (resolutions st)) \<Longrightarrow>
     s \<in> set (dynamic_provided st) \<longleftrightarrow> start_stop_symbol (provided_name s) = Some s \<and> open_entry st (provided_name s)"
proof -
  assume d: "distinct (map fst (resolutions st))"
  have "open_entry st n \<longleftrightarrow> (\<exists>r. (n, r) \<in> set (resolutions st) \<and> res_defined_in r = None)" for n
    unfolding map_of_eq_Some_iff [OF d, symmetric] by (auto simp: open_entry_def lookup_def split: option.splits)
  moreover have "s \<in> set (dynamic_provided st) \<longleftrightarrow>
      (\<exists>n r. (n, r) \<in> set (resolutions st) \<and> res_defined_in r = None \<and> start_stop_symbol n = Some s)"
    unfolding dynamic_provided_def in_map_filter by (simp add: Bex_def)
  ultimately show ?thesis using start_stop_name by metis
qed

lemma keys_define_absolute: "distinct (map fst (resolutions st)) \<Longrightarrow> distinct (map fst (resolutions (define_absolute n v st)))"
  by (simp add: define_absolute_def put_res_def Let_def distinct_update)

lemma keys_define_all:
  "distinct (map fst (resolutions st)) \<Longrightarrow> distinct (map fst (resolutions (fold (\<lambda>n. define_absolute n 0) ns st)))"
  by (induction ns arbitrary: st) (simp_all add: keys_define_absolute)

definition provides :: "name \<Rightarrow> provided_symbol option" where
  "provides n = (if n \<in> set LINKER_SYMS then Some (Fixed n) else start_stop_symbol n)"

lemma distinct_linker_syms: "distinct LINKER_SYMS"
  by (simp add: LINKER_SYMS_def)

lemma linker_syms_not_start_stop: "n \<in> set LINKER_SYMS \<Longrightarrow> start_stop_symbol n = None"
  by (auto simp: LINKER_SYMS_def start_stop_symbol_def strip_prefix_def starts_with_def)

lemma predefine_spec:
  assumes keys: "distinct (map fst (resolutions st))" and p: "predefine_linker_symbols st = (st1, provided)"
  shows "s \<in> set provided \<longleftrightarrow> provides (provided_name s) = Some s \<and> open_entry st (provided_name s)"
    and "lookup st1 n = (if open_entry st n \<and> provides n \<noteq> None then map_option taken_over (lookup st n) else lookup st n)"
proof -
  let ?fixed = "filter (open_entry st) LINKER_SYMS"
  let ?st0 = "fold (\<lambda>n. define_absolute n 0) ?fixed st"
  let ?dyn = "dynamic_provided ?st0"
  have parts: "provided = map Fixed ?fixed @ ?dyn" "st1 = fold (\<lambda>n. define_absolute n 0) (map provided_name ?dyn) ?st0"
    using p by (auto simp: predefine_linker_symbols_def provide_fixed_spec [OF distinct_linker_syms] fold_map comp_def Let_def)
  have l0: "lookup ?st0 n = (if n \<in> set ?fixed then map_option taken_over (lookup st n) else lookup st n)" for n
    by (rule lookup_define_all) (auto simp: open_entry_def split: option.splits)
  have o0: "open_entry ?st0 n \<longleftrightarrow> open_entry st n \<and> n \<notin> set LINKER_SYMS" for n
    by (auto simp: open_entry_def l0 taken_over_def split: option.splits)
  have d: "s \<in> set ?dyn \<longleftrightarrow> start_stop_symbol (provided_name s) = Some s \<and> open_entry st (provided_name s)" for s
    using linker_syms_not_start_stop by (auto simp: set_dynamic_provided [OF keys_define_all [OF keys]] o0)
  show "s \<in> set provided \<longleftrightarrow> provides (provided_name s) = Some s \<and> open_entry st (provided_name s)"
    using linker_syms_not_start_stop [of "provided_name s"] start_stop_name
    by (cases s) (auto simp: parts(1) d provides_def)
  have "lookup st1 n = (if n \<in> set (map provided_name ?dyn) then map_option taken_over (lookup ?st0 n) else lookup ?st0 n)"
    unfolding parts(2)
    by (rule lookup_define_all) (auto simp: set_dynamic_provided [OF keys_define_all [OF keys]] open_entry_def split: option.splits)
  moreover have "n \<in> set (map provided_name ?dyn) \<longleftrightarrow> start_stop_symbol n \<noteq> None \<and> open_entry st n"
    using d start_stop_name by (force simp: image_iff)
  ultimately show "lookup st1 n = (if open_entry st n \<and> provides n \<noteq> None then map_option taken_over (lookup st n) else lookup st n)"
    using linker_syms_not_start_stop by (auto simp: l0 provides_def)
qed

lemma lookup_set_linker_addresses:
  assumes "\<forall>s \<in> set provided. provides (provided_name s) = Some s"
  shows "lookup (set_linker_addresses ly provided st) n =
     (if \<exists>s \<in> set provided. provided_name s = n
      then map_option (\<lambda>r. r\<lparr>res_value := provided_addr ly (the (provides n)), res_virtual_address := provided_addr ly (the (provides n))\<rparr>)
             (lookup st n)
      else lookup st n)"
  using assms unfolding set_linker_addresses_def
proof (induction provided arbitrary: st)
  case (Cons s provided)
  have "lookup (set_linker_address ly s st) m =
      (if m = provided_name s then map_option (\<lambda>r. r\<lparr>res_value := provided_addr ly s, res_virtual_address := provided_addr ly s\<rparr>)
         (lookup st m) else lookup st m)" for m
    by (auto simp: set_linker_address_def split: option.splits)
  then show ?case using Cons by (auto simp: option.map_comp comp_def)
qed simp

text \<open>What the two passes leave of every entry, imports included: the source takes an entry over when no object
  defines it.\<close>

lemma lookup_provided:
  assumes "distinct (map fst (resolutions st))" "predefine_linker_symbols st = (st1, provided)"
  shows "lookup (set_linker_addresses ly provided st1) n =
     (case (lookup st n, provides n) of
        (Some r, Some s) \<Rightarrow>
          (if res_defined_in r = None
           then Some (r\<lparr>res_defined_in := Some 0, res_section_index := None, res_value := provided_addr ly s,
                        res_virtual_address := provided_addr ly s\<rparr>)
           else Some r)
      | (x, _) \<Rightarrow> x)"
proof -
  note p = predefine_spec [OF assms]
  have "\<forall>s \<in> set provided. provides (provided_name s) = Some s" using p(1) by blast
  note l = lookup_set_linker_addresses [OF this, of ly st1 n]
  have "(\<exists>s \<in> set provided. provided_name s = n) \<longleftrightarrow> open_entry st n \<and> provides n \<noteq> None"
  proof
    assume "open_entry st n \<and> provides n \<noteq> None"
    then obtain s where s: "provides n = Some s" "open_entry st n" by blast
    then have "provided_name s = n" by (auto simp: provides_def start_stop_name split: if_splits)
    then show "\<exists>s \<in> set provided. provided_name s = n" using s p(1) by blast
  qed (use p(1) in auto)
  then show ?thesis unfolding l p(2) [of n]
    by (auto simp: open_entry_def taken_over_def split: option.splits)
qed

text \<open>A name only a shared library defines is defined in the table's own sense, and yet is taken over; it stays an
  import.\<close>

lemma provided_import_replaced:
  assumes "distinct (map fst (resolutions st))" "predefine_linker_symbols st = (st1, provided)"
    and "lookup st n = Some r" "res_import r" "res_defined_in r = None" "provides n = Some s"
  shows "is_defined r"
    and "\<exists>r'. lookup (set_linker_addresses ly provided st1) n = Some r' \<and> res_import r' \<and> res_defined_in r' = Some 0 \<and>
      res_value r' = provided_addr ly s"
  using assms(3-6) by (simp_all add: lookup_provided [OF assms(1,2)] is_defined_def)

text \<open>C17: PROVIDE semantics, for a name that is not an import of a shared library.  Predefining
  the linker's symbols and setting their addresses after the layout changes its entry exactly when the entry is not
  defined and the linker provides the name (a well-known name, or \<^verbatim>\<open>__start_x\<close>/\<^verbatim>\<open>__stop_x\<close> of a C identifier): it then
  ends as an absolute definition at the address the layout gives it.  A defined symbol, and a name the linker does not
  provide, is left as it was, even though the pass walks a table it changes.  Imports, which count as defined, are
  replaced nonetheless (\<open>provided_import_replaced\<close>).\<close>

theorem provided_symbols_placed:
  assumes "distinct (map fst (resolutions st))" "predefine_linker_symbols st = (st1, provided)"
    and not_import: "\<And>r. lookup st n = Some r \<Longrightarrow> res_import r \<Longrightarrow> res_defined_in r \<noteq> None"
  shows "lookup (set_linker_addresses ly provided st1) n =
     (case (lookup st n, provides n) of
        (Some r, Some s) \<Rightarrow>
          (if is_defined r then Some r
           else Some (r\<lparr>res_defined_in := Some 0, res_section_index := None, res_value := provided_addr ly s,
                        res_virtual_address := provided_addr ly s\<rparr>))
      | (x, _) \<Rightarrow> x)"
  unfolding lookup_provided [OF assms(1,2)] using not_import
  by (auto simp: is_defined_def split: option.splits)

definition provided_demo :: symbol_table where
  "provided_demo =
     \<lparr>resolutions = [(''_end'', make_undefined_resolution), (''edata'', cached_defined 0x1000 0 0 0),
                     (''__start_probes'', make_undefined_resolution), (''main'', make_undefined_resolution)],
      names = [], object_paths = [''a.o'']\<rparr>"

theorem provided_symbols_placed_witness:
  "\<forall>ly. (let (st1, provided) = predefine_linker_symbols provided_demo; st2 = set_linker_addresses ly provided st1 in
     map_option res_value (lookup st2 ''_end'') = Some (image_end ly) \<and>
     map_option res_value (lookup st2 ''__start_probes'') = Some (section_bound_addr ''probes'' ly False) \<and>
     lookup st2 ''edata'' = lookup provided_demo ''edata'' \<and> lookup st2 ''main'' = lookup provided_demo ''main'')"
proof
  fix ly
  obtain st1 provided where p: "predefine_linker_symbols provided_demo = (st1, provided)" by force
  have d: "distinct (map fst (resolutions provided_demo))" by (simp add: provided_demo_def)
  have imp: "res_import r \<Longrightarrow> False" if "lookup provided_demo n = Some r" for n r
    using that by (auto simp: provided_demo_def lookup_def make_undefined_resolution_def cached_defined_def split: if_splits)
  note l = provided_symbols_placed [OF d p FalseE [OF imp], where ly = ly]
  have pr: "provides ''_end'' = Some (Fixed ''_end'')" "provides ''main'' = None" "provides ''edata'' = Some (Fixed ''edata'')"
    "provides ''__start_probes'' = Some (SectionStart ''__start_probes'' ''probes'')"
    by (simp_all add: provides_def LINKER_SYMS_def start_stop_symbol_def strip_prefix_def starts_with_def
        c_identifier_suffix_def is_alpha_def is_alnum_def)
  have lk: "lookup provided_demo ''_end'' = Some make_undefined_resolution"
    "lookup provided_demo ''main'' = Some make_undefined_resolution"
    "lookup provided_demo ''edata'' = Some (cached_defined 0x1000 0 0 0)"
    "lookup provided_demo ''__start_probes'' = Some make_undefined_resolution"
    by (simp_all add: provided_demo_def lookup_def)
  show "let (st1, provided) = predefine_linker_symbols provided_demo; st2 = set_linker_addresses ly provided st1 in
     map_option res_value (lookup st2 ''_end'') = Some (image_end ly) \<and>
     map_option res_value (lookup st2 ''__start_probes'') = Some (section_bound_addr ''probes'' ly False) \<and>
     lookup st2 ''edata'' = lookup provided_demo ''edata'' \<and> lookup st2 ''main'' = lookup provided_demo ''main''"
    using l [of "''_end''"] l [of "''main''"] l [of "''edata''"] l [of "''__start_probes''"]
    by (simp add: p lk pr linker_symbol_addr_def is_defined_def make_undefined_resolution_def cached_defined_def)
qed

end
