(* ===== verification/Link_Options.thy ===== *)
theory Link_Options
  imports Provided_Symbols
begin

text \<open>
  The parts of \<^verbatim>\<open>peony/src/main.rs\<close> that turn options into decisions: \<^verbatim>\<open>--require-defined\<close>, \<^verbatim>\<open>--defsym\<close>, version scripts, dynamic symbol lists, \<^verbatim>\<open>--exclude-libs\<close>, and the number of threads.  A file
  is its bytes, \<open>None\<close> where it cannot be read.

  \<open>wildcard_matches_glob\<close> shows that the export patterns mean what they say.
\<close>

type_synonym text_files = "string \<Rightarrow> name option"

datatype option_error = RequiredUndefined "name list" | BadDefsym string | BadDefsymValue string | UnreadableText string
  | UnsupportedDirective string name

section \<open>Defined and required symbols\<close>

definition check_required_defined :: "symbol_table \<Rightarrow> name list \<Rightarrow> (option_error, unit) outcome" where
  "check_required_defined st required =
     (let missing = filter (\<lambda>n. case lookup st n of Some r \<Rightarrow> \<not> is_defined r | None \<Rightarrow> True) required
      in if missing = [] then Ok () else Err (RequiredUndefined missing))"

definition parse_hex_or_dec :: "name \<Rightarrow> u64 option" where
  "parse_hex_or_dec s =
     (case (strip_prefix ''0x'' s, strip_prefix ''0X'' s) of
        (Some h, _) \<Rightarrow> u64_from_str_radix 16 h
      | (None, Some h) \<Rightarrow> u64_from_str_radix 16 h
      | (None, None) \<Rightarrow> u64_from_str_radix 10 s)"

fun apply_defsym :: "name list \<Rightarrow> symbol_table \<Rightarrow> (option_error, symbol_table) outcome" where
  "apply_defsym [] st = Ok st"
| "apply_defsym (d # ds) st =
     (case split_once (CHR ''='') d of
        None \<Rightarrow> Err (BadDefsym d)
      | Some (n, v) \<Rightarrow>
          (case parse_hex_or_dec (trim v) of
             None \<Rightarrow> Err (BadDefsymValue d)
           | Some x \<Rightarrow> apply_defsym ds (define_absolute (trim n) x st)))"

section \<open>Comments\<close>

text \<open>The characters between \<^verbatim>\<open>/*\<close> and \<^verbatim>\<open>*/\<close> are dropped.  What is kept is pushed byte by byte as a character of its own, so
  every byte outside ASCII comes out as the two bytes that encode the character with its number.\<close>

definition push_latin1 :: "char \<Rightarrow> name" where
  "push_latin1 c =
     (let b = of_char c :: nat in if b < 128 then [c] else map char_of [192 + b div 64, 128 + b mod 64 :: nat])"

fun skip_comment :: "name \<Rightarrow> name" where
  "skip_comment (a # b # s) = (if a = CHR ''*'' \<and> b = CHR ''/'' then s else skip_comment (b # s))"
| "skip_comment s = []"

lemma skip_comment_length: "length (skip_comment s) \<le> length s"
  by (induction s rule: skip_comment.induct) auto

function strip_block_comments :: "name \<Rightarrow> name" where
  "strip_block_comments [] = []"
| "strip_block_comments (c # s) =
     (if c = CHR ''/'' \<and> starts_with s ''*'' then strip_block_comments (skip_comment (tl s))
      else push_latin1 c @ strip_block_comments s)"
  by pat_completeness auto
termination
proof (relation "measure length")
  fix c :: char and s :: name assume "c = CHR ''/'' \<and> starts_with s ''*''"
  then show "(skip_comment (tl s), c # s) \<in> measure length"
    using skip_comment_length [of "tl s"] by (simp add: le_imp_less_Suc le_trans)
qed simp_all

section \<open>Export control\<close>

record version_script =
  vs_exact :: "name set"
  vs_global_wildcard :: bool

definition exports :: "version_script \<Rightarrow> name \<Rightarrow> bool" where
  "exports vs n \<longleftrightarrow> vs_global_wildcard vs \<or> n \<in> vs_exact vs"

definition strip_line_comment :: "name \<Rightarrow> name" where
  "strip_line_comment l = before_str ''//'' (takeWhile (\<lambda>c. c \<noteq> CHR ''#'') l)"

definition add_version_name :: "bool \<Rightarrow> name \<Rightarrow> version_script \<Rightarrow> version_script" where
  "add_version_name in_global raw vs =
     (let n = trim raw in
      if n = [] \<or> n = '';'' \<or> \<not> in_global then vs
      else if n = ''*'' then vs\<lparr>vs_global_wildcard := True\<rparr> else vs\<lparr>vs_exact := insert n (vs_exact vs)\<rparr>)"

definition version_token :: "name \<Rightarrow> bool \<times> version_script \<Rightarrow> bool \<times> version_script" where
  "version_token raw = (\<lambda>(in_global, vs).
     let tok = trim raw in
     if tok = [] then (in_global, vs)
     else if tok = ''global:'' then (True, vs)
     else if tok = ''local:'' then (False, vs)
     else (in_global, fold (add_version_name in_global) (split_at CHR '';'' tok) vs))"

definition parse_version_script :: "text_files \<Rightarrow> string \<Rightarrow> (option_error, version_script) outcome" where
  "parse_version_script fs p =
     (case fs p of
        None \<Rightarrow> Err (UnreadableText p)
      | Some text \<Rightarrow>
          if \<not> is_utf8 text then Err (UnreadableText p)
          else Ok (snd (fold version_token
                 (concat (map (\<lambda>l. split_any (set [CHR '' '', char_of (9 :: nat), CHR ''{'', CHR ''}'', CHR ''('', CHR '')'']) (strip_line_comment l)) (text_lines text)))
                 (False, \<lparr>vs_exact = {}, vs_global_wildcard = False\<rparr>))))"

definition dynamic_list_keywords :: "name list" where
  "dynamic_list_keywords = [''global'', ''local'', ''extern'', ''C'', ''C++'', ''VERSION'', ''Base'', ''global:'', ''local:'']"

definition add_dynamic_pattern :: "name \<Rightarrow> name list \<Rightarrow> name list" where
  "add_dynamic_pattern tok pats =
     (if tok \<in> set dynamic_list_keywords then pats
      else if list_all (\<lambda>c. is_alnum c \<or> c = CHR ''_'') tok \<and> ends_with tok ''_VER'' then pats
      else if tok \<in> set pats then pats else pats @ [tok])"

definition read_dynamic_symbol_patterns :: "text_files \<Rightarrow> string \<Rightarrow> (option_error, name list) outcome" where
  "read_dynamic_symbol_patterns fs p =
     (case fs p of
        None \<Rightarrow> Err (UnreadableText p)
      | Some text \<Rightarrow>
          if \<not> is_utf8 text then Err (UnreadableText p)
          else Ok (fold add_dynamic_pattern
                 (concat (map (\<lambda>l. split_whitespace (blank_out (set (''{}();,:'' @ map char_of [9, 13, 10 :: nat])) (strip_line_comment l)))
                   (text_lines (strip_block_comments text)))) []))"

fun match_pieces :: "name list \<Rightarrow> name \<Rightarrow> bool" where
  "match_pieces [] rest = True"
| "match_pieces (p # ps) rest =
     (case find_sub p rest of None \<Rightarrow> False | Some i \<Rightarrow> match_pieces ps (drop (i + length p) rest))"

definition wildcard_matches :: "name \<Rightarrow> name \<Rightarrow> bool" where
  "wildcard_matches pattern n =
     (if pattern = ''*'' then True
      else (let parts = split_at CHR ''*'' pattern in
        if length parts = 1 then pattern = n
        else if \<not> starts_with pattern ''*'' \<and> \<not> starts_with n (hd parts) then False
        else if \<not> ends_with pattern ''*'' \<and> \<not> ends_with n (last parts) then False
        else match_pieces (filter (\<lambda>p. p \<noteq> []) parts) n))"

definition export_pattern_matches :: "name list \<Rightarrow> name \<Rightarrow> bool" where
  "export_pattern_matches patterns n \<longleftrightarrow> is_utf8 n \<and> list_ex (\<lambda>p. wildcard_matches p n) patterns"

definition library_stem :: "name \<Rightarrow> name" where
  "library_stem a =
     (case Option.bind (strip_prefix ''lib'' a) (strip_suffix ''.a'') of Some s \<Rightarrow> s | None \<Rightarrow> a)"

definition excluded_by_exclude_libs :: "name list \<Rightarrow> resolution \<Rightarrow> symbol_table \<Rightarrow> bool" where
  "excluded_by_exclude_libs exclude_libs res st =
     (if exclude_libs = [] then False
      else case Option.bind (res_defined_in res) (object_path st) of
        None \<Rightarrow> False
      | Some p \<Rightarrow>
          (case split_once (CHR ''('') p of
             None \<Rightarrow> False
           | Some (archive, _) \<Rightarrow>
               (let a = (case file_name archive of Some f \<Rightarrow> f | None \<Rightarrow> archive); stem = library_stem a
                in list_ex (\<lambda>pat. pat = ''ALL'' \<or> pat = a \<or> pat = stem \<or> wildcard_matches pat a \<or> wildcard_matches pat stem)
                     exclude_libs)))"

text \<open>The size of the thread pool; \<open>available\<close> is the parallelism the system reports, if it does.\<close>

definition thread_pool_size :: "nat \<Rightarrow> nat \<Rightarrow> nat option \<Rightarrow> nat" where
  "thread_pool_size threads n_inputs available =
     (if 0 < threads then threads
      else if n_inputs < 64 then 1
      else min (case available of Some n \<Rightarrow> n | None \<Rightarrow> 1) 8)"

section \<open>Patterns mean what they say\<close>

lemma match_pieces_parts: "[] \<notin> set ps \<Longrightarrow> match_pieces ps n \<longleftrightarrow> match_parts ps n l \<noteq> None"
  by (induction ps arbitrary: n l) (auto split: option.split)

lemma match_pieces_embeds: "match_pieces (filter (\<lambda>p. p \<noteq> []) ps) n \<longleftrightarrow> embeds (filter (\<lambda>p. p \<noteq> []) ps) n"
  using match_pieces_parts [of "filter (\<lambda>p. p \<noteq> []) ps" n "[]"] match_parts_embeds by auto

lemma embeds_length: "embeds (ps @ [l]) n \<Longrightarrow> length l \<le> length n"
proof (induction ps arbitrary: n)
  case Nil
  then show ?case by (auto dest: suffix_length_le)
next
  case (Cons p ps)
  then obtain m where "suffix (p @ m) n" "length l \<le> length m" by auto
  then show ?case using suffix_length_le by fastforce
qed

lemma embeds_filter: "embeds (filter (\<lambda>p. p \<noteq> []) ps) n \<longleftrightarrow> embeds ps n"
proof (induction ps arbitrary: n)
  case (Cons p ps)
  show ?case
  proof (cases "p = []")
    case True
    have "(\<exists>m. suffix m n \<and> embeds ps m) \<longleftrightarrow> embeds ps n" by (auto intro: embeds_mono)
    then show ?thesis using True Cons by simp
  qed (simp add: Cons)
qed simp

text \<open>Pieces that occur in order, the last of them at the end of the text, can be chosen with the last one there.\<close>

lemma embeds_closed:
  "(\<exists>m. suffix m n \<and> glob_parts (ps @ [l]) m) \<longleftrightarrow> embeds (ps @ [l]) n \<and> suffix l n"
proof (induction ps arbitrary: n)
  case Nil
  show ?case by (auto simp: suffix_def) (metis append_Nil2)
next
  case (Cons p ps)
  have g: "glob_parts ((p # ps) @ [l]) m \<longleftrightarrow> (\<exists>r. m = p @ r \<and> (\<exists>k. suffix k r \<and> glob_parts (ps @ [l]) k))" for m
  proof -
    obtain q qs where q: "ps @ [l] = q # qs" by (cases "ps @ [l]") simp_all
    show ?thesis by (auto simp: q starts_with_iff)
  qed
  show ?case
  proof
    assume "\<exists>m. suffix m n \<and> glob_parts ((p # ps) @ [l]) m"
    then obtain r where r: "suffix (p @ r) n" "embeds (ps @ [l]) r" "suffix l r" unfolding g Cons by blast
    then have "suffix l n" by (meson suffix_order.order_trans suffix_appendD)
    then show "embeds ((p # ps) @ [l]) n \<and> suffix l n" using r by auto
  next
    assume e: "embeds ((p # ps) @ [l]) n \<and> suffix l n"
    then obtain r where r: "suffix (p @ r) n" "embeds (ps @ [l]) r" by auto
    have "suffix r n" using r(1) by (rule suffix_appendD)
    then have "suffix l r" using e embeds_length [OF r(2)] by (metis suffix_length_suffix)
    then show "\<exists>m. suffix m n \<and> glob_parts ((p # ps) @ [l]) m" unfolding g Cons using r by blast
  qed
qed

lemma embeds_prefix: "embeds (f # ps) (f @ r) \<longleftrightarrow> embeds ps r"
proof
  assume "embeds (f # ps) (f @ r)"
  then obtain m where m: "suffix (f @ m) (f @ r)" "embeds ps m" by auto
  have "suffix m (f @ r)" "length m \<le> length r" using suffix_appendD [OF m(1)] suffix_length_le [OF m(1)] by simp_all
  then have "suffix m r" by (metis suffix_appendI suffix_length_suffix suffix_order.eq_refl)
  then show "embeds ps r" using m(2) by (rule embeds_mono [rotated])
qed auto

lemma split_at_head: "starts_with pat [c] \<longleftrightarrow> (\<exists>ps. split_at c pat = [] # ps \<and> ps \<noteq> [])"
  by (cases pat) (auto split: list.splits)

lemma split_at_append: "split_at c (xs @ c # ys) = split_at c xs @ split_at c ys"
  by (induction xs) (auto split: list.splits)

lemma split_at_free: "c \<notin> set xs \<Longrightarrow> split_at c xs = [xs]"
  by (induction xs) auto

lemma split_at_end:
  assumes "c \<in> set pat" shows "last (split_at c pat) = [] \<longleftrightarrow> ends_with pat [c]"
proof -
  obtain xs ys where p: "pat = xs @ c # ys" "c \<notin> set ys" using assms by (metis split_list_last)
  then have "last (split_at c pat) = ys" by (simp add: split_at_append split_at_free)
  then show ?thesis using p by (cases ys rule: rev_cases) (auto simp: ends_with_def)
qed

lemma length_split_at: "length (split_at c xs) = 1 \<longleftrightarrow> c \<notin> set xs"
  by (induction xs) (auto split: list.splits)

lemma glob_literal: "CHR ''*'' \<notin> set pat \<Longrightarrow> glob pat n \<longleftrightarrow> pat = n"
  by (auto simp: glob_split split_at_free)

text \<open>C38: Export patterns are globs.  The matcher that decides which symbols \<^verbatim>\<open>--export-dynamic-symbol\<close>,
  \<^verbatim>\<open>--dynamic-list\<close> and \<^verbatim>\<open>--exclude-libs\<close> patterns name accepts exactly the names the pattern matches when each \<^verbatim>\<open>*\<close>
  stands for any text, although it searches for the pieces one after the other from the left and never backtracks.\<close>

theorem wildcard_matches_glob: "wildcard_matches pat n = glob pat n"
proof (cases "CHR ''*'' \<in> set pat")
  case False
  then have "length (split_at CHR ''*'' pat) = 1" "pat \<noteq> ''*''" by (auto simp: split_at_free)
  then show ?thesis using False by (simp add: wildcard_matches_def glob_literal)
next
  case True
  then have l1: "length (split_at CHR ''*'' pat) \<noteq> 1" unfolding length_split_at by simp
  obtain f qs where fq: "split_at CHR ''*'' pat = f # qs" by (cases "split_at CHR ''*'' pat") simp_all
  then have "qs \<noteq> []" using l1 by (cases qs) simp_all
  then obtain ps l where "qs = ps @ [l]" by (metis append_butlast_last_id)
  then have sp: "split_at CHR ''*'' pat = f # ps @ [l]" using fq by simp
  have fst: "starts_with pat ''*'' \<longleftrightarrow> f = []" by (simp add: split_at_head sp)
  have lst: "ends_with pat ''*'' \<longleftrightarrow> l = []" using split_at_end [OF True] by (simp add: sp)
  have sw: "suffix l n \<longleftrightarrow> ends_with n l" for l n :: name
    by (auto simp: ends_with_def starts_with_iff suffix_to_prefix prefix_def)
  have emb: "embeds (f # ps @ [l]) n \<longleftrightarrow> embeds (ps @ [l]) r" if "n = f @ r" for r
    unfolding that by (rule embeds_prefix)
  have gl: "glob pat n \<longleftrightarrow> (\<exists>r. n = f @ r \<and> embeds (ps @ [l]) r \<and> suffix l r)"
  proof -
    obtain q qs where q: "ps @ [l] = q # qs" by (cases "ps @ [l]") simp_all
    have "glob pat n \<longleftrightarrow> (\<exists>r. n = f @ r \<and> (\<exists>m. suffix m r \<and> glob_parts (q # qs) m))"
      unfolding glob_split sp q by (auto simp: starts_with_iff)
    then show ?thesis unfolding q [symmetric] embeds_closed .
  qed
  have "wildcard_matches pat n \<longleftrightarrow> starts_with n f \<and> ends_with n l \<and> embeds (f # ps @ [l]) n"
  proof (cases "pat = ''*''")
    case True
    then show ?thesis using sp by (simp add: wildcard_matches_def ends_with_def) blast
  next
    case False
    have "\<not> (\<not> starts_with pat ''*'' \<and> \<not> starts_with n (hd (f # ps @ [l]))) \<longleftrightarrow> starts_with n f" by (auto simp: fst)
    moreover have "\<not> (\<not> ends_with pat ''*'' \<and> \<not> ends_with n (last (f # ps @ [l]))) \<longleftrightarrow> ends_with n l"
      using ends_with_def [of n "[]"] by (auto simp: lst)
    ultimately show ?thesis
      using False l1 unfolding wildcard_matches_def Let_def sp match_pieces_embeds embeds_filter by simp
  qed
  also have "\<dots> \<longleftrightarrow> (\<exists>r. n = f @ r \<and> embeds (ps @ [l]) r \<and> suffix l n)"
    using emb by (auto simp: starts_with_iff sw)
  also have "\<dots> \<longleftrightarrow> glob pat n"
    unfolding gl
  proof (intro ex_cong conj_cong refl)
    fix r assume r: "n = f @ r" and e: "embeds (ps @ [l]) r"
    have "length l \<le> length r" by (rule embeds_length [OF e])
    then show "suffix l n \<longleftrightarrow> suffix l r"
      unfolding r by (metis suffix_appendI suffix_length_suffix suffix_order.eq_refl)
  qed
  finally show ?thesis .
qed

text \<open>A token of a version script ends at white space, a brace or a parenthesis, so a label that touches the first name is
  read as a name.\<close>

lemma version_label_needs_space:
  "parse_version_script (\<lambda>_. Some ''{global:f;local:*;};'') p =
     Ok \<lparr>vs_exact = {}, vs_global_wildcard = False\<rparr>"
  by code_simp

end
