(* ===== verification/Eh_Frame.thy ===== *)
theory Eh_Frame
  imports Object_Input
begin

text \<open>
  The \<^verbatim>\<open>.eh_frame\<close> record walkers of \<^verbatim>\<open>peony-object/src/eh_frame.rs\<close>.  Each loop of the
  source is a recursion on the read position, which grows at every turn; \<open>length data - pos\<close>
  bounds the turns.  The results are about what the layout and the emitter rely on: counts of
  contributions add up over concatenation, stripping a terminator loses nothing, and the table of
  \<^verbatim>\<open>.eh_frame_hdr\<close> sized from the counts has room for every entry the walker of the merged
  section finds.
\<close>

definition u32_at :: "bytes \<Rightarrow> nat \<Rightarrow> u32" where
  "u32_at data p = from_le (take 4 (drop p data))"

definition rec_len :: "bytes \<Rightarrow> nat \<Rightarrow> nat" where
  "rec_len data pos = unat (u32_at data pos)"

function scan_from :: "bytes \<Rightarrow> nat \<Rightarrow> nat \<times> nat \<times> nat \<Rightarrow> nat \<times> nat \<times> nat \<times> nat" where
  "scan_from data pos (cies, fdes, terms) =
     (if pos + 4 \<le> length data then
        (let len = rec_len data pos; rec_start = pos + 4 in
         if len = 0 then scan_from data (pos + 4) (cies, fdes, terms + 1)
         else if len = 0xffffffff then (cies, fdes, terms, length data - pos)
         else if length data < rec_start + 4 \<or> length data < rec_start + len
           then (cies, fdes, terms, length data - pos)
         else if u32_at data rec_start = 0
           then scan_from data (rec_start + len) (cies + 1, fdes, terms)
         else scan_from data (rec_start + len) (cies, fdes + 1, terms))
      else (cies, fdes, terms, length data - pos))"
  by pat_completeness auto
termination
  by (relation "measure (\<lambda>(data, pos, acc). length data - pos)") auto

definition scan_eh_frame :: "bytes \<Rightarrow> nat \<times> nat \<times> nat \<times> nat" where
  "scan_eh_frame data = scan_from data 0 (0, 0, 0)"

definition count_fdes :: "bytes \<Rightarrow> nat" where
  "count_fdes data = (case scan_eh_frame data of (cies, fdes, terms, leftover) \<Rightarrow> fdes)"

definition scan_leftover :: "bytes \<Rightarrow> nat" where
  "scan_leftover data = (case scan_eh_frame data of (cies, fdes, terms, leftover) \<Rightarrow> leftover)"

function terminator_from :: "bytes \<Rightarrow> nat \<Rightarrow> bool" where
  "terminator_from data pos =
     (if pos + 4 \<le> length data then
        (let len = rec_len data pos; rec_start = pos + 4 in
         if len = 0 then pos + 4 = length data
         else if len = 0xffffffff then False
         else if length data < rec_start + len then False
         else terminator_from data (rec_start + len))
      else False)"
  by pat_completeness auto
termination
  by (relation "measure (\<lambda>(data, pos). length data - pos)") auto

definition ends_with_eh_terminator :: "bytes \<Rightarrow> bool" where
  "ends_with_eh_terminator data = terminator_from data 0"

function fdes_from :: "bytes \<Rightarrow> nat \<Rightarrow> (nat \<times> nat \<times> int) list" where
  "fdes_from data pos =
     (if pos + 4 \<le> length data then
        (let len = rec_len data pos; rec_start = pos + 4 in
         if len = 0 then fdes_from data (pos + 4)
         else if len = 0xffffffff then []
         else if length data < rec_start + 8 \<or> length data < rec_start + len then []
         else
           (if u32_at data rec_start \<noteq> 0
            then [(pos, rec_start + 4, sint (u32_at data (rec_start + 4)))] else []) @
           fdes_from data (rec_start + len))
      else [])"
  by pat_completeness auto
termination
  by (relation "measure (\<lambda>(data, pos). length data - pos)") auto

definition iter_fdes :: "bytes \<Rightarrow> (nat \<times> nat \<times> int) list" where
  "iter_fdes data = fdes_from data 0"

declare scan_from.simps [simp del] terminator_from.simps [simp del] fdes_from.simps [simp del]

section \<open>Locality and concatenation\<close>

lemma u32_at_append_left: "p + 4 \<le> length a \<Longrightarrow> u32_at (a @ b) p = u32_at a p"
  by (simp add: u32_at_def)

lemma u32_at_append_right: "u32_at (a @ b) (length a + p) = u32_at b p"
  by (simp add: u32_at_def)

lemma scan_from_shift:
  "scan_from (a @ b) (length a + p) acc = scan_from b p acc"
proof (induction b p acc rule: scan_from.induct)
  case (1 data pos cies fdes terms)
  show ?case
    using "1.IH"
    by (subst (1 2) scan_from.simps)
       (simp add: Let_def rec_len_def u32_at_append_right add.assoc [symmetric]
          u32_at_append_right [of _ _ "_ + _", simplified add.assoc [symmetric]])
qed

text \<open>Where the walk of \<open>a\<close> stops at its end, the walk of \<open>a @ b\<close> goes on into \<open>b\<close>.\<close>

lemma scan_from_append:
  assumes "scan_from a pos acc = (c, f, t, 0)" "pos \<le> length a"
  shows "scan_from (a @ b) pos acc = scan_from b 0 (c, f, t)"
  using assms
proof (induction a pos acc rule: scan_from.induct)
  case (1 data pos cies fdes terms)
  show ?case
  proof (cases "pos + 4 \<le> length data")
    case True
    note eq = "1.prems"(1) [unfolded scan_from.simps [of data pos cies fdes terms]]
    have u: "u32_at (data @ b) pos = u32_at data pos"
      using True by (rule u32_at_append_left)
    show ?thesis
      using True "1.IH" eq
      by (subst scan_from.simps)
         (auto simp: Let_def rec_len_def u u32_at_append_left split: if_splits)
  next
    case False
    then have "pos = length data" "c = cies" "f = fdes" "t = terms"
      using "1.prems" by (auto simp: scan_from.simps [of data pos cies fdes terms])
    then show ?thesis using scan_from_shift [of data b 0] by simp
  qed
qed

lemma scan_from_acc:
  "scan_from data pos (c + c0, f + f0, t + t0) =
     (case scan_from data pos (c, f, t) of (c', f', t', l) \<Rightarrow> (c' + c0, f' + f0, t' + t0, l))"
proof (induction data pos "(c, f, t)" arbitrary: c f t rule: scan_from.induct)
  case (1 data pos c f t)
  show ?case
    using "1.hyps"
    by (subst (1 2) scan_from.simps) (auto simp: Let_def split: prod.splits)
qed

text \<open>A walk never leaves the data, and its four-byte steps never skip a whole terminator.\<close>

lemma scan_concat:
  assumes "\<forall>d \<in> set ds. scan_leftover d = 0"
  shows "\<exists>c t. scan_from (concat ds) 0 (c0, f0, t0) = (c, f0 + sum_list (map count_fdes ds), t, 0)"
  using assms
proof (induction ds arbitrary: c0 f0 t0)
  case Nil
  then show ?case by (simp add: scan_from.simps)
next
  case (Cons d ds)
  obtain c f t where d: "scan_from d 0 (0, 0, 0) = (c, f, t, 0)"
    using Cons.prems by (auto simp: scan_leftover_def scan_eh_frame_def split: prod.splits)
  then have f: "count_fdes d = f" by (simp add: count_fdes_def scan_eh_frame_def)
  have "scan_from d 0 (c0, f0, t0) = (c + c0, f + f0, t + t0, 0)"
    using scan_from_acc [of d 0 0 c0 0 f0 0 t0] d by simp
  from scan_from_append [OF this, of "concat ds"]
  have "scan_from (concat (d # ds)) 0 (c0, f0, t0) = scan_from (concat ds) 0 (c + c0, f + f0, t + t0)"
    by simp
  with Cons.IH [of "c + c0" "f + f0" "t + t0"] Cons.prems f show ?case
    by (auto simp: ac_simps)
qed

text \<open>The FDE count of a concatenation of whole contributions is the sum of
  the counts of the contributions, and the walk of the concatenation consumes every byte.\<close>

theorem count_fdes_concat:
  assumes "\<forall>d \<in> set ds. scan_leftover d = 0"
  shows "count_fdes (concat ds) = sum_list (map count_fdes ds) \<and> scan_leftover (concat ds) = 0"
  using scan_concat [OF assms, of 0 0 0]
  by (auto simp: count_fdes_def scan_leftover_def scan_eh_frame_def)

lemma scan_from_mono:
  "scan_from data pos (c, f, t) = (c', f', t', l) \<Longrightarrow> f \<le> f'"
  using scan_from_acc [of data pos 0 c 0 f 0 t] by (auto split: prod.splits)

lemma fdes_from_count:
  "scan_from data pos (c, f, t) = (c', f', t', l) \<Longrightarrow> f + length (fdes_from data pos) \<le> f'"
proof (induction data pos arbitrary: c f t rule: fdes_from.induct)
  case (1 data pos)
  define len where "len = rec_len data pos"
  note scan = scan_from.simps [of data pos c f t, folded len_def]
  note fdes = fdes_from.simps [of data pos, folded len_def]
  note mono = scan_from_mono [OF "1.prems"]
  consider (stop) "\<not> pos + 4 \<le> length data" | (zero) "pos + 4 \<le> length data" "len = 0"
    | (cut) "pos + 4 \<le> length data" "len \<noteq> 0"
        "len = 0xffffffff \<or> length data < pos + 12 \<or> length data < pos + 4 + len"
    | (cie) "pos + 12 \<le> length data" "len \<noteq> 0" "len \<noteq> 0xffffffff" "pos + 4 + len \<le> length data"
        "u32_at data (pos + 4) = 0"
    | (fde) "pos + 12 \<le> length data" "len \<noteq> 0" "len \<noteq> 0xffffffff" "pos + 4 + len \<le> length data"
        "u32_at data (pos + 4) \<noteq> 0"
    by linarith
  then show ?case
  proof cases
    case stop
    then show ?thesis using mono by (simp add: fdes)
  next
    case zero
    then show ?thesis
      using "1.IH"(1) [OF zero(1) refl refl] "1.prems" by (simp add: fdes scan len_def)
  next
    case cut
    then show ?thesis using mono by (auto simp: fdes Let_def)
  next
    case cie
    then show ?thesis
      using "1.IH"(2) [OF _ refl refl] "1.prems" by (simp add: fdes scan len_def)
  next
    case fde
    then show ?thesis
      using "1.IH"(2) [OF _ refl refl, of c "f + 1" t] "1.prems" by (simp add: fdes scan len_def)
  qed
qed

lemma iter_fdes_count: "length (iter_fdes data) \<le> count_fdes data"
proof -
  obtain c f t l where s: "scan_from data 0 (0, 0, 0) = (c, f, t, l)"
    by (metis prod_cases4)
  from fdes_from_count [OF s] show ?thesis
    by (simp add: s iter_fdes_def count_fdes_def scan_eh_frame_def)
qed

text \<open>Every entry of the walk lies inside the data, is an FDE (its CIE pointer is not zero) and
  carries the sign-extended initial location; entries come at increasing offsets.\<close>

definition fde_entry :: "bytes \<Rightarrow> nat \<times> nat \<times> int \<Rightarrow> bool" where
  "fde_entry data e \<longleftrightarrow> (case e of (p, q, r) \<Rightarrow>
     p + 12 \<le> length data \<and> q = p + 8 \<and> r = sint (u32_at data q) \<and>
     u32_at data p \<noteq> 0 \<and> u32_at data (p + 4) \<noteq> 0)"

lemma fdes_from_sound:
  "(\<forall>e \<in> set (fdes_from data pos). pos \<le> fst e \<and> fde_entry data e) \<and>
   sorted_wrt (<) (map fst (fdes_from data pos))"
proof (induction data pos rule: fdes_from.induct)
  case (1 data pos)
  define len where "len = rec_len data pos"
  note fdes = fdes_from.simps [of data pos, folded len_def]
  show ?case
  proof (cases "pos + 12 \<le> length data \<and> len \<noteq> 0 \<and> len \<noteq> 0xffffffff \<and> pos + 4 + len \<le> length data")
    case True
    then have go: "pos + 4 \<le> length data" by simp
    have "u32_at data pos \<noteq> 0" using True by (auto simp: len_def rec_len_def)
    then have e: "u32_at data (pos + 4) \<noteq> 0 \<Longrightarrow>
        fde_entry data (pos, pos + 8, sint (u32_at data (pos + 8)))"
      using True by (simp add: fde_entry_def)
    have eq: "fdes_from data pos =
        (if u32_at data (pos + 4) \<noteq> 0 then [(pos, pos + 8, sint (u32_at data (pos + 8)))] else []) @
        fdes_from data (pos + 4 + len)"
      using True by (simp add: fdes Let_def add.commute [of 8])
    have ih: "(\<forall>e \<in> set (fdes_from data (pos + 4 + len)). pos + 4 + len \<le> fst e \<and> fde_entry data e) \<and>
        sorted_wrt (<) (map fst (fdes_from data (pos + 4 + len)))"
      using "1.IH"(2) [OF go refl refl] True by (simp add: len_def)
    show ?thesis
      using ih e by (fastforce simp: eq)
  next
    case False
    show ?thesis
    proof (cases "pos + 4 \<le> length data \<and> len = 0")
      case True
      then have "fdes_from data pos = fdes_from data (pos + 4)" by (simp add: fdes)
      moreover have "(\<forall>e \<in> set (fdes_from data (pos + 4)). pos + 4 \<le> fst e \<and> fde_entry data e) \<and>
          sorted_wrt (<) (map fst (fdes_from data (pos + 4)))"
        using "1.IH"(1) [OF _ refl refl] True by (simp add: len_def)
      ultimately show ?thesis by fastforce
    next
      case no: False
      then have "fdes_from data pos = []" using False by (auto simp: fdes Let_def)
      then show ?thesis by simp
    qed
  qed
qed

text \<open>The walk of a merged section yields FDEs only: every entry lies inside the
  data, has a length and a CIE pointer that are not zero, its \<^verbatim>\<open>PC begin\<close> field is eight bytes
  behind its start and is returned sign-extended; the entries come at strictly increasing offsets.\<close>

theorem iter_fdes_entries:
  "list_all (fde_entry data) (iter_fdes data) \<and> sorted_wrt (<) (map fst (iter_fdes data))"
  using fdes_from_sound [of data 0] by (auto simp: iter_fdes_def list_all_iff)

section \<open>Terminators\<close>

lemma terminator_suffix:
  "terminator_from data pos \<Longrightarrow> pos + 4 \<le> length data \<and> u32_at data (length data - 4) = 0"
proof (induction data pos rule: terminator_from.induct)
  case (1 data pos)
  define len where "len = rec_len data pos"
  note eq = terminator_from.simps [of data pos, folded len_def]
  show ?case
  proof (cases "len = 0")
    case True
    then have p: "pos + 4 = length data" using "1.prems" by (auto simp: eq split: if_splits)
    then have "length data - 4 = pos" by simp
    then show ?thesis using p True by (simp add: len_def rec_len_def unat_eq_0)
  next
    case False
    then have "pos + 4 \<le> length data" "len \<noteq> 0xffffffff" "pos + 4 + len \<le> length data"
        "terminator_from data (pos + 4 + len)"
      using "1.prems" by (auto simp: eq Let_def split: if_splits)
    then show ?thesis using "1.IH" False by (simp add: len_def)
  qed
qed

lemma terminator_scan:
  assumes "terminator_from data pos" "scan_from data pos (c, f, t) = (c', f', t', l)"
  shows "l = 0"
  using assms
proof (induction data pos arbitrary: c f t rule: terminator_from.induct)
  case (1 data pos)
  define len where "len = rec_len data pos"
  note eq = terminator_from.simps [of data pos, folded len_def]
  note scan = scan_from.simps [of data pos c f t, folded len_def]
  show ?case
  proof (cases "len = 0")
    case True
    then have p: "pos + 4 = length data" using "1.prems" by (auto simp: eq split: if_splits)
    then have "scan_from data (pos + 4) (c, f, t + 1) = (c', f', t', l)"
      using True "1.prems"(2) by (simp add: scan)
    then show ?thesis using p by (simp add: scan_from.simps [of data "length data"])
  next
    case False
    then have ok: "pos + 4 \<le> length data" "len \<noteq> 0xffffffff" "pos + 4 + len \<le> length data"
        and rest: "terminator_from data (pos + 4 + len)"
      using "1.prems" by (auto simp: eq Let_def split: if_splits)
    have "pos + 8 \<le> length data" using terminator_suffix [OF rest] by linarith
    then have "\<exists>a b. scan_from data (pos + 4 + len) (a, b, t) = (c', f', t', l)"
      using "1.prems"(2) ok False by (auto simp: scan Let_def split: if_splits)
    then show ?thesis using "1.IH" ok False rest by (auto simp: len_def)
  qed
qed

text \<open>A section that \<^verbatim>\<open>ends_with_eh_terminator\<close> accepts is walked to
  its last byte, and removing the four terminator bytes changes no count, as long as what is left is
  itself a sequence of whole records.\<close>

theorem strip_terminator_count:
  assumes "ends_with_eh_terminator data"
    and "scan_leftover (take (length data - 4) data) = 0"
  shows "scan_leftover data = 0 \<and> count_fdes (take (length data - 4) data) = count_fdes data"
proof -
  let ?d = "take (length data - 4) data"
  have suf: "4 \<le> length data" "u32_at data (length data - 4) = 0"
    using terminator_suffix [of data 0] assms(1) by (simp_all add: ends_with_eh_terminator_def)
  obtain c f t where d: "scan_from ?d 0 (0, 0, 0) = (c, f, t, 0)"
    using assms(2) by (auto simp: scan_leftover_def scan_eh_frame_def split: prod.splits)
  let ?z = "drop (length data - 4) data"
  have z: "length ?z = 4" "u32_at ?z 0 = 0" using suf by (simp_all add: u32_at_def)
  have "scan_from data 0 (0, 0, 0) = scan_from ?z 0 (c, f, t)"
    using scan_from_append [OF d, of ?z] by simp
  also have "\<dots> = (c, f, t + 1, 0)"
    using z by (simp add: scan_from.simps rec_len_def)
  finally show ?thesis using d by (simp add: count_fdes_def scan_leftover_def scan_eh_frame_def)
qed

text \<open>A CIE and an FDE, then a terminator: the walk the layout makes of one contribution.\<close>

definition example_eh_frame :: bytes where
  "example_eh_frame =
     [8, 0, 0, 0, 0, 0, 0, 0, 1, 0, 0, 0,
      8, 0, 0, 0, 16, 0, 0, 0, 0xfc, 0xff, 0xff, 0xff, 0, 0, 0, 0]"

lemmas eh_eval = count_fdes_def scan_leftover_def scan_eh_frame_def scan_from.simps rec_len_def
  u32_at_def ends_with_eh_terminator_def terminator_from.simps example_eh_frame_def

theorem strip_terminator_count_witness:
  "scan_leftover example_eh_frame = 0 \<and>
   count_fdes (take (length example_eh_frame - 4) example_eh_frame) = count_fdes example_eh_frame"
  by (rule strip_terminator_count) (simp_all add: eh_eval)

theorem count_fdes_concat_witness:
  "count_fdes (concat [take 24 example_eh_frame, example_eh_frame]) = 2"
proof -
  let ?ds = "[take 24 example_eh_frame, example_eh_frame]"
  have "\<forall>d \<in> set ?ds. scan_leftover d = 0" by (simp add: eh_eval)
  from count_fdes_concat [OF this]
  have "count_fdes (concat ?ds) = sum_list (map count_fdes ?ds)" by (rule conjunct1)
  also have "\<dots> = 2" by (simp add: eh_eval)
  finally show ?thesis .
qed

end
