(* ===== verification/Gnu_Property.thy ===== *)
theory Gnu_Property
  imports Eh_Frame Object_Input
begin

text \<open>
  The merge of \<^verbatim>\<open>.note.gnu.property\<close> sections in \<^verbatim>\<open>peony-layout/src/lib.rs\<close>: the reader of the notes and
  their property arrays, the merge of the x86 feature words and the single note written out.  Reading the
  merged note back yields one property per type, the conjunction or disjunction of all that were read.
\<close>

section \<open>Reading\<close>

abbreviation (input) X86_FEATURE_1_AND :: u32 where "X86_FEATURE_1_AND \<equiv> 0xc0000002"
abbreviation (input) X86_ISA_1_NEEDED :: u32 where "X86_ISA_1_NEEDED \<equiv> 0xc0000001"
abbreviation (input) X86_ISA_1_USED :: u32 where "X86_ISA_1_USED \<equiv> 0xc0000000"
abbreviation (input) X86_FEATURE_2_USED :: u32 where "X86_FEATURE_2_USED \<equiv> 0xc0010001"

text \<open>\<^verbatim>\<open>GnuProp\<close>: a property type and its 32-bit mask.\<close>

type_synonym gnu_prop = "u32 \<times> u32"

text \<open>\<^verbatim>\<open>(x + k - 1) & !(k - 1)\<close> on \<^verbatim>\<open>usize\<close>, for the powers of two the notes use.\<close>

definition round_up :: "nat \<Rightarrow> nat \<Rightarrow> nat" where
  "round_up k x = (x + (k - 1)) div k * k"

function descriptor_from :: "bytes \<Rightarrow> nat \<Rightarrow> gnu_prop list" where
  "descriptor_from desc i =
     (if i + 8 \<le> length desc then
        (let datasz = unat (u32_at desc (i + 4)); data_off = i + 8 in
         if length desc < data_off + datasz then []
         else (if 4 \<le> datasz then [(u32_at desc i, u32_at desc data_off)] else []) @
              descriptor_from desc (data_off + round_up 8 datasz))
      else [])"
  by pat_completeness auto
termination by (relation "measure (\<lambda>(desc, i). length desc - i)") auto

declare descriptor_from.simps [simp del]

definition parse_property_descriptor :: "bytes \<Rightarrow> gnu_prop list" where
  "parse_property_descriptor desc = descriptor_from desc 0"

text \<open>All properties of the notes of one section.\<close>

function notes_from :: "bytes \<Rightarrow> nat \<Rightarrow> gnu_prop list" where
  "notes_from d i =
     (if i + 12 \<le> length d then
        (let namesz = unat (u32_at d i); descsz = unat (u32_at d (i + 4));
             desc_off = i + 12 + round_up 4 namesz in
         if length d < desc_off + descsz then []
         else parse_property_descriptor (take descsz (drop desc_off d)) @
              notes_from d (desc_off + round_up 4 descsz))
      else [])"
  by pat_completeness auto
termination by (relation "measure (\<lambda>(d, i). length d - i)") auto

declare notes_from.simps [simp del]

section \<open>Merging\<close>

record prop_state =
  ps_and :: "gnu_prop list"
  ps_isa_used :: u32
  ps_isa_seen :: bool

definition is_and_type :: "u32 \<Rightarrow> bool" where
  "is_and_type t \<longleftrightarrow> t = X86_FEATURE_1_AND \<or> t = X86_FEATURE_2_USED \<or> t = X86_ISA_1_NEEDED"

definition merge_prop :: "gnu_prop \<Rightarrow> prop_state \<Rightarrow> prop_state" where
  "merge_prop = (\<lambda>(t, v) s.
     if is_and_type t then
       s\<lparr>ps_and := (case map_of (ps_and s) t of
           Some old \<Rightarrow> AList.update t (old AND v) (ps_and s) | None \<Rightarrow> AList.update t v (ps_and s))\<rparr>
     else if t = X86_ISA_1_USED then s\<lparr>ps_isa_used := ps_isa_used s OR v, ps_isa_seen := True\<rparr>
     else s)"

definition encode_prop :: "gnu_prop \<Rightarrow> bytes" where
  "encode_prop = (\<lambda>(t, v). to_le 4 t @ to_le 4 (4 :: u32) @ to_le 4 v @ [0, 0, 0, 0])"

definition merged_props :: "prop_state \<Rightarrow> gnu_prop list" where
  "merged_props s =
     (if ps_isa_seen s then [(X86_ISA_1_USED, ps_isa_used s)] else []) @
     map (\<lambda>t. (t, the (map_of (ps_and s) t))) (sort (map fst (ps_and s)))"

definition encode_note :: "gnu_prop list \<Rightarrow> bytes" where
  "encode_note props =
     (let desc = concat (map encode_prop props) in
      to_le 4 (4 :: u32) @ to_le 4 (of_nat (length desc) :: u32) @ to_le 4 (5 :: u32) @
      [0x47, 0x4e, 0x55, 0] @ desc)"

definition property_sections :: "input_object list \<Rightarrow> input_section list" where
  "property_sections objs =
     filter (\<lambda>s. sec_name s = ''.note.gnu.property'') (concat (map sections objs))"

fun read_sections :: "input_arena \<Rightarrow> input_section list \<Rightarrow> gnu_prop list option" where
  "read_sections arena [] = Some []"
| "read_sections arena (s # ss) =
     Option.bind (arena_bytes arena (sec_data s)) (\<lambda>d. map_option ((@) (notes_from d 0)) (read_sections arena ss))"

definition merge_gnu_property_notes :: "input_arena \<Rightarrow> input_object list \<Rightarrow> (unit, bytes option) outcome" where
  "merge_gnu_property_notes arena objs =
     (if property_sections objs = [] then Ok None
      else case read_sections arena (property_sections objs) of
        None \<Rightarrow> Panic
      | Some props \<Rightarrow>
          Ok (Some (encode_note (merged_props
            (fold merge_prop props \<lparr>ps_and = [], ps_isa_used = 0, ps_isa_seen = False\<rparr>)))))"

section \<open>Reading back what was written\<close>

lemma u32_at_append: "p + 4 \<le> length xs \<Longrightarrow> u32_at (xs @ ys) p = u32_at xs p"
  by (simp add: u32_at_def)

lemma u32_at_skip: "u32_at (xs @ ys) (length xs + p) = u32_at ys p"
  by (simp add: u32_at_def)

lemma encode_prop_fields:
  "length (encode_prop p) = 16" "u32_at (encode_prop p) 0 = fst p" "u32_at (encode_prop p) 4 = 4"
  "u32_at (encode_prop p) 8 = snd p"
  by (simp_all add: encode_prop_def case_prod_unfold u32_at_def byte_simps)

lemma descriptor_from_step:
  assumes "i + 16 \<le> length d" "u32_at d (i + 4) = 4"
  shows "descriptor_from d i = (u32_at d i, u32_at d (i + 8)) # descriptor_from d (i + 16)"
  using assms by (simp add: descriptor_from.simps [of d i] Let_def round_up_def add.commute [of 16 i])

lemma descriptor_from_encode:
  "length pre = i \<Longrightarrow> descriptor_from (pre @ concat (map encode_prop ps)) i = ps"
proof (induction ps arbitrary: pre i)
  case Nil
  then show ?case by (simp add: descriptor_from.simps)
next
  case (Cons p ps)
  define d where "d = pre @ concat (map encode_prop (p # ps))"
  have at: "u32_at d (i + k) = u32_at (encode_prop p) k" if "k + 4 \<le> 16" for k
    using that u32_at_skip [of pre "encode_prop p @ concat (map encode_prop ps)" k]
      u32_at_append [of k "encode_prop p" "concat (map encode_prop ps)"] Cons.prems
    by (simp add: encode_prop_fields d_def)
  have f: "u32_at d i = fst p" "u32_at d (i + 4) = 4" "u32_at d (i + 8) = snd p"
    using at [of 0] at [of 4] at [of 8] by (simp_all add: encode_prop_fields)
  have len: "i + 16 \<le> length d" using Cons.prems by (simp add: encode_prop_fields d_def)
  have "descriptor_from d (i + 16) = ps"
    using Cons.IH [of "pre @ encode_prop p" "i + 16"] Cons.prems by (simp add: encode_prop_fields d_def)
  then show ?case using descriptor_from_step [OF len f(2)] f by (simp add: d_def)
qed

lemma length_encode_props: "length (concat (map encode_prop ps)) = 16 * length ps"
  by (simp add: length_concat comp_def encode_prop_fields sum_list_triv)

lemma notes_from_step:
  assumes "length d = 16 + n" "u32_at d 0 = 4" "unat (u32_at d 4) = n"
  shows "notes_from d 0 = parse_property_descriptor (drop 16 d)"
proof -
  have "n \<le> (n + 3) div 4 * 4" by presburger
  then have "notes_from d (16 + (n + 3) div 4 * 4) = []"
    using assms by (simp add: notes_from.simps [of d "16 + (n + 3) div 4 * 4"])
  then show ?thesis using assms by (simp add: notes_from.simps [of d 0] Let_def round_up_def)
qed

lemma unat_of_nat_u32: "n < 2 ^ 32 \<Longrightarrow> unat (of_nat n :: u32) = n"
  by (simp add: unat_of_nat)

lemma notes_from_encode:
  assumes "16 * length ps < 2 ^ 32"
  shows "notes_from (encode_note ps) 0 = ps"
proof -
  define desc where "desc = concat (map encode_prop ps)"
  have sz: "length desc = 16 * length ps" by (simp add: desc_def length_encode_props)
  have n: "encode_note ps = (to_le 4 (4 :: u32) @ to_le 4 (of_nat (length desc) :: u32) @ to_le 4 (5 :: u32) @
      [0x47, 0x4e, 0x55, 0]) @ desc"
    by (simp add: encode_note_def Let_def desc_def)
  have "notes_from (encode_note ps) 0 = parse_property_descriptor (drop 16 (encode_note ps))"
  proof (rule notes_from_step [of _ "length desc"])
    show "length (encode_note ps) = 16 + length desc" by (simp add: n)
    show "u32_at (encode_note ps) 0 = 4" by (simp add: n u32_at_def byte_simps)
    have "u32_at (encode_note ps) 4 = of_nat (length desc)" by (simp add: n u32_at_def byte_simps)
    then show "unat (u32_at (encode_note ps) 4) = length desc"
      using assms unat_of_nat_u32 [of "length desc"] sz by simp
  qed
  also have "drop 16 (encode_note ps) = desc" by (simp add: n)
  finally show ?thesis
    using descriptor_from_encode [of "[]" 0 ps] by (simp add: parse_property_descriptor_def desc_def)
qed

section \<open>What the merged note says\<close>

text \<open>The values read for one type, their conjunction and disjunction, and the list of the merged properties.\<close>

definition values_of :: "u32 \<Rightarrow> gnu_prop list \<Rightarrow> u32 list" where
  "values_of t props = map snd (filter (\<lambda>p. fst p = t) props)"

definition conj_of :: "u32 list \<Rightarrow> u32" where
  "conj_of vs = fold (\<lambda>v acc. acc AND v) vs (- 1)"

definition disj_of :: "u32 list \<Rightarrow> u32" where
  "disj_of vs = fold (\<lambda>v acc. acc OR v) vs 0"

definition merged_spec :: "gnu_prop list \<Rightarrow> gnu_prop list" where
  "merged_spec props =
     (if values_of X86_ISA_1_USED props \<noteq> [] then [(X86_ISA_1_USED, disj_of (values_of X86_ISA_1_USED props))] else []) @
     map (\<lambda>t. (t, conj_of (values_of t props)))
       (filter (\<lambda>t. values_of t props \<noteq> []) [X86_ISA_1_NEEDED, X86_FEATURE_1_AND, X86_FEATURE_2_USED])"

lemma values_of_snoc: "values_of t (props @ [p]) = values_of t props @ (if fst p = t then [snd p] else [])"
  by (simp add: values_of_def)

lemma conj_of_simps: "conj_of [] = - 1" "conj_of [v] = v" "conj_of (vs @ [v]) = conj_of vs AND v"
  by (simp_all add: conj_of_def)

lemma disj_of_simps: "disj_of [] = 0" "disj_of (vs @ [v]) = disj_of vs OR v"
  by (simp_all add: disj_of_def)

abbreviation (input) prop_init :: prop_state where
  "prop_init \<equiv> \<lparr>ps_and = [], ps_isa_used = 0, ps_isa_seen = False\<rparr>"

lemma ps_and_merge_prop:
  "ps_and (merge_prop p s) =
     (if is_and_type (fst p)
      then AList.update (fst p) (case map_of (ps_and s) (fst p) of Some old \<Rightarrow> old AND snd p | None \<Rightarrow> snd p) (ps_and s)
      else ps_and s)"
  by (cases p) (simp add: merge_prop_def split: option.split)

lemma ps_isa_merge_prop:
  "ps_isa_used (merge_prop p s) = (if fst p = X86_ISA_1_USED then ps_isa_used s OR snd p else ps_isa_used s)"
  "ps_isa_seen (merge_prop p s) \<longleftrightarrow> fst p = X86_ISA_1_USED \<or> ps_isa_seen s"
  by (cases p; simp add: merge_prop_def is_and_type_def)+

lemma fold_merge_prop_and:
  "distinct (map fst (ps_and (fold merge_prop props prop_init))) \<and>
   map_of (ps_and (fold merge_prop props prop_init)) t =
     (if is_and_type t \<and> values_of t props \<noteq> [] then Some (conj_of (values_of t props)) else None)"
proof (induction props arbitrary: t rule: rev_induct)
  case Nil
  then show ?case by (simp add: values_of_def)
next
  case (snoc p props)
  define s where "s = fold merge_prop props prop_init"
  have at: "map_of (ps_and s) u =
     (if is_and_type u \<and> values_of u props \<noteq> [] then Some (conj_of (values_of u props)) else None)" for u
    using snoc [of u] unfolding s_def by blast
  have k: "distinct (map fst (ps_and s))" using snoc unfolding s_def by blast
  have s': "fold merge_prop (props @ [p]) prop_init = merge_prop p s" by (simp add: s_def)
  have "map_of (ps_and (merge_prop p s)) t =
     (if is_and_type t \<and> values_of t (props @ [p]) \<noteq> [] then Some (conj_of (values_of t (props @ [p]))) else None)"
  proof (cases "is_and_type (fst p) \<and> t = fst p")
    case True
    then show ?thesis
      by (cases "values_of (fst p) props = []")
        (simp_all add: ps_and_merge_prop values_of_snoc conj_of_simps update_conv' at
          del: map_of_eq_Some_iff map_of_eq_None_iff)
  next
    case False
    then show ?thesis using at [of t]
      by (auto simp: ps_and_merge_prop values_of_snoc update_conv'
          simp del: map_of_eq_Some_iff map_of_eq_None_iff)
  qed
  then show ?case unfolding s' using k by (simp add: ps_and_merge_prop distinct_update)
qed

lemma fold_merge_prop_isa:
  "ps_isa_used (fold merge_prop props prop_init) = disj_of (values_of X86_ISA_1_USED props) \<and>
   (ps_isa_seen (fold merge_prop props prop_init) \<longleftrightarrow> values_of X86_ISA_1_USED props \<noteq> [])"
proof (induction props rule: rev_induct)
  case Nil
  then show ?case by (simp add: values_of_def disj_of_simps)
next
  case (snoc p props)
  then show ?case
    by (auto simp: ps_isa_merge_prop values_of_snoc disj_of_simps)
qed

lemma merged_props_spec: "merged_props (fold merge_prop props prop_init) = merged_spec props"
proof -
  let ?s = "fold merge_prop props prop_init"
  let ?ts = "filter (\<lambda>t. values_of t props \<noteq> []) [X86_ISA_1_NEEDED, X86_FEATURE_1_AND, X86_FEATURE_2_USED]"
  have at: "map_of (ps_and ?s) t =
      (if is_and_type t \<and> values_of t props \<noteq> [] then Some (conj_of (values_of t props)) else None)" for t
    using fold_merge_prop_and by blast
  have "t \<in> set (map fst (ps_and ?s)) \<longleftrightarrow> t \<in> set ?ts" for t
    using at [of t] map_of_eq_None_iff [of "ps_and ?s" t] by (auto simp: is_and_type_def split: if_splits)
  then have "set (sort (map fst (ps_and ?s))) = set ?ts" by (simp only: set_sort) blast
  moreover have "sorted ?ts" "distinct ?ts" by simp_all
  ultimately have k: "sort (map fst (ps_and ?s)) = ?ts"
    using sorted_distinct_set_unique [of "sort (map fst (ps_and ?s))" ?ts] fold_merge_prop_and [of props]
    by simp
  have "map (\<lambda>t. (t, the (map_of (ps_and ?s) t))) ?ts = map (\<lambda>t. (t, conj_of (values_of t props))) ?ts"
    by (rule map_cong) (auto simp: at is_and_type_def split: if_splits)
  then show ?thesis
    using fold_merge_prop_isa [of props] by (simp only: merged_props_def merged_spec_def k)
qed

lemma merged_spec_short: "length (merged_spec props) \<le> 4"
  by (simp add: merged_spec_def)

lemma merged_note_reads_back:
  assumes "read_sections arena (property_sections objs) = Some props"
  shows "if property_sections objs = [] then merge_gnu_property_notes arena objs = Ok None
    else \<exists>note. merge_gnu_property_notes arena objs = Ok (Some note) \<and> notes_from note 0 = merged_spec props"
proof -
  have "notes_from (encode_note (merged_spec props)) 0 = merged_spec props"
    using merged_spec_short [of props] by (intro notes_from_encode) simp
  then show ?thesis
    using assms by (auto simp: merge_gnu_property_notes_def merged_props_spec)
qed

text \<open>The words of one type in the notes of one object, and what the documents ask of the merged note: an AND bit
  is set exactly when every contributing object has it, a bit of \<^verbatim>\<open>ISA_1_USED\<close> when some object has it.\<close>

definition object_words :: "input_arena \<Rightarrow> input_object \<Rightarrow> u32 \<Rightarrow> u32 list" where
  "object_words arena obj t =
     concat (map (\<lambda>s. values_of t (notes_from (the (arena_bytes arena (sec_data s))) 0))
       (filter (\<lambda>s. sec_name s = ''.note.gnu.property'') (sections obj)))"

definition bit_in_every_object :: "input_arena \<Rightarrow> input_object list \<Rightarrow> u32 \<Rightarrow> nat \<Rightarrow> bool" where
  "bit_in_every_object arena objs t k \<longleftrightarrow>
     (\<forall>obj \<in> set objs. object_words arena obj t \<noteq> [] \<and> (\<forall>w \<in> set (object_words arena obj t). bit w k))"

definition bit_in_some_object :: "input_arena \<Rightarrow> input_object list \<Rightarrow> u32 \<Rightarrow> nat \<Rightarrow> bool" where
  "bit_in_some_object arena objs t k \<longleftrightarrow> (\<exists>obj \<in> set objs. \<exists>w \<in> set (object_words arena obj t). bit w k)"

text \<open>Every object carries the property, or none does.\<close>

definition carried_by_all_or_none :: "input_arena \<Rightarrow> input_object list \<Rightarrow> u32 \<Rightarrow> bool" where
  "carried_by_all_or_none arena objs t \<longleftrightarrow>
     (\<forall>obj \<in> set objs. object_words arena obj t \<noteq> []) \<or> (\<forall>obj \<in> set objs. object_words arena obj t = [])"

definition merge_right :: "input_arena \<Rightarrow> input_object list \<Rightarrow> gnu_prop list \<Rightarrow> bool" where
  "merge_right arena objs merged \<longleftrightarrow>
     (\<forall>t \<in> {X86_FEATURE_1_AND, X86_FEATURE_2_USED, X86_ISA_1_NEEDED}.
        if \<forall>obj \<in> set objs. object_words arena obj t = [] then values_of t merged = []
        else \<exists>v. values_of t merged = [v] \<and> (\<forall>k. bit v k \<longleftrightarrow> bit_in_every_object arena objs t k)) \<and>
     (if \<forall>obj \<in> set objs. object_words arena obj X86_ISA_1_USED = [] then values_of X86_ISA_1_USED merged = []
      else \<exists>v. values_of X86_ISA_1_USED merged = [v] \<and> (\<forall>k. bit v k \<longleftrightarrow> bit_in_some_object arena objs X86_ISA_1_USED k))"

lemma values_of_append: "values_of t (xs @ ys) = values_of t xs @ values_of t ys"
  by (simp add: values_of_def)

lemma values_of_read:
  "read_sections arena ss = Some props \<Longrightarrow>
     values_of t props = concat (map (\<lambda>s. values_of t (notes_from (the (arena_bytes arena (sec_data s))) 0)) ss)"
proof (induction ss arbitrary: props)
  case Nil
  then show ?case by (simp add: values_of_def)
next
  case (Cons s ss)
  then show ?case by (auto simp: values_of_append split: bind_splits)
qed

lemma values_of_objects:
  assumes "read_sections arena (property_sections objs) = Some props"
  shows "values_of t props = concat (map (\<lambda>obj. object_words arena obj t) objs)"
  unfolding values_of_read [OF assms] property_sections_def object_words_def
  by (induction objs) simp_all

lemma bit_conj_of: "bit (conj_of vs) k \<longleftrightarrow> k < 32 \<and> (\<forall>v \<in> set vs. bit v k)"
  by (induction vs rule: rev_induct) (auto simp: conj_of_simps bit_simps)

lemma bit_disj_of: "bit (disj_of vs) k \<longleftrightarrow> (\<exists>v \<in> set vs. bit v k)"
  by (induction vs rule: rev_induct) (auto simp: disj_of_simps bit_simps)

lemma values_of_merged:
  assumes "is_and_type t"
  shows "values_of t (merged_spec props) = (if values_of t props = [] then [] else [conj_of (values_of t props)])"
  using assms by (auto simp: is_and_type_def merged_spec_def values_of_def)

lemma values_of_merged_isa:
  "values_of X86_ISA_1_USED (merged_spec props) =
     (if values_of X86_ISA_1_USED props = [] then [] else [disj_of (values_of X86_ISA_1_USED props)])"
  by (auto simp: merged_spec_def values_of_def)

lemma merged_spec_right:
  assumes read: "read_sections arena (property_sections objs) = Some props"
    and uniform: "list_all (carried_by_all_or_none arena objs) [X86_FEATURE_1_AND, X86_FEATURE_2_USED, X86_ISA_1_NEEDED]"
  shows "merge_right arena objs (merged_spec props)"
proof -
  have and_bits: "if \<forall>obj \<in> set objs. object_words arena obj t = [] then values_of t (merged_spec props) = []
      else \<exists>v. values_of t (merged_spec props) = [v] \<and> (\<forall>k. bit v k \<longleftrightarrow> bit_in_every_object arena objs t k)"
    if t: "is_and_type t" and c: "carried_by_all_or_none arena objs t" for t
  proof (cases "\<forall>obj \<in> set objs. object_words arena obj t = []")
    case True
    then show ?thesis by (simp add: values_of_merged [OF t] values_of_objects [OF read])
  next
    case False
    then have "\<forall>obj \<in> set objs. object_words arena obj t \<noteq> []" and ne: "values_of t props \<noteq> []"
      using c by (auto simp: carried_by_all_or_none_def values_of_objects [OF read])
    moreover obtain w where "w \<in> set (values_of t props)" using ne by (cases "values_of t props") auto
    ultimately have "bit (conj_of (values_of t props)) k \<longleftrightarrow> bit_in_every_object arena objs t k" for k
      using bit_imp_le_length [of w k] by (auto simp: bit_conj_of bit_in_every_object_def values_of_objects [OF read])
    then show ?thesis using False ne by (simp add: values_of_merged [OF t])
  qed
  have "if \<forall>obj \<in> set objs. object_words arena obj X86_ISA_1_USED = [] then values_of X86_ISA_1_USED (merged_spec props) = []
      else \<exists>v. values_of X86_ISA_1_USED (merged_spec props) = [v] \<and>
        (\<forall>k. bit v k \<longleftrightarrow> bit_in_some_object arena objs X86_ISA_1_USED k)"
    by (auto simp: values_of_merged_isa bit_disj_of bit_in_some_object_def values_of_objects [OF read])
  moreover have "is_and_type t" if "t \<in> {X86_FEATURE_1_AND, X86_FEATURE_2_USED, X86_ISA_1_NEEDED}" for t
    using that by (auto simp: is_and_type_def)
  ultimately show ?thesis unfolding merge_right_def using and_bits uniform by simp
qed

text \<open>C30: 
  When every property of an AND type is carried by every object of the link or by none: no note is written exactly
  when no object has the section, and otherwise a single note is written, which reads back with one word for each
  type some object carries.  A bit of an AND type is set in it exactly when every object has the bit, a bit of
  \<^verbatim>\<open>ISA_1_USED\<close> exactly when some object has it.  (An object without the property does not clear the bits of the
  others: \<open>missing_note_keeps_bits\<close>.)\<close>

theorem gnu_property_merge:
  assumes "read_sections arena (property_sections objs) = Some props"
    and "list_all (carried_by_all_or_none arena objs) [X86_FEATURE_1_AND, X86_FEATURE_2_USED, X86_ISA_1_NEEDED]"
  shows "if property_sections objs = [] then merge_gnu_property_notes arena objs = Ok None
    else \<exists>note. merge_gnu_property_notes arena objs = Ok (Some note) \<and> merge_right arena objs (notes_from note 0)"
  using merged_note_reads_back [OF assms(1)] merged_spec_right [OF assms] by (auto split: if_splits)

text \<open>Two objects, the second without the shadow-stack bit.\<close>

definition note_section :: "u32 \<Rightarrow> nat \<Rightarrow> input_section" where
  "note_section i n =
     \<lparr>sec_index = 1, sec_name = ''.note.gnu.property'', sec_kind = Other, sec_sh_type = 7,
      sec_data = \<lparr>sd_src = Owned i, sd_off = 0, sd_len = of_nat n\<rparr>,
      sec_align = 8, sec_size = of_nat n, sec_flags = 2, sec_relocs = []\<rparr>"

definition note_objects :: "input_object list" where
  "note_objects =
     [parsed_object (2, 0) ''a.o'' [note_section 0 48] [] [], parsed_object (2, 0) ''b.o'' [note_section 1 48] [] []]"

definition note_arena :: input_arena where
  "note_arena = arena_new\<lparr>owned :=
     [encode_note [(X86_FEATURE_1_AND, 3), (X86_ISA_1_USED, 1)],
      encode_note [(X86_FEATURE_1_AND, 1), (X86_ISA_1_USED, 4)]]\<rparr>"

abbreviation (input) note_demo_props :: "gnu_prop list" where
  "note_demo_props \<equiv> [(X86_FEATURE_1_AND, 3), (X86_ISA_1_USED, 1), (X86_FEATURE_1_AND, 1), (X86_ISA_1_USED, 4)]"

lemma length_encode_note: "length (encode_note ps) = 16 + 16 * length ps"
  by (simp add: encode_note_def Let_def length_encode_props)

lemma note_demo_read:
  "property_sections note_objects = [note_section 0 48, note_section 1 48]"
  "read_sections note_arena (property_sections note_objects) = Some note_demo_props"
proof -
  show s: "property_sections note_objects = [note_section 0 48, note_section 1 48]"
    by (simp add: property_sections_def note_objects_def parsed_object_def note_section_def)
  have b: "arena_bytes note_arena (sec_data (note_section 0 48)) = Some (owned note_arena ! 0)"
    "arena_bytes note_arena (sec_data (note_section 1 48)) = Some (owned note_arena ! 1)"
    by (simp_all add: arena_bytes_def note_section_def note_arena_def slice_def length_encode_note)
  show "read_sections note_arena (property_sections note_objects) = Some note_demo_props"
    by (simp add: s b) (simp add: note_arena_def notes_from_encode)
qed

lemma note_demo_words:
  "object_words note_arena (note_objects ! 0) t = values_of t [(X86_FEATURE_1_AND, 3), (X86_ISA_1_USED, 1)]"
  "object_words note_arena (note_objects ! Suc 0) t = values_of t [(X86_FEATURE_1_AND, 1), (X86_ISA_1_USED, 4)]"
  by (simp_all add: object_words_def note_objects_def parsed_object_def note_section_def arena_bytes_def note_arena_def
      slice_def length_encode_note notes_from_encode)

theorem gnu_property_merge_witness:
  "\<exists>note. merge_gnu_property_notes note_arena note_objects = Ok (Some note) \<and>
     merge_right note_arena note_objects (notes_from note 0) \<and>
     bit_in_every_object note_arena note_objects X86_FEATURE_1_AND 0 \<and>
     \<not> bit_in_every_object note_arena note_objects X86_FEATURE_1_AND 1"
proof -
  have objs: "note_objects = [note_objects ! 0, note_objects ! Suc 0]" by (simp add: note_objects_def)
  have all: "(\<forall>obj \<in> set note_objects. P obj) \<longleftrightarrow> P (note_objects ! 0) \<and> P (note_objects ! Suc 0)" for P
    by (subst objs) simp
  have "list_all (carried_by_all_or_none note_arena note_objects) [X86_FEATURE_1_AND, X86_FEATURE_2_USED, X86_ISA_1_NEEDED]"
    by (simp add: carried_by_all_or_none_def all note_demo_words values_of_def)
  moreover have "bit_in_every_object note_arena note_objects X86_FEATURE_1_AND 0"
    "\<not> bit_in_every_object note_arena note_objects X86_FEATURE_1_AND 1"
    by (simp_all add: bit_in_every_object_def all note_demo_words values_of_def bit_1_iff)
  ultimately show ?thesis
    using gnu_property_merge [OF note_demo_read(2)] note_demo_read(1) by simp
qed

text \<open>An object without the section leaves the merged note as it was: a feature one object does not advertise
  survives.\<close>

lemma missing_note_keeps_bits:
  "list_all (\<lambda>s. sec_name s \<noteq> ''.note.gnu.property'') (sections obj) \<Longrightarrow>
     merge_gnu_property_notes arena (objs @ [obj]) = merge_gnu_property_notes arena objs"
  by (simp add: merge_gnu_property_notes_def property_sections_def filter_False list_all_iff)

end
