(* ===== verification/Layout_Group.thy ===== *)
theory Layout_Group
  imports Layout_Model Script Gnu_Property "HOL-Library.Char_ord" "HOL-Library.List_Lexorder" "HOL-Library.Product_Lexorder"
begin

text \<open>
  The first half of \<^verbatim>\<open>compute_layout_icf\<close> in \<^verbatim>\<open>peony-layout/src/lib.rs\<close>: input sections are grouped into
  output sections (builders), the builders are put into the read-only, executable, writable and zero-filled
  buckets, and the sections the linker makes itself are added to them.  The hash map of the builders and the
  list of its keys in first-seen order are one list of builders.

  Grouping is shown to place each section the filters keep exactly once, in link order, aligned and apart
  from the others of its output section, and to fail exactly on an alignment that is no power of two.
\<close>

section \<open>Configuration\<close>

record layout_config =
  cfg_base_address :: u64
  cfg_page_size :: u64
  cfg_entry_symbol :: name
  cfg_build_id :: bool
  cfg_strip :: bool
  cfg_strip_debug :: bool
  cfg_pie :: bool
  cfg_shared :: bool
  cfg_emit_relocs :: bool
  cfg_script :: "script_layout option"

definition config_default :: layout_config where
  "config_default =
     \<lparr>cfg_base_address = 0x400000, cfg_page_size = 0x1000, cfg_entry_symbol = ''_start'', cfg_build_id = False,
      cfg_strip = False, cfg_strip_debug = False, cfg_pie = False, cfg_shared = False, cfg_emit_relocs = False,
      cfg_script = None\<rparr>"

datatype hash_style = Sysv | Gnu | Both

record export_sym =
  ex_name :: name
  ex_info :: u8
  ex_other :: u8

record dynamic_info =
  di_imports :: "name list"
  di_import_versions :: "name option list"
  di_import_sonames :: "name option list"
  di_needed :: "name list"
  di_interp :: "bytes option"
  di_rpath :: "name option"
  di_enable_new_dtags :: bool
  di_hash_style :: hash_style
  di_pie :: bool
  di_n_relative :: nat
  di_n_irelative :: nat
  di_shared :: bool
  di_soname :: "name option"
  di_exports :: "export_sym list"
  di_n_tls_reloc :: nat
  di_copy_relocs :: "u32 list"
  di_n_symbolic_data :: nat

text \<open>The arguments of \<^verbatim>\<open>compute_layout_icf\<close>.\<close>

record layout_args =
  la_arena :: input_arena
  la_objects :: "input_object list"
  la_symbols :: symbol_table
  la_got_syms :: "u32 list"
  la_plt_syms :: "u32 list"
  la_live :: section_filter
  la_dynamic :: "dynamic_info option"
  la_config :: layout_config
  la_tls :: tls_got_info
  la_fold_map :: "(sec_key \<times> sec_key) list option"

datatype perm = Ro | Rx | Rw

record builder =
  bd_name :: name
  bd_kind :: section_kind
  bd_sh_flags :: u64
  bd_sh_type :: u32
  bd_align :: u64
  bd_size :: u64
  bd_perm :: perm
  bd_is_nobits :: bool
  bd_contributions :: "section_contribution list"

section \<open>Names, permissions and alignment\<close>

definition is_power_of_two :: "u64 \<Rightarrow> bool" where
  "is_power_of_two w \<longleftrightarrow> list_ex (\<lambda>k. w = 2 ^ k) [0..<64]"

definition perm_of :: "u64 \<Rightarrow> perm" where
  "perm_of flags = (if flags AND SHF_EXECINSTR \<noteq> 0 then Rx else if flags AND SHF_WRITE \<noteq> 0 then Rw else Ro)"

definition is_allocatable :: "name \<Rightarrow> section_kind \<Rightarrow> u64 \<Rightarrow> bool" where
  "is_allocatable n kind flags \<longleftrightarrow> flags AND SHF_ALLOC \<noteq> 0 \<and> kind \<noteq> Debug \<and> \<not> starts_with n ''.note''"

text \<open>\<^verbatim>\<open>s.get(1..)\<close> is \<^verbatim>\<open>None\<close> for an empty name and where byte 1 is inside a character.\<close>

definition output_section_name :: "name \<Rightarrow> name" where
  "output_section_name n =
     (let s = if is_utf8 n then n else ''.unknown'' in
      if starts_with s ''.note.'' then s
      else if s = [] \<or> (1 < length s \<and> cont_byte (of_char (s ! 1))) then s
      else case find_sub ''.'' (drop 1 s) of Some dot2 \<Rightarrow> take (dot2 + 1) s | None \<Rightarrow> s)"

text \<open>\<^verbatim>\<open>next_power_of_two\<close> wraps to 0 above \<open>2 ^ 63\<close>, which the clamp turns into 1.\<close>

definition copy_reloc_align :: "u64 \<Rightarrow> u64" where
  "copy_reloc_align sz =
     (if sz \<le> 1 then 1 else if sz \<le> 2 then 2 else if sz \<le> 4 then 4 else if sz \<le> 8 then 8
      else if sz \<le> 2 ^ 63 then 16 else 1)"

section \<open>Grouping\<close>

text \<open>An input section the loop has reached, with what it knows of its object.\<close>

record placed_input =
  pi_object :: nat
  pi_path :: string
  pi_pos :: nat
  pi_section :: input_section

definition symbol_anchored :: "input_object list \<Rightarrow> sec_key set" where
  "symbol_anchored objs =
     set (concat (map (\<lambda>(i, obj). map (Pair i) (List.map_filter sym_section (symbols obj))) (enumerate 0 objs)))"

text \<open>The conditions with which the loop over the sections of an object passes on.\<close>

definition section_selected :: "layout_args \<Rightarrow> nat \<Rightarrow> input_section \<Rightarrow> bool" where
  "section_selected la obj_idx sec \<longleftrightarrow>
     is_allocatable (sec_name sec) (sec_kind sec) (sec_flags sec) \<and>
     \<not> (sec_size sec = 0 \<and> (obj_idx, sec_index sec) \<notin> symbol_anchored (la_objects la)) \<and>
     emits (la_live la) (obj_idx, sec_index sec) \<and>
     (case la_fold_map la of None \<Rightarrow> True | Some fm \<Rightarrow> map_of fm (obj_idx, sec_index sec) = None)"

definition selected_sections :: "layout_args \<Rightarrow> placed_input list" where
  "selected_sections la =
     concat (map (\<lambda>(i, obj). map (\<lambda>(pos, sec). \<lparr>pi_object = i, pi_path = path obj, pi_pos = pos, pi_section = sec\<rparr>)
         (filter (\<lambda>(pos, sec). section_selected la i sec) (enumerate 0 (sections obj))))
       (enumerate 0 (la_objects la)))"

definition section_align :: "input_section \<Rightarrow> u64" where
  "section_align sec = (if sec_align sec = 0 then 1 else sec_align sec)"

definition out_name_of :: "script_layout option \<Rightarrow> name \<Rightarrow> name" where
  "out_name_of script n =
     (case Option.bind script (\<lambda>sl. output_for_input sl n) of Some out \<Rightarrow> out | None \<Rightarrow> output_section_name n)"

definition builder_sh_type :: "name \<Rightarrow> input_section \<Rightarrow> u32" where
  "builder_sh_type out sec =
     (if sec_kind sec = Bss \<or> sec_kind sec = Tbss then SHT_NOBITS
      else if out = ''.init_array'' then SHT_INIT_ARRAY
      else if out = ''.fini_array'' then SHT_FINI_ARRAY
      else if out = ''.preinit_array'' then SHT_PREINIT_ARRAY
      else if starts_with out ''.note'' \<or> sec_sh_type sec = SHT_NOTE then SHT_NOTE
      else SHT_PROGBITS)"

definition new_builder :: "name \<Rightarrow> input_section \<Rightarrow> builder" where
  "new_builder out sec =
     \<lparr>bd_name = out, bd_kind = sec_kind sec,
      bd_sh_flags = sec_flags sec AND (SHF_ALLOC OR SHF_WRITE OR SHF_EXECINSTR OR SHF_TLS),
      bd_sh_type = builder_sh_type out sec, bd_align = section_align sec, bd_size = 0,
      bd_perm = perm_of (sec_flags sec), bd_is_nobits = (sec_kind sec = Bss \<or> sec_kind sec = Tbss),
      bd_contributions = []\<rparr>"

definition push_contribution :: "placed_input \<Rightarrow> builder \<Rightarrow> builder" where
  "push_contribution y b =
     (let sec = pi_section y; align = section_align sec; off = align_up (bd_size b) align in
      b\<lparr>bd_contributions := bd_contributions b @
          [\<lparr>con_object_id = pi_object y, con_section_index = sec_index sec, con_section_pos = pi_pos y,
            con_offset = off, con_size = sec_size sec\<rparr>],
        bd_size := off + sec_size sec, bd_align := max (bd_align b) align\<rparr>)"

definition placed_out :: "script_layout option \<Rightarrow> placed_input \<Rightarrow> name" where
  "placed_out script y = out_name_of script (sec_name (pi_section y))"

definition add_section :: "script_layout option \<Rightarrow> placed_input \<Rightarrow> builder list \<Rightarrow> builder list" where
  "add_section script y bs =
     (let out = placed_out script y;
          bs' = if list_ex (\<lambda>b. bd_name b = out) bs then bs else bs @ [new_builder out (pi_section y)]
      in map (\<lambda>b. if bd_name b = out then push_contribution y b else b) bs')"

fun group_sections ::
  "script_layout option \<Rightarrow> placed_input list \<Rightarrow> builder list \<Rightarrow> (layout_error, builder list) outcome" where
  "group_sections script [] bs = Ok bs"
| "group_sections script (y # rest) bs =
     (if is_power_of_two (section_align (pi_section y)) then group_sections script rest (add_section script y bs)
      else Err (BadAlignment (section_align (pi_section y)) (pi_path y)))"

definition group_input_sections :: "layout_args \<Rightarrow> (layout_error, builder list) outcome" where
  "group_input_sections la = group_sections (cfg_script (la_config la)) (selected_sections la) []"

section \<open>Buckets\<close>

record buckets =
  bk_ro :: "builder list"
  bk_rx :: "builder list"
  bk_rw_pb :: "builder list"
  bk_rw_bss :: "builder list"

definition bucket_builders :: "builder list \<Rightarrow> buckets" where
  "bucket_builders bs =
     \<lparr>bk_ro = sort_key bd_name (filter (\<lambda>b. bd_perm b = Ro) bs),
      bk_rx = sort_key bd_name (filter (\<lambda>b. bd_perm b = Rx) bs),
      bk_rw_pb = sort_key bd_name (filter (\<lambda>b. bd_perm b = Rw \<and> \<not> bd_is_nobits b) bs),
      bk_rw_bss = sort_key bd_name (filter (\<lambda>b. bd_perm b = Rw \<and> bd_is_nobits b) bs)\<rparr>"

definition add_ro :: "builder \<Rightarrow> buckets \<Rightarrow> buckets" where "add_ro b k = k\<lparr>bk_ro := bk_ro k @ [b]\<rparr>"
definition add_rx :: "builder \<Rightarrow> buckets \<Rightarrow> buckets" where "add_rx b k = k\<lparr>bk_rx := bk_rx k @ [b]\<rparr>"
definition add_rw :: "builder \<Rightarrow> buckets \<Rightarrow> buckets" where "add_rw b k = k\<lparr>bk_rw_pb := bk_rw_pb k @ [b]\<rparr>"
definition add_bss :: "builder \<Rightarrow> buckets \<Rightarrow> buckets" where "add_bss b k = k\<lparr>bk_rw_bss := bk_rw_bss k @ [b]\<rparr>"

text \<open>A section the linker makes, without contributions.\<close>

definition ro_builder :: "name \<Rightarrow> u32 \<Rightarrow> u64 \<Rightarrow> u64 \<Rightarrow> builder" where
  "ro_builder n sh_type align sz =
     \<lparr>bd_name = n, bd_kind = Other, bd_sh_flags = SHF_ALLOC, bd_sh_type = sh_type, bd_align = align, bd_size = sz,
      bd_perm = Ro, bd_is_nobits = False, bd_contributions = []\<rparr>"

definition rw_builder :: "name \<Rightarrow> u32 \<Rightarrow> u64 \<Rightarrow> builder" where
  "rw_builder n sh_type sz =
     \<lparr>bd_name = n, bd_kind = KData, bd_sh_flags = SHF_ALLOC OR SHF_WRITE, bd_sh_type = sh_type, bd_align = 8,
      bd_size = sz, bd_perm = Rw, bd_is_nobits = False, bd_contributions = []\<rparr>"

definition synth_got :: "u32 list \<Rightarrow> tls_got_info \<Rightarrow> buckets \<Rightarrow> buckets" where
  "synth_got got_syms tls k =
     (let got_total = of_nat (length got_syms) * 8 + tls_got_byte_size tls in
      if 0 < got_total then add_rw (rw_builder ''.got'' SHT_PROGBITS got_total) k else k)"

subsection \<open>Common symbols and COPY storage\<close>

record bss_alloc =
  ba_common :: "(u32 \<times> u64) list"
  ba_copy :: "(u32 \<times> u64) list"
  ba_size :: u64
  ba_align :: u64

definition common_syms :: "symbol_table \<Rightarrow> (u32 \<times> u64 \<times> u64) list" where
  "common_syms st =
     sort_key fst (List.map_filter (\<lambda>(_, r). map_option (\<lambda>(s, a). (res_id r, s, a)) (res_common r)) (resolutions st))"

definition alloc_common :: "u32 \<times> u64 \<times> u64 \<Rightarrow> bss_alloc \<Rightarrow> bss_alloc" where
  "alloc_common = (\<lambda>(i, sz, al) a.
     (let al = max al 1; off = align_up (ba_size a) al in
      a\<lparr>ba_align := max (ba_align a) al, ba_common := ba_common a @ [(i, off)], ba_size := off + sz\<rparr>))"

definition alloc_copy :: "symbol_table \<Rightarrow> u32 \<Rightarrow> bss_alloc \<Rightarrow> bss_alloc" where
  "alloc_copy st i a =
     (case Option.bind (name_by_id st i) (lookup st) of
        None \<Rightarrow> a
      | Some res \<Rightarrow>
          (let sz = max (res_size res) 1; al = copy_reloc_align sz; off = align_up (ba_size a) al in
           a\<lparr>ba_align := max (ba_align a) al, ba_copy := ba_copy a @ [(i, off)], ba_size := off + sz\<rparr>))"

definition alloc_bss :: "symbol_table \<Rightarrow> dynamic_info option \<Rightarrow> bss_alloc" where
  "alloc_bss st dynamic =
     fold (alloc_copy st) (case dynamic of Some d \<Rightarrow> di_copy_relocs d | None \<Rightarrow> [])
       (fold alloc_common (common_syms st) \<lparr>ba_common = [], ba_copy = [], ba_size = 0, ba_align = 1\<rparr>)"

definition synth_bss :: "bss_alloc \<Rightarrow> buckets \<Rightarrow> buckets" where
  "synth_bss a k =
     (if 0 < ba_size a
      then add_bss \<lparr>bd_name = ''.bss'', bd_kind = Bss, bd_sh_flags = SHF_ALLOC OR SHF_WRITE, bd_sh_type = SHT_NOBITS,
             bd_align = ba_align a, bd_size = ba_size a, bd_perm = Rw, bd_is_nobits = True, bd_contributions = []\<rparr> k
      else k)"

subsection \<open>Notes and the unwind table\<close>

abbreviation (input) BUILD_ID_NOTE_SIZE :: u64 where "BUILD_ID_NOTE_SIZE \<equiv> 32"

definition synth_notes :: "bytes \<Rightarrow> bool \<Rightarrow> buckets \<Rightarrow> buckets" where
  "synth_notes property_note build_id k =
     (let k1 = if property_note = [] then k
               else add_ro (ro_builder ''.note.gnu.property'' SHT_NOTE 8 (of_nat (length property_note))) k
      in if build_id then add_ro (ro_builder ''.note.gnu.build-id'' SHT_NOTE 4 BUILD_ID_NOTE_SIZE) k1 else k1)"

definition eh_sections :: "input_object list \<Rightarrow> input_section list" where
  "eh_sections objs = filter (\<lambda>s. sec_kind s = EhFrame) (concat (map sections objs))"

text \<open>The FDEs of every \<^verbatim>\<open>.eh_frame\<close> of the link; \<open>None\<close> where a handle leaves the arena.\<close>

definition link_fdes :: "input_arena \<Rightarrow> input_object list \<Rightarrow> nat option" where
  "link_fdes arena objs =
     (let ds = map (\<lambda>s. arena_bytes arena (sec_data s)) (eh_sections objs) in
      if None \<in> set ds then None else Some (sum_list (map (count_fdes \<circ> the) ds)))"

definition synth_eh_frame_hdr :: "nat \<Rightarrow> buckets \<Rightarrow> buckets" where
  "synth_eh_frame_hdr n_fdes k =
     (if 0 < n_fdes then add_ro (ro_builder ''.eh_frame_hdr'' SHT_PROGBITS 4 (12 + 8 * of_nat n_fdes)) k else k)"

section \<open>Alignment\<close>

lemma is_power_of_twoE:
  assumes "is_power_of_two a"
  obtains k where "k < 64" "a = 2 ^ k"
  using assms by (auto simp: is_power_of_two_def list_ex_iff)

lemma unat_exp: "k < 64 \<Longrightarrow> unat (2 ^ k :: u64) = 2 ^ k"
proof -
  assume "k < 64"
  then have "(2 ^ k :: nat) < 2 ^ 64" by (intro power_strict_increasing) auto
  then show "unat (2 ^ k :: u64) = 2 ^ k" using unat_of_nat [of "2 ^ k", where 'a = 64] by simp
qed

lemma align_up_spec:
  assumes "is_power_of_two a" "unat v + unat a \<le> 2 ^ 64"
  shows "unat v \<le> unat (align_up v a)" "unat (align_up v a) < unat v + unat a" "unat (align_up v a) mod unat a = 0"
proof -
  obtain k where k: "k < 64" "a = 2 ^ k" by (rule is_power_of_twoE [OF assms(1)])
  have a: "unat a = 2 ^ k" using k by (simp add: unat_exp)
  have u: "unat (align_up v a) = (unat v + 2 ^ k - 1) div 2 ^ k * 2 ^ k"
    using align_up_pow2 [of v k] assms(2) k a by simp
  have "unat v + 2 ^ k - 1 = (unat v + 2 ^ k - 1) div 2 ^ k * 2 ^ k + (unat v + 2 ^ k - 1) mod 2 ^ k"
    "(unat v + 2 ^ k - 1) mod 2 ^ k < 2 ^ k" by (simp_all only: div_mult_mod_eq) simp
  moreover have "1 \<le> (2 ^ k :: nat)" by simp
  ultimately show "unat v \<le> unat (align_up v a)" "unat (align_up v a) < unat v + unat a"
    unfolding u a by linarith+
  show "unat (align_up v a) mod unat a = 0" by (simp add: u a)
qed

lemma pow2_max_dvd:
  assumes "is_power_of_two a" "is_power_of_two b"
  shows "unat a dvd unat (max a b)" "unat b dvd unat (max a b)" "is_power_of_two (max a b)"
proof -
  obtain j k where jk: "j < 64" "a = 2 ^ j" "k < 64" "b = 2 ^ k"
    using assms by (auto elim!: is_power_of_twoE)
  have m: "max a b = (if j \<le> k then b else a)"
    using jk by (auto simp: max_def word_le_nat_alt unat_exp power_increasing_iff)
  show "unat a dvd unat (max a b)" "unat b dvd unat (max a b)"
    using m jk by (auto simp: unat_exp le_imp_power_dvd)
  show "is_power_of_two (max a b)" using m assms by simp
qed

section \<open>What grouping does\<close>

definition placed_key :: "placed_input \<Rightarrow> nat \<times> nat \<times> nat \<times> u64" where
  "placed_key y = (pi_object y, sec_index (pi_section y), pi_pos y, sec_size (pi_section y))"

definition con_key :: "section_contribution \<Rightarrow> nat \<times> nat \<times> nat \<times> u64" where
  "con_key c = (con_object_id c, con_section_index c, con_section_pos c, con_size c)"

definition placed_align :: "placed_input \<Rightarrow> u64" where
  "placed_align y = section_align (pi_section y)"

definition placed_room :: "placed_input \<Rightarrow> nat" where
  "placed_room y = unat (sec_size (pi_section y)) + unat (placed_align y)"

definition well_aligned :: "placed_input \<Rightarrow> bool" where
  "well_aligned y \<longleftrightarrow> is_power_of_two (placed_align y)"

text \<open>The contributions of a builder, placed for the inputs \<open>zs\<close>: aligned, in order and apart.\<close>

definition packed :: "placed_input list \<Rightarrow> builder \<Rightarrow> bool" where
  "packed zs b \<longleftrightarrow>
     map con_key (bd_contributions b) = map placed_key zs \<and>
     sorted_wrt (\<lambda>c d. unat (con_offset c) + unat (con_size c) \<le> unat (con_offset d)) (bd_contributions b) \<and>
     (\<forall>c \<in> set (bd_contributions b). unat (con_offset c) + unat (con_size c) \<le> unat (bd_size b)) \<and>
     list_all2 (\<lambda>y c. unat (placed_align y) dvd unat (con_offset c)) zs (bd_contributions b) \<and>
     (\<forall>y \<in> set zs. unat (placed_align y) dvd unat (bd_align b)) \<and>
     is_power_of_two (bd_align b) \<and> unat (bd_size b) \<le> sum_list (map placed_room zs)"

lemma packed_new: "is_power_of_two (section_align sec) \<Longrightarrow> packed [] (new_builder out sec)"
  by (simp add: packed_def new_builder_def)

lemma packed_push:
  assumes p: "packed zs b" and al: "well_aligned y"
    and space: "sum_list (map placed_room zs) + placed_room y < 2 ^ 64"
  shows "packed (zs @ [y]) (push_contribution y b)"
proof -
  let ?a = "placed_align y" and ?s = "sec_size (pi_section y)"
  let ?off = "align_up (bd_size b) ?a"
  have al: "is_power_of_two ?a" using al by (simp add: well_aligned_def)
  have room: "unat (bd_size b) + unat ?a + unat ?s < 2 ^ 64"
    using p space by (simp add: packed_def placed_room_def)
  then have off: "unat (bd_size b) \<le> unat ?off" "unat ?off < unat (bd_size b) + unat ?a" "unat ?a dvd unat ?off"
    using align_up_spec [OF al, of "bd_size b"] by (auto simp: dvd_eq_mod_eq_0)
  have sz: "unat (?off + ?s) = unat ?off + unat ?s"
    using off room by (intro unat_add_no_wrap) simp
  have cs: "bd_contributions (push_contribution y b) = bd_contributions b @
      [\<lparr>con_object_id = pi_object y, con_section_index = sec_index (pi_section y), con_section_pos = pi_pos y,
        con_offset = ?off, con_size = ?s\<rparr>]"
    "bd_size (push_contribution y b) = ?off + ?s" "bd_align (push_contribution y b) = max (bd_align b) ?a"
    by (simp_all add: push_contribution_def Let_def placed_align_def)
  have ord: "\<forall>c \<in> set (bd_contributions b). unat (con_offset c) + unat (con_size c) \<le> unat ?off"
    using p off(1) unfolding packed_def by (meson order_trans)
  have ord': "\<forall>c \<in> set (bd_contributions b). unat (con_offset c) + unat (con_size c) \<le> unat ?off + unat ?s"
    using ord by (simp add: trans_le_add1)
  have dv: "unat ?a dvd unat (max (bd_align b) ?a)" "unat (bd_align b) dvd unat (max (bd_align b) ?a)"
      "is_power_of_two (max (bd_align b) ?a)"
    using pow2_max_dvd [of "bd_align b" ?a] p al by (simp_all add: packed_def)
  have dvs: "\<forall>y \<in> set zs. unat (placed_align y) dvd unat (max (bd_align b) ?a)"
    using p dv(2) dvd_trans unfolding packed_def by blast
  have len: "length zs = length (bd_contributions b)" using p by (auto simp: packed_def dest: list_all2_lengthD)
  show ?thesis
    unfolding packed_def cs sz
  proof (intro conjI)
    show "map con_key (bd_contributions b @
        [\<lparr>con_object_id = pi_object y, con_section_index = sec_index (pi_section y), con_section_pos = pi_pos y,
          con_offset = ?off, con_size = ?s\<rparr>]) = map placed_key (zs @ [y])"
      using p by (simp add: packed_def con_key_def placed_key_def)
    show "unat ?off + unat ?s \<le> sum_list (map placed_room (zs @ [y]))"
      using p off by (simp add: packed_def placed_room_def)
  qed (use p ord ord' off dv dvs len in \<open>simp_all add: packed_def sorted_wrt_append list_all2_append\<close>)
qed

lemma group_sections_Ok:
  "group_sections script ys bs = Ok r \<longleftrightarrow> (\<forall>y \<in> set ys. well_aligned y) \<and> r = fold (add_section script) ys bs"
  by (induction ys arbitrary: bs) (auto simp: well_aligned_def placed_align_def)

lemma group_sections_Err:
  "group_sections script ys bs = Err e \<longleftrightarrow>
     (\<exists>pre y post. ys = pre @ y # post \<and> (\<forall>z \<in> set pre. well_aligned z) \<and> \<not> well_aligned y \<and>
        e = BadAlignment (placed_align y) (pi_path y))"
proof (induction ys arbitrary: bs)
  case (Cons x ys)
  show ?case
  proof (cases "well_aligned x")
    case True
    have "group_sections script (x # ys) bs = group_sections script ys (add_section script x bs)"
      using True by (simp add: well_aligned_def placed_align_def)
    then have "group_sections script (x # ys) bs = Err e \<longleftrightarrow>
        (\<exists>pre y post. ys = pre @ y # post \<and> (\<forall>z \<in> set pre. well_aligned z) \<and> \<not> well_aligned y \<and>
          e = BadAlignment (placed_align y) (pi_path y))"
      by (simp only: Cons.IH)
    also have "\<dots> \<longleftrightarrow> (\<exists>pre y post. x # ys = pre @ y # post \<and> (\<forall>z \<in> set pre. well_aligned z) \<and>
        \<not> well_aligned y \<and> e = BadAlignment (placed_align y) (pi_path y))" (is "?l \<longleftrightarrow> ?r")
    proof
      assume ?l
      then obtain pre y post where "ys = pre @ y # post" "\<forall>z \<in> set pre. well_aligned z" "\<not> well_aligned y"
          "e = BadAlignment (placed_align y) (pi_path y)" by blast
      then show ?r using True by (intro exI [of _ "x # pre"] exI [of _ y] exI [of _ post]) simp
    next
      assume ?r
      then obtain pre y post where r: "x # ys = pre @ y # post" "\<forall>z \<in> set pre. well_aligned z" "\<not> well_aligned y"
          "e = BadAlignment (placed_align y) (pi_path y)" by blast
      then obtain pre' where "pre = x # pre'" using True by (cases pre) auto
      then show ?l using r by (intro exI [of _ pre'] exI [of _ y] exI [of _ post]) simp
    qed
    finally show ?thesis .
  next
    case False
    then have l: "group_sections script (x # ys) bs = Err (BadAlignment (placed_align x) (pi_path x))"
      by (simp add: well_aligned_def placed_align_def)
    have "(\<exists>pre y post. x # ys = pre @ y # post \<and> (\<forall>z \<in> set pre. well_aligned z) \<and> \<not> well_aligned y \<and>
          e = BadAlignment (placed_align y) (pi_path y)) \<longleftrightarrow> e = BadAlignment (placed_align x) (pi_path x)" (is "?r \<longleftrightarrow> _")
    proof
      assume ?r
      then obtain pre y post where r: "x # ys = pre @ y # post" "\<forall>z \<in> set pre. well_aligned z"
          "e = BadAlignment (placed_align y) (pi_path y)" by blast
      then show "e = BadAlignment (placed_align x) (pi_path x)" using False by (cases pre) auto
    next
      assume "e = BadAlignment (placed_align x) (pi_path x)"
      then show ?r using False by (intro exI [of _ "[]"] exI [of _ x] exI [of _ ys]) simp
    qed
    then show ?thesis using l by auto
  qed
qed simp

lemma group_sections_not_Panic: "group_sections script ys bs \<noteq> Panic"
  by (induction ys arbitrary: bs) auto

section \<open>The builders after grouping\<close>

lemma bd_name_push [simp]: "bd_name (push_contribution y b) = bd_name b"
  by (simp add: push_contribution_def Let_def)

lemma bd_name_new [simp]: "bd_name (new_builder out sec) = out"
  by (simp add: new_builder_def)

definition builders_ok :: "script_layout option \<Rightarrow> placed_input list \<Rightarrow> builder list \<Rightarrow> bool" where
  "builders_ok script ys bs \<longleftrightarrow>
     distinct (map bd_name bs) \<and> bd_name ` set bs = placed_out script ` set ys \<and>
     (\<forall>b \<in> set bs. packed (filter (\<lambda>y. placed_out script y = bd_name b) ys) b)"

lemma sum_list_filter_le: "sum_list (map f (filter P ys)) \<le> (sum_list (map f ys) :: nat)"
  by (induction ys) auto

lemma builders_ok_step:
  assumes ok: "builders_ok script ys bs" and al: "well_aligned y"
    and room: "sum_list (map placed_room (ys @ [y])) < 2 ^ 64"
  shows "builders_ok script (ys @ [y]) (add_section script y bs)"
proof -
  let ?out = "placed_out script y"
  define bs' where "bs' = (if list_ex (\<lambda>b. bd_name b = ?out) bs then bs else bs @ [new_builder ?out (pi_section y)])"
  have step: "add_section script y bs = map (\<lambda>b. if bd_name b = ?out then push_contribution y b else b) bs'"
    by (simp add: add_section_def bs'_def Let_def)
  have names: "map bd_name (add_section script y bs) = map bd_name bs'"
    by (simp add: step)
  have d0: "distinct (map bd_name bs)" using ok by (simp add: builders_ok_def)
  have d: "distinct (map bd_name bs')"
    using d0 by (auto simp: bs'_def list_ex_iff)
  have n: "bd_name ` set bs' = insert ?out (bd_name ` set bs)"
    by (force simp: bs'_def list_ex_iff)
  have pk: "packed (filter (\<lambda>z. placed_out script z = bd_name b) ys) b" if b: "b \<in> set bs'" for b
  proof (cases "b \<in> set bs")
    case True
    then show ?thesis using ok by (simp add: builders_ok_def)
  next
    case False
    then have "b = new_builder ?out (pi_section y)" "\<not> list_ex (\<lambda>b. bd_name b = ?out) bs"
      using b by (auto simp: bs'_def split: if_splits)
    moreover have "?out \<notin> bd_name ` set bs" using calculation(2) by (auto simp: list_ex_iff)
    then have "?out \<notin> placed_out script ` set ys" using ok by (simp add: builders_ok_def)
    then have "filter (\<lambda>z. placed_out script z = ?out) ys = []" unfolding filter_empty_conv by (metis imageI)
    ultimately show ?thesis
      using al packed_new by (simp add: well_aligned_def placed_align_def)
  qed
  have room': "sum_list (map placed_room (filter P ys)) + placed_room y < 2 ^ 64" for P
    using room sum_list_filter_le [of placed_room P ys] by simp
  have "packed (filter (\<lambda>z. placed_out script z = bd_name b) (ys @ [y])) b"
    if "b \<in> set (add_section script y bs)" for b
  proof -
    have "b \<in> (\<lambda>b. if bd_name b = ?out then push_contribution y b else b) ` set bs'"
      using that by (simp only: step set_map)
    then obtain b0 where b0: "b0 \<in> set bs'" "b = (if bd_name b0 = ?out then push_contribution y b0 else b0)"
      by (elim imageE) simp
    then show ?thesis
      using pk [OF b0(1)] packed_push [OF _ al room'] by (cases "bd_name b0 = ?out") auto
  qed
  then show ?thesis
    using d n names ok unfolding builders_ok_def
    by (metis (no_types, lifting) image_insert insert_is_Un list.set_map list.simps(15) set_append sup_commute empty_set)
qed

lemma builders_ok_fold:
  assumes "\<forall>y \<in> set ys. well_aligned y" "sum_list (map placed_room ys) < 2 ^ 64"
  shows "builders_ok script ys (fold (add_section script) ys [])"
  using assms
proof (induction ys rule: rev_induct)
  case Nil
  then show ?case by (simp add: builders_ok_def)
next
  case (snoc y ys)
  have "sum_list (map placed_room ys) < 2 ^ 64" using snoc.prems(2) by simp
  then have "builders_ok script ys (fold (add_section script) ys [])" using snoc by simp
  then show ?case using builders_ok_step snoc.prems by (simp del: sum_list_append map_append)
qed

text \<open>
  Grouping fails exactly when a section that takes part in the image has an alignment that is no power of
  two, and the error names the alignment and the object of the first such section in link order.\<close>

theorem group_error:
  "group_input_sections la = Err e \<longleftrightarrow>
     (\<exists>pre y post. selected_sections la = pre @ y # post \<and> list_all well_aligned pre \<and> \<not> well_aligned y \<and>
        e = BadAlignment (placed_align y) (pi_path y))"
  by (simp add: group_input_sections_def group_sections_Err list_all_iff)

text \<open>C19: 
  When grouping succeeds (and the sizes and alignments of all sections add up to less than the address
  space) every selected section is placed exactly once: the output sections have distinct names, one for
  each name an input maps to, and the contributions of an output section are its inputs in link order,
  each at a multiple of its alignment, none overlapping the next, all inside the section's size, whose own
  alignment is a multiple of each of theirs.\<close>

theorem group_packs_sections:
  assumes "group_input_sections la = Ok bs" "sum_list (map placed_room (selected_sections la)) < 2 ^ 64"
  shows "builders_ok (cfg_script (la_config la)) (selected_sections la) bs"
  using assms by (auto simp: group_input_sections_def group_sections_Ok intro: builders_ok_fold)

text \<open>Three code sections of two objects, one of them empty and dropped.\<close>

definition code_section :: "nat \<Rightarrow> name \<Rightarrow> u64 \<Rightarrow> u64 \<Rightarrow> input_section" where
  "code_section i n align sz =
     \<lparr>sec_index = i, sec_name = n, sec_kind = Text, sec_sh_type = 1, sec_data = section_data_EMPTY, sec_align = align,
      sec_size = sz, sec_flags = 6, sec_relocs = []\<rparr>"

definition demo_args :: "input_object list \<Rightarrow> layout_args" where
  "demo_args objs =
     \<lparr>la_arena = arena_new, la_objects = objs, la_symbols = symbol_table_new, la_got_syms = [], la_plt_syms = [],
      la_live = All, la_dynamic = None, la_config = config_default,
      la_tls = \<lparr>tg_gd = [], tg_ie = [], tg_desc = [], tg_ldm = False\<rparr>, la_fold_map = None\<rparr>"

definition group_demo :: layout_args where
  "group_demo = demo_args
     [parsed_object (3, 0) ''a.o'' [code_section 1 ''.text.f'' 4 10, code_section 2 ''.text.g'' 1 0] [] [],
      parsed_object (2, 0) ''b.o'' [code_section 1 ''.text.h'' 16 5] [] []]"

lemma group_demo_selected:
  "selected_sections group_demo =
     [\<lparr>pi_object = 0, pi_path = ''a.o'', pi_pos = 0, pi_section = code_section 1 ''.text.f'' 4 10\<rparr>,
      \<lparr>pi_object = 1, pi_path = ''b.o'', pi_pos = 0, pi_section = code_section 1 ''.text.h'' 16 5\<rparr>]"
  by (simp add: selected_sections_def group_demo_def demo_args_def parsed_object_def section_selected_def
      is_allocatable_def code_section_def symbol_anchored_def starts_with_def)

lemma placed_out_text:
  "is_utf8 n \<Longrightarrow> n = ''.text.'' @ r \<Longrightarrow> out_name_of None n = ''.text''"
  by (simp add: out_name_of_def output_section_name_def starts_with_def cont_byte_def Let_def)

lemma group_demo_builders:
  "group_input_sections group_demo =
     Ok [(new_builder ''.text'' (code_section 1 ''.text.f'' 4 10))\<lparr>bd_align := 16, bd_size := 21, bd_contributions :=
       [\<lparr>con_object_id = 0, con_section_index = 1, con_section_pos = 0, con_offset = 0, con_size = 10\<rparr>,
        \<lparr>con_object_id = 1, con_section_index = 1, con_section_pos = 0, con_offset = 16, con_size = 5\<rparr>]\<rparr>]"
proof -
  have o: "placed_out None \<lparr>pi_object = i, pi_path = p, pi_pos = k, pi_section = code_section j n a z\<rparr> = ''.text''"
    if "n = ''.text.f'' \<or> n = ''.text.h''" for i p k j n a z
    using that placed_out_text [of n "drop 6 n"] by (auto simp: placed_out_def code_section_def is_utf8_def)
  have a: "section_align (code_section j n 4 z) = 4" "section_align (code_section j n 16 z) = 16" for j n z
    by (simp_all add: section_align_def code_section_def)
  have u: "align_up 0 4 = 0" "align_up 10 16 = 16" by (simp_all add: align_up_def max_def Let_def word_le_nat_alt)
  have p: "is_power_of_two 4" "is_power_of_two 16"
    by (simp_all add: is_power_of_two_def list_ex_iff) (rule bexI [of _ 2], simp, simp, rule bexI [of _ 4], simp, simp)
  have s: "sec_size (code_section j n al z) = z" "sec_index (code_section j n al z) = j" for j n al z
    by (simp_all add: code_section_def)
  show ?thesis
    by (simp add: group_input_sections_def group_demo_selected)
      (simp add: group_demo_def demo_args_def config_default_def a p add_section_def o push_contribution_def Let_def
        new_builder_def u s max_def)
qed

theorem group_packs_sections_witness:
  "\<exists>bs. group_input_sections group_demo = Ok bs \<and> length bs = 1 \<and>
     builders_ok None (selected_sections group_demo) bs"
proof -
  have room: "sum_list (map placed_room (selected_sections group_demo)) < 2 ^ 64"
    by (simp add: group_demo_selected placed_room_def placed_align_def section_align_def code_section_def)
  show ?thesis
    using group_packs_sections [OF group_demo_builders room] group_demo_builders
    by (simp add: group_demo_def demo_args_def config_default_def)
qed

end
