(* ===== verification/Link_Args.thy ===== *)
theory Link_Args
  imports Link_Options Layout_Group
begin

text \<open>
  The command line, \<^verbatim>\<open>peony/src/args.rs\<close>: the options, response files, and the arguments that key the incremental cache.  The
  arms of the source's \<^verbatim>\<open>match\<close> are tables, in its order: the arms of literal options, then the prefixes.

  \<open>parsed_args_consistent\<close> is the invariant the driver relies on; \<open>cache_key_sound\<close> shows that the cache key leaves out nothing
  that matters to the output, for command lines in which no option takes a diagnostic flag as its value.
\<close>

section \<open>Options\<close>

datatype library_mode = Any | Static | Dynamic

datatype link_spec_kind = Path string | Library name

record link_spec =
  lk_kind :: link_spec_kind
  lk_whole_archive :: bool
  lk_as_needed :: bool
  lk_library_mode :: library_mode
  lk_start_lib_member :: bool

record link_args =
  arg_raw_args :: "name list"
  arg_inputs :: "string list"
  arg_library_paths :: "string list"
  arg_libraries :: "name list"
  arg_link_specs :: "link_spec list"
  arg_output :: string
  arg_incremental :: bool
  arg_daemon :: bool
  arg_cache_report :: "string option"
  arg_threads :: nat
  arg_base_address :: name
  arg_base_address_explicit :: bool
  arg_entry :: name
  arg_entry_explicit :: bool
  arg_gc_sections :: bool
  arg_icf :: bool
  arg_stats :: bool
  arg_trace :: bool
  arg_trace_stack :: bool
  arg_trace_detail :: bool
  arg_help :: bool
  arg_defsym :: "name list"
  arg_linker_scripts :: "string list"
  arg_plugin :: "string option"
  arg_build_id :: bool
  arg_strip_all :: bool
  arg_strip_debug :: bool
  arg_emit_relocs :: bool
  arg_pie :: bool
  arg_no_crt :: bool
  arg_dynamic_linker :: "name option"
  arg_rpaths :: "name list"
  arg_enable_new_dtags :: bool
  arg_hash_style :: hash_style
  arg_export_dynamic :: bool
  arg_export_dynamic_patterns :: "name list"
  arg_exclude_libs :: "name list"
  arg_no_undefined :: bool
  arg_undefined :: "name list"
  arg_require_defined :: "name list"
  arg_relocatable :: bool
  arg_shared :: bool
  arg_soname :: "name option"
  arg_version_script :: "string option"
  arg_unsupported_flags :: "name list"

definition default_args :: link_args where
  "default_args =
     \<lparr>arg_raw_args = [], arg_inputs = [], arg_library_paths = [], arg_libraries = [], arg_link_specs = [], arg_output =
      ''a.out'', arg_incremental = True, arg_daemon = False, arg_cache_report = None, arg_threads = 0, arg_base_address =
      ''0x400000'', arg_base_address_explicit = False, arg_entry = ''_start'', arg_entry_explicit = False,
      arg_gc_sections = False, arg_icf = False, arg_stats = False, arg_trace = False, arg_trace_stack = False,
      arg_trace_detail = False, arg_help = False, arg_defsym = [], arg_linker_scripts = [], arg_plugin = None,
      arg_build_id = False, arg_strip_all = False, arg_strip_debug = False, arg_emit_relocs = False, arg_pie = False,
      arg_no_crt = False, arg_dynamic_linker = None, arg_rpaths = [], arg_enable_new_dtags = True, arg_hash_style = Both,
      arg_export_dynamic = False, arg_export_dynamic_patterns = [], arg_exclude_libs = [], arg_no_undefined = False,
      arg_undefined = [], arg_require_defined = [], arg_relocatable = False, arg_shared = False, arg_soname = None,
      arg_version_script = None, arg_unsupported_flags = []\<rparr>"

datatype arg_error = MissingValue name | BadHashStyle name | UnbalancedPop | NestedStartLib | StrayEndLib | MissingEndLib
  | UnbalancedState | PatternFile option_error | ResponseTooDeep | RecursiveResponse string | UnreadableResponse string
  | UnterminatedQuote char

record parse_state =
  pa_args :: link_args
  pa_whole_archive :: bool
  pa_as_needed :: bool
  pa_library_mode :: library_mode
  pa_start_lib :: bool
  pa_state_stack :: "(bool \<times> bool \<times> library_mode) list"

type_synonym arm = "name \<Rightarrow> parse_state \<Rightarrow> (arg_error, parse_state) outcome"

text \<open>An arm that only sets options.\<close>

definition sets :: "(name \<Rightarrow> link_args \<Rightarrow> link_args) \<Rightarrow> arm" where
  "sets f v ps = Ok (ps\<lparr>pa_args := f v (pa_args ps)\<rparr>)"

definition push_spec :: "link_spec_kind \<Rightarrow> parse_state \<Rightarrow> link_args \<Rightarrow> link_args" where
  "push_spec k ps a =
     a\<lparr>arg_link_specs := arg_link_specs a @ [\<lparr>lk_kind = k, lk_whole_archive = pa_whole_archive ps,
         lk_as_needed = pa_as_needed ps, lk_library_mode = pa_library_mode ps, lk_start_lib_member = pa_start_lib ps\<rparr>]\<rparr>"

definition push_path :: arm where
  "push_path p ps =
     (let a = pa_args ps in Ok (ps\<lparr>pa_args := push_spec (Path p) ps (a\<lparr>arg_inputs := arg_inputs a @ [p]\<rparr>)\<rparr>))"

definition push_library :: arm where
  "push_library n ps =
     (let a = pa_args ps in Ok (ps\<lparr>pa_args := push_spec (Library n) ps (a\<lparr>arg_libraries := arg_libraries a @ [n]\<rparr>)\<rparr>))"

definition parse_hash_style :: "name \<Rightarrow> (arg_error, hash_style) outcome" where
  "parse_hash_style v =
     (if v = ''sysv'' then Ok Sysv else if v = ''gnu'' then Ok Gnu else if v = ''both'' then Ok Both else Err (BadHashStyle v))"

definition set_hash_style :: arm where
  "set_hash_style v ps = bind_outcome (parse_hash_style v) (\<lambda>h. sets (\<lambda>_ a. a\<lparr>arg_hash_style := h\<rparr>) v ps)"

definition parse_exclude_libs :: "name \<Rightarrow> link_args \<Rightarrow> link_args" where
  "parse_exclude_libs v a =
     a\<lparr>arg_exclude_libs := arg_exclude_libs a @ filter (\<lambda>s. s \<noteq> []) (map trim (split_at CHR '','' v))\<rparr>"

definition parse_z_option :: "name \<Rightarrow> link_args \<Rightarrow> link_args" where
  "parse_z_option v a =
     (let v = dropWhile (\<lambda>c. c = CHR ''='') v in
      if v \<in> {''relro'', ''now'', ''noexecstack''} then a
      else if v = ''defs'' then a\<lparr>arg_no_undefined := True\<rparr>
      else if v = ''undefs'' then a\<lparr>arg_no_undefined := False\<rparr>
      else a\<lparr>arg_unsupported_flags := arg_unsupported_flags a @ [''-z '' @ v]\<rparr>)"

definition add_patterns :: "text_files \<Rightarrow> arm" where
  "add_patterns fs p ps =
     (case read_dynamic_symbol_patterns fs p of
        Ok pats \<Rightarrow> sets (\<lambda>_ a. a\<lparr>arg_export_dynamic_patterns := arg_export_dynamic_patterns a @ pats\<rparr>) p ps
      | Err e \<Rightarrow> Err (PatternFile e)
      | Panic \<Rightarrow> Panic)"

text \<open>\<^verbatim>\<open>str::parse::<usize>().unwrap_or(0)\<close>.\<close>

definition parse_threads :: "name \<Rightarrow> link_args \<Rightarrow> link_args" where
  "parse_threads v a = a\<lparr>arg_threads := (case u64_from_str_radix 10 v of Some n \<Rightarrow> unat n | None \<Rightarrow> 0)\<rparr>"

definition set_entry :: "name \<Rightarrow> link_args \<Rightarrow> link_args" where
  "set_entry v a = a\<lparr>arg_entry := v, arg_entry_explicit := True\<rparr>"

definition set_base_address :: "name \<Rightarrow> link_args \<Rightarrow> link_args" where
  "set_base_address v a = a\<lparr>arg_base_address := v, arg_base_address_explicit := True\<rparr>"

definition add_required :: "name \<Rightarrow> link_args \<Rightarrow> link_args" where
  "add_required v a = a\<lparr>arg_undefined := arg_undefined a @ [v], arg_require_defined := arg_require_defined a @ [v]\<rparr>"

definition add_unsupported :: "name \<Rightarrow> link_args \<Rightarrow> link_args" where
  "add_unsupported v a = a\<lparr>arg_unsupported_flags := arg_unsupported_flags a @ [v]\<rparr>"

text \<open>The options that take the next argument as their value.\<close>

definition value_arms :: "text_files \<Rightarrow> (name list \<times> arm) list" where
  "value_arms fs =
     [([''-o'', ''--output''], sets (\<lambda>v a. a\<lparr>arg_output := v\<rparr>)),
      ([''-e'', ''--entry''], sets set_entry),
      ([''-L'', ''--library-path''], sets (\<lambda>v a. a\<lparr>arg_library_paths := arg_library_paths a @ [v]\<rparr>)),
      ([''-T'', ''--script''], sets (\<lambda>v a. a\<lparr>arg_linker_scripts := arg_linker_scripts a @ [v]\<rparr>)),
      ([''-l'', ''--library''], push_library),
      ([''--defsym''], sets (\<lambda>v a. a\<lparr>arg_defsym := arg_defsym a @ [v]\<rparr>)),
      ([''-plugin'', ''--plugin''], sets (\<lambda>v a. a\<lparr>arg_plugin := Some v\<rparr>)),
      ([''--threads''], sets parse_threads),
      ([''--base-address''], sets set_base_address),
      ([''--cache-report''], sets (\<lambda>v a. a\<lparr>arg_cache_report := Some v\<rparr>)),
      ([''-rpath'', ''--rpath''], sets (\<lambda>v a. a\<lparr>arg_rpaths := arg_rpaths a @ [v]\<rparr>)),
      ([''-dynamic-linker'', ''--dynamic-linker''], sets (\<lambda>v a. a\<lparr>arg_dynamic_linker := Some v\<rparr>)),
      ([''-z''], sets parse_z_option),
      ([''--hash-style''], set_hash_style),
      ([''--exclude-libs''], sets parse_exclude_libs),
      ([''-soname'', ''-h'', ''--soname''], sets (\<lambda>v a. a\<lparr>arg_soname := Some v\<rparr>)),
      ([''--version-script''], sets (\<lambda>v a. a\<lparr>arg_version_script := Some v\<rparr>)),
      ([''-u'', ''--undefined''], sets (\<lambda>v a. a\<lparr>arg_undefined := arg_undefined a @ [v]\<rparr>)),
      ([''--require-defined''], sets add_required),
      ([''--export-dynamic-symbol''], sets (\<lambda>v a. a\<lparr>arg_export_dynamic_patterns := arg_export_dynamic_patterns a @ [v]\<rparr>)),
      ([''--export-dynamic-symbol-list'', ''--dynamic-list''], add_patterns fs)]"

definition pop_state :: arm where
  "pop_state _ ps =
     (case pa_state_stack ps of
        [] \<Rightarrow> Err UnbalancedPop
      | (whole, needed, mode) # stack \<Rightarrow>
          Ok (ps\<lparr>pa_state_stack := stack, pa_whole_archive := whole, pa_as_needed := needed, pa_library_mode := mode\<rparr>))"

definition push_state :: arm where
  "push_state _ ps =
     Ok (ps\<lparr>pa_state_stack := (pa_whole_archive ps, pa_as_needed ps, pa_library_mode ps) # pa_state_stack ps\<rparr>)"

definition open_lib :: arm where
  "open_lib _ ps = (if pa_start_lib ps then Err NestedStartLib else Ok (ps\<lparr>pa_start_lib := True\<rparr>))"

definition close_lib :: arm where
  "close_lib _ ps = (if pa_start_lib ps then Ok (ps\<lparr>pa_start_lib := False\<rparr>) else Err StrayEndLib)"

definition set_mode :: "library_mode \<Rightarrow> arm" where
  "set_mode m _ ps = Ok (ps\<lparr>pa_library_mode := m\<rparr>)"

text \<open>The options without a value; the arm gets the option.\<close>

definition flag_arms :: "(name list \<times> arm) list" where
  "flag_arms =
     [([''--gc-sections''], sets (\<lambda>_ a. a\<lparr>arg_gc_sections := True\<rparr>)),
      ([''--no-gc-sections''], sets (\<lambda>_ a. a\<lparr>arg_gc_sections := False\<rparr>)),
      ([''--stats''], sets (\<lambda>_ a. a\<lparr>arg_stats := True\<rparr>)),
      ([''--trace''], sets (\<lambda>_ a. a\<lparr>arg_trace := True\<rparr>)),
      ([''--trace-stack''], sets (\<lambda>_ a. a\<lparr>arg_trace := True, arg_trace_stack := True\<rparr>)),
      ([''--trace-detail''], sets (\<lambda>_ a. a\<lparr>arg_trace := True, arg_trace_detail := True\<rparr>)),
      ([''--help''], sets (\<lambda>_ a. a\<lparr>arg_help := True\<rparr>)),
      ([''--icf=all'', ''--icf=safe'', ''--icf''], sets (\<lambda>_ a. a\<lparr>arg_icf := True\<rparr>)),
      ([''--icf=none'', ''--no-icf''], sets (\<lambda>_ a. a\<lparr>arg_icf := False\<rparr>)),
      ([''--build-id''], sets (\<lambda>_ a. a\<lparr>arg_build_id := True\<rparr>)),
      ([''--incremental''], sets (\<lambda>_ a. a\<lparr>arg_incremental := True\<rparr>)),
      ([''--no-incremental''], sets (\<lambda>_ a. a\<lparr>arg_incremental := False, arg_daemon := False\<rparr>)),
      ([''--daemon''], sets (\<lambda>_ a. a\<lparr>arg_incremental := True, arg_daemon := True\<rparr>)),
      ([''-s'', ''--strip-all''], sets (\<lambda>_ a. a\<lparr>arg_strip_all := True, arg_strip_debug := True\<rparr>)),
      ([''-S'', ''--strip-debug''], sets (\<lambda>_ a. a\<lparr>arg_strip_debug := True\<rparr>)),
      ([''--emit-relocs'', ''-q''], sets (\<lambda>_ a. a\<lparr>arg_emit_relocs := True\<rparr>)),
      ([''-pie'', ''--pie''], sets (\<lambda>_ a. a\<lparr>arg_pie := True\<rparr>)),
      ([''-no-pie'', ''--no-pie''], sets (\<lambda>_ a. a\<lparr>arg_pie := False\<rparr>)),
      ([''-nostartfiles'', ''--no-crt''], sets (\<lambda>_ a. a\<lparr>arg_no_crt := True\<rparr>)),
      ([''-static'', ''--static''], (\<lambda>v ps. sets (\<lambda>_ a. a\<lparr>arg_pie := False\<rparr>) v (ps\<lparr>pa_library_mode := Static\<rparr>))),
      ([''-static-pie'', ''--static-pie''], sets add_unsupported),
      ([''-Bstatic'', ''-dn'', ''-non_shared''], set_mode Static),
      ([''-Bdynamic'', ''-dy''], set_mode Dynamic),
      ([''--as-needed''], (\<lambda>_ ps. Ok (ps\<lparr>pa_as_needed := True\<rparr>))),
      ([''--no-as-needed''], (\<lambda>_ ps. Ok (ps\<lparr>pa_as_needed := False\<rparr>))),
      ([''--push-state''], push_state),
      ([''--pop-state''], pop_state),
      ([''--whole-archive''], (\<lambda>_ ps. Ok (ps\<lparr>pa_whole_archive := True\<rparr>))),
      ([''--no-whole-archive''], (\<lambda>_ ps. Ok (ps\<lparr>pa_whole_archive := False\<rparr>))),
      ([''--start-lib''], open_lib),
      ([''--end-lib''], close_lib),
      ([''--enable-new-dtags''], sets (\<lambda>_ a. a\<lparr>arg_enable_new_dtags := True\<rparr>)),
      ([''--disable-new-dtags''], sets (\<lambda>_ a. a\<lparr>arg_enable_new_dtags := False\<rparr>)),
      ([''--no-undefined'', ''-zdefs''], sets (\<lambda>_ a. a\<lparr>arg_no_undefined := True\<rparr>)),
      ([''--allow-shlib-undefined'', ''--unresolved-symbols=ignore-all''], sets (\<lambda>_ a. a\<lparr>arg_no_undefined := False\<rparr>)),
      ([''--no-allow-shlib-undefined'', ''--unresolved-symbols=report-all''], sets (\<lambda>_ a. a\<lparr>arg_no_undefined := True\<rparr>)),
      ([''-shared'', ''--shared'', ''-Bshareable''], sets (\<lambda>_ a. a\<lparr>arg_shared := True\<rparr>)),
      ([''-r'', ''--relocatable''], sets (\<lambda>_ a. a\<lparr>arg_relocatable := True\<rparr>)),
      ([''--start-group'', ''--end-group''], (\<lambda>_ ps. Ok ps)),
      ([''--export-dynamic''], sets (\<lambda>_ a. a\<lparr>arg_export_dynamic := True\<rparr>))]"

text \<open>Options whose value, if one follows, is skipped; the first two are noted as unsupported.\<close>

definition wrap_options :: "name list" where
  "wrap_options = [''--wrap'', ''-wrap'']"

definition ignore_with_value :: "name list" where
  "ignore_with_value =
     [''-m'', ''-plugin'', ''-plugin-opt'', ''-rpath-link'', ''-y'', ''-Y'', ''-R'', ''-a'', ''-A'', ''--sysroot'']"

text \<open>The prefixes; the arm gets what follows the prefix.  The flag says that something must follow.\<close>

definition prefix_arms :: "text_files \<Rightarrow> (name \<times> bool \<times> arm) list" where
  "prefix_arms fs =
     [(''--entry='', False, sets set_entry),
      (''--defsym='', False, sets (\<lambda>v a. a\<lparr>arg_defsym := arg_defsym a @ [v]\<rparr>)),
      (''--plugin='', False, sets (\<lambda>v a. a\<lparr>arg_plugin := Some v\<rparr>)),
      (''--threads='', False, sets parse_threads),
      (''--base-address='', False, sets set_base_address),
      (''--script='', False, sets (\<lambda>v a. a\<lparr>arg_linker_scripts := arg_linker_scripts a @ [v]\<rparr>)),
      (''--build-id'', False, sets (\<lambda>_ a. a\<lparr>arg_build_id := True\<rparr>)),
      (''--version-script='', False, sets (\<lambda>v a. a\<lparr>arg_version_script := Some v\<rparr>)),
      (''-rpath='', False, sets (\<lambda>v a. a\<lparr>arg_rpaths := arg_rpaths a @ [v]\<rparr>)),
      (''--rpath='', False, sets (\<lambda>v a. a\<lparr>arg_rpaths := arg_rpaths a @ [v]\<rparr>)),
      (''-dynamic-linker='', False, sets (\<lambda>v a. a\<lparr>arg_dynamic_linker := Some v\<rparr>)),
      (''--dynamic-linker='', False, sets (\<lambda>v a. a\<lparr>arg_dynamic_linker := Some v\<rparr>)),
      (''--hash-style='', False, set_hash_style),
      (''--cache-report='', False, sets (\<lambda>v a. a\<lparr>arg_cache_report := Some v\<rparr>)),
      (''--exclude-libs='', False, sets parse_exclude_libs),
      (''-z'', True, sets parse_z_option),
      (''--wrap='', False, sets (\<lambda>v. add_unsupported (''--wrap='' @ v))),
      (''-wrap='', False, sets (\<lambda>v. add_unsupported (''-wrap='' @ v))),
      (''--require-defined='', False, sets add_required),
      (''--undefined='', False, sets (\<lambda>v a. a\<lparr>arg_undefined := arg_undefined a @ [v]\<rparr>)),
      (''--export-dynamic-symbol='', False, sets (\<lambda>v a. a\<lparr>arg_export_dynamic_patterns := arg_export_dynamic_patterns a @ [v]\<rparr>)),
      (''--export-dynamic-symbol-list='', False, add_patterns fs),
      (''--dynamic-list='', False, add_patterns fs),
      (''-soname='', False, sets (\<lambda>v a. a\<lparr>arg_soname := Some v\<rparr>)),
      (''-h'', True, sets (\<lambda>v a. a\<lparr>arg_soname := Some v\<rparr>)),
      (''-o'', False, sets (\<lambda>v a. a\<lparr>arg_output := v\<rparr>)),
      (''-L'', False, sets (\<lambda>v a. a\<lparr>arg_library_paths := arg_library_paths a @ [v]\<rparr>)),
      (''-T'', True, sets (\<lambda>v a. a\<lparr>arg_linker_scripts := arg_linker_scripts a @ [v]\<rparr>)),
      (''-plugin='', False, sets (\<lambda>v a. a\<lparr>arg_plugin := Some v\<rparr>)),
      (''-l'', False, push_library),
      (''-e'', False, sets set_entry),
      (''-'', False, (\<lambda>_ ps. Ok ps))]"

section \<open>Parsing\<close>

definition find_arm :: "(name list \<times> arm) list \<Rightarrow> name \<Rightarrow> arm option" where
  "find_arm arms arg = map_option snd (find (\<lambda>(ns, _). arg \<in> set ns) arms)"

definition prefix_applies :: "name \<Rightarrow> name \<times> bool \<times> arm \<Rightarrow> bool" where
  "prefix_applies arg = (\<lambda>(p, more, _). starts_with arg p \<and> (more \<longrightarrow> length p < length arg))"

text \<open>One argument, given the one after it; the result says whether that one was taken.\<close>

definition takes :: "bool \<Rightarrow> (arg_error, parse_state) outcome \<Rightarrow> (arg_error, parse_state \<times> bool) outcome" where
  "takes b m = bind_outcome m (\<lambda>ps. Ok (ps, b))"

definition other_arg :: "text_files \<Rightarrow> name \<Rightarrow> parse_state \<Rightarrow> (arg_error, parse_state) outcome" where
  "other_arg fs arg ps =
     (case find (prefix_applies arg) (prefix_arms fs) of
        Some (p, _, f) \<Rightarrow> f (drop (length p) arg) ps
      | None \<Rightarrow> push_path arg ps)"

definition parse_arg ::
  "text_files \<Rightarrow> name \<Rightarrow> name option \<Rightarrow> parse_state \<Rightarrow> (arg_error, parse_state \<times> bool) outcome" where
  "parse_arg fs arg following ps =
     (case find_arm (value_arms fs) arg of
        Some f \<Rightarrow> (case following of Some v \<Rightarrow> takes True (f v ps) | None \<Rightarrow> Err (MissingValue arg))
      | None \<Rightarrow>
          (case find_arm flag_arms arg of
             Some f \<Rightarrow> takes False (f arg ps)
           | None \<Rightarrow>
               if arg \<in> set wrap_options then takes True (sets add_unsupported arg ps)
               else if arg \<in> set ignore_with_value then Ok (ps, True)
               else takes False (other_arg fs arg ps)))"

fun parse_loop :: "text_files \<Rightarrow> name list \<Rightarrow> parse_state \<Rightarrow> (arg_error, parse_state) outcome" where
  "parse_loop fs [] ps = Ok ps"
| "parse_loop fs [arg] ps = bind_outcome (parse_arg fs arg None ps) (\<lambda>(ps, _). Ok ps)"
| "parse_loop fs (arg # v # rest) ps =
     bind_outcome (parse_arg fs arg (Some v) ps) (\<lambda>(ps, taken). parse_loop fs (if taken then rest else v # rest) ps)"

definition initial_state :: "name list \<Rightarrow> parse_state" where
  "initial_state argv =
     \<lparr>pa_args = default_args\<lparr>arg_raw_args := argv\<rparr>, pa_whole_archive = False, pa_as_needed = False, pa_library_mode = Any,
      pa_start_lib = False, pa_state_stack = []\<rparr>"

definition finish_args :: "parse_state \<Rightarrow> (arg_error, link_args) outcome" where
  "finish_args ps =
     (if pa_start_lib ps then Err MissingEndLib
      else if pa_state_stack ps \<noteq> [] then Err UnbalancedState
      else Ok (pa_args ps))"

definition parse_expanded_args :: "text_files \<Rightarrow> name list \<Rightarrow> (arg_error, link_args) outcome" where
  "parse_expanded_args fs argv = bind_outcome (parse_loop fs argv (initial_state argv)) finish_args"

section \<open>Response files\<close>

text \<open>The state is the open quote and the argument so far, reversed.  On bytes: a character after a backslash is pushed by
  its first byte, and no later byte of it means anything by itself.\<close>

definition push_word :: "name \<Rightarrow> name list" where
  "push_word w = (if w = [] then [] else [rev w])"

function response_from :: "char option \<Rightarrow> name \<Rightarrow> name \<Rightarrow> (arg_error, name list) outcome" where
  "response_from q w [] = (case q of Some c \<Rightarrow> Err (UnterminatedQuote c) | None \<Rightarrow> Ok (push_word w))"
| "response_from q w (c # s) =
     (if q = None \<and> 0 < ws_len (c # s) then
        bind_outcome (response_from None [] (drop (ws_len (c # s)) (c # s))) (\<lambda>xs. Ok (push_word w @ xs))
      else if q = None \<and> (c = CHR 0x22 \<or> c = CHR 0x27) then response_from (Some c) w s
      else if q = Some c then response_from None w s
      else if c = CHR 0x5C then
        (case s of
           [] \<Rightarrow> response_from q (c # w) []
         | d # s' \<Rightarrow> response_from q (d # w) s')
      else response_from q (c # w) s)"
  by pat_completeness auto
termination by (relation "measure (\<lambda>(q, w, s). length s)") (auto simp del: ws_len.simps drop.simps)

definition parse_response_file :: "name \<Rightarrow> (arg_error, name list) outcome" where
  "parse_response_file text = response_from None [] text"

text \<open>\<open>levels\<close> is how deep response files may still nest, \<open>canon\<close> is \<^verbatim>\<open>std::fs::canonicalize\<close>.\<close>

fun expand_response_levels ::
  "(string \<Rightarrow> string option) \<Rightarrow> text_files \<Rightarrow> string set \<Rightarrow> nat \<Rightarrow> name list \<Rightarrow> (arg_error, name list) outcome" where
  "expand_response_levels canon fs seen levels [] = (if levels = 0 then Err ResponseTooDeep else Ok [])"
| "expand_response_levels canon fs seen levels (arg # rest) =
     (if levels = 0 then Err ResponseTooDeep
      else bind_outcome
       (if \<not> starts_with arg ''@'' \<or> tl arg = [] then Ok [arg]
        else let p = tl arg; key = (case canon p of Some c \<Rightarrow> c | None \<Rightarrow> p) in
          if key \<in> seen then Err (RecursiveResponse p)
          else (case fs p of
              None \<Rightarrow> Err (UnreadableResponse p)
            | Some text \<Rightarrow>
                if \<not> is_utf8 text then Err (UnreadableResponse p)
                else bind_outcome (parse_response_file text)
                  (\<lambda>nested. expand_response_levels canon fs (insert key seen) (levels - 1) nested)))
       (\<lambda>xs. bind_outcome (expand_response_levels canon fs seen levels rest) (\<lambda>ys. Ok (xs @ ys))))"

definition expand_response_args :: "(string \<Rightarrow> string option) \<Rightarrow> text_files \<Rightarrow> name list \<Rightarrow> (arg_error, name list) outcome" where
  "expand_response_args canon fs argv = expand_response_levels canon fs {} 17 argv"

definition parse_args :: "(string \<Rightarrow> string option) \<Rightarrow> text_files \<Rightarrow> name list \<Rightarrow> (arg_error, link_args) outcome" where
  "parse_args canon fs argv = bind_outcome (expand_response_args canon fs argv) (parse_expanded_args fs)"

section \<open>The cache key\<close>

definition key_flags :: "name list" where
  "key_flags =
     [''--incremental'', ''--no-incremental'', ''--daemon'', ''--stats'', ''--trace'', ''--trace-stack'', ''--trace-detail'']"

definition key_values :: "name list" where
  "key_values = [''--cache-report'', ''--threads'']"

fun cache_key_args :: "name list \<Rightarrow> name list" where
  "cache_key_args [] = []"
| "cache_key_args [arg] =
     (if arg \<in> set (key_flags @ key_values) \<or> starts_with arg ''--cache-report='' \<or> starts_with arg ''--threads='' then [] else [arg])"
| "cache_key_args (arg # v # rest) =
     (if arg \<in> set key_flags then cache_key_args (v # rest)
      else if arg \<in> set key_values then cache_key_args rest
      else if starts_with arg ''--cache-report='' \<or> starts_with arg ''--threads='' then cache_key_args (v # rest)
      else arg # cache_key_args (v # rest))"

section \<open>Relations that parsing keeps\<close>

definition keeps :: "(parse_state \<Rightarrow> parse_state \<Rightarrow> bool) \<Rightarrow> (parse_state \<Rightarrow> (arg_error, parse_state) outcome) \<Rightarrow> bool" where
  "keeps R f \<longleftrightarrow> (\<forall>p q. R p q \<longrightarrow> rel_outcome (=) R (f p) (f q))"

lemma keepsD: "keeps R f \<Longrightarrow> R p q \<Longrightarrow> rel_outcome (=) R (f p) (f q)"
  by (simp add: keeps_def)

lemma rel_outcome_bind:
  "rel_outcome (=) R m m' \<Longrightarrow> (\<And>a b. R a b \<Longrightarrow> rel_outcome (=) S (f a) (g b)) \<Longrightarrow>
     rel_outcome (=) S (bind_outcome m f) (bind_outcome m' g)"
  by (cases m; cases m') auto

text \<open>A relation of parse states that every arm keeps is kept by the whole loop.\<close>

locale arg_relation =
  fixes R :: "parse_state \<Rightarrow> parse_state \<Rightarrow> bool"
  assumes value_arm: "(ns, f) \<in> set (value_arms fs) \<Longrightarrow> keeps R (f v)"
    and flag_arm: "(ns, f) \<in> set flag_arms \<Longrightarrow> keeps R (f v)"
    and prefix_arm: "(n, b, f) \<in> set (prefix_arms fs) \<Longrightarrow> keeps R (f v)"
    and positional: "keeps R (push_path v)"
    and unsupported: "keeps R (sets add_unsupported v)"
begin

lemma on_find: "find_arm arms arg = Some f \<Longrightarrow> (\<And>ns f. (ns, f) \<in> set arms \<Longrightarrow> keeps R (f v)) \<Longrightarrow> keeps R (f v)"
  by (auto simp: find_arm_def find_Some_iff) (metis nth_mem)

lemma on_other: "keeps R (other_arg fs arg)"
proof (cases "find (prefix_applies arg) (prefix_arms fs)")
  case None
  then show ?thesis using positional by (simp add: keeps_def other_arg_def)
next
  case (Some x)
  obtain n b f where x: "x = (n, b, f)" by (cases x)
  have "(n, b, f) \<in> set (prefix_arms fs)" using Some by (auto simp: x find_Some_iff)
  then show ?thesis using prefix_arm Some x by (simp add: keeps_def other_arg_def)
qed

lemma on_takes: "keeps R f \<Longrightarrow> R p q \<Longrightarrow> rel_outcome (=) (rel_prod R (=)) (takes b (f p)) (takes b (f q))"
  unfolding takes_def by (rule rel_outcome_bind) (auto dest: keepsD)

lemma on_arg:
  assumes "R p q"
  shows "rel_outcome (=) (rel_prod R (=)) (parse_arg fs arg nx p) (parse_arg fs arg nx q)"
proof (cases "find_arm (value_arms fs) arg")
  case (Some f)
  have "keeps R (f v)" for v using on_find [OF Some] value_arm by blast
  then show ?thesis using Some assms by (auto simp: parse_arg_def on_takes split: option.splits)
next
  case None
  show ?thesis
  proof (cases "find_arm flag_arms arg")
    case (Some f)
    have "keeps R (f v)" for v using on_find [OF Some] flag_arm by blast
    then show ?thesis using None Some assms by (simp add: parse_arg_def on_takes)
  next
    case none: None
    show ?thesis
      using None none assms on_takes [OF unsupported] on_takes [OF on_other] by (simp add: parse_arg_def)
  qed
qed

lemma on_loop: "R p q \<Longrightarrow> rel_outcome (=) R (parse_loop fs argv p) (parse_loop fs argv q)"
proof (induction fs argv p arbitrary: q rule: parse_loop.induct)
  case (2 fs arg ps)
  then show ?case using on_arg [of ps q fs arg None] by (auto intro!: rel_outcome_bind [where R = "rel_prod R (=)"])
next
  case (3 fs arg v rest ps)
  show ?case
    unfolding parse_loop.simps
    by (rule rel_outcome_bind [OF on_arg [OF 3(2)]])
       (use 3(1) [of _ _ True] 3(1) [of _ _ False] in \<open>auto simp: rel_prod_sel\<close>)
qed simp

end

lemma keeps_sets:
  "(\<And>p q. R p q \<Longrightarrow> R (p\<lparr>pa_args := f v (pa_args p)\<rparr>) (q\<lparr>pa_args := f v (pa_args q)\<rparr>)) \<Longrightarrow> keeps R (sets f v)"
  by (simp add: keeps_def sets_def)

section \<open>Every result is well formed\<close>

definition spec_paths :: "link_spec list \<Rightarrow> string list" where
  "spec_paths = List.map_filter (\<lambda>k. case lk_kind k of Path p \<Rightarrow> Some p | Library n \<Rightarrow> None)"

definition spec_libraries :: "link_spec list \<Rightarrow> name list" where
  "spec_libraries = List.map_filter (\<lambda>k. case lk_kind k of Path p \<Rightarrow> None | Library n \<Rightarrow> Some n)"

definition args_ok :: "link_args \<Rightarrow> bool" where
  "args_ok a \<longleftrightarrow>
     arg_inputs a = spec_paths (arg_link_specs a) \<and> arg_libraries a = spec_libraries (arg_link_specs a) \<and>
     set (arg_require_defined a) \<subseteq> set (arg_undefined a) \<and>
     (arg_trace_stack a \<longrightarrow> arg_trace a) \<and> (arg_trace_detail a \<longrightarrow> arg_trace a) \<and>
     (arg_strip_all a \<longrightarrow> arg_strip_debug a) \<and> (arg_daemon a \<longrightarrow> arg_incremental a) \<and>
     (\<not> arg_entry_explicit a \<longrightarrow> arg_entry a = ''_start'') \<and>
     (\<not> arg_base_address_explicit a \<longrightarrow> arg_base_address a = ''0x400000'')"

definition same_ok :: "parse_state \<Rightarrow> parse_state \<Rightarrow> bool" where
  "same_ok p q \<longleftrightarrow> p = q \<and> args_ok (pa_args p)"

lemma sets_ok: "(\<And>a. args_ok a \<Longrightarrow> args_ok (f v a)) \<Longrightarrow> keeps same_ok (sets f v)"
  by (rule keeps_sets) (simp add: same_ok_def)

lemma state_ok: "(\<And>p. pa_args (f p) = pa_args p) \<Longrightarrow> keeps same_ok (\<lambda>ps. Ok (f ps))"
  by (simp add: keeps_def same_ok_def)

lemma map_filter_snoc: "List.map_filter f (xs @ [x]) = List.map_filter f xs @ (case f x of None \<Rightarrow> [] | Some y \<Rightarrow> [y])"
  by (simp add: List.map_filter_def split: option.splits)

lemma push_ok: "keeps same_ok (push_path v)" "keeps same_ok (push_library v)"
  by (auto simp: keeps_def same_ok_def push_path_def push_library_def push_spec_def Let_def args_ok_def spec_paths_def
      spec_libraries_def map_filter_snoc)

lemma other_arms_ok: "keeps same_ok (pop_state v)" "keeps same_ok (push_state v)" "keeps same_ok (open_lib v)"
    "keeps same_ok (close_lib v)" "keeps same_ok (set_mode m v)" "keeps same_ok (set_hash_style v)"
    "keeps same_ok (add_patterns fs v)"
  by (auto simp: keeps_def same_ok_def pop_state_def push_state_def open_lib_def close_lib_def set_mode_def args_ok_def
      set_hash_style_def add_patterns_def sets_def parse_hash_style_def split: list.splits outcome.splits)

lemmas setter_ok = parse_exclude_libs_def parse_z_option_def parse_threads_def set_entry_def set_base_address_def
  add_required_def add_unsupported_def

lemmas arm_cases = value_arms_def flag_arms_def prefix_arms_def list.set insert_iff empty_iff prod.inject simp_thms

lemma value_arms_ok: "(ns, f) \<in> set (value_arms fs) \<Longrightarrow> keeps same_ok (f v)"
  unfolding arm_cases
  by (elim disjE conjE; hypsubst; (rule push_ok other_arms_ok | rule sets_ok, auto simp: args_ok_def setter_ok Let_def))

lemma flag_arms_ok: "(ns, f) \<in> set flag_arms \<Longrightarrow> keeps same_ok (f v)"
  unfolding arm_cases
  by (elim disjE conjE; hypsubst; (rule other_arms_ok | rule sets_ok, auto simp: args_ok_def setter_ok | auto simp: keeps_def same_ok_def sets_def args_ok_def))

lemma prefix_arms_ok: "(n, b, f) \<in> set (prefix_arms fs) \<Longrightarrow> keeps same_ok (f v)"
  unfolding arm_cases
  by (elim disjE conjE; hypsubst; (rule push_ok other_arms_ok | rule sets_ok, auto simp: args_ok_def setter_ok Let_def | auto simp: keeps_def same_ok_def))

interpretation ok: arg_relation same_ok
  by unfold_locales (auto intro: value_arms_ok flag_arms_ok prefix_arms_ok push_ok sets_ok simp: args_ok_def add_unsupported_def)

text \<open>@C@parsed_args_consistent The options a command line parses to are well formed: the positional inputs and the libraries are
  the paths and the libraries of the link specification, in its order; required symbols are also undefined ones; detailed
  traces are traces, stripping all strips debug information, a daemon is incremental; and an entry or base address that was
  not given is the default one.\<close>

theorem parsed_args_consistent:
  assumes "parse_args canon fs argv = Ok a"
  shows "args_ok a"
proof -
  obtain argv' ps where l: "parse_loop fs argv' (initial_state argv') = Ok ps" and a: "a = pa_args ps"
    using assms by (auto simp: parse_args_def parse_expanded_args_def finish_args_def elim!: bind_outcome_Ok split: if_splits)
  have "same_ok (initial_state argv') (initial_state argv')"
    by (simp add: same_ok_def initial_state_def args_ok_def default_args_def spec_paths_def spec_libraries_def List.map_filter_def)
  from ok.on_loop [OF this, of fs argv'] show ?thesis using l a by (simp add: same_ok_def)
qed

theorem parsed_args_consistent_witness:
  "\<exists>a. parse_args (\<lambda>_. None) (\<lambda>p. if p = ''rsp'' then Some ''-lc x.o'' else None) [''--daemon'', ''@rsp'', ''-s''] = Ok a \<and> args_ok a \<and>
     arg_inputs a = [''x.o'']"
proof -
  let ?p = "parse_args (\<lambda>_. None) (\<lambda>p. if p = ''rsp'' then Some ''-lc x.o'' else None) [''--daemon'', ''@rsp'', ''-s'']"
  have "case ?p of Ok a \<Rightarrow> arg_inputs a = [''x.o''] | _ \<Rightarrow> False" by code_simp
  then obtain a where "?p = Ok a" "arg_inputs a = [''x.o'']" by (cases ?p) auto
  then show ?thesis using parsed_args_consistent by blast
qed

section \<open>What the cache key leaves out\<close>

definition clear_run_options :: "link_args \<Rightarrow> link_args" where
  "clear_run_options a =
     a\<lparr>arg_raw_args := [], arg_incremental := True, arg_daemon := False, arg_cache_report := None, arg_threads := 0,
       arg_stats := False, arg_trace := False, arg_trace_stack := False, arg_trace_detail := False\<rparr>"

definition same_output :: "parse_state \<Rightarrow> parse_state \<Rightarrow> bool" where
  "same_output p q \<longleftrightarrow> p\<lparr>pa_args := clear_run_options (pa_args p)\<rparr> = q\<lparr>pa_args := clear_run_options (pa_args q)\<rparr>"

lemma clear_run_options_eq:
  "clear_run_options a = clear_run_options b \<longleftrightarrow>
     arg_inputs a = arg_inputs b \<and> arg_library_paths a = arg_library_paths b \<and> arg_libraries a = arg_libraries b \<and>
     arg_link_specs a = arg_link_specs b \<and> arg_output a = arg_output b \<and> arg_base_address a = arg_base_address b \<and>
     arg_base_address_explicit a = arg_base_address_explicit b \<and> arg_entry a = arg_entry b \<and> arg_entry_explicit a =
     arg_entry_explicit b \<and> arg_gc_sections a = arg_gc_sections b \<and> arg_icf a = arg_icf b \<and> arg_help a = arg_help
     b \<and> arg_defsym a = arg_defsym b \<and> arg_linker_scripts a = arg_linker_scripts b \<and> arg_plugin a = arg_plugin b
     \<and> arg_build_id a = arg_build_id b \<and> arg_strip_all a = arg_strip_all b \<and> arg_strip_debug a = arg_strip_debug b
     \<and> arg_emit_relocs a = arg_emit_relocs b \<and> arg_pie a = arg_pie b \<and> arg_no_crt a = arg_no_crt b \<and>
     arg_dynamic_linker a = arg_dynamic_linker b \<and> arg_rpaths a = arg_rpaths b \<and> arg_enable_new_dtags a =
     arg_enable_new_dtags b \<and> arg_hash_style a = arg_hash_style b \<and> arg_export_dynamic a = arg_export_dynamic b \<and>
     arg_export_dynamic_patterns a = arg_export_dynamic_patterns b \<and> arg_exclude_libs a = arg_exclude_libs b \<and>
     arg_no_undefined a = arg_no_undefined b \<and> arg_undefined a = arg_undefined b \<and> arg_require_defined a =
     arg_require_defined b \<and> arg_relocatable a = arg_relocatable b \<and> arg_shared a = arg_shared b \<and> arg_soname a =
     arg_soname b \<and> arg_version_script a = arg_version_script b \<and> arg_unsupported_flags a = arg_unsupported_flags b"
  by (cases a; cases b) (simp add: clear_run_options_def conj_ac)

lemma same_output_iff:
  "same_output p q \<longleftrightarrow> clear_run_options (pa_args p) = clear_run_options (pa_args q) \<and>
     pa_whole_archive p = pa_whole_archive q \<and> pa_as_needed p = pa_as_needed q \<and>
     pa_library_mode p = pa_library_mode q \<and> pa_start_lib p = pa_start_lib q \<and> pa_state_stack p = pa_state_stack q"
  by (cases p; cases q) (simp add: same_output_def)

lemma sets_same:
  assumes f: "\<And>a b. clear_run_options a = clear_run_options b \<Longrightarrow> clear_run_options (f v a) = clear_run_options (f v b)"
  shows "keeps same_output (sets f v)"
proof (rule keeps_sets)
  fix p q assume s: "same_output p q"
  then have "clear_run_options (f v (pa_args p)) = clear_run_options (f v (pa_args q))"
    by (intro f) (simp add: same_output_iff)
  then show "same_output (p\<lparr>pa_args := f v (pa_args p)\<rparr>) (q\<lparr>pa_args := f v (pa_args q)\<rparr>)"
    using s by (simp add: same_output_iff)
qed

lemma push_same: "keeps same_output (push_path v)" "keeps same_output (push_library v)"
  by (simp_all add: keeps_def same_output_iff push_path_def push_library_def push_spec_def Let_def clear_run_options_eq)

lemma other_arms_same: "keeps same_output (pop_state v)" "keeps same_output (push_state v)" "keeps same_output (open_lib v)"
    "keeps same_output (close_lib v)" "keeps same_output (set_mode m v)" "keeps same_output (set_hash_style v)"
    "keeps same_output (add_patterns fs v)"
  by (auto simp: keeps_def same_output_iff pop_state_def push_state_def open_lib_def close_lib_def set_mode_def
      set_hash_style_def add_patterns_def sets_def parse_hash_style_def clear_run_options_eq split: list.split outcome.split)

lemma value_arms_same: "(ns, f) \<in> set (value_arms fs) \<Longrightarrow> keeps same_output (f v)"
  unfolding arm_cases
  by (elim disjE conjE; hypsubst;
      (rule push_same other_arms_same | rule sets_same, simp add: clear_run_options_eq setter_ok Let_def))

lemma flag_arms_same: "(ns, f) \<in> set flag_arms \<Longrightarrow> keeps same_output (f v)"
  unfolding arm_cases
  by (elim disjE conjE; hypsubst;
      (rule other_arms_same | rule sets_same, simp add: clear_run_options_eq setter_ok
        | simp add: keeps_def same_output_iff sets_def clear_run_options_eq))

lemma prefix_arms_same: "(n, b, f) \<in> set (prefix_arms fs) \<Longrightarrow> keeps same_output (f v)"
  unfolding arm_cases
  by (elim disjE conjE; hypsubst;
      (rule push_same other_arms_same | rule sets_same, simp add: clear_run_options_eq setter_ok Let_def | simp add: keeps_def))

interpretation same: arg_relation same_output
  by unfold_locales
     (auto intro: value_arms_same flag_arms_same prefix_arms_same push_same sets_same simp: clear_run_options_eq add_unsupported_def)

text \<open>The options that take the next argument, whatever they do with it.\<close>

definition value_taking :: "name list" where
  "value_taking = concat (map fst (value_arms (\<lambda>_. None))) @ wrap_options @ ignore_with_value"

definition key_prefixed :: "name \<Rightarrow> bool" where
  "key_prefixed arg \<longleftrightarrow> starts_with arg ''--cache-report='' \<or> starts_with arg ''--threads=''"

definition in_key :: "name \<Rightarrow> bool" where
  "in_key arg \<longleftrightarrow> arg \<notin> set (key_flags @ key_values) \<and> \<not> key_prefixed arg"

text \<open>No option has as its value an argument that the cache key drops.\<close>

fun plain_values :: "name list \<Rightarrow> bool" where
  "plain_values (arg # v # rest) \<longleftrightarrow>
     (if arg \<in> set key_values then plain_values rest
      else if arg \<in> set value_taking then in_key v \<and> plain_values rest
      else plain_values (v # rest))"
| "plain_values _ \<longleftrightarrow> True"

lemma find_arm_None: "find_arm arms arg = None \<longleftrightarrow> arg \<notin> set (concat (map fst arms))"
  by (force simp: find_arm_def find_None_iff)

lemma find_arm_Some: "find_arm arms arg = Some f \<Longrightarrow> arg \<in> set (concat (map fst arms))"
  using find_arm_None [of arms arg] by simp

lemma value_names: "map fst (value_arms fs) = map fst (value_arms (\<lambda>_. None))"
  by (simp add: value_arms_def)

lemma flags_apart: "list_all (\<lambda>n. n \<notin> set value_taking) (concat (map fst flag_arms))"
  by code_simp

lemma parse_arg_taken:
  assumes "parse_arg fs arg nx p = Ok (p', t)"
  shows "t \<longleftrightarrow> arg \<in> set value_taking"
proof (cases "find_arm (value_arms fs) arg")
  case (Some f)
  then show ?thesis
    using assms find_arm_Some [OF Some]
    by (auto simp: parse_arg_def takes_def value_taking_def value_names [of fs] elim!: bind_outcome_Ok split: option.splits)
next
  case None
  have n: "arg \<notin> set (concat (map fst (value_arms (\<lambda>_. None))))" using None unfolding find_arm_None value_names [of fs] .
  show ?thesis
  proof (cases "find_arm flag_arms arg")
    case (Some f)
    have "arg \<notin> set value_taking" using flags_apart find_arm_Some [OF Some] unfolding list_all_iff by blast
    then show ?thesis using assms None Some by (auto simp: parse_arg_def takes_def elim!: bind_outcome_Ok)
  next
    case none: None
    then show ?thesis using assms None n
      by (auto simp: parse_arg_def takes_def value_taking_def elim!: bind_outcome_Ok split: if_splits)
  qed
qed

lemma parse_arg_following:
  assumes "arg \<notin> set value_taking"
  shows "parse_arg fs arg nx p = parse_arg fs arg nx' p"
proof -
  have "find_arm (value_arms fs) arg = None" using assms unfolding find_arm_None value_names [of fs] value_taking_def by simp
  then show ?thesis by (simp add: parse_arg_def)
qed

lemma parse_loop_Cons:
  "parse_loop fs (arg # xs) p =
     bind_outcome (parse_arg fs arg (case xs of [] \<Rightarrow> None | v # _ \<Rightarrow> Some v) p)
       (\<lambda>(p, t). parse_loop fs (if t then tl xs else xs) p)"
  by (cases xs) (auto intro!: arg_cong2 [where f = bind_outcome] simp: fun_eq_iff)

section \<open>Arguments the key drops\<close>

lemma key_flag_arms:
  "find_arm flag_arms ''--incremental'' = Some (sets (\<lambda>_ a. a\<lparr>arg_incremental := True\<rparr>))"
  "find_arm flag_arms ''--no-incremental'' = Some (sets (\<lambda>_ a. a\<lparr>arg_incremental := False, arg_daemon := False\<rparr>))"
  "find_arm flag_arms ''--daemon'' = Some (sets (\<lambda>_ a. a\<lparr>arg_incremental := True, arg_daemon := True\<rparr>))"
  "find_arm flag_arms ''--stats'' = Some (sets (\<lambda>_ a. a\<lparr>arg_stats := True\<rparr>))"
  "find_arm flag_arms ''--trace'' = Some (sets (\<lambda>_ a. a\<lparr>arg_trace := True\<rparr>))"
  "find_arm flag_arms ''--trace-stack'' = Some (sets (\<lambda>_ a. a\<lparr>arg_trace := True, arg_trace_stack := True\<rparr>))"
  "find_arm flag_arms ''--trace-detail'' = Some (sets (\<lambda>_ a. a\<lparr>arg_trace := True, arg_trace_detail := True\<rparr>))"
  by (simp_all add: find_arm_def flag_arms_def)

lemma key_value_arms:
  "find_arm (value_arms fs) ''--cache-report'' = Some (sets (\<lambda>v a. a\<lparr>arg_cache_report := Some v\<rparr>))"
  "find_arm (value_arms fs) ''--threads'' = Some (sets parse_threads)"
  by (simp_all add: find_arm_def value_arms_def)

lemma key_flags_take_nothing: "list_all (\<lambda>n. n \<notin> set value_taking) key_flags"
  by code_simp

lemma not_value_taking: "arg \<notin> set value_taking \<Longrightarrow> find_arm (value_arms fs) arg = None"
  unfolding find_arm_None value_names [of fs] value_taking_def by simp

lemma key_flag_same: "arg \<in> set key_flags \<Longrightarrow> \<exists>f. find_arm flag_arms arg = Some (sets f) \<and>
     (\<forall>v a. clear_run_options (f v a) = clear_run_options a)"
  unfolding key_flags_def list.set insert_iff empty_iff simp_thms
  by (elim disjE; hypsubst; rule exI, rule conjI, rule key_flag_arms, simp add: clear_run_options_eq)

lemma key_value_same: "arg \<in> set key_values \<Longrightarrow> \<exists>f. find_arm (value_arms fs) arg = Some (sets f) \<and>
     (\<forall>v a. clear_run_options (f v a) = clear_run_options a)"
  unfolding key_values_def list.set insert_iff empty_iff simp_thms
  by (elim disjE; hypsubst; rule exI, rule conjI, rule key_value_arms, simp add: clear_run_options_eq parse_threads_def)

lemma sets_cleared: "(\<forall>v a. clear_run_options (f v a) = clear_run_options a) \<Longrightarrow> sets f v p = Ok p' \<Longrightarrow> same_output p' p"
  by (auto simp: sets_def same_output_iff)

lemma takes_Ok: "takes b m = Ok (p', t) \<longleftrightarrow> m = Ok p' \<and> t = b"
  by (cases m) (auto simp: takes_def)

lemma key_flag_step:
  assumes "arg \<in> set key_flags" "parse_arg fs arg nx p = Ok (p', t)"
  shows "\<not> t \<and> same_output p' p"
proof -
  have "arg \<notin> set value_taking" using assms(1) key_flags_take_nothing by (auto simp: list_all_iff)
  then have "find_arm (value_arms fs) arg = None" by (rule not_value_taking)
  moreover obtain f where f: "find_arm flag_arms arg = Some (sets f)" "\<forall>v a. clear_run_options (f v a) = clear_run_options a"
    using key_flag_same [OF assms(1)] by blast
  ultimately show ?thesis using assms(2) by (auto simp: parse_arg_def takes_Ok dest: sets_cleared [OF f(2)])
qed

lemma key_value_step:
  assumes "arg \<in> set key_values" "parse_arg fs arg nx p = Ok (p', t)"
  shows "t \<and> nx \<noteq> None \<and> same_output p' p"
proof -
  obtain f where f: "find_arm (value_arms fs) arg = Some (sets f)" "\<forall>v a. clear_run_options (f v a) = clear_run_options a"
    using key_value_same [OF assms(1)] by blast
  then show ?thesis using assms(2) by (auto simp: parse_arg_def takes_Ok split: option.splits dest: sets_cleared [OF f(2)])
qed

lemma names_unprefixed: "list_all (\<lambda>n. \<not> key_prefixed n) (value_taking @ concat (map fst flag_arms))"
  by code_simp

lemma find_prefix:
  "find (prefix_applies (''--cache-report='' @ s)) (prefix_arms fs) = Some (''--cache-report='', False, sets (\<lambda>v a. a\<lparr>arg_cache_report := Some v\<rparr>))"
  "find (prefix_applies (''--threads='' @ s)) (prefix_arms fs) = Some (''--threads='', False, sets parse_threads)"
  by (simp_all add: prefix_arms_def prefix_applies_def)

lemma key_prefix_step:
  assumes "key_prefixed arg" "parse_arg fs arg nx p = Ok (p', t)"
  shows "\<not> t \<and> same_output p' p"
proof -
  have n: "arg \<notin> set (value_taking @ concat (map fst flag_arms))" using assms(1) names_unprefixed by (auto simp: list_all_iff)
  then have v: "arg \<notin> set value_taking" and "find_arm flag_arms arg = None" unfolding find_arm_None by simp_all
  moreover have "find_arm (value_arms fs) arg = None" using v by (rule not_value_taking)
  ultimately have o: "other_arg fs arg p = Ok p'" "\<not> t"
    using assms(2) by (auto simp: parse_arg_def takes_Ok value_taking_def split: if_splits)
  consider s where "arg = ''--cache-report='' @ s" | s where "arg = ''--threads='' @ s"
    using assms(1) by (auto simp: key_prefixed_def starts_with_iff)
  then have "same_output p' p"
  proof cases
    case 1
    show ?thesis
      by (rule sets_cleared [of "\<lambda>v a. a\<lparr>arg_cache_report := Some v\<rparr>" s p])
         (use o(1) 1 find_prefix(1) in \<open>simp_all add: other_arg_def clear_run_options_eq\<close>)
  next
    case 2
    show ?thesis
      by (rule sets_cleared [of parse_threads s p])
         (use o(1) 2 find_prefix(2) in \<open>simp_all add: other_arg_def clear_run_options_eq parse_threads_def\<close>)
  qed
  then show ?thesis using o(2) by simp
qed

lemma same_output_trans: "same_output p q \<Longrightarrow> same_output q r \<Longrightarrow> same_output p r"
  and same_output_sym: "same_output p q \<Longrightarrow> same_output q p"
  by (simp_all add: same_output_def)

lemma in_key_Cons: "in_key arg \<Longrightarrow> cache_key_args (arg # xs) = arg # cache_key_args xs"
  by (cases xs) (auto simp: in_key_def key_prefixed_def)

lemma dropped_Cons:
  "\<not> in_key arg \<Longrightarrow> cache_key_args (arg # xs) = cache_key_args (if arg \<in> set key_values then tl xs else xs)"
  by (cases xs) (auto simp: in_key_def key_prefixed_def key_flags_def key_values_def)

lemma plain_values_Cons: "plain_values (arg # xs) \<longleftrightarrow>
     (if arg \<in> set key_values then plain_values (tl xs)
      else if arg \<in> set value_taking then (xs \<noteq> [] \<longrightarrow> in_key (hd xs)) \<and> plain_values (tl xs)
      else plain_values xs)"
  by (cases xs) auto

lemma bind_same:
  assumes "rel_outcome (=) (rel_prod R (=)) m m'" "m = Ok (p, t)"
  shows "\<exists>q. m' = Ok (q, t) \<and> R p q"
  using assms by (cases m') auto

lemma dropped_step:
  assumes "\<not> in_key arg" "parse_arg fs arg nx p = Ok (p', t)"
  shows "same_output p' p" "t \<longleftrightarrow> arg \<in> set key_values"
proof -
  have kv: "list_all (\<lambda>n. n \<notin> set key_flags \<and> \<not> key_prefixed n) key_values" by code_simp
  consider "arg \<in> set key_flags" "arg \<notin> set key_values" | "arg \<in> set key_values" | "key_prefixed arg" "arg \<notin> set key_values"
    using assms(1) kv by (auto simp: in_key_def list_all_iff)
  then have "same_output p' p \<and> (t \<longleftrightarrow> arg \<in> set key_values)"
    using key_flag_step [OF _ assms(2)] key_value_step [OF _ assms(2)] key_prefix_step [OF _ assms(2)] by cases blast+
  then show "same_output p' p" "t \<longleftrightarrow> arg \<in> set key_values" by blast+
qed

text \<open>Parsing the key instead of the command line.\<close>

lemma parse_key:
  "plain_values argv \<Longrightarrow> same_output p q \<Longrightarrow> parse_loop fs argv p = Ok p' \<Longrightarrow>
     \<exists>q'. parse_loop fs (cache_key_args argv) q = Ok q' \<and> same_output p' q'"
proof (induction argv arbitrary: p q rule: length_induct)
  case (1 argv)
  show ?case
  proof (cases argv)
    case Nil
    then show ?thesis using 1(3,4) by simp
  next
    case (Cons arg xs)
    let ?nx = "case xs of [] \<Rightarrow> None | v # _ \<Rightarrow> Some v"
    obtain p1 t where a: "parse_arg fs arg ?nx p = Ok (p1, t)" and l: "parse_loop fs (if t then tl xs else xs) p1 = Ok p'"
      using 1(4) unfolding Cons parse_loop_Cons by (auto elim!: bind_outcome_Ok)
    have tk: "t \<longleftrightarrow> arg \<in> set value_taking" using parse_arg_taken [OF a] .
    have IH: "\<exists>q'. parse_loop fs (cache_key_args ys) r = Ok q' \<and> same_output p' q'"
      if "ys = (if t then tl xs else xs)" "plain_values ys" "same_output p1 r" for ys r
      using 1(1) l that by (auto simp: Cons)
    show ?thesis
    proof (cases "in_key arg")
      case False
      note st = dropped_step [OF False a]
      have "plain_values (if t then tl xs else xs)"
        using 1(2) st(2) tk unfolding Cons plain_values_Cons by (auto split: if_splits)
      from IH [OF refl this same_output_trans [OF st(1) 1(3)]]
      show ?thesis using False st(2) unfolding Cons dropped_Cons [OF False] by (simp add: dropped_Cons)
    next
      case True
      let ?ks = "cache_key_args xs"
      have nk: "arg \<notin> set key_values" using True by (simp add: in_key_def)
      have pv: "plain_values (if t then tl xs else xs)" and iv: "t \<Longrightarrow> xs \<noteq> [] \<Longrightarrow> in_key (hd xs)"
        using 1(2) nk tk unfolding Cons plain_values_Cons by (auto split: if_splits)
      have nx: "parse_arg fs arg (case ?ks of [] \<Rightarrow> None | v # _ \<Rightarrow> Some v) p = Ok (p1, t)"
          "(if t then tl ?ks else ?ks) = cache_key_args (if t then tl xs else xs)"
        using a iv parse_arg_following [of arg fs _ p ?nx] tk in_key_Cons by (cases t; cases xs; simp)+
      obtain q1 where q1: "parse_arg fs arg (case ?ks of [] \<Rightarrow> None | v # _ \<Rightarrow> Some v) q = Ok (q1, t)" "same_output p1 q1"
        using bind_same [OF same.on_arg [OF 1(3)] nx(1)] by blast
      show ?thesis
        using IH [OF refl pv q1(2)] q1(1) nx(2) unfolding Cons in_key_Cons [OF True] parse_loop_Cons by simp
    qed
  qed
qed

text \<open>@C@cache_key_sound Command lines with the same cache key that both parse, and in which no option takes as its value an
  argument the key drops, give the same options up to those that leave the output alone (tracing, statistics, the cache
  report, the number of threads, the incremental mode): the key forgets nothing that matters.\<close>

theorem cache_key_sound:
  assumes "plain_values xs" "plain_values ys" "cache_key_args xs = cache_key_args ys"
    and "parse_expanded_args fs xs = Ok a" "parse_expanded_args fs ys = Ok b"
  shows "clear_run_options a = clear_run_options b"
proof -
  let ?start = "initial_state (cache_key_args xs)"
  have st: "same_output (initial_state zs) ?start" for zs
    by (simp add: initial_state_def same_output_iff clear_run_options_eq)
  have fin: "\<exists>q. parse_loop fs (cache_key_args zs) ?start = Ok q \<and> clear_run_options c = clear_run_options (pa_args q)"
    if pv: "plain_values zs" and ok: "parse_expanded_args fs zs = Ok c" for zs c
  proof -
    obtain p where p: "parse_loop fs zs (initial_state zs) = Ok p" "c = pa_args p"
      using ok by (auto simp: parse_expanded_args_def finish_args_def elim!: bind_outcome_Ok split: if_splits)
    then show ?thesis using parse_key [OF pv st p(1)] by (auto simp: same_output_iff)
  qed
  show ?thesis using fin [OF assms(1,4)] fin [OF assms(2,5)] assms(3) by auto
qed

definition key_demo :: "name list \<times> name list" where
  "key_demo = ([''--threads'', ''4'', ''-o'', ''p'', ''a.o''], [''-o'', ''p'', ''--stats'', ''a.o''])"

theorem cache_key_sound_witness:
  "\<exists>a b. parse_expanded_args (\<lambda>_. None) (fst key_demo) = Ok a \<and> parse_expanded_args (\<lambda>_. None) (snd key_demo) = Ok b \<and>
     clear_run_options a = clear_run_options b \<and> arg_stats a \<noteq> arg_stats b"
proof -
  let ?a = "parse_expanded_args (\<lambda>_. None) (fst key_demo)" and ?b = "parse_expanded_args (\<lambda>_. None) (snd key_demo)"
  have "case ?a of Ok a \<Rightarrow> \<not> arg_stats a | _ \<Rightarrow> False" "case ?b of Ok b \<Rightarrow> arg_stats b | _ \<Rightarrow> False" by code_simp+
  then obtain a b where ab: "?a = Ok a" "?b = Ok b" "\<not> arg_stats a" "arg_stats b" by (cases ?a; cases ?b) auto
  have "plain_values (fst key_demo)" "plain_values (snd key_demo)" "cache_key_args (fst key_demo) = cache_key_args (snd key_demo)"
    by code_simp+
  from cache_key_sound [OF this ab(1,2)] show ?thesis using ab by blast
qed

text \<open>Without the condition the key confuses command lines: an option's value that looks like a diagnostic flag is dropped.\<close>

lemma cache_key_drops_values:
  "cache_key_args [''-o'', ''--stats'', ''a.o''] = cache_key_args [''-o'', ''a.o'']"
  by code_simp

end
