(* ===== verification/Object_Parse.thy ===== *)
theory Object_Parse
  imports Eh_Frame
begin

text \<open>
  Parsing one relocatable object, \<^verbatim>\<open>peony-object/src/parse.rs\<close> and \<^verbatim>\<open>section_parse.rs\<close>.  The ELF
  reader itself is the third-party \<^verbatim>\<open>object\<close> crate: what its iterators return for a section, a symbol
  or a relocation is the input record \<open>raw_section\<close>, \<open>raw_symbol\<close>, \<open>raw_reloc\<close> here, and the code that
  builds \<^verbatim>\<open>InputObject\<close> out of it is modelled in full, with its asserts and slices as \<open>Panic\<close>.
\<close>

section \<open>What the ELF reader returns\<close>

record raw_reloc =
  rr_offset :: u64
  rr_target :: "nat option"
  rr_type :: "u32 option"
  rr_addend :: i64

record raw_section =
  rs_index :: nat
  rs_sh_type :: u32
  rs_sh_info :: u32
  rs_name :: "name option"
  rs_flags :: "u64 option"
  rs_file_range :: "(u64 \<times> u64) option"
  rs_compressed :: bool
  rs_uncompressed :: "bytes option"
  rs_data :: "bytes option"
  rs_align :: u64
  rs_size :: u64
  rs_relocs :: "raw_reloc list"

record raw_symbol =
  ys_index :: nat
  ys_name :: "name option"
  ys_compilation_scope :: bool
  ys_weak :: bool
  ys_type_visibility :: "(u8 \<times> u8) option"
  ys_undefined :: bool
  ys_common :: bool
  ys_section :: "nat option"
  ys_address :: u64
  ys_size :: u64

record raw_elf =
  re_sections :: "raw_section list"
  re_symbols :: "raw_symbol list"
  re_hints :: "nat \<times> nat"

datatype object_error = ParseError string

section \<open>Relocations, symbols, COMDAT groups\<close>

fun collect_relocs :: "raw_reloc list \<Rightarrow> input_reloc list" where
  "collect_relocs [] = []"
| "collect_relocs (rr # rest) =
     (case (rr_target rr, rr_type rr) of
        (Some s, Some t) \<Rightarrow>
          \<lparr>r_offset = rr_offset rr, r_type = t, r_symbol = s, r_addend = rr_addend rr\<rparr> #
          collect_relocs rest
      | _ \<Rightarrow> collect_relocs rest)"

definition parse_symbol :: "raw_symbol \<Rightarrow> input_symbol" where
  "parse_symbol y =
     (let ty = (case ys_type_visibility y of Some (t, v) \<Rightarrow> t | None \<Rightarrow> STT_NOTYPE);
          vis = (case ys_type_visibility y of Some (t, v) \<Rightarrow> v | None \<Rightarrow> STV_DEFAULT)
      in \<lparr>sym_index = ys_index y,
          sym_name = (case ys_name y of Some n \<Rightarrow> n | None \<Rightarrow> []),
          sym_binding = (if ys_compilation_scope y then Local else if ys_weak y then Weak else Global),
          sym_is_undefined = ys_undefined y, sym_is_common = ys_common y,
          sym_is_ifunc = (ty = STT_GNU_IFUNC), sym_st_type = ty, sym_visibility = vis,
          sym_section = ys_section y, sym_value = ys_address y, sym_size = ys_size y\<rparr>)"

text \<open>\<^verbatim>\<open>chunks_exact(4)\<close>, each chunk read as a little-endian index.\<close>

fun group_members :: "bytes \<Rightarrow> nat list" where
  "group_members (a # b # c # d # rest) = unat (from_le [a, b, c, d] :: u32) # group_members rest"
| "group_members _ = []"

definition raw_symbol_name :: "raw_symbol list \<Rightarrow> nat \<Rightarrow> name" where
  "raw_symbol_name ys i =
     (case find (\<lambda>y. ys_index y = i) ys of
        Some y \<Rightarrow> (case ys_name y of Some n \<Rightarrow> n | None \<Rightarrow> [])
      | None \<Rightarrow> [])"

fun parse_comdat_groups :: "raw_symbol list \<Rightarrow> raw_section list \<Rightarrow> comdat_group list" where
  "parse_comdat_groups ys [] = []"
| "parse_comdat_groups ys (rs # rest) =
     (if rs_sh_type rs \<noteq> 17 then parse_comdat_groups ys rest
      else case rs_data rs of
        None \<Rightarrow> parse_comdat_groups ys rest
      | Some d \<Rightarrow>
          if length d < 4 then parse_comdat_groups ys rest
          else if (from_le (take 4 d) :: u32) AND 1 = 0 then parse_comdat_groups ys rest
          else \<lparr>cg_signature = raw_symbol_name ys (unat (rs_sh_info rs)),
                cg_members = group_members (drop 4 d)\<rparr> # parse_comdat_groups ys rest)"

section \<open>Sections\<close>

definition raw_name :: "raw_section \<Rightarrow> name" where
  "raw_name rs = (case rs_name rs of Some n \<Rightarrow> n | None \<Rightarrow> [])"

definition raw_flags :: "raw_section \<Rightarrow> u64" where
  "raw_flags rs = (case rs_flags rs of Some f \<Rightarrow> f | None \<Rightarrow> 0)"

definition raw_range :: "raw_section \<Rightarrow> u64 \<times> u64" where
  "raw_range rs = (case rs_file_range rs of Some r \<Rightarrow> r | None \<Rightarrow> (0, 0))"

definition u32_max :: u64 where
  "u32_max = 0xffffffff"

text \<open>The data handle of a section, with the buffers decompressed so far and the length of an owned one.\<close>

definition section_handle ::
  "data_src \<Rightarrow> u32 \<Rightarrow> u64 \<Rightarrow> bytes list \<Rightarrow> string \<Rightarrow> raw_section \<Rightarrow>
     (object_error, section_data \<times> u64 option \<times> bytes list) outcome" where
  "section_handle backing owned_base base_off sink p rs =
     (case raw_range rs of (file_off, file_len) \<Rightarrow>
        if is_debug_section_name (raw_name rs) \<and> rs_compressed rs then
          (case rs_uncompressed rs of
             None \<Rightarrow> Err (ParseError p)
           | Some bs \<Rightarrow>
               if length bs < 2 ^ 32 then
                 Ok (\<lparr>sd_src = Owned (owned_base + of_nat (length sink)), sd_off = 0,
                      sd_len = of_nat (length bs)\<rparr>, Some (of_nat (length bs)), sink @ [bs])
               else Panic)
        else if rs_sh_type rs = SHT_NOBITS \<or> file_len = 0 then Ok (section_data_EMPTY, None, sink)
        else
          (let abs_off = base_off + file_off in
           if abs_off + file_len \<le> u32_max then
             Ok (\<lparr>sd_src = backing, sd_off = ucast abs_off, sd_len = ucast file_len\<rparr>, None, sink)
           else Panic))"

definition parse_section ::
  "data_src \<Rightarrow> u32 \<Rightarrow> u64 \<Rightarrow> bytes \<Rightarrow> string \<Rightarrow> bytes list \<Rightarrow> raw_section \<Rightarrow>
     (object_error, input_section \<times> bytes list) outcome" where
  "parse_section backing owned_base base_off data p sink rs =
     (let name = normalize_debug_section_name (raw_name rs);
          kind = classify_section name (raw_flags rs) in
      bind_outcome (section_handle backing owned_base base_off sink p rs) (\<lambda>(h, owned_len, sink').
        let size = (if is_debug_section_name (raw_name rs)
                    then (case owned_len of Some l \<Rightarrow> l | None \<Rightarrow> snd (raw_range rs))
                    else rs_size rs);
            mk = (\<lambda>h size. Ok
              (\<lparr>sec_index = rs_index rs, sec_name = name, sec_kind = kind,
                sec_sh_type = rs_sh_type rs, sec_data = h, sec_align = rs_align rs,
                sec_size = size, sec_flags = raw_flags rs,
                sec_relocs = collect_relocs (rs_relocs rs)\<rparr>, sink'))
        in if kind = EhFrame then
             (case slice (unat (fst (raw_range rs))) (unat (snd (raw_range rs))) data of
                None \<Rightarrow> Panic
              | Some raw \<Rightarrow>
                  if ends_with_eh_terminator raw
                  then mk (h\<lparr>sd_len := saturating_sub (sd_len h) 4\<rparr>) (saturating_sub size 4)
                  else mk h size)
           else mk h size))"

fun parse_sections ::
  "data_src \<Rightarrow> u32 \<Rightarrow> u64 \<Rightarrow> bytes \<Rightarrow> string \<Rightarrow> bytes list \<Rightarrow> raw_section list \<Rightarrow>
     (object_error, input_section list \<times> bytes list) outcome" where
  "parse_sections backing owned_base base_off data p sink [] = Ok ([], sink)"
| "parse_sections backing owned_base base_off data p sink (rs # rest) =
     bind_outcome (parse_section backing owned_base base_off data p sink rs) (\<lambda>(s, sink').
       bind_outcome (parse_sections backing owned_base base_off data p sink' rest) (\<lambda>(ss, sink'').
         Ok (s # ss, sink'')))"

definition parse_backed ::
  "data_src \<Rightarrow> u32 \<Rightarrow> u64 \<Rightarrow> string \<Rightarrow> bytes \<Rightarrow> raw_elf option \<Rightarrow>
     (object_error, input_object \<times> bytes list) outcome" where
  "parse_backed backing owned_base base_off p data elf =
     (case elf of
        None \<Rightarrow> Err (ParseError p)
      | Some elf \<Rightarrow>
          bind_outcome (parse_sections backing owned_base base_off data p [] (re_sections elf))
            (\<lambda>(secs, sink).
              Ok (parsed_object (re_hints elf) p secs (map parse_symbol (re_symbols elf))
                    (parse_comdat_groups (re_symbols elf) (re_sections elf)), sink)))"

definition parse_bare_parallel ::
  "u32 \<Rightarrow> u32 \<Rightarrow> string \<Rightarrow> bytes \<Rightarrow> raw_elf option \<Rightarrow>
     (object_error, input_object \<times> bytes list) outcome" where
  "parse_bare_parallel file_id owned_base p data elf =
     parse_backed (Mmap file_id) owned_base 0 p data elf"

text \<open>\<^verbatim>\<open>intern_object_names\<close>: interning returns an equal name, so only the arena's set changes.\<close>

definition interned_names :: "input_object \<Rightarrow> name list" where
  "interned_names obj =
     map sec_name (sections obj) @
     map sym_name (filter (\<lambda>s. sym_name s = [] \<or> sym_st_type s = STT_SECTION) (symbols obj)) @
     map cg_signature (comdat_groups obj)"

definition intern_object_names :: "input_arena \<Rightarrow> input_object \<Rightarrow> input_arena" where
  "intern_object_names a obj = fold (\<lambda>n a. snd (intern_name a n)) (interned_names obj) a"

definition parse_into ::
  "data_src \<Rightarrow> input_arena \<Rightarrow> string \<Rightarrow> bytes \<Rightarrow> raw_elf option \<Rightarrow>
     (object_error, input_arena \<times> input_object) outcome" where
  "parse_into backing a p data elf =
     bind_outcome (parse_backed backing (of_nat (length (owned a))) 0 p data elf) (\<lambda>(obj, sink).
       Ok (intern_object_names (a\<lparr>owned := owned a @ sink\<rparr>) obj, obj))"

definition parse_bytes_into ::
  "input_arena \<Rightarrow> u32 \<Rightarrow> string \<Rightarrow> bytes \<Rightarrow> raw_elf option \<Rightarrow>
     (object_error, input_arena \<times> input_object) outcome" where
  "parse_bytes_into a file_id p data elf = parse_into (Mmap file_id) a p data elf"

definition parse_owned_member ::
  "input_arena \<Rightarrow> u32 \<Rightarrow> string \<Rightarrow> bytes \<Rightarrow> raw_elf option \<Rightarrow>
     (object_error, input_arena \<times> input_object) outcome" where
  "parse_owned_member a owned_id p data elf = parse_into (Owned owned_id) a p data elf"


section \<open>What the handles of a parsed object read\<close>

definition file_content :: "bytes \<Rightarrow> raw_section \<Rightarrow> bytes" where
  "file_content data rs =
     (if is_debug_section_name (raw_name rs) \<and> rs_compressed rs
      then (case rs_uncompressed rs of Some bs \<Rightarrow> bs | None \<Rightarrow> [])
      else if rs_sh_type rs = SHT_NOBITS then []
      else take (unat (snd (raw_range rs))) (drop (unat (fst (raw_range rs))) data))"

definition raw_kind :: "raw_section \<Rightarrow> section_kind" where
  "raw_kind rs = classify_section (normalize_debug_section_name (raw_name rs)) (raw_flags rs)"

definition section_content :: "bytes \<Rightarrow> raw_section \<Rightarrow> bytes" where
  "section_content data rs =
     (let bs = file_content data rs in
      if raw_kind rs = EhFrame \<and> ends_with_eh_terminator bs then take (length bs - 4) bs else bs)"

text \<open>A section whose range lies in the file.  The reader returns no range for \<^verbatim>\<open>SHT_NOBITS\<close>, and the header's
  offset and size, unchecked, for any other: whether they lie in the file is a condition on the input, which nothing
  the code calls establishes.\<close>

definition range_ok :: "bytes \<Rightarrow> raw_section \<Rightarrow> bool" where
  "range_ok data rs \<longleftrightarrow> (rs_sh_type rs = SHT_NOBITS \<longrightarrow> rs_file_range rs = None) \<and>
     unat (fst (raw_range rs)) + unat (snd (raw_range rs)) \<le> length data"

lemma EhFrame_not_debug: "raw_kind rs = EhFrame \<Longrightarrow> \<not> is_debug_section_name (raw_name rs)"
  by (auto simp: raw_kind_def classify_section_def split: if_splits)

lemma terminator_shrink:
  assumes "ends_with_eh_terminator raw" "slice off n buf = Some raw"
  shows "slice off (n - 4) buf = Some (take (length raw - 4) raw)" "4 \<le> n"
proof -
  have "4 \<le> length raw"
    using terminator_suffix [of raw 0] assms(1) by (simp add: ends_with_eh_terminator_def)
  then show "slice off (n - 4) buf = Some (take (length raw - 4) raw)" "4 \<le> n"
    using assms(2) by (auto simp: slice_Some_iff)
qed

lemma section_handle_reads:
  assumes "section_handle (Mmap fid) base 0 sink p rs = Ok (h, ol, sink')"
    and a: "get (mmaps a) (unat fid) = Some data" "owned a = own @ sink' @ rest"
    and base: "base = of_nat (length own)" "length own + length sink' < 2 ^ 32"
    and rng: "range_ok data rs" "length data < 2 ^ 64"
  shows "arena_bytes a h = Some (file_content data rs) \<and> (\<exists>new. sink' = sink @ new) \<and>
    length sink' \<le> length sink + 1 \<and>
    (\<not> is_debug_section_name (raw_name rs) \<longrightarrow> unat (sd_len h) = unat (snd (raw_range rs)))"
proof (cases "is_debug_section_name (raw_name rs) \<and> rs_compressed rs")
  case True
  then obtain bs where bs: "rs_uncompressed rs = Some bs" "length bs < 2 ^ 32"
      "h = \<lparr>sd_src = Owned (base + of_nat (length sink)), sd_off = 0, sd_len = of_nat (length bs)\<rparr>"
      "sink' = sink @ [bs]"
    using assms(1) by (auto simp: section_handle_def Let_def split: option.splits if_splits prod.splits)
  have "unat (base + of_nat (length sink)) = length own + length sink"
    using base bs(4) unat_add_no_wrap [of base "of_nat (length sink)"] by (simp add: unat_of_nat)
  then show ?thesis
    using True bs a by (simp add: arena_bytes_def get_def nth_append slice_def unat_of_nat file_content_def)
next
  case plain: False
  obtain off len where r: "raw_range rs = (off, len)" by force
  show ?thesis
  proof (cases "rs_sh_type rs = SHT_NOBITS \<or> len = 0")
    case True
    then have h: "h = section_data_EMPTY" "sink' = sink"
      using assms(1) plain r by (auto simp: section_handle_def split: if_splits)
    have "mmaps a \<noteq> []" using a(1) by auto
    then have "arena_bytes a h = Some []"
      by (simp add: h arena_bytes_def section_data_EMPTY_def get_def slice_def)
    moreover have "unat len = 0"
      using True rng r by (auto simp: range_ok_def raw_range_def)
    moreover have "file_content data rs = []"
      using plain \<open>unat len = 0\<close> r by (auto simp: file_content_def)
    ultimately show ?thesis using h r by (simp add: section_data_EMPTY_def)
  next
    case False
    then have h: "off + len \<le> u32_max" "sink' = sink"
        "h = \<lparr>sd_src = Mmap fid, sd_off = ucast off, sd_len = ucast len\<rparr>"
      using assms(1) plain r by (auto simp: section_handle_def Let_def split: if_splits)
    have le: "unat off + unat len \<le> length data" using rng(1) r by (simp add: range_ok_def)
    then have "unat (off + len) = unat off + unat len"
      using rng(2) by (intro unat_add_no_wrap) simp
    then have "unat off + unat len < 2 ^ 32"
      using h(1) by (simp add: u32_max_def word_le_nat_alt)
    then have u: "unat (ucast off :: u32) = unat off" "unat (ucast len :: u32) = unat len"
      by (simp_all add: unsigned_ucast_eq take_bit_nat_eq_self)
    then show ?thesis
      using plain False le r a(1) by (auto simp: h arena_bytes_def slice_def file_content_def u)
  qed
qed

lemma parse_section_kept:
  assumes "parse_section backing base off data p sink rs = Ok (s, sink')"
  shows "(\<exists>new. sink' = sink @ new) \<and> length sink' \<le> length sink + 1 \<and> sec_index s = rs_index rs \<and> sec_kind s = raw_kind rs"
  using assms
  by (auto simp: parse_section_def section_handle_def raw_kind_def Let_def split: option.splits if_splits prod.splits
      elim!: bind_outcome_Ok)

lemma parse_section_reads:
  assumes "parse_section (Mmap fid) base 0 data p sink rs = Ok (s, sink')"
    and a: "get (mmaps a) (unat fid) = Some data" "owned a = own @ sink' @ rest"
    and base: "base = of_nat (length own)" "length own + length sink' < 2 ^ 32"
    and rng: "range_ok data rs" "length data < 2 ^ 64"
  shows "arena_bytes a (sec_data s) = Some (section_content data rs) \<and> (\<exists>new. sink' = sink @ new) \<and>
    length sink' \<le> length sink + 1 \<and> sec_index s = rs_index rs \<and> sec_kind s = raw_kind rs"
proof -
  obtain h ol where h: "section_handle (Mmap fid) base 0 sink p rs = Ok (h, ol, sink')"
    using assms(1)
    by (auto simp: parse_section_def Let_def split: option.splits if_splits elim!: bind_outcome_Ok)
  note reads = section_handle_reads [OF h a base rng]
  show ?thesis
  proof (cases "raw_kind rs = EhFrame")
    case True
    let ?raw = "take (unat (snd (raw_range rs))) (drop (unat (fst (raw_range rs))) data)"
    have raw: "slice (unat (fst (raw_range rs))) (unat (snd (raw_range rs))) data = Some ?raw"
      using rng(1) by (simp add: range_ok_def slice_def)
    have nd: "\<not> is_debug_section_name (raw_name rs)" using True by (rule EhFrame_not_debug)
    have fc: "file_content data rs = ?raw"
      using nd rng(1) by (auto simp: file_content_def range_ok_def raw_range_def)
    show ?thesis
    proof (cases "ends_with_eh_terminator ?raw")
      case t: True
      then have s: "sec_data s = h\<lparr>sd_len := saturating_sub (sd_len h) 4\<rparr>"
          "sec_index s = rs_index rs" "sec_kind s = raw_kind rs"
        using assms(1) True raw by (auto simp: parse_section_def Let_def h raw_kind_def)
      obtain buf where buf: "slice (unat (sd_off h)) (unat (sd_len h)) buf = Some ?raw"
          "(case sd_src h of Mmap i \<Rightarrow> get (mmaps a) (unat i) | Owned i \<Rightarrow> get (owned a) (unat i)) = Some buf"
        using reads fc by (auto simp: arena_bytes_def bind_eq_Some_conv)
      then have "arena_bytes a (sec_data s) = Some (take (length ?raw - 4) ?raw)"
        using terminator_shrink [OF t buf(1)] by (simp add: s arena_bytes_def unat_saturating_sub)
      then show ?thesis using reads s t True fc by (simp add: section_content_def)
    next
      case f: False
      then have s: "sec_data s = h" "sec_index s = rs_index rs" "sec_kind s = raw_kind rs"
        using assms(1) True raw by (auto simp: parse_section_def Let_def h raw_kind_def)
      then show ?thesis using reads f fc by (simp add: section_content_def)
    qed
  next
    case False
    then have s: "sec_data s = h" "sec_index s = rs_index rs" "sec_kind s = raw_kind rs"
      using assms(1) by (auto simp: parse_section_def Let_def h raw_kind_def)
    then show ?thesis using reads False by (simp add: section_content_def)
  qed
qed


lemma parse_sections_reads:
  assumes "parse_sections (Mmap fid) base 0 data p sink rss = Ok (ss, sink')"
    and a: "get (mmaps a) (unat fid) = Some data" "owned a = own @ sink' @ rest"
    and base: "base = of_nat (length own)" "length own + length sink + length rss < 2 ^ 32"
    and len: "length data < 2 ^ 64"
  shows "list_all2 (\<lambda>rs s. (range_ok data rs \<longrightarrow> arena_bytes a (sec_data s) = Some (section_content data rs)) \<and>
           sec_index s = rs_index rs \<and> sec_kind s = raw_kind rs) rss ss \<and>
         (\<exists>new. sink' = sink @ new) \<and> length sink' \<le> length sink + length rss"
  using assms(1,3) base(2)
proof (induction rss arbitrary: sink ss rest)
  case Nil
  then show ?case by simp
next
  case (Cons rs rss)
  obtain s sink1 ss1 where step: "parse_section (Mmap fid) base 0 data p sink rs = Ok (s, sink1)"
      "parse_sections (Mmap fid) base 0 data p sink1 rss = Ok (ss1, sink')" "ss = s # ss1"
    using Cons.prems(1) by (auto elim!: bind_outcome_Ok)
  note shape = parse_section_kept [OF step(1)]
  have len1: "length sink1 \<le> length sink + 1" using shape by blast
  have ih: "list_all2 (\<lambda>rs s. (range_ok data rs \<longrightarrow> arena_bytes a (sec_data s) = Some (section_content data rs)) \<and>
           sec_index s = rs_index rs \<and> sec_kind s = raw_kind rs) rss ss1 \<and>
         (\<exists>new. sink' = sink1 @ new) \<and> length sink' \<le> length sink1 + length rss"
    using Cons.IH [OF step(2) Cons.prems(2)] Cons.prems(3) len1 by simp
  then obtain new where new: "sink' = sink1 @ new" by blast
  have o': "owned a = own @ sink1 @ new @ rest" using Cons.prems(2) new by simp
  have "length own + length sink1 < 2 ^ 32" using Cons.prems(3) len1 by simp
  note reads = parse_section_reads [OF step(1) a(1) o' base(1) this _ len]
  show ?case
    using ih reads shape step(3) len1 new by auto
qed

lemma interned_arena:
  "mmaps (intern_object_names a obj) = mmaps a" "owned (intern_object_names a obj) = owned a"
proof -
  have "mmaps (fold (\<lambda>n a. snd (intern_name a n)) ns a) = mmaps a \<and>
      owned (fold (\<lambda>n a. snd (intern_name a n)) ns a) = owned a" for ns
    by (induction ns arbitrary: a) (simp_all add: intern_name_def)
  then show "mmaps (intern_object_names a obj) = mmaps a"
      "owned (intern_object_names a obj) = owned a"
    by (simp_all add: intern_object_names_def)
qed

lemma arena_bytes_cong: "mmaps a' = mmaps a \<Longrightarrow> owned a' = owned a \<Longrightarrow> arena_bytes a' = arena_bytes a"
  by (rule ext) (auto simp: arena_bytes_def split: data_src.splits)

text \<open>C39: A successful parse of a mapped file yields one section per section of the file,
  in order, found under its own raw index.  The handle of every section whose range lies in the file reads back from
  the arena what the file holds for it: the decompressed bytes of a compressed debug section, nothing for
  \<^verbatim>\<open>SHT_NOBITS\<close>, the bytes of its file range otherwise, less the terminator where an \<^verbatim>\<open>.eh_frame\<close> contribution ends in
  one.  A section whose range leaves the file is parsed as well, and reading it panics (\<open>truncated_object_parses\<close>).\<close>

theorem parse_bytes_into_reads:
  assumes parse: "parse_bytes_into a fid p data (Some elf) = Ok (a', obj)"
    and fdata: "get (mmaps a) (unat fid) = Some data" "length data < 2 ^ 64"
    and room: "length (owned a) + length (re_sections elf) < 2 ^ 32"
    and idx: "distinct (map rs_index (re_sections elf))"
  shows "length (sections obj) = length (re_sections elf) \<and>
    (\<forall>i < length (re_sections elf).
       section_by_index obj (rs_index (re_sections elf ! i)) = Some (sections obj ! i) \<and>
       sec_kind (sections obj ! i) = raw_kind (re_sections elf ! i) \<and>
       (range_ok data (re_sections elf ! i) \<longrightarrow>
          arena_bytes a' (sec_data (sections obj ! i)) = Some (section_content data (re_sections elf ! i))))"
proof -
  obtain ss sink where ps: "parse_sections (Mmap fid) (of_nat (length (owned a))) 0 data p [] (re_sections elf) =
      Ok (ss, sink)"
    and obj: "obj = parsed_object (re_hints elf) p ss (map parse_symbol (re_symbols elf))
        (parse_comdat_groups (re_symbols elf) (re_sections elf))"
    and a': "a' = intern_object_names (a\<lparr>owned := owned a @ sink\<rparr>) obj"
    using parse by (auto simp: parse_bytes_into_def parse_into_def parse_backed_def elim!: bind_outcome_Ok)
  let ?a = "a\<lparr>owned := owned a @ sink\<rparr>"
  have "owned ?a = owned a @ sink @ []" by simp
  note all = parse_sections_reads [OF ps _ this refl _ fdata(2)]
  have r: "list_all2 (\<lambda>rs s. (range_ok data rs \<longrightarrow> arena_bytes ?a (sec_data s) = Some (section_content data rs)) \<and>
      sec_index s = rs_index rs \<and> sec_kind s = raw_kind rs) (re_sections elf) ss"
    using all fdata(1) room by simp
  have ab: "arena_bytes a' = arena_bytes ?a"
    by (rule arena_bytes_cong) (simp_all add: a' interned_arena)
  have len: "length ss = length (re_sections elf)" using list_all2_lengthD [OF r] by simp
  have secs: "sections obj = ss" by (simp add: obj parsed_object_def)
  have keys: "map sec_index ss = map rs_index (re_sections elf)"
    using r by (induction rule: list_all2_induct) auto
  have small: "length ss \<le> MISSING_INDEX" using len room by simp
  have dist: "distinct (map sec_index ss)" using idx keys by simp
  have found: "section_by_index obj (sec_index (ss ! i)) = Some (ss ! i)" if "i < length ss" for i
    using that small dist dense_index.lookup_enumerate(1) [of "map sec_index ss" i "fst (re_hints elf) + 1"]
    by (simp add: section_by_index_def section_pos_def obj parsed_object_def build_section_map_def get_def)
  show ?thesis
    using r found by (auto simp: secs len ab list_all2_conv_all_nth)
qed

text \<open>One file: a text section and an \<^verbatim>\<open>.eh_frame\<close> that ends in a terminator.\<close>

definition example_section :: "nat \<Rightarrow> name \<Rightarrow> u64 \<times> u64 \<Rightarrow> raw_section" where
  "example_section i n r =
     \<lparr>rs_index = i, rs_sh_type = SHT_PROGBITS, rs_sh_info = 0, rs_name = Some n, rs_flags = Some 2,
      rs_file_range = Some r, rs_compressed = False, rs_uncompressed = None, rs_data = None,
      rs_align = 8, rs_size = snd r, rs_relocs = []\<rparr>"

definition example_elf :: raw_elf where
  "example_elf = \<lparr>re_sections = [example_section 1 ''.text'' (0, 4), example_section 2 ''.eh_frame'' (4, 28)],
     re_symbols = [], re_hints = (0, 0)\<rparr>"

definition example_file :: bytes where
  "example_file = [0x90, 0x90, 0x90, 0xc3] @ example_eh_frame"

lemmas parse_eval = Let_def parse_bytes_into_def parse_into_def parse_backed_def parse_section_def
  section_handle_def example_elf_def example_section_def example_file_def raw_range_def raw_name_def raw_flags_def
  is_debug_section_name_def starts_with_def normalize_debug_section_name_def classify_section_def u32_max_def
  slice_def

theorem parse_bytes_into_reads_witness:
  "\<exists>a' obj. parse_bytes_into \<lparr>mmaps = [example_file], owned = [], arena_names = {}\<rparr> 0 ''a.o'' example_file
       (Some example_elf) = Ok (a', obj) \<and>
     arena_bytes a' (sec_data (sections obj ! 1)) = Some (take 24 example_eh_frame)"
proof -
  let ?a = "\<lparr>mmaps = [example_file], owned = [], arena_names = {}\<rparr>"
  have t: "ends_with_eh_terminator example_eh_frame" "length example_eh_frame = 28"
    by (simp_all add: eh_eval)
  obtain a' obj where parse: "parse_bytes_into ?a 0 ''a.o'' example_file (Some example_elf) = Ok (a', obj)"
    using t by (simp add: parse_eval)
  have content: "section_content example_file (re_sections example_elf ! 1) = take 24 example_eh_frame"
    using t by (simp add: section_content_def file_content_def raw_kind_def parse_eval)
  have "\<forall>i < length (re_sections example_elf). range_ok example_file (re_sections example_elf ! i) \<longrightarrow>
      arena_bytes a' (sec_data (sections obj ! i)) =
        Some (section_content example_file (re_sections example_elf ! i))"
    using parse_bytes_into_reads [OF parse] t
    by (auto simp: example_elf_def example_section_def example_file_def)
  moreover have "range_ok example_file (re_sections example_elf ! 1)" "1 < length (re_sections example_elf)"
    using t by (simp_all add: example_elf_def example_section_def range_ok_def raw_range_def example_file_def)
  ultimately have "arena_bytes a' (sec_data (sections obj ! 1)) = Some (take 24 example_eh_frame)"
    using content by (simp only:)
  then show ?thesis using parse by blast
qed

text \<open>A file cut off inside its text section is parsed without an error, and the section it yields cannot be read.\<close>

lemma truncated_object_parses:
  "\<exists>a' obj. parse_bytes_into \<lparr>mmaps = [[0x90, 0x90]], owned = [], arena_names = {}\<rparr> 0 ''a.o'' [0x90, 0x90]
       (Some \<lparr>re_sections = [example_section 1 ''.text'' (0, 4)], re_symbols = [], re_hints = (0, 0)\<rparr>) = Ok (a', obj) \<and>
     arena_bytes a' (sec_data (sections obj ! 0)) = None"
  by (simp add: parse_eval parsed_object_def arena_bytes_def interned_arena get_def)

end
