(* ===== verification/Archive.thy ===== *)
theory Archive
  imports Object_Parse Symbols
begin

text \<open>
  \<^verbatim>\<open>peony-object/src/archive.rs\<close> and \<^verbatim>\<open>shared.rs\<close>: the members of a static library, all of them or those its symbol
  index gives for needed names, and the exports of a shared object.  The file as the \<^verbatim>\<open>object\<close> crate reads it is
  the parameter: a \<open>raw_archive\<close> or \<open>raw_shared\<close>, \<open>None\<close> where the file cannot be mapped.
\<close>

section \<open>Archives\<close>

record archive_member =
  am_offset :: "u64 option"
  am_name :: name
  am_data :: bytes

datatype archive_error = ArchiveIo string | UnsupportedArchive string | ArchiveParse string

text \<open>What the crate answers: the magic, whether the headers parse, the symbol index (an error, none, or its entries
  up to the first bad one), the members in order with \<open>None\<close> for a bad one, and the member at an offset.\<close>

datatype raw_index = IndexError | NoIndex | IndexOf "(name \<times> u64) option list"

record raw_archive =
  ra_thin :: bool
  ra_magic :: bool
  ra_parses :: bool
  ra_index :: raw_index
  ra_members :: "(name \<times> bytes) option list"
  ra_member_at :: "u64 \<Rightarrow> (name \<times> bytes) option"

definition read_archive :: "string \<Rightarrow> raw_archive option \<Rightarrow> (archive_error, raw_archive) outcome" where
  "read_archive p ra = (case ra of Some a \<Rightarrow> Ok a | None \<Rightarrow> Err (ArchiveIo p))"

definition parse_archive :: "string \<Rightarrow> raw_archive \<Rightarrow> (archive_error, raw_archive option) outcome" where
  "parse_archive p a =
     (if ra_thin a then Err (UnsupportedArchive p)
      else if \<not> ra_magic a then Ok None
      else if ra_parses a then Ok (Some a) else Err (ArchiveParse p))"

definition archive_matching_offsets :: "raw_archive \<Rightarrow> (name \<Rightarrow> bool) \<Rightarrow> u64 list option" where
  "archive_matching_offsets a is_needed =
     (case ra_index a of
        IndexError \<Rightarrow> None
      | NoIndex \<Rightarrow> if ra_members a = [] then Some [] else None
      | IndexOf syms \<Rightarrow>
          if None \<in> set syms then None else Some (map snd (filter (\<lambda>(n, off). is_needed n) (map the syms))))"

definition archive_member :: "string \<Rightarrow> (name \<times> bytes) option \<Rightarrow> u64 option \<Rightarrow> (archive_error, archive_member) outcome" where
  "archive_member p m off =
     (case m of None \<Rightarrow> Err (ArchiveParse p)
      | Some (n, d) \<Rightarrow> Ok \<lparr>am_offset = off, am_name = n, am_data = d\<rparr>)"

fun archive_members :: "string \<Rightarrow> (name \<times> bytes) option list \<Rightarrow> (archive_error, archive_member list) outcome" where
  "archive_members p [] = Ok []"
| "archive_members p (m # ms) =
     bind_outcome (archive_member p m None) (\<lambda>x. bind_outcome (archive_members p ms) (\<lambda>xs. Ok (x # xs)))"

definition iter_archive_members :: "string \<Rightarrow> raw_archive option \<Rightarrow> (archive_error, archive_member list) outcome" where
  "iter_archive_members p ra =
     bind_outcome (read_archive p ra) (\<lambda>a.
     bind_outcome (parse_archive p a) (\<lambda>f.
       case f of None \<Rightarrow> Ok [] | Some f \<Rightarrow> archive_members p (ra_members f)))"

definition archive_defines_needed ::
  "string \<Rightarrow> raw_archive option \<Rightarrow> (name \<Rightarrow> bool) \<Rightarrow> (archive_error, bool option) outcome" where
  "archive_defines_needed p ra is_needed =
     bind_outcome (read_archive p ra) (\<lambda>a.
     bind_outcome (parse_archive p a) (\<lambda>f.
       case f of None \<Rightarrow> Ok None
       | Some f \<Rightarrow> Ok (map_option (\<lambda>offs. offs \<noteq> []) (archive_matching_offsets f is_needed))))"

text \<open>The members at new offsets, and the offsets seen afterwards (the closure \<^verbatim>\<open>is_new_offset\<close> inserts).\<close>

fun members_at ::
  "string \<Rightarrow> raw_archive \<Rightarrow> u64 list \<Rightarrow> u64 set \<Rightarrow> (archive_error, archive_member list \<times> u64 set) outcome" where
  "members_at p a [] seen = Ok ([], seen)"
| "members_at p a (off # offs) seen =
     (if off \<in> seen then members_at p a offs seen
      else bind_outcome (archive_member p (ra_member_at a off) (Some off)) (\<lambda>m.
           bind_outcome (members_at p a offs (insert off seen)) (\<lambda>(ms, seen'). Ok (m # ms, seen'))))"

definition iter_archive_members_matching ::
  "string \<Rightarrow> raw_archive option \<Rightarrow> (name \<Rightarrow> bool) \<Rightarrow> u64 set \<Rightarrow>
   (archive_error, archive_member list option \<times> u64 set) outcome" where
  "iter_archive_members_matching p ra is_needed seen =
     bind_outcome (read_archive p ra) (\<lambda>a.
     bind_outcome (parse_archive p a) (\<lambda>f.
       case f of None \<Rightarrow> Ok (Some [], seen)
       | Some f \<Rightarrow>
           (case archive_matching_offsets f is_needed of
              None \<Rightarrow> Ok (None, seen)
            | Some offs \<Rightarrow>
                bind_outcome (members_at p f (remdups_adj (sort offs)) seen) (\<lambda>(ms, seen'). Ok (Some ms, seen')))))"

section \<open>Shared objects\<close>

datatype dyn_kind = DText | DData | DTls | DSection | DFile | DOther

record raw_dynsym =
  rd_undefined :: bool
  rd_local :: bool
  rd_name :: "name option"
  rd_version :: "name option"
  rd_kind :: dyn_kind
  rd_size :: u64

record raw_shared =
  rh_parses :: bool
  rh_symbols :: "raw_dynsym list"
  rh_soname :: "string option"
  rh_file_name :: "string option"

record shared_object =
  so_soname :: string
  so_exports :: "shared_export list"

fun dyn_st_type :: "dyn_kind \<Rightarrow> u8" where
  "dyn_st_type DText = 2" | "dyn_st_type DData = 1" | "dyn_st_type DTls = 6" | "dyn_st_type DSection = 3"
| "dyn_st_type DFile = 4" | "dyn_st_type DOther = 0"

definition shared_export_of :: "raw_dynsym \<Rightarrow> shared_export option" where
  "shared_export_of y =
     (if rd_undefined y \<or> rd_local y then None
      else case rd_name y of
        None \<Rightarrow> None
      | Some n \<Rightarrow>
          if n = [] then None
          else Some \<lparr>ex_name = n, ex_version = rd_version y, ex_size = rd_size y, ex_st_type = dyn_st_type (rd_kind y)\<rparr>)"

definition parse_shared_object :: "string \<Rightarrow> raw_shared option \<Rightarrow> (archive_error, shared_object) outcome" where
  "parse_shared_object p rh =
     (case rh of
        None \<Rightarrow> Err (ArchiveIo p)
      | Some h \<Rightarrow>
          if \<not> rh_parses h then Err (ArchiveParse p)
          else Ok \<lparr>so_soname = (case rh_soname h of Some s \<Rightarrow> s
                      | None \<Rightarrow> (case rh_file_name h of Some s \<Rightarrow> s | None \<Rightarrow> p)),
                   so_exports = List.map_filter shared_export_of (rh_symbols h)\<rparr>)"

section \<open>What a lookup by index reads\<close>

text \<open>Offsets the index of an archive gives, for any name.\<close>

definition index_offsets :: "raw_archive \<Rightarrow> u64 set" where
  "index_offsets a = (case ra_index a of IndexOf syms \<Rightarrow> snd ` set (List.map_filter id syms) | _ \<Rightarrow> {})"

lemma members_at_spec:
  assumes "members_at p a offs seen = Ok (ms, seen')"
  shows "seen' = seen \<union> set offs" "card (set offs - seen) = length ms" "\<forall>m \<in> set ms. \<exists>off \<in> set offs. am_offset m = Some off"
proof -
  have "seen' = seen \<union> set offs \<and> card (set offs - seen) = length ms \<and> (\<forall>m \<in> set ms. \<exists>off \<in> set offs. am_offset m = Some off)"
    using assms
  proof (induction offs arbitrary: seen ms)
    case (Cons off offs)
    show ?case
    proof (cases "off \<in> seen")
      case True
      then show ?thesis using Cons.IH [of seen ms] Cons.prems by (auto simp: insert_Diff_if)
    next
      case False
      then obtain m ms' where m: "archive_member p (ra_member_at a off) (Some off) = Ok m"
          "members_at p a offs (insert off seen) = Ok (ms', seen')" "ms = m # ms'"
        using Cons.prems by (auto elim!: bind_outcome_Ok split: prod.splits)
      have ih: "seen' = insert off seen \<union> set offs" "card (set offs - insert off seen) = length ms'"
        "\<forall>m \<in> set ms'. \<exists>off \<in> set offs. am_offset m = Some off" using Cons.IH [OF m(2)] by blast+
      have "set (off # offs) - seen = insert off (set offs - insert off seen)" using False by auto
      then have "card (set (off # offs) - seen) = Suc (card (set offs - insert off seen))" by simp
      moreover have "am_offset m = Some off" using m(1) by (auto simp: archive_member_def split: option.splits)
      ultimately show ?thesis using ih m(3) by auto
    qed
  qed simp
  then show "seen' = seen \<union> set offs" "card (set offs - seen) = length ms" "\<forall>m \<in> set ms. \<exists>off \<in> set offs. am_offset m = Some off"
    by blast+
qed

lemma finite_index_offsets [simp]: "finite (index_offsets a)"
  by (simp add: index_offsets_def split: raw_index.split)

text \<open>The offsets a search by name finds, and that all of them come from the index.\<close>

lemma matching_offsets_in_index:
  assumes "archive_matching_offsets a P = Some offs"
  shows "set offs \<subseteq> index_offsets a"
    "IndexOf syms = ra_index a \<Longrightarrow> Some (n, off) \<in> set syms \<Longrightarrow> P n \<Longrightarrow> off \<in> set offs"
proof -
  show "set offs \<subseteq> index_offsets a"
  proof
    fix off assume "off \<in> set offs"
    show "off \<in> index_offsets a"
    proof (cases "ra_index a")
      case (IndexOf syms)
      then have n: "None \<notin> set syms" and eq: "offs = map snd (filter (\<lambda>(n, off). P n) (map the syms))"
        using assms by (simp_all add: archive_matching_offsets_def split: if_splits)
      then obtain x where "x \<in> set syms" "snd (the x) = off" using \<open>off \<in> set offs\<close> by auto
      moreover have "x \<noteq> None" using calculation(1) n by metis
      then have "x = Some (the x)" by simp
      ultimately obtain n where "Some (n, off) \<in> set syms" by (metis prod.collapse)
      then show ?thesis by (force simp: index_offsets_def IndexOf List.map_filter_def)
    qed (use assms \<open>off \<in> set offs\<close> in \<open>auto simp: archive_matching_offsets_def split: if_splits\<close>)
  qed
  assume i: "IndexOf syms = ra_index a" "Some (n, off) \<in> set syms" "P n"
  have eq: "offs = map snd (filter (\<lambda>(n, off). P n) (map the syms))"
    using assms i(1) [symmetric] by (simp add: archive_matching_offsets_def split: if_splits)
  have "(n, off) \<in> set (map the syms)" using i(2) by force
  then have "(n, off) \<in> set (filter (\<lambda>(n, off). P n) (map the syms))" using i(3) by simp
  then have "snd (n, off) \<in> snd ` set (filter (\<lambda>(n, off). P n) (map the syms))" by (rule imageI)
  then show "off \<in> set offs" by (simp only: eq set_map snd_conv)
qed

text \<open>An indexed search returns exactly as many members as it marks new offsets, every offset the index gives for a
  needed name is marked afterwards, and without an index nothing is marked.\<close>

lemma iter_matching_spec:
  assumes "iter_archive_members_matching p ra P seen = Ok (r, seen')"
  shows "seen \<subseteq> seen'" "r = Some ms \<Longrightarrow> ra = Some a \<Longrightarrow> seen' - seen \<subseteq> index_offsets a \<and> card (seen' - seen) = length ms"
    "r = None \<Longrightarrow> seen' = seen"
    "r = Some ms \<Longrightarrow> ra = Some a \<Longrightarrow> ra_magic a \<Longrightarrow> ra_index a = IndexOf syms \<Longrightarrow> Some (n, off) \<in> set syms \<Longrightarrow> P n \<Longrightarrow> off \<in> seen'"
proof -
  obtain a' where a': "ra = Some a'" using assms by (auto simp: iter_archive_members_matching_def read_archive_def split: option.splits)
  consider (plain) "\<not> ra_magic a'" "r = Some []" "seen' = seen"
    | (none) "archive_matching_offsets a' P = None" "r = None" "seen' = seen" "ra_magic a'"
    | (some) offs xs where "archive_matching_offsets a' P = Some offs" "ra_magic a'"
        "members_at p a' (remdups_adj (sort offs)) seen = Ok (xs, seen')" "r = Some xs"
    using assms
    by (auto simp: iter_archive_members_matching_def read_archive_def a' parse_archive_def elim!: bind_outcome_Ok
        split: if_splits option.splits prod.splits)
  note this_cases = this
  show "seen \<subseteq> seen'"
    by (cases rule: this_cases) (auto dest: members_at_spec(1))
  show "seen' - seen \<subseteq> index_offsets a \<and> card (seen' - seen) = length ms" if "r = Some ms" "ra = Some a"
  proof (cases rule: this_cases)
    case (some offs xs)
    have "seen' - seen = set offs - seen" using members_at_spec(1) [OF some(3)] by auto
    then show ?thesis
      using matching_offsets_in_index(1) [OF some(1)] members_at_spec(2) [OF some(3)] that a' some(4) by auto
  qed (use that in auto)
  show "r = None \<Longrightarrow> seen' = seen" by (cases rule: this_cases) auto
  show "off \<in> seen'" if "r = Some ms" "ra = Some a" "ra_magic a" "ra_index a = IndexOf syms" "Some (n, off) \<in> set syms" "P n"
  proof (cases rule: this_cases)
    case (some offs xs)
    have "off \<in> set offs" using matching_offsets_in_index(2) [OF some(1)] that a' by simp
    then show ?thesis using members_at_spec(1) [OF some(3)] by simp
  qed (use that a' in auto)
qed

text \<open>Which members a search gives: at every new offset the member there, and with no index all of them.\<close>

lemma members_at_data:
  "members_at p a offs seen = Ok (ms, seen') \<Longrightarrow> off \<in> set offs \<Longrightarrow> off \<notin> seen \<Longrightarrow>
     \<exists>m \<in> set ms. ra_member_at a off = Some (am_name m, am_data m)"
proof (induction offs arbitrary: seen ms)
  case (Cons o1 offs)
  show ?case
  proof (cases "o1 \<in> seen")
    case True
    then show ?thesis using Cons by auto
  next
    case False
    then obtain m ms' where m: "archive_member p (ra_member_at a o1) (Some o1) = Ok m"
        "members_at p a offs (insert o1 seen) = Ok (ms', seen')" "ms = m # ms'"
      using Cons.prems by (auto elim!: bind_outcome_Ok split: prod.splits)
    show ?thesis
    proof (cases "off = o1")
      case True
      then have "ra_member_at a off = Some (am_name m, am_data m)"
        using m(1) by (auto simp: archive_member_def split: option.splits)
      then show ?thesis using m(3) by auto
    next
      case False
      then show ?thesis using Cons.IH [OF m(2)] Cons.prems m(3) by auto
    qed
  qed
qed simp

lemma archive_members_data:
  "archive_members p xs = Ok ms \<Longrightarrow> Some (n, d) \<in> set xs \<Longrightarrow> \<exists>m \<in> set ms. am_name m = n \<and> am_data m = d"
  by (induction xs arbitrary: ms) (auto simp: archive_member_def elim!: bind_outcome_Ok split: option.splits)

lemma matching_offsets_None:
  "archive_matching_offsets a P = None \<Longrightarrow> archive_matching_offsets a Q = None"
  by (auto simp: archive_matching_offsets_def split: raw_index.splits if_splits)

lemma iter_matching_cases:
  assumes "iter_archive_members_matching p ra P seen = Ok (r, seen')" "ra = Some a"
  obtains (plain) "\<not> ra_magic a" "r = Some []" "seen' = seen"
    | (unindexed) "ra_magic a" "archive_matching_offsets a P = None" "r = None" "seen' = seen"
    | (indexed) offs ms where "ra_magic a" "archive_matching_offsets a P = Some offs" "r = Some ms"
      "seen' = seen \<union> set offs" "ms = [] \<longleftrightarrow> set offs \<subseteq> seen"
      "\<And>off. off \<in> seen' \<Longrightarrow> off \<notin> seen \<Longrightarrow> \<exists>m \<in> set ms. ra_member_at a off = Some (am_name m, am_data m)"
proof -
  consider (1) "\<not> ra_magic a" "r = Some []" "seen' = seen"
    | (2) "archive_matching_offsets a P = None" "r = None" "seen' = seen" "ra_magic a"
    | (3) offs xs where "archive_matching_offsets a P = Some offs" "ra_magic a"
        "members_at p a (remdups_adj (sort offs)) seen = Ok (xs, seen')" "r = Some xs"
    using assms
    by (auto simp: iter_archive_members_matching_def read_archive_def parse_archive_def elim!: bind_outcome_Ok
        split: if_splits option.splits prod.splits)
  then show thesis
  proof cases
    case (3 offs xs)
    have s: "seen' = seen \<union> set offs" "card (set offs - seen) = length xs"
      using members_at_spec(1,2) [OF 3(3)] by auto
    then have "xs = [] \<longleftrightarrow> set offs \<subseteq> seen" by (metis Diff_eq_empty_iff List.finite_set card_0_eq finite_Diff length_0_conv)
    moreover have "\<exists>m \<in> set xs. ra_member_at a off = Some (am_name m, am_data m)" if "off \<in> seen'" "off \<notin> seen" for off
      using members_at_data [OF 3(3)] that s(1) by simp
    ultimately show thesis using indexed [OF 3(2,1,4) s(1)] by blast
  qed (use plain unindexed in auto)
qed

end
