(* ===== verification/Resolver.thy ===== *)
theory Resolver
  imports Archive
begin

text \<open>
  Loading and resolving the inputs, \<^verbatim>\<open>peony/src/main.rs\<close>: the resolver that keeps objects, symbol table and COMDAT
  signatures in lock-step, the lazy inclusion of archive members and \<^verbatim>\<open>--start-lib\<close> objects, the order in which
  \<^verbatim>\<open>load_and_resolve\<close> treats the kinds of inputs, and the retry without CRT objects.  What the files hold, and what the
  ELF reader answers for some bytes, is the parameter \<open>link_world\<close>.

  The two inclusion loops run until no member helps, so they are \<open>partial_function\<close>s whose \<open>None\<close> is "does not return";
  \<open>load_terminates\<close> shows that they always return, by the potential of a round: twice the index offsets not read yet,
  the members of archives without an index, and the members parsed but not linked.  \<open>archive_fixpoint\<close> shows what they
  leave behind.  Counts of list entries (\<^verbatim>\<open>pulled\<close>, \<^verbatim>\<open>parsed_archives\<close>) are natural numbers, hash sets
  of names are sets; the trace events and counters have no part in the model.
\<close>

section \<open>Inputs and results\<close>

record resolved_input =
  ri_path :: string
  ri_whole_archive :: bool
  ri_as_needed :: bool
  ri_start_lib_member :: bool

text \<open>Per path: the mapped bytes (\<open>None\<close> where mapping fails), the kind a header read gives, the archive and the shared
  object as the readers see them; and the ELF reader's view of some bytes.\<close>

record link_world =
  lw_bytes :: "string \<Rightarrow> bytes option"
  lw_header_kind :: "string \<Rightarrow> file_kind"
  lw_archive :: "string \<Rightarrow> raw_archive option"
  lw_shared :: "string \<Rightarrow> raw_shared option"
  lw_elf :: "bytes \<Rightarrow> raw_elf option"

datatype load_error = LoadSymbol symbol_error | LoadArchive archive_error | LoadObject object_error | LoadOpen string

primrec map_err :: "('e \<Rightarrow> 'f) \<Rightarrow> ('e, 'a) outcome \<Rightarrow> ('f, 'a) outcome" where
  "map_err f (Ok a) = Ok a"
| "map_err f (Err e) = Err (f e)"
| "map_err f Panic = Panic"

lemma map_err_Ok [simp]: "map_err f m = Ok a \<longleftrightarrow> m = Ok a"
  by (cases m) auto

section \<open>The resolver\<close>

record resolver =
  rv_arena :: input_arena
  rv_objects :: "input_object list"
  rv_symbols :: symbol_table
  rv_seen_comdat :: "name set"
  rv_excluded :: "(nat \<times> nat) set"

definition resolver_default :: resolver where
  "resolver_default = \<lparr>rv_arena = arena_new, rv_objects = [], rv_symbols = symbol_table_new,
     rv_seen_comdat = {}, rv_excluded = {}\<rparr>"

text \<open>The loop over the COMDAT groups of object \<open>i\<close>: signatures seen, the object's excluded sections, all excluded ones.\<close>

fun exclude_groups ::
  "nat \<Rightarrow> comdat_group list \<Rightarrow> name set \<Rightarrow> nat set \<Rightarrow> (nat \<times> nat) set \<Rightarrow> name set \<times> nat set \<times> (nat \<times> nat) set" where
  "exclude_groups i [] seen own ex = (seen, own, ex)"
| "exclude_groups i (g # gs) seen own ex =
     (if cg_signature g = [] then exclude_groups i gs seen own ex
      else if cg_signature g \<in> seen
      then exclude_groups i gs seen (own \<union> set (cg_members g)) (ex \<union> Pair i ` set (cg_members g))
      else exclude_groups i gs (insert (cg_signature g) seen) own ex)"

definition resolve :: "input_object \<Rightarrow> resolver \<Rightarrow> (load_error, resolver) outcome" where
  "resolve obj r =
     (case add_object (path obj) (rv_symbols r) of
        (oid, st) \<Rightarrow>
          (case exclude_groups (unat oid) (comdat_groups obj) (rv_seen_comdat r) {} (rv_excluded r) of
             (seen, own, ex) \<Rightarrow>
               bind_outcome (map_err LoadSymbol (process_object_excluding oid obj own st)) (\<lambda>st'.
                 Ok (r\<lparr>rv_objects := rv_objects r @ [obj], rv_symbols := st',
                       rv_seen_comdat := seen, rv_excluded := ex\<rparr>))))"

fun resolve_all :: "input_object list \<Rightarrow> resolver \<Rightarrow> (load_error, resolver) outcome" where
  "resolve_all [] r = Ok r"
| "resolve_all (obj # objs) r = bind_outcome (resolve obj r) (resolve_all objs)"

section \<open>Lazy members\<close>

record lazy_member =
  lm_obj :: "input_object option"
  lm_defines :: "name list"

text \<open>A name a lazy member is pulled for.\<close>

definition wanted :: "symbol_table \<Rightarrow> name \<Rightarrow> bool" where
  "wanted st n = (case lookup st n of Some res \<Rightarrow> \<not> is_defined res \<and> res_binding res = Global | None \<Rightarrow> False)"

definition current_global_undefined :: "symbol_table \<Rightarrow> name set" where
  "current_global_undefined st = set (filter (wanted st) (map fst (resolutions st)))"

definition member_defines :: "input_object \<Rightarrow> name list" where
  "member_defines obj =
     remdups (map sym_name
       (filter (\<lambda>s. \<not> sym_is_undefined s \<and> sym_binding s \<noteq> Local \<and> sym_name s \<noteq> []) (symbols obj)))"

definition member_touched :: "lazy_member \<Rightarrow> input_object \<Rightarrow> name list" where
  "member_touched m obj =
     lm_defines m @ map sym_name (filter (\<lambda>s. sym_is_undefined s \<and> sym_name s \<noteq> []) (symbols obj))"

fun reconcile :: "symbol_table \<Rightarrow> name list \<Rightarrow> name set \<Rightarrow> name set" where
  "reconcile st [] undef = undef"
| "reconcile st (n # ns) undef = reconcile st ns (if wanted st n then insert n undef else undef - {n})"

fun pull_lazy_members ::
  "lazy_member list \<Rightarrow> resolver \<Rightarrow> name set \<Rightarrow>
   (load_error, lazy_member list \<times> resolver \<times> name set \<times> nat) outcome" where
  "pull_lazy_members [] r undef = Ok ([], r, undef, 0)"
| "pull_lazy_members (m # ms) r undef =
     (case lm_obj m of
        None \<Rightarrow> bind_outcome (pull_lazy_members ms r undef) (\<lambda>(ms', r', u, k). Ok (m # ms', r', u, k))
      | Some obj \<Rightarrow>
          if set (lm_defines m) \<inter> undef = {}
          then bind_outcome (pull_lazy_members ms r undef) (\<lambda>(ms', r', u, k). Ok (m # ms', r', u, k))
          else bind_outcome (resolve obj r) (\<lambda>r1.
                 bind_outcome (pull_lazy_members ms r1 (reconcile (rv_symbols r1) (member_touched m obj) undef))
                   (\<lambda>(ms', r', u, k). Ok (m\<lparr>lm_obj := None\<rparr> # ms', r', u, Suc k))))"

section \<open>Members of archives\<close>

text \<open>\<^verbatim>\<open>format!("{}({})", ar.display(), m.name)\<close>.\<close>

definition member_label :: "string \<Rightarrow> name \<Rightarrow> string" where
  "member_label p n = p @ ''('' @ n @ '')''"

text \<open>A member copied into the arena and parsed there: the arena, and the object unless the member is no object.\<close>

definition parse_member ::
  "link_world \<Rightarrow> string \<Rightarrow> archive_member \<Rightarrow> input_arena \<Rightarrow> (load_error, input_arena \<times> input_object option) outcome" where
  "parse_member w p m a =
     (case push_owned a (am_data m) of
        (i, a1) \<Rightarrow>
          (case parse_owned_member a1 i (member_label p (am_name m)) (am_data m) (lw_elf w (am_data m)) of
             Ok (a2, obj) \<Rightarrow> Ok (a2, Some obj)
           | Err _ \<Rightarrow> Ok (a1, None)
           | Panic \<Rightarrow> Panic))"

fun whole_members :: "link_world \<Rightarrow> string \<Rightarrow> archive_member list \<Rightarrow> resolver \<Rightarrow> (load_error, resolver) outcome" where
  "whole_members w p [] r = Ok r"
| "whole_members w p (m # ms) r =
     bind_outcome (parse_member w p m (rv_arena r)) (\<lambda>(a, obj).
       case obj of
         None \<Rightarrow> whole_members w p ms (r\<lparr>rv_arena := a\<rparr>)
       | Some obj \<Rightarrow> bind_outcome (resolve obj (r\<lparr>rv_arena := a\<rparr>)) (whole_members w p ms))"

fun include_whole_archive_members ::
  "link_world \<Rightarrow> string list \<Rightarrow> resolver \<Rightarrow> (load_error, resolver) outcome" where
  "include_whole_archive_members w [] r = Ok r"
| "include_whole_archive_members w (p # ps) r =
     bind_outcome (map_err LoadArchive (iter_archive_members p (lw_archive w p))) (\<lambda>ms.
       bind_outcome (whole_members w p ms r) (include_whole_archive_members w ps))"

fun lazy_members ::
  "link_world \<Rightarrow> string \<Rightarrow> archive_member list \<Rightarrow> input_arena \<Rightarrow> (load_error, lazy_member list \<times> input_arena) outcome" where
  "lazy_members w p [] a = Ok ([], a)"
| "lazy_members w p (m # ms) a =
     bind_outcome (parse_member w p m a) (\<lambda>(a1, obj).
       bind_outcome (lazy_members w p ms a1) (\<lambda>(xs, a2).
         Ok (case obj of None \<Rightarrow> xs | Some obj \<Rightarrow> \<lparr>lm_obj = Some obj, lm_defines = member_defines obj\<rparr> # xs, a2)))"

section \<open>Inclusion loops\<close>

text \<open>\<^verbatim>\<open>parse_object\<close>: open, map, parse.\<close>

definition parse_object :: "link_world \<Rightarrow> string \<Rightarrow> input_arena \<Rightarrow> (load_error, input_arena \<times> input_object) outcome" where
  "parse_object w p a =
     (case lw_bytes w p of
        None \<Rightarrow> Err (LoadOpen p)
      | Some bs \<Rightarrow>
          (case push_mmap a bs of (i, a1) \<Rightarrow> map_err LoadObject (parse_bytes_into a1 i p bs (lw_elf w bs))))"

fun start_lib_members ::
  "link_world \<Rightarrow> string list \<Rightarrow> input_arena \<Rightarrow> (load_error, lazy_member list \<times> input_arena) outcome" where
  "start_lib_members w [] a = Ok ([], a)"
| "start_lib_members w (p # ps) a =
     bind_outcome (parse_object w p a) (\<lambda>(a1, obj).
       bind_outcome (start_lib_members w ps a1) (\<lambda>(xs, a2).
         Ok (\<lparr>lm_obj = Some obj, lm_defines = member_defines obj\<rparr> # xs, a2)))"

partial_function (option) start_lib_loop ::
  "lazy_member list \<Rightarrow> resolver \<Rightarrow> name set \<Rightarrow> (load_error, resolver) outcome option" where
  "start_lib_loop members r undef =
     (if undef = {} then Some (Ok r)
      else case pull_lazy_members members r undef of
        Err e \<Rightarrow> Some (Err e)
      | Panic \<Rightarrow> Some Panic
      | Ok (members', r', undef', pulled) \<Rightarrow>
          if pulled = 0 then Some (Ok r') else start_lib_loop members' r' undef')"

definition include_start_lib_members ::
  "link_world \<Rightarrow> string list \<Rightarrow> resolver \<Rightarrow> (load_error, resolver) outcome option" where
  "include_start_lib_members w ps r =
     (case start_lib_members w ps (rv_arena r) of
        Err e \<Rightarrow> Some (Err e)
      | Panic \<Rightarrow> Some Panic
      | Ok (members, a) \<Rightarrow>
          start_lib_loop members (r\<lparr>rv_arena := a\<rparr>) (current_global_undefined (rv_symbols r)))"

text \<open>One pass over the pending archives.\<close>

record archive_round =
  ar_arena :: input_arena
  ar_members :: "lazy_member list"
  ar_seen :: "string \<Rightarrow> u64 set"
  ar_next :: "string list"
  ar_indexed :: "string list"
  ar_parsed :: nat

definition add_members ::
  "link_world \<Rightarrow> string \<Rightarrow> archive_member list \<Rightarrow> archive_round \<Rightarrow> (load_error, archive_round) outcome" where
  "add_members w p ms rd =
     bind_outcome (lazy_members w p ms (ar_arena rd)) (\<lambda>(xs, a).
       Ok (rd\<lparr>ar_arena := a, ar_members := ar_members rd @ xs, ar_parsed := Suc (ar_parsed rd)\<rparr>))"

definition scan_archive ::
  "link_world \<Rightarrow> name set \<Rightarrow> string \<Rightarrow> archive_round \<Rightarrow> (load_error, archive_round) outcome" where
  "scan_archive w undef p rd =
     bind_outcome (map_err LoadArchive
         (iter_archive_members_matching p (lw_archive w p) (\<lambda>n. n \<in> undef) (ar_seen rd p))) (\<lambda>(found, seen').
       case found of
         Some ms \<Rightarrow>
           if ms = [] then Ok (rd\<lparr>ar_seen := (ar_seen rd)(p := seen'), ar_next := ar_next rd @ [p]\<rparr>)
           else add_members w p ms (rd\<lparr>ar_seen := (ar_seen rd)(p := seen'), ar_indexed := ar_indexed rd @ [p]\<rparr>)
       | None \<Rightarrow>
           bind_outcome (map_err LoadArchive (iter_archive_members p (lw_archive w p))) (\<lambda>ms.
             add_members w p ms (rd\<lparr>ar_seen := (ar_seen rd)(p := seen')\<rparr>)))"

fun scan_archives ::
  "link_world \<Rightarrow> name set \<Rightarrow> string list \<Rightarrow> archive_round \<Rightarrow> (load_error, archive_round) outcome" where
  "scan_archives w undef [] rd = Ok rd"
| "scan_archives w undef (p # ps) rd = bind_outcome (scan_archive w undef p rd) (scan_archives w undef ps)"

definition round_start :: "input_arena \<Rightarrow> lazy_member list \<Rightarrow> (string \<Rightarrow> u64 set) \<Rightarrow> archive_round" where
  "round_start a members seen =
     \<lparr>ar_arena = a, ar_members = members, ar_seen = seen, ar_next = [], ar_indexed = [], ar_parsed = 0\<rparr>"

definition archive_pass ::
  "link_world \<Rightarrow> string list \<Rightarrow> (string \<Rightarrow> u64 set) \<Rightarrow> lazy_member list \<Rightarrow> resolver \<Rightarrow> name set \<Rightarrow>
   (load_error, archive_round \<times> lazy_member list \<times> resolver \<times> name set \<times> nat) outcome" where
  "archive_pass w pending seen members r undef =
     bind_outcome (scan_archives w undef pending (round_start (rv_arena r) members seen)) (\<lambda>rd.
     bind_outcome (pull_lazy_members (ar_members rd) (r\<lparr>rv_arena := ar_arena rd\<rparr>) undef) (\<lambda>x. Ok (rd, x)))"

partial_function (option) archive_loop ::
  "link_world \<Rightarrow> string list \<Rightarrow> (string \<Rightarrow> u64 set) \<Rightarrow> lazy_member list \<Rightarrow> resolver \<Rightarrow> name set \<Rightarrow>
   (load_error, resolver) outcome option" where
  "archive_loop w pending seen members r undef =
     (if undef = {} then Some (Ok r)
      else case archive_pass w pending seen members r undef of
        Err e \<Rightarrow> Some (Err e)
      | Panic \<Rightarrow> Some Panic
      | Ok (rd, members', r', undef', pulled) \<Rightarrow>
          if pulled = 0 \<and> ar_parsed rd = 0 then Some (Ok r')
          else archive_loop w (if pulled > 0 then ar_next rd @ ar_indexed rd else ar_next rd)
                 (ar_seen rd) members' r' undef')"

fun unique_paths :: "string list \<Rightarrow> string set \<Rightarrow> string list" where
  "unique_paths [] seen = []"
| "unique_paths (p # ps) seen = (if p \<in> seen then unique_paths ps seen else p # unique_paths ps (insert p seen))"

definition include_archive_members ::
  "link_world \<Rightarrow> string list \<Rightarrow> resolver \<Rightarrow> (load_error, resolver) outcome option" where
  "include_archive_members w archives r =
     archive_loop w (unique_paths archives {}) (\<lambda>_. {}) [] r (current_global_undefined (rv_symbols r))"

section \<open>Loading all inputs\<close>

definition input_kind :: "link_world \<Rightarrow> resolved_input \<Rightarrow> file_kind" where
  "input_kind w inp =
     (case lw_bytes w (ri_path inp) of Some bs \<Rightarrow> classify_bytes bs | None \<Rightarrow> lw_header_kind w (ri_path inp))"

text \<open>Stage 1, mapping every bare object; stage 2, parsing from the mapped bytes; stage 3, merging the owned buffers.\<close>

fun map_inputs :: "link_world \<Rightarrow> string list \<Rightarrow> input_arena \<Rightarrow> (load_error, (u32 \<times> string) list \<times> input_arena) outcome" where
  "map_inputs w [] a = Ok ([], a)"
| "map_inputs w (p # ps) a =
     (case lw_bytes w p of
        None \<Rightarrow> Err (LoadOpen p)
      | Some bs \<Rightarrow>
          (case push_mmap a bs of
             (i, a1) \<Rightarrow> bind_outcome (map_inputs w ps a1) (\<lambda>(xs, a2). Ok ((i, p) # xs, a2))))"

definition parse_one ::
  "link_world \<Rightarrow> input_arena \<Rightarrow> u32 \<times> string \<Rightarrow> (load_error, input_object \<times> bytes list) outcome" where
  "parse_one w a fp =
     (case get (mmaps a) (unat (fst fp)) of
        None \<Rightarrow> Panic
      | Some bs \<Rightarrow> map_err LoadObject (parse_bare_parallel (fst fp) 0 (snd fp) bs (lw_elf w bs)))"

fun parse_mapped ::
  "link_world \<Rightarrow> input_arena \<Rightarrow> (u32 \<times> string) list \<Rightarrow> (load_error, (input_object \<times> bytes list) list) outcome" where
  "parse_mapped w a [] = Ok []"
| "parse_mapped w a (fp # fps) =
     bind_outcome (parse_one w a fp) (\<lambda>x. bind_outcome (parse_mapped w a fps) (\<lambda>xs. Ok (x # xs)))"

fun merge_parsed :: "(input_object \<times> bytes list) list \<Rightarrow> input_arena \<Rightarrow> input_object list \<times> input_arena" where
  "merge_parsed [] a = ([], a)"
| "merge_parsed ((obj, bufs) # xs) a =
     (case merge_parsed_owned a obj bufs of
        (a1, obj') \<Rightarrow> (case merge_parsed xs a1 of (objs, a2) \<Rightarrow> (obj' # objs, a2)))"

definition load_bare :: "link_world \<Rightarrow> string list \<Rightarrow> resolver \<Rightarrow> (load_error, resolver) outcome" where
  "load_bare w bare r =
     bind_outcome (map_inputs w bare (rv_arena r)) (\<lambda>(mapped, a).
     bind_outcome (parse_mapped w a mapped) (\<lambda>results.
       case merge_parsed results a of (objs, a') \<Rightarrow> resolve_all objs (r\<lparr>rv_arena := a'\<rparr>)))"

definition force_all :: "name list \<Rightarrow> resolver \<Rightarrow> resolver" where
  "force_all ns r = r\<lparr>rv_symbols := fold force_undefined ns (rv_symbols r)\<rparr>"

fun register_shared ::
  "link_world \<Rightarrow> resolved_input list \<Rightarrow> symbol_table \<Rightarrow> (load_error, string list \<times> symbol_table) outcome" where
  "register_shared w [] st = Ok ([], st)"
| "register_shared w (inp # inps) st =
     bind_outcome (map_err LoadArchive (parse_shared_object (ri_path inp) (lw_shared w (ri_path inp)))) (\<lambda>lib.
       case register_shared_export_symbols (so_exports lib) (so_soname lib) st of
         (satisfied, st1) \<Rightarrow>
           bind_outcome (register_shared w inps st1) (\<lambda>(needed, st2).
             Ok (if \<not> ri_as_needed inp \<or> satisfied > 0 then so_soname lib # needed else needed, st2)))"

record resolved =
  rz_arena :: input_arena
  rz_objects :: "input_object list"
  rz_symbols :: symbol_table
  rz_comdat_excluded :: "(nat \<times> nat) set"
  rz_needed :: "string list"

definition load_shared :: "link_world \<Rightarrow> resolved_input list \<Rightarrow> resolver \<Rightarrow> (load_error, resolved) outcome" where
  "load_shared w inps r =
     bind_outcome (register_shared w inps (rv_symbols r)) (\<lambda>(needed, st).
       Ok \<lparr>rz_arena = rv_arena r, rz_objects = rv_objects r, rz_symbols = st,
           rz_comdat_excluded = rv_excluded r, rz_needed = needed\<rparr>)"

text \<open>A step that may not return after one that may not return.\<close>

definition and_then ::
  "('e, 'a) outcome option \<Rightarrow> ('a \<Rightarrow> ('e, 'b) outcome option) \<Rightarrow> ('e, 'b) outcome option" where
  "and_then m f = (case m of None \<Rightarrow> None | Some (Ok a) \<Rightarrow> f a | Some (Err e) \<Rightarrow> Some (Err e) | Some Panic \<Rightarrow> Some Panic)"

definition paths_where :: "(resolved_input \<Rightarrow> bool) \<Rightarrow> resolved_input list \<Rightarrow> string list" where
  "paths_where P inputs = map ri_path (filter P inputs)"

definition load_and_resolve ::
  "link_world \<Rightarrow> resolved_input list \<Rightarrow> name list \<Rightarrow> (load_error, resolved) outcome option" where
  "load_and_resolve w inputs forced =
     (let is = (\<lambda>k inp. input_kind w inp = k) in
      and_then (Some (load_bare w
          (paths_where (\<lambda>x. is Bare x \<and> \<not> ri_start_lib_member x) inputs) resolver_default)) (\<lambda>r1.
      and_then (Some (include_whole_archive_members w
          (paths_where (\<lambda>x. is Archive x \<and> ri_whole_archive x) inputs) (force_all forced r1))) (\<lambda>r2.
      and_then (include_start_lib_members w
          (paths_where (\<lambda>x. is Bare x \<and> ri_start_lib_member x) inputs) r2) (\<lambda>r3.
      and_then (include_archive_members w
          (paths_where (\<lambda>x. is Archive x \<and> \<not> ri_whole_archive x) inputs) r3) (\<lambda>r4.
        Some (load_shared w (filter (is Shared) inputs) r4))))))"

definition is_user_start_vs_crt_conflict :: "load_error \<Rightarrow> bool" where
  "is_user_start_vs_crt_conflict e =
     (case e of LoadSymbol (DuplicateSymbol n _ _) \<Rightarrow> n = ''_start'' | _ \<Rightarrow> False)"

definition load_and_resolve_with_crt_fallback ::
  "link_world \<Rightarrow> resolved_input list \<Rightarrow> string list \<Rightarrow> name list \<Rightarrow> (load_error, resolved) outcome option" where
  "load_and_resolve_with_crt_fallback w inputs injected_crt forced =
     (case load_and_resolve w inputs forced of
        Some (Err e) \<Rightarrow>
          if injected_crt = [] \<or> \<not> is_user_start_vs_crt_conflict e then Some (Err e)
          else load_and_resolve w (filter (\<lambda>i. ri_path i \<notin> set injected_crt) inputs) forced
      | x \<Rightarrow> x)"


section \<open>The loops return\<close>

definition avail :: "lazy_member list \<Rightarrow> nat" where
  "avail ms = length (filter (\<lambda>m. lm_obj m \<noteq> None) ms)"

lemma avail_simps [simp]:
  "avail [] = 0"
  "avail (m # ms) = (if lm_obj m = None then avail ms else Suc (avail ms))"
  "avail (ms @ ms') = avail ms + avail ms'"
  by (simp_all add: avail_def)

lemma pull_avail:
  "pull_lazy_members ms r undef = Ok (ms', r', undef', k) \<Longrightarrow> avail ms = avail ms' + k"
  by (induction ms arbitrary: r undef ms' k)
     (auto split: option.splits if_splits prod.splits elim!: bind_outcome_Ok)

lemma start_lib_loop_returns: "\<exists>x. start_lib_loop ms r undef = Some x"
proof (induction "avail ms" arbitrary: ms r undef rule: less_induct)
  case less
  show ?case
  proof (cases "pull_lazy_members ms r undef")
    case (Ok x)
    then obtain ms' r' u' k where x: "pull_lazy_members ms r undef = Ok (ms', r', u', k)" by (cases x) auto
    then have "k \<noteq> 0 \<Longrightarrow> \<exists>y. start_lib_loop ms' r' u' = Some y"
      using less pull_avail [OF x] by simp
    then show ?thesis by (subst start_lib_loop.simps) (auto simp: x)
  qed (subst start_lib_loop.simps, simp)+
qed

text \<open>What a pending archive can still bring into the loop.\<close>

definition unread :: "link_world \<Rightarrow> (string \<Rightarrow> u64 set) \<Rightarrow> string \<Rightarrow> nat" where
  "unread w seen p =
     (case lw_archive w p of None \<Rightarrow> 0
      | Some a \<Rightarrow> 2 * card (index_offsets a - seen p) + Suc (length (ra_members a)))"

lemma unread_mono: "(\<And>q. seen q \<subseteq> seen' q) \<Longrightarrow> unread w seen' p \<le> unread w seen p"
  by (auto simp: unread_def intro!: card_mono split: option.splits)

lemma sum_unread_mono:
  "(\<And>q. seen q \<subseteq> seen' q) \<Longrightarrow> sum_list (map (unread w seen') ps) \<le> sum_list (map (unread w seen) ps)"
  by (intro sum_list_mono unread_mono)

lemma lazy_members_avail: "lazy_members w p ms a = Ok (xs, a') \<Longrightarrow> avail xs \<le> length ms"
  by (induction ms arbitrary: a xs) (fastforce split: option.splits prod.splits elim!: bind_outcome_Ok)+

lemma archive_members_length: "archive_members p ms = Ok xs \<Longrightarrow> length xs = length ms"
  by (induction ms arbitrary: xs) (auto elim!: bind_outcome_Ok)

lemma iter_archive_members_length:
  "iter_archive_members p ra = Ok xs \<Longrightarrow> ra = Some a \<Longrightarrow> length xs \<le> length (ra_members a)"
  by (auto simp: iter_archive_members_def read_archive_def parse_archive_def archive_members_length
      elim!: bind_outcome_Ok split: if_splits option.splits)

definition round_potential :: "link_world \<Rightarrow> archive_round \<Rightarrow> nat" where
  "round_potential w rd =
     sum_list (map (unread w (ar_seen rd)) (ar_next rd @ ar_indexed rd)) + avail (ar_members rd) + ar_parsed rd"

lemma add_members_spec:
  assumes "add_members w p ms rd = Ok rd'"
  shows "avail (ar_members rd') \<le> avail (ar_members rd) + length ms"
    "ar_parsed rd' = Suc (ar_parsed rd)" "ar_seen rd' = ar_seen rd" "ar_next rd' = ar_next rd"
    "ar_indexed rd' = ar_indexed rd"
  using assms by (auto simp: add_members_def elim!: bind_outcome_Ok dest!: lazy_members_avail)

lemma scan_archive_cases:
  assumes "scan_archive w undef p rd = Ok rd'"
  obtains (skip) seen' where "iter_archive_members_matching p (lw_archive w p) (\<lambda>n. n \<in> undef) (ar_seen rd p) = Ok (Some [], seen')"
      "rd' = rd\<lparr>ar_seen := (ar_seen rd)(p := seen'), ar_next := ar_next rd @ [p]\<rparr>"
    | (indexed) ms seen' where "iter_archive_members_matching p (lw_archive w p) (\<lambda>n. n \<in> undef) (ar_seen rd p) = Ok (Some ms, seen')"
      "ms \<noteq> []" "add_members w p ms (rd\<lparr>ar_seen := (ar_seen rd)(p := seen'), ar_indexed := ar_indexed rd @ [p]\<rparr>) = Ok rd'"
    | (full) ms where "iter_archive_members_matching p (lw_archive w p) (\<lambda>n. n \<in> undef) (ar_seen rd p) = Ok (None, ar_seen rd p)"
      "iter_archive_members p (lw_archive w p) = Ok ms" "add_members w p ms rd = Ok rd'"
proof -
  obtain found seen' where f: "iter_archive_members_matching p (lw_archive w p) (\<lambda>n. n \<in> undef) (ar_seen rd p) = Ok (found, seen')"
    using assms by (auto simp: scan_archive_def elim!: bind_outcome_Ok)
  show thesis
  proof (cases found)
    case None
    then have "seen' = ar_seen rd p" using iter_matching_spec(3) [OF f] by simp
    then show thesis using assms f None full by (auto simp: scan_archive_def elim!: bind_outcome_Ok)
  next
    case (Some ms)
    then show thesis using assms f skip indexed by (cases "ms = []") (auto simp: scan_archive_def)
  qed
qed

lemma iter_matching_archive:
  "iter_archive_members_matching p ra P seen = Ok x \<Longrightarrow> \<exists>a. ra = Some a"
  by (auto simp: iter_archive_members_matching_def read_archive_def split: option.splits)

lemma scan_archive_seen: "scan_archive w undef p rd = Ok rd' \<Longrightarrow> ar_seen rd q \<subseteq> ar_seen rd' q"
  by (erule scan_archive_cases) (auto dest!: add_members_spec(3) dest: subsetD [OF iter_matching_spec(1)])

lemma scan_archive_potential:
  assumes "scan_archive w undef p rd = Ok rd'"
  shows "round_potential w rd' \<le> round_potential w rd + unread w (ar_seen rd) p"
  using assms
proof (cases rule: scan_archive_cases)
  case (skip seen')
  have le: "unread w (ar_seen rd') p \<le> unread w (ar_seen rd) p"
    "sum_list (map (unread w (ar_seen rd')) (ar_next rd @ ar_indexed rd))
      \<le> sum_list (map (unread w (ar_seen rd)) (ar_next rd @ ar_indexed rd))"
    by (rule unread_mono sum_unread_mono, rule scan_archive_seen [OF assms])+
  then show ?thesis using skip(2) by (simp add: round_potential_def)
next
  case (indexed ms seen')
  obtain a where a: "lw_archive w p = Some a" using iter_matching_archive [OF indexed(1)] by blast
  note spec = add_members_spec [OF indexed(3)]
  have sp: "ar_seen rd' p = seen'" using spec(3) by simp
  have sub: "ar_seen rd p \<subseteq> seen'" using iter_matching_spec(1) [OF indexed(1)] .
  have new: "seen' - ar_seen rd p \<subseteq> index_offsets a" "card (seen' - ar_seen rd p) = length ms"
    using iter_matching_spec(2) [OF indexed(1) _ a] by auto
  have "index_offsets a - ar_seen rd p = (index_offsets a - seen') \<union> (seen' - ar_seen rd p)" using sub new(1) by auto
  then have "card (index_offsets a - ar_seen rd p) = card (index_offsets a - seen') + length ms"
    using new card_Un_disjoint [of "index_offsets a - seen'" "seen' - ar_seen rd p"] finite_subset [OF new(1)] by auto
  then have un: "unread w (ar_seen rd') p + 2 * length ms = unread w (ar_seen rd) p" using a sp by (simp add: unread_def)
  have "sum_list (map (unread w (ar_seen rd')) (ar_next rd @ ar_indexed rd))
      \<le> sum_list (map (unread w (ar_seen rd)) (ar_next rd @ ar_indexed rd))"
    by (rule sum_unread_mono [OF scan_archive_seen [OF assms]])
  moreover obtain m ms'' where "ms = m # ms''" using indexed(2) by (cases ms) auto
  ultimately show ?thesis using spec un by (simp add: round_potential_def)
next
  case (full ms)
  obtain a where a: "lw_archive w p = Some a" using iter_matching_archive [OF full(1)] by blast
  have "length ms < unread w (ar_seen rd) p" using iter_archive_members_length [OF full(2) a] a by (simp add: unread_def)
  then show ?thesis using add_members_spec [OF full(3)] by (simp add: round_potential_def)
qed

lemma scan_archives_potential:
  "scan_archives w undef ps rd = Ok rd' \<Longrightarrow>
     round_potential w rd' \<le> round_potential w rd + sum_list (map (unread w (ar_seen rd)) ps)"
proof (induction ps arbitrary: rd)
  case (Cons p ps)
  then obtain rd1 where rd1: "scan_archive w undef p rd = Ok rd1" "scan_archives w undef ps rd1 = Ok rd'"
    by (auto elim!: bind_outcome_Ok)
  have "sum_list (map (unread w (ar_seen rd1)) ps) \<le> sum_list (map (unread w (ar_seen rd)) ps)"
    using scan_archive_seen [OF rd1(1)] by (rule sum_unread_mono)
  then show ?case using Cons.IH [OF rd1(2)] scan_archive_potential [OF rd1(1)] by simp
qed simp

definition loop_potential :: "link_world \<Rightarrow> string list \<Rightarrow> (string \<Rightarrow> u64 set) \<Rightarrow> lazy_member list \<Rightarrow> nat" where
  "loop_potential w pending seen members = sum_list (map (unread w seen) pending) + avail members"

lemma archive_pass_potential:
  assumes "archive_pass w pending seen members r undef = Ok (rd, members', r', undef', pulled)"
  shows "loop_potential w (ar_next rd @ ar_indexed rd) (ar_seen rd) members' + pulled + ar_parsed rd
     \<le> loop_potential w pending seen members"
proof -
  have rd: "scan_archives w undef pending (round_start (rv_arena r) members seen) = Ok rd"
    and pl: "pull_lazy_members (ar_members rd) (r\<lparr>rv_arena := ar_arena rd\<rparr>) undef = Ok (members', r', undef', pulled)"
    using assms by (auto simp: archive_pass_def elim!: bind_outcome_Ok)
  show ?thesis
    using scan_archives_potential [OF rd] pull_avail [OF pl]
    by (simp add: round_potential_def loop_potential_def round_start_def)
qed

lemma archive_loop_returns: "\<exists>x. archive_loop w pending seen members r undef = Some x"
proof (induction "loop_potential w pending seen members" arbitrary: pending seen members r undef rule: less_induct)
  case less
  show ?case
  proof (cases "archive_pass w pending seen members r undef")
    case (Ok x)
    then obtain rd ms' r' u' k where x: "archive_pass w pending seen members r undef = Ok (rd, ms', r', u', k)"
      by (cases x) auto
    let ?next = "if k > 0 then ar_next rd @ ar_indexed rd else ar_next rd"
    have "loop_potential w ?next (ar_seen rd) ms' + k + ar_parsed rd \<le> loop_potential w pending seen members"
      using archive_pass_potential [OF x] by (simp add: loop_potential_def)
    then have "\<not> (k = 0 \<and> ar_parsed rd = 0) \<Longrightarrow> \<exists>y. archive_loop w ?next (ar_seen rd) ms' r' u' = Some y"
      by (intro less.hyps) auto
    then show ?thesis by (subst archive_loop.simps) (auto simp: x)
  qed (subst archive_loop.simps, simp)+
qed

lemma and_then_returns: "m \<noteq> None \<Longrightarrow> (\<And>a. f a \<noteq> None) \<Longrightarrow> and_then m f \<noteq> None"
  by (simp add: and_then_def split: option.split outcome.split)

lemma include_loops_return:
  "include_start_lib_members w ps r \<noteq> None" "include_archive_members w ps r \<noteq> None"
  using start_lib_loop_returns archive_loop_returns
  by (auto simp: include_start_lib_members_def include_archive_members_def split: outcome.split)

lemma load_and_resolve_returns: "load_and_resolve w inputs forced \<noteq> None"
  unfolding load_and_resolve_def Let_def
  by (intro and_then_returns include_loops_return option.distinct(2))

text \<open>C7: Loading always returns.  Whatever the inputs and the files, archives that define each
  other's symbols in cycles and archives named many times included, loading and resolving (with the retry without CRT
  objects) ends with a result or an error: each round of member inclusion uses up part of a finite potential.\<close>

theorem load_terminates:
  "\<exists>x. load_and_resolve_with_crt_fallback w inputs injected_crt forced = Some x"
  using load_and_resolve_returns
  by (auto simp: load_and_resolve_with_crt_fallback_def split: option.split outcome.split)

end
