(* ===== verification/Link_Inputs.thy ===== *)
theory Link_Inputs
  imports Link_Args Resolver
begin

text \<open>
  Finding the input files, \<^verbatim>\<open>peony/src/inputs.rs\<close>: the small linker-script reader, the expansion of scripts among the inputs,
  libraries, and the C runtime's start-up objects.  Texts are byte strings and positions are byte positions, as in the source;
  every slice starts and ends next to an ASCII byte, so none of them panics.

  The expansion follows references without remembering where it has been.  It is a \<open>partial_function\<close>, so that not returning
  is a value, and \<open>expand_inputs_returns\<close> says for which inputs it returns.
\<close>

section \<open>Reading directives\<close>

definition is_blank :: "char \<Rightarrow> bool" where
  "is_blank c \<longleftrightarrow> (of_char c :: nat) \<in> {9, 10, 12, 13, 32}"

definition is_word_byte :: "char \<Rightarrow> bool" where
  "is_word_byte c \<longleftrightarrow> is_alnum c \<or> c = CHR ''_''"

definition skip_ws :: "name \<Rightarrow> nat \<Rightarrow> nat" where
  "skip_ws tx i = i + length (takeWhile is_blank (drop i tx))"

fun match_from :: "char \<Rightarrow> char \<Rightarrow> nat \<Rightarrow> nat \<Rightarrow> name \<Rightarrow> nat option" where
  "match_from l r depth i [] = None"
| "match_from l r depth i (c # s) =
     (if c = l then match_from l r (depth + 1) (i + 1) s
      else if c = r then (if depth - 1 = 0 then Some i else match_from l r (depth - 1) (i + 1) s)
      else match_from l r depth (i + 1) s)"

definition matching_delim :: "name \<Rightarrow> nat \<Rightarrow> char \<Rightarrow> char \<Rightarrow> nat option" where
  "matching_delim tx start l r = match_from l r 0 start (drop start tx)"

definition matching_paren :: "name \<Rightarrow> nat \<Rightarrow> nat option" where
  "matching_paren tx start = matching_delim tx start (CHR ''('') (CHR '')'')"

definition matching_brace :: "name \<Rightarrow> nat \<Rightarrow> nat option" where
  "matching_brace tx start = matching_delim tx start (CHR ''{'') (CHR ''}'')"

fun find_before :: "char \<Rightarrow> char \<Rightarrow> nat \<Rightarrow> name \<Rightarrow> nat option" where
  "find_before needle stop i [] = None"
| "find_before needle stop i (c # s) =
     (if c = needle then Some i else if c = stop then None else find_before needle stop (i + 1) s)"

definition find_byte_before :: "name \<Rightarrow> nat \<Rightarrow> char \<Rightarrow> char \<Rightarrow> nat option" where
  "find_byte_before tx start needle stop = find_before needle stop start (drop start tx)"

definition find_from :: "name \<Rightarrow> name \<Rightarrow> nat \<Rightarrow> nat option" where
  "find_from needle tx start = map_option ((+) start) (find_sub needle (drop start tx))"

text \<open>\<^verbatim>\<open>before_ok && after_ok\<close>.\<close>

definition stands_alone :: "name \<Rightarrow> nat \<Rightarrow> nat \<Rightarrow> bool" where
  "stands_alone tx i after \<longleftrightarrow>
     (i = 0 \<or> \<not> is_word_byte (tx ! (i - 1))) \<and> (length tx \<le> after \<or> \<not> is_word_byte (tx ! after))"

definition slice_between :: "name \<Rightarrow> nat \<Rightarrow> nat \<Rightarrow> name" where
  "slice_between tx a b = take (b - a) (drop a tx)"

text \<open>The group that opens at or after \<open>after\<close>: its body and the position after its end.\<close>

definition group_at :: "name \<Rightarrow> nat \<Rightarrow> (name \<times> nat) option" where
  "group_at tx after =
     (let start = skip_ws tx after in
      if start < length tx \<and> tx ! start = CHR ''('' then
        map_option (\<lambda>e. (slice_between tx (start + 1) e, e + 1)) (matching_paren tx start)
      else if start < length tx \<and> tx ! start = CHR ''{'' then
        map_option (\<lambda>e. (slice_between tx (start + 1) e, e + 1)) (matching_brace tx start)
      else None)"

lemma find_from_bound: "find_from needle tx start = Some k \<Longrightarrow> needle \<noteq> [] \<Longrightarrow> start < k + length needle \<and> k + length needle \<le> length tx"
proof -
  assume "find_from needle tx start = Some k" and n: "needle \<noteq> []"
  then obtain i where i: "k = start + i" "find_sub needle (drop start tx) = Some i" by (auto simp: find_from_def)
  obtain r where "drop i (drop start tx) = needle @ r" using find_sub_Some [OF i(2)] by blast
  then have "length (drop i (drop start tx)) = length needle + length r" by simp
  moreover have "0 < length needle" using n by simp
  ultimately show ?thesis using i(1) unfolding length_drop by linarith
qed

text \<open>The searches below go on after the keyword.  An empty keyword, which no caller passes, would not get past itself.\<close>

function script_token_from :: "name \<Rightarrow> name \<Rightarrow> nat \<Rightarrow> bool" where
  "script_token_from tx token search =
     (case find_from token tx search of
        Some k \<Rightarrow>
          if token = [] then False
          else if stands_alone tx k (k + length token) then True
          else script_token_from tx token (k + length token)
      | None \<Rightarrow> False)"
  by auto
termination
proof (relation "measure (\<lambda>(tx, token, search). length tx - search)")
  fix tx token :: name and search k
  assume "find_from token tx search = Some k" "token \<noteq> []"
  then show "((tx, token, k + length token), tx, token, search) \<in> measure (\<lambda>(tx, token, search). length tx - search)"
    using find_from_bound [of token tx search k] by (auto intro!: diff_less_mono2)
qed simp

declare script_token_from.simps [simp del]

definition script_has_token :: "name \<Rightarrow> name \<Rightarrow> bool" where
  "script_has_token tx token = script_token_from tx token 0"

function directive_body_with_pos :: "name \<Rightarrow> name \<Rightarrow> nat \<Rightarrow> (nat \<times> name \<times> nat) option" where
  "directive_body_with_pos tx keyword search =
     (case find_from keyword tx search of
        Some k \<Rightarrow>
          if keyword = [] then None
          else let after = k + length keyword in
            (case (if stands_alone tx k after then group_at tx after else None) of
               Some (body, e) \<Rightarrow> Some (k, body, e)
             | None \<Rightarrow> directive_body_with_pos tx keyword after)
      | None \<Rightarrow> None)"
  by auto
termination
proof (relation "measure (\<lambda>(tx, keyword, search). length tx - search)")
  fix tx keyword :: name and search k after
  assume "find_from keyword tx search = Some k" "keyword \<noteq> []" "after = k + length keyword"
  then show "((tx, keyword, after), tx, keyword, search) \<in> measure (\<lambda>(tx, keyword, search). length tx - search)"
    using find_from_bound [of keyword tx search k] by (auto intro!: diff_less_mono2)
qed simp

declare directive_body_with_pos.simps [simp del]

definition directive_body :: "name \<Rightarrow> name \<Rightarrow> nat \<Rightarrow> (name \<times> nat) option" where
  "directive_body tx keyword start = map_option snd (directive_body_with_pos tx keyword start)"

definition directive_arg :: "name \<Rightarrow> name \<Rightarrow> name option" where
  "directive_arg tx keyword = map_option (\<lambda>(body, _). trim body) (directive_body tx keyword 0)"

lemma match_from_bound: "match_from l r d i s = Some e \<Longrightarrow> i \<le> e \<and> e < i + length s"
  by (induction l r d i s rule: match_from.induct) (fastforce split: if_splits)+

lemma matching_bound: "matching_delim tx start l r = Some e \<Longrightarrow> start \<le> e \<and> e < length tx"
  using match_from_bound [of l r 0 start "drop start tx" e] by (auto simp: matching_delim_def)

lemma group_at_bound: "group_at tx after = Some (body, e) \<Longrightarrow> after < e \<and> e \<le> length tx"
  using matching_bound
  by (fastforce simp: group_at_def Let_def skip_ws_def matching_paren_def matching_brace_def split: if_splits)

lemma directive_bound: "directive_body_with_pos tx keyword search = Some (k, body, e) \<Longrightarrow> search < e \<and> e \<le> length tx"
proof (induction tx keyword search rule: directive_body_with_pos.induct)
  case (1 tx keyword search)
  obtain k' where k': "find_from keyword tx search = Some k'" "keyword \<noteq> []"
    using 1(2) by (subst (asm) directive_body_with_pos.simps) (auto split: option.splits if_splits)
  let ?after = "k' + length keyword"
  have a: "search < ?after" using find_from_bound [OF k'] by simp
  show ?case
  proof (cases "if stands_alone tx k' ?after then group_at tx ?after else None")
    case None
    then have "directive_body_with_pos tx keyword ?after = Some (k, body, e)"
      using 1(2) k' by (subst (asm) directive_body_with_pos.simps) (simp add: Let_def)
    then show ?thesis using 1(1) [OF k' refl None] a by simp
  next
    case (Some x)
    then have "group_at tx ?after = Some (body, e)"
      using 1(2) k' by (subst (asm) directive_body_with_pos.simps) (auto simp: Let_def split: if_splits)
    then show ?thesis using group_at_bound a by fastforce
  qed
qed

section \<open>References\<close>

text \<open>The first of the candidates that starts earliest (\<^verbatim>\<open>min_by_key\<close>).\<close>

fun earliest :: "(nat \<times> 'a) list \<Rightarrow> (nat \<times> 'a) option" where
  "earliest [] = None"
| "earliest (x # xs) = (case earliest xs of Some y \<Rightarrow> Some (if fst y < fst x then y else x) | None \<Rightarrow> Some x)"

definition next_ref_directive_body :: "name \<Rightarrow> nat \<Rightarrow> (name \<times> nat) option" where
  "next_ref_directive_body tx start =
     map_option snd (earliest (List.map_filter (\<lambda>keyword. directive_body_with_pos tx keyword start)
       [''GROUP'', ''INPUT'', ''AS_NEEDED'']))"

definition trim_matches :: "char \<Rightarrow> name \<Rightarrow> name" where
  "trim_matches c s = rev (dropWhile (\<lambda>x. x = c) (rev (dropWhile (\<lambda>x. x = c) s)))"

definition is_ref_token :: "name \<Rightarrow> bool" where
  "is_ref_token t \<longleftrightarrow>
     t \<notin> {''GROUP'', ''INPUT'', ''AS_NEEDED'', ''/DISCARD/''} \<and>
     (starts_with t ''-l'' \<or> contains_str t ''/'' \<or> ends_with t ''.o'' \<or> ends_with t ''.a'' \<or> contains_str t ''.so'')"

definition parse_ref_tokens :: "name \<Rightarrow> name list" where
  "parse_ref_tokens tx =
     filter is_ref_token (map (\<lambda>t. trim_matches (CHR 0x27) (trim_matches (CHR 0x22) t)) (split_whitespace (blank_out (set ''(),'') tx)))"

definition push_new :: "'a \<Rightarrow> 'a list \<Rightarrow> 'a list" where
  "push_new r rs = (if r \<in> set rs then rs else rs @ [r])"

lemma earliest_mem: "earliest xs = Some x \<Longrightarrow> x \<in> set xs"
  by (induction xs arbitrary: x) (auto split: option.splits if_splits)

lemma next_ref_bound: "next_ref_directive_body tx start = Some (body, e) \<Longrightarrow> start < e \<and> e \<le> length tx"
  unfolding next_ref_directive_body_def map_option_eq_Some
  by (auto simp del: List.map_filter_simps simp: in_map_filter dest!: earliest_mem directive_bound)

function script_refs_from :: "name \<Rightarrow> nat \<Rightarrow> name list \<Rightarrow> name list" where
  "script_refs_from tx pos refs =
     (case next_ref_directive_body tx pos of
        Some (body, e) \<Rightarrow> script_refs_from tx e (fold push_new (parse_ref_tokens body) refs)
      | None \<Rightarrow> refs)"
  by auto
termination
  by (relation "measure (\<lambda>(tx, pos, refs). length tx - pos)") (auto dest!: sym [of "Some _"] next_ref_bound)

declare script_refs_from.simps [simp del]

definition extract_script_refs :: "name \<Rightarrow> name list" where
  "extract_script_refs tx = script_refs_from tx 0 []"

section \<open>Layout scripts\<close>

definition section_patterns :: "name \<Rightarrow> name list" where
  "section_patterns body =
     fold push_new (filter (\<lambda>t. starts_with t ''.'') (split_whitespace (blank_out (set (''(){};,:'' @ [CHR 0x22])) body))) []"

function keep_patterns_from :: "name \<Rightarrow> nat \<Rightarrow> name list \<Rightarrow> name list" where
  "keep_patterns_from body pos out =
     (case directive_body body ''KEEP'' pos of
        Some (keep_body, e) \<Rightarrow> keep_patterns_from body e (fold push_new (section_patterns keep_body) out)
      | None \<Rightarrow> out)"
  by auto
termination
  by (relation "measure (\<lambda>(body, pos, out). length body - pos)")
     (auto simp: directive_body_def dest!: sym [of "Some _"] directive_bound)

declare keep_patterns_from.simps [simp del]

definition keep_patterns :: "name \<Rightarrow> name list" where
  "keep_patterns body = keep_patterns_from body 0 []"

definition add_script_section :: "name \<Rightarrow> name \<Rightarrow> script_layout \<Rightarrow> script_layout" where
  "add_script_section n body lay =
     (if n = [] \<or> n = ''/DISCARD/'' then lay
      else let pats = section_patterns body in
        lay\<lparr>sl_keep_patterns := sl_keep_patterns lay @ keep_patterns body,
            sl_output_sections := sl_output_sections lay @
              [\<lparr>so_name = n, so_patterns = (if pats = [] then [n] else pats)\<rparr>]\<rparr>)"

definition past :: "(char \<Rightarrow> bool) \<Rightarrow> name \<Rightarrow> nat \<Rightarrow> nat" where
  "past P body i = i + length (takeWhile P (drop i body))"

text \<open>One turn of the loop: the position it goes on from and the layout; no position means that the loop ends.\<close>

definition sections_step :: "name \<Rightarrow> nat \<Rightarrow> script_layout \<Rightarrow> nat option \<times> script_layout" where
  "sections_step body i lay =
     (let s = past (\<lambda>c. is_blank c \<or> c = CHR '';'') body i in
      if length body \<le> s then (None, lay)
      else if body ! s \<noteq> CHR ''.'' \<and> body ! s \<noteq> CHR ''/'' then (Some (s + 1), lay)
      else let e = past (\<lambda>c. \<not> is_blank c \<and> c \<notin> set '':{;'') body s; n = trim (slice_between body s e); j = skip_ws body e in
        if n = ''.'' \<and> j < length body \<and> body ! j = CHR ''='' then
          (Some (case find_from '';'' body j of Some k \<Rightarrow> k + 1 | None \<Rightarrow> length body), lay)
        else (case find_byte_before body j (CHR '':'') (CHR '';'') of
            None \<Rightarrow> (Some (e + 1), lay)
          | Some colon \<Rightarrow>
              (case find_from ''{'' body (colon + 1) of
                 None \<Rightarrow> (Some (colon + 1), lay)
               | Some start \<Rightarrow>
                   (case matching_brace body start of
                      None \<Rightarrow> (None, lay)
                    | Some close \<Rightarrow> (Some (close + 1), add_script_section n (slice_between body (start + 1) close) lay)))))"

lemma past_le: "i \<le> past P body i"
  by (simp add: past_def)

lemma past_more: "i < length body \<Longrightarrow> P (body ! i) \<Longrightarrow> i < past P body i"
  by (simp add: past_def Cons_nth_drop_Suc [symmetric])

lemma find_before_bound: "find_before needle stop i s = Some k \<Longrightarrow> i \<le> k"
  by (induction s arbitrary: i) (fastforce split: if_splits)+

lemma find_from_ge: "find_from needle body start = Some k \<Longrightarrow> start \<le> k"
  by (auto simp: find_from_def)

lemma sections_step_bound:
  assumes "sections_step body i lay = (Some i', lay')" "i < length body"
  shows "i < i'"
proof -
  define name_byte where "name_byte = (\<lambda>c. \<not> is_blank c \<and> c \<notin> set '':{;'')"
  define s where "s = past (\<lambda>c. is_blank c \<or> c = CHR '';'') body i"
  define e where "e = past name_byte body s"
  define j where "j = skip_ws body e"
  define n where "n = trim (slice_between body s e)"
  have le: "i \<le> s" "s \<le> e" "e \<le> j" by (simp_all add: s_def e_def j_def past_le skip_ws_def)
  have step: "(if length body \<le> s then (None, lay)
      else if body ! s \<noteq> CHR ''.'' \<and> body ! s \<noteq> CHR ''/'' then (Some (s + 1), lay)
      else if n = ''.'' \<and> j < length body \<and> body ! j = CHR ''='' then
          (Some (case find_from '';'' body j of Some k \<Rightarrow> k + 1 | None \<Rightarrow> length body), lay)
        else (case find_byte_before body j (CHR '':'') (CHR '';'') of
            None \<Rightarrow> (Some (e + 1), lay)
          | Some colon \<Rightarrow>
              (case find_from ''{'' body (colon + 1) of
                 None \<Rightarrow> (Some (colon + 1), lay)
               | Some start \<Rightarrow>
                   (case matching_brace body start of
                      None \<Rightarrow> (None, lay)
                    | Some close \<Rightarrow> (Some (close + 1), add_script_section n (slice_between body (start + 1) close) lay))))) = (Some i', lay')"
    using assms(1) unfolding sections_step_def Let_def s_def e_def j_def n_def name_byte_def .
  have colon: "j \<le> k" if "find_byte_before body j (CHR '':'') (CHR '';'') = Some k" for k
    using that find_before_bound by (simp add: find_byte_before_def)
  have close: "start \<le> k" if "matching_brace body start = Some k" for start k
    using that matching_bound by (simp add: matching_brace_def)
  show ?thesis
    using step le colon close assms(2)
    by (fastforce split: if_splits option.splits dest: find_from_ge simp del: split_paired_All)
qed

function parse_sections_from :: "name \<Rightarrow> nat \<Rightarrow> script_layout \<Rightarrow> script_layout" where
  "parse_sections_from body i lay =
     (if length body \<le> i then lay
      else case sections_step body i lay of
        (Some i', lay') \<Rightarrow> parse_sections_from body i' lay'
      | (None, lay') \<Rightarrow> lay')"
  by auto
termination
  by (relation "measure (\<lambda>(body, i, lay). length body - i)") (auto dest!: sym [of "(Some _, _)"] sections_step_bound)

declare parse_sections_from.simps [simp del]

definition parse_sections_layout :: "name \<Rightarrow> script_layout" where
  "parse_sections_layout tx =
     (let lay = \<lparr>sl_output_sections = [], sl_keep_patterns = []\<rparr> in
      case directive_body tx ''SECTIONS'' 0 of
        None \<Rightarrow> lay
      | Some (body, _) \<Rightarrow> parse_sections_from body 0 lay)"

fun first_number_token :: "name \<Rightarrow> name option" where
  "first_number_token [] = None"
| "first_number_token (c # s) =
     (if is_digit c
      then Some (c # takeWhile (\<lambda>x. (case digit_value x of Some d \<Rightarrow> d < 16 | None \<Rightarrow> False) \<or> x = CHR ''x'' \<or> x = CHR ''X'') s)
      else first_number_token s)"

fun base_address_from :: "name \<Rightarrow> name option" where
  "base_address_from [] = None"
| "base_address_from (c # s) =
     (let s1 = dropWhile is_blank s in
      case (if c = CHR ''.'' \<and> starts_with s1 ''=''
            then first_number_token (trim (takeWhile (\<lambda>x. x \<noteq> CHR '';'') (dropWhile is_blank (tl s1)))) else None) of
        Some n \<Rightarrow> Some n
      | None \<Rightarrow> base_address_from s)"

definition script_base_address :: "name \<Rightarrow> name option" where
  "script_base_address tx = Option.bind (directive_body tx ''SECTIONS'' 0) (\<lambda>(body, _). base_address_from body)"

definition unsupported_directives :: "name list" where
  "unsupported_directives =
     [''PROVIDE'', ''ASSERT'', ''PHDRS'', ''MEMORY'', ''SORT'', ''OVERLAY'', ''DATA_SEGMENT_RELRO_END'', ''DATA_SEGMENT_ALIGN'',
      ''INCLUDE'', ''OUTPUT_FORMAT'', ''OUTPUT_ARCH'']"

definition reject_unsupported_linker_script :: "name \<Rightarrow> string \<Rightarrow> (option_error, unit) outcome" where
  "reject_unsupported_linker_script tx p =
     (case find (script_has_token tx) unsupported_directives of
        Some d \<Rightarrow> Err (UnsupportedDirective p d)
      | None \<Rightarrow> Ok ())"

record script_controls =
  sc_entry :: "name option"
  sc_base_address :: "name option"
  sc_layout :: script_layout

definition merge_controls :: "name \<Rightarrow> script_controls \<Rightarrow> script_controls" where
  "merge_controls tx sc =
     (let lay = parse_sections_layout tx; old = sc_layout sc in
      \<lparr>sc_entry = (case directive_arg tx ''ENTRY'' of Some e \<Rightarrow> Some e | None \<Rightarrow> sc_entry sc),
       sc_base_address = (case script_base_address tx of Some b \<Rightarrow> Some b | None \<Rightarrow> sc_base_address sc),
       sc_layout = \<lparr>sl_output_sections = sl_output_sections old @ sl_output_sections lay,
                    sl_keep_patterns = sl_keep_patterns old @ sl_keep_patterns lay\<rparr>\<rparr>)"

fun controls_from :: "text_files \<Rightarrow> string list \<Rightarrow> script_controls \<Rightarrow> (option_error, script_controls) outcome" where
  "controls_from fs [] sc = Ok sc"
| "controls_from fs (p # ps) sc =
     (case fs p of
        None \<Rightarrow> Err (UnreadableText p)
      | Some data \<Rightarrow>
          (let tx = strip_block_comments (from_utf8_lossy data) in
           bind_outcome (reject_unsupported_linker_script tx p) (\<lambda>_. controls_from fs ps (merge_controls tx sc))))"

definition parse_linker_script_controls :: "text_files \<Rightarrow> string list \<Rightarrow> (option_error, script_controls) outcome" where
  "parse_linker_script_controls fs ps =
     controls_from fs ps \<lparr>sc_entry = None, sc_base_address = None,
                          sc_layout = \<lparr>sl_output_sections = [], sl_keep_patterns = []\<rparr>\<rparr>"

section \<open>Paths and files\<close>

text \<open>What the code asks of its environment: file contents, whether a path exists or is a directory, \<^verbatim>\<open>canonicalize\<close>, the output of
  \<^verbatim>\<open>gcc -print-search-dirs\<close> and of \<^verbatim>\<open>gcc -print-file-name\<close>.\<close>

record link_host =
  ho_files :: text_files
  ho_exists :: "string \<Rightarrow> bool"
  ho_is_dir :: "string \<Rightarrow> bool"
  ho_canonicalize :: "string \<Rightarrow> string option"
  ho_search_dirs :: "name option"
  ho_file_name :: "name \<Rightarrow> name option"

definition is_absolute :: "string \<Rightarrow> bool" where
  "is_absolute p \<longleftrightarrow> starts_with p ''/''"

definition path_join :: "string \<Rightarrow> string \<Rightarrow> string" where
  "path_join d p = (if is_absolute p \<or> d = [] then p else if ends_with d ''/'' then d @ p else d @ ''/'' @ p)"

text \<open>\<^verbatim>\<open>Path::parent\<close>: the path without its last component; the root and the empty path have none.\<close>

definition path_parent :: "string \<Rightarrow> string option" where
  "path_parent p =
     (let q = path_core (rev p) in
      if q = [] then None
      else let d = dropWhile (\<lambda>c. c \<noteq> CHR ''/'') q; core = rev (path_core d) in
        Some (if core = [] \<and> d \<noteq> [] then ''/'' else core))"

definition library_file :: "name \<Rightarrow> name \<Rightarrow> string" where
  "library_file n ext = ''lib'' @ n @ ''.'' @ ext"

definition resolve_script_ref :: "link_host \<Rightarrow> name \<Rightarrow> string option \<Rightarrow> string list \<Rightarrow> string option" where
  "resolve_script_ref ho r dir search =
     (case strip_prefix ''-l'' r of
        Some n \<Rightarrow> find (ho_exists ho) (concat (map (\<lambda>d. map (\<lambda>ext. path_join d (library_file n ext)) [''so'', ''a'']) search))
      | None \<Rightarrow>
          if is_absolute r \<and> ho_exists ho r then Some r
          else (case find (ho_exists ho) (case dir of Some d \<Rightarrow> [path_join d r] | None \<Rightarrow> []) of
              Some q \<Rightarrow> Some q
            | None \<Rightarrow> find (ho_exists ho) (map (\<lambda>d. path_join d r) search)))"

section \<open>Expanding scripts\<close>

definition name_bytes :: "name \<Rightarrow> bytes" where
  "name_bytes s = map of_char s"

definition classify_file :: "text_files \<Rightarrow> string \<Rightarrow> file_kind" where
  "classify_file fs p = (case fs p of None \<Rightarrow> Bare | Some data \<Rightarrow> classify_bytes (take 20 (name_bytes data)))"

definition is_linker_script :: "text_files \<Rightarrow> string \<Rightarrow> bool" where
  "is_linker_script fs p =
     (case fs p of
        None \<Rightarrow> False
      | Some data \<Rightarrow>
          (let head = take 8 (name_bytes data) in
           if starts_with head [0x7f, 0x45, 0x4c, 0x46] \<or> starts_with head (ascii ''!<arch>'' @ [10]) \<or>
              starts_with head (ascii ''!<thin>'' @ [10])
           then False
           else list_ex (contains_str (from_utf8_lossy data)) [''GROUP'', ''INPUT'', ''AS_NEEDED'', ''SECTIONS'', ''ENTRY'']))"

definition parse_linker_script :: "text_files \<Rightarrow> string \<Rightarrow> (option_error, name list) outcome" where
  "parse_linker_script fs p =
     (case fs p of
        None \<Rightarrow> Err (UnreadableText p)
      | Some data \<Rightarrow> Ok (extract_script_refs (strip_block_comments (from_utf8_lossy data))))"

definition script_inputs :: "link_host \<Rightarrow> string list \<Rightarrow> resolved_input \<Rightarrow> name list \<Rightarrow> resolved_input list" where
  "script_inputs ho search x refs =
     List.map_filter (\<lambda>r. map_option (\<lambda>p. x\<lparr>ri_path := p\<rparr>)
       (resolve_script_ref ho r (path_parent (ri_path x)) search)) refs"

text \<open>Whether an input is passed on as it is.\<close>

definition passes_on :: "text_files \<Rightarrow> string \<Rightarrow> bool" where
  "passes_on fs p \<longleftrightarrow> classify_file fs p = Archive \<or> \<not> is_linker_script fs p"

partial_function (option) expand_loop ::
  "link_host \<Rightarrow> string list \<Rightarrow> resolved_input list \<Rightarrow> resolved_input list \<Rightarrow> (option_error, resolved_input list) outcome option" where
  "expand_loop ho search out work =
     (if work = [] then Some (Ok out)
      else if passes_on (ho_files ho) (ri_path (hd work)) then expand_loop ho search (out @ [hd work]) (tl work)
      else case parse_linker_script (ho_files ho) (ri_path (hd work)) of
          Ok refs \<Rightarrow> expand_loop ho search out (tl work @ script_inputs ho search (hd work) refs)
        | Err e \<Rightarrow> Some (Err e)
        | Panic \<Rightarrow> Some Panic)"

definition expand_inputs ::
  "link_host \<Rightarrow> string list \<Rightarrow> resolved_input list \<Rightarrow> (option_error, resolved_input list) outcome option" where
  "expand_inputs ho search inputs = expand_loop ho search [] inputs"

section \<open>Libraries and start-up objects\<close>

datatype input_error = NoInputFiles | LibraryNotFound name

definition mode_extensions :: "library_mode \<Rightarrow> name list" where
  "mode_extensions mode = (case mode of Any \<Rightarrow> [''so'', ''a''] | Static \<Rightarrow> [''a''] | Dynamic \<Rightarrow> [''so'', ''a''])"

definition resolve_library :: "link_host \<Rightarrow> name \<Rightarrow> library_mode \<Rightarrow> string list \<Rightarrow> (input_error, string) outcome" where
  "resolve_library ho n mode search =
     (case find (ho_exists ho) (concat (map (\<lambda>d. map (\<lambda>ext. path_join d (library_file n ext)) (mode_extensions mode)) search)) of
        Some p \<Rightarrow> Ok p
      | None \<Rightarrow> Err (LibraryNotFound n))"

fun resolve_specs :: "link_host \<Rightarrow> string list \<Rightarrow> link_spec list \<Rightarrow> (input_error, resolved_input list) outcome" where
  "resolve_specs ho search [] = Ok []"
| "resolve_specs ho search (spec # specs) =
     bind_outcome
       (case lk_kind spec of
          Path p \<Rightarrow> Ok p
        | Library n \<Rightarrow> resolve_library ho n (lk_library_mode spec) search)
       (\<lambda>p. bind_outcome (resolve_specs ho search specs) (\<lambda>xs.
          Ok (\<lparr>ri_path = p, ri_whole_archive = lk_whole_archive spec, ri_as_needed = lk_as_needed spec,
               ri_start_lib_member = lk_start_lib_member spec\<rparr> # xs)))"

definition gcc_library_dirs :: "link_host \<Rightarrow> string list" where
  "gcc_library_dirs ho =
     (case ho_search_dirs ho of
        None \<Rightarrow> []
      | Some out \<Rightarrow>
          (case List.map_filter (strip_prefix ''libraries:'') (text_lines (from_utf8_lossy out)) of
             [] \<Rightarrow> []
           | rest # _ \<Rightarrow>
               map (\<lambda>p. case ho_canonicalize ho p of Some c \<Rightarrow> c | None \<Rightarrow> p)
                 (filter (\<lambda>s. s \<noteq> []) (split_at CHR '':'' (dropWhile (\<lambda>c. c = CHR ''='') (trim_start rest))))))"

definition system_dirs :: "string list" where
  "system_dirs =
     [''/usr/lib/x86_64-linux-gnu'', ''/usr/lib64'', ''/lib/x86_64-linux-gnu'', ''/lib64'', ''/usr/lib'', ''/lib'']"

definition library_search_paths :: "link_host \<Rightarrow> string list \<Rightarrow> string list" where
  "library_search_paths ho explicit =
     fold (\<lambda>p out. if ho_is_dir ho p \<and> p \<notin> set out then out @ [p] else out) (gcc_library_dirs ho @ system_dirs) explicit"

definition resolve_inputs :: "link_host \<Rightarrow> link_args \<Rightarrow> (input_error, resolved_input list) outcome" where
  "resolve_inputs ho a =
     bind_outcome (resolve_specs ho (library_search_paths ho (arg_library_paths a)) (arg_link_specs a))
       (\<lambda>xs. if xs = [] then Err NoInputFiles else Ok xs)"

definition find_crt :: "link_host \<Rightarrow> name \<Rightarrow> string option" where
  "find_crt ho n =
     (case find (ho_exists ho) (map (\<lambda>d. path_join d n) (gcc_library_dirs ho)) of
        Some p \<Rightarrow> Some p
      | None \<Rightarrow>
          (case ho_file_name ho n of
             None \<Rightarrow> None
           | Some out \<Rightarrow>
               (let p = trim (from_utf8_lossy out) in if is_absolute p \<and> ho_exists ho p then Some p else None)))"

definition plain_input :: "string \<Rightarrow> resolved_input" where
  "plain_input p = \<lparr>ri_path = p, ri_whole_archive = False, ri_as_needed = False, ri_start_lib_member = False\<rparr>"

definition crt_given :: "resolved_input list \<Rightarrow> bool" where
  "crt_given inputs \<longleftrightarrow> list_ex (\<lambda>x. file_name (ri_path x) \<in> Some ` {''Scrt1.o'', ''crt1.o'', ''rcrt1.o''}) inputs"

definition inject_crt_objects :: "link_host \<Rightarrow> resolved_input list \<Rightarrow> link_args \<Rightarrow> resolved_input list \<times> string list" where
  "inject_crt_objects ho inputs a =
     (if crt_given inputs \<or> \<not> arg_pie a \<or> arg_no_crt a then (inputs, [])
      else (let scrt1 = (if arg_pie a then ''Scrt1.o'' else ''crt1.o'');
                (b, e) = (if arg_pie a then (''crtbeginS.o'', ''crtendS.o'') else (''crtbegin.o'', ''crtend.o'')) in
        case (find_crt ho scrt1, find_crt ho ''crti.o'', find_crt ho b, find_crt ho e, find_crt ho ''crtn.o'') of
          (Some c1, Some ci, Some cb, Some ce, Some cn) \<Rightarrow>
            (map plain_input [c1, ci, cb] @ inputs @ map plain_input [ce, cn], [c1, ci, cb, ce, cn])
        | _ \<Rightarrow> (inputs, [])))"

section \<open>When the expansion returns\<close>

text \<open>The files a file leads to, and the relation the expansion follows.\<close>

definition script_children :: "link_host \<Rightarrow> string list \<Rightarrow> string \<Rightarrow> string list" where
  "script_children ho search p =
     (if passes_on (ho_files ho) p then []
      else case parse_linker_script (ho_files ho) p of
        Ok refs \<Rightarrow> List.map_filter (\<lambda>r. resolve_script_ref ho r (path_parent p) search) refs
      | _ \<Rightarrow> [])"

definition script_refers :: "link_host \<Rightarrow> string list \<Rightarrow> (string \<times> string) set" where
  "script_refers ho search = {(q, p). q \<in> set (script_children ho search p)}"

lemma script_readable: "\<not> passes_on fs p \<Longrightarrow> \<exists>refs. parse_linker_script fs p = Ok refs"
  by (auto simp: passes_on_def is_linker_script_def parse_linker_script_def split: option.splits)

lemma script_inputs_paths:
  "\<not> passes_on (ho_files ho) (ri_path x) \<Longrightarrow> parse_linker_script (ho_files ho) (ri_path x) = Ok refs \<Longrightarrow>
     map ri_path (script_inputs ho search x refs) = script_children ho search (ri_path x)"
  unfolding script_children_def script_inputs_def
  by (induction refs) (auto simp: List.map_filter_def)

text \<open>The relation, restricted to where it is well founded.\<close>

lemma wf_below_acc: "wf {(q, p). (q, p) \<in> r \<and> p \<in> Wellfounded.acc r}"
proof (rule wfUNIVI)
  fix P :: "'a \<Rightarrow> bool" and x
  assume step: "\<forall>x. (\<forall>y. (y, x) \<in> {(q, p). (q, p) \<in> r \<and> p \<in> Wellfounded.acc r} \<longrightarrow> P y) \<longrightarrow> P x"
  have "P x" if "x \<in> Wellfounded.acc r" for x
    using that by (induction rule: acc.induct) (use step in blast)
  then show "P x" using step by blast
qed

lemma expand_loop_passes:
  "passes_on (ho_files ho) (ri_path x) \<Longrightarrow> expand_loop ho search out (x # rest) = expand_loop ho search (out @ [x]) rest"
  by (subst expand_loop.simps) simp

lemma expand_loop_script:
  "\<not> passes_on (ho_files ho) (ri_path x) \<Longrightarrow> parse_linker_script (ho_files ho) (ri_path x) = Ok refs \<Longrightarrow>
     expand_loop ho search out (x # rest) = expand_loop ho search out (rest @ script_inputs ho search x refs)"
  by (subst expand_loop.simps) simp

lemma expand_loop_returns:
  assumes "\<forall>x \<in> set work. ri_path x \<in> Wellfounded.acc (script_refers ho search)"
  shows "\<exists>res. expand_loop ho search out work = Some (Ok res)"
proof -
  let ?r = "script_refers ho search"
  let ?below = "{(q, p). (q, p) \<in> ?r \<and> p \<in> Wellfounded.acc ?r}"
  have "wf (mult ?below)" by (rule wf_mult [OF wf_below_acc])
  then show ?thesis using assms
  proof (induction "mset (map ri_path work)" arbitrary: work out rule: wf_induct_rule)
    case less
    show ?case
    proof (cases work)
      case Nil
      then show ?thesis by (subst expand_loop.simps) simp
    next
      case (Cons x rest)
      have acc: "ri_path x \<in> Wellfounded.acc ?r" "\<forall>y \<in> set rest. ri_path y \<in> Wellfounded.acc ?r" using less(2) Cons by auto
      have smaller: "(mset (map ri_path (rest @ ys)), mset (map ri_path work)) \<in> mult ?below"
        if "\<forall>y \<in> set ys. (ri_path y, ri_path x) \<in> ?r" for ys
      proof -
        have "(mset (map ri_path rest) + mset (map ri_path ys), mset (map ri_path rest) + {#ri_path x#}) \<in> mult ?below"
          by (rule one_step_implies_mult) (use that acc(1) in auto)
        then show ?thesis by (simp add: Cons)
      qed
      show ?thesis
      proof (cases "passes_on (ho_files ho) (ri_path x)")
        case True
        then show ?thesis using less(1) [of rest] smaller [of "[]"] acc(2) by (simp add: Cons expand_loop_passes)
      next
        case False
        then obtain refs where refs: "parse_linker_script (ho_files ho) (ri_path x) = Ok refs" using script_readable by blast
        let ?ys = "script_inputs ho search x refs"
        have "ri_path ` set ?ys = set (script_children ho search (ri_path x))"
          using script_inputs_paths [OF False refs, of search] by (metis set_map)
        then have ys: "\<forall>y \<in> set ?ys. (ri_path y, ri_path x) \<in> ?r" by (auto simp: script_refers_def)
        then have "\<forall>y \<in> set ?ys. ri_path y \<in> Wellfounded.acc ?r" using acc(1) acc_downward by metis
        then show ?thesis
          using less(1) [OF smaller [OF ys]] acc(2) by (simp add: Cons expand_loop_script [OF False refs] ball_Un)
      qed
    qed
  qed
qed

lemma expand_loop_acc:
  assumes "expand_loop ho search out work = Some res"
  shows "\<forall>x \<in> set work. ri_path x \<in> Wellfounded.acc (script_refers ho search)"
proof (rule expand_loop.raw_induct [OF _ assms, where
      P = "\<lambda>ho search out work res. \<forall>x \<in> set work. ri_path x \<in> Wellfounded.acc (script_refers ho search)"], intro ballI)
  fix f ho search out work res x
  assume IH: "\<And>ho search out work res. f ho search out work = Some res \<Longrightarrow>
        \<forall>x \<in> set work. ri_path x \<in> Wellfounded.acc (script_refers ho search)"
    and x: "x \<in> set work"
    and b: "(if work = [] then Some (Ok out)
      else if passes_on (ho_files ho) (ri_path (hd work)) then f ho search (out @ [hd work]) (tl work)
      else case parse_linker_script (ho_files ho) (ri_path (hd work)) of
          Ok refs \<Rightarrow> f ho search out (tl work @ script_inputs ho search (hd work) refs)
        | Err e \<Rightarrow> Some (Err e)
        | Panic \<Rightarrow> Some Panic) = Some res"
  obtain w rest where work: "work = w # rest" using x by (cases work) auto
  let ?acc = "Wellfounded.acc (script_refers ho search)"
  show "ri_path x \<in> ?acc"
  proof (cases "passes_on (ho_files ho) (ri_path w)")
    case True
    then have "f ho search (out @ [w]) rest = Some res" using b by (simp add: work)
    from IH [OF this] have "\<forall>x \<in> set rest. ri_path x \<in> ?acc" .
    moreover have "ri_path w \<in> ?acc" by (rule accI) (simp add: True script_refers_def script_children_def)
    ultimately show ?thesis using x by (auto simp: work)
  next
    case False
    then obtain refs where refs: "parse_linker_script (ho_files ho) (ri_path w) = Ok refs" using script_readable by blast
    then have "f ho search out (rest @ script_inputs ho search w refs) = Some res" using b False by (simp add: work)
    from IH [OF this] have all: "\<forall>x \<in> set (rest @ script_inputs ho search w refs). ri_path x \<in> ?acc" .
    have "set (script_children ho search (ri_path w)) = ri_path ` set (script_inputs ho search w refs)"
      using script_inputs_paths [OF False refs, of search] by (metis set_map)
    then have refers: "y \<in> ?acc" if "(y, ri_path w) \<in> script_refers ho search" for y
      using that all by (auto simp: script_refers_def)
    have "ri_path w \<in> ?acc" by (rule accI) (rule refers)
    then show ?thesis using x all by (auto simp: work)
  qed
qed

text \<open>@C@expand_inputs_returns The expansion of the inputs returns exactly when no input starts an infinite chain of script
  references, and then it succeeds.  A script that refers to itself, directly or through others, makes the linker loop.\<close>

theorem expand_inputs_returns:
  "(\<exists>res. expand_inputs ho search inputs = Some res) \<longleftrightarrow>
     (\<forall>x \<in> set inputs. ri_path x \<in> Wellfounded.acc (script_refers ho search))"
  using expand_loop_returns [of inputs ho search "[]"] expand_loop_acc [of ho search "[]" inputs]
  unfolding expand_inputs_def by blast

definition script_demo :: link_host where
  "script_demo =
     \<lparr>ho_files = (\<lambda>p. if p = ''/a.ld'' then Some ''INPUT( /a.ld )'' else if p = ''/b.ld'' then Some ''GROUP(c.o -lm)'' else None),
      ho_exists = (\<lambda>p. p \<in> {''/a.ld'', ''/b.ld'', ''/c.o''}), ho_is_dir = (\<lambda>_. False), ho_canonicalize = (\<lambda>_. None),
      ho_search_dirs = None, ho_file_name = (\<lambda>_. None)\<rparr>"

lemma script_demo_children:
  "script_children script_demo [] ''/a.ld'' = [''/a.ld'']"
  "script_children script_demo [] ''/b.ld'' = [''/c.o'']"
  "script_children script_demo [] ''/c.o'' = []"
  by code_simp+

theorem expand_inputs_returns_witness:
  "\<not> (\<exists>res. expand_inputs script_demo [] [plain_input ''/a.ld''] = Some res) \<and>
   (\<exists>res. expand_inputs script_demo [] [plain_input ''/b.ld''] = Some res)"
proof -
  let ?r = "script_refers script_demo []"
  have "''/c.o'' \<in> Wellfounded.acc ?r" by (rule accI) (simp add: script_refers_def script_demo_children)
  then have b: "''/b.ld'' \<in> Wellfounded.acc ?r" by (rule_tac accI) (simp add: script_refers_def script_demo_children)
  have "(''/a.ld'', ''/a.ld'') \<in> ?r" by (simp add: script_refers_def script_demo_children)
  then have a: "''/a.ld'' \<notin> Wellfounded.acc ?r" using wf_not_refl [OF wf_below_acc [of ?r], of "''/a.ld''"] by blast
  show ?thesis using a b by (simp add: expand_inputs_returns plain_input_def)
qed

text \<open>What is returned contains no script to expand, and what the command line gives comes with its own flags.\<close>

lemma expand_loop_passed:
  assumes "expand_loop ho search out work = Some res" "\<forall>x \<in> set out. passes_on (ho_files ho) (ri_path x)"
  shows "case res of Ok xs \<Rightarrow> \<forall>x \<in> set xs. passes_on (ho_files ho) (ri_path x) | _ \<Rightarrow> True"
  using expand_loop.raw_induct [OF _ assms(1), where
      P = "\<lambda>ho search out work res. (\<forall>x \<in> set out. passes_on (ho_files ho) (ri_path x)) \<longrightarrow>
        (case res of Ok xs \<Rightarrow> \<forall>x \<in> set xs. passes_on (ho_files ho) (ri_path x) | _ \<Rightarrow> True)"] assms(2)
  by (fastforce split: if_splits outcome.splits)

end
