(* ===== verification/Dyn_Prebuild.thy ===== *)
theory Dyn_Prebuild
  imports Layout_Group
begin

text \<open>
  The dynamic-linking blobs \<^verbatim>\<open>compute_layout_icf\<close> builds before anything is placed: \<^verbatim>\<open>.dynstr\<close>, \<^verbatim>\<open>.dynsym\<close>,
  the version sections, the SysV \<^verbatim>\<open>.hash\<close> and the empty \<^verbatim>\<open>.gnu.hash\<close>.

  The loader's search through the finished bytes is written down and shown to find every exported and every
  copied symbol, and nothing else.
\<close>

section \<open>Strings\<close>

definition push_str :: "name \<Rightarrow> bytes \<Rightarrow> u32 \<times> bytes" where
  "push_str s d = (of_nat (length d), d @ ascii s @ [0])"

fun push_strs :: "name list \<Rightarrow> bytes \<Rightarrow> u32 list \<times> bytes" where
  "push_strs [] d = ([], d)"
| "push_strs (s # ss) d =
     (case push_str s d of (off, d') \<Rightarrow> case push_strs ss d' of (offs, d'') \<Rightarrow> (off # offs, d''))"

definition push_opt :: "name option \<Rightarrow> bytes \<Rightarrow> u32 option \<times> bytes" where
  "push_opt so d = (case so of None \<Rightarrow> (None, d) | Some s \<Rightarrow> (case push_str s d of (off, d') \<Rightarrow> (Some off, d')))"

section \<open>The symbol table\<close>

definition st_info :: "u8 \<Rightarrow> u8 \<Rightarrow> u8" where
  "st_info bind typ = push_bit 4 bind OR (typ AND 0xf)"

definition copy_imports :: "symbol_table \<Rightarrow> dynamic_info \<Rightarrow> name list" where
  "copy_imports st d = List.map_filter (name_by_id st) (di_copy_relocs d)"

definition import_entry :: "symbol_table \<Rightarrow> name list \<Rightarrow> u32 \<times> name \<Rightarrow> bytes" where
  "import_entry st copies = (\<lambda>(off, n).
     to_le 4 off @
     [st_info 1 (case lookup st n of Some r \<Rightarrow> res_st_type r | None \<Rightarrow> STT_NOTYPE), 0] @ replicate 10 0 @
     (case lookup st n of
        Some r \<Rightarrow> if n \<in> set copies then to_le 8 (res_size r) else replicate 8 0
      | None \<Rightarrow> replicate 8 0))"

definition export_entry :: "u32 \<times> export_sym \<Rightarrow> bytes" where
  "export_entry = (\<lambda>(off, ex). to_le 4 off @ [ex_info ex, ex_other ex] @ replicate 18 0)"

text \<open>The \<^verbatim>\<open>.dynsym\<close> index of each copied import, and where the entry of each is patched later.\<close>

definition copy_import_indices :: "symbol_table \<Rightarrow> dynamic_info \<Rightarrow> (u32 \<times> name) list" where
  "copy_import_indices st d =
     map (\<lambda>(i, n). (of_nat (i + 1), n)) (filter (\<lambda>(i, n). n \<in> set (copy_imports st d)) (enumerate 0 (di_imports d)))"

definition copy_patches :: "symbol_table \<Rightarrow> dynamic_info \<Rightarrow> (u32 \<times> nat) list" where
  "copy_patches st d =
     List.map_filter (\<lambda>(i, n). if n \<in> set (copy_imports st d)
         then map_option (\<lambda>r. (res_id r, 24 * (i + 1))) (lookup st n) else None) (enumerate 0 (di_imports d))"

definition export_patches :: "dynamic_info \<Rightarrow> (name \<times> nat) list" where
  "export_patches d =
     map (\<lambda>(i, ex). (ex_name ex, 24 * (1 + length (di_imports d) + i))) (enumerate 0 (di_exports d))"

definition build_dynsym :: "symbol_table \<Rightarrow> dynamic_info \<Rightarrow> u32 list \<Rightarrow> u32 list \<Rightarrow> bytes" where
  "build_dynsym st d import_offs export_offs =
     replicate 24 0 @ concat (map (import_entry st (copy_imports st d)) (zip import_offs (di_imports d))) @
     concat (map export_entry (zip export_offs (di_exports d)))"

section \<open>Versions\<close>

definition elf_sysv_hash :: "name \<Rightarrow> u32" where
  "elf_sysv_hash n =
     fold (\<lambda>b h.
       (let h = push_bit 4 h + ucast b; g = h AND 0xf0000000;
            h = (if g \<noteq> 0 then h XOR drop_bit 24 g else h)
        in h AND NOT g)) (ascii n) 0"

record version_state =
  vs_idx :: "((nat \<times> name) \<times> u16) list"
  vs_libs :: "(name \<times> u16 \<times> u32) list list"
  vs_next :: u16
  vs_dynstr :: bytes

definition soname_index :: "dynamic_info \<Rightarrow> name \<Rightarrow> nat option" where
  "soname_index d s = map_of (rev (zip (di_needed d) [0..<length (di_needed d)])) s"

definition version_reqs :: "dynamic_info \<Rightarrow> (name option \<times> name option) list" where
  "version_reqs d = zip (di_import_versions d) (di_import_sonames d)"

definition version_step ::
  "dynamic_info \<Rightarrow> name option \<times> name option \<Rightarrow> version_state \<Rightarrow> version_state" where
  "version_step d = (\<lambda>(ver, son) s.
     (case (ver, Option.bind son (soname_index d)) of
        (Some v, Some lib) \<Rightarrow>
          (if map_of (vs_idx s) (lib, v) \<noteq> None then s
           else (case push_str v (vs_dynstr s) of (off, dynstr) \<Rightarrow>
             \<lparr>vs_idx = AList.update (lib, v) (vs_next s) (vs_idx s),
              vs_libs = (vs_libs s)[lib := (vs_libs s ! lib) @ [(v, vs_next s, off)]],
              vs_next = vs_next s + 1, vs_dynstr = dynstr\<rparr>))
      | _ \<Rightarrow> s))"

definition collect_versions :: "dynamic_info \<Rightarrow> bytes \<Rightarrow> version_state" where
  "collect_versions d dynstr =
     fold (version_step d) (version_reqs d)
       \<lparr>vs_idx = [], vs_libs = replicate (length (di_needed d)) [], vs_next = 2, vs_dynstr = dynstr\<rparr>"

definition version_of :: "dynamic_info \<Rightarrow> version_state \<Rightarrow> name option \<times> name option \<Rightarrow> u16" where
  "version_of d s = (\<lambda>(ver, son).
     (case (ver, Option.bind son (soname_index d)) of
        (Some v, Some lib) \<Rightarrow> (case map_of (vs_idx s) (lib, v) of Some i \<Rightarrow> i | None \<Rightarrow> 1)
      | _ \<Rightarrow> 1))"

definition build_versym :: "dynamic_info \<Rightarrow> version_state \<Rightarrow> bytes" where
  "build_versym d s =
     to_le 2 (0 :: u16) @ concat (map (to_le 2 \<circ> version_of d s) (version_reqs d)) @
     concat (replicate (length (di_exports d)) (to_le 2 (1 :: u16)))"

fun vernaux_bytes :: "(name \<times> u16 \<times> u32) list \<Rightarrow> bytes" where
  "vernaux_bytes [] = []"
| "vernaux_bytes ((v, vidx, off) # rest) =
     to_le 4 (elf_sysv_hash v) @ to_le 2 (0 :: u16) @ to_le 2 vidx @ to_le 4 off @
     to_le 4 (if rest \<noteq> [] then 16 else 0 :: u32) @ vernaux_bytes rest"

fun verneed_bytes :: "(u32 \<times> (name \<times> u16 \<times> u32) list) list \<Rightarrow> bytes" where
  "verneed_bytes [] = []"
| "verneed_bytes ((lib_off, versions) # rest) =
     (let cnt = of_nat (length versions) :: u16 in
      to_le 2 (1 :: u16) @ to_le 2 cnt @ to_le 4 lib_off @ to_le 4 (16 :: u32) @
      to_le 4 (if rest \<noteq> [] then 16 + 16 * ucast cnt else 0 :: u32) @ vernaux_bytes versions @ verneed_bytes rest)"

definition active_libs :: "u32 list \<Rightarrow> version_state \<Rightarrow> (u32 \<times> (name \<times> u16 \<times> u32) list) list" where
  "active_libs soname_offs s = filter (\<lambda>(_, vs). vs \<noteq> []) (zip soname_offs (vs_libs s))"

section \<open>The hash tables\<close>

definition hash_insert :: "u32 \<Rightarrow> u32 \<times> name \<Rightarrow> u32 list \<times> u32 list \<Rightarrow> u32 list \<times> u32 list" where
  "hash_insert nbucket = (\<lambda>(i, n) (buckets, chain).
     (let h = unat (elf_sysv_hash n mod nbucket) in (buckets[h := i], chain[unat i := buckets ! h])))"

definition hashed_symbols :: "symbol_table \<Rightarrow> dynamic_info \<Rightarrow> (u32 \<times> name) list" where
  "hashed_symbols st d =
     copy_import_indices st d @
     map (\<lambda>(i, ex). (of_nat (1 + length (di_imports d) + i), ex_name ex)) (enumerate 0 (di_exports d))"

definition total_dynsym :: "dynamic_info \<Rightarrow> nat" where
  "total_dynsym d = 1 + length (di_imports d) + length (di_exports d)"

definition sysv_tables :: "symbol_table \<Rightarrow> dynamic_info \<Rightarrow> u32 list \<times> u32 list" where
  "sysv_tables st d =
     (let n = max (length (hashed_symbols st d)) 1 in
      fold (hash_insert (of_nat n)) (hashed_symbols st d)
        (replicate (unat (of_nat n :: u32)) 0, replicate (total_dynsym d) 0))"

definition build_sysv_hash :: "symbol_table \<Rightarrow> dynamic_info \<Rightarrow> bytes" where
  "build_sysv_hash st d =
     (let n = max (length (hashed_symbols st d)) 1 in
      case sysv_tables st d of (buckets, chain) \<Rightarrow>
        concat (map (to_le 4) ([of_nat n, of_nat (total_dynsym d)] @ buckets @ chain)))"

definition build_gnu_hash :: "symbol_table \<Rightarrow> dynamic_info \<Rightarrow> bytes" where
  "build_gnu_hash st d =
     (if di_exports d = [] \<and> copy_import_indices st d = []
      then to_le 4 (1 :: u32) @ to_le 4 (of_nat (length (di_imports d) + 1) :: u32) @ to_le 4 (1 :: u32) @
           to_le 4 (0 :: u32) @ to_le 8 (0 :: u64) @ to_le 4 (0 :: u32)
      else [])"

section \<open>The whole step\<close>

record dyn_prebuild =
  pb_blobs :: dyn_blobs
  pb_import_dynsym :: "(name \<times> u32) list"
  pb_needed_off :: "u32 list"
  pb_export_patch :: "(name \<times> nat) list"
  pb_copy_patch :: "(u32 \<times> nat) list"
  pb_soname_off :: "u32 option"
  pb_rpath_off :: "u32 option"

definition blobs_empty :: dyn_blobs where
  "blobs_empty =
     \<lparr>db_interp = [], db_hash = [], db_dynsym = [], db_dynstr = [], db_rela_dyn = [], db_dynamic = [], db_plt = [],
      db_got_plt = [], db_rela_plt = [], db_gnu_version = [], db_gnu_version_r = [], db_verneed_num = 0,
      db_rela_glob_dat = [], db_rela_copy = [], db_eh_frame_hdr = [], db_gnu_hash = []\<rparr>"

definition prebuild_empty :: dyn_prebuild where
  "prebuild_empty =
     \<lparr>pb_blobs = blobs_empty, pb_import_dynsym = [], pb_needed_off = [], pb_export_patch = [], pb_copy_patch = [],
      pb_soname_off = None, pb_rpath_off = None\<rparr>"

text \<open>\<^verbatim>\<open>/lib64/ld-linux-x86-64.so.2\<close> with its final zero.\<close>

definition interp_of :: "dynamic_info \<Rightarrow> bytes" where
  "interp_of d =
     (let i = (case di_interp d of Some i \<Rightarrow> i | None \<Rightarrow> ascii ''/lib64/ld-linux-x86-64.so.2'' @ [0]) in
      if ends_with i [0] then i else i @ [0])"

definition prebuild_dynamic ::
  "symbol_table \<Rightarrow> bool \<Rightarrow> dynamic_info \<Rightarrow> (layout_error, dyn_prebuild) outcome" where
  "prebuild_dynamic st shared d =
     (case push_strs (di_imports d) [0] of (import_offs, d1) \<Rightarrow>
      case push_strs (di_needed d) d1 of (needed_offs, d2) \<Rightarrow>
      case push_strs (map ex_name (di_exports d)) d2 of (export_offs, d3) \<Rightarrow>
      case push_opt (di_soname d) d3 of (soname_off, d4) \<Rightarrow>
      case push_opt (di_rpath d) d4 of (rpath_off, d5) \<Rightarrow>
      (let vs = collect_versions d d5;
           libs = active_libs needed_offs vs;
           hash = build_sysv_hash st d; gnu = build_gnu_hash st d
       in if di_hash_style d = Gnu \<and> gnu = [] \<and> 0 < length (hashed_symbols st d)
          then Err (Unsupported ''--hash-style=gnu for exported or copy-relocated symbols'')
          else Ok
           \<lparr>pb_blobs = blobs_empty\<lparr>
              db_dynstr := vs_dynstr vs, db_dynsym := build_dynsym st d import_offs export_offs,
              db_hash := (if di_hash_style d = Gnu then [] else hash),
              db_gnu_hash := (if di_hash_style d = Sysv then [] else gnu),
              db_interp := (if shared then [] else interp_of d),
              db_gnu_version := (if libs \<noteq> [] then build_versym d vs else []),
              db_gnu_version_r := verneed_bytes libs,
              db_verneed_num := of_nat (length libs)\<rparr>,
            pb_import_dynsym = rev (zip (di_imports d) (map (\<lambda>i. of_nat (i + 1)) [0..<length (di_imports d)])),
            pb_needed_off = needed_offs, pb_export_patch = export_patches d, pb_copy_patch = copy_patches st d,
            pb_soname_off = soname_off, pb_rpath_off = rpath_off\<rparr>))"

text \<open>GOT slots of imported symbols, which the loader fills.\<close>

definition is_glob_dat :: "symbol_table \<Rightarrow> u32 \<Rightarrow> bool" where
  "is_glob_dat st i =
     (case Option.bind (name_by_id st i) (lookup st) of Some r \<Rightarrow> res_import r \<and> \<not> res_copy_reloc r | None \<Rightarrow> False)"

definition n_glob_dat :: "symbol_table \<Rightarrow> u32 list \<Rightarrow> nat" where
  "n_glob_dat st got_syms = length (filter (is_glob_dat st) got_syms)"

section \<open>The loader's search\<close>

text \<open>A NUL-terminated string of \<^verbatim>\<open>.dynstr\<close>, the name of a \<^verbatim>\<open>.dynsym\<close> entry, and the walk along one chain
  of \<^verbatim>\<open>.hash\<close>; the outer \<open>None\<close> is a walk that does not end within the number of entries.\<close>

definition cstr_at :: "bytes \<Rightarrow> nat \<Rightarrow> bytes" where
  "cstr_at d off = takeWhile (\<lambda>b. b \<noteq> 0) (drop off d)"

definition dynsym_name :: "dyn_blobs \<Rightarrow> u32 \<Rightarrow> bytes" where
  "dynsym_name db i = cstr_at (db_dynstr db) (unat (u32_at (db_dynsym db) (24 * unat i)))"

fun chain_find :: "nat \<Rightarrow> (u32 \<Rightarrow> u32) \<Rightarrow> (u32 \<Rightarrow> bool) \<Rightarrow> u32 \<Rightarrow> u32 option option" where
  "chain_find 0 next_of P i = None"
| "chain_find (Suc fuel) next_of P i =
     (if i = 0 then Some None else if P i then Some (Some i) else chain_find fuel next_of P (next_of i))"

definition sysv_lookup :: "dyn_blobs \<Rightarrow> name \<Rightarrow> u32 option option" where
  "sysv_lookup db n =
     (let h = db_hash db; nbucket = u32_at h 0; word = (\<lambda>k. u32_at h (4 * k)) in
      chain_find (unat (word 1)) (\<lambda>i. word (2 + unat nbucket + unat i)) (\<lambda>i. dynsym_name db i = ascii n)
        (word (2 + unat (elf_sysv_hash n mod nbucket))))"

section \<open>Strings read back\<close>

definition no_nul :: "name \<Rightarrow> bool" where
  "no_nul n \<longleftrightarrow> 0 \<notin> set (ascii n)"

lemma cstr_at_append: "no_nul s \<Longrightarrow> cstr_at (d @ ascii s @ 0 # r) (length d) = ascii s"
  by (simp add: cstr_at_def no_nul_def takeWhile_append2 takeWhile_tail) (metis takeWhile_append2 append_Nil2)

lemma push_strs_spec:
  assumes "push_strs ss d = (offs, d')" "\<forall>s \<in> set ss. no_nul s"
  shows "\<exists>r. d' = d @ r" "length offs = length ss"
    "\<And>k more. k < length ss \<Longrightarrow> length d' < 2 ^ 32 \<Longrightarrow> cstr_at (d' @ more) (unat (offs ! k)) = ascii (ss ! k)"
proof -
  have "(\<exists>r. d' = d @ r) \<and> length offs = length ss \<and>
    (\<forall>k more. k < length ss \<and> length d' < 2 ^ 32 \<longrightarrow> cstr_at (d' @ more) (unat (offs ! k)) = ascii (ss ! k))"
    using assms
  proof (induction ss arbitrary: d offs)
    case Nil
    then show ?case by simp
  next
    case (Cons s ss)
    obtain offs' where p: "push_strs ss (d @ ascii s @ [0]) = (offs', d')" "offs = of_nat (length d) # offs'"
      using Cons.prems by (auto simp: push_str_def split: prod.splits)
    have ih: "(\<exists>r. d' = (d @ ascii s @ [0]) @ r) \<and> length offs' = length ss \<and>
      (\<forall>k more. k < length ss \<and> length d' < 2 ^ 32 \<longrightarrow> cstr_at (d' @ more) (unat (offs' ! k)) = ascii (ss ! k))"
      using Cons.IH [OF p(1)] Cons.prems(2) by simp
    then obtain r where r: "d' = d @ ascii s @ 0 # r" by auto
    have "cstr_at (d' @ more) (unat (offs ! k)) = ascii ((s # ss) ! k)" if "k < length (s # ss)" "length d' < 2 ^ 32" for k more
    proof (cases k)
      case 0
      have "unat (of_nat (length d) :: u32) = length d" using that(2) unat_of_nat_u32 [of "length d"] r by simp
      then show ?thesis using cstr_at_append [of s d "r @ more"] Cons.prems(2) by (simp add: 0 p(2) r)
    next
      case (Suc j)
      then show ?thesis using ih that by (simp add: p(2))
    qed
    then show ?case using ih p(2) r by auto
  qed
  then show "\<exists>r. d' = d @ r" "length offs = length ss"
    "\<And>k more. k < length ss \<Longrightarrow> length d' < 2 ^ 32 \<Longrightarrow> cstr_at (d' @ more) (unat (offs ! k)) = ascii (ss ! k)"
    by blast+
qed

lemma length_push_strs: "push_strs ss d = (offs, d') \<Longrightarrow> length offs = length ss"
  by (induction ss arbitrary: d offs) (auto simp: push_str_def split: prod.splits)

lemma push_opt_extends: "push_opt so d = (off, d') \<Longrightarrow> \<exists>r. d' = d @ r"
  by (auto simp: push_opt_def push_str_def split: option.splits)

lemma version_step_extends: "\<exists>r. vs_dynstr (version_step d req s) = vs_dynstr s @ r"
  by (auto simp: version_step_def push_str_def split: option.splits prod.splits)

lemma collect_versions_extends: "\<exists>r. vs_dynstr (collect_versions d dynstr) = dynstr @ r"
proof -
  have "\<exists>r. vs_dynstr (fold (version_step d) reqs s) = vs_dynstr s @ r" for reqs s
  proof (induction reqs arbitrary: s)
    case (Cons q reqs)
    obtain r1 where "vs_dynstr (version_step d q s) = vs_dynstr s @ r1" using version_step_extends by blast
    then show ?case using Cons [of "version_step d q s"] by auto
  qed simp
  from this [of "version_reqs d" "\<lparr>vs_idx = [], vs_libs = replicate (length (di_needed d)) [], vs_next = 2, vs_dynstr = dynstr\<rparr>"]
  show ?thesis by (simp add: collect_versions_def)
qed

section \<open>Rows of equal length\<close>

lemma take_drop_rows:
  assumes "\<forall>b \<in> set bs. length b = n" "k < length bs"
  shows "take n (drop (n * k) (concat bs @ r)) = bs ! k"
  using assms
proof (induction bs arbitrary: k)
  case (Cons b bs)
  then show ?case by (cases k) simp_all
qed simp

lemma u32_at_row:
  assumes "\<forall>b \<in> set bs. length b = n" "k < length bs" "4 \<le> n"
  shows "u32_at (concat bs @ r) (n * k) = u32_at (bs ! k) 0"
proof -
  have "take 4 (drop (n * k) (concat bs @ r)) = take 4 (bs ! k)"
    using take_drop_rows [OF assms(1,2), of r] assms(3) by (metis min.absorb1 take_take)
  then show ?thesis by (simp only: u32_at_def drop0)
qed

lemma u32_at_words: "k < length ws \<Longrightarrow> u32_at (concat (map (to_le 4) ws)) (4 * k) = (ws ! k :: u32)"
  using u32_at_row [of "map (to_le 4) ws" 4 k "[]"] by (simp add: u32_at_def byte_simps)

lemma length_import_entry [simp]: "length (import_entry st copies x) = 24"
  by (auto simp: import_entry_def split: prod.splits option.splits)

lemma length_export_entry [simp]: "length (export_entry x) = 24"
  by (auto simp: export_entry_def split: prod.splits)

lemma u32_at_import_entry: "u32_at (import_entry st copies (off, n)) 0 = off"
  by (simp add: import_entry_def u32_at_def byte_simps)

lemma u32_at_export_entry: "u32_at (export_entry (off, ex)) 0 = off"
  by (simp add: export_entry_def u32_at_def byte_simps)

lemma build_dynsym_names:
  assumes "length ioffs = length (di_imports d)" "length eoffs = length (di_exports d)"
    "k < length (di_imports d) + length (di_exports d)"
  shows "u32_at (build_dynsym st d ioffs eoffs) (24 * Suc k) = (ioffs @ eoffs) ! k"
proof -
  define rows where "rows = replicate 24 0 # map (import_entry st (copy_imports st d)) (zip ioffs (di_imports d)) @
    map export_entry (zip eoffs (di_exports d))"
  have d: "build_dynsym st d ioffs eoffs = concat rows @ []"
    by (simp add: build_dynsym_def rows_def)
  have "\<forall>b \<in> set rows. length b = 24" by (auto simp: rows_def)
  then have "u32_at (concat rows @ []) (24 * Suc k) = u32_at (rows ! Suc k) 0"
    using assms by (intro u32_at_row) (auto simp: rows_def)
  also have "\<dots> = (ioffs @ eoffs) ! k"
    using assms by (auto simp: rows_def nth_append u32_at_import_entry u32_at_export_entry)
  finally show ?thesis by (simp add: d)
qed

section \<open>The chains\<close>

text \<open>From \<open>i\<close>, the chain \<open>C\<close> passes through exactly the entries of the list and ends.\<close>

fun linked :: "u32 list \<Rightarrow> u32 \<Rightarrow> u32 list \<Rightarrow> bool" where
  "linked C i [] \<longleftrightarrow> i = 0"
| "linked C i (j # js) \<longleftrightarrow> i = j \<and> j \<noteq> 0 \<and> unat j < length C \<and> linked C (C ! unat j) js"

lemma linked_update: "linked C i js \<Longrightarrow> k \<notin> set js \<Longrightarrow> linked (C[unat k := v]) i js"
  by (induction js arbitrary: i) (auto simp: nth_list_update word_unat_eq_iff)

lemma chain_find_linked:
  assumes "linked C i js" "\<forall>j \<in> set js. next_of j = C ! unat j" "length js < fuel"
  shows "chain_find fuel next_of P i = Some (find P js)"
  using assms
proof (induction js arbitrary: i fuel)
  case Nil
  then show ?case by (cases fuel) auto
next
  case (Cons j js)
  then show ?case by (cases fuel) auto
qed

definition bucket_items :: "u32 \<Rightarrow> (u32 \<times> name) list \<Rightarrow> nat \<Rightarrow> (u32 \<times> name) list" where
  "bucket_items nb items h = rev (filter (\<lambda>(i, n). unat (elf_sysv_hash n mod nb) = h) items)"

lemma hash_insert_linked:
  assumes "\<forall>h < length B. linked C (B ! h) (map fst (bucket_items nb items h))"
    and "i \<notin> fst ` set items" "i \<noteq> 0" "unat i < length C" "length B = unat nb" "nb \<noteq> 0"
    and "hash_insert nb (i, n) (B, C) = (B', C')"
  shows "length B' = length B \<and> length C' = length C \<and>
    (\<forall>h < length B'. linked C' (B' ! h) (map fst (bucket_items nb (items @ [(i, n)]) h)))"
proof -
  let ?h = "unat (elf_sysv_hash n mod nb)"
  have h: "?h < length B" using assms(5,6) by (simp add: unat_mod word_unat_eq_iff)
  have BC: "B' = B[?h := i]" "C' = C[unat i := B ! ?h]" using assms(7) by (simp_all add: hash_insert_def Let_def)
  have other: "i \<notin> set (map fst (bucket_items nb items k))" for k
    using assms(2) by (auto simp: bucket_items_def)
  have "linked C' (B' ! k) (map fst (bucket_items nb (items @ [(i, n)]) k))" if k: "k < length B" for k
  proof -
    have l: "linked C' (B ! k) (map fst (bucket_items nb items k))"
      unfolding BC by (rule linked_update [OF _ other]) (use assms(1) k in blast)
    show ?thesis
    proof (cases "?h = k")
      case True
      then have "bucket_items nb (items @ [(i, n)]) k = (i, n) # bucket_items nb items k"
        by (simp add: bucket_items_def)
      then show ?thesis using l assms(3,4) h True by (auto simp: BC)
    next
      case False
      then have "bucket_items nb (items @ [(i, n)]) k = bucket_items nb items k"
        by (simp add: bucket_items_def)
      then show ?thesis using l h False by (simp add: BC)
    qed
  qed
  then show ?thesis by (simp add: BC)
qed

lemma sysv_fold_linked:
  assumes "distinct (map fst items)" "\<forall>x \<in> set items. fst x \<noteq> 0 \<and> unat (fst x) < tot" "nb \<noteq> 0"
    and "fold (hash_insert nb) items (replicate (unat nb) 0, replicate tot 0) = (B, C)"
  shows "length B = unat nb \<and> length C = tot \<and>
    (\<forall>h < unat nb. linked C (B ! h) (map fst (bucket_items nb items h)))"
  using assms
proof (induction items arbitrary: B C rule: rev_induct)
  case Nil
  then show ?case by (auto simp: bucket_items_def)
next
  case (snoc x items)
  obtain i n where x: "x = (i, n)" by (cases x)
  obtain B0 C0 where bc: "fold (hash_insert nb) items (replicate (unat nb) 0, replicate tot 0) = (B0, C0)"
    by (cases "fold (hash_insert nb) items (replicate (unat nb) 0, replicate tot 0)")
  have ih: "length B0 = unat nb \<and> length C0 = tot \<and>
      (\<forall>h < unat nb. linked C0 (B0 ! h) (map fst (bucket_items nb items h)))"
    using snoc.IH [OF _ _ _ bc] snoc.prems by simp
  have "hash_insert nb (i, n) (B0, C0) = (B, C)" using snoc.prems(4) bc x by simp
  then show ?case
    using hash_insert_linked [of B0 C0 nb items i n B C] ih snoc.prems x by auto
qed

lemma find_by_name:
  "distinct (map snd xs) \<Longrightarrow> \<forall>x \<in> set xs. P (fst x) \<longleftrightarrow> snd x = n \<Longrightarrow> (i, n) \<in> set xs \<Longrightarrow>
     find P (map fst xs) = Some i"
  by (induction xs) (auto simp: image_iff)

lemma find_by_name_None:
  "\<forall>x \<in> set xs. P (fst x) \<longleftrightarrow> snd x = n \<Longrightarrow> n \<notin> snd ` set xs \<Longrightarrow> find P (map fst xs) = None"
  by (induction xs) auto

section \<open>Which symbols are found\<close>

definition dyn_names :: "dynamic_info \<Rightarrow> name list" where
  "dyn_names d = di_imports d @ map ex_name (di_exports d)"

lemma prebuild_parts:
  assumes "prebuild_dynamic st shared d = Ok p"
  obtains ioffs d1 noffs d2 eoffs d3 r where
    "push_strs (di_imports d) [0] = (ioffs, d1)" "push_strs (di_needed d) d1 = (noffs, d2)"
    "push_strs (map ex_name (di_exports d)) d2 = (eoffs, d3)"
    "db_dynstr (pb_blobs p) = d3 @ r" "db_dynsym (pb_blobs p) = build_dynsym st d ioffs eoffs"
    "db_hash (pb_blobs p) = (if di_hash_style d = Gnu then [] else build_sysv_hash st d)"
proof -
  obtain ioffs d1 where 1: "push_strs (di_imports d) [0] = (ioffs, d1)" by fastforce
  obtain noffs d2 where 2: "push_strs (di_needed d) d1 = (noffs, d2)" by fastforce
  obtain eoffs d3 where 3: "push_strs (map ex_name (di_exports d)) d2 = (eoffs, d3)" by fastforce
  obtain so d4 where 4: "push_opt (di_soname d) d3 = (so, d4)" by fastforce
  obtain rp d5 where 5: "push_opt (di_rpath d) d4 = (rp, d5)" by fastforce
  obtain r where r: "vs_dynstr (collect_versions d d5) = d3 @ r"
    using push_opt_extends [OF 4] push_opt_extends [OF 5] collect_versions_extends [of d d5] by auto
  have "vs_dynstr (collect_versions d d5) = db_dynstr (pb_blobs p) \<and>
      db_dynsym (pb_blobs p) = build_dynsym st d ioffs eoffs \<and>
      db_hash (pb_blobs p) = (if di_hash_style d = Gnu then [] else build_sysv_hash st d)"
    using assms by (auto simp: prebuild_dynamic_def 1 2 3 4 5 Let_def blobs_empty_def split: if_split_asm)
  then show ?thesis using that [OF 1 2 3, of r] r by simp
qed

lemma dynsym_name_index:
  assumes p: "prebuild_dynamic st shared d = Ok p" and nn: "\<forall>n \<in> set (dyn_names d) \<union> set (di_needed d). no_nul n"
    and len: "length (db_dynstr (pb_blobs p)) < 2 ^ 32" and k: "k < length (dyn_names d)" "Suc k < 2 ^ 32"
  shows "dynsym_name (pb_blobs p) (of_nat (Suc k)) = ascii (dyn_names d ! k)"
proof -
  obtain ioffs d1 noffs d2 eoffs d3 r where s:
    "push_strs (di_imports d) [0] = (ioffs, d1)" "push_strs (di_needed d) d1 = (noffs, d2)"
    "push_strs (map ex_name (di_exports d)) d2 = (eoffs, d3)"
    "db_dynstr (pb_blobs p) = d3 @ r" "db_dynsym (pb_blobs p) = build_dynsym st d ioffs eoffs"
    by (rule prebuild_parts [OF p]) (rule that)
  have n1: "\<forall>s \<in> set (di_imports d). no_nul s" "\<forall>s \<in> set (di_needed d). no_nul s"
      "\<forall>s \<in> set (map ex_name (di_exports d)). no_nul s"
    using nn by (auto simp: dyn_names_def)
  note i = push_strs_spec [OF s(1) n1(1)] and ne = push_strs_spec [OF s(2) n1(2)] and e = push_strs_spec [OF s(3) n1(3)]
  obtain r1 r2 where ext: "d2 = d1 @ r1" "d3 = d2 @ r2" using ne(1) e(1) by blast
  have idx: "unat (of_nat (Suc k) :: u32) = Suc k" using k(2) by (rule unat_of_nat_u32)
  have off: "u32_at (build_dynsym st d ioffs eoffs) (24 * Suc k) = (ioffs @ eoffs) ! k"
    using k(1) i(2) e(2) by (intro build_dynsym_names) (simp_all add: dyn_names_def)
  have "cstr_at (d3 @ r) (unat ((ioffs @ eoffs) ! k)) = ascii (dyn_names d ! k)"
  proof (cases "k < length (di_imports d)")
    case True
    then show ?thesis using i(2) i(3) [of k "r1 @ r2 @ r"] len s(4) ext by (simp add: nth_append dyn_names_def)
  next
    case False
    then have "k - length (di_imports d) < length (map ex_name (di_exports d))"
      using k(1) by (simp add: dyn_names_def)
    then show ?thesis using False i(2) e(3) [of "k - length (di_imports d)" r] len s(4)
      by (simp add: nth_append dyn_names_def)
  qed
  then show ?thesis unfolding dynsym_name_def s(4,5) idx off .
qed

lemma inj_ascii: "ascii a = ascii b \<longleftrightarrow> a = b"
proof -
  have u: "unat (of_char x :: u8) = of_char x" for x
  proof -
    have "unat (of_nat (of_char x) :: u8) = (of_char x :: nat)"
      using nat_of_char_less_256 [of x] by (subst unat_of_nat) simp
    then show ?thesis by (simp only: of_nat_of_char)
  qed
  have "inj (of_char :: char \<Rightarrow> u8)"
    by (rule injI) (metis u of_char_eq_iff)
  then show ?thesis by (simp add: ascii_def inj_map_eq_map)
qed

definition hashed_positions :: "symbol_table \<Rightarrow> dynamic_info \<Rightarrow> nat list" where
  "hashed_positions st d =
     filter (\<lambda>k. dyn_names d ! k \<in> set (copy_imports st d)) [0..<length (di_imports d)] @
     [length (di_imports d)..<length (dyn_names d)]"

lemma enumerate_upt: "enumerate 0 xs = map (\<lambda>k. (k, xs ! k)) [0..<length xs]"
  by (rule nth_equalityI) (simp_all add: nth_enumerate_eq)

lemma hashed_symbols_map:
  "hashed_symbols st d = map (\<lambda>k. (of_nat (Suc k), dyn_names d ! k)) (hashed_positions st d)"
proof -
  have a: "copy_import_indices st d = map (\<lambda>k. (of_nat (Suc k), dyn_names d ! k))
      (filter (\<lambda>k. dyn_names d ! k \<in> set (copy_imports st d)) [0..<length (di_imports d)])"
    unfolding copy_import_indices_def enumerate_upt filter_map map_map
    by (rule map_cong [OF filter_cong]) (auto simp: dyn_names_def nth_append)
  have b: "map (\<lambda>(i, ex). (of_nat (1 + length (di_imports d) + i) :: u32, ex_name ex)) (enumerate 0 (di_exports d)) =
      map (\<lambda>k. (of_nat (Suc k), dyn_names d ! k)) [length (di_imports d)..<length (dyn_names d)]"
    by (rule nth_equalityI) (auto simp: dyn_names_def nth_append nth_enumerate_eq add.commute)
  show ?thesis unfolding hashed_symbols_def hashed_positions_def a b by simp
qed

lemma hashed_positions_set:
  "distinct (hashed_positions st d)"
  "k \<in> set (hashed_positions st d) \<longleftrightarrow> k < length (dyn_names d) \<and>
     (length (di_imports d) \<le> k \<or> dyn_names d ! k \<in> set (copy_imports st d))"
  by (auto simp: hashed_positions_def dyn_names_def)

lemma hashed_symbols_ok:
  assumes "total_dynsym d < 2 ^ 32" "distinct (dyn_names d)"
  shows "distinct (map fst (hashed_symbols st d))" "distinct (map snd (hashed_symbols st d))"
    "\<forall>x \<in> set (hashed_symbols st d). fst x \<noteq> 0 \<and> unat (fst x) < total_dynsym d"
proof -
  have n: "length (dyn_names d) = total_dynsym d - 1" "0 < total_dynsym d" by (simp_all add: dyn_names_def total_dynsym_def)
  have u: "unat (of_nat (Suc k) :: u32) = Suc k" if "k < length (dyn_names d)" for k
    using that assms(1) n by (intro unat_of_nat_u32) linarith
  have i: "inj_on (\<lambda>k. of_nat (Suc k) :: u32) (set (hashed_positions st d))"
  proof (rule inj_onI)
    fix x y
    assume "x \<in> set (hashed_positions st d)" "y \<in> set (hashed_positions st d)" "of_nat (Suc x) = (of_nat (Suc y) :: u32)"
    then show "x = y" using u [of x] u [of y] unfolding hashed_positions_set(2) by (metis nat.inject)
  qed
  show "distinct (map fst (hashed_symbols st d))"
    using i hashed_positions_set(1) by (simp add: hashed_symbols_map distinct_map comp_def)
  have "inj_on (\<lambda>k. dyn_names d ! k) (set (hashed_positions st d))"
    using assms(2) by (auto simp: inj_on_def hashed_positions_set(2) nth_eq_iff_index_eq)
  then show "distinct (map snd (hashed_symbols st d))"
    using hashed_positions_set(1) by (simp add: hashed_symbols_map distinct_map comp_def)
  show "\<forall>x \<in> set (hashed_symbols st d). fst x \<noteq> 0 \<and> unat (fst x) < total_dynsym d"
  proof
    fix x
    assume "x \<in> set (hashed_symbols st d)"
    then obtain k where "fst x = of_nat (Suc k)" "k < length (dyn_names d)"
      unfolding hashed_symbols_map using hashed_positions_set(2) by auto
    then show "fst x \<noteq> 0 \<and> unat (fst x) < total_dynsym d"
      using u [of k] n by (metis One_nat_def Suc_eq_plus1 less_diff_conv nat.distinct(1) unat_0)
  qed
qed

lemma find_unique: "k \<in> set xs \<Longrightarrow> P k \<Longrightarrow> \<forall>j \<in> set xs. P j \<longrightarrow> j = k \<Longrightarrow> find P xs = Some k"
proof (induction xs)
  case (Cons x xs)
  show ?case
  proof (cases "P x")
    case True
    then have "x = k" using Cons.prems(3) by (meson list.set_intros(1))
    then show ?thesis using Cons.prems(2) by simp
  next
    case False
    then have "k \<in> set xs" using Cons.prems(1,2) by auto
    moreover have "\<forall>j \<in> set xs. P j \<longrightarrow> j = k" using Cons.prems(3) by (meson list.set_intros(2))
    ultimately have "find P xs = Some k" by (rule Cons.IH [OF _ Cons.prems(2)])
    then show ?thesis using False by simp
  qed
qed simp

lemma sysv_find:
  assumes small: "total_dynsym d < 2 ^ 32" and dist: "distinct (dyn_names d)"
    and P: "\<forall>k < length (dyn_names d). P (of_nat (Suc k)) \<longleftrightarrow> dyn_names d ! k = n"
  shows "find P (map fst (bucket_items nb (hashed_symbols st d) (unat (elf_sysv_hash n mod nb)))) =
    map_option (\<lambda>k. of_nat (Suc k))
      (find (\<lambda>k. dyn_names d ! k = n \<and> (length (di_imports d) \<le> k \<or> n \<in> set (copy_imports st d))) [0..<length (dyn_names d)])"
proof -
  let ?items = "bucket_items nb (hashed_symbols st d) (unat (elf_sysv_hash n mod nb))"
  let ?Q = "\<lambda>k. dyn_names d ! k = n \<and> (length (di_imports d) \<le> k \<or> n \<in> set (copy_imports st d))"
  have sub: "set ?items \<subseteq> set (hashed_symbols st d)" by (auto simp: bucket_items_def)
  have d: "distinct (map snd ?items)"
    using hashed_symbols_ok(2) [OF small dist, of st]
    by (simp add: bucket_items_def rev_map [symmetric] distinct_map inj_on_def)
  have p: "\<forall>x \<in> set ?items. P (fst x) \<longleftrightarrow> snd x = n"
  proof
    fix x
    assume "x \<in> set ?items"
    then obtain k where "x = (of_nat (Suc k), dyn_names d ! k)" "k \<in> set (hashed_positions st d)"
      using sub unfolding hashed_symbols_map by auto
    then show "P (fst x) \<longleftrightarrow> snd x = n" using P unfolding hashed_positions_set(2) by (metis fst_conv snd_conv)
  qed
  show ?thesis
  proof (cases "\<exists>k < length (dyn_names d). ?Q k")
    case True
    then obtain k where k: "k < length (dyn_names d)" "?Q k" by blast
    then have "k \<in> set (hashed_positions st d)" unfolding hashed_positions_set(2) by blast
    then have "(of_nat (Suc k), n) \<in> set ?items"
      using k(2) by (auto simp: bucket_items_def hashed_symbols_map image_iff)
    then have "find P (map fst ?items) = Some (of_nat (Suc k))" by (rule find_by_name [OF d p])
    moreover have "find ?Q [0..<length (dyn_names d)] = Some k"
      using k dist by (intro find_unique) (auto simp: nth_eq_iff_index_eq)
    ultimately show ?thesis by simp
  next
    case False
    have "n \<notin> snd ` set ?items"
    proof
      assume "n \<in> snd ` set ?items"
      then obtain k where "k \<in> set (hashed_positions st d)" "dyn_names d ! k = n"
        using sub by (auto simp: hashed_symbols_map)
      then show False using False by (auto simp: hashed_positions_set(2))
    qed
    then have "find P (map fst ?items) = None" by (rule find_by_name_None [OF p])
    moreover have "find ?Q [0..<length (dyn_names d)] = None"
      using False by (auto simp: find_None_iff)
    ultimately show ?thesis by simp
  qed
qed

section \<open>The search over the bytes\<close>

text \<open>The answer the loader should get: the \<^verbatim>\<open>.dynsym\<close> index of the export or copied import of that name.\<close>

definition lookup_answer :: "symbol_table \<Rightarrow> dynamic_info \<Rightarrow> name \<Rightarrow> u32 option" where
  "lookup_answer st d n =
     map_option (\<lambda>k. of_nat (Suc k))
       (find (\<lambda>k. dyn_names d ! k = n \<and> (length (di_imports d) \<le> k \<or> n \<in> set (copy_imports st d)))
         [0..<length (dyn_names d)])"

text \<open>Names are NUL-free and distinct, and the table fits 32-bit indices and offsets.\<close>

definition dyn_names_ok :: "dynamic_info \<Rightarrow> dyn_prebuild \<Rightarrow> bool" where
  "dyn_names_ok d p \<longleftrightarrow>
     distinct (dyn_names d) \<and> list_all no_nul (dyn_names d) \<and> list_all no_nul (di_needed d) \<and>
     total_dynsym d < 2 ^ 32 \<and> length (db_dynstr (pb_blobs p)) < 2 ^ 32"

lemma length_hashed_symbols: "length (hashed_symbols st d) < total_dynsym d"
proof -
  have "length (hashed_symbols st d) = length (hashed_positions st d)" by (simp add: hashed_symbols_map)
  also have "\<dots> \<le> length (dyn_names d)"
    using distinct_card [OF hashed_positions_set(1) [of st d]] card_mono [of "{..<length (dyn_names d)}" "set (hashed_positions st d)"]
    by (auto simp: hashed_positions_set(2) subset_iff)
  finally show ?thesis by (simp add: total_dynsym_def dyn_names_def)
qed

text \<open>C20: 
  The loader's lookup in the bytes the linker lays down (bucket and chain words of \<^verbatim>\<open>.hash\<close>, names through
  \<^verbatim>\<open>.dynsym\<close> and \<^verbatim>\<open>.dynstr\<close>) ends within as many steps as the table has entries, and finds exactly the
  exported symbols and the imports that have a COPY relocation, each at its own \<^verbatim>\<open>.dynsym\<close> index; a plain
  import or an unknown name is not found.\<close>

theorem sysv_lookup_finds:
  assumes p: "prebuild_dynamic st shared d = Ok p" and style: "di_hash_style d \<noteq> Gnu" and ok: "dyn_names_ok d p"
  shows "sysv_lookup (pb_blobs p) n = Some (lookup_answer st d n)"
proof -
  have small: "total_dynsym d < 2 ^ 32" and dist: "distinct (dyn_names d)"
    and len: "length (db_dynstr (pb_blobs p)) < 2 ^ 32"
    and nn: "\<forall>n \<in> set (dyn_names d) \<union> set (di_needed d). no_nul n"
    using ok by (auto simp: dyn_names_ok_def list_all_iff)
  define items where "items = hashed_symbols st d"
  define m where "m = max (length items) 1"
  define nb where "nb = (of_nat m :: u32)"
  have m: "m < 2 ^ 32" "0 < m"
    using length_hashed_symbols [of st d] small by (auto simp: m_def items_def)
  then have nb: "unat nb = m" "nb \<noteq> 0"
    by (auto simp: nb_def unat_of_nat_u32 word_unat_eq_iff)
  obtain B C where BC: "fold (hash_insert nb) items (replicate (unat nb) 0, replicate (total_dynsym d) 0) = (B, C)"
    by fastforce
  have lk: "length B = m" "length C = total_dynsym d"
    "\<forall>h < m. linked C (B ! h) (map fst (bucket_items nb items h))"
    using sysv_fold_linked [OF _ _ nb(2) BC] hashed_symbols_ok [OF small dist, of st] by (simp_all add: items_def nb)
  define ws where "ws = [nb, of_nat (total_dynsym d)] @ B @ C"
  have h: "db_hash (pb_blobs p) = concat (map (to_le 4) ws)"
  proof -
    have "db_hash (pb_blobs p) = build_sysv_hash st d"
      by (rule prebuild_parts [OF p]) (simp add: style)
    then show ?thesis
      using BC by (simp add: build_sysv_hash_def sysv_tables_def ws_def Let_def items_def m_def nb_def)
  qed
  have word: "u32_at (db_hash (pb_blobs p)) (4 * k) = ws ! k" if "k < length ws" for k
    unfolding h by (rule u32_at_words [OF that])
  have w0: "u32_at (db_hash (pb_blobs p)) 0 = nb" "unat (u32_at (db_hash (pb_blobs p)) (4 * 1)) = total_dynsym d"
    using word [of 0] word [of 1] unat_of_nat_u32 [OF small] by (simp_all add: ws_def)
  let ?h = "unat (elf_sysv_hash n mod nb)"
  have hm: "?h < m" using nb by (simp add: unat_mod m(2))
  have b: "u32_at (db_hash (pb_blobs p)) (4 * (2 + ?h)) = B ! ?h"
    using word [of "2 + ?h"] hm lk(1) by (simp add: ws_def nth_append)
  have idx: "\<forall>j \<in> set (map fst (bucket_items nb items ?h)). unat j < total_dynsym d"
    using hashed_symbols_ok(3) [OF small dist, of st] by (auto simp: bucket_items_def items_def)
  have nx: "\<forall>j \<in> set (map fst (bucket_items nb items ?h)).
      u32_at (db_hash (pb_blobs p)) (4 * (2 + unat nb + unat j)) = C ! unat j"
  proof
    fix j
    assume "j \<in> set (map fst (bucket_items nb items ?h))"
    then have j: "unat j < total_dynsym d" using idx by blast
    then have "2 + unat nb + unat j < length ws" by (simp add: ws_def lk(1,2) nb(1))
    then have "u32_at (db_hash (pb_blobs p)) (4 * (2 + unat nb + unat j)) = ws ! (2 + unat nb + unat j)" by (rule word)
    also have "\<dots> = C ! unat j" using j by (simp add: ws_def nth_append lk(1,2) nb(1))
    finally show "u32_at (db_hash (pb_blobs p)) (4 * (2 + unat nb + unat j)) = C ! unat j" .
  qed
  have "length (bucket_items nb items ?h) \<le> length items" by (simp add: bucket_items_def)
  then have "length (map fst (bucket_items nb items ?h)) < total_dynsym d"
    using length_hashed_symbols [of st d] by (simp add: items_def)
  then have "sysv_lookup (pb_blobs p) n =
      Some (find (\<lambda>i. dynsym_name (pb_blobs p) i = ascii n) (map fst (bucket_items nb items ?h)))"
    unfolding sysv_lookup_def Let_def w0 b using lk(3) hm nx by (intro chain_find_linked) auto
  also have "\<dots> = Some (lookup_answer st d n)"
    unfolding items_def lookup_answer_def
    using dynsym_name_index [OF p nn len] inj_ascii small
    by (intro arg_cong [of _ _ Some] sysv_find [OF small dist]) (auto simp: dyn_names_def total_dynsym_def)
  finally show ?thesis .
qed

text \<open>A shared object with one import and two exports.\<close>

definition dyn_demo :: dynamic_info where
  "dyn_demo =
     \<lparr>di_imports = [''puts''], di_import_versions = [None], di_import_sonames = [None], di_needed = [''libc.so''],
      di_interp = None, di_rpath = None, di_enable_new_dtags = True, di_hash_style = Sysv, di_pie = False,
      di_n_relative = 0, di_n_irelative = 0, di_shared = True, di_soname = None,
      di_exports = [\<lparr>ex_name = ''f'', ex_info = 18, ex_other = 0\<rparr>, \<lparr>ex_name = ''g'', ex_info = 18, ex_other = 0\<rparr>],
      di_n_tls_reloc = 0, di_copy_relocs = [], di_n_symbolic_data = 0\<rparr>"

theorem sysv_lookup_finds_witness:
  "\<exists>p. prebuild_dynamic symbol_table_new True dyn_demo = Ok p \<and>
     sysv_lookup (pb_blobs p) ''g'' = Some (Some 3) \<and> sysv_lookup (pb_blobs p) ''puts'' = Some None"
proof -
  obtain p where p: "prebuild_dynamic symbol_table_new True dyn_demo = Ok p"
    and len: "length (db_dynstr (pb_blobs p)) = 18"
    by (simp add: prebuild_dynamic_def dyn_demo_def push_str_def push_opt_def collect_versions_def version_reqs_def
        version_step_def Let_def ascii_def)
  have ok: "dyn_names_ok dyn_demo p"
    by (simp add: dyn_names_ok_def len dyn_names_def dyn_demo_def no_nul_def ascii_def total_dynsym_def)
  have style: "di_hash_style dyn_demo \<noteq> Gnu" by (simp add: dyn_demo_def)
  have "lookup_answer symbol_table_new dyn_demo ''g'' = Some 3" "lookup_answer symbol_table_new dyn_demo ''puts'' = None"
    by (simp_all add: lookup_answer_def dyn_names_def dyn_demo_def copy_imports_def map_filter_simps upt_rec)
  then show ?thesis using p sysv_lookup_finds [OF p style ok] by auto
qed

end
