(* ===== verification/Relocatable.thy ===== *)
theory Relocatable
  imports Dyn_Prebuild Rust_Text
begin

text \<open>
  Native relocatable output, \<^verbatim>\<open>peony-emit/src/relocatable.rs\<close>: input sections are concatenated by name, symbols merged, and
  relocations carried over.  Where the source keeps four mutable tables, each pass here returns its table; \<open>None\<close> is a
  panic.  Writing the file is left out.  A hash map from names to positions is a function to options.

  \<open>relocatable_keeps_relocs\<close> shows what the file header promises: a relocation of the output sits at the place of the input
  relocation and its symbol denotes the place the input symbol denoted, although no addend was touched.
\<close>

section \<open>Tables\<close>

definition is_regenerated :: "u32 \<Rightarrow> bool" where
  "is_regenerated t \<longleftrightarrow> t \<in> {SHT_NULL, SHT_SYMTAB, SHT_STRTAB, SHT_RELA, 9, 17, SHT_SYMTAB_SHNDX}"

record rel_part =
  rp_obj :: nat
  rp_pos :: nat
  rp_offset :: u64

record rel_section =
  rs_name :: name
  rs_sh_type :: u32
  rs_sh_flags :: u64
  rs_addralign :: u64
  rs_size :: u64
  rs_parts :: "rel_part list"

record str_tab =
  tab_bytes :: bytes
  tab_seen :: "name \<rightharpoonup> u32"

definition str_tab_new :: str_tab where
  "str_tab_new = \<lparr>tab_bytes = [0], tab_seen = Map.empty\<rparr>"

definition intern :: "name \<Rightarrow> str_tab \<Rightarrow> u32 \<times> str_tab" where
  "intern s t =
     (if s = [] then (0, t)
      else case tab_seen t s of
        Some off \<Rightarrow> (off, t)
      | None \<Rightarrow>
          (let off = of_nat (length (tab_bytes t))
           in (off, \<lparr>tab_bytes = tab_bytes t @ ascii s @ [0], tab_seen = (tab_seen t)(s \<mapsto> off)\<rparr>)))"

record rel_sym =
  st_name :: u32
  st_sinfo :: u8
  st_other :: u8
  st_shndx :: u16
  st_value :: u64
  st_size :: u64

definition rel_align_up :: "u64 \<Rightarrow> u64 \<Rightarrow> u64" where
  "rel_align_up v a = (if a \<le> 1 then v else (v + a - 1) AND NOT (a - 1))"

abbreviation (input) SHN_ABS :: u16 where "SHN_ABS \<equiv> 0xfff1"
abbreviation (input) SHN_COMMON :: u16 where "SHN_COMMON \<equiv> 0xfff2"

section \<open>Pass 1: sections by name\<close>

record grouping =
  gr_sections :: "rel_section list"
  gr_index :: "name \<rightharpoonup> nat"
  gr_placement :: "nat \<times> nat \<rightharpoonup> nat \<times> u64"

definition add_part :: "nat \<Rightarrow> nat \<Rightarrow> input_section \<Rightarrow> nat \<Rightarrow> grouping \<Rightarrow> grouping" where
  "add_part i p sec k g =
     (let out = gr_sections g ! k; align = max (sec_align sec) 1; off = rel_align_up (rs_size out) align
      in g\<lparr>gr_sections := (gr_sections g)[k := out\<lparr>rs_size := off + sec_size sec, rs_addralign := max (rs_addralign out) align,
             rs_sh_flags := rs_sh_flags out OR sec_flags sec,
             rs_parts := rs_parts out @ [\<lparr>rp_obj = i, rp_pos = p, rp_offset = off\<rparr>]\<rparr>],
           gr_placement := (gr_placement g)((i, p) \<mapsto> (k, off))\<rparr>)"

definition group_rel_section :: "(nat \<times> nat) \<times> input_section \<Rightarrow> grouping \<Rightarrow> grouping" where
  "group_rel_section x g =
     (let ((i, p), sec) = x in
      if is_regenerated (sec_sh_type sec) \<or> sec_name sec = [] then g
      else (let n = from_utf8_lossy (sec_name sec) in
        case gr_index g n of
          Some k \<Rightarrow> add_part i p sec k g
        | None \<Rightarrow>
            add_part i p sec (length (gr_sections g))
              (g\<lparr>gr_sections := gr_sections g @
                   [\<lparr>rs_name = n, rs_sh_type = sec_sh_type sec, rs_sh_flags = sec_flags sec,
                     rs_addralign = max (sec_align sec) 1, rs_size = 0, rs_parts = []\<rparr>],
                 gr_index := (gr_index g)(n \<mapsto> length (gr_sections g))\<rparr>)))"

definition rel_inputs :: "input_object list \<Rightarrow> ((nat \<times> nat) \<times> input_section) list" where
  "rel_inputs objs =
     concat (map (\<lambda>(i, obj). map (\<lambda>(p, sec). ((i, p), sec)) (enumerate 0 (sections obj))) (enumerate 0 objs))"

definition group_rel_sections :: "input_object list \<Rightarrow> grouping" where
  "group_rel_sections objs =
     fold group_rel_section (rel_inputs objs) \<lparr>gr_sections = [], gr_index = Map.empty, gr_placement = Map.empty\<rparr>"

section \<open>Pass 2: symbols\<close>

definition out_shndx :: "nat \<Rightarrow> u16" where
  "out_shndx k = of_nat (k + 1)"

definition placed_at :: "grouping \<Rightarrow> input_object list \<Rightarrow> nat \<Rightarrow> nat \<Rightarrow> (nat \<times> u64) option" where
  "placed_at g objs i si =
     gr_placement g (i, case Option.bind (get objs i) (\<lambda>obj. section_pos obj si) of Some p \<Rightarrow> p | None \<Rightarrow> MISSING_INDEX)"

record merged_symbols =
  ms_syms :: "rel_sym list"
  ms_strtab :: str_tab
  ms_local :: "nat \<times> u32 \<rightharpoonup> u32"
  ms_global :: "name \<rightharpoonup> u32"

definition push_sym :: "name \<Rightarrow> (u32 \<Rightarrow> rel_sym) \<Rightarrow> merged_symbols \<Rightarrow> merged_symbols" where
  "push_sym n mk m =
     (let (off, t) = intern n (ms_strtab m) in m\<lparr>ms_syms := ms_syms m @ [mk off], ms_strtab := t\<rparr>)"

definition local_site :: "grouping \<Rightarrow> input_object list \<Rightarrow> nat \<Rightarrow> input_symbol \<Rightarrow> (u16 \<times> u64) option" where
  "local_site g objs i s =
     (if sym_st_type s = STT_FILE then Some (SHN_ABS, sym_value s)
      else case sym_section s of
        Some si \<Rightarrow> map_option (\<lambda>(k, off). (out_shndx k, sym_value s + off)) (placed_at g objs i si)
      | None \<Rightarrow> Some (SHN_ABS, sym_value s))"

definition merge_local :: "grouping \<Rightarrow> input_object list \<Rightarrow> nat \<times> input_symbol \<Rightarrow> merged_symbols \<Rightarrow> merged_symbols" where
  "merge_local g objs x m =
     (let (i, s) = x in
      if sym_binding s \<noteq> Local then m
      else case local_site g objs i s of
        None \<Rightarrow> m
      | Some (shndx, v) \<Rightarrow>
          (push_sym (sym_name s) (\<lambda>off. \<lparr>st_name = off, st_sinfo = st_info 0 (sym_st_type s), st_other = sym_visibility s,
              st_shndx = shndx, st_value = v, st_size = sym_size s\<rparr>) m)
            \<lparr>ms_local := (ms_local m)((i, of_nat (sym_index s)) \<mapsto> of_nat (length (ms_syms m)))\<rparr>)"

definition rel_symbols :: "input_object list \<Rightarrow> (nat \<times> input_symbol) list" where
  "rel_symbols objs = concat (map (\<lambda>(i, obj). map (Pair i) (symbols obj)) (enumerate 0 objs))"

definition merge_locals :: "grouping \<Rightarrow> input_object list \<Rightarrow> merged_symbols" where
  "merge_locals g objs =
     fold (merge_local g objs) (rel_symbols objs)
       \<lparr>ms_syms = [\<lparr>st_name = 0, st_sinfo = 0, st_other = 0, st_shndx = 0, st_value = 0, st_size = 0\<rparr>],
        ms_strtab = str_tab_new, ms_local = Map.empty, ms_global = Map.empty\<rparr>"

text \<open>Section index, value, size and type of a resolved name.\<close>

definition global_site :: "grouping \<Rightarrow> input_object list \<Rightarrow> resolution \<Rightarrow> u16 \<times> u64 \<times> u64 \<times> u8" where
  "global_site g objs r =
     (case res_common r of
        Some (sz, align) \<Rightarrow> (SHN_COMMON, align, sz, STT_OBJECT)
      | None \<Rightarrow>
          (case (res_defined_in r, res_section_index r) of
             (Some d, Some si) \<Rightarrow>
               (case placed_at g objs (unat d) si of
                  Some (k, off) \<Rightarrow> (out_shndx k, res_value r + off, res_size r, res_st_type r)
                | None \<Rightarrow> (0, 0, 0, STT_NOTYPE))
           | (Some d, None) \<Rightarrow> (SHN_ABS, res_value r, res_size r, res_st_type r)
           | (None, _) \<Rightarrow> (0, 0, 0, STT_NOTYPE)))"

definition merge_global :: "grouping \<Rightarrow> input_object list \<Rightarrow> name \<times> resolution \<Rightarrow> merged_symbols \<Rightarrow> merged_symbols" where
  "merge_global g objs x m =
     (let (n, r) = x; (shndx, v, sz, typ) = global_site g objs r in
      (push_sym n (\<lambda>off. \<lparr>st_name = off, st_sinfo = st_info (if res_binding r = Weak then 2 else 1) typ,
          st_other = res_visibility r, st_shndx = shndx, st_value = v, st_size = sz\<rparr>) m)
        \<lparr>ms_global := (ms_global m)(n \<mapsto> of_nat (length (ms_syms m)))\<rparr>)"

definition merge_symbols :: "grouping \<Rightarrow> input_object list \<Rightarrow> symbol_table \<Rightarrow> merged_symbols" where
  "merge_symbols g objs st = fold (merge_global g objs) (resolutions st) (merge_locals g objs)"

definition out_sym_for :: "merged_symbols \<Rightarrow> input_object list \<Rightarrow> nat \<Rightarrow> u32 \<Rightarrow> u32" where
  "out_sym_for m objs i raw =
     (case ms_local m (i, raw) of
        Some k \<Rightarrow> k
      | None \<Rightarrow>
          (case Option.bind (get objs i) (\<lambda>obj. symbol_by_index obj (unat raw)) of
             Some s \<Rightarrow> (case ms_global m (sym_name s) of Some k \<Rightarrow> k | None \<Rightarrow> 0)
           | None \<Rightarrow> 0))"

section \<open>Pass 3: relocations\<close>

definition reloc_row :: "merged_symbols \<Rightarrow> input_object list \<Rightarrow> rel_part \<Rightarrow> input_reloc \<Rightarrow> bytes" where
  "reloc_row m objs part r =
     to_le 8 (rp_offset part + r_offset r) @
     to_le 8 (push_bit 32 (ucast (out_sym_for m objs (rp_obj part) (of_nat (r_symbol r))) :: u64) OR ucast (r_type r)) @
     to_le 8 (r_addend r)"

definition part_relocs :: "input_object list \<Rightarrow> rel_part \<Rightarrow> input_reloc list" where
  "part_relocs objs part = sec_relocs (sections (objs ! rp_obj part) ! rp_pos part)"

definition section_rela :: "merged_symbols \<Rightarrow> input_object list \<Rightarrow> rel_section \<Rightarrow> bytes" where
  "section_rela m objs out =
     concat (map (\<lambda>part. concat (map (reloc_row m objs part) (part_relocs objs part))) (rs_parts out))"

definition rela_sections :: "merged_symbols \<Rightarrow> input_object list \<Rightarrow> rel_section list \<Rightarrow> (nat \<times> bytes) list" where
  "rela_sections m objs outs =
     filter (\<lambda>(k, bs). bs \<noteq> []) (map (\<lambda>(k, out). (k, section_rela m objs out)) (enumerate 0 outs))"

section \<open>The file\<close>

definition sym_bytes :: "rel_sym \<Rightarrow> bytes" where
  "sym_bytes s =
     to_le 4 (st_name s) @ [st_sinfo s, st_other s] @ to_le 2 (st_shndx s) @ to_le 8 (st_value s) @ to_le 8 (st_size s)"

definition resize :: "nat \<Rightarrow> bytes \<Rightarrow> bytes" where
  "resize n b = take n b @ replicate (n - length b) 0"

fun copy_parts :: "input_arena \<Rightarrow> input_object list \<Rightarrow> nat \<Rightarrow> rel_part list \<Rightarrow> bytes \<Rightarrow> bytes option" where
  "copy_parts arena objs start [] file = Some file"
| "copy_parts arena objs start (part # parts) file =
     Option.bind (arena_bytes arena (sec_data (sections (objs ! rp_obj part) ! rp_pos part))) (\<lambda>data.
       Option.bind (splice file (start + unat (rp_offset part)) data) (copy_parts arena objs start parts))"

definition place_rel_section ::
  "input_arena \<Rightarrow> input_object list \<Rightarrow> rel_section \<Rightarrow> bytes \<Rightarrow> (bytes \<times> u64) option" where
  "place_rel_section arena objs out file =
     (if rs_sh_type out = SHT_NOBITS then Some (file, of_nat (length file))
      else (let off = rel_align_up (of_nat (length file)) (max (rs_addralign out) 1);
                file1 = resize (unat off) file; start = length file1
            in map_option (\<lambda>f. (f, off))
                 (copy_parts arena objs start (rs_parts out) (resize (start + unat (rs_size out)) file1))))"

fun place_rel_sections ::
  "input_arena \<Rightarrow> input_object list \<Rightarrow> rel_section list \<Rightarrow> bytes \<Rightarrow> (bytes \<times> u64 list) option" where
  "place_rel_sections arena objs [] file = Some (file, [])"
| "place_rel_sections arena objs (out # outs) file =
     Option.bind (place_rel_section arena objs out file) (\<lambda>(file1, off).
       map_option (\<lambda>(file2, offs). (file2, off # offs)) (place_rel_sections arena objs outs file1))"

definition append_aligned :: "u64 \<Rightarrow> bytes \<Rightarrow> bytes \<Rightarrow> bytes \<times> u64" where
  "append_aligned a bs file =
     (let off = rel_align_up (of_nat (length file)) a in (resize (unat off) file @ bs, off))"

fun append_all :: "bytes list \<Rightarrow> bytes \<Rightarrow> bytes \<times> u64 list" where
  "append_all [] file = (file, [])"
| "append_all (bs # bss) file =
     (let (file1, off) = append_aligned 8 bs file; (file2, offs) = append_all bss file1 in (file2, off # offs))"

definition section_entsize :: "u32 \<Rightarrow> u64" where
  "section_entsize t = (if t = SHT_SYMTAB \<or> t = SHT_DYNSYM then 24 else if t = SHT_RELA then 24 else if t = 9 then 16 else 0)"

definition rel_shdr ::
  "u32 \<Rightarrow> u32 \<Rightarrow> u64 \<Rightarrow> u64 \<Rightarrow> u64 \<Rightarrow> u32 \<Rightarrow> u32 \<Rightarrow> u64 \<Rightarrow> u64 \<Rightarrow> bytes" where
  "rel_shdr nm typ flags off sz link info align entsize =
     to_le 4 nm @ to_le 4 typ @ to_le 8 flags @ to_le 8 (0 :: u64) @ to_le 8 off @ to_le 8 sz @
     to_le 4 link @ to_le 4 info @ to_le 8 align @ to_le 8 entsize"

definition rel_ehdr :: "u64 \<Rightarrow> u16 \<Rightarrow> u16 \<Rightarrow> bytes" where
  "rel_ehdr shoff shnum shstrndx =
     [0x7f, 0x45, 0x4c, 0x46, 2, 1, 1] @ replicate 9 0 @ to_le 2 (1 :: u16) @ to_le 2 (62 :: u16) @ to_le 4 (1 :: u32) @
     replicate 16 0 @ to_le 8 shoff @ replicate 4 0 @ to_le 2 (64 :: u16) @ to_le 2 (0 :: u16) @ to_le 2 (0 :: u16) @
     to_le 2 (64 :: u16) @ to_le 2 shnum @ to_le 2 shstrndx"

fun intern_all :: "name list \<Rightarrow> str_tab \<Rightarrow> u32 list \<times> str_tab" where
  "intern_all [] t = ([], t)"
| "intern_all (n # ns) t = (let (off, t1) = intern n t; (offs, t2) = intern_all ns t1 in (off # offs, t2))"

text \<open>The section headers in table order, from the name offsets and file offsets.\<close>

definition rel_shdrs ::
  "rel_section list \<Rightarrow> (nat \<times> bytes) list \<Rightarrow> u32 list \<Rightarrow> u32 list \<Rightarrow> u32 list \<Rightarrow> u64 list \<Rightarrow> u64 list \<Rightarrow>
   (u64 \<times> nat) list \<Rightarrow> u32 \<Rightarrow> bytes" where
  "rel_shdrs outs rela out_names rela_names tab_names out_offs rela_offs tabs first_global =
     (let symtab_shndx = 1 + length outs + length rela in
      rel_shdr 0 SHT_NULL 0 0 0 0 0 0 0 @
      concat (map (\<lambda>(out, nm, off). rel_shdr nm (rs_sh_type out) (rs_sh_flags out) off (rs_size out) 0 0 (rs_addralign out)
          (section_entsize (rs_sh_type out))) (zip outs (zip out_names out_offs))) @
      concat (map (\<lambda>((k, bs), nm, off). rel_shdr nm SHT_RELA 0 off (of_nat (length bs)) (of_nat symtab_shndx) (of_nat (k + 1)) 8 24)
          (zip rela (zip rela_names rela_offs))) @
      rel_shdr (tab_names ! 0) SHT_SYMTAB 0 (fst (tabs ! 0)) (of_nat (snd (tabs ! 0))) (of_nat (symtab_shndx + 1)) first_global 8 24 @
      rel_shdr (tab_names ! 1) SHT_STRTAB 0 (fst (tabs ! 1)) (of_nat (snd (tabs ! 1))) 0 0 1 0 @
      rel_shdr (tab_names ! 2) SHT_STRTAB 0 (fst (tabs ! 2)) (of_nat (snd (tabs ! 2))) 0 0 1 0)"

definition emit_relocatable :: "input_arena \<Rightarrow> input_object list \<Rightarrow> symbol_table \<Rightarrow> bytes option" where
  "emit_relocatable arena objs st =
     (let g = group_rel_sections objs; outs = gr_sections g; locals = merge_locals g objs; m = merge_symbols g objs st;
          rela = rela_sections m objs outs; shnum = 1 + length outs + length rela + 3;
          (out_names, t1) = intern_all (map rs_name outs) str_tab_new;
          (rela_names, t2) = intern_all (map (\<lambda>(k, bs). ''.rela'' @ rs_name (outs ! k)) rela) t1;
          (tab_names, t3) = intern_all [''.symtab'', ''.strtab'', ''.shstrtab''] t2;
          symtab = concat (map sym_bytes (ms_syms m)); strtab = tab_bytes (ms_strtab m); shstr = tab_bytes t3
      in map_option (\<lambda>(f0, out_offs).
           let (f1, rela_offs) = append_all (map snd rela) f0;
               (f2, symtab_off) = append_aligned 8 symtab f1;
               f3 = f2 @ strtab; f4 = f3 @ shstr;
               tabs = [(symtab_off, length symtab), (of_nat (length f2), length strtab), (of_nat (length f3), length shstr)];
               shoff = rel_align_up (of_nat (length f4)) 8;
               f5 = resize (unat shoff) f4 @ rel_shdrs outs rela out_names rela_names tab_names out_offs rela_offs tabs
                      (of_nat (length (ms_syms locals)))
           in rel_ehdr shoff (of_nat shnum) (of_nat (shnum - 1)) @ drop 64 f5)
         (place_rel_sections arena objs outs (replicate 64 0)))"

section \<open>Every section is where the table says\<close>

definition grouping_ok :: "grouping \<Rightarrow> bool" where
  "grouping_ok g \<longleftrightarrow> (\<forall>n k. gr_index g n = Some k \<longrightarrow> k < length (gr_sections g)) \<and>
     (\<forall>i p k off. gr_placement g (i, p) = Some (k, off) \<longrightarrow> k < length (gr_sections g) \<and>
        \<lparr>rp_obj = i, rp_pos = p, rp_offset = off\<rparr> \<in> set (rs_parts (gr_sections g ! k)))"

lemma add_part_ok: "grouping_ok g \<Longrightarrow> k < length (gr_sections g) \<Longrightarrow> grouping_ok (add_part i p sec k g)"
  by (auto simp: grouping_ok_def add_part_def Let_def nth_list_update split: if_splits)

lemma new_section_ok:
  assumes "grouping_ok g"
  shows "grouping_ok (g\<lparr>gr_sections := gr_sections g @ [out], gr_index := (gr_index g)(n \<mapsto> length (gr_sections g))\<rparr>)"
  using assms by (fastforce simp: grouping_ok_def nth_append less_SucI split: if_splits)

lemma group_rel_section_ok: "grouping_ok g \<Longrightarrow> grouping_ok (group_rel_section x g)"
proof -
  assume g: "grouping_ok g"
  obtain i p sec where x: "x = ((i, p), sec)" by (metis prod.collapse)
  show ?thesis
  proof (cases "gr_index g (from_utf8_lossy (sec_name sec))")
    case None
    show ?thesis
      using g None by (simp add: x group_rel_section_def Let_def) (intro impI add_part_ok new_section_ok, simp_all)
  next
    case (Some k)
    then have "k < length (gr_sections g)" using g by (simp add: grouping_ok_def)
    then show ?thesis using g Some by (simp add: x group_rel_section_def add_part_ok)
  qed
qed

lemma group_rel_sections_ok: "grouping_ok (group_rel_sections objs)"
proof -
  have "grouping_ok g \<Longrightarrow> grouping_ok (fold group_rel_section xs g)" for xs g
    by (induction xs arbitrary: g) (simp_all add: group_rel_section_ok)
  then show ?thesis by (simp add: group_rel_sections_def grouping_ok_def)
qed

section \<open>The merged symbols\<close>

lemma push_sym_simps [simp]:
  "ms_local (push_sym n mk m) = ms_local m" "ms_global (push_sym n mk m) = ms_global m"
  "ms_syms (push_sym n mk m) = ms_syms m @ [mk (fst (intern n (ms_strtab m)))]"
  by (simp_all add: push_sym_def split_beta)

definition sym_key :: "nat \<times> input_symbol \<Rightarrow> nat \<times> u32" where
  "sym_key x = (fst x, of_nat (sym_index (snd x)))"

definition at_site :: "rel_sym list \<Rightarrow> u32 option \<Rightarrow> u16 \<times> u64 \<Rightarrow> bool" where
  "at_site syms j w \<longleftrightarrow>
     (\<exists>k < length syms. j = Some (of_nat k) \<and> (st_shndx (syms ! k), st_value (syms ! k)) = w)"

lemma at_site_append: "at_site syms j w \<Longrightarrow> at_site (syms @ xs) j w"
  by (auto simp: at_site_def nth_append)

lemma merge_locals_sites:
  assumes "distinct (map sym_key xs)" "ms_local m0 = Map.empty"
  shows "x \<in> set xs \<Longrightarrow> sym_binding (snd x) = Local \<Longrightarrow> local_site g objs (fst x) (snd x) = Some w \<Longrightarrow>
       at_site (ms_syms (fold (merge_local g objs) xs m0)) (ms_local (fold (merge_local g objs) xs m0) (sym_key x)) w"
    and "ms_local (fold (merge_local g objs) xs m0) key = Some j \<Longrightarrow> \<exists>x \<in> set xs. sym_binding (snd x) = Local \<and> sym_key x = key"
proof (atomize (full), use assms(1) in \<open>induction xs arbitrary: x w key j rule: rev_induct\<close>)
  case Nil
  show ?case using assms(2) by simp
next
  case (snoc y xs)
  obtain i s where y: "y = (i, s)" by force
  let ?m = "fold (merge_local g objs) xs m0"
  have d: "distinct (map sym_key xs)" "sym_key y \<notin> sym_key ` set xs" using snoc.prems by auto
  note IH = snoc.IH [OF d(1)]
  show ?case
  proof (cases "sym_binding s \<noteq> Local \<or> local_site g objs i s = None")
    case True
    then have "fold (merge_local g objs) (xs @ [y]) m0 = ?m" by (auto simp: merge_local_def y)
    then show ?thesis using IH True y by auto
  next
    case False
    then obtain sh v where loc: "sym_binding s = Local" "local_site g objs i s = Some (sh, v)" by auto
    have "\<exists>e. st_shndx e = sh \<and> st_value e = v \<and> ms_syms (merge_local g objs y ?m) = ms_syms ?m @ [e]"
      using loc by (simp add: merge_local_def y)
    then obtain e where e: "st_shndx e = sh" "st_value e = v" "ms_syms (merge_local g objs y ?m) = ms_syms ?m @ [e]" by blast
    have l: "ms_local (merge_local g objs y ?m) = (ms_local ?m)(sym_key y \<mapsto> of_nat (length (ms_syms ?m)))"
      using loc by (simp add: merge_local_def y sym_key_def)
    have new: "at_site (ms_syms ?m @ [e]) (Some (of_nat (length (ms_syms ?m)))) (sh, v)"
      using e(1,2) by (auto simp: at_site_def)
    have old: "sym_key x \<noteq> sym_key y" if "x \<in> set xs" for x using d(2) that by (metis imageI)
    show ?thesis
    proof (intro conjI impI)
      assume x: "x \<in> set (xs @ [y])" "sym_binding (snd x) = Local" "local_site g objs (fst x) (snd x) = Some w"
      show "at_site (ms_syms (fold (merge_local g objs) (xs @ [y]) m0)) (ms_local (fold (merge_local g objs) (xs @ [y]) m0) (sym_key x)) w"
      proof (cases "x = y")
        case True
        then show ?thesis using x(3) loc(2) new e(3) l by (simp add: y)
      next
        case False
        then have "x \<in> set xs" using x(1) by simp
        then show ?thesis using IH x(2,3) old e(3) l by (simp add: at_site_append)
      qed
    next
      assume "ms_local (fold (merge_local g objs) (xs @ [y]) m0) key = Some j"
      then show "\<exists>x \<in> set (xs @ [y]). sym_binding (snd x) = Local \<and> sym_key x = key"
        using IH l loc(1) by (cases "key = sym_key y") (auto simp: y)
    qed
  qed
qed

lemma merge_global_simps:
  "ms_local (merge_global g objs x m) = ms_local m"
  "ms_global (merge_global g objs x m) = (ms_global m)(fst x \<mapsto> of_nat (length (ms_syms m)))"
  "\<exists>e. ms_syms (merge_global g objs x m) = ms_syms m @ [e] \<and>
     (st_shndx e, st_value e) = (fst (global_site g objs (snd x)), fst (snd (global_site g objs (snd x))))"
  by (simp_all add: merge_global_def Let_def split_beta)

lemma merge_globals_sites:
  "distinct (map fst rs) \<Longrightarrow>
     ms_local (fold (merge_global g objs) rs m0) = ms_local m0 \<and>
     (\<exists>xs. ms_syms (fold (merge_global g objs) rs m0) = ms_syms m0 @ xs) \<and>
     (\<forall>(n, r) \<in> set rs. at_site (ms_syms (fold (merge_global g objs) rs m0)) (ms_global (fold (merge_global g objs) rs m0) n)
        (fst (global_site g objs r), fst (snd (global_site g objs r))))"
proof (induction rs rule: rev_induct)
  case (snoc x rs)
  let ?m = "fold (merge_global g objs) rs m0"
  obtain e where e: "ms_syms (merge_global g objs x ?m) = ms_syms ?m @ [e]"
      "(st_shndx e, st_value e) = (fst (global_site g objs (snd x)), fst (snd (global_site g objs (snd x))))"
    using merge_global_simps(3) by blast
  have "distinct (map fst rs)" using snoc.prems by simp
  from snoc.IH [OF this] obtain xs where IH: "ms_local ?m = ms_local m0" "ms_syms ?m = ms_syms m0 @ xs"
      "\<And>n r. (n, r) \<in> set rs \<Longrightarrow> at_site (ms_syms ?m) (ms_global ?m n) (fst (global_site g objs r), fst (snd (global_site g objs r)))"
    by blast
  have new: "at_site (ms_syms ?m @ [e]) (Some (of_nat (length (ms_syms ?m))))
      (fst (global_site g objs (snd x)), fst (snd (global_site g objs (snd x))))"
    using e(2) by (auto simp: at_site_def)
  have "at_site (ms_syms ?m @ [e]) (ms_global (merge_global g objs x ?m) n) (fst (global_site g objs r), fst (snd (global_site g objs r)))"
    if "(n, r) \<in> set (rs @ [x])" for n r
  proof (cases "(n, r) = x")
    case True
    then show ?thesis using new by (auto simp: merge_global_simps(2))
  next
    case False
    then have n: "(n, r) \<in> set rs" using that by simp
    then have "n \<noteq> fst x" using snoc.prems by (auto simp: rev_image_eqI)
    then show ?thesis using IH(3) [OF n] by (simp add: merge_global_simps(2) at_site_append)
  qed
  then show ?case using e(1) IH(1,2) by (auto simp: merge_global_simps(1))
qed simp

section \<open>Relocations carry over\<close>

lemma slice_rows:
  assumes "\<forall>r \<in> set rows. length r = n" "i < length rows"
  shows "slice (n * i) n (concat rows) = Some (rows ! i)"
proof -
  have "length (concat rs) = n * length rs" if "\<forall>r \<in> set rs. length r = n" for rs :: "'a list list"
    using that by (induction rs) auto
  then have l: "length (concat (take i rows)) = n * i" using assms by (metis in_set_takeD length_take less_imp_le min.absorb4 assms(2))
  have "rows = take i rows @ rows ! i # drop (Suc i) rows" using assms(2) by (simp add: id_take_nth_drop)
  then have c: "concat rows = concat (take i rows) @ rows ! i @ concat (drop (Suc i) rows)" by (metis concat.simps(2) concat_append)
  have "length (rows ! i) = n" using assms by simp
  then show ?thesis unfolding c using l by (simp add: slice_def)
qed

definition objects_numbered :: "input_object list \<Rightarrow> bool" where
  "objects_numbered objs \<longleftrightarrow>
     (\<forall>obj \<in> set objs. distinct (map sym_index (symbols obj)) \<and> (\<forall>s \<in> set (symbols obj). sym_index s < 2 ^ 32) \<and>
        (\<forall>raw s. symbol_by_index obj raw = Some s \<longrightarrow> s \<in> set (symbols obj) \<and> sym_index s = raw))"

lemma rel_symbols_mem: "(i, s) \<in> set (rel_symbols objs) \<longleftrightarrow> i < length objs \<and> s \<in> set (symbols (objs ! i))"
  unfolding rel_symbols_def by (force simp: in_set_enumerate_eq)

lemma distinct_enumerated:
  "\<forall>x \<in> set xs. distinct (map f (h x)) \<Longrightarrow>
     distinct (map (\<lambda>(i, s). (i, f s)) (concat (map (\<lambda>(i, x). map (Pair i) (h x)) (enumerate n xs))))"
proof (induction xs arbitrary: n)
  case (Cons x xs)
  let ?ys = "concat (map (\<lambda>(i, x). map (Pair i) (h x)) (enumerate (Suc n) xs))"
  have "i \<noteq> n" if "(i, s) \<in> set ?ys" for i s using that by (auto simp: in_set_enumerate_eq)
  then have disj: "set (map (\<lambda>(i, s). (i, f s)) (map (Pair n) (h x))) \<inter> set (map (\<lambda>(i, s). (i, f s)) ?ys) = {}" by fastforce
  have hd: "distinct (map (\<lambda>(i, s). (i, f s)) (map (Pair n) (h x)))"
    using Cons.prems by (auto simp: distinct_map inj_on_def comp_def)
  have tl: "distinct (map (\<lambda>(i, s). (i, f s)) ?ys)" using Cons.IH [of "Suc n"] Cons.prems by simp
  have "concat (map (\<lambda>(i, x). map (Pair i) (h x)) (enumerate n (x # xs))) = map (Pair n) (h x) @ ?ys" by simp
  then show ?case using disj hd tl by (simp only: map_append distinct_append)
qed simp

lemma distinct_sym_keys:
  assumes "objects_numbered objs" shows "distinct (map sym_key (rel_symbols objs))"
proof -
  have "distinct (map (\<lambda>s. of_nat (sym_index s) :: u32) (symbols obj))" if "obj \<in> set objs" for obj
  proof -
    have d: "distinct (map sym_index (symbols obj))" and small: "\<forall>s \<in> set (symbols obj). sym_index s < 2 ^ 32"
      using assms that by (auto simp: objects_numbered_def)
    have "inj_on (of_nat :: nat \<Rightarrow> u32) (sym_index ` set (symbols obj))"
    proof (rule inj_onI)
      fix a b assume "a \<in> sym_index ` set (symbols obj)" "b \<in> sym_index ` set (symbols obj)" "of_nat a = (of_nat b :: u32)"
      then have "unat (of_nat a :: u32) = unat (of_nat b :: u32)" "a < 2 ^ 32" "b < 2 ^ 32" using small by auto
      then show "a = b" by (simp add: unat_of_nat)
    qed
    then have "distinct (map (of_nat :: nat \<Rightarrow> u32) (map sym_index (symbols obj)))" using d by (simp only: distinct_map [of of_nat] set_map)
    then show ?thesis by (simp add: comp_def)
  qed
  moreover have "sym_key = (\<lambda>(i, s). (i, of_nat (sym_index s)))" by (auto simp: sym_key_def fun_eq_iff)
  ultimately show ?thesis
    using distinct_enumerated [of objs "\<lambda>s. of_nat (sym_index s) :: u32" symbols 0] by (simp add: rel_symbols_def)
qed

text \<open>What the relocation's symbol index denotes.\<close>

lemma out_sym_site:
  assumes num: "objects_numbered objs" "distinct (map fst (resolutions st))" and i: "i < length objs"
    and s: "symbol_by_index (objs ! i) raw = Some s"
  shows "sym_binding s = Local \<Longrightarrow> local_site g objs i s = Some w \<Longrightarrow>
       at_site (ms_syms (merge_symbols g objs st)) (Some (out_sym_for (merge_symbols g objs st) objs i (of_nat raw))) w"
    and "sym_binding s \<noteq> Local \<Longrightarrow> lookup st (sym_name s) = Some r \<Longrightarrow>
       at_site (ms_syms (merge_symbols g objs st)) (Some (out_sym_for (merge_symbols g objs st) objs i (of_nat raw)))
         (fst (global_site g objs r), fst (snd (global_site g objs r)))"
proof -
  let ?loc = "merge_locals g objs" and ?m = "merge_symbols g objs st"
  have obj: "objs ! i \<in> set objs" using i by simp
  then have mem: "s \<in> set (symbols (objs ! i))" "sym_index s = raw" "raw < 2 ^ 32"
    using num(1) s by (auto simp: objects_numbered_def)
  have key: "sym_key (i, s) = (i, of_nat raw)" by (simp add: sym_key_def mem(2))
  note l = merge_locals_sites [OF distinct_sym_keys [OF num(1)], where g = g and objs = objs]
  note gl = merge_globals_sites [OF num(2), of g objs ?loc, folded merge_symbols_def]
  have loc: "ms_local ?m = ms_local ?loc" using gl by blast
  show "at_site (ms_syms ?m) (Some (out_sym_for ?m objs i (of_nat raw))) w"
    if "sym_binding s = Local" "local_site g objs i s = Some w"
  proof -
    have "at_site (ms_syms ?loc) (ms_local ?loc (sym_key (i, s))) w"
      using l(1) [where x = "(i, s)" and w = w] that mem(1) i unfolding merge_locals_def by (simp add: rel_symbols_mem)
    then have a: "at_site (ms_syms ?m) (ms_local ?m (i, of_nat raw)) w"
      using gl at_site_append unfolding key loc by metis
    then obtain k where "ms_local ?m (i, of_nat raw) = Some k" by (auto simp: at_site_def)
    then show ?thesis using a by (simp add: out_sym_for_def)
  qed
  show "at_site (ms_syms ?m) (Some (out_sym_for ?m objs i (of_nat raw))) (fst (global_site g objs r), fst (snd (global_site g objs r)))"
    if "sym_binding s \<noteq> Local" "lookup st (sym_name s) = Some r"
  proof -
    have "ms_local ?loc (i, of_nat raw) = None"
    proof (rule ccontr)
      assume "\<not> ?thesis"
      then obtain j where "ms_local ?loc (i, of_nat raw) = Some j" by auto
      from l(2) [OF _ this [unfolded merge_locals_def]]
      obtain x where x: "x \<in> set (rel_symbols objs)" "sym_binding (snd x) = Local" "sym_key x = sym_key (i, s)"
        unfolding key by auto
      moreover have "(i, s) \<in> set (rel_symbols objs)" using mem(1) i by (simp add: rel_symbols_mem)
      ultimately have "x = (i, s)" using distinct_sym_keys [OF num(1)] by (metis distinct_map inj_onD)
      then show False using that(1) x(2) by simp
    qed
    then have none: "ms_local ?m (i, of_nat raw) = None" using loc by simp
    have "(sym_name s, r) \<in> set (resolutions st)" using that(2) by (auto simp: lookup_def dest: map_of_SomeD)
    then have a: "at_site (ms_syms ?m) (ms_global ?m (sym_name s)) (fst (global_site g objs r), fst (snd (global_site g objs r)))"
      using gl by blast
    then obtain k where "ms_global ?m (sym_name s) = Some k" by (auto simp: at_site_def)
    then show ?thesis using a none s i mem(3) by (simp add: out_sym_for_def get_def unat_of_nat)
  qed
qed

definition symbol_denotes ::
  "input_object list \<Rightarrow> symbol_table \<Rightarrow> nat \<Rightarrow> input_symbol \<Rightarrow> nat \<Rightarrow> nat \<Rightarrow> u64 \<Rightarrow> bool" where
  "symbol_denotes objs st i s d p v \<longleftrightarrow>
     (if sym_binding s = Local
      then sym_st_type s \<noteq> STT_FILE \<and> d = i \<and> Option.bind (sym_section s) (section_pos (objs ! i)) = Some p \<and> v = sym_value s
      else case lookup st (sym_name s) of
        None \<Rightarrow> False
      | Some r \<Rightarrow> res_common r = None \<and> map_option unat (res_defined_in r) = Some d \<and>
          Option.bind (res_section_index r) (section_pos (objs ! d)) = Some p \<and> v = res_value r)"

lemma denoted_symbol:
  assumes num: "objects_numbered objs" "distinct (map fst (resolutions st))" and i: "i < length objs" "d < length objs"
    and s: "symbol_by_index (objs ! i) raw = Some s" and d: "symbol_denotes objs st i s d p v"
    and pl: "gr_placement g (d, p) = Some (k, off)"
  shows "at_site (ms_syms (merge_symbols g objs st)) (Some (out_sym_for (merge_symbols g objs st) objs i (of_nat raw)))
       (of_nat (k + 1), v + off)"
proof (cases "sym_binding s = Local")
  case True
  then have "local_site g objs i s = Some (of_nat (k + 1), v + off)"
    using d pl i by (auto simp: symbol_denotes_def local_site_def placed_at_def out_shndx_def get_def bind_eq_Some_conv)
  then show ?thesis using out_sym_site(1) [OF num i(1) s True] by simp
next
  case False
  then obtain r where r: "lookup st (sym_name s) = Some r" using d by (auto simp: symbol_denotes_def split: option.splits)
  then have "fst (global_site g objs r) = of_nat (k + 1)" "fst (snd (global_site g objs r)) = v + off"
    using d pl i False
    by (auto simp: symbol_denotes_def global_site_def placed_at_def out_shndx_def get_def bind_eq_Some_conv)
  then show ?thesis using out_sym_site(2) [OF num i(1) s False r, where g = g] by simp
qed

lemma section_rela_rows:
  assumes "part \<in> set (rs_parts out)" "rel \<in> set (part_relocs objs part)"
  shows "\<exists>row. slice (24 * row) 24 (section_rela m objs out) = Some (reloc_row m objs part rel)"
proof -
  let ?rows = "concat (map (\<lambda>part. map (reloc_row m objs part) (part_relocs objs part)) (rs_parts out))"
  have "concat (map (\<lambda>part. concat (map (f part) (h part))) ps) = concat (concat (map (\<lambda>part. map (f part) (h part)) ps))"
    for f :: "rel_part \<Rightarrow> input_reloc \<Rightarrow> bytes" and h ps
    by (induction ps) simp_all
  then have eq: "section_rela m objs out = concat ?rows" unfolding section_rela_def by blast
  have rows: "\<forall>r \<in> set ?rows. length r = 24" by (auto simp: reloc_row_def)
  have "reloc_row m objs part rel \<in> set ?rows" using assms by auto
  then obtain row where "row < length ?rows" "?rows ! row = reloc_row m objs part rel" unfolding in_set_conv_nth by blast
  then show ?thesis using slice_rows [OF rows, of row] eq by metis
qed

text \<open>@C@relocatable_keeps_relocs In a relocatable output, a relocation of a placed input section has an entry in the
  relocation section of the output section that received it, at the place the input bytes moved to, with its type and its
  addend untouched, and the symbol it names has, in the output symbol table, the section and the offset to which the place
  denoted by the input symbol (a local of the file, or the definition the name resolves to) was moved.\<close>

theorem relocatable_keeps_relocs:
  assumes "objects_numbered objs" "distinct (map fst (resolutions st))" "i < length objs" "d < length objs"
    and "gr_placement (group_rel_sections objs) (i, p) = Some (k, off)"
    and "rel \<in> set (sec_relocs (sections (objs ! i) ! p))"
    and "symbol_by_index (objs ! i) (r_symbol rel) = Some s"
    and "symbol_denotes objs st i s d p' v"
    and "gr_placement (group_rel_sections objs) (d, p') = Some (k', off')"
  shows "\<exists>row bs j. (k, bs) \<in> set (rela_sections (merge_symbols (group_rel_sections objs) objs st) objs
                       (gr_sections (group_rel_sections objs))) \<and>
      slice (24 * row) 24 bs = Some (to_le 8 (off + r_offset rel) @
        to_le 8 (push_bit 32 (ucast (of_nat j :: u32) :: u64) OR ucast (r_type rel)) @ to_le 8 (r_addend rel)) \<and>
      j < length (ms_syms (merge_symbols (group_rel_sections objs) objs st)) \<and>
      st_shndx (ms_syms (merge_symbols (group_rel_sections objs) objs st) ! j) = of_nat (k' + 1) \<and>
      st_value (ms_syms (merge_symbols (group_rel_sections objs) objs st) ! j) = v + off'"
proof -
  let ?g = "group_rel_sections objs"
  let ?m = "merge_symbols ?g objs st" and ?part = "\<lparr>rp_obj = i, rp_pos = p, rp_offset = off\<rparr>"
  obtain j where j: "j < length (ms_syms ?m)" "out_sym_for ?m objs i (of_nat (r_symbol rel)) = of_nat j"
      "st_shndx (ms_syms ?m ! j) = of_nat (k' + 1)" "st_value (ms_syms ?m ! j) = v + off'"
    using denoted_symbol [OF assms(1-4,7,8,9)] by (auto simp: at_site_def)
  have k: "k < length (gr_sections ?g)" and part: "?part \<in> set (rs_parts (gr_sections ?g ! k))"
    using group_rel_sections_ok assms(5) unfolding grouping_ok_def by blast+
  then obtain row where row: "slice (24 * row) 24 (section_rela ?m objs (gr_sections ?g ! k)) = Some (reloc_row ?m objs ?part rel)"
    using section_rela_rows [of ?part] assms(6) by (fastforce simp: part_relocs_def)
  then have "section_rela ?m objs (gr_sections ?g ! k) \<noteq> []" by (auto simp: slice_Some_iff)
  then have "(k, section_rela ?m objs (gr_sections ?g ! k)) \<in> set (rela_sections ?m objs (gr_sections ?g))"
    using k by (auto simp: rela_sections_def in_set_enumerate_eq intro!: image_eqI [where x = "(k, gr_sections ?g ! k)"])
  moreover have "reloc_row ?m objs ?part rel = to_le 8 (off + r_offset rel) @
      to_le 8 (push_bit 32 (ucast (of_nat j :: u32) :: u64) OR ucast (r_type rel)) @ to_le 8 (r_addend rel)"
    using j(2) by (simp add: reloc_row_def)
  ultimately show ?thesis using row j(1,3,4) by metis
qed

definition two_objects :: "input_object list" where
  "two_objects =
     (let sec = \<lparr>sec_index = 1, sec_name = ''.text'', sec_kind = Text, sec_sh_type = SHT_PROGBITS,
                 sec_data = section_data_EMPTY, sec_align = 16, sec_size = 5, sec_flags = 6, sec_relocs = []\<rparr>;
          s = \<lparr>sym_index = 1, sym_name = ''f'', sym_binding = Local, sym_is_undefined = False, sym_is_common = False,
               sym_is_ifunc = False, sym_st_type = STT_FUNC, sym_visibility = STV_DEFAULT, sym_section = Some 1,
               sym_value = 2, sym_size = 0\<rparr>;
          obj = \<lparr>path = ''a.o'', sections = [sec], symbols = [s], section_map = Dense [MISSING_INDEX, 0],
                 symbol_map = Dense [MISSING_INDEX, 0], comdat_groups = []\<rparr>
      in [obj, obj\<lparr>sections := [sec\<lparr>sec_relocs := [\<lparr>r_offset = 1, r_type = 2, r_symbol = 1, r_addend = -4\<rparr>]\<rparr>]\<rparr>])"

lemma two_objects_numbered: "objects_numbered two_objects"
  by (auto simp: objects_numbered_def two_objects_def Let_def symbol_by_index_def symbol_pos_def get_def nth_Cons' split: if_splits)

lemma two_objects_placed:
  "gr_placement (group_rel_sections two_objects) (0, 0) = Some (0, 0)"
  "gr_placement (group_rel_sections two_objects) (1, 0) = Some (0, 16)"
  by code_simp+

theorem relocatable_keeps_relocs_witness:
  "\<exists>row bs j. (0, bs) \<in> set (rela_sections (merge_symbols (group_rel_sections two_objects) two_objects \<lparr>resolutions = [], names = [], object_paths = []\<rparr>)
        two_objects (gr_sections (group_rel_sections two_objects))) \<and>
     slice (24 * row) 24 bs = Some (to_le 8 (17 :: u64) @ to_le 8 (push_bit 32 (ucast (of_nat j :: u32) :: u64) OR 2) @ to_le 8 (- 4 :: i64)) \<and>
     st_value (ms_syms (merge_symbols (group_rel_sections two_objects) two_objects \<lparr>resolutions = [], names = [], object_paths = []\<rparr>) ! j) = 18"
proof -
  let ?st = "\<lparr>resolutions = [], names = [], object_paths = []\<rparr>"
  have "symbol_by_index (two_objects ! 1) 1 = Some (symbols (two_objects ! 1) ! 0)"
    "symbol_denotes two_objects ?st 1 (symbols (two_objects ! 1) ! 0) 1 0 2"
    "\<lparr>r_offset = 1, r_type = 2, r_symbol = 1, r_addend = -4\<rparr> \<in> set (sec_relocs (sections (two_objects ! 1) ! 0))"
    "length two_objects = 2"
    by (simp_all add: two_objects_def Let_def symbol_by_index_def symbol_pos_def symbol_denotes_def section_pos_def)
  then show ?thesis
    using relocatable_keeps_relocs [OF two_objects_numbered, of ?st 1 1 0 0 16 "\<lparr>r_offset = 1, r_type = 2, r_symbol = 1, r_addend = -4\<rparr>"
        "symbols (two_objects ! 1) ! 0" 0 2 0 16] two_objects_placed(2)
    by simp metis
qed

end
