(* ===== verification/Reloc_Index.thy ===== *)
theory Reloc_Index
  imports Object_Model
begin

text \<open>
  The relocation reverse index of \<^verbatim>\<open>peony-cache/src/lib.rs\<close>: a flat linked list of relocations per symbol that threads
  extend concurrently without a lock.  \<open>index_insert_reloc\<close> is the operation run alone; the step relation \<open>insert_step\<close>
  runs any number of threads, one atomic access at a time (load the head, store it as the successor, compare and
  exchange the head), in every order.  Accesses are sequentially consistent here, which is what the release and
  acquire orderings give the readers, who run after the inserting threads are joined.
\<close>

section \<open>The index\<close>

abbreviation (input) NO_ENTRY :: u32 where "NO_ENTRY \<equiv> - 1"

record reloc_reverse_index =
  heads :: "u32 list"
  nexts :: "u32 list"

definition index_new :: "nat \<Rightarrow> nat \<Rightarrow> reloc_reverse_index" where
  "index_new symbol_count reloc_count =
     \<lparr>heads = replicate symbol_count NO_ENTRY, nexts = replicate reloc_count NO_ENTRY\<rparr>"

definition in_index :: "reloc_reverse_index \<Rightarrow> u32 \<times> u32 \<Rightarrow> bool" where
  "in_index ix job \<longleftrightarrow> unat (fst job) < length (heads ix) \<and> unat (snd job) < length (nexts ix)"

definition index_insert_reloc :: "u32 \<Rightarrow> u32 \<Rightarrow> reloc_reverse_index \<Rightarrow> reloc_reverse_index" where
  "index_insert_reloc s r ix =
     (if \<not> in_index ix (s, r) then ix
      else ix\<lparr>nexts := (nexts ix)[unat r := heads ix ! unat s], heads := (heads ix)[unat s := r]\<rparr>)"

text \<open>The iterator, \<open>None\<close> where it would never end.\<close>

partial_function (option) chain_iter :: "u32 list \<Rightarrow> u32 \<Rightarrow> u32 list option" where
  "chain_iter ns cur =
     (if cur = NO_ENTRY then Some []
      else Option.bind (chain_iter ns (case get ns (unat cur) of Some x \<Rightarrow> x | None \<Rightarrow> NO_ENTRY)) (\<lambda>rest. Some (cur # rest)))"

definition iter_relocs :: "reloc_reverse_index \<Rightarrow> u32 \<Rightarrow> u32 list option" where
  "iter_relocs ix s =
     chain_iter (nexts ix) (case get (heads ix) (unat s) of Some h \<Rightarrow> h | None \<Rightarrow> NO_ENTRY)"

section \<open>Threads\<close>

text \<open>A thread is before the load of its first job's insertion, has loaded a head, or has also stored it.\<close>

datatype inserter = Ready "(u32 \<times> u32) list" | Loaded u32 "(u32 \<times> u32) list" | Linked u32 "(u32 \<times> u32) list"

fun jobs :: "inserter \<Rightarrow> (u32 \<times> u32) list" where
  "jobs (Ready js) = js" | "jobs (Loaded h js) = js" | "jobs (Linked h js) = js"

inductive insert_step :: "reloc_reverse_index \<times> inserter list \<Rightarrow> reloc_reverse_index \<times> inserter list \<Rightarrow> bool" where
  skip: "t < length ts \<Longrightarrow> ts ! t = Ready (j # js) \<Longrightarrow> \<not> in_index ix j \<Longrightarrow>
     insert_step (ix, ts) (ix, ts[t := Ready js])"
| load: "t < length ts \<Longrightarrow> ts ! t = Ready (j # js) \<Longrightarrow> in_index ix j \<Longrightarrow>
     insert_step (ix, ts) (ix, ts[t := Loaded (heads ix ! unat (fst j)) (j # js)])"
| store: "t < length ts \<Longrightarrow> ts ! t = Loaded h (j # js) \<Longrightarrow>
     insert_step (ix, ts) (ix\<lparr>nexts := (nexts ix)[unat (snd j) := h]\<rparr>, ts[t := Linked h (j # js)])"
| exchange: "t < length ts \<Longrightarrow> ts ! t = Linked h (j # js) \<Longrightarrow> heads ix ! unat (fst j) = h \<Longrightarrow>
     insert_step (ix, ts) (ix\<lparr>heads := (heads ix)[unat (fst j) := snd j]\<rparr>, ts[t := Ready js])"
| retry: "t < length ts \<Longrightarrow> ts ! t = Linked h (j # js) \<Longrightarrow> heads ix ! unat (fst j) \<noteq> h \<Longrightarrow>
     insert_step (ix, ts) (ix, ts[t := Ready (j # js)])"

inductive_cases insert_stepE: "insert_step (ix, ts) st"

lemmas insert_step_cases = insert_stepE [case_names skip load store exchange retry, consumes 1]

inductive reachable :: "reloc_reverse_index \<times> inserter list \<Rightarrow> reloc_reverse_index \<times> inserter list \<Rightarrow> bool" where
  here: "reachable st st"
| more: "reachable st st1 \<Longrightarrow> insert_step st1 st2 \<Longrightarrow> reachable st st2"

section \<open>Chains\<close>

fun linked :: "u32 list \<Rightarrow> u32 \<Rightarrow> u32 list \<Rightarrow> bool" where
  "linked ns h [] \<longleftrightarrow> h = NO_ENTRY"
| "linked ns h (r # rs) \<longleftrightarrow> h = r \<and> r \<noteq> NO_ENTRY \<and> unat r < length ns \<and> linked ns (ns ! unat r) rs"

lemma linked_iter: "linked ns h rs \<Longrightarrow> chain_iter ns h = Some rs"
  by (induction rs arbitrary: h) (auto simp: chain_iter.simps get_def)

lemma unat_eq_iff: "unat a = unat b \<longleftrightarrow> a = b"
  by (simp add: word_unat_eq_iff)

lemma linked_list_update: "linked ns h rs \<Longrightarrow> r \<notin> set rs \<Longrightarrow> linked (ns[unat r := x]) h rs"
  by (induction rs arbitrary: h) (auto simp: nth_list_update unat_eq_iff)

text \<open>The insertions still to come, and the invariant: per symbol a chain that holds exactly the insertions made so
  far, none of which is still pending.\<close>

definition pending :: "inserter list \<Rightarrow> (u32 \<times> u32) multiset" where
  "pending ts = sum_list (map (mset \<circ> jobs) ts)"

definition relocs_of :: "u32 \<Rightarrow> (u32 \<times> u32) multiset \<Rightarrow> u32 multiset" where
  "relocs_of s m = image_mset snd (filter_mset (\<lambda>j. fst j = s) m)"

definition in_range :: "nat \<Rightarrow> nat \<Rightarrow> u32 \<times> u32 \<Rightarrow> bool" where
  "in_range n m j \<longleftrightarrow> unat (fst j) < n \<and> unat (snd j) < m"

definition thread_ok :: "reloc_reverse_index \<Rightarrow> inserter \<Rightarrow> bool" where
  "thread_ok ix t =
     (case t of Ready js \<Rightarrow> True
      | Loaded h js \<Rightarrow> js \<noteq> [] \<and> in_index ix (hd js)
      | Linked h js \<Rightarrow> js \<noteq> [] \<and> in_index ix (hd js) \<and> nexts ix ! unat (snd (hd js)) = h)"

definition inv :: "nat \<Rightarrow> nat \<Rightarrow> (u32 \<times> u32) multiset \<Rightarrow> reloc_reverse_index \<times> inserter list \<Rightarrow> bool" where
  "inv n m all st = (case st of (ix, ts) \<Rightarrow>
     length (heads ix) = n \<and> length (nexts ix) = m \<and> (\<forall>t \<in> set ts. thread_ok ix t) \<and>
     (\<exists>added. all = added + pending ts \<and>
        (\<forall>s. unat s < n \<longrightarrow> (\<exists>rs. linked (nexts ix) (heads ix ! unat s) rs \<and>
           mset rs = relocs_of s (filter_mset (in_range n m) added)))))"

lemma pending_update:
  assumes "t < length ts" shows "pending (ts[t := x]) + mset (jobs (ts ! t)) = pending ts + mset (jobs x)"
  using assms
proof (induction ts arbitrary: t)
  case (Cons y ts)
  show ?case
  proof (cases t)
    case 0
    then show ?thesis by (simp add: pending_def)
  next
    case (Suc k)
    then have "pending (ts[k := x]) + mset (jobs (ts ! k)) = pending ts + mset (jobs x)" using Cons by simp
    then show ?thesis using Suc by (simp add: pending_def add.assoc)
  qed
qed simp

lemma thread_ok_cong:
  "length (heads ix') = length (heads ix) \<Longrightarrow> length (nexts ix') = length (nexts ix) \<Longrightarrow>
     (\<And>h j js. t = Linked h (j # js) \<Longrightarrow> nexts ix' ! unat (snd j) = nexts ix ! unat (snd j)) \<Longrightarrow>
     thread_ok ix t \<Longrightarrow> thread_ok ix' t"
  by (cases t; cases "jobs t") (auto simp: thread_ok_def in_index_def)


definition unique_relocs :: "(u32 \<times> u32) multiset \<Rightarrow> bool" where
  "unique_relocs m \<longleftrightarrow> (\<forall>r. count (image_mset snd m) r \<le> 1)"

lemma unique_apart:
  assumes "unique_relocs (A + B)" "a \<in># A" "b \<in># B"
  shows "snd a \<noteq> snd b"
proof
  assume "snd a = snd b"
  moreover have "snd a \<in># image_mset snd A" "snd b \<in># image_mset snd B" using assms(2,3) by simp_all
  ultimately have "1 \<le> count (image_mset snd A) (snd a)" "1 \<le> count (image_mset snd B) (snd a)"
    by (metis One_nat_def Suc_leI count_greater_zero_iff)+
  moreover have "count (image_mset snd A) (snd a) + count (image_mset snd B) (snd a) \<le> 1"
    using assms(1) by (simp add: unique_relocs_def)
  ultimately show False by linarith
qed

lemma pending_split: "t < length ts \<Longrightarrow> pending ts = pending (ts[t := Ready []]) + mset (jobs (ts ! t))"
  using pending_update [of t ts "Ready []"] by simp

lemma in_pending: "t < length ts \<Longrightarrow> j \<in> set (jobs (ts ! t)) \<Longrightarrow> j \<in># pending ts"
  using pending_split [of t ts] by simp

lemma pending_others:
  "t' < length ts \<Longrightarrow> t' \<noteq> t \<Longrightarrow> j \<in> set (jobs (ts ! t')) \<Longrightarrow> j \<in># pending (ts[t := Ready []])"
  using in_pending [of t' "ts[t := Ready []]" j] by simp

lemma threads_update:
  assumes "\<forall>x \<in> set ts. thread_ok ix x" "thread_ok ix' y" "length (heads ix') = length (heads ix)"
    "length (nexts ix') = length (nexts ix)"
    "\<And>t' h j js. t' < length ts \<Longrightarrow> t' \<noteq> t \<Longrightarrow> ts ! t' = Linked h (j # js) \<Longrightarrow>
       nexts ix' ! unat (snd j) = nexts ix ! unat (snd j)"
  shows "\<forall>x \<in> set (ts[t := y]). thread_ok ix' x"
proof
  fix x assume "x \<in> set (ts[t := y])"
  then obtain k where k: "k < length ts" "x = ts[t := y] ! k" by (auto simp: in_set_conv_nth)
  show "thread_ok ix' x"
  proof (cases "k = t")
    case True
    then show ?thesis using k assms(2) by simp
  next
    case False
    then have x: "x = ts ! k" using k by simp
    then have "thread_ok ix x" using assms(1) k(1) by simp
    then show ?thesis by (rule thread_ok_cong [OF assms(3,4), rotated]) (use assms(5) [OF k(1) False] x in simp)
  qed
qed

lemma relocs_of_add:
  "relocs_of s (filter_mset (in_range n m) (added + {#j#})) =
     relocs_of s (filter_mset (in_range n m) added) + (if in_range n m j \<and> fst j = s then {#snd j#} else {#})"
  by (simp add: relocs_of_def)

lemma added_fresh:
  assumes "unique_relocs (added + pending ts)" "j \<in># pending ts"
    "mset rs = relocs_of s (filter_mset P added)"
  shows "snd j \<notin> set rs"
proof
  assume "snd j \<in> set rs"
  then have "snd j \<in># relocs_of s (filter_mset P added)" using assms(3) by (metis set_mset_mset)
  then obtain a where "a \<in># added" "snd a = snd j" by (auto simp: relocs_of_def)
  then show False using unique_apart [OF assms(1) _ assms(2)] by blast
qed

lemma invI:
  assumes "st = (ix, ts)" "length (heads ix) = n" "length (nexts ix) = m" "all = added + pending ts"
    "\<forall>t \<in> set ts. thread_ok ix t"
    "\<And>s. unat s < n \<Longrightarrow> \<exists>rs. linked (nexts ix) (heads ix ! unat s) rs \<and>
       mset rs = relocs_of s (filter_mset (in_range n m) added)"
  shows "inv n m all st"
  unfolding inv_def assms(1) prod.case
  by (intro conjI exI [of _ added] allI impI assms)

lemma insert_step_inv:
  assumes step: "insert_step st st'" and i: "inv n m all st" and u: "unique_relocs all" and m: "m < 2 ^ 32"
  shows "inv n m all st'"
proof -
  obtain ix ts where st: "st = (ix, ts)" by force
  obtain added where len: "length (heads ix) = n" "length (nexts ix) = m" and ok: "\<forall>t \<in> set ts. thread_ok ix t"
    and all: "all = added + pending ts"
    and ch: "\<And>s. unat s < n \<Longrightarrow> \<exists>rs. linked (nexts ix) (heads ix ! unat s) rs \<and>
         mset rs = relocs_of s (filter_mset (in_range n m) added)"
    using i by (auto simp: inv_def st)
  have ir: "in_index ix j \<longleftrightarrow> in_range n m j" for j using len by (simp add: in_index_def in_range_def)
  show ?thesis
    using step unfolding st
  proof (cases rule: insert_step_cases)
    case (skip t j js)
    have "pending ts = pending (ts[t := Ready js]) + {#j#}" using pending_update [of t ts "Ready js"] skip(2,3) by simp
    then have al: "all = (added + {#j#}) + pending (ts[t := Ready js])" using all by simp
    have ok': "\<forall>x \<in> set (ts[t := Ready js]). thread_ok ix x"
      by (rule threads_update [OF ok]) (simp_all add: thread_ok_def)
    have eq: "relocs_of s (filter_mset (in_range n m) (added + {#j#})) = relocs_of s (filter_mset (in_range n m) added)" for s
      using skip(4) ir by (simp add: relocs_of_add)
    show ?thesis by (rule invI [OF skip(1) len al ok']) (unfold eq, rule ch)
  next
    case (load t j js)
    let ?y = "Loaded (heads ix ! unat (fst j)) (j # js)"
    have "pending (ts[t := ?y]) = pending ts" using pending_update [of t ts ?y] load(2,3) by simp
    moreover have "\<forall>x \<in> set (ts[t := ?y]). thread_ok ix x"
      by (rule threads_update [OF ok]) (simp_all add: thread_ok_def load(4))
    ultimately show ?thesis by (intro invI [OF load(1) len _ _ ch]) (simp_all add: all)
  next
    case (store t h j js)
    let ?y = "Linked h (j # js)" and ?ix = "ix\<lparr>nexts := (nexts ix)[unat (snd j) := h]\<rparr>"
    have pe: "pending (ts[t := ?y]) = pending ts" using pending_update [of t ts ?y] store(2,3) by simp
    have inix: "in_index ix j" using ok store(3) nth_mem [OF store(2)] by (fastforce simp: thread_ok_def)
    have jp: "j \<in># pending ts" using in_pending [of t ts j] store(2,3) by simp
    have "\<forall>x \<in> set (ts[t := ?y]). thread_ok ?ix x"
    proof (rule threads_update [OF ok])
      fix t' h' j' js' assume t': "t' < length ts" "t' \<noteq> t" "ts ! t' = Linked h' (j' # js')"
      have "unique_relocs ((added + pending (ts[t := Ready []])) + mset (jobs (ts ! t)))"
        using u all pending_split [OF store(2)] by (simp add: add.assoc)
      from unique_apart [OF this, of j' j] have "snd j' \<noteq> snd j"
        using pending_others [OF t'(1,2), of j'] t'(3) store(3) by simp
      then show "nexts ?ix ! unat (snd j') = nexts ix ! unat (snd j')" by (simp add: unat_eq_iff)
    qed (use inix in \<open>simp_all add: thread_ok_def in_index_def\<close>)
    moreover have "\<exists>rs. linked (nexts ?ix) (heads ?ix ! unat s) rs \<and> mset rs = relocs_of s (filter_mset (in_range n m) added)"
      if s: "unat s < n" for s
    proof -
      obtain rs where rs: "linked (nexts ix) (heads ix ! unat s) rs" "mset rs = relocs_of s (filter_mset (in_range n m) added)"
        using ch [OF s] by blast
      have "snd j \<notin> set rs" by (rule added_fresh [OF _ jp rs(2)]) (use u all in simp)
      from linked_list_update [OF rs(1) this] show ?thesis using rs(2) by auto
    qed
    ultimately show ?thesis by (intro invI [OF store(1)]) (use len pe all in simp_all)
  next
    case (exchange t j js)
    let ?ix = "ix\<lparr>heads := (heads ix)[unat (fst j) := snd j]\<rparr>"
    have "pending ts = pending (ts[t := Ready js]) + {#j#}" using pending_update [of t ts "Ready js"] exchange(2,3) by simp
    then have al: "all = (added + {#j#}) + pending (ts[t := Ready js])" using all by simp
    have t: "in_index ix j" "nexts ix ! unat (snd j) = heads ix ! unat (fst j)"
      using ok exchange(2,3) nth_mem [OF exchange(2)] by (fastforce simp: thread_ok_def)+
    have "unat (snd j) < 2 ^ 32 - 1" using t(1) len m by (simp add: in_index_def)
    then have ne: "snd j \<noteq> NO_ENTRY" by (auto simp: unsigned_minus_1_eq_mask mask_eq_exp_minus_1)
    have "\<forall>x \<in> set (ts[t := Ready js]). thread_ok ?ix x"
      by (rule threads_update [OF ok]) (simp_all add: thread_ok_def)
    moreover have "\<exists>rs. linked (nexts ?ix) (heads ?ix ! unat s) rs \<and>
        mset rs = relocs_of s (filter_mset (in_range n m) (added + {#j#}))" if s: "unat s < n" for s
    proof -
      obtain rs where rs: "linked (nexts ix) (heads ix ! unat s) rs" "mset rs = relocs_of s (filter_mset (in_range n m) added)"
        using ch [OF s] by blast
      show ?thesis
      proof (cases "s = fst j")
        case True
        have "linked (nexts ?ix) (heads ?ix ! unat s) (snd j # rs)"
          using True s len t rs(1) ne by (simp add: in_index_def)
        moreover have "mset (snd j # rs) = relocs_of s (filter_mset (in_range n m) (added + {#j#}))"
          using True t(1) ir rs(2) by (simp add: relocs_of_def)
        ultimately show ?thesis by blast
      next
        case False
        then have "unat s \<noteq> unat (fst j)" by (simp add: word_unat_eq_iff)
        then show ?thesis using rs False by (auto simp: relocs_of_def)
      qed
    qed
    ultimately show ?thesis by (intro invI [OF exchange(1) _ _ al]) (use len in simp_all)
  next
    case (retry t h j js)
    have "pending (ts[t := Ready (j # js)]) = pending ts" using pending_update [of t ts "Ready (j # js)"] retry(2,3) by simp
    moreover have "\<forall>x \<in> set (ts[t := Ready (j # js)]). thread_ok ix x"
      by (rule threads_update [OF ok]) (simp_all add: thread_ok_def)
    ultimately show ?thesis by (intro invI [OF retry(1) len _ _ ch]) (simp_all add: all)
  qed
qed


lemma reachable_inv:
  "reachable st st' \<Longrightarrow> inv n m all st \<Longrightarrow> unique_relocs all \<Longrightarrow> m < 2 ^ 32 \<Longrightarrow> inv n m all st'"
  by (induction rule: reachable.induct) (auto intro: insert_step_inv)

lemma inv_start:
  "inv n m (pending (map Ready jss)) (index_new n m, map Ready jss)"
proof (rule invI [where added = "{#}"])
  show "\<exists>rs. linked (nexts (index_new n m)) (heads (index_new n m) ! unat s) rs \<and> mset rs = relocs_of s (filter_mset (in_range n m) {#})"
    if "unat s < n" for s
    using that by (intro exI [of _ "[]"]) (simp add: index_new_def relocs_of_def)
qed (auto simp: index_new_def thread_ok_def)

lemma pending_ready: "pending (map Ready jss) = mset (concat jss)"
  by (induction jss) (simp_all add: pending_def)

lemma index_after:
  assumes "inv n m all (ix, ts)" "pending ts = {#}" "unat s < n"
  shows "\<exists>rs. iter_relocs ix s = Some rs \<and> mset rs = relocs_of s (filter_mset (in_range n m) all)"
proof -
  obtain rs where "length (heads ix) = n" "linked (nexts ix) (heads ix ! unat s) rs" "mset rs = relocs_of s (filter_mset (in_range n m) all)"
    using assms by (auto simp: inv_def)
  then show ?thesis using linked_iter [of "nexts ix"] assms(3) by (auto simp: iter_relocs_def get_def)
qed

lemma unique_relocs_mset: "distinct (map snd xs) \<Longrightarrow> unique_relocs (mset xs)"
  unfolding unique_relocs_def mset_map [symmetric] by (simp add: distinct_count_atmost_1)

lemma pending_done [simp]: "pending (map (\<lambda>_. Ready []) jss) = {#}"
  by (induction jss) (simp_all add: pending_def)

text \<open>C9: The index is exact under every interleaving.  Any number of threads insert any lists of
  (symbol, relocation) pairs into a new index, in steps of one atomic access that interleave in any order, the
  compare-and-exchange retries included; no relocation is inserted twice.  Whenever all threads are done, iterating over
  a symbol ends and yields exactly the relocations inserted for it, each once: nothing is lost, duplicated or moved to
  another symbol, and pairs out of range have no effect.\<close>

theorem concurrent_index_exact:
  assumes "reachable (index_new n m, map Ready jss) (ix, map (\<lambda>_. Ready []) jss)"
    and "distinct (map snd (concat jss))" "m < 2 ^ 32" "unat s < n"
  shows "\<exists>rs. iter_relocs ix s = Some rs \<and>
     mset rs = mset (map snd (filter (\<lambda>j. fst j = s \<and> unat (snd j) < m) (concat jss)))"
proof -
  let ?all = "mset (concat jss)"
  have "unique_relocs ?all"
    using assms(2) by (rule unique_relocs_mset)
  from reachable_inv [OF assms(1) inv_start [unfolded pending_ready] this assms(3)]
  obtain rs where rs: "iter_relocs ix s = Some rs" "mset rs = relocs_of s (filter_mset (in_range n m) ?all)"
    using index_after [OF _ pending_done assms(4)] by blast
  moreover have "filter (\<lambda>x. in_range n m x \<and> fst x = s) xs = filter (\<lambda>j. fst j = s \<and> unat (snd j) < m) xs" for xs
    using assms(4) by (intro filter_cong) (auto simp: in_range_def)
  ultimately show ?thesis using rs by (simp add: relocs_of_def filter_filter_mset flip: mset_filter mset_map)
qed

text \<open>Two threads that both insert for symbol 0: the second loses the race, retries and prepends to the first one's
  entry.\<close>

lemma demo_race:
  "reachable (index_new 1 2, map Ready [[(0, 0)], [(0, 1)]])
     (\<lparr>heads = [1], nexts = [- 1, 0]\<rparr>, map (\<lambda>_. Ready []) [[(0, 0)], [(0, 1)]])"
proof -
  let ?S = "\<lambda>h ns a b. (\<lparr>heads = [h], nexts = ns\<rparr>, [a, b])"
  have 1: "insert_step (?S (- 1) [- 1, - 1] (Ready [(0, 0)]) (Ready [(0, 1)])) (?S (- 1) [- 1, - 1] (Loaded (- 1) [(0, 0)]) (Ready [(0, 1)]))"
    using insert_step.load [of 0 "[Ready [(0, 0)], Ready [(0, 1)]]" "(0, 0)" "[]" "\<lparr>heads = [- 1], nexts = [- 1, - 1]\<rparr>"] by (simp add: in_index_def)
  have 2: "insert_step (?S (- 1) [- 1, - 1] (Loaded (- 1) [(0, 0)]) (Ready [(0, 1)])) (?S (- 1) [- 1, - 1] (Loaded (- 1) [(0, 0)]) (Loaded (- 1) [(0, 1)]))"
    using insert_step.load [of 1 "[Loaded (- 1) [(0, 0)], Ready [(0, 1)]]" "(0, 1)" "[]" "\<lparr>heads = [- 1], nexts = [- 1, - 1]\<rparr>"] by (simp add: in_index_def)
  have 3: "insert_step (?S (- 1) [- 1, - 1] (Loaded (- 1) [(0, 0)]) (Loaded (- 1) [(0, 1)])) (?S (- 1) [- 1, - 1] (Linked (- 1) [(0, 0)]) (Loaded (- 1) [(0, 1)]))"
    using insert_step.store [of 0 "[Loaded (- 1) [(0, 0)], Loaded (- 1) [(0, 1)]]" "- 1" "(0, 0)" "[]" "\<lparr>heads = [- 1], nexts = [- 1, - 1]\<rparr>"] by simp
  have 4: "insert_step (?S (- 1) [- 1, - 1] (Linked (- 1) [(0, 0)]) (Loaded (- 1) [(0, 1)])) (?S (- 1) [- 1, - 1] (Linked (- 1) [(0, 0)]) (Linked (- 1) [(0, 1)]))"
    using insert_step.store [of 1 "[Linked (- 1) [(0, 0)], Loaded (- 1) [(0, 1)]]" "- 1" "(0, 1)" "[]" "\<lparr>heads = [- 1], nexts = [- 1, - 1]\<rparr>"] by simp
  have 5: "insert_step (?S (- 1) [- 1, - 1] (Linked (- 1) [(0, 0)]) (Linked (- 1) [(0, 1)])) (?S 0 [- 1, - 1] (Ready []) (Linked (- 1) [(0, 1)]))"
    using insert_step.exchange [of 0 "[Linked (- 1) [(0, 0)], Linked (- 1) [(0, 1)]]" "- 1" "(0, 0)" "[]" "\<lparr>heads = [- 1], nexts = [- 1, - 1]\<rparr>"] by simp
  have 6: "insert_step (?S 0 [- 1, - 1] (Ready []) (Linked (- 1) [(0, 1)])) (?S 0 [- 1, - 1] (Ready []) (Ready [(0, 1)]))"
    using insert_step.retry [of 1 "[Ready [], Linked (- 1) [(0, 1)]]" "- 1" "(0, 1)" "[]" "\<lparr>heads = [0], nexts = [- 1, - 1]\<rparr>"] by simp
  have 7: "insert_step (?S 0 [- 1, - 1] (Ready []) (Ready [(0, 1)])) (?S 0 [- 1, - 1] (Ready []) (Loaded 0 [(0, 1)]))"
    using insert_step.load [of 1 "[Ready [], Ready [(0, 1)]]" "(0, 1)" "[]" "\<lparr>heads = [0], nexts = [- 1, - 1]\<rparr>"] by (simp add: in_index_def)
  have 8: "insert_step (?S 0 [- 1, - 1] (Ready []) (Loaded 0 [(0, 1)])) (?S 0 [- 1, 0] (Ready []) (Linked 0 [(0, 1)]))"
    using insert_step.store [of 1 "[Ready [], Loaded 0 [(0, 1)]]" "0" "(0, 1)" "[]" "\<lparr>heads = [0], nexts = [- 1, - 1]\<rparr>"] by simp
  have 9: "insert_step (?S 0 [- 1, 0] (Ready []) (Linked 0 [(0, 1)])) (?S 1 [- 1, 0] (Ready []) (Ready []))"
    using insert_step.exchange [of 1 "[Ready [], Linked 0 [(0, 1)]]" "0" "(0, 1)" "[]" "\<lparr>heads = [0], nexts = [- 1, 0]\<rparr>"] by simp
  have "reachable (?S (- 1) [- 1, - 1] (Ready [(0, 0)]) (Ready [(0, 1)])) (?S 1 [- 1, 0] (Ready []) (Ready []))"
    by (rule reachable.intros 1 2 3 4 5 6 7 8 9)+
  then show ?thesis by (simp add: index_new_def numeral_2_eq_2)
qed

theorem concurrent_index_exact_witness:
  "\<exists>rs. iter_relocs \<lparr>heads = [1], nexts = [- 1, 0]\<rparr> 0 = Some rs \<and>
     mset rs = mset (map snd (filter (\<lambda>j. fst j = 0 \<and> unat (snd j) < 2) (concat [[(0 :: u32, 0 :: u32)], [(0, 1)]])))"
  by (rule concurrent_index_exact [OF demo_race]) simp_all

end
