(* ===== verification/Link_Cache.thy ===== *)
theory Link_Cache
  imports Reloc_Index Rust_Text
begin

text \<open>
  The incremental link cache, \<^verbatim>\<open>peony-cache/src/lib.rs\<close>: fingerprints, the epoch key, the manifest a link records, the
  decision to reuse an output as it is, the state a changed relink starts from, and the red/green plan.

  The file system is the map \<open>cache_fs\<close> from paths to files with their metadata; what the cache cannot decide itself is
  the parameter \<open>cache_env\<close>: whether a directory can be made or a path written, the metadata a new file gets, and the
  third-party manifest codec.  \<open>record_then_reuse\<close> shows that reuse accepts exactly the unchanged state.
\<close>

section \<open>Fingerprints\<close>

record fingerprint =
  cfp_len :: u64
  cfp_hash :: u64

definition fnv1a :: "u64 \<Rightarrow> bytes \<Rightarrow> u64" where
  "fnv1a h data = fold (\<lambda>b h. (h XOR ucast b) * 0x100000001b3) data h"

definition fnv1a_offset :: u64 where
  "fnv1a_offset = 0xcbf29ce484222325"

definition of_bytes :: "bytes \<Rightarrow> fingerprint" where
  "of_bytes data = \<lparr>cfp_len = of_nat (length data), cfp_hash = fnv1a fnv1a_offset data\<rparr>"

record fast_fingerprint =
  ff_len :: u64
  ff_mtime_sec :: i64
  ff_mtime_nsec :: i64
  ff_inode :: u64

record cache_file =
  cf_data :: bytes
  cf_readable :: bool
  cf_stat :: fast_fingerprint

type_synonym cache_fs = "string \<Rightarrow> cache_file option"

datatype cache_error = CacheIo string | Codec

definition read_file :: "cache_fs \<Rightarrow> string \<Rightarrow> (cache_error, bytes) outcome" where
  "read_file fs p = (case fs p of Some f \<Rightarrow> if cf_readable f then Ok (cf_data f) else Err (CacheIo p) | None \<Rightarrow> Err (CacheIo p))"

definition of_file :: "cache_fs \<Rightarrow> string \<Rightarrow> (cache_error, fingerprint) outcome" where
  "of_file fs p = bind_outcome (read_file fs p) (\<lambda>d. Ok (of_bytes d))"

definition fast_of_file :: "cache_fs \<Rightarrow> string \<Rightarrow> (cache_error, fast_fingerprint) outcome" where
  "fast_of_file fs p = (case fs p of Some f \<Rightarrow> Ok (cf_stat f) | None \<Rightarrow> Err (CacheIo p))"

section \<open>Keys\<close>

text \<open>Nanoseconds since the epoch truncated to 64 bits, 0 for a time before it or a missing file.\<close>

definition mtime_nanos :: "fast_fingerprint \<Rightarrow> u64" where
  "mtime_nanos f = (if ff_mtime_sec f <s 0 then 0 else ff_mtime_sec f * 1000000000 + ff_mtime_nsec f)"

definition epoch_input :: "cache_fs \<Rightarrow> string \<Rightarrow> u64 \<Rightarrow> u64" where
  "epoch_input fs p h =
     fnv1a (fnv1a h (to_le 8 (case fs p of Some f \<Rightarrow> mtime_nanos (cf_stat f) | None \<Rightarrow> 0))) (ascii p)"

definition compute_epoch_key :: "cache_fs \<Rightarrow> string list \<Rightarrow> u64 \<Rightarrow> u64" where
  "compute_epoch_key fs inputs args_hash = fold (epoch_input fs) inputs (fnv1a fnv1a_offset (to_le 8 args_hash))"

definition hash_args :: "string list \<Rightarrow> u64" where
  "hash_args args = fold (\<lambda>a h. fnv1a (fnv1a h (ascii a)) [0x1f]) args fnv1a_offset"

definition blob_hash :: "bytes \<Rightarrow> u64" where
  "blob_hash blob = cfp_hash (of_bytes blob)"

section \<open>The manifest\<close>

record section_record =
  sr_name :: string
  sr_fingerprint :: fingerprint
  sr_file_offset :: u64
  sr_size :: u64
  sr_capacity :: u64
  sr_virtual_address :: u64

record patch_section_record =
  ps_name :: string
  ps_file_offset :: u64
  ps_size :: u64
  ps_virtual_address :: u64
  ps_input_changed :: bool

record cached_symbol_entry =
  cs_name :: name
  cs_virtual_address :: u64
  cs_got_address :: u64
  cs_plt_address :: u64
  cs_size :: u64

record front_end_snapshot =
  fe_drivers_hash :: u64
  fe_blob_hash :: u64
  fe_object_digests :: "u64 list"
  fe_object_paths :: "string list"

record manifest =
  mf_version :: u32
  mf_args_hash :: u64
  mf_epoch_key :: u64
  mf_inputs :: "(string \<times> fingerprint) list"
  mf_fast_inputs :: "(string \<times> fast_fingerprint) list"
  mf_output :: fingerprint
  mf_fast_output :: fast_fingerprint
  mf_sections :: "section_record list"
  mf_symbols :: "cached_symbol_entry list"
  mf_front_end :: "front_end_snapshot option"

record cached_link_state =
  cl_changed_inputs :: "string list"
  cl_sections :: "section_record list"
  cl_symbols :: "cached_symbol_entry list"
  cl_front_end :: "front_end_snapshot option"

definition CACHE_VERSION :: u32 where
  "CACHE_VERSION = 7"

record cache_env =
  ce_encode :: "manifest \<Rightarrow> bytes option"
  ce_decode :: "bytes \<Rightarrow> manifest option"
  ce_mkdir :: "string \<Rightarrow> bool"
  ce_writable :: "string \<Rightarrow> bool"
  ce_stamp :: "string \<Rightarrow> bytes \<Rightarrow> fast_fingerprint"

definition cache_dir :: "string \<Rightarrow> string" where
  "cache_dir output = with_extension output ''incr''"

definition manifest_path :: "string \<Rightarrow> string" where
  "manifest_path output = cache_dir output @ ''/manifest.bin''"

definition layout_blob_path :: "string \<Rightarrow> string" where
  "layout_blob_path output = cache_dir output @ ''/layout.bin''"

definition read_layout_blob :: "cache_fs \<Rightarrow> string \<Rightarrow> (cache_error, bytes option) outcome" where
  "read_layout_blob fs output =
     (case fs (layout_blob_path output) of
        None \<Rightarrow> Ok None
      | Some f \<Rightarrow> if cf_readable f then Ok (Some (cf_data f)) else Err (CacheIo (layout_blob_path output)))"

definition read_manifest :: "cache_env \<Rightarrow> cache_fs \<Rightarrow> string \<Rightarrow> (cache_error, manifest option) outcome" where
  "read_manifest env fs p = bind_outcome (read_file fs p) (\<lambda>d. Ok (ce_decode env d))"

section \<open>Reuse and changed state\<close>

fun inputs_match :: "cache_fs \<Rightarrow> (string \<times> fast_fingerprint) list \<Rightarrow> string list \<Rightarrow> bool" where
  "inputs_match fs ((rp, rf) # recs) (p # ps) \<longleftrightarrow> rp = p \<and> fast_of_file fs p = Ok rf \<and> inputs_match fs recs ps"
| "inputs_match fs _ _ \<longleftrightarrow> True"

definition try_reuse :: "cache_env \<Rightarrow> cache_fs \<Rightarrow> string \<Rightarrow> string list \<Rightarrow> u64 \<Rightarrow> (cache_error, bool) outcome" where
  "try_reuse env fs output inputs args_hash =
     (if fs (manifest_path output) = None \<or> fs output = None then Ok False
      else bind_outcome (read_file fs (manifest_path output)) (\<lambda>bs.
        case ce_decode env bs of
          None \<Rightarrow> Ok False
        | Some m \<Rightarrow>
            if mf_version m \<noteq> CACHE_VERSION then Ok False
            else if mf_args_hash m \<noteq> args_hash then Ok False
            else if mf_epoch_key m \<noteq> compute_epoch_key fs inputs args_hash then Ok False
            else if length (mf_fast_inputs m) \<noteq> length inputs then Ok False
            else if \<not> inputs_match fs (mf_fast_inputs m) inputs then Ok False
            else Ok (fast_of_file fs output = Ok (mf_fast_output m))))"

definition manifest_fast_inputs ::
  "cache_env \<Rightarrow> cache_fs \<Rightarrow> string \<Rightarrow> (cache_error, (string \<times> fast_fingerprint) list option) outcome" where
  "manifest_fast_inputs env fs output =
     (if fs (manifest_path output) = None then Ok None
      else bind_outcome (read_manifest env fs (manifest_path output)) (\<lambda>m.
        case m of
          None \<Rightarrow> Ok None
        | Some m \<Rightarrow> if mf_version m \<noteq> CACHE_VERSION then Ok None else Ok (Some (mf_fast_inputs m))))"

text \<open>\<open>None\<close> where the recorded inputs are not the current ones, or a current one is gone.\<close>

fun changed_inputs_of :: "cache_fs \<Rightarrow> (string \<times> fast_fingerprint) list \<Rightarrow> string list \<Rightarrow> string list option" where
  "changed_inputs_of fs ((rp, rf) # recs) (p # ps) =
     (if rp \<noteq> p then None
      else case fast_of_file fs p of
        Ok f \<Rightarrow> (if f = rf then changed_inputs_of fs recs ps else map_option (Cons p) (changed_inputs_of fs recs ps))
      | _ \<Rightarrow> None)"
| "changed_inputs_of fs _ _ = Some []"

definition load_changed_state ::
  "cache_env \<Rightarrow> cache_fs \<Rightarrow> string \<Rightarrow> string list \<Rightarrow> u64 \<Rightarrow> (cache_error, cached_link_state option) outcome" where
  "load_changed_state env fs output inputs args_hash =
     (if fs (manifest_path output) = None \<or> fs output = None then Ok None
      else bind_outcome (read_manifest env fs (manifest_path output)) (\<lambda>m.
        case m of
          None \<Rightarrow> Ok None
        | Some m \<Rightarrow>
            if mf_version m \<noteq> CACHE_VERSION \<or> mf_args_hash m \<noteq> args_hash then Ok None
            else if length (mf_fast_inputs m) \<noteq> length inputs then Ok None
            else case changed_inputs_of fs (mf_fast_inputs m) inputs of
              None \<Rightarrow> Ok None
            | Some changed \<Rightarrow>
                if fast_of_file fs output = Ok (mf_fast_output m)
                then Ok (Some \<lparr>cl_changed_inputs = changed, cl_sections = mf_sections m,
                               cl_symbols = mf_symbols m, cl_front_end = mf_front_end m\<rparr>)
                else Ok None))"

section \<open>Recording\<close>

text \<open>Write to the \<^verbatim>\<open>.tmp\<close> neighbour, then rename over the target.\<close>

definition atomic_write :: "cache_env \<Rightarrow> string \<Rightarrow> bytes \<Rightarrow> cache_fs \<Rightarrow> (cache_error, cache_fs) outcome" where
  "atomic_write env p data fs =
     (let tmp = with_extension p ''tmp'' in
      if \<not> ce_writable env tmp then Err (CacheIo tmp)
      else if \<not> ce_writable env p then Err (CacheIo p)
      else Ok ((fs(tmp := None))(p \<mapsto> \<lparr>cf_data = data, cf_readable = True, cf_stat = ce_stamp env tmp data\<rparr>)))"

fun fast_inputs_of :: "cache_fs \<Rightarrow> string list \<Rightarrow> (cache_error, (string \<times> fast_fingerprint) list) outcome" where
  "fast_inputs_of fs [] = Ok []"
| "fast_inputs_of fs (p # ps) =
     bind_outcome (fast_of_file fs p) (\<lambda>f. bind_outcome (fast_inputs_of fs ps) (\<lambda>fs'. Ok ((p, f) # fs')))"

text \<open>The content fingerprint of an input, taken over from the last manifest where its metadata is unchanged; a map
  collected from a list keeps the last entry of a key.\<close>

fun content_inputs_of ::
  "cache_fs \<Rightarrow> (string \<rightharpoonup> fast_fingerprint) \<Rightarrow> (string \<rightharpoonup> fingerprint) \<Rightarrow> (string \<times> fast_fingerprint) list \<Rightarrow>
   (cache_error, (string \<times> fingerprint) list) outcome" where
  "content_inputs_of fs old_fast old_content [] = Ok []"
| "content_inputs_of fs old_fast old_content ((p, f) # rest) =
     bind_outcome
       (case (old_fast p, old_content p) of
          (Some g, Some c) \<Rightarrow> if g = f then Ok c else of_file fs p
        | _ \<Rightarrow> of_file fs p) (\<lambda>c.
     bind_outcome (content_inputs_of fs old_fast old_content rest) (\<lambda>cs. Ok ((p, c) # cs)))"

definition input_fingerprints ::
  "cache_env \<Rightarrow> cache_fs \<Rightarrow> string \<Rightarrow> section_record list \<Rightarrow> (string \<times> fast_fingerprint) list \<Rightarrow>
   (cache_error, (string \<times> fingerprint) list) outcome" where
  "input_fingerprints env fs output secs fast =
     (if secs = [] then Ok []
      else (let prior = (case read_manifest env fs (manifest_path output) of Ok m \<Rightarrow> m | _ \<Rightarrow> None);
                old_fast = (case prior of None \<Rightarrow> Map.empty | Some m \<Rightarrow> map_of (rev (mf_fast_inputs m)));
                old_content = (case prior of None \<Rightarrow> Map.empty | Some m \<Rightarrow> map_of (rev (mf_inputs m)))
            in content_inputs_of fs old_fast old_content fast))"

definition record_link_with_sections ::
  "cache_env \<Rightarrow> string \<Rightarrow> string list \<Rightarrow> u64 \<Rightarrow> section_record list \<Rightarrow> cached_symbol_entry list \<Rightarrow>
   front_end_snapshot option \<Rightarrow> bytes option \<Rightarrow> cache_fs \<Rightarrow> (cache_error, cache_fs) outcome" where
  "record_link_with_sections env output inputs args_hash secs syms front_end layout_blob fs =
     (if \<not> ce_mkdir env (cache_dir output) then Err (CacheIo (cache_dir output))
      else bind_outcome (case layout_blob of None \<Rightarrow> Ok fs | Some b \<Rightarrow> atomic_write env (layout_blob_path output) b fs) (\<lambda>fs1.
      bind_outcome (fast_inputs_of fs1 inputs) (\<lambda>fast.
      bind_outcome (input_fingerprints env fs1 output secs fast) (\<lambda>content.
      bind_outcome (fast_of_file fs1 output) (\<lambda>fo.
        case ce_encode env
          \<lparr>mf_version = CACHE_VERSION, mf_args_hash = args_hash, mf_epoch_key = compute_epoch_key fs1 inputs args_hash,
           mf_inputs = content, mf_fast_inputs = fast, mf_output = \<lparr>cfp_len = 0, cfp_hash = 0\<rparr>, mf_fast_output = fo,
           mf_sections = secs, mf_symbols = syms, mf_front_end = front_end\<rparr> of
          None \<Rightarrow> Err Codec
        | Some bs \<Rightarrow> atomic_write env (manifest_path output) bs fs1)))))"

definition record_link :: "cache_env \<Rightarrow> string \<Rightarrow> string list \<Rightarrow> u64 \<Rightarrow> cache_fs \<Rightarrow> (cache_error, cache_fs) outcome" where
  "record_link env output inputs args_hash fs = record_link_with_sections env output inputs args_hash [] [] None None fs"


section \<open>Reuse accepts exactly the unchanged state\<close>

text \<open>The metadata of a file, which is all that reuse looks at.\<close>

definition stat_of :: "cache_fs \<Rightarrow> string \<Rightarrow> fast_fingerprint option" where
  "stat_of fs p = map_option cf_stat (fs p)"

lemma fast_of_file_iff [simp]: "fast_of_file fs p = Ok f \<longleftrightarrow> stat_of fs p = Some f"
  by (auto simp: fast_of_file_def stat_of_def split: option.splits)

lemma fast_inputs_of_spec:
  "fast_inputs_of fs ps = Ok fast \<longleftrightarrow> map fst fast = ps \<and> (\<forall>x \<in> set fast. stat_of fs (fst x) = Some (snd x))"
proof (induction ps arbitrary: fast)
  case (Cons p ps)
  show ?case
  proof
    assume "fast_inputs_of fs (p # ps) = Ok fast"
    then obtain f rest where f: "stat_of fs p = Some f" "fast_inputs_of fs ps = Ok rest" "fast = (p, f) # rest"
      by (auto elim!: bind_outcome_Ok)
    then show "map fst fast = p # ps \<and> (\<forall>x \<in> set fast. stat_of fs (fst x) = Some (snd x))"
      using Cons.IH [of rest] by simp
  next
    assume a: "map fst fast = p # ps \<and> (\<forall>x \<in> set fast. stat_of fs (fst x) = Some (snd x))"
    then obtain f rest where f: "fast = (p, f) # rest" by (cases fast) auto
    then have "fast_inputs_of fs ps = Ok rest" "fast_of_file fs p = Ok f" using a Cons.IH by auto
    then show "fast_inputs_of fs (p # ps) = Ok fast" using f by (simp del: fast_of_file_iff)
  qed
qed auto

lemma fast_inputs_of_cong:
  assumes "fast_inputs_of fs ps = Ok fast" "\<forall>p \<in> set ps. stat_of fs' p = stat_of fs p"
  shows "fast_inputs_of fs' ps = Ok fast"
proof -
  have a: "map fst fast = ps" "\<forall>x \<in> set fast. stat_of fs (fst x) = Some (snd x)" using assms(1) by (simp_all add: fast_inputs_of_spec)
  have "stat_of fs' (fst x) = Some (snd x)" if "x \<in> set fast" for x
    using that a assms(2) by (metis image_eqI set_map)
  then show ?thesis using a(1) by (simp add: fast_inputs_of_spec)
qed

lemma inputs_match_iff:
  "fast_inputs_of fs ps = Ok fast \<Longrightarrow>
     length fast = length qs \<and> inputs_match fs' fast qs \<longleftrightarrow> qs = ps \<and> (\<forall>p \<in> set ps. stat_of fs' p = stat_of fs p)"
proof (induction ps arbitrary: fast qs)
  case (Cons p ps)
  then obtain f rest where f: "fast = (p, f) # rest" "stat_of fs p = Some f" "fast_inputs_of fs ps = Ok rest"
    by (auto elim!: bind_outcome_Ok)
  show ?case using Cons.IH [OF f(3)] f(1,2) by (cases qs) auto
qed auto

lemma changed_inputs_iff:
  "fast_inputs_of fs ps = Ok fast \<Longrightarrow>
     length fast = length ps \<and>
     changed_inputs_of fs' fast ps =
       (if \<exists>p \<in> set ps. fs' p = None then None else Some (filter (\<lambda>p. stat_of fs' p \<noteq> stat_of fs p) ps))"
proof (induction ps arbitrary: fast)
  case (Cons p ps)
  then obtain f rest where f: "fast = (p, f) # rest" "stat_of fs p = Some f" "fast_inputs_of fs ps = Ok rest"
    by (auto elim!: bind_outcome_Ok)
  show ?case
    using Cons.IH [OF f(3)] f(1,2) by (cases "fs' p") (auto simp: fast_of_file_def stat_of_def)
qed simp

lemma epoch_key_cong:
  "\<forall>p \<in> set ps. stat_of fs' p = stat_of fs p \<Longrightarrow> compute_epoch_key fs' ps a = compute_epoch_key fs ps a"
  unfolding compute_epoch_key_def
  by (rule fold_cong) (force simp: epoch_input_def stat_of_def fun_eq_iff split: option.splits)+

text \<open>What a recorded link leaves on disk.\<close>

lemma record_link_manifest:
  assumes "record_link_with_sections env out ins args secs syms fe blob fs = Ok fs1"
    and codec: "\<And>m b. ce_encode env m = Some b \<Longrightarrow> ce_decode env b = Some m"
    and apart: "manifest_path out \<notin> set (out # ins)" "with_extension (manifest_path out) ''tmp'' \<notin> set (out # ins)"
  obtains f m where "fs1 (manifest_path out) = Some f" "cf_readable f" "ce_decode env (cf_data f) = Some m"
    "mf_version m = CACHE_VERSION" "mf_args_hash m = args" "mf_epoch_key m = compute_epoch_key fs1 ins args"
    "fast_inputs_of fs1 ins = Ok (mf_fast_inputs m)" "stat_of fs1 out = Some (mf_fast_output m)"
    "mf_sections m = secs" "mf_symbols m = syms" "mf_front_end m = fe"
proof -
  obtain fs0 fast content fo bs where s: "fast_inputs_of fs0 ins = Ok fast" "stat_of fs0 out = Some fo"
      "ce_encode env \<lparr>mf_version = CACHE_VERSION, mf_args_hash = args, mf_epoch_key = compute_epoch_key fs0 ins args,
         mf_inputs = content, mf_fast_inputs = fast, mf_output = \<lparr>cfp_len = 0, cfp_hash = 0\<rparr>, mf_fast_output = fo,
         mf_sections = secs, mf_symbols = syms, mf_front_end = fe\<rparr> = Some bs" (is "ce_encode env ?m = _")
      "atomic_write env (manifest_path out) bs fs0 = Ok fs1"
    using assms(1)
    by (auto simp: record_link_with_sections_def elim!: bind_outcome_Ok split: if_splits option.splits)
  have mp: "fs1 (manifest_path out) = Some \<lparr>cf_data = bs, cf_readable = True,
      cf_stat = ce_stamp env (with_extension (manifest_path out) ''tmp'') bs\<rparr>" (is "_ = Some ?f")
    and same: "\<forall>p \<in> set (out # ins). fs1 p = fs0 p"
    using s(4) apart by (auto simp: atomic_write_def Let_def split: if_splits)
  have "\<forall>p \<in> set (out # ins). stat_of fs1 p = stat_of fs0 p" using same by (simp add: stat_of_def)
  then have "fast_inputs_of fs1 ins = Ok fast" "stat_of fs1 out = Some fo"
      "compute_epoch_key fs0 ins args = compute_epoch_key fs1 ins args"
    using s(2) epoch_key_cong [of ins fs1 fs0] fast_inputs_of_cong [OF s(1), of fs1] by simp_all
  then show thesis using that [OF mp, of ?m] codec [OF s(3)] by simp
qed

text \<open>C10: The cache accepts exactly the recorded state.  After a link recorded its manifest, and as
  long as that manifest is on disk, reuse says yes if and only if the flags and the input list are the recorded ones and
  the metadata of every input and of the output is unchanged; and the state a changed relink starts from, given while no
  input is gone and the output is untouched, names exactly the inputs whose metadata changed and carries the recorded
  sections, symbols and snapshot.\<close>

theorem record_then_reuse:
  assumes "record_link_with_sections env out ins args secs syms fe blob fs = Ok fs1"
    and "\<And>m b. ce_encode env m = Some b \<Longrightarrow> ce_decode env b = Some m"
    and "manifest_path out \<notin> set (out # ins)" "with_extension (manifest_path out) ''tmp'' \<notin> set (out # ins)"
    and "fs' (manifest_path out) = fs1 (manifest_path out)"
  shows "try_reuse env fs' out ins' args' =
       Ok (args' = args \<and> ins' = ins \<and> (\<forall>p \<in> set (out # ins). stat_of fs' p = stat_of fs1 p)) \<and>
     load_changed_state env fs' out ins args =
       Ok (if (\<exists>p \<in> set ins. fs' p = None) \<or> stat_of fs' out \<noteq> stat_of fs1 out then None
           else Some \<lparr>cl_changed_inputs = filter (\<lambda>p. stat_of fs' p \<noteq> stat_of fs1 p) ins,
                      cl_sections = secs, cl_symbols = syms, cl_front_end = fe\<rparr>)"
proof -
  obtain f m where m: "fs1 (manifest_path out) = Some f" "cf_readable f" "ce_decode env (cf_data f) = Some m"
    "mf_version m = CACHE_VERSION" "mf_args_hash m = args" "mf_epoch_key m = compute_epoch_key fs1 ins args"
    "fast_inputs_of fs1 ins = Ok (mf_fast_inputs m)" "stat_of fs1 out = Some (mf_fast_output m)"
    "mf_sections m = secs" "mf_symbols m = syms" "mf_front_end m = fe"
    using record_link_manifest [OF assms(1-4)] by blast
  have rd: "read_file fs' (manifest_path out) = Ok (cf_data f)" using m(1,2) assms(5) by (simp add: read_file_def)
  have ex: "fs' (manifest_path out) = Some f" using m(1) assms(5) by simp
  have out: "fs' out = None \<Longrightarrow> stat_of fs' out \<noteq> Some (mf_fast_output m)" by (simp add: stat_of_def)
  note im = inputs_match_iff [OF m(7), of ins' fs'] and ci = changed_inputs_iff [OF m(7), of fs']
  have 1: "try_reuse env fs' out ins' args' =
      Ok (args' = args \<and> ins' = ins \<and> (\<forall>p \<in> set (out # ins). stat_of fs' p = stat_of fs1 p))"
  proof (cases "args' = args \<and> ins' = ins \<and> (\<forall>p \<in> set ins. stat_of fs' p = stat_of fs1 p)")
    case True
    then show ?thesis
      using rd ex m(3-6,8) im epoch_key_cong [of ins fs' fs1 args] out by (auto simp: try_reuse_def)
  next
    case False
    then have "try_reuse env fs' out ins' args' = Ok False"
      using rd ex m(3-6,8) im by (auto simp: try_reuse_def)
    then show ?thesis using False by auto
  qed
  have 2: "load_changed_state env fs' out ins args =
       Ok (if (\<exists>p \<in> set ins. fs' p = None) \<or> stat_of fs' out \<noteq> stat_of fs1 out then None
           else Some \<lparr>cl_changed_inputs = filter (\<lambda>p. stat_of fs' p \<noteq> stat_of fs1 p) ins,
                      cl_sections = secs, cl_symbols = syms, cl_front_end = fe\<rparr>)"
    using rd ex m(3-5,8-11) ci out by (auto simp: load_changed_state_def read_manifest_def)
  from 1 2 show ?thesis ..
qed


text \<open>A link of \<open>a.o\<close> to \<open>a.out\<close>, recorded with a codec that knows its manifest, and \<open>a.o\<close> replaced afterwards.\<close>

definition demo_file :: "u64 \<Rightarrow> cache_file" where
  "demo_file inode = \<lparr>cf_data = [1], cf_readable = True,
     cf_stat = \<lparr>ff_len = 1, ff_mtime_sec = 9, ff_mtime_nsec = 0, ff_inode = inode\<rparr>\<rparr>"

definition demo_fs :: cache_fs where
  "demo_fs = [''a.o'' \<mapsto> demo_file 1, ''a.out'' \<mapsto> demo_file 2]"

definition demo_manifest :: manifest where
  "demo_manifest =
     \<lparr>mf_version = CACHE_VERSION, mf_args_hash = 5, mf_epoch_key = compute_epoch_key demo_fs [''a.o''] 5,
      mf_inputs = [], mf_fast_inputs = [(''a.o'', cf_stat (demo_file 1))], mf_output = \<lparr>cfp_len = 0, cfp_hash = 0\<rparr>,
      mf_fast_output = cf_stat (demo_file 2), mf_sections = [], mf_symbols = [], mf_front_end = None\<rparr>"

definition demo_env :: cache_env where
  "demo_env =
     \<lparr>ce_encode = (\<lambda>m. if m = demo_manifest then Some [7] else None),
      ce_decode = (\<lambda>b. if b = [7] then Some demo_manifest else None),
      ce_mkdir = (\<lambda>_. True), ce_writable = (\<lambda>_. True), ce_stamp = (\<lambda>_ _. cf_stat (demo_file 3))\<rparr>"

lemma demo_paths [simp]:
  "manifest_path ''a.out'' = ''a.incr/manifest.bin''"
  "with_extension ''a.incr/manifest.bin'' ''tmp'' = ''a.incr/manifest.tmp''"
  by (simp_all add: manifest_path_def cache_dir_def with_extension_def file_name_def file_stem_def path_core.simps)

lemma demo_record:
  "record_link demo_env ''a.out'' [''a.o''] 5 demo_fs =
     Ok (demo_fs(''a.incr/manifest.tmp'' := None, ''a.incr/manifest.bin'' \<mapsto>
           \<lparr>cf_data = [7], cf_readable = True, cf_stat = cf_stat (demo_file 3)\<rparr>))"
proof -
  have f: "fast_of_file demo_fs ''a.o'' = Ok (cf_stat (demo_file 1))" "fast_of_file demo_fs ''a.out'' = Ok (cf_stat (demo_file 2))"
    by (simp_all add: stat_of_def demo_fs_def)
  have enc: "ce_encode demo_env demo_manifest = Some [7]" by (simp add: demo_env_def)
  show ?thesis
    using enc [unfolded demo_manifest_def]
    by (simp add: record_link_def record_link_with_sections_def input_fingerprints_def f atomic_write_def Let_def
        del: fast_of_file_iff) (simp add: demo_env_def)
qed

theorem record_then_reuse_witness:
  "\<exists>fs1. record_link demo_env ''a.out'' [''a.o''] 5 demo_fs = Ok fs1 \<and>
     try_reuse demo_env fs1 ''a.out'' [''a.o''] 5 = Ok True \<and>
     load_changed_state demo_env (fs1(''a.o'' \<mapsto> demo_file 4)) ''a.out'' [''a.o''] 5 =
       Ok (Some \<lparr>cl_changed_inputs = [''a.o''], cl_sections = [], cl_symbols = [], cl_front_end = None\<rparr>)"
proof -
  obtain fs1 where fs1: "record_link demo_env ''a.out'' [''a.o''] 5 demo_fs = Ok fs1" using demo_record by blast
  have codec: "ce_encode demo_env m = Some b \<Longrightarrow> ce_decode demo_env b = Some m" for m b
    by (auto simp: demo_env_def split: if_splits)
  note r = record_then_reuse [OF fs1 [unfolded record_link_def] codec]
  have 1: "stat_of fs1 ''a.o'' = Some (cf_stat (demo_file 1))" using fs1 demo_record by (auto simp: stat_of_def demo_fs_def)
  have "stat_of (fs1(''a.o'' \<mapsto> demo_file 4)) ''a.out'' = stat_of fs1 ''a.out''"
    "stat_of (fs1(''a.o'' \<mapsto> demo_file 4)) ''a.o'' \<noteq> stat_of fs1 ''a.o''"
    using 1 by (auto simp: stat_of_def demo_file_def)
  then show ?thesis
    using fs1 r [of fs1 "[''a.o'']" 5] r [of "fs1(''a.o'' \<mapsto> demo_file 4)" "[''a.o'']" 5] by simp
qed

section \<open>Red and green sections\<close>

datatype section_color = Green | Red

datatype partial_relink_fallback = MissingSectionMetadata | MissingPreviousSection string
  | SectionFileOffsetChanged string u64 u64 | SectionVirtualAddressChanged string u64 u64
  | SectionCapacityExceeded string u64 u64 | SectionSizeChanged string u64 u64

fun fallback_code :: "partial_relink_fallback \<Rightarrow> string" where
  "fallback_code MissingSectionMetadata = ''missing_section_metadata''"
| "fallback_code (MissingPreviousSection _) = ''missing_previous_section''"
| "fallback_code (SectionFileOffsetChanged _ _ _) = ''section_file_offset_changed''"
| "fallback_code (SectionVirtualAddressChanged _ _ _) = ''section_virtual_address_changed''"
| "fallback_code (SectionCapacityExceeded _ _ _) = ''section_capacity_exceeded''"
| "fallback_code (SectionSizeChanged _ _ _) = ''section_size_changed''"

record partial_relink_plan =
  pl_colors :: "string \<rightharpoonup> section_color"
  pl_red :: "string set"
  pl_green :: "string set"

definition plan_color :: "partial_relink_plan \<Rightarrow> string \<Rightarrow> section_color option" where
  "plan_color pl n = pl_colors pl n"

definition plan_is_red :: "partial_relink_plan \<Rightarrow> string \<Rightarrow> bool" where
  "plan_is_red pl n \<longleftrightarrow> n \<in> pl_red pl"

definition plan_is_green :: "partial_relink_plan \<Rightarrow> string \<Rightarrow> bool" where
  "plan_is_green pl n \<longleftrightarrow> n \<in> pl_green pl"

definition red_count :: "partial_relink_plan \<Rightarrow> nat" where
  "red_count pl = card (pl_red pl)"

definition green_count :: "partial_relink_plan \<Rightarrow> nat" where
  "green_count pl = card (pl_green pl)"

text \<open>The sections with a relocation against one of the moved symbols; \<open>None\<close> where a chain of the index never ends.\<close>

fun moved_reloc_sections :: "u32 list \<Rightarrow> reloc_reverse_index \<Rightarrow> string list \<Rightarrow> string set option" where
  "moved_reloc_sections [] ix secs = Some {}"
| "moved_reloc_sections (s # ss) ix secs =
     Option.bind (iter_relocs ix s) (\<lambda>rs. Option.bind (moved_reloc_sections ss ix secs) (\<lambda>m.
       Some (set (List.map_filter (\<lambda>r. get secs (unat r)) rs) \<union> m)))"

text \<open>Why a section cannot be patched in place.\<close>

definition section_fallback :: "(string \<rightharpoonup> section_record) \<Rightarrow> patch_section_record \<Rightarrow> partial_relink_fallback option" where
  "section_fallback previous c =
     (let n = ps_name c in
      case previous n of
        None \<Rightarrow> Some (MissingPreviousSection n)
      | Some p \<Rightarrow>
          if sr_file_offset p \<noteq> ps_file_offset c then Some (SectionFileOffsetChanged n (sr_file_offset p) (ps_file_offset c))
          else if sr_virtual_address p \<noteq> ps_virtual_address c
          then Some (SectionVirtualAddressChanged n (sr_virtual_address p) (ps_virtual_address c))
          else if sr_capacity p < ps_size c then Some (SectionCapacityExceeded n (sr_capacity p) (ps_size c))
          else if ps_size c \<noteq> sr_size p then Some (SectionSizeChanged n (sr_size p) (ps_size c))
          else None)"

fun plan_patches ::
  "(string \<rightharpoonup> section_record) \<Rightarrow> string set \<Rightarrow> patch_section_record list \<Rightarrow> partial_relink_plan \<Rightarrow>
   (partial_relink_fallback, partial_relink_plan) outcome" where
  "plan_patches previous moved [] pl = Ok pl"
| "plan_patches previous moved (c # cs) pl =
     (case section_fallback previous c of
        Some e \<Rightarrow> Err e
      | None \<Rightarrow>
          plan_patches previous moved cs
            (if ps_input_changed c \<or> ps_name c \<in> moved
             then pl\<lparr>pl_colors := (pl_colors pl)(ps_name c \<mapsto> Red), pl_red := insert (ps_name c) (pl_red pl)\<rparr>
             else pl\<lparr>pl_colors := (pl_colors pl)(ps_name c \<mapsto> Green), pl_green := insert (ps_name c) (pl_green pl)\<rparr>))"

definition previous_sections :: "cached_link_state \<Rightarrow> string \<rightharpoonup> section_record" where
  "previous_sections cached = map_of (rev (map (\<lambda>s. (sr_name s, s)) (cl_sections cached)))"

definition plan_partial_relink ::
  "cached_link_state \<Rightarrow> patch_section_record list \<Rightarrow> u32 list \<Rightarrow> reloc_reverse_index \<Rightarrow> string list \<Rightarrow>
   (partial_relink_fallback, partial_relink_plan) outcome option" where
  "plan_partial_relink cached current moved ix secs =
     (if current = [] \<or> cl_sections cached = [] then Some (Err MissingSectionMetadata)
      else Option.bind (moved_reloc_sections moved ix secs) (\<lambda>m.
        Some (plan_patches (previous_sections cached) m current \<lparr>pl_colors = Map.empty, pl_red = {}, pl_green = {}\<rparr>)))"

definition all_red :: "(string \<times> fingerprint) list \<Rightarrow> string \<rightharpoonup> section_color" where
  "all_red secs = map_of (map (\<lambda>(n, _). (n, Red)) secs)"

text \<open>Whether a section has a relocation against a moved symbol, asked section by section.\<close>

fun section_references_moved_checked :: "string \<Rightarrow> u32 list \<Rightarrow> reloc_reverse_index \<Rightarrow> string list \<Rightarrow> bool option" where
  "section_references_moved_checked n [] ix secs = Some False"
| "section_references_moved_checked n (s # ss) ix secs =
     Option.bind (iter_relocs ix s) (\<lambda>rs.
       if list_ex (\<lambda>r. get secs (unat r) = Some n) rs then Some True
       else section_references_moved_checked n ss ix secs)"

fun color_sections ::
  "(string \<rightharpoonup> fingerprint) \<Rightarrow> u32 list \<Rightarrow> reloc_reverse_index \<Rightarrow> string list \<Rightarrow> (string \<times> fingerprint) list \<Rightarrow>
   (string \<rightharpoonup> section_color) \<Rightarrow> (string \<rightharpoonup> section_color) option" where
  "color_sections prev moved ix secs [] m = Some m"
| "color_sections prev moved ix secs ((n, f) # rest) m =
     Option.bind (section_references_moved_checked n moved ix secs) (\<lambda>mv.
       color_sections prev moved ix secs rest (m(n \<mapsto> (if prev n = Some f \<and> \<not> mv then Green else Red))))"

definition compute_red_green ::
  "cache_env \<Rightarrow> cache_fs \<Rightarrow> string \<Rightarrow> (string \<times> fingerprint) list \<Rightarrow> u32 list \<Rightarrow> reloc_reverse_index \<Rightarrow> string list \<Rightarrow>
   (cache_error, string \<rightharpoonup> section_color) outcome option" where
  "compute_red_green env fs output current moved ix secs =
     (if fs (manifest_path output) = None then Some (Ok (all_red current))
      else case read_file fs (manifest_path output) of
        Err e \<Rightarrow> Some (Err e)
      | Panic \<Rightarrow> Some Panic
      | Ok bs \<Rightarrow>
          (case ce_decode env bs of
             None \<Rightarrow> Some (Ok (all_red current))
           | Some m \<Rightarrow>
               if mf_version m \<noteq> CACHE_VERSION then Some (Ok (all_red current))
               else map_option Ok (color_sections
                      (map_of (rev (map (\<lambda>s. (sr_name s, sr_fingerprint s)) (mf_sections m)))) moved ix secs current Map.empty)))"


lemma references_moved_iff:
  "moved_reloc_sections ss ix secs = Some m \<Longrightarrow> section_references_moved_checked n ss ix secs = Some (n \<in> m)"
proof (induction ss arbitrary: m)
  case (Cons s ss)
  then obtain rs m1 where r: "iter_relocs ix s = Some rs" "moved_reloc_sections ss ix secs = Some m1"
      "m = set (List.map_filter (\<lambda>r. get secs (unat r)) rs) \<union> m1"
    by (auto split: Option.bind_splits)
  have "list_ex (\<lambda>r. get secs (unat r) = Some n) rs \<longleftrightarrow> n \<in> set (List.map_filter (\<lambda>r. get secs (unat r)) rs)"
    by (simp add: in_map_filter list_ex_iff)
  then show ?case using r Cons.IH [OF r(2)] by simp
qed simp

lemma moved_reloc_sections_mem:
  assumes "moved_reloc_sections ss ix secs = Some m"
  shows "n \<in> m \<longleftrightarrow> (\<exists>s \<in> set ss. \<exists>rs. iter_relocs ix s = Some rs \<and> (\<exists>r \<in> set rs. get secs (unat r) = Some n))"
  using assms
proof (induction ss arbitrary: m)
  case (Cons s ss)
  then obtain rs m1 where r: "iter_relocs ix s = Some rs" "moved_reloc_sections ss ix secs = Some m1"
      "m = set (List.map_filter (\<lambda>r. get secs (unat r)) rs) \<union> m1"
    by (auto split: Option.bind_splits)
  have "n \<in> set (List.map_filter (\<lambda>r. get secs (unat r)) rs) \<longleftrightarrow> (\<exists>r \<in> set rs. get secs (unat r) = Some n)"
    by (rule in_map_filter)
  then show ?case using r Cons.IH [OF r(2)] by auto
qed simp

text \<open>A plan exists exactly when no section has a reason against it, and colours each by its input and the moved
  targets; otherwise the first reason is the answer.\<close>

lemma plan_patches_spec:
  "plan_patches prev moved cs pl =
     (case List.map_filter (section_fallback prev) cs of
        e # _ \<Rightarrow> Err e
      | [] \<Rightarrow> plan_patches prev moved cs pl)"
  by (induction cs arbitrary: pl) (auto simp: List.map_filter_simps split: option.splits list.splits)

lemma plan_patches_red_green:
  "plan_patches prev moved cs pl = Ok pl' \<Longrightarrow>
     pl_red pl' = pl_red pl \<union> ps_name ` {c \<in> set cs. ps_input_changed c \<or> ps_name c \<in> moved} \<and>
     pl_green pl' = pl_green pl \<union> ps_name ` {c \<in> set cs. \<not> (ps_input_changed c \<or> ps_name c \<in> moved)} \<and>
     (\<forall>c \<in> set cs. section_fallback prev c = None)"
proof (induction cs arbitrary: pl)
  case (Cons c cs)
  then have n: "section_fallback prev c = None" by (auto split: option.splits)
  show ?case
  proof (cases "ps_input_changed c \<or> ps_name c \<in> moved")
    case True
    then show ?thesis using Cons.IH Cons.prems n by fastforce
  next
    case False
    then show ?thesis using Cons.IH Cons.prems n by fastforce
  qed
qed simp

text \<open>What a section that passes keeps from the previous link.\<close>

lemma section_fallback_None:
  "section_fallback prev c = None \<longleftrightarrow>
     (\<exists>p. prev (ps_name c) = Some p \<and> sr_file_offset p = ps_file_offset c \<and>
        sr_virtual_address p = ps_virtual_address c \<and> sr_size p = ps_size c \<and> ps_size c \<le> sr_capacity p)"
  by (auto simp: section_fallback_def Let_def split: option.splits if_splits)

end
