(* ===== verification/Layout_Fingerprint.thy ===== *)
theory Layout_Fingerprint
  imports Layout_Group
begin

text \<open>
  The layout fingerprint of \<^verbatim>\<open>peony-layout/src/lib.rs\<close>, by which a relink decides that a cached \<open>layout\<close> may be used
  again: an FNV-1a hash of the configuration, the symbol table and a digest per object.  The digest of an object
  does not read the bytes of ordinary sections, so an edit of the same size does not change it, and digests of
  unchanged objects are taken from the previous link.  \<open>None\<close> is a section handle outside the arena (a panic).
\<close>

section \<open>FNV-1a\<close>

abbreviation (input) FNV_OFFSET :: u64 where "FNV_OFFSET \<equiv> 0xcbf29ce484222325"
abbreviation (input) FNV_PRIME :: u64 where "FNV_PRIME \<equiv> 0x100000001b3"

definition fnv_byte :: "u64 \<Rightarrow> u8 \<Rightarrow> u64" where
  "fnv_byte h b = (h XOR ucast b) * FNV_PRIME"

definition fnv_bytes :: "u64 \<Rightarrow> bytes \<Rightarrow> u64" where
  "fnv_bytes h data = fold (\<lambda>b h. fnv_byte h b) data h"

definition fnv_u64 :: "u64 \<Rightarrow> u64 \<Rightarrow> u64" where
  "fnv_u64 h v = fnv_bytes h (to_le 8 v)"

definition fnv_bool :: "u64 \<Rightarrow> bool \<Rightarrow> u64" where
  "fnv_bool h b = fnv_byte h (of_bool b)"

section \<open>The digest of an object\<close>

fun kind_code :: "section_kind \<Rightarrow> u64" where
  "kind_code Text = 0" | "kind_code ReadOnly = 1" | "kind_code KData = 2" | "kind_code Bss = 3"
| "kind_code Debug = 4" | "kind_code EhFrame = 5" | "kind_code MergeString = 6" | "kind_code MergeConst = 7"
| "kind_code InitArray = 8" | "kind_code Tdata = 9" | "kind_code Tbss = 10" | "kind_code Other = 11"

fun binding_code :: "binding \<Rightarrow> u64" where
  "binding_code Local = 0" | "binding_code Global = 1" | "binding_code Weak = 2"

definition is_property :: "input_section \<Rightarrow> bool" where
  "is_property s \<longleftrightarrow> sec_name s = ''.note.gnu.property''"

definition digested :: "section_filter \<Rightarrow> (sec_key \<times> sec_key) list option \<Rightarrow> nat \<Rightarrow> input_section \<Rightarrow> bool" where
  "digested live fold_map i s \<longleftrightarrow>
     (if is_allocatable (sec_name s) (sec_kind s) (sec_flags s)
      then emits live (i, sec_index s) \<and>
        (case fold_map of None \<Rightarrow> True | Some fm \<Rightarrow> map_of fm (i, sec_index s) = None)
      else is_property s)"

definition digest_reloc :: "input_object \<Rightarrow> input_reloc \<Rightarrow> u64 \<Rightarrow> u64" where
  "digest_reloc obj r h =
     (let h = fnv_u64 (fnv_u64 (fnv_u64 h (r_offset r)) (ucast (r_type r))) (r_addend r) in
      case symbol_by_index obj (r_symbol r) of
        Some s \<Rightarrow> fnv_bytes (fnv_byte h 1) (ascii (sym_name s)) | None \<Rightarrow> fnv_byte h 0)"

definition reads_content :: "input_section \<Rightarrow> bool" where
  "reads_content s \<longleftrightarrow> is_property s \<or> sec_kind s = EhFrame"

definition digest_section :: "input_arena \<Rightarrow> input_object \<Rightarrow> nat \<times> input_section \<Rightarrow> u64 \<Rightarrow> u64 option" where
  "digest_section arena obj = (\<lambda>(pos, s) h.
     (let h = fnv_bytes (fnv_u64 (fnv_u64 h (of_nat pos)) (of_nat (sec_index s))) (ascii (sec_name s));
          h = fnv_u64 (fnv_u64 h (kind_code (sec_kind s))) (ucast (sec_sh_type s));
          h = fnv_u64 (fnv_u64 (fnv_u64 h (sec_flags s)) (sec_align s)) (sec_size s)
      in map_option (fold (digest_reloc obj) (sec_relocs s))
           (if reads_content s then map_option (fnv_bytes h) (arena_bytes arena (sec_data s)) else Some h)))"

definition digest_group :: "comdat_group \<Rightarrow> u64 \<Rightarrow> u64" where
  "digest_group g h = fold (\<lambda>m h. fnv_u64 h (of_nat m)) (cg_members g) (fnv_byte (fnv_bytes h (ascii (cg_signature g))) 0)"

definition digest_symbol :: "input_symbol \<Rightarrow> u64 \<Rightarrow> u64" where
  "digest_symbol s h =
     (let h = fnv_u64 (fnv_bytes h (ascii (sym_name s))) (binding_code (sym_binding s));
          h = fnv_bool (fnv_bool (fnv_bool h (sym_is_undefined s)) (sym_is_common s)) (sym_is_ifunc s);
          h = fnv_u64 (fnv_u64 h (ucast (sym_st_type s))) (ucast (sym_visibility s));
          h = fnv_u64 h (case sym_section s of None \<Rightarrow> 0 | Some si \<Rightarrow> of_nat si + 1)
      in fnv_u64 (fnv_u64 h (sym_value s)) (sym_size s))"

definition fold_option :: "('a \<Rightarrow> 'b \<Rightarrow> 'b option) \<Rightarrow> 'a list \<Rightarrow> 'b \<Rightarrow> 'b option" where
  "fold_option f xs b = fold (\<lambda>x b. Option.bind b (f x)) xs (Some b)"

definition object_layout_digest ::
  "input_arena \<Rightarrow> input_object \<Rightarrow> nat \<Rightarrow> section_filter \<Rightarrow> (sec_key \<times> sec_key) list option \<Rightarrow> u64 option" where
  "object_layout_digest arena obj i live fold_map =
     map_option (\<lambda>h. fold digest_symbol (symbols obj) (fold digest_group (comdat_groups obj) h))
       (fold_option (digest_section arena obj)
         (filter (\<lambda>(pos, s). digested live fold_map i s) (enumerate 0 (sections obj))) FNV_OFFSET)"

definition object_reuse_digest :: "input_arena \<Rightarrow> input_object \<Rightarrow> nat \<Rightarrow> u64 option" where
  "object_reuse_digest arena obj i = object_layout_digest arena obj i All None"

section \<open>The fingerprint\<close>

record layout_fingerprint =
  lf_drivers_hash :: u64
  lf_object_digests :: "u64 list"

definition fold_symbol_name :: "symbol_table \<Rightarrow> u32 \<Rightarrow> u64 \<Rightarrow> u64" where
  "fold_symbol_name st sid h =
     (case name_by_id st sid of Some n \<Rightarrow> fnv_bytes (fnv_byte h 1) (ascii n) | None \<Rightarrow> fnv_byte h 0)"

fun fold_tls_ref :: "symbol_table \<Rightarrow> u8 \<Rightarrow> tls_ref \<Rightarrow> u64 \<Rightarrow> u64" where
  "fold_tls_ref st kind (TlsGlobal sid) h = fold_symbol_name st sid (fnv_byte (fnv_byte h kind) 1)"
| "fold_tls_ref st kind (TlsLocal ob s) h = fnv_u64 (fnv_u64 (fnv_byte (fnv_byte h kind) 2) (of_nat ob)) (of_nat s)"

definition fold_config :: "layout_config \<Rightarrow> u64 \<Rightarrow> u64" where
  "fold_config c h =
     (let h = fnv_bytes (fnv_u64 (fnv_u64 h (cfg_base_address c)) (cfg_page_size c)) (ascii (cfg_entry_symbol c));
          h = fnv_bool (fnv_bool (fnv_bool h (cfg_build_id c)) (cfg_strip c)) (cfg_strip_debug c)
      in fnv_bool (fnv_bool (fnv_bool (fnv_bool h (cfg_pie c)) (cfg_shared c)) (cfg_emit_relocs c)) (cfg_script c \<noteq> None))"

definition fold_object :: "input_object \<times> u64 \<Rightarrow> u64 \<Rightarrow> u64" where
  "fold_object = (\<lambda>(obj, d) h. fnv_u64 (fnv_byte (fnv_bytes h (ascii (path obj))) 0) d)"

definition fold_id :: "symbol_table \<Rightarrow> nat \<Rightarrow> u64 \<Rightarrow> u64" where
  "fold_id st i h =
     fnv_byte (case name_by_id st (of_nat i) of Some n \<Rightarrow> fnv_bytes h (ascii n) | None \<Rightarrow> h) 0"

definition fold_names :: "name list \<Rightarrow> u64 \<Rightarrow> u64" where
  "fold_names ns h = fold (\<lambda>n h. fnv_bytes h (ascii n)) ns h"

definition fold_table :: "symbol_table \<Rightarrow> u64 \<Rightarrow> u64" where
  "fold_table st h =
     (let rs = resolutions st;
          commons = sort_key fst (List.map_filter (\<lambda>(n, r). map_option (\<lambda>(sz, al). (res_id r, n, sz, al)) (res_common r)) rs);
          copies = sort (map fst (filter (\<lambda>(n, r). res_copy_reloc r) rs));
          imports = sort (map (\<lambda>(n, r). (n, case res_version r of Some v \<Rightarrow> v | None \<Rightarrow> [],
                                       case res_soname r of Some s \<Rightarrow> s | None \<Rightarrow> []))
                      (filter (\<lambda>(n, r). res_import r) rs));
          exports = sort (map fst (filter (\<lambda>(n, r). is_export r) rs));
          h = fold (\<lambda>(_, n, sz, al) h. fnv_u64 (fnv_u64 (fnv_bytes h (ascii n)) sz) al) commons h;
          h = fold_names copies h;
          h = fold (\<lambda>(n, v, s) h. fold_names [n, v, s] h) imports h
      in fold_names exports h)"

definition fold_slots :: "symbol_table \<Rightarrow> u32 list \<Rightarrow> u64 \<Rightarrow> u64" where
  "fold_slots st ids h = fold (fold_symbol_name st) ids (fnv_u64 h (of_nat (length ids)))"

definition drivers_hash ::
  "input_object list \<Rightarrow> u64 list \<Rightarrow> symbol_table \<Rightarrow> u32 list \<Rightarrow> u32 list \<Rightarrow> layout_config \<Rightarrow> tls_got_info \<Rightarrow> u64" where
  "drivers_hash objs digests st got_syms plt_syms config tls =
     (let h = fnv_u64 (fold_config config FNV_OFFSET) (of_nat (length objs));
          h = fnv_u64 (fold fold_object (zip objs digests) h) (of_nat (id_count st));
          h = fold (fold_id st) [0..<id_count st] h;
          h = fold_slots st plt_syms (fold_slots st got_syms h);
          h = fold (fold_tls_ref st 3) (tg_desc tls) (fold (fold_tls_ref st 2) (tg_ie tls) (fold (fold_tls_ref st 1) (tg_gd tls) h))
      in fold_table st (fnv_bool h (tg_ldm tls)))"

definition digest_or_reuse ::
  "input_arena \<Rightarrow> section_filter \<Rightarrow> (sec_key \<times> sec_key) list option \<Rightarrow> nat set \<Rightarrow> u64 list option \<Rightarrow>
   nat \<times> input_object \<Rightarrow> u64 option" where
  "digest_or_reuse arena live fold_map changed prior = (\<lambda>(i, obj).
     (case prior of
        Some p \<Rightarrow> if i \<notin> changed then Some (p ! i) else object_layout_digest arena obj i live fold_map
      | None \<Rightarrow> object_layout_digest arena obj i live fold_map))"

definition object_digests ::
  "input_arena \<Rightarrow> input_object list \<Rightarrow> section_filter \<Rightarrow> (sec_key \<times> sec_key) list option \<Rightarrow> nat set \<Rightarrow> u64 list option \<Rightarrow>
   u64 list option" where
  "object_digests arena objs live fold_map changed prior =
     (let prior = (case prior of Some p \<Rightarrow> if length p = length objs then Some p else None | None \<Rightarrow> None);
          ds = map (digest_or_reuse arena live fold_map changed prior) (enumerate 0 objs)
      in if None \<in> set ds then None else Some (map the ds))"

definition compute_layout_fingerprint ::
  "input_arena \<Rightarrow> input_object list \<Rightarrow> symbol_table \<Rightarrow> u32 list \<Rightarrow> u32 list \<Rightarrow> section_filter \<Rightarrow> layout_config \<Rightarrow>
   tls_got_info \<Rightarrow> (sec_key \<times> sec_key) list option \<Rightarrow> nat set \<Rightarrow> u64 list option \<Rightarrow> layout_fingerprint option" where
  "compute_layout_fingerprint arena objs st got_syms plt_syms live config tls fold_map changed prior =
     map_option (\<lambda>ds. \<lparr>lf_drivers_hash = drivers_hash objs ds st got_syms plt_syms config tls, lf_object_digests = ds\<rparr>)
       (object_digests arena objs live fold_map changed prior)"

section \<open>What an edit may change\<close>

text \<open>The same section, its bytes apart: those may differ where the digest does not read them.\<close>

definition same_but_bytes :: "input_arena \<Rightarrow> input_arena \<Rightarrow> input_section \<Rightarrow> input_section \<Rightarrow> bool" where
  "same_but_bytes a a' s s' \<longleftrightarrow>
     s' = s\<lparr>sec_data := sec_data s'\<rparr> \<and>
     (sec_name s = ''.note.gnu.property'' \<or> sec_kind s = EhFrame \<longrightarrow> arena_bytes a' (sec_data s') = arena_bytes a (sec_data s))"

definition edited_object :: "input_arena \<Rightarrow> input_arena \<Rightarrow> input_object \<Rightarrow> input_object \<Rightarrow> bool" where
  "edited_object a a' obj obj' \<longleftrightarrow>
     obj' = obj\<lparr>sections := sections obj'\<rparr> \<and> list_all2 (same_but_bytes a a') (sections obj) (sections obj')"

lemma digest_reloc_cong: "edited_object a a' obj obj' \<Longrightarrow> digest_reloc obj' = digest_reloc obj"
proof (rule ext)+
  fix r h
  assume "edited_object a a' obj obj'"
  then have "symbols obj' = symbols obj" "symbol_map obj' = symbol_map obj"
    unfolding edited_object_def by (metis input_object.select_convs(3,5) input_object.surjective input_object.update_convs(2))+
  then show "digest_reloc obj' r h = digest_reloc obj r h" by (simp add: digest_reloc_def symbol_by_index_def symbol_pos_def)
qed

lemma same_but_bytes_fields:
  assumes "same_but_bytes a a' s s'"
  shows "sec_index s' = sec_index s" "sec_name s' = sec_name s" "sec_kind s' = sec_kind s" "sec_sh_type s' = sec_sh_type s"
    "sec_align s' = sec_align s" "sec_size s' = sec_size s" "sec_flags s' = sec_flags s" "sec_relocs s' = sec_relocs s"
    "reads_content s' = reads_content s" "digested live fm i s' = digested live fm i s"
proof -
  obtain x where "s' = s\<lparr>sec_data := x\<rparr>" using assms by (auto simp: same_but_bytes_def)
  then show "sec_index s' = sec_index s" "sec_name s' = sec_name s" "sec_kind s' = sec_kind s" "sec_sh_type s' = sec_sh_type s"
    "sec_align s' = sec_align s" "sec_size s' = sec_size s" "sec_flags s' = sec_flags s" "sec_relocs s' = sec_relocs s"
    "reads_content s' = reads_content s" "digested live fm i s' = digested live fm i s"
    by (simp_all add: reads_content_def is_property_def digested_def cong: option.case_cong)
qed

lemma digest_section_cong:
  assumes "edited_object a a' obj obj'" "same_but_bytes a a' s s'"
  shows "digest_section a' obj' (pos, s') = digest_section a obj (pos, s)"
  using assms(2)
  by (simp add: fun_eq_iff digest_section_def same_but_bytes_fields [OF assms(2)] digest_reloc_cong [OF assms(1)] Let_def
      same_but_bytes_def reads_content_def is_property_def)

lemma fold_option_cong:
  "list_all2 (\<lambda>x y. f x = g y) xs ys \<Longrightarrow> fold_option f xs b = fold_option g ys b"
proof -
  assume "list_all2 (\<lambda>x y. f x = g y) xs ys"
  then have "fold (\<lambda>x b. Option.bind b (f x)) xs c = fold (\<lambda>x b. Option.bind b (g x)) ys c" for c
    by (induction arbitrary: c rule: list_all2_induct) auto
  then show ?thesis by (simp add: fold_option_def)
qed

lemma list_all2_filter:
  "list_all2 R xs ys \<Longrightarrow> (\<And>x y. R x y \<Longrightarrow> P x = Q y) \<Longrightarrow> list_all2 R (filter P xs) (filter Q ys)"
  by (induction rule: list_all2_induct) auto

lemma object_layout_digest_edited:
  assumes "edited_object a a' obj obj'"
  shows "object_layout_digest a' obj' i live fm = object_layout_digest a obj i live fm"
proof -
  let ?R = "\<lambda>(p, s) (q, s'). q = p \<and> same_but_bytes a a' s s'"
  have secs: "list_all2 (same_but_bytes a a') (sections obj) (sections obj')" and rest: "obj' = obj\<lparr>sections := sections obj'\<rparr>"
    using assms by (simp_all add: edited_object_def)
  have "list_all2 ?R (enumerate 0 (sections obj)) (enumerate 0 (sections obj'))"
    using secs by (simp add: list_all2_conv_all_nth nth_enumerate_eq)
  then have "list_all2 ?R (filter (\<lambda>(p, s). digested live fm i s) (enumerate 0 (sections obj)))
      (filter (\<lambda>(p, s). digested live fm i s) (enumerate 0 (sections obj')))"
    by (rule list_all2_filter) (auto simp: same_but_bytes_fields)
  then have "list_all2 (\<lambda>x y. digest_section a obj x = digest_section a' obj' y)
      (filter (\<lambda>(p, s). digested live fm i s) (enumerate 0 (sections obj)))
      (filter (\<lambda>(p, s). digested live fm i s) (enumerate 0 (sections obj')))"
    by (rule list_all2_mono) (use digest_section_cong [OF assms] in auto)
  from fold_option_cong [OF this]
  have "fold_option (digest_section a' obj') (filter (\<lambda>(p, s). digested live fm i s) (enumerate 0 (sections obj'))) FNV_OFFSET =
    fold_option (digest_section a obj) (filter (\<lambda>(p, s). digested live fm i s) (enumerate 0 (sections obj))) FNV_OFFSET" by simp
  moreover have "symbols obj' = symbols obj" "comdat_groups obj' = comdat_groups obj"
    using rest by (metis input_object.select_convs input_object.surjective input_object.update_convs(2))+
  ultimately show ?thesis by (simp only: object_layout_digest_def)
qed

lemma edited_path: "edited_object a a' obj obj' \<Longrightarrow> path obj' = path obj"
  unfolding edited_object_def by (metis input_object.select_convs(1) input_object.surjective input_object.update_convs(2))

lemma drivers_hash_edited:
  assumes "list_all2 (edited_object a a') objs objs'"
  shows "drivers_hash objs' ds st got plt config tls = drivers_hash objs ds st got plt config tls"
proof -
  have "fold fold_object (zip objs' ds) h = fold fold_object (zip objs ds) h" for h
    using assms
  proof (induction objs objs' arbitrary: ds h rule: list_all2_induct)
    case (Cons x xs y ys)
    then show ?case by (cases ds) (simp_all add: fold_object_def edited_path)
  qed simp
  then show ?thesis using list_all2_lengthD [OF assms] by (simp add: drivers_hash_def)
qed

lemma object_digests_scratch:
  assumes "object_digests arena objs live fm ch None = Some ds"
  shows "length ds = length objs" "\<And>i. i < length objs \<Longrightarrow> object_layout_digest arena (objs ! i) i live fm = Some (ds ! i)"
proof -
  define ms where "ms = map (\<lambda>(i, obj). object_layout_digest arena obj i live fm) (enumerate 0 objs)"
  have ms: "ms = map (digest_or_reuse arena live fm ch None) (enumerate 0 objs)"
    by (simp add: ms_def digest_or_reuse_def fun_eq_iff)
  have d: "None \<notin> set ms" "ds = map the ms"
    using assms unfolding object_digests_def Let_def option.case ms [symmetric] by (simp_all split: if_splits)
  show "length ds = length objs" by (simp add: d ms_def)
  fix i assume i: "i < length objs"
  then have "ms ! i = object_layout_digest arena (objs ! i) i live fm" "i < length ms" by (simp_all add: ms_def nth_enumerate_eq)
  moreover have "ms ! i \<noteq> None" using d(1) calculation(2) by (metis nth_mem)
  ultimately show "object_layout_digest arena (objs ! i) i live fm = Some (ds ! i)" by (simp add: d(2))
qed

lemma object_digests_each:
  assumes "length ds = length objs"
    "\<And>i. i < length objs \<Longrightarrow> digest_or_reuse arena live fm ch (case prior of Some p \<Rightarrow> if length p = length objs then Some p else None | None \<Rightarrow> None)
        (i, objs ! i) = Some (ds ! i)"
  shows "object_digests arena objs live fm ch prior = Some ds"
proof -
  let ?p = "case prior of Some p \<Rightarrow> if length p = length objs then Some p else None | None \<Rightarrow> None"
  have "map (digest_or_reuse arena live fm ch ?p) (enumerate 0 objs) = map Some ds"
    using assms by (intro nth_equalityI) (simp_all add: nth_enumerate_eq)
  then show ?thesis unfolding object_digests_def Let_def by (simp only:) (simp add: comp_def image_iff)
qed

text \<open>C26: 
  An edit that leaves everything but the bytes of ordinary sections alone does not change the fingerprint: with the
  digests of the previous link at hand, whichever objects are said to have changed, and also from scratch, a
  relink gets the fingerprint of the previous link, so the cached layout is used again.\<close>

theorem fingerprint_survives_edit:
  assumes e: "list_all2 (edited_object a a') objs objs'"
    and fp: "compute_layout_fingerprint a objs st got plt live config tls fm {} None = Some fp"
  shows "compute_layout_fingerprint a' objs' st got plt live config tls fm changed (Some (lf_object_digests fp)) = Some fp \<and>
    compute_layout_fingerprint a' objs' st got plt live config tls fm {} None = Some fp"
proof -
  obtain ds where ds: "object_digests a objs live fm {} None = Some ds"
    "fp = \<lparr>lf_drivers_hash = drivers_hash objs ds st got plt config tls, lf_object_digests = ds\<rparr>"
    using fp by (auto simp: compute_layout_fingerprint_def)
  note d = object_digests_scratch [OF ds(1)]
  have len: "length objs' = length objs" using list_all2_lengthD [OF e] by simp
  have each: "object_layout_digest a' (objs' ! i) i live fm = Some (ds ! i)" if "i < length objs" for i
    using object_layout_digest_edited [OF list_all2_nthD [OF e that]] d(2) [OF that] by simp
  have "object_digests a' objs' live fm changed (Some ds) = Some ds"
    using each d(1) by (intro object_digests_each) (auto simp: len digest_or_reuse_def)
  moreover have "object_digests a' objs' live fm {} None = Some ds"
    using each d(1) by (intro object_digests_each) (auto simp: len digest_or_reuse_def)
  ultimately show ?thesis
    by (simp add: compute_layout_fingerprint_def ds(2) drivers_hash_edited [OF e])
qed

text \<open>Only whether there is a script is hashed, not what it says.\<close>

lemma fingerprint_misses_script:
  "compute_layout_fingerprint a objs st got plt live (config\<lparr>cfg_script := Some s1\<rparr>) tls fm ch prior =
   compute_layout_fingerprint a objs st got plt live (config\<lparr>cfg_script := Some s2\<rparr>) tls fm ch prior"
  by (simp add: compute_layout_fingerprint_def drivers_hash_def fold_config_def Let_def)

text \<open>One code byte of \<^verbatim>\<open>a.o\<close> is changed.\<close>

definition edit_section :: "section_data \<Rightarrow> input_section" where
  "edit_section d =
     \<lparr>sec_index = 1, sec_name = ''.text'', sec_kind = Text, sec_sh_type = 1, sec_data = d, sec_align = 1, sec_size = 1,
      sec_flags = 6, sec_relocs = []\<rparr>"

definition edit_objects :: "input_object list" where
  "edit_objects = [parsed_object (2, 0) ''a.o'' [edit_section \<lparr>sd_src = Owned 0, sd_off = 0, sd_len = 1\<rparr>] [] []]"

theorem fingerprint_survives_edit_witness:
  "\<exists>fp. compute_layout_fingerprint (arena_new\<lparr>owned := [[0x90]]\<rparr>) edit_objects symbol_table_new [] [] All config_default
      \<lparr>tg_gd = [], tg_ie = [], tg_desc = [], tg_ldm = False\<rparr> None {} None = Some fp \<and>
     compute_layout_fingerprint (arena_new\<lparr>owned := [[0xc3]]\<rparr>) edit_objects symbol_table_new [] [] All config_default
      \<lparr>tg_gd = [], tg_ie = [], tg_desc = [], tg_ldm = False\<rparr> None {0} (Some (lf_object_digests fp)) = Some fp"
proof -
  let ?tls = "\<lparr>tg_gd = [], tg_ie = [], tg_desc = [], tg_ldm = False\<rparr>"
  have al: "is_allocatable ''.text'' Text 6" by (simp add: is_allocatable_def starts_with_def)
  obtain fp where fp: "compute_layout_fingerprint (arena_new\<lparr>owned := [[0x90]]\<rparr>) edit_objects symbol_table_new [] [] All config_default
      ?tls None {} None = Some fp"
    by (simp add: compute_layout_fingerprint_def object_digests_def digest_or_reuse_def object_layout_digest_def edit_objects_def
        parsed_object_def edit_section_def fold_option_def digested_def digest_section_def reads_content_def is_property_def al Let_def)
  have "list_all2 (edited_object (arena_new\<lparr>owned := [[0x90]]\<rparr>) (arena_new\<lparr>owned := [[0xc3]]\<rparr>)) edit_objects edit_objects"
    by (simp add: edit_objects_def edited_object_def same_but_bytes_def parsed_object_def edit_section_def reads_content_def
        is_property_def)
  from fingerprint_survives_edit [OF this fp] show ?thesis using fp by blast
qed

end
