(* ===== verification/Reloc_Types.thy ===== *)
theory Reloc_Types
  imports Layout_Model
begin

text \<open>
  \<^verbatim>\<open>peony-reloc/src/types.rs\<close>: the relocation types of the x86-64 psABI as a datatype with the numbering
  of module \<^verbatim>\<open>r_x86_64\<close> (\<open>decode\<close>), the predicates over them, and the ordered set of GOT and PLT slots
  the scan builds.  An unknown number keeps its value in \<open>R_other\<close>.
\<close>

datatype rtype = R_NONE | R_64 | R_PC32 | R_GOT32 | R_PLT32 | R_GOTPCREL | R_32 | R_32S | R_16 | R_PC16
  | R_8 | R_PC8 | R_DTPMOD64 | R_DTPOFF64 | R_TPOFF64 | R_TLSGD | R_TLSLD | R_DTPOFF32 | R_GOTTPOFF
  | R_TPOFF32 | R_PC64 | R_GOTOFF64 | R_GOTPC32 | R_SIZE32 | R_SIZE64 | R_GOTPC32_TLSDESC
  | R_TLSDESC_CALL | R_TLSDESC | R_GOTPCRELX | R_REX_GOTPCRELX | R_other u32

definition rtype_codes :: "(u32 \<times> rtype) list" where
  "rtype_codes =
     [(0, R_NONE), (1, R_64), (2, R_PC32), (3, R_GOT32), (4, R_PLT32), (9, R_GOTPCREL), (10, R_32),
      (11, R_32S), (12, R_16), (13, R_PC16), (14, R_8), (15, R_PC8), (16, R_DTPMOD64),
      (17, R_DTPOFF64), (18, R_TPOFF64), (19, R_TLSGD), (20, R_TLSLD), (21, R_DTPOFF32),
      (22, R_GOTTPOFF), (23, R_TPOFF32), (24, R_PC64), (25, R_GOTOFF64), (26, R_GOTPC32),
      (32, R_SIZE32), (33, R_SIZE64), (34, R_GOTPC32_TLSDESC), (35, R_TLSDESC_CALL),
      (36, R_TLSDESC), (41, R_GOTPCRELX), (42, R_REX_GOTPCRELX)]"

definition decode :: "u32 \<Rightarrow> rtype" where
  "decode n = (case map_of rtype_codes n of Some t \<Rightarrow> t | None \<Rightarrow> R_other n)"

definition is_tls :: "rtype \<Rightarrow> bool" where
  "is_tls t \<longleftrightarrow> t \<in> {R_TPOFF32, R_TPOFF64, R_DTPOFF32, R_DTPOFF64, R_TLSGD, R_TLSLD, R_GOTTPOFF,
     R_GOTPC32_TLSDESC, R_TLSDESC_CALL, R_TLSDESC}"

definition needs_got :: "rtype \<Rightarrow> bool" where
  "needs_got t \<longleftrightarrow> t \<in> {R_GOT32, R_GOTPCREL, R_GOTPCRELX, R_REX_GOTPCRELX}"

definition may_need_copy_reloc :: "rtype \<Rightarrow> bool" where
  "may_need_copy_reloc t \<longleftrightarrow>
     t \<in> {R_64, R_PC64, R_32, R_32S, R_PC32, R_16, R_PC16, R_8, R_PC8}"

section \<open>Synthetic slots\<close>

datatype synthetic_slot = Got u32 | Plt u32 | TlsGd tls_ref | TlsIe tls_ref | TlsLdm | TlsDesc tls_ref

text \<open>\<^verbatim>\<open>slot_set\<close> only serves membership: its keys are the elements of \<^verbatim>\<open>slots\<close>.\<close>

record scan_result =
  slots :: "synthetic_slot list"
  slot_set :: "(synthetic_slot \<times> u64) list"

definition scan_result_new :: scan_result where
  "scan_result_new = \<lparr>slots = [], slot_set = []\<rparr>"

definition add_slot :: "synthetic_slot \<Rightarrow> scan_result \<Rightarrow> scan_result" where
  "add_slot s r =
     (if map_of (slot_set r) s = None
      then r\<lparr>slots := slots r @ [s], slot_set := (s, 0) # slot_set r\<rparr> else r)"

definition got_symbols :: "scan_result \<Rightarrow> u32 list" where
  "got_symbols r = List.map_filter (\<lambda>s. case s of Got i \<Rightarrow> Some i | _ \<Rightarrow> None) (slots r)"

definition plt_symbols :: "scan_result \<Rightarrow> u32 list" where
  "plt_symbols r = List.map_filter (\<lambda>s. case s of Plt i \<Rightarrow> Some i | _ \<Rightarrow> None) (slots r)"

definition tls_gd_refs :: "scan_result \<Rightarrow> tls_ref list" where
  "tls_gd_refs r = List.map_filter (\<lambda>s. case s of TlsGd i \<Rightarrow> Some i | _ \<Rightarrow> None) (slots r)"

definition tls_ie_refs :: "scan_result \<Rightarrow> tls_ref list" where
  "tls_ie_refs r = List.map_filter (\<lambda>s. case s of TlsIe i \<Rightarrow> Some i | _ \<Rightarrow> None) (slots r)"

definition needs_tls_ldm :: "scan_result \<Rightarrow> bool" where
  "needs_tls_ldm r = list_ex (\<lambda>s. s = TlsLdm) (slots r)"

definition tls_desc_refs :: "scan_result \<Rightarrow> tls_ref list" where
  "tls_desc_refs r = List.map_filter (\<lambda>s. case s of TlsDesc i \<Rightarrow> Some i | _ \<Rightarrow> None) (slots r)"

definition slots_ok :: "scan_result \<Rightarrow> bool" where
  "slots_ok r \<longleftrightarrow> distinct (slots r) \<and> set (slots r) = fst ` set (slot_set r)"

lemma slots_ok_new [simp]: "slots_ok scan_result_new"
  by (simp add: slots_ok_def scan_result_new_def)

lemma slots_ok_add: "slots_ok r \<Longrightarrow> slots_ok (add_slot s r)"
  by (auto simp: slots_ok_def add_slot_def map_of_eq_None_iff)

lemma set_add_slot: "slots_ok r \<Longrightarrow> set (slots (add_slot s r)) = insert s (set (slots r))"
  by (auto simp: slots_ok_def add_slot_def map_of_eq_None_iff)

lemma add_slot_present: "slots_ok r \<Longrightarrow> s \<in> set (slots r) \<Longrightarrow> add_slot s r = r"
  by (auto simp: slots_ok_def add_slot_def map_of_eq_None_iff)

end
