(* ===== verification/Reloc_Apply.thy ===== *)
theory Reloc_Apply
  imports Reloc_Types
begin

text \<open>
  \<^verbatim>\<open>peony-reloc/src/apply.rs\<close>: which addresses a relocation is computed from, and the patch of the
  section's bytes.  Signed 64-bit values are words read with \<open>sint\<close>; all additions wrap as the code's
  \<^verbatim>\<open>wrapping_add\<close> does.  Slices out of range are \<open>Panic\<close>.  \<open>usize\<close> positions are \<open>nat\<close> and the two
  places where the code's unchecked \<open>usize\<close> arithmetic can wrap (\<^verbatim>\<open>off.wrapping_sub(k)\<close> and the bound
  check behind it) are written modulo \<open>2 ^ 64\<close>.
\<close>

datatype reloc_error = Overflow string u64 i64 u32 | UndefinedSymbolRef name string

section \<open>Width-checked writers\<close>

definition put_bytes :: "bytes \<Rightarrow> nat \<Rightarrow> bytes \<Rightarrow> (reloc_error, bytes) outcome" where
  "put_bytes buf off bs = (case splice buf off bs of Some b \<Rightarrow> Ok b | None \<Rightarrow> Panic)"

definition checked_i32_bytes ::
  "i64 \<Rightarrow> u32 \<Rightarrow> string \<Rightarrow> u64 \<Rightarrow> (reloc_error, bytes) outcome" where
  "checked_i32_bytes val rt obj off =
     (if - (2 ^ 31) \<le> sint val \<and> sint val < 2 ^ 31 then Ok (to_le 4 (ucast val :: u32))
      else Err (Overflow obj off val rt))"

definition write_u64 :: "bytes \<Rightarrow> nat \<Rightarrow> u64 \<Rightarrow> (reloc_error, bytes) outcome" where
  "write_u64 buf off val = put_bytes buf off (to_le 8 val)"

definition write_i32 ::
  "bytes \<Rightarrow> nat \<Rightarrow> i64 \<Rightarrow> u32 \<Rightarrow> string \<Rightarrow> (reloc_error, bytes) outcome" where
  "write_i32 buf off val rt obj =
     bind_outcome (checked_i32_bytes val rt obj (of_nat off)) (put_bytes buf off)"

definition write_u32 ::
  "bytes \<Rightarrow> nat \<Rightarrow> i64 \<Rightarrow> u32 \<Rightarrow> string \<Rightarrow> (reloc_error, bytes) outcome" where
  "write_u32 buf off val rt obj =
     (if ucast (ucast val :: u32) \<noteq> val \<and> scast (ucast val :: u32) \<noteq> val
      then Err (Overflow obj (of_nat off) val rt)
      else put_bytes buf off (to_le 4 (ucast val :: u32)))"

definition write_u16 :: "bytes \<Rightarrow> nat \<Rightarrow> i64 \<Rightarrow> string \<Rightarrow> (reloc_error, bytes) outcome" where
  "write_u16 buf off val obj =
     (if scast (ucast val :: u16) \<noteq> val \<and> ucast (ucast val :: u16) \<noteq> val
      then Err (Overflow obj (of_nat off) val 12)
      else put_bytes buf off (to_le 2 (ucast val :: u16)))"

definition write_u8 :: "bytes \<Rightarrow> nat \<Rightarrow> i64 \<Rightarrow> string \<Rightarrow> (reloc_error, bytes) outcome" where
  "write_u8 buf off val obj =
     (if scast (ucast val :: u8) \<noteq> val \<and> ucast (ucast val :: u8) \<noteq> val
      then Err (Overflow obj (of_nat off) val 14)
      else put_bytes buf off [ucast val])"

section \<open>Patching\<close>

record reloc_addrs =
  ra_s :: u64
  ra_a :: i64
  ra_p :: u64
  ra_g :: u64
  ra_l :: u64
  ra_z :: u64
  ra_got_base :: u64
  ra_tls :: u64
  ra_tls_size :: u64
  ra_offset :: nat
  ra_shared :: bool
  ra_tls_gd :: u64
  ra_tls_ie :: u64
  ra_tls_desc :: u64
  ra_tls_ldm :: u64
  ra_tls_imported :: bool

definition usize_sub :: "nat \<Rightarrow> nat \<Rightarrow> nat" where
  "usize_sub a b = (if b \<le> a then a - b else a + 2 ^ 64 - b)"

definition usize_add :: "nat \<Rightarrow> nat \<Rightarrow> nat" where
  "usize_add a b = (a + b) mod 2 ^ 64"

definition LE_PROLOGUE_RAX :: bytes where
  "LE_PROLOGUE_RAX = [0x64, 0x48, 0x8b, 0x04, 0x25, 0, 0, 0, 0]"

text \<open>\<^verbatim>\<open>TLSGD if a.tls_imported\<close>: General-Dynamic to Initial-Exec.\<close>

definition relax_gd_to_ie ::
  "bytes \<Rightarrow> u32 \<Rightarrow> reloc_addrs \<Rightarrow> string \<Rightarrow> (reloc_error, bytes) outcome" where
  "relax_gd_to_ie buf rt a obj =
     (let off = ra_offset a; start = usize_sub off 4 in
      if usize_add start 16 \<le> length buf then
        (let disp = ra_tls_ie a + ra_a a - ra_p a - 8 in
         case (get buf start, get buf (start + 1), get buf (start + 2)) of
           (Some x, Some y, Some z) \<Rightarrow>
             if x \<noteq> 0x66 \<or> y \<noteq> 0x48 \<or> z \<noteq> 0x8d then Ok buf
             else bind_outcome (checked_i32_bytes disp rt obj (of_nat off)) (\<lambda>d.
               bind_outcome (put_bytes buf start (LE_PROLOGUE_RAX @ [0x48, 0x03, 0x05, 0, 0, 0, 0]))
                 (\<lambda>b. put_bytes b (start + 12) d))
         | _ \<Rightarrow> Panic)
      else Ok buf)"

text \<open>\<^verbatim>\<open>TLSGD\<close> in an executable: General-Dynamic to Local-Exec.\<close>

definition relax_gd_to_le ::
  "bytes \<Rightarrow> u32 \<Rightarrow> reloc_addrs \<Rightarrow> string \<Rightarrow> (reloc_error, bytes) outcome" where
  "relax_gd_to_le buf rt a obj =
     (let off = ra_offset a; start = usize_sub off 4 in
      if usize_add start 16 \<le> length buf then
        (let le_off = ra_tls a + ra_a a - ra_tls_size a + 4 in
         case (get buf start, get buf (start + 1), get buf (start + 2)) of
           (Some x, Some y, Some z) \<Rightarrow>
             if x \<noteq> 0x66 \<or> y \<noteq> 0x48 \<or> z \<noteq> 0x8d then Ok buf
             else bind_outcome (checked_i32_bytes le_off rt obj (of_nat off)) (\<lambda>d.
               bind_outcome (put_bytes buf start (LE_PROLOGUE_RAX @ [0x48, 0x8d, 0x80, 0, 0, 0, 0]))
                 (\<lambda>b. put_bytes b (start + 12) d))
         | _ \<Rightarrow> Panic)
      else Ok buf)"

text \<open>\<^verbatim>\<open>TLSLD\<close> in an executable: Local-Dynamic to Local-Exec.\<close>

definition relax_ld_to_le :: "bytes \<Rightarrow> reloc_addrs \<Rightarrow> (reloc_error, bytes) outcome" where
  "relax_ld_to_le buf a =
     (let start = usize_sub (ra_offset a) 3 in
      if usize_add start 12 \<le> length buf
      then put_bytes buf start ([0x66, 0x66, 0x66] @ LE_PROLOGUE_RAX)
      else Ok buf)"

text \<open>\<^verbatim>\<open>GOTPC32_TLSDESC if a.tls_imported\<close>: descriptor to Initial-Exec.\<close>

definition relax_desc_to_ie ::
  "bytes \<Rightarrow> u32 \<Rightarrow> reloc_addrs \<Rightarrow> string \<Rightarrow> (reloc_error, bytes) outcome" where
  "relax_desc_to_ie buf rt a obj =
     (let off = ra_offset a; start = usize_sub off 3 in
      if usize_add start 7 \<le> length buf then
        (let disp = ra_tls_ie a + ra_a a - ra_p a in
         case (get buf start, get buf (start + 1)) of
           (Some x, Some y) \<Rightarrow>
             if x \<noteq> 0x48 \<or> y \<noteq> 0x8d then Ok buf
             else bind_outcome (put_bytes buf (start + 1) [0x8b]) (\<lambda>b. write_i32 b off disp rt obj)
         | _ \<Rightarrow> Panic)
      else Ok buf)"

text \<open>\<^verbatim>\<open>GOTPC32_TLSDESC\<close> in an executable: descriptor to Local-Exec.\<close>

definition relax_desc_to_le ::
  "bytes \<Rightarrow> u32 \<Rightarrow> reloc_addrs \<Rightarrow> string \<Rightarrow> (reloc_error, bytes) outcome" where
  "relax_desc_to_le buf rt a obj =
     (let off = ra_offset a; start = usize_sub off 3 in
      if usize_add start 7 \<le> length buf then
        (let le_off = ra_tls a + ra_a a + 4 - ra_tls_size a in
         case (get buf start, get buf (start + 1)) of
           (Some x, Some y) \<Rightarrow>
             if x \<noteq> 0x48 \<or> y \<noteq> 0x8d then Ok buf
             else bind_outcome (put_bytes buf start [0x48, 0xc7, 0xc0, 0, 0, 0, 0])
                    (\<lambda>b. write_i32 b off le_off rt obj)
         | _ \<Rightarrow> Panic)
      else Ok buf)"

definition relax_desc_call :: "bytes \<Rightarrow> reloc_addrs \<Rightarrow> (reloc_error, bytes) outcome" where
  "relax_desc_call buf a =
     (if \<not> ra_shared a then
        (if usize_add (ra_offset a) 2 \<le> length buf
         then put_bytes buf (ra_offset a) [0x66, 0x90] else Ok buf)
      else Ok buf)"

definition dtpoff :: "reloc_addrs \<Rightarrow> i64" where
  "dtpoff a = (let base = ra_tls a + ra_a a in if ra_shared a then base else base - ra_tls_size a)"

definition patch_buf ::
  "bytes \<Rightarrow> u32 \<Rightarrow> reloc_addrs \<Rightarrow> string \<Rightarrow> (reloc_error, bytes) outcome" where
  "patch_buf buf rt a obj =
     (let off = ra_offset a; s = ra_s a; p = ra_p a in
      case decode rt of
        R_64 \<Rightarrow> write_u64 buf off (s + ra_a a)
      | R_PC64 \<Rightarrow> write_u64 buf off (s + ra_a a - p)
      | R_GOTOFF64 \<Rightarrow> write_u64 buf off (s + ra_a a - ra_got_base a)
      | R_SIZE64 \<Rightarrow> write_u64 buf off (ra_z a + ra_a a)
      | R_32 \<Rightarrow> write_u32 buf off (s + ra_a a) rt obj
      | R_32S \<Rightarrow> write_i32 buf off (s + ra_a a) rt obj
      | R_PC32 \<Rightarrow> write_i32 buf off (s + ra_a a - p) rt obj
      | R_SIZE32 \<Rightarrow> write_u32 buf off (ra_z a + ra_a a) rt obj
      | R_PLT32 \<Rightarrow> write_i32 buf off ((if ra_l a \<noteq> 0 then ra_l a else s) + ra_a a - p) rt obj
      | R_GOTPCREL \<Rightarrow> write_i32 buf off (ra_g a + ra_a a - p) rt obj
      | R_GOTPCRELX \<Rightarrow> write_i32 buf off (ra_g a + ra_a a - p) rt obj
      | R_REX_GOTPCRELX \<Rightarrow> write_i32 buf off (ra_g a + ra_a a - p) rt obj
      | R_GOT32 \<Rightarrow> write_u32 buf off (ra_g a - ra_got_base a + ra_a a) rt obj
      | R_GOTPC32 \<Rightarrow> write_i32 buf off (ra_got_base a + ra_a a - p) rt obj
      | R_TPOFF32 \<Rightarrow> write_i32 buf off (ra_tls a + ra_a a - ra_tls_size a) rt obj
      | R_TPOFF64 \<Rightarrow> write_u64 buf off (ra_tls a + ra_a a - ra_tls_size a)
      | R_DTPOFF32 \<Rightarrow> write_i32 buf off (dtpoff a) rt obj
      | R_DTPOFF64 \<Rightarrow> write_u64 buf off (dtpoff a)
      | R_TLSGD \<Rightarrow>
          if ra_shared a then write_i32 buf off (ra_tls_gd a + ra_a a - p) rt obj
          else if ra_tls_imported a then relax_gd_to_ie buf rt a obj
          else relax_gd_to_le buf rt a obj
      | R_TLSLD \<Rightarrow>
          if ra_shared a then write_i32 buf off (ra_tls_ldm a + ra_a a - p) rt obj
          else relax_ld_to_le buf a
      | R_GOTTPOFF \<Rightarrow> write_i32 buf off (ra_tls_ie a + ra_a a - p) rt obj
      | R_GOTPC32_TLSDESC \<Rightarrow>
          if ra_shared a then write_i32 buf off (ra_tls_desc a + ra_a a - p) rt obj
          else if ra_tls_imported a then relax_desc_to_ie buf rt a obj
          else relax_desc_to_le buf rt a obj
      | R_TLSDESC_CALL \<Rightarrow> relax_desc_call buf a
      | R_16 \<Rightarrow> write_u16 buf off (s + ra_a a) obj
      | R_PC16 \<Rightarrow> write_u16 buf off (s + ra_a a - p) obj
      | R_8 \<Rightarrow> write_u8 buf off (s + ra_a a) obj
      | R_PC8 \<Rightarrow> write_u8 buf off (s + ra_a a - p) obj
      | _ \<Rightarrow> Ok buf)"


section \<open>Where a patch writes\<close>

text \<open>\<open>stays lo hi buf r\<close>: the step does not panic, and changes the buffer on \<open>[lo, hi)\<close> only.\<close>

definition stays :: "nat \<Rightarrow> nat \<Rightarrow> bytes \<Rightarrow> ('e, bytes) outcome \<Rightarrow> bool" where
  "stays lo hi buf r \<longleftrightarrow>
     (case r of Ok b \<Rightarrow> same_outside lo hi buf b | Err e \<Rightarrow> True | Panic \<Rightarrow> False)"

named_theorems stays_intros

lemma stays_Ok [simp, stays_intros]: "stays lo hi buf (Ok buf)"
  by (simp add: stays_def)

lemma stays_Err [simp, stays_intros]: "stays lo hi buf (Err e)"
  by (simp add: stays_def)

lemma stays_bind [stays_intros]:
  assumes "stays lo hi buf m"
    and "\<And>b. m = Ok b \<Longrightarrow> length b = length buf \<Longrightarrow> stays lo hi b (f b)"
  shows "stays lo hi buf (bind_outcome m f)"
  using assms by (cases m) (auto simp: stays_def same_outside_length dest: same_outside_trans split: outcome.splits)

lemma stays_put [stays_intros]:
  "lo \<le> off \<Longrightarrow> off + length bs \<le> hi \<Longrightarrow> hi \<le> length buf \<Longrightarrow> stays lo hi buf (put_bytes buf off bs)"
  by (auto simp: stays_def put_bytes_def splice_within split: option.splits)

lemma checked_i32_Ok: "checked_i32_bytes v rt obj o' = Ok d \<Longrightarrow> length d = 4"
  by (auto simp: checked_i32_bytes_def split: if_splits)

lemma stays_checked [stays_intros]:
  assumes "\<And>d. length d = 4 \<Longrightarrow> stays lo hi buf (f d)"
  shows "stays lo hi buf (bind_outcome (checked_i32_bytes v rt obj o') f)"
  using assms by (auto simp: checked_i32_bytes_def)

lemma stays_writes [stays_intros]:
  "lo \<le> off \<Longrightarrow> off + 8 \<le> hi \<Longrightarrow> hi \<le> length buf \<Longrightarrow> stays lo hi buf (write_u64 buf off v)"
  "lo \<le> off \<Longrightarrow> off + 4 \<le> hi \<Longrightarrow> hi \<le> length buf \<Longrightarrow> stays lo hi buf (write_i32 buf off v rt obj)"
  "lo \<le> off \<Longrightarrow> off + 4 \<le> hi \<Longrightarrow> hi \<le> length buf \<Longrightarrow> stays lo hi buf (write_u32 buf off v rt obj)"
  "lo \<le> off \<Longrightarrow> off + 2 \<le> hi \<Longrightarrow> hi \<le> length buf \<Longrightarrow> stays lo hi buf (write_u16 buf off v obj)"
  "lo \<le> off \<Longrightarrow> off + 1 \<le> hi \<Longrightarrow> hi \<le> length buf \<Longrightarrow> stays lo hi buf (write_u8 buf off v obj)"
  by (auto simp: write_u64_def write_i32_def write_u32_def write_u16_def write_u8_def
      intro!: stays_put stays_checked)

lemma usize_no_wrap:
  "k \<le> off \<Longrightarrow> usize_sub off k = off - k"
  "a + b < 2 ^ 64 \<Longrightarrow> usize_add a b = a + b"
  by (simp_all add: usize_sub_def usize_add_def)

lemma get_in: "i < length xs \<Longrightarrow> get xs i = Some (xs ! i)"
  by (simp add: get_def)

lemma stays_relax_gd:
  assumes "4 \<le> ra_offset a" "ra_offset a + 12 \<le> length buf" "length buf < 2 ^ 64"
  shows "stays (ra_offset a - 4) (ra_offset a + 12) buf (relax_gd_to_ie buf rt a obj)"
    and "stays (ra_offset a - 4) (ra_offset a + 12) buf (relax_gd_to_le buf rt a obj)"
  using assms
  by (simp_all add: relax_gd_to_ie_def relax_gd_to_le_def usize_no_wrap get_in LE_PROLOGUE_RAX_def Let_def)
     (auto intro!: stays_intros)

lemma stays_relax_ld:
  assumes "3 \<le> ra_offset a" "ra_offset a + 9 \<le> length buf" "length buf < 2 ^ 64"
  shows "stays (ra_offset a - 3) (ra_offset a + 9) buf (relax_ld_to_le buf a)"
  using assms
  by (simp add: relax_ld_to_le_def usize_no_wrap LE_PROLOGUE_RAX_def) (auto intro!: stays_intros)

lemma stays_relax_desc:
  assumes "3 \<le> ra_offset a" "ra_offset a + 4 \<le> length buf" "length buf < 2 ^ 64"
  shows "stays (ra_offset a - 3) (ra_offset a + 4) buf (relax_desc_to_ie buf rt a obj)"
    and "stays (ra_offset a - 3) (ra_offset a + 4) buf (relax_desc_to_le buf rt a obj)"
  using assms
  by (simp_all add: relax_desc_to_ie_def relax_desc_to_le_def usize_no_wrap get_in Let_def)
     (auto intro!: stays_intros)

lemma stays_relax_call:
  assumes "ra_offset a + 2 \<le> length buf" "length buf < 2 ^ 64"
  shows "stays (ra_offset a) (ra_offset a + 2) buf (relax_desc_call buf a)"
  using assms by (simp add: relax_desc_call_def usize_no_wrap) (auto intro!: stays_intros)

section \<open>What a patch writes\<close>

text \<open>The value the psABI gives a relocation whose field is a sign-checked 32-bit word.\<close>

fun field32_value :: "rtype \<Rightarrow> reloc_addrs \<Rightarrow> i64 option" where
  "field32_value R_32S a = Some (ra_s a + ra_a a)"
| "field32_value R_PC32 a = Some (ra_s a + ra_a a - ra_p a)"
| "field32_value R_PLT32 a = Some ((if ra_l a \<noteq> 0 then ra_l a else ra_s a) + ra_a a - ra_p a)"
| "field32_value R_GOTPCREL a = Some (ra_g a + ra_a a - ra_p a)"
| "field32_value R_GOTPCRELX a = Some (ra_g a + ra_a a - ra_p a)"
| "field32_value R_REX_GOTPCRELX a = Some (ra_g a + ra_a a - ra_p a)"
| "field32_value R_GOTPC32 a = Some (ra_got_base a + ra_a a - ra_p a)"
| "field32_value R_TPOFF32 a = Some (ra_tls a + ra_a a - ra_tls_size a)"
| "field32_value R_DTPOFF32 a =
     Some (ra_tls a + ra_a a - (if ra_shared a then 0 else ra_tls_size a))"
| "field32_value R_GOTTPOFF a = Some (ra_tls_ie a + ra_a a - ra_p a)"
| "field32_value _ a = None"

definition fits_i32 :: "i64 \<Rightarrow> bool" where
  "fits_i32 v \<longleftrightarrow> - (2 ^ 31) \<le> sint v \<and> sint v < 2 ^ 31"

lemma scast_ucast_fits:
  assumes "fits_i32 v"
  shows "(scast (ucast v :: u32) :: i64) = v"
proof (rule signed_word_eqI)
  have "sint (ucast v :: u32) = signed_take_bit 31 (sint v)"
    by (simp add: signed_ucast_eq sint_uint signed_take_bit_signed_take_bit unsigned_ucast_eq
        signed_take_bit_take_bit)
  also have "\<dots> = sint v"
    using assms by (simp add: fits_i32_def signed_take_bit_int_eq_self)
  finally have "sint (ucast v :: u32) = sint v" .
  then show "sint (scast (ucast v :: u32) :: i64) = sint v"
    using signed_take_bit_signed_take_bit [of 63 63 "uint v"]
    by (simp add: signed_scast_eq sint_uint [of v])
qed

lemma take_drop_splice: "splice buf off bs = Some b \<Longrightarrow> take (length bs) (drop off b) = bs"
  by (auto simp: splice_Some_iff)

lemma write_i32_spec:
  "case write_i32 buf off v rt obj of
     Ok b \<Rightarrow> fits_i32 v \<and> scast (from_le (take 4 (drop off b)) :: u32) = v
   | Err e \<Rightarrow> \<not> fits_i32 v \<and> e = Overflow obj (of_nat off) v rt
   | Panic \<Rightarrow> fits_i32 v \<and> length buf < off + 4"
proof -
  have "scast (from_le (take 4 (drop off b)) :: u32) = v"
    if "splice buf off (to_le 4 (ucast v :: u32)) = Some b" "fits_i32 v" for b
    using take_drop_splice [OF that(1)] scast_ucast_fits [OF that(2)] by (simp add: from_le_to_le)
  then show ?thesis
    by (auto simp: write_i32_def checked_i32_bytes_def fits_i32_def put_bytes_def
        split: option.splits)
qed

text \<open>A patch of a 32-bit signed field computes the psABI value.  For every
  relocation type of that kind the value is written exactly when it fits a signed 32-bit word, and then
  the four bytes at the site, read back sign-extended, are that value; when it does not fit the result is
  the overflow error that names the object, the site, the value and the type; the only panic is a site
  that does not lie in the section.\<close>

theorem patch_buf_field32:
  "field32_value (decode rt) a = Some v \<Longrightarrow>
   (case patch_buf buf rt a obj of
      Ok b \<Rightarrow> fits_i32 v \<and> scast (from_le (take 4 (drop (ra_offset a) b)) :: u32) = v
    | Err e \<Rightarrow> \<not> fits_i32 v \<and> e = Overflow obj (of_nat (ra_offset a)) v rt
    | Panic \<Rightarrow> fits_i32 v \<and> length buf < ra_offset a + 4)"
  using write_i32_spec [where buf = buf and off = "ra_offset a" and v = v and rt = rt and obj = obj]
  by (cases "decode rt") (auto simp: patch_buf_def dtpoff_def Let_def)

text \<open>A call displacement, as the linker of an executable patches it.\<close>

definition example_addrs :: reloc_addrs where
  "example_addrs =
     \<lparr>ra_s = 0x401000, ra_a = - 4, ra_p = 0x402001, ra_g = 0, ra_l = 0, ra_z = 0, ra_got_base = 0,
      ra_tls = 0, ra_tls_size = 0, ra_offset = 1, ra_shared = False, ra_tls_gd = 0, ra_tls_ie = 0,
      ra_tls_desc = 0, ra_tls_ldm = 0, ra_tls_imported = False\<rparr>"

theorem patch_buf_field32_witness:
  "case patch_buf [0xe8, 0, 0, 0, 0] 2 example_addrs ''a.o'' of
     Ok b \<Rightarrow> scast (from_le (take 4 (drop 1 b)) :: u32) = (- 0x1005 :: i64)
   | _ \<Rightarrow> False"
proof -
  have "field32_value (decode 2) example_addrs = Some (- 0x1005)"
    by (simp add: decode_def rtype_codes_def example_addrs_def)
  from patch_buf_field32 [where rt = 2 and buf = "[0xe8, 0, 0, 0, 0]" and obj = "''a.o''", OF this]
  show ?thesis
    by (auto simp: fits_i32_def example_addrs_def split: outcome.splits)
qed

section \<open>Resolution\<close>

record apply_ctx =
  cx_symbols :: symbol_table
  cx_layout :: layout
  cx_shared :: bool
  cx_index :: "resolution option list list option"

definition indexed_resolution :: "symbol_table \<Rightarrow> input_symbol \<Rightarrow> resolution option" where
  "indexed_resolution st s =
     (if sym_binding s = Local \<or> sym_name s = [] then None else lookup st (sym_name s))"

definition sym_index_build ::
  "input_object list \<Rightarrow> symbol_table \<Rightarrow> resolution option list list" where
  "sym_index_build objs st = map (\<lambda>obj. map (indexed_resolution st) (symbols obj)) objs"

definition sym_index_resolution ::
  "resolution option list list \<Rightarrow> nat \<Rightarrow> nat \<Rightarrow> resolution option" where
  "sym_index_resolution ix obj_id sym_pos =
     (case get ix obj_id of
        None \<Rightarrow> None
      | Some row \<Rightarrow> (case get row sym_pos of None \<Rightarrow> None | Some r \<Rightarrow> r))"

datatype reloc_skip = NoneRelocation | MissingSymbolPosition | MissingSymbolRecord
  | RelaxedTlsGetAddrCall | MissingLocalSectionAddress

datatype reloc_action = Skip reloc_skip | Patch reloc_addrs

text \<open>The global record of the symbol; locals never enter the table.\<close>

definition reloc_resolution ::
  "apply_ctx \<Rightarrow> nat \<Rightarrow> nat \<Rightarrow> input_symbol \<Rightarrow> resolution option" where
  "reloc_resolution ctx obj_id sym_pos s =
     (if sym_binding s = Local then None
      else case cx_index ctx of
        Some ix \<Rightarrow> sym_index_resolution ix obj_id sym_pos
      | None \<Rightarrow> lookup (cx_symbols ctx) (sym_name s))"

text \<open>\<open>S\<close>, \<open>G\<close>, \<open>L\<close> and \<open>Z\<close>; the outer \<open>None\<close> is a local symbol whose section has no address.\<close>

definition symbol_addrs ::
  "apply_ctx \<Rightarrow> nat \<Rightarrow> input_symbol \<Rightarrow> resolution option \<Rightarrow> string \<Rightarrow>
     (reloc_error, (u64 \<times> u64 \<times> u64 \<times> u64) option) outcome" where
  "symbol_addrs ctx obj_id s res p =
     (if sym_binding s = Local then
        (case sym_section s of
           Some si \<Rightarrow>
             (case address_of (cx_layout ctx) obj_id si of
                Some va \<Rightarrow> Ok (Some (va + sym_value s, 0, 0, sym_size s))
              | None \<Rightarrow> Ok None)
         | None \<Rightarrow> Ok (Some (sym_value s, 0, 0, sym_size s)))
      else case res of
        Some r \<Rightarrow>
          if is_defined r
          then Ok (Some (res_virtual_address r, res_got_address r, res_plt_address r, res_size r))
          else if sym_binding s = Weak then Ok (Some (0, res_got_address r, 0, 0))
          else Err (UndefinedSymbolRef (sym_name s) p)
      | None \<Rightarrow> Err (UndefinedSymbolRef (sym_name s) p))"

definition symbol_tls ::
  "apply_ctx \<Rightarrow> nat \<Rightarrow> input_symbol \<Rightarrow> resolution option \<Rightarrow> u64" where
  "symbol_tls ctx obj_id s res =
     (case (if sym_binding s = Local
            then Option.bind (sym_section s) (\<lambda>si.
              map_option (\<lambda>b. b + sym_value s) (tls_offset (cx_layout ctx) obj_id si))
            else Option.bind res (\<lambda>r. Option.bind (res_defined_in r) (\<lambda>def.
              Option.bind (res_section_index r) (\<lambda>si.
                map_option (\<lambda>b. b + res_value r) (tls_offset (cx_layout ctx) (unat def) si))))) of
        Some v \<Rightarrow> v
      | None \<Rightarrow> 0)"

definition tls_slot :: "(tls_ref \<times> u64) list \<Rightarrow> tls_ref \<Rightarrow> u64" where
  "tls_slot m r = (case map_of m r of Some va \<Rightarrow> va | None \<Rightarrow> 0)"

definition tls_ref_of :: "nat \<Rightarrow> nat \<Rightarrow> input_symbol \<Rightarrow> resolution option \<Rightarrow> tls_ref" where
  "tls_ref_of obj_id sym_pos s res =
     (if sym_binding s = Local then TlsLocal obj_id sym_pos
      else case res of Some r \<Rightarrow> TlsGlobal (res_id r) | None \<Rightarrow> TlsLocal obj_id sym_pos)"

definition resolve_reloc_action ::
  "apply_ctx \<Rightarrow> input_object \<Rightarrow> nat \<Rightarrow> input_reloc \<Rightarrow> u64 \<Rightarrow> (reloc_error, reloc_action) outcome" where
  "resolve_reloc_action ctx obj obj_id r section_va =
     (let t = decode (r_type r); ly = cx_layout ctx in
      if t = R_NONE then Ok (Skip NoneRelocation)
      else case symbol_pos obj (r_symbol r) of
        None \<Rightarrow> Ok (Skip MissingSymbolPosition)
      | Some sym_pos \<Rightarrow>
          (case get (symbols obj) sym_pos of
             None \<Rightarrow> Ok (Skip MissingSymbolRecord)
           | Some s \<Rightarrow>
               if \<not> cx_shared ctx \<and> (t = R_PLT32 \<or> t = R_PC32) \<and> sym_name s = ''__tls_get_addr''
               then Ok (Skip RelaxedTlsGetAddrCall)
               else
                 (let res = reloc_resolution ctx obj_id sym_pos s in
                  bind_outcome (symbol_addrs ctx obj_id s res (path obj)) (\<lambda>addrs.
                    case addrs of
                      None \<Rightarrow> Ok (Skip MissingLocalSectionAddress)
                    | Some (sa, g, l, z) \<Rightarrow>
                        (let tref = tls_ref_of obj_id sym_pos s res in
                         Ok (Patch
                           \<lparr>ra_s = sa, ra_a = r_addend r, ra_p = section_va + r_offset r, ra_g = g,
                            ra_l = l, ra_z = z, ra_got_base = got_base ly,
                            ra_tls = (if is_tls t then symbol_tls ctx obj_id s res else 0),
                            ra_tls_size = tls_size ly, ra_offset = unat (r_offset r),
                            ra_shared = cx_shared ctx,
                            ra_tls_gd = (if is_tls t then tls_slot (tls_gd_addr ly) tref else 0),
                            ra_tls_ie = (if is_tls t then tls_slot (tls_ie_addr ly) tref else 0),
                            ra_tls_desc = (if is_tls t then tls_slot (tls_desc_addr ly) tref else 0),
                            ra_tls_ldm = (case tls_ldm_addr ly of Some v \<Rightarrow> v | None \<Rightarrow> 0),
                            ra_tls_imported = (is_tls t \<and> sym_binding s \<noteq> Local \<and>
                              (case res of Some r \<Rightarrow> res_import r \<and> res_defined_in r = None
                               | None \<Rightarrow> False))\<rparr>))))))"

definition apply_reloc ::
  "apply_ctx \<Rightarrow> input_object \<Rightarrow> nat \<Rightarrow> input_reloc \<Rightarrow> u64 \<Rightarrow> bytes \<Rightarrow> (reloc_error, bytes) outcome" where
  "apply_reloc ctx obj obj_id r section_va buf =
     bind_outcome (resolve_reloc_action ctx obj obj_id r section_va) (\<lambda>act.
       case act of
         Skip w \<Rightarrow> Ok buf
       | Patch a \<Rightarrow> patch_buf buf (r_type r) a (path obj))"

lemma resolve_offset:
  assumes "resolve_reloc_action ctx obj obj_id r va = Ok (Patch a)"
  shows "ra_offset a = unat (r_offset r)"
  using assms
  by (auto simp: resolve_reloc_action_def Let_def elim!: bind_outcome_Ok
      split: if_splits option.splits prod.splits)

lemma resolve_no_panic: "resolve_reloc_action ctx obj obj_id r va \<noteq> Panic"
  by (auto simp: resolve_reloc_action_def symbol_addrs_def Let_def
      split: if_splits option.splits prod.splits)

text \<open>The integer-indexed resolution of the emit path is the name lookup it
  replaces: applying a relocation of a link's object with the index built from the link's objects and
  symbol table patches the same bytes, or fails with the same error, as applying it with lookups by name
  (when no global symbol has an empty name, which the ELF format rules out).\<close>

theorem apply_reloc_sym_index:
  assumes "obj_id < length objs"
    and "\<forall>s \<in> set (symbols (objs ! obj_id)). sym_name s = [] \<longrightarrow> sym_binding s = Local"
  shows "apply_reloc (ctx\<lparr>cx_index := Some (sym_index_build objs (cx_symbols ctx))\<rparr>)
           (objs ! obj_id) obj_id r va buf =
         apply_reloc (ctx\<lparr>cx_index := None\<rparr>) (objs ! obj_id) obj_id r va buf"
proof -
  let ?i = "ctx\<lparr>cx_index := Some (sym_index_build objs (cx_symbols ctx))\<rparr>"
  let ?n = "ctx\<lparr>cx_index := None\<rparr>"
  have res: "reloc_resolution ?i obj_id k s = reloc_resolution ?n obj_id k s"
    if "get (symbols (objs ! obj_id)) k = Some s" for k s
    using that [unfolded get_Some_iff] assms
    by (auto simp: reloc_resolution_def sym_index_resolution_def sym_index_build_def get_def
        indexed_resolution_def)
  have addrs: "symbol_addrs ?i = symbol_addrs ?n" "symbol_tls ?i = symbol_tls ?n"
    by (intro ext; simp add: symbol_addrs_def symbol_tls_def cong: option.case_cong)+
  have "resolve_reloc_action ?i (objs ! obj_id) obj_id r va =
      resolve_reloc_action ?n (objs ! obj_id) obj_id r va"
    by (simp add: resolve_reloc_action_def Let_def res addrs cong: option.case_cong if_cong)
  then show ?thesis by (simp add: apply_reloc_def)
qed

theorem apply_reloc_sym_index_witness:
  "\<forall>ly r va buf. apply_reloc \<lparr>cx_symbols = example_table, cx_layout = ly, cx_shared = False,
       cx_index = Some (sym_index_build [parsed_object (0, 2) ''a.o'' [] [strong_main] []] example_table)\<rparr>
     (parsed_object (0, 2) ''a.o'' [] [strong_main] []) 0 r va buf =
   apply_reloc \<lparr>cx_symbols = example_table, cx_layout = ly, cx_shared = False, cx_index = None\<rparr>
     (parsed_object (0, 2) ''a.o'' [] [strong_main] []) 0 r va buf"
proof (intro allI)
  fix ly r va buf
  show "apply_reloc \<lparr>cx_symbols = example_table, cx_layout = ly, cx_shared = False,
       cx_index = Some (sym_index_build [parsed_object (0, 2) ''a.o'' [] [strong_main] []] example_table)\<rparr>
     (parsed_object (0, 2) ''a.o'' [] [strong_main] []) 0 r va buf =
   apply_reloc \<lparr>cx_symbols = example_table, cx_layout = ly, cx_shared = False, cx_index = None\<rparr>
     (parsed_object (0, 2) ''a.o'' [] [strong_main] []) 0 r va buf"
  using apply_reloc_sym_index [of 0 "[parsed_object (0, 2) ''a.o'' [] [strong_main] []]"
      "\<lparr>cx_symbols = example_table, cx_layout = ly, cx_shared = False, cx_index = None\<rparr>" r va buf]
  by (simp add: parsed_object_def strong_main_def example_symbol_def)
qed

text \<open>The bound check of the General-Dynamic relaxation wraps around for a site in the first four bytes.\<close>

lemma gd_guard_wraps:
  assumes "ra_offset a < 4" "ra_offset a + 12 \<le> length buf" "length buf < 2 ^ 63"
  shows "relax_gd_to_le buf rt a obj = Panic"
proof -
  have "usize_sub (ra_offset a) 4 = ra_offset a + (2 ^ 64 - 4)"
    using assms(1) by (simp add: usize_sub_def)
  moreover have "usize_add (ra_offset a + (2 ^ 64 - 4)) 16 = ra_offset a + 12"
    using assms(1) mod_add_self1 [of "2 ^ 64" "ra_offset a + 12"] by (simp add: usize_add_def)
  moreover have "get buf (ra_offset a + (2 ^ 64 - 4)) = None" using assms(3) by simp
  ultimately show ?thesis using assms(2) by (simp add: relax_gd_to_le_def Let_def del: get_None_iff)
qed

end
