(* ===== verification/Emit_Work.thy ===== *)
theory Emit_Work
  imports Reloc_Apply "HOL-Library.Product_Lexorder"
begin

text \<open>
  Copying and relocating the input sections of an output file, \<^verbatim>\<open>peony-emit/src/input_work.rs\<close>, its
  submodules \<^verbatim>\<open>footprints\<close>, \<^verbatim>\<open>ranges\<close> and \<^verbatim>\<open>errors\<close>, and \<^verbatim>\<open>input_sections.rs\<close>.  Work items are
  collected from the layout, their file ranges and the footprints of their relocations are validated,
  and then worker threads write them through a raw pointer without synchronisation.  The theory shows
  that validation is enough for that: accepted ranges are disjoint, an accepted item neither panics on a
  relocation nor writes outside its range, and every order of execution produces the same bytes.
\<close>

section \<open>Errors\<close>

datatype work_range_error =
    RangeOverflow nat nat nat
  | OutOfBounds nat nat nat nat
  | Overlap nat nat nat nat nat nat
  | RelocationBeforeSection nat nat u32 u64 nat
  | RelocationOutOfBounds nat nat u32 u64 nat nat

datatype emit_error =
    EmitReloc reloc_error
  | TooLarge u64
  | InputWriteRangeOverflow nat nat nat
  | InputWriteRangeOutOfBounds nat nat nat nat
  | InputWriteRangeOverlap nat nat nat nat nat nat
  | WriteRangeOverflow string u64 u64
  | WriteRangeOutOfBounds string u64 u64 u64

fun emit_error_of :: "work_range_error \<Rightarrow> emit_error" where
  "emit_error_of (RangeOverflow i off len) = InputWriteRangeOverflow i off len"
| "emit_error_of (OutOfBounds i off len blen) = InputWriteRangeOutOfBounds i off len blen"
| "emit_error_of (RelocationOutOfBounds i ri rt off width slen) =
     InputWriteRangeOutOfBounds i (unat off) width slen"
| "emit_error_of (RelocationBeforeSection i ri rt off pre) =
     InputWriteRangeOutOfBounds i (unat off) pre (unat off)"
| "emit_error_of (Overlap i s e j s' e') = InputWriteRangeOverlap i s e j s' e'"

section \<open>Relocation footprints\<close>

record footprint =
  fp_start :: nat
  fp_len :: nat

text \<open>Bytes before the site, and length of the range; \<open>None\<close> for types that write nothing.\<close>

fun footprint_shape :: "rtype \<Rightarrow> (nat \<times> nat) option" where
  "footprint_shape R_NONE = None"
| "footprint_shape R_64 = Some (0, 8)"
| "footprint_shape R_PC64 = Some (0, 8)"
| "footprint_shape R_GOTOFF64 = Some (0, 8)"
| "footprint_shape R_SIZE64 = Some (0, 8)"
| "footprint_shape R_TPOFF64 = Some (0, 8)"
| "footprint_shape R_DTPOFF64 = Some (0, 8)"
| "footprint_shape R_32 = Some (0, 4)"
| "footprint_shape R_32S = Some (0, 4)"
| "footprint_shape R_PC32 = Some (0, 4)"
| "footprint_shape R_SIZE32 = Some (0, 4)"
| "footprint_shape R_PLT32 = Some (0, 4)"
| "footprint_shape R_GOTPCREL = Some (0, 4)"
| "footprint_shape R_GOTPCRELX = Some (0, 4)"
| "footprint_shape R_REX_GOTPCRELX = Some (0, 4)"
| "footprint_shape R_GOT32 = Some (0, 4)"
| "footprint_shape R_GOTPC32 = Some (0, 4)"
| "footprint_shape R_TPOFF32 = Some (0, 4)"
| "footprint_shape R_DTPOFF32 = Some (0, 4)"
| "footprint_shape R_GOTTPOFF = Some (0, 4)"
| "footprint_shape R_16 = Some (0, 2)"
| "footprint_shape R_PC16 = Some (0, 2)"
| "footprint_shape R_8 = Some (0, 1)"
| "footprint_shape R_PC8 = Some (0, 1)"
| "footprint_shape R_TLSGD = Some (4, 16)"
| "footprint_shape R_TLSLD = Some (3, 12)"
| "footprint_shape R_GOTPC32_TLSDESC = Some (3, 7)"
| "footprint_shape R_TLSDESC_CALL = Some (0, 2)"
| "footprint_shape _ = None"

definition relocation_footprint ::
  "nat \<Rightarrow> nat \<Rightarrow> input_reloc \<Rightarrow> (work_range_error, footprint option) outcome" where
  "relocation_footprint item_index reloc_index r =
     (case footprint_shape (decode (r_type r)) of
        None \<Rightarrow> Ok None
      | Some (pre, len) \<Rightarrow>
          if unat (r_offset r) < pre
          then Err (RelocationBeforeSection item_index reloc_index (r_type r) (r_offset r) pre)
          else Ok (Some \<lparr>fp_start = unat (r_offset r) - pre, fp_len = len\<rparr>))"

lemma patch_stays:
  assumes "relocation_footprint i j r = Ok fp" "length buf < 2 ^ 64"
    and "ra_offset a = unat (r_offset r)"
  shows "case fp of
           Some f \<Rightarrow> fp_start f + fp_len f \<le> length buf \<longrightarrow>
             stays (fp_start f) (fp_start f + fp_len f) buf (patch_buf buf (r_type r) a obj)
         | None \<Rightarrow> patch_buf buf (r_type r) a obj = Ok buf"
proof (cases "footprint_shape (decode (r_type r))")
  case None
  then have "fp = None" using assms(1) by (simp add: relocation_footprint_def)
  then show ?thesis using None by (cases "decode (r_type r)") (simp_all add: patch_buf_def Let_def)
next
  case (Some s)
  then obtain pre len where s: "footprint_shape (decode (r_type r)) = Some (pre, len)" by force
  then have fp: "fp = Some \<lparr>fp_start = ra_offset a - pre, fp_len = len\<rparr>" and pre: "pre \<le> ra_offset a"
    using assms by (auto simp: relocation_footprint_def split: if_splits)
  have le: "pre \<le> len" using s by (cases "decode (r_type r)") auto
  have "stays (ra_offset a - pre) (ra_offset a + (len - pre)) buf (patch_buf buf (r_type r) a obj)"
    if "ra_offset a + (len - pre) \<le> length buf"
    using that s pre assms(2) stays_relax_gd [of a buf] stays_relax_ld [of a buf]
      stays_relax_desc [of a buf] stays_relax_call [of a buf]
    by (cases "decode (r_type r)") (auto simp: patch_buf_def Let_def intro!: stays_writes)
  moreover have "ra_offset a - pre + len = ra_offset a + (len - pre)" using pre le by simp
  ultimately show ?thesis by (simp add: fp)
qed


text \<open>The declared footprint of a relocation covers what applying it does: for
  every relocation type, where the footprint is computed and lies in the section's bytes, the patch does
  not panic and changes no byte outside the footprint; and a relocation without a footprint changes
  nothing.\<close>

theorem patch_buf_footprint:
  assumes "relocation_footprint i j r = Ok fp" "length buf < 2 ^ 64"
    and "ra_offset a = unat (r_offset r)"
  shows "case fp of
           Some f \<Rightarrow> fp_start f + fp_len f \<le> length buf \<longrightarrow>
             stays (fp_start f) (fp_start f + fp_len f) buf (patch_buf buf (r_type r) a obj)
         | None \<Rightarrow> patch_buf buf (r_type r) a obj = Ok buf"
  using assms by (rule patch_stays)

section \<open>Work items\<close>

record work_item =
  wi_file_off :: nat
  wi_file_len :: nat
  wi_section_va :: u64
  wi_obj :: input_object
  wi_isec :: input_section
  wi_obj_id :: nat
  wi_section_index :: nat
  wi_reloc_count :: nat

datatype write_filter = WriteAll | RedOnly "name set" | ChangedObjects "nat set"

fun collects_output_section :: "write_filter \<Rightarrow> name \<Rightarrow> bool" where
  "collects_output_section WriteAll n = True"
| "collects_output_section (ChangedObjects objs) n = True"
| "collects_output_section (RedOnly red) n = (n \<in> red)"

fun writes_contribution :: "write_filter \<Rightarrow> nat \<Rightarrow> bool" where
  "writes_contribution WriteAll i = True"
| "writes_contribution (RedOnly red) i = True"
| "writes_contribution (ChangedObjects objs) i = (i \<in> objs)"

fun zeroes_gaps :: "write_filter \<Rightarrow> name \<Rightarrow> bool" where
  "zeroes_gaps WriteAll n = True"
| "zeroes_gaps (RedOnly red) n = (n \<in> red)"
| "zeroes_gaps (ChangedObjects objs) n = False"

fun is_minimal :: "write_filter \<Rightarrow> bool" where
  "is_minimal (ChangedObjects objs) = True"
| "is_minimal _ = False"

definition contribution_item ::
  "input_object list \<Rightarrow> output_section \<Rightarrow> section_contribution \<Rightarrow> work_item option" where
  "contribution_item objs sec c =
     Option.bind (get objs (con_object_id c)) (\<lambda>obj.
       Option.bind (get (sections obj) (con_section_pos c)) (\<lambda>isec.
         Some \<lparr>wi_file_off = unat (saturating_add (os_sh_offset sec) (con_offset c)),
               wi_file_len = section_data_len (sec_data isec),
               wi_section_va = saturating_add (os_sh_addr sec) (con_offset c),
               wi_obj = obj, wi_isec = isec, wi_obj_id = con_object_id c,
               wi_section_index = con_section_index c,
               wi_reloc_count = length (sec_relocs isec)\<rparr>))"

definition collect_input_work_items ::
  "layout \<Rightarrow> input_object list \<Rightarrow> write_filter \<Rightarrow> work_item list" where
  "collect_input_work_items ly objs flt =
     concat (map (\<lambda>sec. List.map_filter (contribution_item objs sec)
         (filter (\<lambda>c. writes_contribution flt (con_object_id c)) (os_contributions sec)))
       (filter (\<lambda>sec. os_source sec = SrcInput \<and> collects_output_section flt (os_name sec))
         (output_sections ly)))"

section \<open>Validation\<close>

record work_range =
  wr_item :: nat
  wr_start :: nat
  wr_end :: nat

definition range_from_parts ::
  "nat \<Rightarrow> nat \<Rightarrow> nat \<Rightarrow> nat \<Rightarrow> (work_range_error, work_range option) outcome" where
  "range_from_parts item_index off len buf_len =
     (if len = 0 then Ok None
      else if 2 ^ 64 \<le> off + len then Err (RangeOverflow item_index off len)
      else if buf_len < off + len then Err (OutOfBounds item_index off len buf_len)
      else Ok (Some \<lparr>wr_item = item_index, wr_start = off, wr_end = off + len\<rparr>))"

fun validate_relocs ::
  "nat \<Rightarrow> nat \<Rightarrow> nat \<Rightarrow> input_reloc list \<Rightarrow> (work_range_error, unit) outcome" where
  "validate_relocs item_index k sec_len [] = Ok ()"
| "validate_relocs item_index k sec_len (r # rs) =
     bind_outcome (relocation_footprint item_index k r) (\<lambda>fp.
       case fp of
         None \<Rightarrow> validate_relocs item_index (k + 1) sec_len rs
       | Some f \<Rightarrow>
           if 2 ^ 64 \<le> fp_start f + fp_len f \<or> sec_len < fp_start f + fp_len f
           then Err (RelocationOutOfBounds item_index k (r_type r) (r_offset r) (fp_len f) sec_len)
           else validate_relocs item_index (k + 1) sec_len rs)"

definition validate_item_containment ::
  "nat \<Rightarrow> input_section \<Rightarrow> work_range \<Rightarrow> (work_range_error, unit) outcome" where
  "validate_item_containment item_index isec acc =
     (let accepted_len = wr_end acc - wr_start acc; dlen = section_data_len (sec_data isec) in
      if accepted_len < dlen
      then Err (OutOfBounds item_index (wr_start acc) dlen accepted_len)
      else validate_relocs item_index 0 dlen (sec_relocs isec))"

definition range_key :: "work_range \<Rightarrow> nat \<times> nat \<times> nat" where
  "range_key r = (wr_start r, wr_end r, wr_item r)"

fun check_overlaps :: "work_range option \<Rightarrow> work_range list \<Rightarrow> (work_range_error, unit) outcome" where
  "check_overlaps prev [] = Ok ()"
| "check_overlaps prev (cur # rest) =
     (case prev of
        Some f \<Rightarrow>
          if wr_start cur < wr_end f
          then Err (Overlap (wr_item f) (wr_start f) (wr_end f) (wr_item cur) (wr_start cur) (wr_end cur))
          else check_overlaps (Some cur) rest
      | None \<Rightarrow> check_overlaps (Some cur) rest)"

definition validate_work_ranges ::
  "work_range list \<Rightarrow> (work_range_error, work_range option list) outcome" where
  "validate_work_ranges ranges =
     (let sorted = sort_key range_key ranges;
          count = (if sorted = [] then 0 else fold max (map wr_item sorted) 0 + 1) in
      bind_outcome (check_overlaps None sorted) (\<lambda>_.
        Ok (fold (\<lambda>r v. v[wr_item r := Some r]) sorted (replicate count None))))"

fun validate_items_from ::
  "nat \<Rightarrow> nat \<Rightarrow> work_item list \<Rightarrow>
     (work_range_error, work_range option list \<times> work_range list) outcome" where
  "validate_items_from buf_len i [] = Ok ([], [])"
| "validate_items_from buf_len i (item # items) =
     bind_outcome (range_from_parts i (wi_file_off item) (wi_file_len item) buf_len) (\<lambda>r.
       case r of
         None \<Rightarrow>
           bind_outcome (validate_items_from buf_len (i + 1) items) (\<lambda>(v, rs). Ok (None # v, rs))
       | Some rg \<Rightarrow>
           bind_outcome (validate_item_containment i (wi_isec item) rg) (\<lambda>_.
             bind_outcome (validate_items_from buf_len (i + 1) items)
               (\<lambda>(v, rs). Ok (Some rg # v, rg # rs))))"

definition validate_work_item_ranges ::
  "work_item list \<Rightarrow> nat \<Rightarrow> (work_range_error, work_range option list) outcome" where
  "validate_work_item_ranges items buf_len =
     bind_outcome (validate_items_from buf_len 0 items) (\<lambda>(item_ranges, ranges).
       bind_outcome (validate_work_ranges ranges) (\<lambda>_. Ok item_ranges))"

section \<open>Copy and relocate\<close>

record emit_totals =
  et_sections :: u64
  et_bytes :: u64
  et_relocs :: u64

definition totals_zero :: emit_totals where
  "totals_zero = \<lparr>et_sections = 0, et_bytes = 0, et_relocs = 0\<rparr>"

fun apply_relocs ::
  "apply_ctx \<Rightarrow> input_object \<Rightarrow> nat \<Rightarrow> u64 \<Rightarrow> input_reloc list \<Rightarrow> bytes \<Rightarrow> (reloc_error, bytes) outcome" where
  "apply_relocs ctx obj obj_id va [] buf = Ok buf"
| "apply_relocs ctx obj obj_id va (r # rs) buf =
     bind_outcome (apply_reloc ctx obj obj_id r va buf) (apply_relocs ctx obj obj_id va rs)"

definition range_contains :: "work_range \<Rightarrow> nat \<Rightarrow> nat \<Rightarrow> bool" where
  "range_contains acc s e \<longleftrightarrow> wr_start acc \<le> s \<and> e \<le> wr_end acc"

definition process_item ::
  "input_arena \<Rightarrow> apply_ctx \<Rightarrow> work_item \<Rightarrow> work_range \<Rightarrow> bytes \<times> emit_totals \<Rightarrow>
     (reloc_error, bytes \<times> emit_totals) outcome" where
  "process_item arena ctx item acc = (\<lambda>(buf, totals).
     (let isec = wi_isec item; dlen = section_data_len (sec_data isec); off = wi_file_off item in
      if dlen = 0 \<or> 2 ^ 64 \<le> off + dlen \<or> length buf < off + dlen \<or> \<not> range_contains acc off (off + dlen)
      then Ok (buf, totals)
      else case (slice off dlen buf, arena_bytes arena (sec_data isec)) of
        (Some sec_buf, Some data) \<Rightarrow>
          bind_outcome
            (apply_relocs ctx (wi_obj item) (wi_obj_id item) (wi_section_va item) (sec_relocs isec) data)
            (\<lambda>sec_buf'. case splice buf off sec_buf' of
               Some buf' \<Rightarrow>
                 Ok (buf', totals\<lparr>et_sections := et_sections totals + 1,
                                  et_bytes := et_bytes totals + of_nat dlen,
                                  et_relocs := et_relocs totals + of_nat (length (sec_relocs isec))\<rparr>)
             | None \<Rightarrow> Panic)
      | _ \<Rightarrow> Panic))"

text \<open>The serial loop over numbered items; an item without an accepted range is passed over.\<close>

fun dispatch_items ::
  "input_arena \<Rightarrow> apply_ctx \<Rightarrow> work_range option list \<Rightarrow> (nat \<times> work_item) list \<Rightarrow>
     bytes \<times> emit_totals \<Rightarrow> (reloc_error, bytes \<times> emit_totals) outcome" where
  "dispatch_items arena ctx acc [] st = Ok st"
| "dispatch_items arena ctx acc ((i, item) # rest) st =
     (case Option.bind (get acc i) id of
        None \<Rightarrow> dispatch_items arena ctx acc rest st
      | Some r \<Rightarrow> bind_outcome (process_item arena ctx item r st) (dispatch_items arena ctx acc rest))"


text \<open>
  \<^verbatim>\<open>dispatch_parallel\<close>: below the threshold the serial loop; above it batches of 256 consecutive items
  go to worker threads.  \<open>sched\<close> is the order in which the workers get to the batches, which the scheduler
  chooses; the error reported is the first one recorded, as the error slot keeps it.
\<close>

definition batches :: "nat \<Rightarrow> (nat \<times> nat) list" where
  "batches n = map (\<lambda>b. (b * 256, min (b * 256 + 256) n)) [0..<(n + 255) div 256]"

definition dispatch_parallel ::
  "input_arena \<Rightarrow> apply_ctx \<Rightarrow> work_range option list \<Rightarrow> work_item list \<Rightarrow> (nat \<times> nat) list \<Rightarrow>
     bytes \<times> emit_totals \<Rightarrow> (reloc_error, bytes \<times> emit_totals) outcome" where
  "dispatch_parallel arena ctx acc items sched st =
     (if length items < 2048 then dispatch_items arena ctx acc (enumerate 0 items) st
      else dispatch_items arena ctx acc
        (concat (map (\<lambda>(s, e). take (e - s) (drop s (enumerate 0 items))) sched)) st)"

definition copy_input_sections ::
  "input_arena \<Rightarrow> input_object list \<Rightarrow> symbol_table \<Rightarrow> layout \<Rightarrow> write_filter \<Rightarrow> (nat \<times> nat) list \<Rightarrow> bytes \<Rightarrow>
     (emit_error, bytes) outcome" where
  "copy_input_sections arena objs st ly flt sched buf =
     (let ctx = \<lparr>cx_symbols = st, cx_layout = ly, cx_shared = ly_shared ly,
                 cx_index = Some (sym_index_build objs st)\<rparr>;
          items = collect_input_work_items ly objs flt in
      case validate_work_item_ranges items (length buf) of
        Err e \<Rightarrow> Err (emit_error_of e)
      | Panic \<Rightarrow> Panic
      | Ok acc \<Rightarrow>
          (case dispatch_parallel arena ctx acc items sched (buf, totals_zero) of
             Ok (buf', totals) \<Rightarrow> Ok buf'
           | Err e \<Rightarrow> Err (EmitReloc e)
           | Panic \<Rightarrow> Panic))"

section \<open>What validation guarantees\<close>

definition item_len :: "work_item \<Rightarrow> nat" where
  "item_len item = section_data_len (sec_data (wi_isec item))"

definition item_valid :: "nat \<Rightarrow> nat \<Rightarrow> work_item \<Rightarrow> work_range option \<Rightarrow> bool" where
  "item_valid buf_len i item acc \<longleftrightarrow>
     (case acc of
        None \<Rightarrow> wi_file_len item = 0
      | Some r \<Rightarrow>
          wr_item r = i \<and> wr_start r = wi_file_off item \<and> wr_end r = wi_file_off item + wi_file_len item \<and>
          wr_start r < wr_end r \<and> wr_end r \<le> buf_len \<and> wr_end r < 2 ^ 64 \<and>
          item_len item \<le> wi_file_len item \<and>
          validate_relocs i 0 (item_len item) (sec_relocs (wi_isec item)) = Ok ())"

lemma range_from_parts_cases:
  "range_from_parts i off len blen = Ok r \<Longrightarrow>
     (len = 0 \<and> r = None) \<or>
     (len \<noteq> 0 \<and> off + len < 2 ^ 64 \<and> off + len \<le> blen \<and>
      r = Some \<lparr>wr_item = i, wr_start = off, wr_end = off + len\<rparr>)"
  by (auto simp: range_from_parts_def split: if_splits)

lemma validate_items_from_valid:
  assumes "validate_items_from buf_len i items = Ok (v, rs)"
  shows "length v = length items \<and> (\<forall>k < length items. item_valid buf_len (i + k) (items ! k) (v ! k)) \<and>
    rs = List.map_filter id v"
  using assms
proof (induction items arbitrary: i v rs)
  case Nil
  then show ?case by (simp add: map_filter_def)
next
  case (Cons item items)
  obtain r where r: "range_from_parts i (wi_file_off item) (wi_file_len item) buf_len = Ok r"
    using Cons.prems by (auto elim: bind_outcome_Ok)
  have "\<exists>v' rs'. validate_items_from buf_len (i + 1) items = Ok (v', rs') \<and> v = r # v' \<and>
      rs = (case r of None \<Rightarrow> rs' | Some x \<Rightarrow> x # rs') \<and> item_valid buf_len i item r"
  proof (cases r)
    case None
    then show ?thesis
      using Cons.prems r range_from_parts_cases [OF r]
      by (auto elim!: bind_outcome_Ok simp: item_valid_def)
  next
    case (Some x)
    then have x: "x = \<lparr>wr_item = i, wr_start = wi_file_off item, wr_end = wi_file_off item + wi_file_len item\<rparr>"
        "wi_file_len item \<noteq> 0" "wi_file_off item + wi_file_len item < 2 ^ 64"
        "wi_file_off item + wi_file_len item \<le> buf_len"
      using range_from_parts_cases [OF r] by auto
    obtain v' rs' where step: "validate_item_containment i (wi_isec item) x = Ok ()"
        "validate_items_from buf_len (i + 1) items = Ok (v', rs')" "v = r # v'" "rs = x # rs'"
      using Cons.prems r Some by (auto elim!: bind_outcome_Ok)
    have "item_valid buf_len i item r"
      using step(1) x by (auto simp: Some item_valid_def item_len_def validate_item_containment_def Let_def
          split: if_splits)
    then show ?thesis using step Some by auto
  qed
  then obtain v' rs' where rest: "validate_items_from buf_len (i + 1) items = Ok (v', rs')" "v = r # v'"
      "rs = (case r of None \<Rightarrow> rs' | Some x \<Rightarrow> x # rs')" "item_valid buf_len i item r"
    by blast
  note ih = Cons.IH [OF rest(1)]
  have "item_valid buf_len (i + k) ((item # items) ! k) (v ! k)" if "k < length (item # items)" for k
    using that ih rest(2,4) by (cases k) auto
  then show ?case
    using ih rest by (auto simp: map_filter_def split: option.splits)
qed

lemma check_overlaps_sorted:
  assumes "check_overlaps prev rs = Ok ()" "\<forall>r \<in> set rs. wr_start r < wr_end r"
  shows "sorted_wrt (\<lambda>a b. wr_end a \<le> wr_start b) (case prev of None \<Rightarrow> rs | Some f \<Rightarrow> f # rs)"
  using assms
proof (induction prev rs rule: check_overlaps.induct)
  case (1 prev)
  then show ?case by (simp split: option.splits)
next
  case (2 prev cur rest)
  show ?case
  proof (cases prev)
    case None
    then show ?thesis using "2.IH"(1) "2.prems" by simp
  next
    case (Some f)
    then have le: "wr_end f \<le> wr_start cur" and ok: "check_overlaps (Some cur) rest = Ok ()"
      using "2.prems"(1) by (auto split: if_splits)
    have s: "sorted_wrt (\<lambda>a b. wr_end a \<le> wr_start b) (cur # rest)"
      using "2.IH"(2) [OF Some] le ok "2.prems"(2) by simp
    have "wr_start cur < wr_end cur" using "2.prems"(2) by simp
    then have "\<forall>b \<in> set rest. wr_end f \<le> wr_start b" using s le by force
    then show ?thesis using Some s le by simp
  qed
qed

lemma sorted_wrt_pairs:
  "sorted_wrt P xs \<Longrightarrow> x \<in> set xs \<Longrightarrow> y \<in> set xs \<Longrightarrow> x \<noteq> y \<Longrightarrow> P x y \<or> P y x"
  by (induction xs) auto

lemma validated_disjoint:
  assumes "validate_work_item_ranges items buf_len = Ok acc"
    and "Some r \<in> set acc" "Some r' \<in> set acc" "r \<noteq> r'"
  shows "wr_end r \<le> wr_start r' \<or> wr_end r' \<le> wr_start r"
proof -
  obtain rs where v: "validate_items_from buf_len 0 items = Ok (acc, rs)"
      "check_overlaps None (sort_key range_key rs) = Ok ()"
    using assms(1) by (auto simp: validate_work_item_ranges_def validate_work_ranges_def Let_def elim!: bind_outcome_Ok)
  note valid = validate_items_from_valid [OF v(1)]
  have mem: "x \<in> set rs \<longleftrightarrow> Some x \<in> set acc" for x
    using valid by (force simp: map_filter_def)
  have "wr_start x < wr_end x" if "x \<in> set rs" for x
    using that mem valid by (fastforce simp: item_valid_def in_set_conv_nth)
  then have "sorted_wrt (\<lambda>a b. wr_end a \<le> wr_start b) (sort_key range_key rs)"
    using check_overlaps_sorted [OF v(2)] by simp
  from sorted_wrt_pairs [OF this, of r r'] show ?thesis using mem assms(2-4) by simp
qed

lemma validated_item:
  assumes "validate_work_item_ranges items buf_len = Ok acc" "k < length items"
  shows "length acc = length items" "item_valid buf_len k (items ! k) (acc ! k)"
proof -
  obtain rs where v: "validate_items_from buf_len 0 items = Ok (acc, rs)"
    using assms(1) by (auto simp: validate_work_item_ranges_def elim!: bind_outcome_Ok)
  then show "length acc = length items" "item_valid buf_len k (items ! k) (acc ! k)"
    using validate_items_from_valid [OF v] assms(2) by auto
qed


section \<open>What an item does\<close>

lemma apply_relocs_stay:
  assumes "validate_relocs i k n rs = Ok ()" "n \<le> length data" "length data < 2 ^ 64"
  shows "case apply_relocs ctx obj obj_id va rs data of
           Ok b \<Rightarrow> length b = length data | Err e \<Rightarrow> True | Panic \<Rightarrow> False"
  using assms
proof (induction rs arbitrary: k data)
  case (Cons r rs)
  obtain fp where fp: "relocation_footprint i k r = Ok fp" "validate_relocs i (k + 1) n rs = Ok ()"
      "\<forall>f. fp = Some f \<longrightarrow> fp_start f + fp_len f \<le> n"
    using Cons.prems(1) by (auto elim!: bind_outcome_Ok split: option.splits if_splits)
  have patch: "case patch_buf data (r_type r) a (path obj) of
      Ok b \<Rightarrow> length b = length data | Err e \<Rightarrow> True | Panic \<Rightarrow> False"
    if "ra_offset a = unat (r_offset r)" for a
    using patch_stays [OF fp(1) Cons.prems(3) that, of "path obj"] fp(3) Cons.prems(2)
    by (cases fp) (auto simp: stays_def same_outside_length split: outcome.splits)
  have step: "case apply_reloc ctx obj obj_id r va data of
      Ok b \<Rightarrow> length b = length data | Err e \<Rightarrow> True | Panic \<Rightarrow> False"
  proof (cases "resolve_reloc_action ctx obj obj_id r va")
    case (Ok act)
    then show ?thesis
      using patch resolve_offset by (cases act) (auto simp: apply_reloc_def)
  next
    case Panic
    then show ?thesis using resolve_no_panic by simp
  qed (simp add: apply_reloc_def)
  show ?case
  proof (cases "apply_reloc ctx obj obj_id r va data")
    case (Ok b)
    then have "length b = length data" using step by simp
    then show ?thesis
      using Cons.IH [OF fp(2), of b] Cons.prems(2,3) Ok by (simp split: outcome.splits)
  qed (use step in auto)
qed simp

definition item_bytes ::
  "input_arena \<Rightarrow> apply_ctx \<Rightarrow> work_item \<Rightarrow> (reloc_error, bytes) outcome" where
  "item_bytes arena ctx item =
     (case arena_bytes arena (sec_data (wi_isec item)) of
        Some data \<Rightarrow>
          apply_relocs ctx (wi_obj item) (wi_obj_id item) (wi_section_va item)
            (sec_relocs (wi_isec item)) data
      | None \<Rightarrow> Panic)"

lemma arena_bytes_length: "arena_bytes a d = Some bs \<Longrightarrow> length bs = section_data_len d"
  by (auto simp: arena_bytes_def section_data_len_def bind_eq_Some_conv slice_Some_iff)

lemma item_bytes_stay:
  assumes "item_valid buf_len i item (Some r)" "arena_bytes arena (sec_data (wi_isec item)) \<noteq> None"
  shows "case item_bytes arena ctx item of
           Ok b \<Rightarrow> length b = item_len item | Err e \<Rightarrow> True | Panic \<Rightarrow> False"
proof -
  obtain data where d: "arena_bytes arena (sec_data (wi_isec item)) = Some data"
    using assms(2) by auto
  then have l: "length data = item_len item" by (simp add: arena_bytes_length item_len_def)
  have "validate_relocs i 0 (item_len item) (sec_relocs (wi_isec item)) = Ok ()" "item_len item < 2 ^ 64"
    using assms(1) by (auto simp: item_valid_def)
  from apply_relocs_stay [OF this(1), where data = data and ctx = ctx and obj = "wi_obj item"
      and obj_id = "wi_obj_id item" and va = "wi_section_va item"] this(2) l
  show ?thesis by (simp add: item_bytes_def d split: outcome.splits)
qed

text \<open>A write as a function on whole buffers, which commutes with writes to disjoint ranges.\<close>

definition overwrite :: "nat \<Rightarrow> bytes \<Rightarrow> bytes \<Rightarrow> bytes" where
  "overwrite off bs buf =
     map (\<lambda>i. if off \<le> i \<and> i < off + length bs then bs ! (i - off) else buf ! i) [0..<length buf]"

lemma length_overwrite [simp]: "length (overwrite off bs buf) = length buf"
  by (simp add: overwrite_def)

lemma nth_overwrite:
  "i < length buf \<Longrightarrow> overwrite off bs buf ! i =
     (if off \<le> i \<and> i < off + length bs then bs ! (i - off) else buf ! i)"
  by (simp add: overwrite_def)

lemma splice_overwrite: "off + length bs \<le> length buf \<Longrightarrow> splice buf off bs = Some (overwrite off bs buf)"
proof -
  assume "off + length bs \<le> length buf"
  then obtain b where b: "splice buf off bs = Some b" by (auto simp: splice_def)
  then have "b = overwrite off bs buf"
    by (intro nth_equalityI) (auto simp: splice_length nth_splice [OF b] nth_overwrite)
  then show ?thesis using b by simp
qed

lemma overwrite_commute:
  "x + length bs \<le> y \<or> y + length cs \<le> x \<Longrightarrow>
     overwrite x bs (overwrite y cs buf) = overwrite y cs (overwrite x bs buf)"
  by (rule nth_equalityI) (auto simp: nth_overwrite)

definition put_item :: "work_item \<Rightarrow> bytes \<Rightarrow> bytes \<times> emit_totals \<Rightarrow> bytes \<times> emit_totals" where
  "put_item item b = (\<lambda>(buf, t).
     (overwrite (wi_file_off item) b buf,
      t\<lparr>et_sections := et_sections t + 1, et_bytes := et_bytes t + of_nat (item_len item),
        et_relocs := et_relocs t + of_nat (length (sec_relocs (wi_isec item)))\<rparr>))"

lemma process_item_eq:
  assumes v: "item_valid (length buf) i item (Some r)"
    and arena: "arena_bytes arena (sec_data (wi_isec item)) \<noteq> None"
  shows "process_item arena ctx item r (buf, t) =
     (if item_len item = 0 then Ok (buf, t)
      else bind_outcome (item_bytes arena ctx item) (\<lambda>b. Ok (put_item item b (buf, t))))"
proof (cases "item_len item = 0")
  case False
  obtain data where d: "arena_bytes arena (sec_data (wi_isec item)) = Some data" using arena by auto
  have fit: "wi_file_off item + item_len item \<le> length buf" "wi_file_off item + item_len item < 2 ^ 64"
      "range_contains r (wi_file_off item) (wi_file_off item + item_len item)"
    using v by (auto simp: item_valid_def range_contains_def)
  show ?thesis
  proof (cases "item_bytes arena ctx item")
    case (Ok b)
    then have "length b = item_len item" using item_bytes_stay [OF v arena, of ctx] by simp
    then show ?thesis
      using False fit Ok d
      by (simp add: process_item_def item_len_def slice_def splice_overwrite put_item_def item_bytes_def Let_def)
  qed (use False fit d in \<open>simp_all add: process_item_def item_len_def slice_def item_bytes_def Let_def\<close>)
qed (simp add: process_item_def item_len_def Let_def)

section \<open>Every order of execution\<close>

text \<open>The error and the effect of one numbered item, once it is validated.\<close>

definition item_error ::
  "input_arena \<Rightarrow> apply_ctx \<Rightarrow> work_range option list \<Rightarrow> nat \<times> work_item \<Rightarrow> reloc_error option" where
  "item_error arena ctx acc = (\<lambda>(i, item).
     if Option.bind (get acc i) id = None \<or> item_len item = 0 then None
     else case item_bytes arena ctx item of Err e \<Rightarrow> Some e | _ \<Rightarrow> None)"

definition item_effect ::
  "input_arena \<Rightarrow> apply_ctx \<Rightarrow> work_range option list \<Rightarrow> nat \<times> work_item \<Rightarrow>
     bytes \<times> emit_totals \<Rightarrow> bytes \<times> emit_totals" where
  "item_effect arena ctx acc = (\<lambda>(i, item) st.
     if Option.bind (get acc i) id = None \<or> item_len item = 0 then st
     else case item_bytes arena ctx item of Ok b \<Rightarrow> put_item item b st | _ \<Rightarrow> st)"

definition validated ::
  "input_arena \<Rightarrow> work_item list \<Rightarrow> nat \<Rightarrow> work_range option list \<Rightarrow> bool" where
  "validated arena items n acc \<longleftrightarrow>
     validate_work_item_ranges items n = Ok acc \<and>
     (\<forall>item \<in> set items. arena_bytes arena (sec_data (wi_isec item)) \<noteq> None)"

lemma validated_get:
  assumes "validated arena items n acc" "(i, item) \<in> set (enumerate 0 items)"
  shows "item = items ! i" "i < length items" "get acc i = Some (acc ! i)" "item_valid n i item (acc ! i)"
    "arena_bytes arena (sec_data (wi_isec item)) \<noteq> None"
proof -
  show i: "item = items ! i" "i < length items" using assms(2) by (auto simp: in_set_enumerate_eq)
  then show "arena_bytes arena (sec_data (wi_isec item)) \<noteq> None"
    using assms(1) by (auto simp: validated_def)
  have v: "validate_work_item_ranges items n = Ok acc" using assms(1) by (simp add: validated_def)
  show "item_valid n i item (acc ! i)" using validated_item(2) [OF v i(2)] i by simp
  show "get acc i = Some (acc ! i)" using validated_item(1) [OF v i(2)] i by (simp add: get_def)
qed

lemma length_item_effect: "length (fst (item_effect arena ctx acc x st)) = length (fst st)"
  by (cases x; cases st) (auto simp: item_effect_def put_item_def split: outcome.splits)

lemma dispatch_eq:
  assumes v: "validated arena items n acc"
    and "set ord \<subseteq> set (enumerate 0 items)" "length (fst st) = n"
  shows "dispatch_items arena ctx acc ord st =
     (case List.map_filter (item_error arena ctx acc) ord of
        [] \<Rightarrow> Ok (fold (item_effect arena ctx acc) ord st)
      | e # _ \<Rightarrow> Err e)"
  using assms(2,3)
proof (induction ord arbitrary: st)
  case Nil
  then show ?case by (simp add: map_filter_simps split: list.splits)
next
  case (Cons x ord)
  obtain i item where x: "x = (i, item)" by force
  obtain buf t where st: "st = (buf, t)" by force
  have mem: "(i, item) \<in> set (enumerate 0 items)" using Cons.prems(1) x by simp
  note g = validated_get [OF v mem]
  have ih: "dispatch_items arena ctx acc ord st' =
      (case List.map_filter (item_error arena ctx acc) ord of
         [] \<Rightarrow> Ok (fold (item_effect arena ctx acc) ord st') | e # _ \<Rightarrow> Err e)"
    if "length (fst st') = n" for st'
    using Cons.IH Cons.prems(1) that by simp
  show ?case
  proof (cases "acc ! i")
    case None
    then have "item_error arena ctx acc (i, item) = None" "item_effect arena ctx acc (i, item) st = st"
      by (simp_all add: g(3) item_error_def item_effect_def)
    then show ?thesis using ih Cons.prems(2) None by (simp add: x g(3) map_filter_simps split: list.splits)
  next
    case (Some r)
    then have valid: "item_valid (length buf) i item (Some r)" using g(4) Cons.prems(2) st by simp
    note p = process_item_eq [OF valid g(5), of ctx t]
    show ?thesis
    proof (cases "item_len item = 0")
      case True
      then have "item_error arena ctx acc (i, item) = None" "item_effect arena ctx acc (i, item) st = st"
        by (simp_all add: item_error_def item_effect_def)
      then show ?thesis using ih Cons.prems(2) p Some True by (simp add: x st g(3) map_filter_simps split: list.splits)
    next
      case False
      show ?thesis
      proof (cases "item_bytes arena ctx item")
        case (Ok b)
        have "length (fst (put_item item b (buf, t))) = n"
          using Cons.prems(2) st by (simp add: put_item_def)
        moreover have "item_error arena ctx acc (i, item) = None"
            "item_effect arena ctx acc (i, item) (buf, t) = put_item item b (buf, t)"
          using False Ok Some by (simp_all add: g(3) item_error_def item_effect_def)
        ultimately show ?thesis
          using ih [of "put_item item b (buf, t)"] False Ok p Some
          by (simp add: x st g(3) map_filter_simps split: list.splits)
      next
        case (Err e)
        then have "item_error arena ctx acc (i, item) = Some e"
          using False Some by (simp add: g(3) item_error_def)
        then show ?thesis using False p Some Err by (simp add: x st g(3) map_filter_simps split: list.splits)
      next
        case Panic
        then show ?thesis using item_bytes_stay [OF valid g(5), of ctx] by simp
      qed
    qed
  qed
qed


lemma item_effect_commute:
  assumes v: "validated arena items n acc"
    and x: "x \<in> set (enumerate 0 items)" and y: "y \<in> set (enumerate 0 items)"
  shows "item_effect arena ctx acc x \<circ> item_effect arena ctx acc y =
         item_effect arena ctx acc y \<circ> item_effect arena ctx acc x"
proof (cases "x = y")
  case False
  obtain i item where xi: "x = (i, item)" by force
  obtain j item' where yj: "y = (j, item')" by force
  note gx = validated_get [OF v x [unfolded xi]]
  note gy = validated_get [OF v y [unfolded yj]]
  have ne: "i \<noteq> j" using False gx(1) gy(1) xi yj by auto
  show ?thesis
  proof (cases "acc ! i = None \<or> acc ! j = None \<or> item_len item = 0 \<or> item_len item' = 0 \<or>
      (\<forall>b. item_bytes arena ctx item \<noteq> Ok b) \<or> (\<forall>b. item_bytes arena ctx item' \<noteq> Ok b)")
    case True
    then have "item_effect arena ctx acc x = (\<lambda>st. st) \<or> item_effect arena ctx acc y = (\<lambda>st. st)"
      by (auto simp: xi yj item_effect_def gx(3) gy(3) fun_eq_iff split: outcome.splits)
    then show ?thesis by (elim disjE) (simp_all add: comp_def)
  next
    case False
    then obtain r r' b b' where rs: "acc ! i = Some r" "acc ! j = Some r'"
        "item_bytes arena ctx item = Ok b" "item_bytes arena ctx item' = Ok b'"
        "item_len item \<noteq> 0" "item_len item' \<noteq> 0"
      by auto
    have valid: "item_valid n i item (Some r)" "item_valid n j item' (Some r')"
      using gx(4) gy(4) rs by simp_all
    have len: "length b = item_len item" "length b' = item_len item'"
      using item_bytes_stay [OF valid(1) gx(5), of ctx] item_bytes_stay [OF valid(2) gy(5), of ctx] rs by simp_all
    have wr: "wr_item r = i" "wr_start r = wi_file_off item" "wr_end r = wi_file_off item + wi_file_len item"
        "item_len item \<le> wi_file_len item" "wr_item r' = j" "wr_start r' = wi_file_off item'"
        "wr_end r' = wi_file_off item' + wi_file_len item'" "item_len item' \<le> wi_file_len item'"
      using valid by (auto simp: item_valid_def)
    have "length acc = length items"
      using v gx(2) validated_item(1) by (auto simp: validated_def)
    then have mem: "Some r \<in> set acc" "Some r' \<in> set acc"
      using rs(1,2) gx(2) gy(2) nth_mem by (metis, metis)
    have "r \<noteq> r'" using ne wr by auto
    with validated_disjoint [OF _ mem] v
    have "wr_end r \<le> wr_start r' \<or> wr_end r' \<le> wr_start r" by (auto simp: validated_def)
    then have dis: "wi_file_off item + length b \<le> wi_file_off item' \<or>
        wi_file_off item' + length b' \<le> wi_file_off item"
      using wr len by linarith
    have eff: "item_effect arena ctx acc x = put_item item b" "item_effect arena ctx acc y = put_item item' b'"
      using rs by (auto simp: xi yj item_effect_def gx(3) gy(3) fun_eq_iff)
    show ?thesis
      using overwrite_commute [OF dis]
      by (auto simp: eff put_item_def fun_eq_iff algebra_simps)
  qed
qed simp

lemma map_filter_Nil_iff: "List.map_filter f xs = [] \<longleftrightarrow> (\<forall>x \<in> set xs. f x = None)"
  by (induction xs) (auto simp: map_filter_simps split: option.splits)

lemma dispatch_permuted:
  assumes v: "validated arena items (length buf) acc" and m: "mset ord = mset (enumerate 0 items)"
  shows "case dispatch_items arena ctx acc (enumerate 0 items) (buf, t) of
           Ok st \<Rightarrow> dispatch_items arena ctx acc ord (buf, t) = Ok st
         | Err e \<Rightarrow> (\<exists>e'. dispatch_items arena ctx acc ord (buf, t) = Err e')
         | Panic \<Rightarrow> False"
proof -
  have s: "set ord = set (enumerate 0 items)" using mset_eq_setD [OF m] .
  note e1 = dispatch_eq [OF v subset_refl, of "(buf, t)" ctx]
  have "set ord \<subseteq> set (enumerate 0 items)" using s by simp
  note e2 = dispatch_eq [OF v this, of "(buf, t)" ctx]
  have nil: "List.map_filter (item_error arena ctx acc) ord = [] \<longleftrightarrow>
      List.map_filter (item_error arena ctx acc) (enumerate 0 items) = []"
    by (simp add: map_filter_Nil_iff s)
  have f: "fold (item_effect arena ctx acc) ord = fold (item_effect arena ctx acc) (enumerate 0 items)"
    using m s by (intro fold_multiset_equiv) (auto intro!: item_effect_commute [OF v])
  show ?thesis
    using nil by (auto simp: e1 e2 f split: list.splits)
qed

lemma concat_batches:
  "concat (map (\<lambda>(s, e). take (e - s) (drop s xs)) (batches (length xs))) = xs"
proof -
  have "concat (map (\<lambda>b. take (min (b * 256 + 256) (length xs) - b * 256) (drop (b * 256) xs)) [0..<k]) =
      take (k * 256) xs" for k
  proof (induction k)
    case (Suc k)
    have "take (k * 256) xs @ take (min (k * 256 + 256) (length xs) - k * 256) (drop (k * 256) xs) =
        take (k * 256) xs @ take 256 (drop (k * 256) xs)"
      by (simp add: min_def)
    also have "\<dots> = take (k * 256 + 256) xs" by (simp add: take_add)
    finally show ?case using Suc by (simp add: add.commute)
  qed simp
  moreover have "length xs \<le> (length xs + 255) div 256 * 256" by linarith
  ultimately show ?thesis by (simp add: batches_def comp_def)
qed

text \<open>C3: The unsynchronised parallel copy is the serial one.  Once the work items are
  validated against the output buffer, and whatever order the scheduler hands the batches out in, the
  parallel dispatch produces exactly the bytes and the totals of the serial loop, fails exactly when the
  serial loop fails, and never panics.\<close>

theorem dispatch_parallel_serial:
  assumes "validate_work_item_ranges items (length buf) = Ok acc"
    and "\<forall>item \<in> set items. arena_bytes arena (sec_data (wi_isec item)) \<noteq> None"
    and "mset sched = mset (batches (length items))"
  shows "case dispatch_items arena ctx acc (enumerate 0 items) (buf, t) of
           Ok st \<Rightarrow> dispatch_parallel arena ctx acc items sched (buf, t) = Ok st
         | Err e \<Rightarrow> (\<exists>e'. dispatch_parallel arena ctx acc items sched (buf, t) = Err e')
         | Panic \<Rightarrow> False"
proof -
  have v: "validated arena items (length buf) acc" using assms by (simp add: validated_def)
  let ?cut = "\<lambda>(s, e). take (e - s) (drop s (enumerate 0 items))"
  have "mset (concat (map ?cut xs)) = (\<Sum>x \<in># mset xs. mset (?cut x))" for xs
    by (induction xs) auto
  then have "mset (concat (map ?cut sched)) = mset (concat (map ?cut (batches (length items))))"
    by (simp only: assms(3))
  then have m: "mset (concat (map ?cut sched)) = mset (enumerate 0 items)"
    using concat_batches [of "enumerate 0 items"] by simp
  show ?thesis
    using dispatch_permuted [OF v m, of ctx t] dispatch_permuted [OF v refl, of ctx t]
    by (auto simp: dispatch_parallel_def split: outcome.splits)
qed

lemma fold_effect_outside:
  assumes v: "validated arena items (length (fst st)) acc" and "set ord \<subseteq> set (enumerate 0 items)"
    and k: "k < length (fst st)" "\<forall>r. Some r \<in> set acc \<longrightarrow> k < wr_start r \<or> wr_end r \<le> k"
  shows "fst (fold (item_effect arena ctx acc) ord st) ! k = fst st ! k"
  using assms(2) v k(1)
proof (induction ord arbitrary: st)
  case (Cons x ord)
  obtain i item where x: "x = (i, item)" by force
  obtain buf t where st: "st = (buf, t)" by force
  have mem: "(i, item) \<in> set (enumerate 0 items)" using Cons.prems(1) x by simp
  note g = validated_get [OF Cons.prems(2) mem]
  have "fst (item_effect arena ctx acc x st) ! k = fst st ! k"
  proof (cases "\<exists>r b. acc ! i = Some r \<and> item_len item \<noteq> 0 \<and> item_bytes arena ctx item = Ok b")
    case True
    then obtain r b where r: "acc ! i = Some r" "item_bytes arena ctx item = Ok b" "item_len item \<noteq> 0" by blast
    have valid: "item_valid (length (fst st)) i item (Some r)" using g(4) r by simp
    have len: "length b = item_len item" using item_bytes_stay [OF valid g(5), of ctx] r by simp
    have "Some r \<in> set acc"
      using g(2) r(1) Cons.prems(2) validated_item(1) by (metis nth_mem validated_def)
    then have "k < wi_file_off item \<or> wi_file_off item + length b \<le> k"
      using k(2) valid len by (fastforce simp: item_valid_def)
    then show ?thesis
      using r Cons.prems(3) by (auto simp: x st item_effect_def g(3) put_item_def nth_overwrite)
  next
    case False
    then have "item_effect arena ctx acc x st = st"
      by (auto simp: x item_effect_def g(3) split: outcome.splits)
    then show ?thesis by simp
  qed
  then show ?case
    using Cons.IH [of "item_effect arena ctx acc x st"] Cons.prems by (simp add: length_item_effect)
qed simp

lemma length_fold_effect: "length (fst (fold (item_effect arena ctx acc) ord st)) = length (fst st)"
  by (induction ord arbitrary: st) (simp_all add: length_item_effect)

text \<open>C2: Validation makes the raw writes safe.  The accepted ranges lie in the output buffer and are
  pairwise disjoint, and copying and relocating the validated items never panics, keeps the length of the
  buffer and leaves every byte outside the accepted ranges as it was.\<close>

theorem dispatch_safe:
  assumes "validate_work_item_ranges items (length buf) = Ok acc"
    and "\<forall>item \<in> set items. arena_bytes arena (sec_data (wi_isec item)) \<noteq> None"
  shows "(\<forall>r r'. Some r \<in> set acc \<longrightarrow> Some r' \<in> set acc \<longrightarrow>
            wr_end r \<le> length buf \<and> (r = r' \<or> wr_end r \<le> wr_start r' \<or> wr_end r' \<le> wr_start r)) \<and>
         (case dispatch_items arena ctx acc (enumerate 0 items) (buf, t) of
            Ok (buf', t') \<Rightarrow> length buf' = length buf \<and>
              (\<forall>k < length buf. (\<forall>r. Some r \<in> set acc \<longrightarrow> k < wr_start r \<or> wr_end r \<le> k) \<longrightarrow>
                buf' ! k = buf ! k)
          | Err e \<Rightarrow> True
          | Panic \<Rightarrow> False)"
proof -
  have v: "validated arena items (length buf) acc" using assms by (simp add: validated_def)
  have "wr_end r \<le> length buf" if "Some r \<in> set acc" for r
  proof -
    have "length acc = length items"
      using assms(1) validate_items_from_valid
      by (fastforce simp: validate_work_item_ranges_def elim!: bind_outcome_Ok)
    then obtain i where "i < length items" "acc ! i = Some r" using \<open>Some r \<in> set acc\<close> by (metis in_set_conv_nth)
    then show ?thesis using validated_item(2) [OF assms(1)] by (fastforce simp: item_valid_def)
  qed
  then show ?thesis
    using validated_disjoint [OF assms(1)] dispatch_eq [OF v subset_refl, of "(buf, t)" ctx]
      fold_effect_outside [of arena items "(buf, t)" acc "enumerate 0 items" _ ctx]
      length_fold_effect [of arena ctx acc "enumerate 0 items" "(buf, t)"] v
    by (auto split: list.splits prod.splits)
qed


section \<open>A call in a text section\<close>

definition call_reloc :: input_reloc where
  "call_reloc = \<lparr>r_offset = 1, r_type = 2, r_symbol = 1, r_addend = - 4\<rparr>"

definition call_section :: input_section where
  "call_section =
     \<lparr>sec_index = 1, sec_name = ''.text'', sec_kind = Text, sec_sh_type = SHT_PROGBITS,
      sec_data = \<lparr>sd_src = Mmap 0, sd_off = 0, sd_len = 5\<rparr>, sec_align = 1, sec_size = 5, sec_flags = 6,
      sec_relocs = [call_reloc]\<rparr>"

definition call_item :: "nat \<Rightarrow> work_item" where
  "call_item off =
     \<lparr>wi_file_off = off, wi_file_len = 5, wi_section_va = 0x401000,
      wi_obj = parsed_object (1, 2) ''a.o'' [call_section] [] [],
      wi_isec = call_section, wi_obj_id = 0, wi_section_index = 1, wi_reloc_count = 1\<rparr>"

definition call_arena :: input_arena where
  "call_arena = \<lparr>mmaps = [[0xe8, 0, 0, 0, 0]], owned = [], arena_names = {}\<rparr>"

lemmas work_eval = Let_def call_reloc_def call_section_def call_item_def call_arena_def
  validate_work_item_ranges_def range_from_parts_def validate_item_containment_def relocation_footprint_def
  validate_work_ranges_def range_key_def section_data_len_def decode_def rtype_codes_def
  arena_bytes_def slice_def

lemma two_calls_valid:
  "validate_work_item_ranges [call_item 8, call_item 16] (length (replicate 24 (0 :: u8))) =
     Ok [Some \<lparr>wr_item = 0, wr_start = 8, wr_end = 13\<rparr>, Some \<lparr>wr_item = 1, wr_start = 16, wr_end = 21\<rparr>]"
  by (simp add: work_eval)

lemma calls_readable:
  "\<forall>item \<in> set [call_item 8, call_item 16]. arena_bytes call_arena (sec_data (wi_isec item)) \<noteq> None"
  by (simp add: work_eval)

theorem patch_buf_footprint_witness:
  "stays 1 5 [0xe8, 0, 0, 0, 0] (patch_buf [0xe8, 0, 0, 0, 0] 2 example_addrs ''a.o'')"
proof -
  have "relocation_footprint 0 0 call_reloc = Ok (Some \<lparr>fp_start = 1, fp_len = 4\<rparr>)"
    by (simp add: work_eval)
  from patch_buf_footprint [OF this, of "[0xe8, 0, 0, 0, 0]" example_addrs "''a.o''"]
  show ?thesis by (simp add: example_addrs_def call_reloc_def)
qed

theorem dispatch_safe_witness:
  "\<forall>ctx. dispatch_items call_arena ctx
     [Some \<lparr>wr_item = 0, wr_start = 8, wr_end = 13\<rparr>, Some \<lparr>wr_item = 1, wr_start = 16, wr_end = 21\<rparr>]
     (enumerate 0 [call_item 8, call_item 16]) (replicate 24 0, totals_zero) \<noteq> Panic"
proof
  fix ctx
  show "dispatch_items call_arena ctx
     [Some \<lparr>wr_item = 0, wr_start = 8, wr_end = 13\<rparr>, Some \<lparr>wr_item = 1, wr_start = 16, wr_end = 21\<rparr>]
     (enumerate 0 [call_item 8, call_item 16]) (replicate 24 0, totals_zero) \<noteq> Panic"
    using conjunct2 [OF dispatch_safe [OF two_calls_valid calls_readable, of ctx totals_zero]]
    by (auto split: outcome.splits)
qed

theorem dispatch_parallel_serial_witness:
  "\<forall>ctx. dispatch_parallel call_arena ctx
     [Some \<lparr>wr_item = 0, wr_start = 8, wr_end = 13\<rparr>, Some \<lparr>wr_item = 1, wr_start = 16, wr_end = 21\<rparr>]
     [call_item 8, call_item 16] [(0, 2)] (replicate 24 0, totals_zero) \<noteq> Panic"
proof
  fix ctx
  have "mset [(0, 2)] = mset (batches (length [call_item 8, call_item 16]))"
    by (simp add: batches_def)
  from dispatch_parallel_serial [OF two_calls_valid calls_readable this, of ctx totals_zero]
  show "dispatch_parallel call_arena ctx
     [Some \<lparr>wr_item = 0, wr_start = 8, wr_end = 13\<rparr>, Some \<lparr>wr_item = 1, wr_start = 16, wr_end = 21\<rparr>]
     [call_item 8, call_item 16] [(0, 2)] (replicate 24 0, totals_zero) \<noteq> Panic"
    by (auto split: outcome.splits)
qed

end
