(* ===== verification/Emit_Image.thy ===== *)
theory Emit_Image
  imports Emit_Work Eh_Frame
begin

text \<open>
  Writing the whole output file, the rest of \<^verbatim>\<open>peony-emit\<close>: headers (\<^verbatim>\<open>headers.rs\<close>), synthetic sections
  (\<^verbatim>\<open>sections.rs\<close>), the unwind table (\<^verbatim>\<open>eh_frame.rs\<close>), the build id (\<^verbatim>\<open>build_id.rs\<close>) and the flow of
  \<^verbatim>\<open>emit_with_filter\<close> in \<^verbatim>\<open>lib.rs\<close>.  The memory map of the output file is a byte list; an existing file of
  the right size is overwritten in place, anything else is replaced by zeroes.
\<close>

section \<open>Slices of the output\<close>

text \<open>\<open>put_slice\<close> is \<^verbatim>\<open>buf[off..off + n].copy_from_slice(..)\<close>, \<open>put_guarded\<close> the same behind
  \<^verbatim>\<open>if off + n <= buf.len()\<close>, whose sum wraps like every \<^verbatim>\<open>usize\<close> addition of a release build.\<close>

definition put_slice :: "bytes \<Rightarrow> nat \<Rightarrow> bytes \<Rightarrow> (emit_error, bytes) outcome" where
  "put_slice buf off bs = (case splice buf off bs of Some b \<Rightarrow> Ok b | None \<Rightarrow> Panic)"

definition put_guarded :: "bytes \<Rightarrow> nat \<Rightarrow> bytes \<Rightarrow> (emit_error, bytes) outcome" where
  "put_guarded buf off bs =
     (if usize_add off (length bs) \<le> length buf then put_slice buf off bs else Ok buf)"

definition zero_section :: "bytes \<Rightarrow> u64 \<Rightarrow> u64 \<Rightarrow> bytes" where
  "zero_section buf off sz =
     (if unat off + unat sz < 2 ^ 64 \<and> unat off + unat sz \<le> length buf
      then overwrite (unat off) (replicate (unat sz) 0) buf else buf)"

definition write_bytes :: "bytes \<Rightarrow> u64 \<Rightarrow> bytes \<Rightarrow> (emit_error, bytes) outcome" where
  "write_bytes buf off data = put_guarded buf (unat off) data"

definition write_section_bytes ::
  "bytes \<Rightarrow> u64 \<Rightarrow> u64 \<Rightarrow> bytes \<Rightarrow> (emit_error, bytes) outcome" where
  "write_section_bytes buf off sz data = write_bytes (zero_section buf off sz) off data"

fun zero_gaps_from ::
  "u64 \<Rightarrow> section_contribution list \<Rightarrow> u64 \<Rightarrow> bytes \<Rightarrow> u64 \<times> bytes" where
  "zero_gaps_from section_offset [] cursor buf = (cursor, buf)"
| "zero_gaps_from section_offset (c # cs) cursor buf =
     (let start = saturating_add section_offset (con_offset c);
          buf' = (if cursor < start then zero_section buf cursor (start - cursor) else buf)
      in zero_gaps_from section_offset cs (max cursor (saturating_add start (con_size c))) buf')"

definition zero_input_gaps ::
  "bytes \<Rightarrow> u64 \<Rightarrow> u64 \<Rightarrow> section_contribution list \<Rightarrow> bytes" where
  "zero_input_gaps buf section_offset section_size cs =
     (let section_end = saturating_add section_offset section_size in
      case zero_gaps_from section_offset cs section_offset buf of
        (cursor, buf') \<Rightarrow>
          if cursor < section_end then zero_section buf' cursor (section_end - cursor) else buf')"

section \<open>Headers\<close>

definition ehdr_ident :: bytes where
  "ehdr_ident = [0x7f, 0x45, 0x4c, 0x46, 2, 1, 1, 0]"

definition ehdr_fields :: "layout \<Rightarrow> bytes" where
  "ehdr_fields ly =
     to_le 2 (ly_e_type ly) @ to_le 2 (62 :: u16) @ to_le 4 (1 :: u32) @ to_le 8 (ly_entry ly) @
     to_le 8 (ly_phoff ly) @ to_le 8 (ly_shoff ly) @ to_le 4 (0 :: u32) @ to_le 2 (64 :: u16) @
     to_le 2 (56 :: u16) @ to_le 2 (ucast (ly_phnum ly) :: u16) @ to_le 2 (64 :: u16) @
     to_le 2 (if 0xff00 \<le> ly_shnum ly then 0 else ucast (ly_shnum ly) :: u16) @
     to_le 2 (if 0xff00 \<le> ly_shstrndx ly then 0xffff else ucast (ly_shstrndx ly) :: u16)"

definition phdr_bytes :: "program_header \<Rightarrow> bytes" where
  "phdr_bytes ph =
     to_le 4 (p_type ph) @ to_le 4 (p_flags ph) @ to_le 8 (p_offset ph) @ to_le 8 (p_vaddr ph) @
     to_le 8 (p_paddr ph) @ to_le 8 (p_filesz ph) @ to_le 8 (p_memsz ph) @ to_le 8 (p_align ph)"

fun write_phdrs :: "nat \<Rightarrow> program_header list \<Rightarrow> bytes \<Rightarrow> (emit_error, bytes) outcome" where
  "write_phdrs o' [] buf = Ok buf"
| "write_phdrs o' (ph # phs) buf =
     bind_outcome (put_slice buf o' (phdr_bytes ph)) (write_phdrs (o' + 56) phs)"

definition write_headers :: "layout \<Rightarrow> bytes \<Rightarrow> (emit_error, bytes) outcome" where
  "write_headers ly buf =
     bind_outcome (put_slice buf 0 ehdr_ident) (\<lambda>b.
       bind_outcome (put_slice b 16 (ehdr_fields ly))
         (write_phdrs (unat (ly_phoff ly)) (segments ly)))"

definition shdr_bytes :: "output_section \<Rightarrow> bytes" where
  "shdr_bytes s =
     to_le 4 (os_sh_name s) @ to_le 4 (os_sh_type s) @ to_le 8 (os_sh_flags s) @
     to_le 8 (os_sh_addr s) @ to_le 8 (os_sh_offset s) @ to_le 8 (os_sh_size s) @
     to_le 4 (os_sh_link s) @ to_le 4 (os_sh_info s) @ to_le 8 (os_sh_addralign s) @
     to_le 8 (os_sh_entsize s)"

fun write_shdrs :: "nat \<Rightarrow> output_section list \<Rightarrow> bytes \<Rightarrow> (emit_error, bytes) outcome" where
  "write_shdrs shoff [] buf = Ok buf"
| "write_shdrs shoff (s # ss) buf =
     (let o' = usize_add shoff (unat (os_shndx s) * 64) in
      if length buf < usize_add o' 64 then Ok buf
      else bind_outcome (put_slice buf o' (shdr_bytes s)) (write_shdrs shoff ss))"

definition write_section_headers :: "layout \<Rightarrow> bytes \<Rightarrow> (emit_error, bytes) outcome" where
  "write_section_headers ly buf =
     (let shoff = unat (ly_shoff ly) in
      bind_outcome
        (if usize_add shoff 64 \<le> length buf \<and> 0xff00 \<le> ly_shnum ly
         then put_slice buf (shoff + 32) (to_le 8 (ly_shnum ly)) else Ok buf) (\<lambda>b.
      bind_outcome
        (if usize_add shoff 64 \<le> length b \<and> 0xff00 \<le> ly_shstrndx ly
         then put_slice b (shoff + 40) (to_le 4 (ucast (ly_shstrndx ly) :: u32)) else Ok b)
        (write_shdrs shoff (output_sections ly))))"

section \<open>Build id\<close>

definition BUILD_ID_BLOCK :: nat where
  "BUILD_ID_BLOCK = 256 * 1024"

definition write_build_id :: "bytes \<Rightarrow> u64 \<Rightarrow> (emit_error, bytes) outcome" where
  "write_build_id buf off =
     put_guarded buf (unat off)
       (to_le 4 (4 :: u32) @ to_le 4 (16 :: u32) @ to_le 4 (3 :: u32) @ [0x47, 0x4e, 0x55, 0] @
        replicate 16 0)"

definition build_id_descriptor_offset :: "layout \<Rightarrow> nat option" where
  "build_id_descriptor_offset ly =
     map_option (\<lambda>s. usize_add (unat (os_sh_offset s)) 16)
       (find (\<lambda>s. os_source s = SrcNoteBuildId) (output_sections ly))"

definition FNV_OFFSET :: u64 where "FNV_OFFSET = 0xcbf29ce484222325"
definition FNV_PRIME :: u64 where "FNV_PRIME = 0x00000100000001b3"
definition BUILD_ID_SEED2 :: u64 where "BUILD_ID_SEED2 = 0x9e3779b97f4a7c15"

definition mix1 :: "u64 \<Rightarrow> u64 \<Rightarrow> u64" where
  "mix1 h v = (h XOR v) * FNV_PRIME"

definition mix2 :: "u64 \<Rightarrow> u64 \<Rightarrow> u64" where
  "mix2 h v = ((h + v) * FNV_PRIME) XOR drop_bit 29 h"

definition block_hash :: "nat \<Rightarrow> bytes \<Rightarrow> u64 \<times> u64" where
  "block_hash idx chunk =
     fold (\<lambda>b (h1, h2). (mix1 h1 (ucast b), mix2 h2 (ucast b))) chunk
       (FNV_OFFSET XOR (of_nat idx * FNV_PRIME), BUILD_ID_SEED2 XOR of_nat idx)"

function chunks :: "nat \<Rightarrow> 'a list \<Rightarrow> 'a list list" where
  "chunks n xs = (if xs = [] \<or> n = 0 then [] else take n xs # chunks n (drop n xs))"
  by pat_completeness auto
termination by (relation "measure (\<lambda>(n, xs). length xs)") auto

declare chunks.simps [simp del]

definition build_id_hash :: "bytes \<Rightarrow> bytes" where
  "build_id_hash buf =
     (case fold (\<lambda>(b1, b2) (h1, h2). (mix1 h1 b1, mix2 h2 b2))
             (map (\<lambda>(i, c). block_hash i c) (enumerate 0 (chunks BUILD_ID_BLOCK buf)))
             (FNV_OFFSET, BUILD_ID_SEED2) of
        (h1, h2) \<Rightarrow> to_le 8 h1 @ to_le 8 h2)"

definition finalize_build_id :: "layout \<Rightarrow> bytes \<Rightarrow> (emit_error, bytes) outcome" where
  "finalize_build_id ly buf =
     (case build_id_descriptor_offset ly of
        None \<Rightarrow> Ok buf
      | Some off \<Rightarrow>
          if length buf < usize_add off 16 then Ok buf
          else bind_outcome (put_slice buf off (replicate 16 0))
                 (\<lambda>b. put_slice b off (build_id_hash b)))"

section \<open>The unwind table\<close>

definition hdr_entry :: "u64 \<Rightarrow> nat \<times> nat \<times> int \<Rightarrow> i64 \<times> i64" where
  "hdr_entry eh_va = (\<lambda>(fde_off, pcbegin_off, rel).
     (eh_va + of_nat pcbegin_off + of_int rel, eh_va + of_nat fde_off))"

definition eh_frame_hdr_bytes :: "u64 \<Rightarrow> u64 \<Rightarrow> (i64 \<times> i64) list \<Rightarrow> bytes" where
  "eh_frame_hdr_bytes hdr_va eh_va entries =
     [1, 0x1b, 0x03, 0x3b] @ to_le 4 (ucast (eh_va - (hdr_va + 4)) :: u32) @
     to_le 4 (of_nat (length entries) :: u32) @
     concat (map (\<lambda>(pc, fde). to_le 4 (ucast (pc - hdr_va) :: u32) @ to_le 4 (ucast (fde - hdr_va) :: u32))
       entries)"

definition eh_frame_hdr_of :: "layout \<Rightarrow> output_section \<Rightarrow> output_section \<Rightarrow> bytes \<Rightarrow> bytes" where
  "eh_frame_hdr_of ly hdr eh eh_bytes =
     eh_frame_hdr_bytes (os_sh_addr hdr) (os_sh_addr eh)
       (sort_key (\<lambda>(pc, fde). sint pc) (map (hdr_entry (os_sh_addr eh)) (iter_fdes eh_bytes)))"

definition write_eh_frame_hdr :: "layout \<Rightarrow> bytes \<Rightarrow> (emit_error, bytes) outcome" where
  "write_eh_frame_hdr ly buf =
     (case (find (\<lambda>s. os_source s = SrcEhFrameHdr) (output_sections ly),
            find (\<lambda>s. os_name s = ''.eh_frame'') (output_sections ly)) of
        (Some hdr, Some eh) \<Rightarrow>
          if length buf < usize_add (unat (os_sh_offset eh)) (unat (os_sh_size eh)) then Ok buf
          else (case slice (unat (os_sh_offset eh)) (unat (os_sh_size eh)) buf of
            None \<Rightarrow> Panic
          | Some eh_bytes \<Rightarrow>
              put_guarded buf (unat (os_sh_offset hdr))
                (take (unat (os_sh_size hdr)) (eh_frame_hdr_of ly hdr eh eh_bytes)))
      | _ \<Rightarrow> Ok buf)"

section \<open>Synthetic sections\<close>

fun write_got_slots ::
  "symbol_table \<Rightarrow> u64 \<Rightarrow> nat \<Rightarrow> u32 list \<Rightarrow> bytes \<Rightarrow> (emit_error, bytes) outcome" where
  "write_got_slots st off i [] buf = Ok buf"
| "write_got_slots st off i (x # xs) buf =
     (let va = (case Option.bind (name_by_id st x) (lookup st) of
                  Some r \<Rightarrow> res_virtual_address r | None \<Rightarrow> 0) in
      bind_outcome (put_guarded buf (unat (off + of_nat i * 8)) (to_le 8 va))
        (write_got_slots st off (i + 1) xs))"

definition symtab_entry_bytes :: "symbol_table \<Rightarrow> sym_entry \<Rightarrow> bytes" where
  "symtab_entry_bytes st ent =
     (case (case se_local ent of
              Some (v, sz) \<Rightarrow> (v, sz)
            | None \<Rightarrow> (case lookup st (se_name ent) of
                         Some r \<Rightarrow> (res_virtual_address r, res_size r) | None \<Rightarrow> (0, 0))) of
        (val, sz) \<Rightarrow>
          to_le 4 (se_name_off ent) @ [se_info ent, 0] @
          to_le 2 (if 0x10000 \<le> se_shndx ent then 0xffff else ucast (se_shndx ent) :: u16) @
          to_le 8 val @ to_le 8 sz)"

fun write_symtab ::
  "symbol_table \<Rightarrow> u64 \<Rightarrow> nat \<Rightarrow> sym_entry list \<Rightarrow> bytes \<Rightarrow> (emit_error, bytes) outcome" where
  "write_symtab st base i [] buf = Ok buf"
| "write_symtab st base i (ent # ents) buf =
     (let off = unat (base + of_nat (i + 1) * 24) in
      if length buf < usize_add off 24 then Ok buf
      else bind_outcome (put_slice buf off (symtab_entry_bytes st ent))
             (write_symtab st base (i + 1) ents))"

definition write_synthetic ::
  "symbol_table \<Rightarrow> layout \<Rightarrow> write_filter \<Rightarrow> output_section \<Rightarrow> bytes \<Rightarrow> (emit_error, bytes) outcome" where
  "write_synthetic st ly flt sec buf =
     (let off = os_sh_offset sec; sz = os_sh_size sec; db = ly_dyn ly;
          blob = (\<lambda>bs. write_section_bytes buf off sz bs) in
      case os_source sec of
        SrcInput \<Rightarrow>
          if zeroes_gaps flt (os_name sec)
          then Ok (zero_input_gaps buf off sz (os_contributions sec)) else Ok buf
      | SrcBss \<Rightarrow> Ok buf
      | SrcGot \<Rightarrow> write_got_slots st off 0 (got_slots ly) (zero_section buf off sz)
      | SrcSymTab \<Rightarrow> write_symtab st off 0 (ly_symtab ly) (zero_section buf off sz)
      | SrcSymTabShndx \<Rightarrow> blob (ly_symtab_shndx ly)
      | SrcStrTab \<Rightarrow> blob (ly_strtab ly)
      | SrcShStrTab \<Rightarrow> blob (ly_shstrtab ly)
      | SrcNoteBuildId \<Rightarrow> write_build_id (zero_section buf off sz) off
      | SrcNoteGnuProperty \<Rightarrow> blob (gnu_property_note ly)
      | SrcInterp \<Rightarrow> blob (db_interp db)
      | SrcHash \<Rightarrow> blob (db_hash db)
      | SrcDynSym \<Rightarrow> blob (db_dynsym db)
      | SrcDynStr \<Rightarrow> blob (db_dynstr db)
      | SrcRelaDyn \<Rightarrow> blob (db_rela_dyn db)
      | SrcGnuVersion \<Rightarrow> blob (db_gnu_version db)
      | SrcGnuVersionR \<Rightarrow> blob (db_gnu_version_r db)
      | SrcEhFrameHdr \<Rightarrow> Ok (zero_section buf off sz)
      | SrcGnuHash \<Rightarrow> blob (db_gnu_hash db)
      | SrcDynamic \<Rightarrow> blob (db_dynamic db)
      | SrcPlt \<Rightarrow> blob (db_plt db)
      | SrcGotPlt \<Rightarrow> blob (db_got_plt db)
      | SrcRelaPlt \<Rightarrow> blob (db_rela_plt db)
      | SrcRelaEmit i \<Rightarrow> (case get (emit_relocs ly) i of Some bs \<Rightarrow> blob bs | None \<Rightarrow> Ok buf))"

fun write_synthetics ::
  "symbol_table \<Rightarrow> layout \<Rightarrow> write_filter \<Rightarrow> output_section list \<Rightarrow> bytes \<Rightarrow> (emit_error, bytes) outcome" where
  "write_synthetics st ly flt [] buf = Ok buf"
| "write_synthetics st ly flt (s # ss) buf =
     bind_outcome (write_synthetic st ly flt s buf) (write_synthetics st ly flt ss)"

definition write_section_data ::
  "input_arena \<Rightarrow> input_object list \<Rightarrow> symbol_table \<Rightarrow> layout \<Rightarrow> write_filter \<Rightarrow> (nat \<times> nat) list \<Rightarrow> bytes \<Rightarrow>
     (emit_error, bytes) outcome" where
  "write_section_data arena objs st ly flt sched buf =
     bind_outcome
       (if is_minimal flt then Ok buf else write_synthetics st ly flt (output_sections ly) buf)
       (copy_input_sections arena objs st ly flt sched)"

fun write_tls_slots ::
  "output_section \<Rightarrow> (u64 \<times> u64) list \<Rightarrow> bytes \<Rightarrow> (emit_error, bytes) outcome" where
  "write_tls_slots got [] buf = Ok buf"
| "write_tls_slots got ((va, v) # ws) buf =
     (let lo = os_sh_addr got; hi = os_sh_addr got + os_sh_size got in
      if va < lo \<or> hi < va + 8 then write_tls_slots got ws buf
      else bind_outcome (put_guarded buf (unat (os_sh_offset got + (va - lo))) (to_le 8 v))
             (write_tls_slots got ws))"

definition write_tls_got :: "layout \<Rightarrow> bytes \<Rightarrow> (emit_error, bytes) outcome" where
  "write_tls_got ly buf =
     (if tls_got_writes ly = [] then Ok buf
      else case find (\<lambda>s. os_source s = SrcGot) (output_sections ly) of
        None \<Rightarrow> Ok buf
      | Some got \<Rightarrow> write_tls_slots got (tls_got_writes ly) buf)"

section \<open>Emitting\<close>

definition open_output_map :: "bytes option \<Rightarrow> nat \<Rightarrow> bytes" where
  "open_output_map existing n =
     (case existing of
        Some b \<Rightarrow> if length b = n then b else replicate n 0
      | None \<Rightarrow> replicate n 0)"

text \<open>\<^verbatim>\<open>emit_with_filter\<close>; the result \<open>None\<close> asks the caller to fall back to a full emit.\<close>

definition emit_with_filter ::
  "bytes option \<Rightarrow> input_arena \<Rightarrow> input_object list \<Rightarrow> symbol_table \<Rightarrow> layout \<Rightarrow> write_filter \<Rightarrow>
     (nat \<times> nat) list \<Rightarrow> bool \<Rightarrow> (emit_error, bytes option) outcome" where
  "emit_with_filter existing arena objs st ly flt sched require_existing =
     (let n = unat (ly_file_size ly);
          can_overwrite = (case existing of Some b \<Rightarrow> length b = n | None \<Rightarrow> False) in
      if require_existing \<and> \<not> can_overwrite then Ok None
      else
        (let minimal = is_minimal flt in
         bind_outcome (if minimal then Ok (open_output_map existing n)
                       else write_headers ly (open_output_map existing n)) (\<lambda>b1.
         bind_outcome (write_section_data arena objs st ly flt sched b1) (\<lambda>b2.
         bind_outcome (if minimal then Ok b2 else write_tls_got ly b2) (\<lambda>b3.
         bind_outcome (write_eh_frame_hdr ly b3) (\<lambda>b4.
         bind_outcome (if minimal then Ok b4 else write_section_headers ly b4) (\<lambda>b5.
         bind_outcome (finalize_build_id ly b5) (\<lambda>b6. Ok (Some b6)))))))))"

definition emit_full ::
  "bytes option \<Rightarrow> input_arena \<Rightarrow> input_object list \<Rightarrow> symbol_table \<Rightarrow> layout \<Rightarrow> (nat \<times> nat) list \<Rightarrow>
     (emit_error, bytes option) outcome" where
  "emit_full existing arena objs st ly sched =
     emit_with_filter existing arena objs st ly WriteAll sched False"

definition emit_partial ::
  "bytes option \<Rightarrow> input_arena \<Rightarrow> input_object list \<Rightarrow> symbol_table \<Rightarrow> layout \<Rightarrow> name set \<Rightarrow>
     (nat \<times> nat) list \<Rightarrow> (emit_error, bytes option) outcome" where
  "emit_partial existing arena objs st ly red sched =
     emit_with_filter existing arena objs st ly (RedOnly red) sched True"

definition emit_partial_objects ::
  "bytes option \<Rightarrow> input_arena \<Rightarrow> input_object list \<Rightarrow> symbol_table \<Rightarrow> layout \<Rightarrow> nat set \<Rightarrow>
     (nat \<times> nat) list \<Rightarrow> (emit_error, bytes option) outcome" where
  "emit_partial_objects existing arena objs st ly changed sched =
     emit_with_filter existing arena objs st ly (ChangedObjects changed) sched True"

end
