(* ===== verification/Relink.thy ===== *)
theory Relink
  imports Link_Cache Layout_Fingerprint Emit_Image Resolver
begin

text \<open>
  How a relink uses the cache, \<^verbatim>\<open>peony/src/main.rs\<close>: the section and symbol records a link leaves, the plan that patches
  red sections, the reuse of a cached layout, and the path that parses only the changed objects.  The layout codec is a
  parameter (\<^verbatim>\<open>serialize_layout\<close>, \<^verbatim>\<open>deserialize_layout\<close> are third-party encodings of the record); the cache report
  and the trace output are left out.

  \<open>green_sections_sound\<close> states what the red/green plan guarantees for a section it leaves alone.  Its condition on the
  symbol, an id below the number of symbols, is the code's limit: \<open>idless_not_recorded\<close> and \<open>moves_ignore_plt\<close> show that
  a move of a symbol without an id (the linker-provided ones) or of a PLT stub goes unnoticed.
\<close>

section \<open>Records of a link\<close>

definition patchable :: "output_section \<Rightarrow> bool" where
  "patchable sec \<longleftrightarrow> \<not> (os_sh_type sec = SHT_NOBITS \<or> os_sh_flags sec AND SHF_ALLOC = 0)"

definition section_records :: "layout \<Rightarrow> section_record list" where
  "section_records ly =
     map (\<lambda>sec. \<lparr>sr_name = os_name sec, sr_fingerprint = \<lparr>cfp_len = 0, cfp_hash = 0\<rparr>, sr_file_offset = os_sh_offset sec,
                 sr_size = os_sh_size sec, sr_capacity = os_sh_size sec, sr_virtual_address = os_sh_addr sec\<rparr>)
       (filter patchable (output_sections ly))"

definition symbol_records :: "symbol_table \<Rightarrow> cached_symbol_entry list" where
  "symbol_records st =
     map (\<lambda>(n, r). \<lparr>cs_name = n, cs_virtual_address = res_virtual_address r, cs_got_address = res_got_address r,
                    cs_plt_address = res_plt_address r, cs_size = res_size r\<rparr>)
       (filter (\<lambda>(n, r). res_id r \<noteq> - 1) (resolutions st))"

definition build_cached_symbol_view :: "cached_symbol_entry list \<Rightarrow> symbol_table" where
  "build_cached_symbol_view entries =
     fold (\<lambda>e. insert_cached (cs_name e)
        (cached_defined (cs_virtual_address e) (cs_got_address e) (cs_plt_address e) (cs_size e)))
       entries symbol_table_new"

section \<open>The red/green plan of a relink\<close>

definition object_from_changed_input :: "string \<Rightarrow> string set \<Rightarrow> bool" where
  "object_from_changed_input p changed \<longleftrightarrow>
     (\<exists>i \<in> changed. p = i \<or> (starts_with p i \<and> starts_with (drop (length i) p) ''(''))"

definition section_input_changed :: "input_object list \<Rightarrow> string set \<Rightarrow> output_section \<Rightarrow> bool" where
  "section_input_changed objs changed sec \<longleftrightarrow>
     (case os_source sec of
        SrcInput \<Rightarrow> list_ex (\<lambda>c. case get objs (con_object_id c) of
            Some obj \<Rightarrow> object_from_changed_input (path obj) changed | None \<Rightarrow> False) (os_contributions sec)
      | _ \<Rightarrow> True)"

definition patch_section_records :: "layout \<Rightarrow> input_object list \<Rightarrow> string list \<Rightarrow> patch_section_record list" where
  "patch_section_records ly objs changed =
     map (\<lambda>sec. \<lparr>ps_name = os_name sec, ps_file_offset = os_sh_offset sec, ps_size = os_sh_size sec,
                 ps_virtual_address = os_sh_addr sec, ps_input_changed = section_input_changed objs (set changed) sec\<rparr>)
       (filter patchable (output_sections ly))"

definition moved_symbol_ids :: "cached_symbol_entry list \<Rightarrow> symbol_table \<Rightarrow> u32 list" where
  "moved_symbol_ids cached st =
     List.map_filter (\<lambda>e. case lookup st (cs_name e) of
         None \<Rightarrow> None
       | Some r \<Rightarrow> if res_virtual_address r \<noteq> cs_virtual_address e \<or> res_got_address r \<noteq> cs_got_address e
                   then Some (res_id r) else None) cached"

text \<open>The relocations of the input sections in layout order: the output section each lies in, and the id of the global
  symbol it refers to.\<close>

definition reloc_target_id :: "symbol_table \<Rightarrow> input_object \<Rightarrow> input_reloc \<Rightarrow> u32 option" where
  "reloc_target_id st obj rel =
     (case symbol_by_index obj (r_symbol rel) of
        None \<Rightarrow> None
      | Some s \<Rightarrow> if sym_binding s = Local then None else map_option res_id (lookup st (sym_name s)))"

definition contribution_section :: "input_object list \<Rightarrow> section_contribution \<Rightarrow> (input_object \<times> input_section) option" where
  "contribution_section objs c =
     (case get objs (con_object_id c) of
        None \<Rightarrow> None
      | Some obj \<Rightarrow> map_option (Pair obj) (get (sections obj) (con_section_pos c)))"

definition contribution_sites :: "input_object list \<Rightarrow> symbol_table \<Rightarrow> name \<Rightarrow> section_contribution \<Rightarrow> (string \<times> u32 option) list" where
  "contribution_sites objs st n c =
     (case contribution_section objs c of
        None \<Rightarrow> []
      | Some (obj, isec) \<Rightarrow> map (\<lambda>rel. (n, reloc_target_id st obj rel)) (sec_relocs isec))"

definition reloc_sites :: "input_object list \<Rightarrow> symbol_table \<Rightarrow> layout \<Rightarrow> (string \<times> u32 option) list" where
  "reloc_sites objs st ly =
     concat (map (\<lambda>sec. concat (map (contribution_sites objs st (os_name sec)) (os_contributions sec)))
       (filter (\<lambda>sec. os_source sec = SrcInput) (output_sections ly)))"

definition reloc_count :: "input_object list \<Rightarrow> layout \<Rightarrow> nat" where
  "reloc_count objs ly =
     sum_list (map (\<lambda>(obj, isec). length (sec_relocs isec))
       (List.map_filter (contribution_section objs)
         (concat (map os_contributions (filter (\<lambda>sec. os_source sec = SrcInput) (output_sections ly))))))"

definition index_jobs :: "(string \<times> u32 option) list \<Rightarrow> (u32 \<times> u32) list" where
  "index_jobs sites = List.map_filter (\<lambda>(i, (n, t)). map_option (\<lambda>s. (s, of_nat i)) t) (enumerate 0 sites)"

definition relocation_reverse_index ::
  "input_object list \<Rightarrow> symbol_table \<Rightarrow> layout \<Rightarrow> reloc_reverse_index \<times> string list" where
  "relocation_reverse_index objs st ly =
     (let sites = reloc_sites objs st ly in
      (fold (\<lambda>(s, r). index_insert_reloc s r) (index_jobs sites)
         (index_new (length (resolutions st)) (reloc_count objs ly)), map fst sites))"

datatype incremental_emit_plan = Disabled | CacheUnavailable | Fallback partial_relink_fallback | Patch partial_relink_plan

definition incremental_emit_plan ::
  "cache_env \<Rightarrow> cache_fs \<Rightarrow> string \<Rightarrow> string list \<Rightarrow> u64 \<Rightarrow> input_object list \<Rightarrow> symbol_table \<Rightarrow> layout \<Rightarrow> bool \<Rightarrow>
   (cache_error, incremental_emit_plan) outcome option" where
  "incremental_emit_plan env fs output inputs args_hash objs st ly layout_reused =
     (case load_changed_state env fs output inputs args_hash of
        Err e \<Rightarrow> Some (Err e)
      | Panic \<Rightarrow> Some Panic
      | Ok None \<Rightarrow> Some (Ok CacheUnavailable)
      | Ok (Some cached) \<Rightarrow>
          (let patch = patch_section_records ly objs (cl_changed_inputs cached);
               (moved, ix, secs) =
                 (if layout_reused then ([], index_new 0 0, [])
                  else (moved_symbol_ids (cl_symbols cached) st, relocation_reverse_index objs st ly))
           in map_option (\<lambda>x. case x of Ok pl \<Rightarrow> Ok (Patch pl) | Err e \<Rightarrow> Ok (Fallback e) | Panic \<Rightarrow> Panic)
                (plan_partial_relink cached patch moved ix secs)))"

section \<open>Layout reuse\<close>

record layout_codec =
  lc_serialize :: "layout \<Rightarrow> bytes"
  lc_deserialize :: "bytes \<Rightarrow> layout option"

text \<open>Objects that changed, by position; \<open>None\<close> where a changed input is not one of them.\<close>

fun changed_positions :: "string list \<Rightarrow> string list \<Rightarrow> nat list option" where
  "changed_positions paths [] = Some []"
| "changed_positions paths (c # cs) =
     (case position (\<lambda>p. p = c) paths of
        None \<Rightarrow> None | Some i \<Rightarrow> map_option (Cons i) (changed_positions paths cs))"


definition try_reuse_layout ::
  "cache_env \<Rightarrow> layout_codec \<Rightarrow> cache_fs \<Rightarrow> string \<Rightarrow> string list \<Rightarrow> u64 \<Rightarrow> bool \<Rightarrow> input_arena \<Rightarrow> input_object list \<Rightarrow>
   symbol_table \<Rightarrow> u32 list \<Rightarrow> u32 list \<Rightarrow> section_filter \<Rightarrow> layout_config \<Rightarrow> tls_got_info \<Rightarrow>
   (sec_key \<times> sec_key) list option \<Rightarrow> (cache_error, (layout \<times> front_end_snapshot \<times> nat set) option) outcome" where
  "try_reuse_layout env codec fs output inputs args_hash eligible arena objs st got_syms plt_syms live config tls fold_map =
     (if \<not> eligible then Ok None
      else case load_changed_state env fs output inputs args_hash of
        Ok (Some cached) \<Rightarrow>
          (case cl_front_end cached of
             None \<Rightarrow> Ok None
           | Some snap \<Rightarrow>
               if fe_object_paths snap \<noteq> map path objs then Ok None
               else case changed_positions (map path objs) (cl_changed_inputs cached) of
                 None \<Rightarrow> Ok None
               | Some changed \<Rightarrow>
                   (case compute_layout_fingerprint arena objs st got_syms plt_syms live config tls fold_map
                           (set changed) (Some (fe_object_digests snap)) of
                      None \<Rightarrow> Panic
                    | Some fp \<Rightarrow>
                        if lf_drivers_hash fp \<noteq> fe_drivers_hash snap then Ok None
                        else case read_layout_blob fs output of
                          Ok (Some blob) \<Rightarrow>
                            if blob_hash blob \<noteq> fe_blob_hash snap then Ok None
                            else (case lc_deserialize codec blob of
                                    None \<Rightarrow> Ok None
                                  | Some ly \<Rightarrow> Ok (Some (ly, snap, set changed)))
                        | _ \<Rightarrow> Ok None))
      | _ \<Rightarrow> Ok None)"

definition build_front_end_snapshot ::
  "layout_codec \<Rightarrow> bool \<Rightarrow> input_arena \<Rightarrow> input_object list \<Rightarrow> symbol_table \<Rightarrow> u32 list \<Rightarrow> u32 list \<Rightarrow> section_filter \<Rightarrow>
   layout_config \<Rightarrow> tls_got_info \<Rightarrow> (sec_key \<times> sec_key) list option \<Rightarrow> front_end_snapshot option \<Rightarrow> layout \<Rightarrow>
   (cache_error, front_end_snapshot option \<times> bytes option) outcome" where
  "build_front_end_snapshot codec eligible arena objs st got_syms plt_syms live config tls fold_map reused ly =
     (if \<not> eligible then Ok (None, None)
      else case reused of
        Some snap \<Rightarrow> Ok (Some snap, None)
      | None \<Rightarrow>
          (case compute_layout_fingerprint arena objs st got_syms plt_syms live config tls fold_map {} None of
             None \<Rightarrow> Panic
           | Some fp \<Rightarrow>
               (let blob = lc_serialize codec ly in
                Ok (Some \<lparr>fe_drivers_hash = lf_drivers_hash fp, fe_blob_hash = blob_hash blob,
                          fe_object_digests = lf_object_digests fp, fe_object_paths = map path objs\<rparr>, Some blob))))"

section \<open>Parsing only what changed\<close>

definition reloc_apply_simple :: "u32 \<Rightarrow> bool" where
  "reloc_apply_simple t \<longleftrightarrow> t \<in> {2, 4, 3, 9, 41, 42, 13, 15, 24, 25, 26}"

definition empty_object :: "string \<Rightarrow> input_object" where
  "empty_object p = \<lparr>path = p, sections = [], symbols = [], section_map = index_default, symbol_map = index_default, comdat_groups = []\<rparr>"

definition reloc_reappliable :: "symbol_table \<Rightarrow> input_object \<Rightarrow> input_reloc \<Rightarrow> bool" where
  "reloc_reappliable st obj rel \<longleftrightarrow>
     reloc_apply_simple (r_type rel) \<and>
     (case symbol_by_index obj (r_symbol rel) of
        Some s \<Rightarrow> \<not> (sym_binding s \<noteq> Local \<and> sym_name s \<noteq> [] \<and> lookup st (sym_name s) = None)
      | None \<Rightarrow> True)"

fun parse_changed ::
  "link_world \<Rightarrow> symbol_table \<Rightarrow> string list \<Rightarrow> u64 list \<Rightarrow> nat list \<Rightarrow> input_arena \<Rightarrow>
   (emit_error, (input_arena \<times> (nat \<times> input_object) list) option) outcome" where
  "parse_changed w st paths digests [] arena = Ok (Some (arena, []))"
| "parse_changed w st paths digests (i # is) arena =
     (case get paths i of
        None \<Rightarrow> Ok None
      | Some p \<Rightarrow>
          (case parse_object w p arena of
             Err _ \<Rightarrow> Ok None
           | Panic \<Rightarrow> Panic
           | Ok (arena1, obj) \<Rightarrow>
               (case object_reuse_digest arena1 obj i of
                  None \<Rightarrow> Panic
                | Some d \<Rightarrow>
                    if d \<noteq> (case get digests i of Some x \<Rightarrow> x | None \<Rightarrow> - 1) then Ok None
                    else if \<not> list_all (\<lambda>sec. list_all (reloc_reappliable st obj) (sec_relocs sec)) (sections obj) then Ok None
                    else bind_outcome (parse_changed w st paths digests is arena1) (\<lambda>rest.
                           Ok (map_option (\<lambda>(a, xs). (a, (i, obj) # xs)) rest)))))"

definition emit_parse_only_changed ::
  "link_world \<Rightarrow> bytes option \<Rightarrow> layout \<Rightarrow> symbol_table \<Rightarrow> string list \<Rightarrow> u64 list \<Rightarrow> nat list \<Rightarrow> (nat \<times> nat) list \<Rightarrow>
   (emit_error, (nat set \<times> bytes) option) outcome" where
  "emit_parse_only_changed w existing ly st paths digests changed_ids sched =
     bind_outcome (parse_changed w st paths digests changed_ids arena_new) (\<lambda>parsed.
       case parsed of
         None \<Rightarrow> Ok None
       | Some (arena, xs) \<Rightarrow>
           (let objs = fold (\<lambda>(i, obj) os. os[i := obj]) xs (map empty_object paths); changed = set (map fst xs)
            in bind_outcome (emit_partial_objects existing arena objs st ly changed sched) (\<lambda>out.
                 Ok (map_option (Pair changed) out))))"

definition patch_sections_for_changed :: "layout \<Rightarrow> nat set \<Rightarrow> patch_section_record list" where
  "patch_sections_for_changed ly changed =
     map (\<lambda>sec. \<lparr>ps_name = os_name sec, ps_file_offset = os_sh_offset sec, ps_size = os_sh_size sec,
                 ps_virtual_address = os_sh_addr sec,
                 ps_input_changed = (os_source sec = SrcInput \<and>
                   list_ex (\<lambda>c. con_object_id c \<in> changed) (os_contributions sec))\<rparr>)
       (filter patchable (output_sections ly))"

datatype relink_error = RelinkCache cache_error | RelinkEmit emit_error

text \<open>The output before and after an emission in place.\<close>

definition output_bytes :: "cache_fs \<Rightarrow> string \<Rightarrow> bytes option" where
  "output_bytes fs output = map_option cf_data (fs output)"

definition put_output :: "cache_env \<Rightarrow> string \<Rightarrow> bytes \<Rightarrow> cache_fs \<Rightarrow> cache_fs" where
  "put_output env output b fs = fs(output \<mapsto> \<lparr>cf_data = b, cf_readable = True, cf_stat = ce_stamp env output b\<rparr>)"

definition try_parse_only_changed ::
  "cache_env \<Rightarrow> layout_codec \<Rightarrow> link_world \<Rightarrow> string \<Rightarrow> string list \<Rightarrow> u64 \<Rightarrow> (nat \<times> nat) list \<Rightarrow> cache_fs \<Rightarrow>
   (relink_error, bool \<times> cache_fs) outcome" where
  "try_parse_only_changed env codec w output inputs args_hash sched fs =
     bind_outcome (map_err RelinkCache (load_changed_state env fs output inputs args_hash)) (\<lambda>state.
       case state of
         None \<Rightarrow> Ok (False, fs)
       | Some cached \<Rightarrow>
           (case cl_front_end cached of
              None \<Rightarrow> Ok (False, fs)
            | Some snap \<Rightarrow>
                if cl_changed_inputs cached = [] then Ok (False, fs)
                else case changed_positions (fe_object_paths snap) (cl_changed_inputs cached) of
                  None \<Rightarrow> Ok (False, fs)
                | Some ids \<Rightarrow>
                    bind_outcome (map_err RelinkCache (read_layout_blob fs output)) (\<lambda>blob.
                      case blob of
                        None \<Rightarrow> Ok (False, fs)
                      | Some b \<Rightarrow>
                          if blob_hash b \<noteq> fe_blob_hash snap then Ok (False, fs)
                          else (case lc_deserialize codec b of
                                  None \<Rightarrow> Ok (False, fs)
                                | Some ly \<Rightarrow>
                                    bind_outcome (map_err RelinkEmit (emit_parse_only_changed w (output_bytes fs output) ly
                                        (build_cached_symbol_view (cl_symbols cached)) (fe_object_paths snap)
                                        (fe_object_digests snap) ids sched)) (\<lambda>emitted.
                                      case emitted of
                                        None \<Rightarrow> Ok (False, fs)
                                      | Some (changed, out) \<Rightarrow>
                                          bind_outcome (map_err RelinkCache (record_link_with_sections env output inputs args_hash
                                              (section_records ly) (cl_symbols cached) (cl_front_end cached) None
                                              (put_output env output out fs))) (\<lambda>fs'. Ok (True, fs')))))))"

section \<open>Green sections\<close>

lemma sum_list_lengths: "length (concat (map f xs)) = sum_list (map (\<lambda>x. length (f x)) xs)"
  by (induction xs) auto

lemma map_filter_append_sites: "List.map_filter f (xs @ ys) = List.map_filter f xs @ List.map_filter f ys"
  by (simp add: List.map_filter_def)

lemma reloc_count_sites: "reloc_count objs ly = length (reloc_sites objs st ly)"
proof -
  have 1: "sum_list (map (\<lambda>(obj, isec). length (sec_relocs isec)) (List.map_filter (contribution_section objs) cs))
      = length (concat (map (contribution_sites objs st n) cs))" for cs n
    by (induction cs) (auto simp: List.map_filter_simps contribution_sites_def split: option.split prod.split)
  have 2: "sum_list (map (\<lambda>(obj, isec). length (sec_relocs isec)) (List.map_filter (contribution_section objs) (concat (map os_contributions secs))))
      = length (concat (map (\<lambda>sec. concat (map (contribution_sites objs st (os_name sec)) (os_contributions sec))) secs))" for secs
    by (induction secs) (simp_all add: map_filter_append_sites 1)
  show ?thesis unfolding reloc_count_def reloc_sites_def by (rule 2)
qed

text \<open>One thread alone runs the insertions in order.\<close>

lemma run_alone:
  "reachable st (ix, [Ready js]) \<Longrightarrow> reachable st (fold (\<lambda>(s, r). index_insert_reloc s r) js ix, [Ready []])"
proof (induction js arbitrary: ix)
  case (Cons j js)
  obtain s r where j: "j = (s, r)" by force
  show ?case
  proof (cases "in_index ix j")
    case False
    have "insert_step (ix, [Ready (j # js)]) (ix, [Ready js])"
      using insert_step.skip [of 0 "[Ready (j # js)]" j js ix] False by simp
    then show ?thesis using Cons.IH [OF reachable.more [OF Cons.prems]] False by (simp add: j index_insert_reloc_def)
  next
    case True
    let ?h = "heads ix ! unat s" and ?ix = "ix\<lparr>nexts := (nexts ix)[unat r := heads ix ! unat s]\<rparr>"
    have "insert_step (ix, [Ready (j # js)]) (ix, [Loaded ?h (j # js)])"
      using insert_step.load [of 0 "[Ready (j # js)]" j js ix] True by (simp add: j)
    moreover have "insert_step (ix, [Loaded ?h (j # js)]) (?ix, [Linked ?h (j # js)])"
      using insert_step.store [of 0 "[Loaded ?h (j # js)]" ?h j js ix] by (simp add: j)
    moreover have "insert_step (?ix, [Linked ?h (j # js)]) (?ix\<lparr>heads := (heads ix)[unat s := r]\<rparr>, [Ready js])"
      using insert_step.exchange [of 0 "[Linked ?h (j # js)]" ?h j js ?ix] by (simp add: j)
    ultimately have "reachable st (?ix\<lparr>heads := (heads ix)[unat s := r]\<rparr>, [Ready js])"
      using Cons.prems reachable.more by blast
    then show ?thesis using Cons.IH True by (simp add: j index_insert_reloc_def)
  qed
qed simp


text \<open>The index of a link holds, for every symbol id in range, exactly the relocations of that symbol.\<close>

lemma index_jobs_set:
  "(s, r) \<in> set (index_jobs sites) \<longleftrightarrow> (\<exists>i < length sites. snd (sites ! i) = Some s \<and> r = of_nat i)"
  by (auto simp: index_jobs_def in_map_filter Bex_def in_set_enumerate_eq split_beta)

lemma index_jobs_ids: "map snd (index_jobs sites) = map of_nat (filter (\<lambda>i. snd (sites ! i) \<noteq> None) [0..<length sites])"
proof -
  have e: "enumerate 0 sites = map (\<lambda>i. (i, sites ! i)) [0..<length sites]" by (auto simp: enumerate_eq_zip intro: nth_equalityI)
  have "map snd (List.map_filter (\<lambda>(i, (n, t)). map_option (\<lambda>s. (s, of_nat i)) t) (map (\<lambda>i. (i, sites ! i)) is))
      = map of_nat (filter (\<lambda>i. snd (sites ! i) \<noteq> None) is)" for "is"
    by (induction "is") (auto simp: List.map_filter_simps split: option.split prod.split)
  then show ?thesis by (simp only: index_jobs_def e)
qed

lemma distinct_index_jobs:
  assumes "length sites < 2 ^ 32" shows "distinct (map snd (index_jobs sites))"
proof -
  have "inj_on (of_nat :: nat \<Rightarrow> u32) {0..<length sites}"
  proof (rule inj_onI)
    fix a b assume "a \<in> {0..<length sites}" "b \<in> {0..<length sites}" "of_nat a = (of_nat b :: u32)"
    then have "unat (of_nat a :: u32) = unat (of_nat b :: u32)" "a < 2 ^ 32" "b < 2 ^ 32" using assms by simp_all
    then show "a = b" by (simp add: unat_of_nat)
  qed
  then show ?thesis
    unfolding index_jobs_ids distinct_map by (auto intro: inj_on_subset)
qed

lemma built_index:
  assumes "length (reloc_sites objs st ly) < 2 ^ 32" "relocation_reverse_index objs st ly = (ix, secs)"
  shows "secs = map fst (reloc_sites objs st ly)"
    "unat s < length (resolutions st) \<Longrightarrow> \<exists>rs. iter_relocs ix s = Some rs \<and>
       (\<forall>i < length (reloc_sites objs st ly). snd (reloc_sites objs st ly ! i) = Some s \<longrightarrow> of_nat i \<in> set rs)"
    "\<not> unat s < length (resolutions st) \<Longrightarrow> iter_relocs ix s = Some []"
proof -
  let ?sites = "reloc_sites objs st ly" and ?n = "length (resolutions st)"
  let ?jobs = "index_jobs ?sites" and ?m = "length (reloc_sites objs st ly)"
  have ix: "ix = fold (\<lambda>(s, r). index_insert_reloc s r) ?jobs (index_new ?n ?m)" and sec: "secs = map fst ?sites"
    using assms(2) by (auto simp: relocation_reverse_index_def Let_def reloc_count_sites [of objs ly st])
  show "secs = map fst ?sites" by (rule sec)
  have "reachable (index_new ?n ?m, [Ready ?jobs]) (ix, [Ready []])"
    unfolding ix by (rule run_alone [OF reachable.here])
  from reachable_inv [OF this inv_start [of ?n ?m "[?jobs]", simplified] _ assms(1)]
  have inv: "inv ?n ?m (mset ?jobs) (ix, [Ready []])"
    using unique_relocs_mset [OF distinct_index_jobs [OF assms(1)]] by (simp add: pending_def)
  show "\<exists>rs. iter_relocs ix s = Some rs \<and> (\<forall>i < ?m. snd (?sites ! i) = Some s \<longrightarrow> of_nat i \<in> set rs)"
    if s: "unat s < ?n"
  proof -
    obtain rs where rs: "iter_relocs ix s = Some rs" "mset rs = relocs_of s (filter_mset (in_range ?n ?m) (mset ?jobs))"
      using index_after [OF inv _ s] by (auto simp: pending_def)
    have "of_nat i \<in> set rs" if i: "i < ?m" "snd (?sites ! i) = Some s" for i
    proof -
      have "(s, of_nat i) \<in> set ?jobs" using i by (auto simp: index_jobs_set)
      moreover have "in_range ?n ?m (s, of_nat i)" using s i(1) assms(1) by (simp add: in_range_def unat_of_nat)
      ultimately have "of_nat i \<in># relocs_of s (filter_mset (in_range ?n ?m) (mset ?jobs))" by (force simp: relocs_of_def)
      then show ?thesis using rs(2) by (metis set_mset_mset)
    qed
    then show ?thesis using rs(1) by blast
  qed
  show "iter_relocs ix s = Some []" if "\<not> unat s < ?n"
    using that inv by (simp add: inv_def iter_relocs_def get_def chain_iter.simps)
qed

lemma moved_symbol_ids_mem:
  "e \<in> set cached \<Longrightarrow> lookup st (cs_name e) = Some r \<Longrightarrow>
     res_virtual_address r \<noteq> cs_virtual_address e \<or> res_got_address r \<noteq> cs_got_address e \<Longrightarrow>
     res_id r \<in> set (moved_symbol_ids cached st)"
  by (force simp: moved_symbol_ids_def in_map_filter)

lemma reloc_site_in_list:
  assumes "sec \<in> set (output_sections ly)" "os_source sec = SrcInput" "c \<in> set (os_contributions sec)"
    "contribution_section objs c = Some (obj, isec)" "rel \<in> set (sec_relocs isec)"
  shows "(os_name sec, reloc_target_id st obj rel) \<in> set (reloc_sites objs st ly)"
  using assms by (force simp: reloc_sites_def contribution_sites_def)

lemma incremental_plan_parts:
  assumes "incremental_emit_plan env fs output inputs args objs st ly False = Some (Ok (Patch pl))"
  obtains cached ix secs m where "load_changed_state env fs output inputs args = Ok (Some cached)"
    "relocation_reverse_index objs st ly = (ix, secs)"
    "moved_reloc_sections (moved_symbol_ids (cl_symbols cached) st) ix secs = Some m"
    "plan_patches (previous_sections cached) m (patch_section_records ly objs (cl_changed_inputs cached))
       \<lparr>pl_colors = Map.empty, pl_red = {}, pl_green = {}\<rparr> = Ok pl"
proof -
  obtain cached where c: "load_changed_state env fs output inputs args = Ok (Some cached)"
    using assms by (auto simp: incremental_emit_plan_def split: outcome.splits option.splits)
  obtain ix secs where i: "relocation_reverse_index objs st ly = (ix, secs)" by force
  obtain z where z: "plan_partial_relink cached (patch_section_records ly objs (cl_changed_inputs cached))
      (moved_symbol_ids (cl_symbols cached) st) ix secs = Some z"
    "(case z of Ok pl \<Rightarrow> Ok (Patch pl) | Err e \<Rightarrow> Ok (Fallback e) | Panic \<Rightarrow> Panic) = (Ok (Patch pl) :: (cache_error, _) outcome)"
    using assms c i by (auto simp: incremental_emit_plan_def)
  then have "z = Ok pl" by (cases z) auto
  then show thesis
    using c i that z(1) by (auto simp: plan_partial_relink_def split: if_splits Option.bind_splits)
qed

text \<open>C11: What holds of a section the plan leaves alone.  In a relink without layout reuse, with
  fewer than 2^32 relocation sites, whose plan is accepted: every file-backed output section of input bytes that is not
  red lies where the last link put it with the same size, takes no bytes from an input that changed, and has no
  relocation to a recorded non-local symbol with an id in the index whose address or GOT slot differs from the recorded
  one.  Local symbols, symbols without an id in the index and PLT stubs that moved do not make a section red
  (\<open>moves_ignore_plt\<close>, \<open>idless_not_recorded\<close>) and are not covered.\<close>

theorem green_sections_sound:
  assumes plan: "incremental_emit_plan env fs output inputs args objs st ly False = Some (Ok (Patch pl))"
    and state: "load_changed_state env fs output inputs args = Ok (Some cached)"
    and small: "length (reloc_sites objs st ly) < 2 ^ 32"
    and sec: "sec \<in> set (output_sections ly)" "patchable sec" "os_source sec = SrcInput" "\<not> plan_is_red pl (os_name sec)"
  shows "(\<exists>p. previous_sections cached (os_name sec) = Some p \<and> sr_file_offset p = os_sh_offset sec \<and>
            sr_virtual_address p = os_sh_addr sec \<and> sr_size p = os_sh_size sec) \<and>
     (\<forall>c \<in> set (os_contributions sec). \<forall>obj. get objs (con_object_id c) = Some obj \<longrightarrow>
        \<not> object_from_changed_input (path obj) (set (cl_changed_inputs cached)) \<and>
        (\<forall>isec rel s res e. get (sections obj) (con_section_pos c) = Some isec \<longrightarrow> rel \<in> set (sec_relocs isec) \<longrightarrow>
           symbol_by_index obj (r_symbol rel) = Some s \<longrightarrow> sym_binding s \<noteq> Local \<longrightarrow>
           lookup st (sym_name s) = Some res \<longrightarrow> unat (res_id res) < length (resolutions st) \<longrightarrow>
           e \<in> set (cl_symbols cached) \<longrightarrow> cs_name e = sym_name s \<longrightarrow>
           res_virtual_address res = cs_virtual_address e \<and> res_got_address res = cs_got_address e))"
proof -
  obtain ix secs m where p: "relocation_reverse_index objs st ly = (ix, secs)"
      "moved_reloc_sections (moved_symbol_ids (cl_symbols cached) st) ix secs = Some m"
      "plan_patches (previous_sections cached) m (patch_section_records ly objs (cl_changed_inputs cached))
         \<lparr>pl_colors = Map.empty, pl_red = {}, pl_green = {}\<rparr> = Ok pl"
    by (rule incremental_plan_parts [OF plan]) (use state in simp)
  let ?c = "\<lparr>ps_name = os_name sec, ps_file_offset = os_sh_offset sec, ps_size = os_sh_size sec,
      ps_virtual_address = os_sh_addr sec, ps_input_changed = section_input_changed objs (set (cl_changed_inputs cached)) sec\<rparr>"
  have c: "?c \<in> set (patch_section_records ly objs (cl_changed_inputs cached))"
    using sec(1,2) by (simp add: patch_section_records_def)
  note rg = plan_patches_red_green [OF p(3)]
  have "section_fallback (previous_sections cached) ?c = None" using rg c by blast
  then have prev: "\<exists>p. previous_sections cached (os_name sec) = Some p \<and> sr_file_offset p = os_sh_offset sec \<and>
            sr_virtual_address p = os_sh_addr sec \<and> sr_size p = os_sh_size sec"
    by (auto simp: section_fallback_None)
  have "\<not> (ps_input_changed ?c \<or> ps_name ?c \<in> m)"
  proof
    assume "ps_input_changed ?c \<or> ps_name ?c \<in> m"
    then have "?c \<in> {c \<in> set (patch_section_records ly objs (cl_changed_inputs cached)). ps_input_changed c \<or> ps_name c \<in> m}"
      using c by blast
    from imageI [OF this, of ps_name] show False using rg sec(4) by (simp add: plan_is_red_def)
  qed
  then have green: "\<not> section_input_changed objs (set (cl_changed_inputs cached)) sec" "os_name sec \<notin> m" by simp_all
  have moved: "res_virtual_address res = cs_virtual_address e \<and> res_got_address res = cs_got_address e"
    if "con \<in> set (os_contributions sec)" "get objs (con_object_id con) = Some obj"
      "get (sections obj) (con_section_pos con) = Some isec" "rel \<in> set (sec_relocs isec)"
      "symbol_by_index obj (r_symbol rel) = Some s" "sym_binding s \<noteq> Local" "lookup st (sym_name s) = Some res"
      "unat (res_id res) < length (resolutions st)" "e \<in> set (cl_symbols cached)" "cs_name e = sym_name s"
    for con obj isec rel s res e
  proof (rule ccontr)
    note t = that
    assume "\<not> (res_virtual_address res = cs_virtual_address e \<and> res_got_address res = cs_got_address e)"
    then have mv: "res_id res \<in> set (moved_symbol_ids (cl_symbols cached) st)"
      using moved_symbol_ids_mem [OF that(9)] that(7,10) by auto
    have "contribution_section objs con = Some (obj, isec)" "reloc_target_id st obj rel = Some (res_id res)"
      using that by (simp_all add: contribution_section_def reloc_target_id_def)
    then have "(os_name sec, Some (res_id res)) \<in> set (reloc_sites objs st ly)"
      using reloc_site_in_list [OF sec(1,3) that(1) _ that(4), of objs obj st] by simp
    then obtain i where i: "i < length (reloc_sites objs st ly)" "reloc_sites objs st ly ! i = (os_name sec, Some (res_id res))"
      by (auto simp: in_set_conv_nth)
    then obtain rs where rs: "iter_relocs ix (res_id res) = Some rs" "of_nat i \<in> set rs"
      using built_index(2) [OF small p(1) t(8)] by auto
    have "get secs (unat (of_nat i :: u32)) = Some (os_name sec)"
      using i small by (simp add: built_index(1) [OF small p(1)] get_def unat_of_nat)
    then have "os_name sec \<in> m" using moved_reloc_sections_mem [OF p(2)] mv rs by blast
    then show False using green(2) by blast
  qed
  have "\<not> object_from_changed_input (path obj) (set (cl_changed_inputs cached))"
    if "con \<in> set (os_contributions sec)" "get objs (con_object_id con) = Some obj" for con obj
    using green(1) sec(3) that by (auto simp: section_input_changed_def list_ex_iff)
  then show ?thesis using prev moved by blast
qed

text \<open>A relink of two objects after \<open>b.o\<close> changed: \<open>.data\<close> is red, \<open>.text\<close> stays.\<close>

definition relink_object :: "string \<Rightarrow> section_kind \<Rightarrow> input_reloc list \<Rightarrow> input_object" where
  "relink_object p k rels =
     parsed_object (1, 2) p
       [\<lparr>sec_index = 1, sec_name = ''.s'', sec_kind = k, sec_sh_type = 1, sec_data = section_data_EMPTY,
         sec_align = 1, sec_size = 8, sec_flags = 2, sec_relocs = rels\<rparr>] [example_symbol 1 ''f''] []"

definition relink_section :: "string \<Rightarrow> section_kind \<Rightarrow> u64 \<Rightarrow> nat \<Rightarrow> output_section" where
  "relink_section n k off i =
     \<lparr>os_name = n, os_kind = k, os_sh_type = 1, os_sh_flags = 2, os_sh_addr = 0x400000 + off, os_sh_offset = off,
      os_sh_size = 8, os_sh_link = 0, os_sh_info = 0, os_sh_addralign = 1, os_sh_entsize = 0, os_sh_name = 1, os_shndx = 1,
      os_contributions = [\<lparr>con_object_id = i, con_section_index = 1, con_section_pos = 0, con_offset = 0, con_size = 8\<rparr>],
      os_source = SrcInput\<rparr>"

definition relink_layout :: layout where
  "relink_layout =
     \<lparr>output_sections = [relink_section ''.text'' Text 64 0, relink_section ''.data'' KData 72 1], addresses = [],
      segments = [], ly_entry = 0, ly_e_type = 2, ly_phoff = 64, ly_phnum = 0, ly_shoff = 80, ly_shnum = 3,
      ly_shstrndx = 0, ly_file_size = 296, got_slots = [], got_base = 0, ly_strtab = [], ly_shstrtab = [],
      ly_symtab = [], ly_symtab_shndx = [], image_base = 0x400000, bss_start = 0, edata = 0, image_end = 0,
      ly_common = [], ly_copy_relocs = [],
      ly_dyn =
        \<lparr>db_interp = [], db_hash = [], db_dynsym = [], db_dynstr = [], db_rela_dyn = [], db_dynamic = [],
         db_plt = [], db_got_plt = [], db_rela_plt = [], db_gnu_version = [], db_gnu_version_r = [],
         db_verneed_num = 0, db_rela_glob_dat = [], db_rela_copy = [], db_eh_frame_hdr = [], db_gnu_hash = []\<rparr>,
      plt_slots = [], plt_base = 0, ifunc_plt_patches = [], tls_size = 0, tls_offsets = [], tls_gd_addr = [],
      tls_ie_addr = [], tls_desc_addr = [], tls_ldm_addr = None, ly_shared = False, tls_got_writes = [],
      emit_relocs = [], gnu_property_note = []\<rparr>"

definition relink_objects :: "input_object list" where
  "relink_objects =
     [relink_object ''a.o'' Text [\<lparr>r_offset = 0, r_type = 1, r_symbol = 1, r_addend = 0\<rparr>], relink_object ''b.o'' KData []]"

definition relink_table :: symbol_table where
  "relink_table =
     \<lparr>resolutions = [(''f'', (cached_defined 0x400040 0 0 8)\<lparr>res_id := 0\<rparr>)], names = [''f''], object_paths = [''a.o'', ''b.o'']\<rparr>"

definition relink_state :: cached_link_state where
  "relink_state =
     \<lparr>cl_changed_inputs = [''b.o''], cl_sections = section_records relink_layout, cl_symbols = symbol_records relink_table,
      cl_front_end = None\<rparr>"

definition relink_env :: cache_env where
  "relink_env = demo_env\<lparr>ce_decode := \<lambda>_. Some (demo_manifest
     \<lparr>mf_fast_inputs := [(''a.o'', cf_stat (demo_file 1)), (''b.o'', cf_stat (demo_file 8))],
      mf_sections := section_records relink_layout, mf_symbols := symbol_records relink_table\<rparr>)\<rparr>"

definition relink_fs :: cache_fs where
  "relink_fs = [''a.o'' \<mapsto> demo_file 1, ''b.o'' \<mapsto> demo_file 9, ''a.out'' \<mapsto> demo_file 2, ''a.incr/manifest.bin'' \<mapsto> demo_file 3]"

lemma relink_loads: "load_changed_state relink_env relink_fs ''a.out'' [''a.o'', ''b.o''] 5 = Ok (Some relink_state)"
  by (simp add: load_changed_state_def read_manifest_def read_file_def relink_fs_def relink_env_def demo_manifest_def
      demo_file_def relink_state_def fast_of_file_def del: fast_of_file_iff)

lemma relink_records:
  "patch_section_records relink_layout relink_objects [''b.o''] =
     [\<lparr>ps_name = ''.text'', ps_file_offset = 64, ps_size = 8, ps_virtual_address = 0x400040, ps_input_changed = False\<rparr>,
      \<lparr>ps_name = ''.data'', ps_file_offset = 72, ps_size = 8, ps_virtual_address = 0x400048, ps_input_changed = True\<rparr>]"
  by (simp add: patch_section_records_def relink_layout_def relink_section_def patchable_def section_input_changed_def
      relink_objects_def relink_object_def parsed_object_def get_def object_from_changed_input_def starts_with_def)

lemma relink_patch:
  "incremental_emit_plan relink_env relink_fs ''a.out'' [''a.o'', ''b.o''] 5 relink_objects relink_table relink_layout False =
     Some (Ok (Patch \<lparr>pl_colors = [''.text'' \<mapsto> Green, ''.data'' \<mapsto> Red], pl_red = {''.data''}, pl_green = {''.text''}\<rparr>))"
proof -
  have "moved_symbol_ids (symbol_records relink_table) relink_table = []"
    by (simp add: moved_symbol_ids_def symbol_records_def relink_table_def cached_defined_def List.map_filter_simps lookup_def)
  moreover have "section_records relink_layout =
     [\<lparr>sr_name = ''.text'', sr_fingerprint = \<lparr>cfp_len = 0, cfp_hash = 0\<rparr>, sr_file_offset = 64, sr_size = 8,
       sr_capacity = 8, sr_virtual_address = 0x400040\<rparr>,
      \<lparr>sr_name = ''.data'', sr_fingerprint = \<lparr>cfp_len = 0, cfp_hash = 0\<rparr>, sr_file_offset = 72, sr_size = 8,
       sr_capacity = 8, sr_virtual_address = 0x400048\<rparr>]"
    by (simp add: section_records_def relink_layout_def relink_section_def patchable_def)
  moreover obtain ix secs where "relocation_reverse_index relink_objects relink_table relink_layout = (ix, secs)" by force
  ultimately show ?thesis
    by (simp add: incremental_emit_plan_def relink_loads relink_records relink_state_def plan_partial_relink_def
        previous_sections_def section_fallback_def)
qed

theorem green_sections_sound_witness:
  "\<exists>pl cached p. incremental_emit_plan relink_env relink_fs ''a.out'' [''a.o'', ''b.o''] 5 relink_objects relink_table
       relink_layout False = Some (Ok (Patch pl)) \<and> plan_is_green pl ''.text'' \<and> plan_is_red pl ''.data'' \<and>
     load_changed_state relink_env relink_fs ''a.out'' [''a.o'', ''b.o''] 5 = Ok (Some cached) \<and>
     previous_sections cached ''.text'' = Some p \<and> sr_virtual_address p = 0x400040"
proof -
  have "length (reloc_sites relink_objects relink_table relink_layout) < 2 ^ 32"
    by (simp add: reloc_sites_def relink_layout_def relink_section_def contribution_sites_def contribution_section_def
        relink_objects_def relink_object_def parsed_object_def get_def)
  from green_sections_sound [OF relink_patch relink_loads this, of "relink_section ''.text'' Text 64 0"]
  have "\<exists>p. previous_sections relink_state ''.text'' = Some p \<and> sr_virtual_address p = 0x400040"
    by (auto simp: relink_layout_def relink_section_def patchable_def plan_is_red_def)
  then show ?thesis using relink_patch relink_loads by (auto simp: plan_is_green_def plan_is_red_def)
qed

text \<open>The moves the plan cannot see.\<close>

lemma idless_not_recorded:
  assumes "distinct (map fst (resolutions st))" "lookup st n = Some r" "res_id r = - 1"
  shows "n \<notin> cs_name ` set (symbol_records st)"
proof
  assume "n \<in> cs_name ` set (symbol_records st)"
  then obtain r' where "(n, r') \<in> set (resolutions st)" "res_id r' \<noteq> - 1" by (auto simp: symbol_records_def)
  then show False using assms by (simp add: lookup_def)
qed

lemma moves_ignore_plt:
  "moved_symbol_ids (map (\<lambda>e. e\<lparr>cs_plt_address := f e\<rparr>) cached) st = moved_symbol_ids cached st"
  by (induction cached) (auto simp: moved_symbol_ids_def List.map_filter_simps split: option.split)

end
