(* ===== verification/Daemon.thy ===== *)
theory Daemon
  imports Relink
begin

text \<open>
  The resident daemon, \<^verbatim>\<open>peony/src/daemon.rs\<close>: what it loads, how it answers a relink request, and the requests it serves one
  after the other while the file system changes between them.  The socket, the idle timeout and the spawning of the
  process are left out; \<open>None\<close> is a panic, which ends the daemon.  The clock value of \<^verbatim>\<open>layout.bin\<close> is its recorded
  modification time.

  \<open>daemon_agrees\<close> shows that a relink the daemon serves is the one-shot relink, bit for bit; \<open>daemon_ignores_output\<close> shows
  where the two differ.
\<close>

section \<open>State\<close>

definition STATUS_RELINKED :: u8 where "STATUS_RELINKED = 0"
definition STATUS_NOCHANGE :: u8 where "STATUS_NOCHANGE = 1"
definition STATUS_FALLBACK :: u8 where "STATUS_FALLBACK = 2"

record daemon_state =
  ds_output :: string
  ds_input_paths :: "string list"
  ds_args_hash :: u64
  ds_layout :: layout
  ds_symbols :: symbol_table
  ds_snapshot :: front_end_snapshot
  ds_cached_symbols :: "cached_symbol_entry list"
  ds_input_fps :: "fast_fingerprint list"
  ds_blob_mtime :: "(i64 \<times> i64) option"

definition blob_mtime :: "cache_fs \<Rightarrow> string \<Rightarrow> (i64 \<times> i64) option" where
  "blob_mtime fs output = map_option (\<lambda>f. (ff_mtime_sec (cf_stat f), ff_mtime_nsec (cf_stat f))) (fs (layout_blob_path output))"

definition fast_default :: fast_fingerprint where
  "fast_default = \<lparr>ff_len = 0, ff_mtime_sec = 0, ff_mtime_nsec = 0, ff_inode = 0\<rparr>"

definition fast_or_default :: "cache_fs \<Rightarrow> string \<Rightarrow> fast_fingerprint" where
  "fast_or_default fs p = (case fast_of_file fs p of Ok f \<Rightarrow> f | _ \<Rightarrow> fast_default)"

text \<open>The fingerprint the manifest recorded for a path, the first one if there are several.\<close>

definition baseline_fp :: "(string \<times> fast_fingerprint) list \<Rightarrow> string \<Rightarrow> fast_fingerprint" where
  "baseline_fp baseline p = (case map_of baseline p of Some f \<Rightarrow> f | None \<Rightarrow> fast_default)"

definition daemon_load ::
  "cache_env \<Rightarrow> layout_codec \<Rightarrow> cache_fs \<Rightarrow> string \<Rightarrow> string list \<Rightarrow> u64 \<Rightarrow> (cache_error, daemon_state option) outcome" where
  "daemon_load env codec fs output inputs args_hash =
     bind_outcome (load_changed_state env fs output inputs args_hash) (\<lambda>state.
       case state of
         None \<Rightarrow> Ok None
       | Some cached \<Rightarrow>
           (case cl_front_end cached of
              None \<Rightarrow> Ok None
            | Some snap \<Rightarrow>
                bind_outcome (read_layout_blob fs output) (\<lambda>blob.
                  case blob of
                    None \<Rightarrow> Ok None
                  | Some b \<Rightarrow>
                      if blob_hash b \<noteq> fe_blob_hash snap then Ok None
                      else (case lc_deserialize codec b of
                              None \<Rightarrow> Ok None
                            | Some ly \<Rightarrow>
                                bind_outcome (manifest_fast_inputs env fs output) (\<lambda>baseline.
                                  Ok (Some
                                    \<lparr>ds_output = output, ds_input_paths = inputs, ds_args_hash = args_hash, ds_layout = ly,
                                     ds_symbols = build_cached_symbol_view (cl_symbols cached), ds_snapshot = snap,
                                     ds_cached_symbols = cl_symbols cached,
                                     ds_input_fps = map (baseline_fp (case baseline of Some x \<Rightarrow> x | None \<Rightarrow> [])) inputs,
                                     ds_blob_mtime = blob_mtime fs output\<rparr>))))))"

section \<open>A request\<close>

text \<open>The object ids of the inputs whose metadata changed: a panic where the fingerprints run out, \<open>Some None\<close> where a
  changed input is not one of the objects.\<close>

fun changed_object_ids :: "cache_fs \<Rightarrow> string list \<Rightarrow> string list \<Rightarrow> fast_fingerprint list \<Rightarrow> nat list option option" where
  "changed_object_ids fs objs [] fps = Some (Some [])"
| "changed_object_ids fs objs (p # ps) [] = None"
| "changed_object_ids fs objs (p # ps) (f # fps) =
     (if fast_or_default fs p = f then changed_object_ids fs objs ps fps
      else case position (\<lambda>q. q = p) objs of
        None \<Rightarrow> Some None
      | Some i \<Rightarrow> map_option (map_option (Cons i)) (changed_object_ids fs objs ps fps))"

definition serve_changed ::
  "cache_env \<Rightarrow> link_world \<Rightarrow> (nat \<times> nat) list \<Rightarrow> daemon_state \<Rightarrow> cache_fs \<Rightarrow> nat list \<Rightarrow> (u8 \<times> daemon_state \<times> cache_fs) option" where
  "serve_changed env w sched ds fs ids =
     (case emit_parse_only_changed w (output_bytes fs (ds_output ds)) (ds_layout ds) (ds_symbols ds)
             (fe_object_paths (ds_snapshot ds)) (fe_object_digests (ds_snapshot ds)) ids sched of
        Ok (Some (changed, out)) \<Rightarrow>
          (let fs1 = put_output env (ds_output ds) out fs;
               fs2 = (case record_link_with_sections env (ds_output ds) (ds_input_paths ds) (ds_args_hash ds)
                        (section_records (ds_layout ds)) (ds_cached_symbols ds) (Some (ds_snapshot ds)) None fs1 of
                        Ok fs' \<Rightarrow> fs' | _ \<Rightarrow> fs1)
           in Some (STATUS_RELINKED,
                    ds\<lparr>ds_input_fps := map (fast_or_default fs1) (ds_input_paths ds),
                       ds_blob_mtime := blob_mtime fs2 (ds_output ds)\<rparr>, fs2))
      | Panic \<Rightarrow> None
      | _ \<Rightarrow> Some (STATUS_FALLBACK, ds, fs))"

definition serve_loaded ::
  "cache_env \<Rightarrow> link_world \<Rightarrow> (nat \<times> nat) list \<Rightarrow> daemon_state \<Rightarrow> cache_fs \<Rightarrow> (u8 \<times> daemon_state \<times> cache_fs) option" where
  "serve_loaded env w sched ds fs =
     (case changed_object_ids fs (fe_object_paths (ds_snapshot ds)) (ds_input_paths ds) (ds_input_fps ds) of
        None \<Rightarrow> None
      | Some None \<Rightarrow> Some (STATUS_FALLBACK, ds, fs)
      | Some (Some ids) \<Rightarrow>
          if ids = [] then Some (STATUS_NOCHANGE, ds, fs) else serve_changed env w sched ds fs ids)"

definition daemon_handle ::
  "cache_env \<Rightarrow> layout_codec \<Rightarrow> link_world \<Rightarrow> (nat \<times> nat) list \<Rightarrow> u64 \<Rightarrow> daemon_state \<Rightarrow> cache_fs \<Rightarrow>
   (u8 \<times> daemon_state \<times> cache_fs) option" where
  "daemon_handle env codec w sched req_hash ds fs =
     (if req_hash \<noteq> ds_args_hash ds then Some (STATUS_FALLBACK, ds, fs)
      else if blob_mtime fs (ds_output ds) \<noteq> ds_blob_mtime ds
      then (case daemon_load env codec fs (ds_output ds) (ds_input_paths ds) (ds_args_hash ds) of
              Ok (Some fresh) \<Rightarrow> serve_loaded env w sched fresh fs
            | Panic \<Rightarrow> None
            | _ \<Rightarrow> Some (STATUS_FALLBACK, ds, fs))
      else serve_loaded env w sched ds fs)"

text \<open>What the client makes of the answer: \<open>Some True\<close> handled, \<open>Some False\<close> link yourself.\<close>

definition client_answer :: "u8 \<Rightarrow> bool" where
  "client_answer status \<longleftrightarrow> status = STATUS_RELINKED \<or> status = STATUS_NOCHANGE"

text \<open>Requests with the file systems they find; between two requests anything may happen to it.\<close>

inductive daemon_run ::
  "cache_env \<Rightarrow> layout_codec \<Rightarrow> daemon_state \<Rightarrow> daemon_state \<Rightarrow> bool" for env codec where
  started: "daemon_run env codec ds ds"
| served: "daemon_run env codec ds ds1 \<Longrightarrow> daemon_handle env codec w sched req ds1 fs = Some (status, ds2, fs2) \<Longrightarrow>
     daemon_run env codec ds ds2"

section \<open>The resident state stays loaded\<close>

definition daemon_ok :: "daemon_state \<Rightarrow> bool" where
  "daemon_ok ds \<longleftrightarrow> length (ds_input_fps ds) = length (ds_input_paths ds) \<and>
     ds_symbols ds = build_cached_symbol_view (ds_cached_symbols ds)"

lemma daemon_load_parts:
  assumes "daemon_load env codec fs output inputs args = Ok (Some ds)"
  obtains cached snap b ly baseline where
    "load_changed_state env fs output inputs args = Ok (Some cached)" "cl_front_end cached = Some snap"
    "read_layout_blob fs output = Ok (Some b)" "blob_hash b = fe_blob_hash snap" "lc_deserialize codec b = Some ly"
    "manifest_fast_inputs env fs output = Ok baseline"
    "ds = \<lparr>ds_output = output, ds_input_paths = inputs, ds_args_hash = args, ds_layout = ly,
           ds_symbols = build_cached_symbol_view (cl_symbols cached), ds_snapshot = snap, ds_cached_symbols = cl_symbols cached,
           ds_input_fps = map (baseline_fp (case baseline of Some x \<Rightarrow> x | None \<Rightarrow> [])) inputs,
           ds_blob_mtime = blob_mtime fs output\<rparr>"
  using assms unfolding daemon_load_def
  by (auto elim!: bind_outcome_Ok split: option.splits if_splits)

lemma daemon_load_ok: "daemon_load env codec fs output inputs args = Ok (Some ds) \<Longrightarrow> daemon_ok ds"
  by (erule daemon_load_parts) (simp add: daemon_ok_def)

lemma changed_object_ids_total: "length fps = length ps \<Longrightarrow> changed_object_ids fs objs ps fps \<noteq> None"
  by (induction fs objs ps fps rule: changed_object_ids.induct) (auto split: option.split)

lemma serve_changed_ok: "daemon_ok ds \<Longrightarrow> serve_changed env w sched ds fs ids = Some (status, ds', fs') \<Longrightarrow> daemon_ok ds'"
  by (auto simp: serve_changed_def daemon_ok_def Let_def split: outcome.splits option.splits)

lemma serve_loaded_ok: "daemon_ok ds \<Longrightarrow> serve_loaded env w sched ds fs = Some (status, ds', fs') \<Longrightarrow> daemon_ok ds'"
  by (auto simp: serve_loaded_def serve_changed_ok split: option.splits if_splits)

lemma daemon_handle_ok:
  assumes "daemon_ok ds" "daemon_handle env codec w sched req ds fs = Some (status, ds', fs')"
  shows "daemon_ok ds'"
proof (cases "blob_mtime fs (ds_output ds) = ds_blob_mtime ds")
  case True
  then show ?thesis using assms serve_loaded_ok by (auto simp: daemon_handle_def split: if_splits)
next
  case False
  then show ?thesis
    using assms serve_loaded_ok [OF daemon_load_ok]
    by (auto simp: daemon_handle_def split: if_splits outcome.splits option.splits)
qed

lemma daemon_run_ok: "daemon_run env codec ds ds' \<Longrightarrow> daemon_ok ds \<Longrightarrow> daemon_ok ds'"
  by (induction rule: daemon_run.induct) (auto intro: daemon_handle_ok)

text \<open>No state the daemon gets into makes its walk over the inputs run out of fingerprints.\<close>

lemma daemon_fingerprints_suffice:
  "daemon_run env codec ds ds' \<Longrightarrow> daemon_ok ds \<Longrightarrow>
     changed_object_ids fs (fe_object_paths (ds_snapshot ds')) (ds_input_paths ds') (ds_input_fps ds') \<noteq> None"
  by (rule changed_object_ids_total) (use daemon_run_ok in \<open>auto simp: daemon_ok_def\<close>)

section \<open>The daemon against the one-shot relink\<close>

lemma load_changed_state_iff:
  "load_changed_state env fs output inputs args = Ok (Some cached) \<longleftrightarrow>
     (\<exists>f m changed. fs (manifest_path output) = Some f \<and> cf_readable f \<and> ce_decode env (cf_data f) = Some m \<and>
        mf_version m = CACHE_VERSION \<and> mf_args_hash m = args \<and> length (mf_fast_inputs m) = length inputs \<and>
        changed_inputs_of fs (mf_fast_inputs m) inputs = Some changed \<and> stat_of fs output = Some (mf_fast_output m) \<and>
        cached = \<lparr>cl_changed_inputs = changed, cl_sections = mf_sections m, cl_symbols = mf_symbols m, cl_front_end = mf_front_end m\<rparr>)"
  by (auto simp: load_changed_state_def read_manifest_def read_file_def stat_of_def split: option.splits if_splits)

lemma changed_inputs_exist: "changed_inputs_of fs recs ps = Some ch \<Longrightarrow> length recs = length ps \<Longrightarrow> map fst recs = ps \<and> (\<forall>p \<in> set ps. fs p \<noteq> None)"
proof (induction ps arbitrary: recs ch)
  case (Cons p ps)
  then obtain f recs' where r: "recs = (p, f) # recs'" by (cases recs) (auto split: if_splits)
  obtain g where g: "fast_of_file fs p = Ok g"
    using Cons.prems(1) r by (auto simp del: fast_of_file_iff split: outcome.splits)
  then obtain ch' where "changed_inputs_of fs recs' ps = Some ch'"
    using Cons.prems(1) by (auto simp: r g simp del: fast_of_file_iff split: if_splits)
  then show ?case using Cons.IH Cons.prems(2) g by (fastforce simp: r stat_of_def)
qed simp

lemma changed_inputs_defined: "map fst recs = ps \<Longrightarrow> \<forall>p \<in> set ps. fs p \<noteq> None \<Longrightarrow> \<exists>ch. changed_inputs_of fs recs ps = Some ch"
  by (induction fs recs ps rule: changed_inputs_of.induct) (auto simp: fast_of_file_def split: option.splits)

lemma changed_ids_positions:
  "changed_inputs_of fs recs ps = Some ch \<Longrightarrow> length recs = length ps \<Longrightarrow> distinct ps \<Longrightarrow>
     changed_object_ids fs objs ps (map (baseline_fp recs) ps) = Some (changed_positions objs ch)"
proof (induction ps arbitrary: recs ch)
  case (Cons p ps)
  then obtain f recs' where r: "recs = (p, f) # recs'" by (cases recs) (auto split: if_splits)
  obtain g where g: "fast_of_file fs p = Ok g"
    using Cons.prems(1) r by (auto simp del: fast_of_file_iff split: outcome.splits)
  have tl: "map (baseline_fp recs) ps = map (baseline_fp recs') ps" using Cons.prems(3) by (auto simp: r baseline_fp_def)
  have hd: "baseline_fp recs p = f" "fast_or_default fs p = g" using g by (simp_all add: r baseline_fp_def fast_or_default_def del: fast_of_file_iff)
  obtain ch' where ch: "changed_inputs_of fs recs' ps = Some ch'" "ch = (if g = f then ch' else p # ch')"
    using Cons.prems(1) by (auto simp: r g simp del: fast_of_file_iff split: if_splits)
  have IH: "changed_object_ids fs objs ps (map (baseline_fp recs') ps) = Some (changed_positions objs ch')"
    using Cons.IH [OF ch(1)] Cons.prems(2,3) by (simp add: r)
  show ?case using IH by (simp add: tl hd ch(2) split: option.split)
qed simp

lemma changed_inputs_nil:
  "changed_inputs_of fs recs ps = Some ch \<Longrightarrow> length recs = length ps \<Longrightarrow> distinct ps \<Longrightarrow>
     ch = [] \<longleftrightarrow> map (stat_of fs) ps = map Some (map (baseline_fp recs) ps)"
proof (induction ps arbitrary: recs ch)
  case (Cons p ps)
  then obtain f recs' where r: "recs = (p, f) # recs'" by (cases recs) (auto split: if_splits)
  obtain g where g: "fast_of_file fs p = Ok g"
    using Cons.prems(1) r by (auto simp del: fast_of_file_iff split: outcome.splits)
  have tl: "map (baseline_fp recs) ps = map (baseline_fp recs') ps" using Cons.prems(3) by (auto simp: r baseline_fp_def)
  obtain ch' where ch: "changed_inputs_of fs recs' ps = Some ch'" "ch = (if g = f then ch' else p # ch')"
    using Cons.prems(1) by (auto simp: r g simp del: fast_of_file_iff split: if_splits)
  then show ?case
    using Cons.IH [OF ch(1)] Cons.prems(2,3) g tl by (auto simp: r baseline_fp_def)
qed simp

lemma record_not_panic: "record_link_with_sections env output inputs args secs syms fe blob fs \<noteq> Panic"
proof -
  have f: "fast_of_file g p \<noteq> Panic" for g p by (simp add: fast_of_file_def split: option.split)
  have of: "of_file g p \<noteq> Panic" for g p by (simp add: of_file_def read_file_def split: option.split)
  have a: "atomic_write e p b g \<noteq> Panic" for e p b g by (simp add: atomic_write_def Let_def)
  have b: "bind_outcome m k \<noteq> Panic" if "m \<noteq> Panic" "\<And>x. k x \<noteq> Panic" for m :: "('e, 'x) outcome" and k :: "'x \<Rightarrow> ('e, 'y) outcome"
    using that by (cases m) auto
  have fi: "fast_inputs_of g ps \<noteq> Panic" for g ps by (induction ps) (simp_all add: b f)
  have ci: "content_inputs_of g om oc ps \<noteq> Panic" for g om oc ps
    by (induction ps) (auto simp: b \<open>\<And>g p. of_file g p \<noteq> Panic\<close> split: option.split)
  show ?thesis
    unfolding record_link_with_sections_def input_fingerprints_def
    by (auto simp: b fi ci a f Let_def split: option.split)
qed

text \<open>The status a one-shot relink's result stands for.  A relink whose manifest could not be written counts as done.\<close>

fun relink_status :: "(relink_error, bool \<times> cache_fs) outcome \<Rightarrow> u8 option" where
  "relink_status (Ok (True, fs)) = Some STATUS_RELINKED"
| "relink_status (Ok (False, fs)) = Some STATUS_FALLBACK"
| "relink_status (Err (RelinkEmit e)) = Some STATUS_FALLBACK"
| "relink_status (Err (RelinkCache e)) = Some STATUS_RELINKED"
| "relink_status Panic = None"

text \<open>C13: The first answer of a loaded daemon is the one-shot relink's, from memory.  Take the state a
  daemon has just loaded, over distinct inputs, and its first request, on a file system where the manifest, the layout
  blob and the metadata of the output are as they were at loading and every input is present.  The answer is "no change"
  when the metadata of every input is the recorded one (where a one-shot link would fall to the reuse check, which,
  unlike the daemon, looks at the output: \<open>daemon_ignores_output\<close>), and otherwise the status of the one-shot parse-only
  relink run on the same file system.  Where that relink succeeds, the daemon leaves the very same file system, output
  and manifest included.\<close>

theorem daemon_agrees:
  assumes load: "daemon_load env codec fs0 output inputs args = Ok (Some ds)" and dist: "distinct inputs"
    and same: "fs (manifest_path output) = fs0 (manifest_path output)" "fs (layout_blob_path output) = fs0 (layout_blob_path output)"
      "stat_of fs output = stat_of fs0 output" "\<forall>p \<in> set inputs. fs p \<noteq> None"
  shows "map_option fst (daemon_handle env codec w sched args ds fs) =
       (if map (stat_of fs) inputs = map Some (ds_input_fps ds) then Some STATUS_NOCHANGE
        else relink_status (try_parse_only_changed env codec w output inputs args sched fs)) \<and>
     (\<forall>fs'. try_parse_only_changed env codec w output inputs args sched fs = Ok (True, fs') \<longrightarrow>
        (\<exists>ds'. daemon_handle env codec w sched args ds fs = Some (STATUS_RELINKED, ds', fs')))"
proof -
  obtain cached snap b ly baseline where l: "load_changed_state env fs0 output inputs args = Ok (Some cached)"
      "cl_front_end cached = Some snap" "read_layout_blob fs0 output = Ok (Some b)" "blob_hash b = fe_blob_hash snap"
      "lc_deserialize codec b = Some ly" "manifest_fast_inputs env fs0 output = Ok baseline"
      "ds = \<lparr>ds_output = output, ds_input_paths = inputs, ds_args_hash = args, ds_layout = ly,
           ds_symbols = build_cached_symbol_view (cl_symbols cached), ds_snapshot = snap, ds_cached_symbols = cl_symbols cached,
           ds_input_fps = map (baseline_fp (case baseline of Some x \<Rightarrow> x | None \<Rightarrow> [])) inputs,
           ds_blob_mtime = blob_mtime fs0 output\<rparr>"
    by (rule daemon_load_parts [OF load])
  obtain f m ch0 where m: "fs0 (manifest_path output) = Some f" "cf_readable f" "ce_decode env (cf_data f) = Some m"
      "mf_version m = CACHE_VERSION" "mf_args_hash m = args" "length (mf_fast_inputs m) = length inputs"
      "changed_inputs_of fs0 (mf_fast_inputs m) inputs = Some ch0" "stat_of fs0 output = Some (mf_fast_output m)"
      "cached = \<lparr>cl_changed_inputs = ch0, cl_sections = mf_sections m, cl_symbols = mf_symbols m, cl_front_end = mf_front_end m\<rparr>"
    using l(1) by (auto simp: load_changed_state_iff)
  let ?recs = "mf_fast_inputs m" and ?objs = "fe_object_paths snap"
  have recs: "map fst ?recs = inputs" using changed_inputs_exist [OF m(7) m(6)] by simp
  have base: "baseline = Some ?recs"
    using l(6) m(1-4) by (simp add: manifest_fast_inputs_def read_manifest_def read_file_def)
  obtain ch where ch: "changed_inputs_of fs ?recs inputs = Some ch" using changed_inputs_defined [OF recs same(4)] by blast
  have state: "load_changed_state env fs output inputs args = Ok (Some (cached\<lparr>cl_changed_inputs := ch\<rparr>))"
    using m ch same(1,3) by (simp add: load_changed_state_iff)
  have ids: "changed_object_ids fs ?objs inputs (ds_input_fps ds) = Some (changed_positions ?objs ch)"
    using changed_ids_positions [OF ch m(6) dist] by (simp add: l(7) base)
  have blob: "read_layout_blob fs output = Ok (Some b)" using l(3) same(2) by (simp add: read_layout_blob_def)
  have here: "blob_mtime fs output = ds_blob_mtime ds" using same(2) by (simp add: l(7) blob_mtime_def)
  have ch_nil: "ch = [] \<longleftrightarrow> map (stat_of fs) inputs = map Some (ds_input_fps ds)"
    using changed_inputs_nil [OF ch m(6) dist] by (simp add: l(7) base)
  let ?answer = "daemon_handle env codec w sched args ds fs"
    and ?relink = "try_parse_only_changed env codec w output inputs args sched fs"
  have answer: "?answer = (case changed_positions ?objs ch of
      None \<Rightarrow> Some (STATUS_FALLBACK, ds, fs)
    | Some is \<Rightarrow> if is = [] then Some (STATUS_NOCHANGE, ds, fs) else serve_changed env w sched ds fs is)"
    using here ids unfolding daemon_handle_def serve_loaded_def by (simp add: l(7) split: option.split)
  show ?thesis
  proof (cases "ch = [] \<or> changed_positions ?objs ch = None")
    case True
    then show ?thesis
      using answer ch_nil l(2) state by (auto simp: try_parse_only_changed_def)
  next
    case False
    then obtain "is" where is_: "changed_positions ?objs ch = Some is" "is \<noteq> []" "ch \<noteq> []"
      by (cases ch) (auto split: option.splits)
    let ?e = "emit_parse_only_changed w (output_bytes fs output) ly (build_cached_symbol_view (cl_symbols cached)) ?objs
        (fe_object_digests snap) is sched"
    let ?rec = "\<lambda>out. record_link_with_sections env output inputs args (section_records ly) (cl_symbols cached) (Some snap) None
        (put_output env output out fs)"
    have relink: "?relink = bind_outcome (map_err RelinkEmit ?e) (\<lambda>emitted. case emitted of None \<Rightarrow> Ok (False, fs)
        | Some (changed, out) \<Rightarrow> bind_outcome (map_err RelinkCache (?rec out)) (\<lambda>fs'. Ok (True, fs')))"
      using state l(2,4,5) blob is_ by (simp add: try_parse_only_changed_def)
    have served: "?answer = serve_changed env w sched ds fs is" using answer is_ by simp
    have neq: "map (stat_of fs) inputs \<noteq> map Some (ds_input_fps ds)" using ch_nil is_ by blast
    show ?thesis
    proof (cases ?e)
      case (Ok x)
      show ?thesis
      proof (cases x)
        case None
        have "?relink = Ok (False, fs)" "?answer = Some (STATUS_FALLBACK, ds, fs)"
          using relink served Ok None by (simp_all add: serve_changed_def l(7))
        then show ?thesis using neq by simp
      next
        case (Some y)
        obtain changed out where y: "y = (changed, out)" by force
        have rp: "?rec out \<noteq> Panic" by (rule record_not_panic)
        have r: "?relink = bind_outcome (map_err RelinkCache (?rec out)) (\<lambda>fs'. Ok (True, fs'))"
          using relink Ok Some y by simp
        have "\<exists>ds'. ?answer = Some (STATUS_RELINKED, ds', case ?rec out of Ok fs' \<Rightarrow> fs' | _ \<Rightarrow> put_output env output out fs)"
          using served Ok Some y by (simp add: serve_changed_def l(7) Let_def)
        then show ?thesis using neq rp r by (cases "?rec out") auto
      qed
    next
      case (Err e)
      have "?relink = Err (RelinkEmit e)" "?answer = Some (STATUS_FALLBACK, ds, fs)"
        using relink served Err by (simp_all add: serve_changed_def l(7))
      then show ?thesis using neq by simp
    next
      case Panic
      have "?relink = Panic" "?answer = None"
        using relink served Panic by (simp_all add: serve_changed_def l(7))
      then show ?thesis using neq by simp
    qed
  qed
qed

text \<open>The daemon never looks at the output: when it was deleted and no input changed, the answer is that nothing changed,
  while the one-shot link would not reuse it.\<close>

lemma daemon_ignores_output:
  assumes "daemon_load env codec fs0 output inputs args = Ok (Some ds)" "ds_input_fps ds = map (fast_or_default fs0) inputs"
    and "layout_blob_path output \<noteq> output" "output \<notin> set inputs"
  shows "daemon_handle env codec w sched args ds (fs0(output := None)) = Some (STATUS_NOCHANGE, ds, fs0(output := None)) \<and>
     try_reuse env (fs0(output := None)) output inputs args = Ok False"
proof -
  let ?fs = "fs0(output := None)"
  have ds: "ds_output ds = output" "ds_input_paths ds = inputs" "ds_args_hash ds = args" "ds_blob_mtime ds = blob_mtime fs0 output"
    by (rule daemon_load_parts [OF assms(1)], simp)+
  have "changed_object_ids ?fs objs ps (map (fast_or_default fs0) ps) = Some (Some [])" if "output \<notin> set ps" for objs ps
    using that by (induction ps) (auto simp: fast_or_default_def fast_of_file_def)
  then show ?thesis
    using assms(2-4) ds by (simp add: daemon_handle_def serve_loaded_def blob_mtime_def try_reuse_def)
qed

text \<open>A daemon for \<open>a.out\<close>, asked again at once, after an edit of \<open>b.o\<close> that leaves no readable object, and after one that
  only changes the bytes of its section.\<close>

definition edited_bytes :: bytes where
  "edited_bytes = [1, 2, 3, 4, 5, 6, 7, 8]"

definition edited_elf :: raw_elf where
  "edited_elf = \<lparr>re_sections = [example_section 1 ''.data'' (0, 8)], re_symbols = [], re_hints = (0, 0)\<rparr>"

definition edited_object :: input_object where
  "edited_object = parsed_object (0, 0) ''b.o''
     [\<lparr>sec_index = 1, sec_name = ''.data'', sec_kind = classify_section ''.data'' 2, sec_sh_type = SHT_PROGBITS,
       sec_data = \<lparr>sd_src = Mmap 0, sd_off = 0, sd_len = 8\<rparr>, sec_align = 8, sec_size = 8, sec_flags = 2, sec_relocs = []\<rparr>] [] []"

definition edited_arena :: input_arena where
  "edited_arena = intern_object_names \<lparr>mmaps = [edited_bytes], owned = [], arena_names = {}\<rparr> edited_object"

definition edited_digest :: u64 where
  "edited_digest = (case object_reuse_digest edited_arena edited_object 1 of Some d \<Rightarrow> d | None \<Rightarrow> 0)"

definition daemon_snapshot :: front_end_snapshot where
  "daemon_snapshot = \<lparr>fe_drivers_hash = 0, fe_blob_hash = blob_hash [9], fe_object_digests = [0, edited_digest],
     fe_object_paths = [''a.o'', ''b.o'']\<rparr>"

definition daemon_manifest :: manifest where
  "daemon_manifest = demo_manifest
     \<lparr>mf_fast_inputs := [(''a.o'', cf_stat (demo_file 1)), (''b.o'', cf_stat (demo_file 8))], mf_front_end := Some daemon_snapshot\<rparr>"

definition daemon_env :: cache_env where
  "daemon_env = demo_env\<lparr>ce_encode := \<lambda>_. Some [7], ce_decode := \<lambda>_. Some daemon_manifest\<rparr>"

definition daemon_codec :: layout_codec where
  "daemon_codec = \<lparr>lc_serialize = (\<lambda>_. [9]), lc_deserialize = (\<lambda>_. Some relink_layout)\<rparr>"

definition daemon_fs :: cache_fs where
  "daemon_fs = [''a.o'' \<mapsto> demo_file 1, ''b.o'' \<mapsto> demo_file 8, ''a.out'' \<mapsto> (demo_file 2)\<lparr>cf_data := replicate 296 0\<rparr>,
     ''a.incr/manifest.bin'' \<mapsto> demo_file 3,
     ''a.incr/layout.bin'' \<mapsto> \<lparr>cf_data = [9], cf_readable = True, cf_stat = cf_stat (demo_file 4)\<rparr>]"

definition no_object_world :: link_world where
  "no_object_world = \<lparr>lw_bytes = (\<lambda>_. None), lw_header_kind = (\<lambda>_. Bare), lw_archive = (\<lambda>_. None), lw_shared = (\<lambda>_. None), lw_elf = (\<lambda>_. None)\<rparr>"

definition edited_world :: link_world where
  "edited_world = no_object_world\<lparr>lw_bytes := [''b.o'' \<mapsto> edited_bytes], lw_elf := \<lambda>_. Some edited_elf\<rparr>"

definition daemon_demo :: daemon_state where
  "daemon_demo =
     \<lparr>ds_output = ''a.out'', ds_input_paths = [''a.o'', ''b.o''], ds_args_hash = 5, ds_layout = relink_layout,
      ds_symbols = build_cached_symbol_view [], ds_snapshot = daemon_snapshot, ds_cached_symbols = [],
      ds_input_fps = [cf_stat (demo_file 1), cf_stat (demo_file 8)], ds_blob_mtime = Some (9, 0)\<rparr>"

lemma layout_path_demo [simp]: "layout_blob_path ''a.out'' = ''a.incr/layout.bin''"
  by (simp add: layout_blob_path_def cache_dir_def with_extension_def file_name_def file_stem_def path_core.simps)

lemmas daemon_eval = load_changed_state_def read_manifest_def read_file_def daemon_fs_def daemon_env_def daemon_manifest_def
  demo_manifest_def demo_file_def fast_of_file_def read_layout_blob_def daemon_snapshot_def daemon_codec_def

lemma daemon_demo_loads: "daemon_load daemon_env daemon_codec daemon_fs ''a.out'' [''a.o'', ''b.o''] 5 = Ok (Some daemon_demo)"
  by (simp add: daemon_load_def daemon_eval manifest_fast_inputs_def baseline_fp_def blob_mtime_def daemon_demo_def
      del: fast_of_file_iff)

lemma edited_parses: "parse_object edited_world ''b.o'' arena_new = Ok (edited_arena, edited_object)"
  by (simp add: parse_object_def edited_world_def arena_new_def push_mmap_def parse_eval edited_elf_def edited_bytes_def
      edited_object_def edited_arena_def)

lemma edited_digests: "object_reuse_digest edited_arena edited_object (Suc 0) = Some edited_digest"
  by (simp add: edited_digest_def object_reuse_digest_def object_layout_digest_def fold_option_def edited_object_def
      parsed_object_def digested_def digest_section_def reads_content_def is_property_def classify_section_def starts_with_def
      Let_def)

lemma edited_arena_bytes: "arena_bytes edited_arena (sec_data (sections edited_object ! 0)) = Some edited_bytes"
  by (simp add: edited_arena_def arena_bytes_def interned_arena edited_object_def parsed_object_def edited_bytes_def get_def
      slice_def)

text \<open>The eight bytes of the edited section land at its place in the output.\<close>

definition edited_output :: bytes where
  "edited_output = replicate 72 0 @ edited_bytes @ replicate 216 0"

lemma edited_copy:
  assumes "objs = [empty_object ''a.o'', edited_object]"
  shows "copy_input_sections edited_arena objs st relink_layout (ChangedObjects {Suc 0}) [(0, Suc 0)] (replicate 296 0) = Ok edited_output"
proof -
  have items: "collect_input_work_items relink_layout objs (ChangedObjects {Suc 0}) =
      [\<lparr>wi_file_off = 72, wi_file_len = 8, wi_section_va = 0x400048, wi_obj = edited_object,
        wi_isec = sections edited_object ! 0, wi_obj_id = 1, wi_section_index = 1, wi_reloc_count = 0\<rparr>]"
    unfolding assms
    by (simp add: collect_input_work_items_def contribution_item_def relink_layout_def relink_section_def edited_object_def
        parsed_object_def empty_object_def get_def map_filter_simps section_data_len_def saturating_add_def)
  have isec: "section_data_len (sec_data (sections edited_object ! 0)) = 8" "sec_relocs (sections edited_object ! 0) = []"
    by (simp_all add: edited_object_def parsed_object_def section_data_len_def)
  have len: "length edited_bytes = 8" by (simp add: edited_bytes_def)
  have "splice (replicate 296 0) 72 edited_bytes = Some edited_output"
    by (simp add: splice_def edited_output_def len)
  then show ?thesis
    using edited_arena_bytes isec
    by (simp add: copy_input_sections_def items validate_work_item_ranges_def range_from_parts_def
        validate_item_containment_def validate_work_ranges_def dispatch_parallel_def get_def process_item_def Let_def
        range_contains_def slice_def)
qed

lemma edited_emits:
  "emit_parse_only_changed edited_world (Some (replicate 296 0)) relink_layout st [''a.o'', ''b.o''] [0, edited_digest]
     [Suc 0] [(0, Suc 0)] = Ok (Some ({Suc 0}, edited_output))"
proof -
  let ?objs = "[empty_object ''a.o'', edited_object]"
  have rows: "build_id_descriptor_offset relink_layout = None" "write_eh_frame_hdr relink_layout c = Ok c" for c
    by (simp_all add: build_id_descriptor_offset_def write_eh_frame_hdr_def relink_layout_def relink_section_def)
  have "ly_file_size relink_layout = 296" by (simp add: relink_layout_def)
  then have "emit_partial_objects (Some (replicate 296 0)) edited_arena ?objs st relink_layout {Suc 0} [(0, Suc 0)] =
      Ok (Some edited_output)"
    using edited_copy [OF refl] rows
    by (simp add: emit_partial_objects_def emit_with_filter_def write_section_data_def open_output_map_def
        finalize_build_id_def Let_def)
  moreover have "list_all (\<lambda>sec. list_all (reloc_reappliable st edited_object) (sec_relocs sec)) (sections edited_object)"
    by (simp add: edited_object_def parsed_object_def)
  ultimately show ?thesis
    by (simp add: emit_parse_only_changed_def edited_parses edited_digests get_def)
qed

lemma edited_relinks:
  assumes "fs = daemon_fs(''b.o'' \<mapsto> demo_file 10)"
  shows "\<exists>fs'. try_parse_only_changed daemon_env daemon_codec edited_world ''a.out'' [''a.o'', ''b.o''] 5 [(0, 1)] fs = Ok (True, fs') \<and>
    map_option cf_data (fs' ''a.out'') = Some edited_output"
  using edited_emits [of "build_cached_symbol_view []"] unfolding assms
  by (simp add: try_parse_only_changed_def daemon_eval output_bytes_def record_link_with_sections_def demo_env_def
      input_fingerprints_def of_file_def atomic_write_def put_output_def del: fast_of_file_iff)

theorem daemon_agrees_witness:
  "map_option fst (daemon_handle daemon_env daemon_codec no_object_world [] 5 daemon_demo daemon_fs) = Some STATUS_NOCHANGE \<and>
   map_option fst (daemon_handle daemon_env daemon_codec no_object_world [] 5 daemon_demo (daemon_fs(''b.o'' \<mapsto> demo_file 10))) =
     Some STATUS_FALLBACK \<and>
   (\<exists>ds' fs'. daemon_handle daemon_env daemon_codec edited_world [(0, 1)] 5 daemon_demo (daemon_fs(''b.o'' \<mapsto> demo_file 10)) =
     Some (STATUS_RELINKED, ds', fs') \<and> map_option cf_data (fs' ''a.out'') = Some edited_output)"
proof -
  let ?fs = "daemon_fs(''b.o'' \<mapsto> demo_file 10)"
  have here: "\<forall>p \<in> set [''a.o'', ''b.o'']. daemon_fs p \<noteq> None" "\<forall>p \<in> set [''a.o'', ''b.o'']. ?fs p \<noteq> None"
    by (simp_all add: daemon_fs_def)
  have 1: "map (stat_of daemon_fs) [''a.o'', ''b.o''] = map Some (ds_input_fps daemon_demo)"
    "map (stat_of ?fs) [''a.o'', ''b.o''] \<noteq> map Some (ds_input_fps daemon_demo)"
    by (simp_all add: daemon_demo_def stat_of_def daemon_fs_def demo_file_def)
  have 2: "try_parse_only_changed daemon_env daemon_codec no_object_world ''a.out'' [''a.o'', ''b.o''] 5 [] ?fs = Ok (False, ?fs)"
    by (simp add: try_parse_only_changed_def daemon_eval emit_parse_only_changed_def no_object_world_def parse_object_def
        del: fast_of_file_iff)
  obtain fs' where 3: "try_parse_only_changed daemon_env daemon_codec edited_world ''a.out'' [''a.o'', ''b.o''] 5 [(0, 1)] ?fs =
      Ok (True, fs')" "map_option cf_data (fs' ''a.out'') = Some edited_output"
    using edited_relinks by blast
  have "distinct [''a.o'', ''b.o'']" by simp
  note d = daemon_agrees [OF daemon_demo_loads this]
  have "\<exists>ds'. daemon_handle daemon_env daemon_codec edited_world [(0, 1)] 5 daemon_demo ?fs = Some (STATUS_RELINKED, ds', fs')"
    using d [of ?fs edited_world "[(0, 1)]"] here 3(1) by (simp add: stat_of_def)
  then show ?thesis
    using d [of daemon_fs no_object_world "[]"] d [of ?fs no_object_world "[]"] here 1 2 3(2)
    by (auto simp: stat_of_def)
qed

end
