(* ===== verification/Live_Sections.thy ===== *)
theory Live_Sections
  imports Object_Model
begin

text \<open>
  The bit set of live input sections, \<^verbatim>\<open>peony-layout/src/gc/live.rs\<close>: per object a vector of 64-bit words,
  sized by the largest section index, and a running count.  The interface \<open>mark_set\<close> states what the
  collector relies on; it is proved for the bit set, and iteration returns exactly the set bits.
\<close>

type_synonym skey = "nat \<times> nat"

record live_sections =
  words_by_object :: "u64 list list"
  live_len :: nat

definition live_new :: "input_object list \<Rightarrow> live_sections" where
  "live_new objs =
     \<lparr>words_by_object = map (\<lambda>obj. replicate (fold max (map sec_index (sections obj)) 0 div 64 + 1) 0) objs,
      live_len = 0\<rparr>"

definition live_word :: "live_sections \<Rightarrow> skey \<Rightarrow> u64 option" where
  "live_word ls k = Option.bind (get (words_by_object ls) (fst k)) (\<lambda>ws. get ws (snd k div 64))"

definition put_live_word :: "live_sections \<Rightarrow> skey \<Rightarrow> u64 \<Rightarrow> u64 list list" where
  "put_live_word ls k w =
     (words_by_object ls)[fst k := (words_by_object ls ! fst k)[snd k div 64 := w]]"

definition live_mask :: "skey \<Rightarrow> u64" where
  "live_mask k = push_bit (snd k mod 64) 1"

definition live_insert :: "skey \<Rightarrow> live_sections \<Rightarrow> bool \<times> live_sections" where
  "live_insert k ls =
     (case live_word ls k of
        None \<Rightarrow> (False, ls)
      | Some w \<Rightarrow>
          if w AND live_mask k \<noteq> 0 then (False, ls)
          else (True, \<lparr>words_by_object = put_live_word ls k (w OR live_mask k), live_len = live_len ls + 1\<rparr>))"

definition live_remove :: "skey \<Rightarrow> live_sections \<Rightarrow> bool \<times> live_sections" where
  "live_remove k ls =
     (case live_word ls k of
        None \<Rightarrow> (False, ls)
      | Some w \<Rightarrow>
          if w AND live_mask k = 0 then (False, ls)
          else (True, \<lparr>words_by_object = put_live_word ls k (w AND NOT (live_mask k)),
                       live_len = live_len ls - 1\<rparr>))"

definition live_contains :: "live_sections \<Rightarrow> skey \<Rightarrow> bool" where
  "live_contains ls k = (case live_word ls k of None \<Rightarrow> False | Some w \<Rightarrow> w AND live_mask k \<noteq> 0)"

definition live_is_empty :: "live_sections \<Rightarrow> bool" where
  "live_is_empty ls \<longleftrightarrow> live_len ls = 0"

definition trailing_zeros :: "u64 \<Rightarrow> nat" where
  "trailing_zeros w = length (takeWhile (\<lambda>i. \<not> bit w i) [0..<64])"

lemma trailing_zeros_bit:
  assumes "w \<noteq> 0"
  shows "trailing_zeros w < 64" "bit w (trailing_zeros w)" "i < trailing_zeros w \<Longrightarrow> \<not> bit w i"
proof -
  let ?P = "\<lambda>i. \<not> bit w i"
  obtain n where n: "bit w n" "n < 64"
    using assms by (auto simp: bit_eq_iff bit_imp_le_length dest: bit_imp_le_length)
  then have "\<not> (\<forall>i \<in> set [0..<64]. ?P i)" by auto
  then have l: "length (takeWhile ?P [0..<64]) < length [0..<64]"
    by (metis takeWhile_eq_all_conv le_neq_implies_less length_takeWhile_le takeWhile_eq_take take_all_iff linorder_not_le)
  then show "trailing_zeros w < 64" by (simp add: trailing_zeros_def)
  show "bit w (trailing_zeros w)" using nth_length_takeWhile [OF l] l by (simp add: trailing_zeros_def)
  assume "i < trailing_zeros w"
  then show "\<not> bit w i"
    using nth_mem [of i "takeWhile ?P [0..<64]"] l
    by (auto simp: trailing_zeros_def takeWhile_nth dest!: set_takeWhileD)
qed

text \<open>\<^verbatim>\<open>word & (word - 1)\<close> clears the lowest set bit.\<close>

lemma clear_lowest_bit:
  assumes "w \<noteq> (0 :: u64)"
  shows "bit (w AND (w - 1)) i \<longleftrightarrow> bit w i \<and> i \<noteq> trailing_zeros w"
proof -
  let ?k = "trailing_zeros w"
  note z = trailing_zeros_bit [OF assms]
  define h where "h = w AND NOT (mask (Suc ?k))"
  have hb: "bit h i \<longleftrightarrow> bit w i \<and> ?k < i" for i
    by (auto simp: h_def bit_simps less_Suc_eq_le dest: bit_imp_le_length)
  have pk: "bit ((2 :: u64) ^ ?k) i \<longleftrightarrow> i = ?k" for i
    using z(1) by (auto simp: bit_exp_iff)
  have w: "w = h OR 2 ^ ?k"
  proof (rule bit_word_eqI)
    fix i assume "i < LENGTH(64)"
    then show "bit w i \<longleftrightarrow> bit (h OR 2 ^ ?k) i"
      unfolding bit_or_iff hb pk using z by (cases i ?k rule: linorder_cases) auto
  qed
  have disj: "h AND 2 ^ ?k = 0" "h AND mask ?k = 0"
    by (rule bit_word_eqI, simp only: bit_and_iff  hb pk bit_0_eq bot_apply bit_mask_iff, auto)+
  have "w = h + 2 ^ ?k" using w disj(1) by (simp add: disjunctive_add_eq_or)
  then have "w - 1 = h + (2 ^ ?k - 1)" by simp
  also have "2 ^ ?k - 1 = (mask ?k :: u64)" by (simp add: mask_eq_exp_minus_1)
  also have "h + mask ?k = h OR mask ?k"
    using disj(2) by (simp add: disjunctive_add_eq_or)
  finally have m: "w - 1 = h OR mask ?k" .
  show ?thesis
    unfolding m bit_and_iff  bit_or_iff  hb bit_mask_iff using z(3) [of i]
    by (auto dest: bit_imp_le_length)
qed

function word_bits :: "u64 \<Rightarrow> nat list" where
  "word_bits w = (if w = 0 then [] else trailing_zeros w # word_bits (w AND (w - 1)))"
  by pat_completeness auto
termination
proof (relation "measure unat")
  fix w :: u64 assume "w \<noteq> 0"
  have "w AND (w - 1) \<noteq> w"
    using clear_lowest_bit [OF \<open>w \<noteq> 0\<close>] trailing_zeros_bit(2) [OF \<open>w \<noteq> 0\<close>] by metis
  moreover have "w AND (w - 1) \<le> w" by (rule word_and_le2)
  ultimately show "(w AND (w - 1), w) \<in> measure unat" by (simp add: word_less_nat_alt [symmetric])
qed simp

declare word_bits.simps [simp del]

lemma set_word_bits: "set (word_bits w) = {i. bit w i}"
proof (induction w rule: word_bits.induct)
  case (1 w)
  show ?case
  proof (cases "w = 0")
    case False
    then show ?thesis
      using 1 clear_lowest_bit [OF False] trailing_zeros_bit(2) [OF False]
      by (subst word_bits.simps) auto
  qed (simp add: word_bits.simps)
qed

definition live_keys :: "live_sections \<Rightarrow> skey list" where
  "live_keys ls =
     concat (map (\<lambda>(oi, ws). concat (map (\<lambda>(wi, w). map (\<lambda>b. (oi, wi * 64 + b)) (word_bits w)) (enumerate 0 ws)))
       (enumerate 0 (words_by_object ls)))"

definition into_hash_set :: "live_sections \<Rightarrow> skey set" where
  "into_hash_set ls = set (live_keys ls)"

section \<open>The interface\<close>

text \<open>What a client relies on: a mark set has room for some keys, marking a key reports whether it is new, and
  marks exactly that key; a key without room is refused.\<close>

locale mark_set =
  fixes mark :: "'k \<Rightarrow> 's \<Rightarrow> bool \<times> 's" and unmark :: "'k \<Rightarrow> 's \<Rightarrow> bool \<times> 's"
    and marked :: "'s \<Rightarrow> 'k \<Rightarrow> bool" and room :: "'s \<Rightarrow> 'k set"
  assumes marked_room: "marked s k \<Longrightarrow> k \<in> room s"
    and mark_new: "fst (mark k s) \<longleftrightarrow> k \<in> room s \<and> \<not> marked s k"
    and marked_mark: "marked (snd (mark k s)) j \<longleftrightarrow> marked s j \<or> (j = k \<and> k \<in> room s)"
    and room_mark: "room (snd (mark k s)) = room s"
    and unmark_old: "fst (unmark k s) \<longleftrightarrow> marked s k"
    and marked_unmark: "marked (snd (unmark k s)) j \<longleftrightarrow> marked s j \<and> j \<noteq> k"
    and room_unmark: "room (snd (unmark k s)) = room s"
    and room_finite: "finite (room s)"
begin

lemma marks_finite: "finite {k. marked s k}"
  by (rule finite_subset [OF _ room_finite [of s]]) (auto dest: marked_room)

lemma card_mark: "card {j. marked (snd (mark k s)) j} = card {j. marked s j} + (if fst (mark k s) then 1 else 0)"
proof (cases "fst (mark k s)")
  case True
  then have "{j. marked (snd (mark k s)) j} = insert k {j. marked s j}" "\<not> marked s k"
    by (auto simp: marked_mark mark_new)
  then show ?thesis using marks_finite True by simp
next
  case False
  then have "{j. marked (snd (mark k s)) j} = {j. marked s j}"
    by (auto simp: marked_mark mark_new marked_room)
  then show ?thesis using False by simp
qed

lemma card_unmark: "card {j. marked (snd (unmark k s)) j} = card {j. marked s j} - (if fst (unmark k s) then 1 else 0)"
proof (cases "marked s k")
  case True
  then have "{j. marked (snd (unmark k s)) j} = {j. marked s j} - {k}" by (auto simp: marked_unmark)
  then show ?thesis using marks_finite True by (simp add: unmark_old)
next
  case False
  then have "{j. marked (snd (unmark k s)) j} = {j. marked s j}" by (auto simp: marked_unmark)
  then show ?thesis using False by (simp add: unmark_old)
qed

lemma unmarked_mark:
  "card (room (snd (mark k s)) - {j. marked (snd (mark k s)) j}) + (if fst (mark k s) then 1 else 0) =
   card (room s - {j. marked s j})"
proof (cases "fst (mark k s)")
  case True
  then have eq: "room s - {j. marked s j} = insert k (room s - {j. marked (snd (mark k s)) j})"
    and nk: "k \<notin> room s - {j. marked (snd (mark k s)) j}"
    by (auto simp: marked_mark mark_new)
  show ?thesis using True room_finite [of s] nk by (simp add: room_mark eq)
next
  case False
  then have "{j. marked (snd (mark k s)) j} = {j. marked s j}"
    by (auto simp: marked_mark mark_new marked_room)
  then show ?thesis using False by (simp add: room_mark)
qed

end

section \<open>The bit set provides it\<close>

definition live_room :: "live_sections \<Rightarrow> skey set" where
  "live_room ls = {k. live_word ls k \<noteq> None}"

lemma bit_live_mask: "bit (live_mask k) i \<longleftrightarrow> i = snd k mod 64"
  by (auto simp: live_mask_def bit_exp_iff)

lemma and_live_mask: "w AND live_mask k \<noteq> 0 \<longleftrightarrow> bit w (snd k mod 64)"
proof
  assume "w AND live_mask k \<noteq> 0"
  then obtain i where "bit (w AND live_mask k) i" by (auto simp: bit_eq_iff)
  then show "bit w (snd k mod 64)" by (auto simp: bit_and_iff bit_live_mask)
next
  assume "bit w (snd k mod 64)"
  then have "bit (w AND live_mask k) (snd k mod 64)" by (simp add: bit_and_iff bit_live_mask)
  then show "w AND live_mask k \<noteq> 0" by auto
qed

lemma live_word_put:
  assumes "live_word ls k = Some w"
  shows "live_word \<lparr>words_by_object = put_live_word ls k w', live_len = n\<rparr> j =
    (if fst j = fst k \<and> snd j div 64 = snd k div 64 then Some w' else live_word ls j)"
  using assms
  by (auto simp: live_word_def put_live_word_def get_def nth_list_update split: if_splits)

lemma same_bit: "fst j = fst k \<and> snd j div 64 = snd k div 64 \<and> snd j mod 64 = snd k mod 64 \<longleftrightarrow> j = (k :: skey)"
  by (metis div_mult_mod_eq prod_eqI)

lemma live_contains_put:
  assumes "live_word ls k = Some w" "\<And>i. i \<noteq> snd k mod 64 \<Longrightarrow> bit w' i = bit w i"
  shows "live_contains \<lparr>words_by_object = put_live_word ls k w', live_len = n\<rparr> j \<longleftrightarrow>
    (if j = k then bit w' (snd k mod 64) else live_contains ls j)"
proof (cases "fst j = fst k \<and> snd j div 64 = snd k div 64")
  case True
  then have "live_word ls j = Some w" using assms(1) by (simp add: live_word_def)
  then show ?thesis
    using True assms(2) [of "snd j mod 64"] same_bit [of j k]
    by (auto simp: live_contains_def live_word_put [OF assms(1)] and_live_mask)
next
  case False
  then show ?thesis by (auto simp: live_contains_def live_word_put [OF assms(1)])
qed

lemma live_room_put:
  assumes "live_word ls k = Some w"
  shows "live_room \<lparr>words_by_object = put_live_word ls k w', live_len = n\<rparr> = live_room ls"
proof -
  have "live_word ls j \<noteq> None" if "fst j = fst k" "snd j div 64 = snd k div 64" for j
    using assms that by (simp add: live_word_def)
  then show ?thesis by (auto simp: live_room_def live_word_put [OF assms])
qed

lemma live_room_finite: "finite (live_room ls)"
proof -
  have "live_room ls \<subseteq> (\<Union>(oi, ws) \<in> set (enumerate 0 (words_by_object ls)). Pair oi ` {..< 64 * length ws})"
  proof
    fix k assume "k \<in> live_room ls"
    then obtain ws where ws: "fst k < length (words_by_object ls)" "ws = words_by_object ls ! fst k"
        "snd k div 64 < length ws"
      by (auto simp: live_room_def live_word_def get_Some_iff bind_eq_Some_conv)
    then have "(fst k, ws) \<in> set (enumerate 0 (words_by_object ls))" by (simp add: in_set_enumerate_eq)
    moreover have "snd k < 64 * length ws" using ws(3) by linarith
    ultimately show "k \<in> (\<Union>(oi, ws) \<in> set (enumerate 0 (words_by_object ls)). Pair oi ` {..< 64 * length ws})"
      by (cases k) force
  qed
  then show ?thesis by (rule finite_subset) auto
qed

lemma live_contains_room: "live_contains ls k \<Longrightarrow> k \<in> live_room ls"
  by (auto simp: live_contains_def live_room_def split: option.splits)

lemma live_ops:
  "fst (live_insert k ls) \<longleftrightarrow> k \<in> live_room ls \<and> \<not> live_contains ls k"
  "live_contains (snd (live_insert k ls)) j \<longleftrightarrow> live_contains ls j \<or> (j = k \<and> k \<in> live_room ls)"
  "live_room (snd (live_insert k ls)) = live_room ls"
  "fst (live_remove k ls) \<longleftrightarrow> live_contains ls k"
  "live_contains (snd (live_remove k ls)) j \<longleftrightarrow> live_contains ls j \<and> j \<noteq> k"
  "live_room (snd (live_remove k ls)) = live_room ls"
proof -
  have ins: "bit (w OR live_mask k) i = bit w i" "bit (w AND NOT (live_mask k)) i = bit w i"
    if "i \<noteq> snd k mod 64" for w i
    using that bit_imp_le_length [of w i] by (auto simp: bit_or_iff bit_and_iff bit_not_iff bit_live_mask)
  have at: "bit (w OR live_mask k) (snd k mod 64)" "\<not> bit (w AND NOT (live_mask k)) (snd k mod 64)" for w
    by (auto simp: bit_or_iff bit_and_iff bit_not_iff bit_live_mask)
  show "fst (live_insert k ls) \<longleftrightarrow> k \<in> live_room ls \<and> \<not> live_contains ls k"
    by (auto simp: live_insert_def live_room_def live_contains_def split: option.splits)
  show "fst (live_remove k ls) \<longleftrightarrow> live_contains ls k"
    by (auto simp: live_remove_def live_contains_def split: option.splits)
  show "live_room (snd (live_insert k ls)) = live_room ls" "live_room (snd (live_remove k ls)) = live_room ls"
    by (auto simp: live_insert_def live_remove_def live_room_put split: option.splits)
  show "live_contains (snd (live_insert k ls)) j \<longleftrightarrow> live_contains ls j \<or> (j = k \<and> k \<in> live_room ls)"
  proof (cases "live_word ls k")
    case (Some w)
    then show ?thesis
      using live_contains_put [OF Some ins(1)] at(1) [of w]
      by (auto simp: live_insert_def live_room_def and_live_mask live_contains_def)
  qed (simp add: live_insert_def live_room_def)
  show "live_contains (snd (live_remove k ls)) j \<longleftrightarrow> live_contains ls j \<and> j \<noteq> k"
  proof (cases "live_word ls k")
    case (Some w)
    then show ?thesis
      using live_contains_put [OF Some ins(2)] at(2) [of w] and_live_mask [of w k]
      by (auto simp: live_remove_def live_contains_def)
  qed (auto simp: live_remove_def live_contains_def)
qed

interpretation live: mark_set live_insert live_remove live_contains live_room
  by unfold_locales (simp_all add: live_ops live_contains_room live_room_finite)


text \<open>The running count, and what iteration returns.\<close>

definition live_ok :: "live_sections \<Rightarrow> bool" where
  "live_ok ls \<longleftrightarrow> live_len ls = card {k. live_contains ls k}"

lemma live_len_insert: "live_len (snd (live_insert k ls)) = live_len ls + (if fst (live_insert k ls) then 1 else 0)"
  by (auto simp: live_insert_def split: option.splits)

lemma live_len_remove: "live_len (snd (live_remove k ls)) = live_len ls - (if fst (live_remove k ls) then 1 else 0)"
  by (auto simp: live_remove_def split: option.splits)

lemma live_ok_ops:
  assumes "live_ok ls"
  shows "live_ok (snd (live_insert k ls))" "live_ok (snd (live_remove k ls))"
  using assms live.card_mark [of k ls] live.card_unmark [of k ls]
  by (simp_all add: live_ok_def live_len_insert live_len_remove)

lemma live_new_empty: "\<not> live_contains (live_new objs) k"
  by (auto simp: live_contains_def live_word_def live_new_def get_def bind_eq_Some_conv simp del: replicate_Suc
      split: option.splits if_splits)

lemma live_ok_new: "live_ok (live_new objs)"
  by (simp add: live_ok_def live_new_empty) (simp add: live_new_def)

lemma bex_enumerate: "(\<exists>(i, x) \<in> set (enumerate 0 xs). P i x) \<longleftrightarrow> (\<exists>i < length xs. P i (xs ! i))"
  by (auto simp: in_set_enumerate_eq Bex_def)

lemma into_hash_set_eq: "into_hash_set ls = {k. live_contains ls k}"
proof -
  have "k \<in> into_hash_set ls \<longleftrightarrow> live_contains ls k" for k
  proof -
    have "k \<in> into_hash_set ls \<longleftrightarrow> (\<exists>(oi, ws) \<in> set (enumerate 0 (words_by_object ls)).
        \<exists>(wi, w) \<in> set (enumerate 0 ws). \<exists>b. bit w b \<and> k = (oi, wi * 64 + b))"
      by (fastforce simp: into_hash_set_def live_keys_def set_word_bits)
    also have "\<dots> \<longleftrightarrow> (\<exists>oi < length (words_by_object ls). \<exists>wi < length (words_by_object ls ! oi).
        \<exists>b. bit (words_by_object ls ! oi ! wi) b \<and> k = (oi, wi * 64 + b))"
      by (simp only: bex_enumerate)
    also have "\<dots> \<longleftrightarrow> live_contains ls k"
    proof
      assume "\<exists>oi < length (words_by_object ls). \<exists>wi < length (words_by_object ls ! oi).
        \<exists>b. bit (words_by_object ls ! oi ! wi) b \<and> k = (oi, wi * 64 + b)"
      then obtain oi wi b where *: "oi < length (words_by_object ls)" "wi < length (words_by_object ls ! oi)"
          "bit (words_by_object ls ! oi ! wi) b" "k = (oi, wi * 64 + b)" by blast
      moreover have "b < 64" using bit_imp_le_length [OF *(3)] by simp
      ultimately show "live_contains ls k"
        by (simp add: live_contains_def live_word_def get_def and_live_mask)
    next
      assume "live_contains ls k"
      then obtain w where w: "live_word ls k = Some w" "bit w (snd k mod 64)"
        by (auto simp: live_contains_def and_live_mask split: option.splits)
      then show "\<exists>oi < length (words_by_object ls). \<exists>wi < length (words_by_object ls ! oi).
        \<exists>b. bit (words_by_object ls ! oi ! wi) b \<and> k = (oi, wi * 64 + b)"
        by (intro exI [of _ "fst k"] conjI exI [of _ "snd k div 64"] exI [of _ "snd k mod 64"])
           (auto simp: live_word_def get_Some_iff bind_eq_Some_conv)
    qed
    finally show ?thesis .
  qed
  then show ?thesis by blast
qed


section \<open>Refinement of plain sets\<close>

datatype live_op = Mark skey | Unmark skey

fun live_exec :: "live_op \<Rightarrow> live_sections \<Rightarrow> live_sections" where
  "live_exec (Mark k) ls = snd (live_insert k ls)"
| "live_exec (Unmark k) ls = snd (live_remove k ls)"

fun set_exec :: "skey set \<Rightarrow> live_op \<Rightarrow> skey set \<Rightarrow> skey set" where
  "set_exec room (Mark k) S = (if k \<in> room then insert k S else S)"
| "set_exec room (Unmark k) S = S - {k}"

lemma live_exec_ops:
  "live_ok ls \<Longrightarrow> live_ok (live_exec op ls)"
  "live_room (live_exec op ls) = live_room ls"
  "{k. live_contains (live_exec op ls) k} = set_exec (live_room ls) op {k. live_contains ls k}"
proof -
  show "live_ok ls \<Longrightarrow> live_ok (live_exec op ls)" by (cases op) (simp_all add: live_ok_ops)
  show "live_room (live_exec op ls) = live_room ls" by (cases op) (simp_all add: live_ops(3,6))
  show "{k. live_contains (live_exec op ls) k} = set_exec (live_room ls) op {k. live_contains ls k}"
    by (cases op) (auto simp: live_ops(2,5))
qed

lemma live_exec_all_ok: "live_ok ls \<Longrightarrow> live_ok (fold live_exec ops ls)"
  by (induction ops arbitrary: ls) (simp_all add: live_exec_ops(1))

lemma live_exec_all: "into_hash_set (fold live_exec ops ls) = fold (set_exec (live_room ls)) ops (into_hash_set ls)"
proof (induction ops arbitrary: ls)
  case (Cons op ops)
  then have "into_hash_set (fold live_exec (op # ops) ls) = fold (set_exec (live_room ls)) ops (into_hash_set (live_exec op ls))"
    by (simp add: live_exec_ops(2))
  then show ?case by (simp add: into_hash_set_eq live_exec_ops(3))
qed simp

text \<open>The bit set of live sections is a set.  After any sequence of insertions and removals from
  the empty bit set of a link, iterating over it returns exactly the keys the same sequence leaves in a
  plain set, where a key beyond the largest section index of its object (rounded up to a word) is never
  taken in, and the running length is the number of those keys.\<close>

theorem live_ops_refine:
  "into_hash_set (fold live_exec ops (live_new objs)) =
     fold (set_exec (live_room (live_new objs))) ops {} \<and>
   live_len (fold live_exec ops (live_new objs)) =
     card (fold (set_exec (live_room (live_new objs))) ops {})"
proof -
  let ?ls = "fold live_exec ops (live_new objs)"
  have "into_hash_set (live_new objs) = {}" by (simp add: into_hash_set_eq live_new_empty)
  then have set: "into_hash_set ?ls = fold (set_exec (live_room (live_new objs))) ops {}"
    by (simp only: live_exec_all)
  have "live_len ?ls = card {k. live_contains ?ls k}"
    using live_exec_all_ok [OF live_ok_new] unfolding live_ok_def .
  then show ?thesis unfolding set [symmetric] into_hash_set_eq by (rule conjI [OF refl])
qed

text \<open>The bit set has room for every section of its link.\<close>

lemma fold_max_ge: "x \<in> set xs \<or> x \<le> a \<Longrightarrow> x \<le> fold max xs (a :: nat)"
proof -
  assume "x \<in> set xs \<or> x \<le> a"
  then have "x \<le> Max (set (a # xs))" by (auto simp: Max_ge_iff)
  then show ?thesis by (simp only: Max.set_eq_fold)
qed

lemma live_room_section:
  assumes "oi < length objs" "s \<in> set (sections (objs ! oi))"
  shows "(oi, sec_index s) \<in> live_room (live_new objs)"
proof -
  have "sec_index s \<le> fold max (map sec_index (sections (objs ! oi))) 0"
    using assms(2) by (intro fold_max_ge) auto
  then have "sec_index s div 64 < Suc (fold max (map sec_index (sections (objs ! oi))) 0 div 64)"
    by (simp only: less_Suc_eq_le div_le_mono)
  moreover define m where "m = fold max (map sec_index (sections (objs ! oi))) 0 div 64"
  ultimately have "get (replicate (m + 1) 0) (sec_index s div 64) = Some (0 :: u64)"
    by (simp add: get_def del: replicate_Suc)
  then show ?thesis
    using assms(1) by (simp add: live_room_def live_word_def live_new_def get_def [of "map _ _"] m_def)
qed

end
