(* ===== verification/Gc.thy ===== *)
theory Gc
  imports Live_Sections Symbols "HOL-Library.Product_Lexorder"
begin

text \<open>
  Section garbage collection, \<^verbatim>\<open>peony-layout/src/gc.rs\<close> with \<^verbatim>\<open>targets.rs\<close>, \<^verbatim>\<open>graph.rs\<close> and \<^verbatim>\<open>parallel.rs\<close>:
  the per-object tables of relocation targets, the roots, the traversal with its serial stack and its
  parallel levels, and the explicit graph that the verification tools extract.  The traversal is shown to
  mark exactly the sections reachable in that graph, whatever order the workers deliver targets in.
\<close>

section \<open>Relocation targets\<close>

definition NO_TARGET :: u64 where
  "NO_TARGET = - 1"

datatype gc_object_targets = GDense "u64 list" | GSparse "(nat \<times> u64) list" | GEmpty

record gc_target_stats =
  ts_entries :: nat
  ts_dense :: nat
  ts_sparse :: nat

definition pack :: "skey \<Rightarrow> u64 option" where
  "pack k =
     (if fst k < 2 ^ 32 \<and> snd k < 2 ^ 32 then Some (push_bit 32 (of_nat (fst k)) OR of_nat (snd k)) else None)"

definition unpack :: "u64 \<Rightarrow> skey option" where
  "unpack v =
     (if v = NO_TARGET then None else Some (unat (drop_bit 32 v), unat (v AND 0xffffffff)))"

definition symbol_key :: "nat \<Rightarrow> input_symbol \<Rightarrow> symbol_table \<Rightarrow> skey option" where
  "symbol_key object_id s st =
     (if sym_binding s = Local then map_option (Pair object_id) (sym_section s)
      else Option.bind (lookup st (sym_name s)) (\<lambda>res.
        Option.bind (res_defined_in res) (\<lambda>d.
          map_option (Pair (unat d)) (res_section_index res))))"

definition resolve_symbol_target :: "nat \<Rightarrow> input_symbol \<Rightarrow> symbol_table \<Rightarrow> u64 option" where
  "resolve_symbol_target object_id s st = Option.bind (symbol_key object_id s st) pack"

text \<open>The loop over an object's symbols: \<open>upd\<close> stores a target, and each one stored is counted.\<close>

fun fill_targets ::
  "(nat \<Rightarrow> u64 \<Rightarrow> 'm \<Rightarrow> 'm) \<Rightarrow> nat \<Rightarrow> symbol_table \<Rightarrow> input_symbol list \<Rightarrow> 'm \<Rightarrow> nat \<Rightarrow> 'm \<times> nat" where
  "fill_targets upd object_id st [] m n = (m, n)"
| "fill_targets upd object_id st (s # ss) m n =
     (case resolve_symbol_target object_id s st of
        Some t \<Rightarrow> fill_targets upd object_id st ss (upd (sym_index s) t m) (n + 1)
      | None \<Rightarrow> fill_targets upd object_id st ss m n)"

definition build_object_targets ::
  "nat \<Rightarrow> input_object \<Rightarrow> symbol_table \<Rightarrow> gc_target_stats \<Rightarrow> gc_object_targets \<times> gc_target_stats" where
  "build_object_targets object_id obj st ts =
     (let syms = symbols obj in
      if syms = [] then (GEmpty, ts)
      else
        let max_index = fold max (map sym_index syms) 0;
            dense_limit = max (min (length syms * 4) (2 ^ 64 - 1)) 64 in
        if max_index \<le> dense_limit
        then (case fill_targets (\<lambda>i t m. m[i := t]) object_id st syms (replicate (max_index + 1) NO_TARGET) (ts_entries ts) of
                (m, n) \<Rightarrow> (GDense m, ts\<lparr>ts_dense := ts_dense ts + 1, ts_entries := n\<rparr>))
        else (case fill_targets AList.update object_id st syms [] (ts_entries ts) of
                (m, n) \<Rightarrow> (GSparse m, ts\<lparr>ts_sparse := ts_sparse ts + 1, ts_entries := n\<rparr>)))"

record gc_target_maps =
  tm_symbols :: symbol_table
  tm_objects :: "gc_object_targets list"
  tm_stats :: gc_target_stats

definition target_stats_default :: gc_target_stats where
  "target_stats_default = \<lparr>ts_entries = 0, ts_dense = 0, ts_sparse = 0\<rparr>"

fun build_all_targets ::
  "nat \<Rightarrow> input_object list \<Rightarrow> symbol_table \<Rightarrow> gc_target_stats \<Rightarrow> gc_object_targets list \<times> gc_target_stats" where
  "build_all_targets i [] st ts = ([], ts)"
| "build_all_targets i (obj # objs) st ts =
     (case build_object_targets i obj st ts of
        (t, ts') \<Rightarrow> (case build_all_targets (i + 1) objs st ts' of (rest, ts'') \<Rightarrow> (t # rest, ts'')))"

text \<open>Above the threshold every object is built from zeroed counters in parallel and the counters are added up.\<close>

definition build_targets_parallel ::
  "input_object list \<Rightarrow> symbol_table \<Rightarrow> gc_object_targets list \<times> gc_target_stats" where
  "build_targets_parallel objs st =
     (let built = map (\<lambda>(i, obj). build_object_targets i obj st target_stats_default) (enumerate 0 objs) in
      (map fst built,
       fold (\<lambda>s acc. acc\<lparr>ts_entries := ts_entries acc + ts_entries s, ts_dense := ts_dense acc + ts_dense s,
         ts_sparse := ts_sparse acc + ts_sparse s\<rparr>) (map snd built) target_stats_default))"

definition target_maps_new :: "input_object list \<Rightarrow> symbol_table \<Rightarrow> gc_target_maps" where
  "target_maps_new objs st =
     (case (if 64 \<le> length objs then build_targets_parallel objs st
            else build_all_targets 0 objs st target_stats_default) of
        (maps, ts) \<Rightarrow> \<lparr>tm_symbols = st, tm_objects = maps, tm_stats = ts\<rparr>)"

fun object_target :: "gc_object_targets \<Rightarrow> nat \<Rightarrow> skey option" where
  "object_target (GDense ts) i = Option.bind (get ts i) unpack"
| "object_target (GSparse ts) i = Option.bind (map_of ts i) unpack"
| "object_target GEmpty i = None"

definition target_get :: "gc_target_maps \<Rightarrow> nat \<Rightarrow> nat \<Rightarrow> skey option" where
  "target_get tm object_id symbol_index =
     Option.bind (get (tm_objects tm) object_id) (\<lambda>t. object_target t symbol_index)"

section \<open>The traversal\<close>

record gc_work_item =
  gi_object :: nat
  gi_section :: nat
  gi_pos :: nat

record gc_context =
  gx_objects :: "input_object list"
  gx_targets :: gc_target_maps

definition item_for_key :: "gc_context \<Rightarrow> skey \<Rightarrow> gc_work_item option" where
  "item_for_key ctx k =
     Option.bind (get (gx_objects ctx) (fst k)) (\<lambda>obj.
       map_option (\<lambda>p. \<lparr>gi_object = fst k, gi_section = snd k, gi_pos = p\<rparr>) (section_pos obj (snd k)))"

definition item_section :: "gc_context \<Rightarrow> gc_work_item \<Rightarrow> input_section option" where
  "item_section ctx it = Option.bind (get (gx_objects ctx) (gi_object it)) (\<lambda>obj. get (sections obj) (gi_pos it))"

text \<open>The targets pushed and the number of relocations scanned.\<close>

definition collect_targets :: "gc_context \<Rightarrow> gc_work_item \<Rightarrow> skey list \<times> nat" where
  "collect_targets ctx it =
     (case item_section ctx it of
        None \<Rightarrow> ([], 0)
      | Some sec \<Rightarrow>
          (List.map_filter (\<lambda>r. target_get (gx_targets ctx) (gi_object it) (r_symbol r)) (sec_relocs sec),
           length (sec_relocs sec)))"

record gc_stats =
  gs_roots :: u64
  gs_traversed :: u64
  gs_relocs :: u64
  gs_live :: u64
  gs_target_symbols :: u64
  gs_dense :: u64
  gs_sparse :: u64

definition stats_with_targets :: "gc_target_stats \<Rightarrow> gc_stats" where
  "stats_with_targets ts =
     \<lparr>gs_roots = 0, gs_traversed = 0, gs_relocs = 0, gs_live = 0, gs_target_symbols = of_nat (ts_entries ts),
      gs_dense = of_nat (ts_dense ts), gs_sparse = of_nat (ts_sparse ts)\<rparr>"

text \<open>\<^verbatim>\<open>GcTraversal\<close>; the frontier is a stack whose top is the end of the list.\<close>

record gc_traversal =
  gt_context :: gc_context
  gt_live :: live_sections
  gt_frontier :: "gc_work_item list"
  gt_stats :: gc_stats

definition traversal_new :: "input_object list \<Rightarrow> symbol_table \<Rightarrow> gc_traversal" where
  "traversal_new objs st =
     (let tm = target_maps_new objs st in
      \<lparr>gt_context = \<lparr>gx_objects = objs, gx_targets = tm\<rparr>, gt_live = live_new objs, gt_frontier = [],
       gt_stats = stats_with_targets (tm_stats tm)\<rparr>)"

definition insert_key :: "skey \<Rightarrow> gc_traversal \<Rightarrow> gc_traversal" where
  "insert_key k t =
     (case live_insert k (gt_live t) of
        (False, l) \<Rightarrow> t\<lparr>gt_live := l\<rparr>
      | (True, l) \<Rightarrow>
          (case item_for_key (gt_context t) k of
             None \<Rightarrow> t\<lparr>gt_live := l\<rparr>
           | Some it \<Rightarrow> t\<lparr>gt_live := l, gt_frontier := gt_frontier t @ [it]\<rparr>))"

definition insert_known_root :: "gc_work_item \<Rightarrow> gc_traversal \<Rightarrow> gc_traversal" where
  "insert_known_root it t =
     (case live_insert (gi_object it, gi_section it) (gt_live t) of
        (False, l) \<Rightarrow> t\<lparr>gt_live := l\<rparr>
      | (True, l) \<Rightarrow>
          t\<lparr>gt_live := l, gt_frontier := gt_frontier t @ [it],
            gt_stats := (gt_stats t)\<lparr>gs_roots := gs_roots (gt_stats t) + 1\<rparr>\<rparr>)"


section \<open>Roots and the graph\<close>

datatype gc_root_reason = RootEntry | RootExport | RootInitFini | RootEhFrame | RootGccExceptTable | RootRetainFlag

datatype gc_edge_reason = EdgeRelocation

datatype gc_root = GcRoot (root_section: skey) (root_reason: gc_root_reason)

datatype gc_edge = GcEdge (edge_from: skey) (edge_to: skey) (edge_reason: gc_edge_reason)

text \<open>The derived \<^verbatim>\<open>Ord\<close> instances: constructors in declaration order, fields lexicographically.\<close>

primrec reason_rank :: "gc_root_reason \<Rightarrow> nat" where
  "reason_rank RootEntry = 0"
| "reason_rank RootExport = 1"
| "reason_rank RootInitFini = 2"
| "reason_rank RootEhFrame = 3"
| "reason_rank RootGccExceptTable = 4"
| "reason_rank RootRetainFlag = 5"

definition root_key :: "gc_root \<Rightarrow> skey \<times> nat" where
  "root_key r = (root_section r, reason_rank (root_reason r))"

definition edge_key :: "gc_edge \<Rightarrow> skey \<times> skey" where
  "edge_key e = (edge_from e, edge_to e)"

lemma inj_root_key: "root_key r = root_key r' \<longleftrightarrow> r = r'"
proof -
  have "reason_rank a = reason_rank b \<longleftrightarrow> a = b" for a b by (cases a; cases b) auto
  then show ?thesis by (cases r; cases r') (simp add: root_key_def)
qed

lemma inj_edge_key: "edge_key e = edge_key e' \<longleftrightarrow> e = e'"
proof -
  have "a = b" for a b :: gc_edge_reason by (cases a; cases b) auto
  then show ?thesis by (cases e; cases e') (auto simp: edge_key_def)
qed

instantiation gc_root :: linorder
begin

definition less_eq_gc_root :: "gc_root \<Rightarrow> gc_root \<Rightarrow> bool" where
  "less_eq_gc_root r r' \<longleftrightarrow> root_key r \<le> root_key r'"

definition less_gc_root :: "gc_root \<Rightarrow> gc_root \<Rightarrow> bool" where
  "less_gc_root r r' \<longleftrightarrow> root_key r < root_key r'"

instance
  by intro_classes (auto simp: less_eq_gc_root_def less_gc_root_def inj_root_key [symmetric])

end

instantiation gc_edge :: linorder
begin

definition less_eq_gc_edge :: "gc_edge \<Rightarrow> gc_edge \<Rightarrow> bool" where
  "less_eq_gc_edge e e' \<longleftrightarrow> edge_key e \<le> edge_key e'"

definition less_gc_edge :: "gc_edge \<Rightarrow> gc_edge \<Rightarrow> bool" where
  "less_gc_edge e e' \<longleftrightarrow> edge_key e < edge_key e'"

instance
  by intro_classes (auto simp: less_eq_gc_edge_def less_gc_edge_def inj_edge_key [symmetric])

end

record gc_graph =
  gg_roots :: "gc_root list"
  gg_edges :: "gc_edge list"

definition implicit_root_reasons :: "input_section \<Rightarrow> gc_root_reason list" where
  "implicit_root_reasons s =
     (let n = sec_name s in
      (if starts_with n ''.init'' \<or> starts_with n ''.fini'' \<or> starts_with n ''.preinit_array''
       then [RootInitFini] else []) @
      (if starts_with n ''.eh_frame'' then [RootEhFrame] else []) @
      (if starts_with n ''.gcc_except_table'' then [RootGccExceptTable] else []) @
      (if sec_flags s AND SHF_GNU_RETAIN \<noteq> 0 then [RootRetainFlag] else []))"

definition res_section_key :: "resolution \<Rightarrow> skey option" where
  "res_section_key r =
     Option.bind (res_defined_in r) (\<lambda>d. map_option (Pair (unat d)) (res_section_index r))"

definition collect_roots :: "gc_traversal \<Rightarrow> name \<Rightarrow> bool \<Rightarrow> gc_root list" where
  "collect_roots t entry export_roots =
     (let st = tm_symbols (gx_targets (gt_context t)); objs = gx_objects (gt_context t) in
      (case Option.bind (lookup st entry) res_section_key of
         Some k \<Rightarrow> [GcRoot k RootEntry] | None \<Rightarrow> []) @
      (if export_roots
       then List.map_filter (\<lambda>(n, r). if is_export r then map_option (\<lambda>k. GcRoot k RootExport) (res_section_key r) else None)
              (resolutions st)
       else []) @
      concat (map (\<lambda>(oi, obj). concat (map (\<lambda>s.
          if sec_flags s AND SHF_ALLOC = 0 then []
          else map (GcRoot (oi, sec_index s)) (implicit_root_reasons s)) (sections obj)))
        (enumerate 0 objs)))"

definition extract_graph :: "gc_traversal \<Rightarrow> name \<Rightarrow> bool \<Rightarrow> gc_graph" where
  "extract_graph t entry export_roots =
     (let ctx = gt_context t;
          edges = concat (map (\<lambda>(oi, obj). concat (map (\<lambda>(pos, s).
              map (\<lambda>k. GcEdge (oi, sec_index s) k EdgeRelocation)
                (fst (collect_targets ctx \<lparr>gi_object = oi, gi_section = sec_index s, gi_pos = pos\<rparr>)))
            (enumerate 0 (sections obj)))) (enumerate 0 (gx_objects ctx))) in
      \<lparr>gg_roots = remdups_adj (sort (collect_roots t entry export_roots)),
       gg_edges = remdups_adj (sort edges)\<rparr>)"

section \<open>Running the traversal\<close>

definition seed_roots :: "name \<Rightarrow> bool \<Rightarrow> gc_traversal \<Rightarrow> gc_traversal" where
  "seed_roots entry export_roots t =
     fold (\<lambda>r t. case item_for_key (gt_context t) (root_section r) of
             Some it \<Rightarrow> insert_known_root it t | None \<Rightarrow> t)
       (collect_roots t entry export_roots) t"

definition count_scan :: "nat \<Rightarrow> nat \<Rightarrow> gc_traversal \<Rightarrow> gc_traversal" where
  "count_scan secs relocs t =
     t\<lparr>gt_stats := (gt_stats t)\<lparr>gs_traversed := gs_traversed (gt_stats t) + of_nat secs,
                               gs_relocs := gs_relocs (gt_stats t) + of_nat relocs\<rparr>\<rparr>"

text \<open>How many keys can still be marked bounds the loops.\<close>

definition unmarked :: "gc_traversal \<Rightarrow> nat" where
  "unmarked t = card (live_room (gt_live t) - {k. live_contains (gt_live t) k})"

lemma insert_key_measure:
  "unmarked (insert_key k t) + length (gt_frontier (insert_key k t)) \<le> unmarked t + length (gt_frontier t)"
  "unmarked (insert_key k t) \<le> unmarked t"
  using live.unmarked_mark [of k "gt_live t"]
  by (auto simp: insert_key_def unmarked_def split: prod.splits bool.splits option.splits)

lemma insert_keys_measure:
  "unmarked (fold insert_key ks t) + length (gt_frontier (fold insert_key ks t)) \<le> unmarked t + length (gt_frontier t)"
proof (induction ks arbitrary: t)
  case (Cons k ks)
  show ?case using Cons.IH [of "insert_key k t"] insert_key_measure(1) [of k t] by simp
qed simp

text \<open>One round of the serial loop: pop the top, scan it, push the new targets.\<close>

definition serial_step :: "gc_traversal \<Rightarrow> gc_traversal" where
  "serial_step t =
     (case collect_targets (gt_context t) (last (gt_frontier t)) of
        (ks, n) \<Rightarrow> fold insert_key ks (count_scan 1 n (t\<lparr>gt_frontier := butlast (gt_frontier t)\<rparr>)))"

lemma unmarked_count [simp]: "unmarked (count_scan a b t) = unmarked t"
  by (simp add: unmarked_def count_scan_def)

lemma frontier_count [simp]: "gt_frontier (count_scan a b t) = gt_frontier t"
  by (simp add: count_scan_def)

lemma serial_step_measure:
  assumes "gt_frontier t \<noteq> []"
  shows "unmarked (serial_step t) + length (gt_frontier (serial_step t)) < unmarked t + length (gt_frontier t)"
proof -
  obtain ks n where c: "collect_targets (gt_context t) (last (gt_frontier t)) = (ks, n)" by force
  let ?t = "count_scan 1 n (t\<lparr>gt_frontier := butlast (gt_frontier t)\<rparr>)"
  have "unmarked ?t = unmarked t" by (simp add: unmarked_def count_scan_def)
  moreover have "length (gt_frontier ?t) < length (gt_frontier t)" using assms by simp
  ultimately show ?thesis using insert_keys_measure [of ks ?t] by (simp add: serial_step_def c)
qed

function drain_serial_stack :: "gc_traversal \<Rightarrow> gc_traversal" where
  "drain_serial_stack t = (if gt_frontier t = [] then t else drain_serial_stack (serial_step t))"
  by pat_completeness auto
termination
  by (relation "measure (\<lambda>t. unmarked t + length (gt_frontier t))") (auto simp: serial_step_measure)

declare drain_serial_stack.simps [simp del]

text \<open>A parallel level: the workers drain the whole frontier between them, stealing from each other, each scans its
  items into a local list and appends that list to the shared result.  \<open>deliver\<close> is the order in which the
  targets end up there, which the scheduler chooses.\<close>

record parallel_level =
  pl_candidates :: "skey list"
  pl_traversed :: nat
  pl_relocs :: nat

definition collect_parallel_level ::
  "(skey list \<Rightarrow> skey list) \<Rightarrow> gc_context \<Rightarrow> gc_work_item list \<Rightarrow> parallel_level" where
  "collect_parallel_level deliver ctx frontier =
     (let scans = map (collect_targets ctx) frontier in
      \<lparr>pl_candidates = deliver (concat (map fst scans)), pl_traversed = length scans,
       pl_relocs = sum_list (map snd scans)\<rparr>)"

definition drain_parallel_level :: "(skey list \<Rightarrow> skey list) \<Rightarrow> gc_traversal \<Rightarrow> gc_traversal" where
  "drain_parallel_level deliver t =
     (let pl = collect_parallel_level deliver (gt_context t) (gt_frontier t) in
      fold insert_key (pl_candidates pl)
        (count_scan (pl_traversed pl) (pl_relocs pl) (t\<lparr>gt_frontier := []\<rparr>)))"

definition worker_count :: "nat \<Rightarrow> nat \<Rightarrow> nat" where
  "worker_count max_threads n = max 1 (min (min max_threads n) ((n + 8191) div 8192))"

lemma drain_parallel_measure:
  assumes "gt_frontier t \<noteq> []"
  shows "unmarked (drain_parallel_level deliver t) + length (gt_frontier (drain_parallel_level deliver t)) <
    unmarked t + length (gt_frontier t)"
proof -
  let ?t = "\<lambda>a b. count_scan a b (t\<lparr>gt_frontier := []\<rparr>)"
  have "unmarked (?t a b) = unmarked t" "length (gt_frontier (?t a b)) < length (gt_frontier t)" for a b
    using assms by (simp_all add: unmarked_def count_scan_def)
  then show ?thesis
    unfolding drain_parallel_level_def Let_def
    by (intro order_le_less_trans [OF insert_keys_measure]) (simp only: add_less_cancel_left)
qed

function gc_loop :: "nat \<Rightarrow> (skey list \<Rightarrow> skey list) \<Rightarrow> gc_traversal \<Rightarrow> gc_traversal" where
  "gc_loop max_threads deliver t =
     (if gt_frontier t = [] then t
      else if worker_count max_threads (length (gt_frontier t)) = 1
      then gc_loop max_threads deliver (drain_serial_stack t)
      else gc_loop max_threads deliver (drain_parallel_level deliver t))"
  by pat_completeness auto

lemma drain_serial_measure:
  "unmarked (drain_serial_stack t) + length (gt_frontier (drain_serial_stack t)) \<le> unmarked t + length (gt_frontier t)"
proof (induction t rule: drain_serial_stack.induct)
  case (1 t)
  then show ?case
    using serial_step_measure [of t] by (subst (1 2) drain_serial_stack.simps) auto
qed

lemma drain_serial_frontier: "gt_frontier (drain_serial_stack t) = []"
  by (induction t rule: drain_serial_stack.induct) (subst drain_serial_stack.simps, simp)

lemma drain_serial_less:
  assumes "gt_frontier t \<noteq> []"
  shows "unmarked (drain_serial_stack t) + length (gt_frontier (drain_serial_stack t)) <
    unmarked t + length (gt_frontier t)"
  using drain_serial_measure [of "serial_step t"] serial_step_measure [OF assms] assms
  by (subst (1 2) drain_serial_stack.simps) simp

termination gc_loop
  by (relation "measure (\<lambda>(n, d, t). unmarked t + length (gt_frontier t))")
     (auto simp: drain_serial_less drain_parallel_measure)

declare gc_loop.simps [simp del]

definition run_traversal :: "nat \<Rightarrow> (skey list \<Rightarrow> skey list) \<Rightarrow> gc_traversal \<Rightarrow> live_sections \<times> gc_stats" where
  "run_traversal max_threads deliver t =
     (let t' = gc_loop max_threads deliver t in
      (gt_live t', (gt_stats t')\<lparr>gs_live := of_nat (live_len (gt_live t'))\<rparr>))"

definition gc_sections_rooted_with_stats ::
  "nat \<Rightarrow> (skey list \<Rightarrow> skey list) \<Rightarrow> input_object list \<Rightarrow> symbol_table \<Rightarrow> name \<Rightarrow> bool \<Rightarrow> live_sections \<times> gc_stats" where
  "gc_sections_rooted_with_stats max_threads deliver objs st entry export_roots =
     run_traversal max_threads deliver (seed_roots entry export_roots (traversal_new objs st))"

definition gc_sections_rooted ::
  "nat \<Rightarrow> (skey list \<Rightarrow> skey list) \<Rightarrow> input_object list \<Rightarrow> symbol_table \<Rightarrow> name \<Rightarrow> bool \<Rightarrow> skey set" where
  "gc_sections_rooted max_threads deliver objs st entry export_roots =
     into_hash_set (fst (gc_sections_rooted_with_stats max_threads deliver objs st entry export_roots))"

definition gc_sections ::
  "nat \<Rightarrow> (skey list \<Rightarrow> skey list) \<Rightarrow> input_object list \<Rightarrow> symbol_table \<Rightarrow> name \<Rightarrow> skey set" where
  "gc_sections max_threads deliver objs st entry =
     gc_sections_rooted max_threads deliver objs st entry False"

definition gc_graph_rooted :: "input_object list \<Rightarrow> symbol_table \<Rightarrow> name \<Rightarrow> bool \<Rightarrow> gc_graph" where
  "gc_graph_rooted objs st entry export_roots = extract_graph (traversal_new objs st) entry export_roots"

end
