(* ===== verification/Gc_Reach.thy ===== *)
theory Gc_Reach
  imports Gc
begin

text \<open>
  What the collector computes: the sections reachable from the roots in the graph that \<^verbatim>\<open>gc_graph_rooted\<close>
  extracts.  The invariant of the traversal says that everything marked is reachable and that a marked
  section waits in the frontier or has its targets marked; every step keeps it and the loop ends, so that
  at the end nothing reachable is missing, for every number of threads and every delivery order.
\<close>

section \<open>Reachability\<close>

inductive gc_reachable :: "gc_graph \<Rightarrow> skey \<Rightarrow> bool" for g where
  root: "GcRoot k why \<in> set (gg_roots g) \<Longrightarrow> gc_reachable g k"
| edge: "gc_reachable g k \<Longrightarrow> GcEdge k k' why \<in> set (gg_edges g) \<Longrightarrow> gc_reachable g k'"

definition known :: "input_object list \<Rightarrow> skey \<Rightarrow> bool" where
  "known objs k \<longleftrightarrow> fst k < length objs \<and> snd k \<in> sec_index ` set (sections (objs ! fst k))"

text \<open>The index table of every object is the position function of its sections, as the parser builds it.\<close>

definition objs_indexed :: "input_object list \<Rightarrow> bool" where
  "objs_indexed objs \<longleftrightarrow>
     (\<forall>obj \<in> set objs. \<forall>i p. section_pos obj i = Some p \<longleftrightarrow> p < length (sections obj) \<and> sec_index (sections obj ! p) = i)"

lemma parsed_indexed:
  assumes "distinct (map sec_index secs)" "length secs \<le> MISSING_INDEX"
  shows "section_pos (parsed_object hints p secs syms groups) i = Some q \<longleftrightarrow>
    q < length secs \<and> sec_index (secs ! q) = i"
proof -
  have valid: "\<forall>q < length (map sec_index secs). q \<noteq> MISSING_INDEX" using assms(2) by auto
  have at: "section_pos (parsed_object hints p secs syms groups) (sec_index (secs ! k)) = Some k"
    if "k < length secs" for k
    using that dense_index.lookup_enumerate(1) [OF valid assms(1), of k "fst hints + 1"]
    by (simp add: section_pos_def parsed_object_def build_section_map_def)
  show ?thesis
  proof (cases "i \<in> set (map sec_index secs)")
    case True
    then obtain k where k: "k < length secs" "i = sec_index (secs ! k)" by (auto simp: in_set_conv_nth)
    then have "q < length secs \<Longrightarrow> sec_index (secs ! q) = i \<Longrightarrow> q = k"
      using nth_eq_iff_index_eq [OF assms(1), of q k] by simp
    then show ?thesis using at [OF k(1)] k by auto
  next
    case False
    then have "section_pos (parsed_object hints p secs syms groups) i = None"
      using dense_index.lookup_enumerate(2) [OF valid assms(1), of i "fst hints + 1"]
      by (simp add: section_pos_def parsed_object_def build_section_map_def)
    then show ?thesis using False by auto
  qed
qed

section \<open>Items and successors\<close>

definition succs :: "gc_context \<Rightarrow> skey \<Rightarrow> skey list" where
  "succs ctx k = (case item_for_key ctx k of None \<Rightarrow> [] | Some it \<Rightarrow> fst (collect_targets ctx it))"

lemma item_for_key_Some:
  "item_for_key ctx k = Some it \<Longrightarrow> k = (gi_object it, gi_section it)"
  by (auto simp: item_for_key_def bind_eq_Some_conv prod_eq_iff)

lemma item_for_key_iff:
  assumes "objs_indexed objs" "gx_objects ctx = objs"
  shows "item_for_key ctx k = Some it \<longleftrightarrow>
    (\<exists>oi < length objs. \<exists>pos < length (sections (objs ! oi)).
       k = (oi, sec_index (sections (objs ! oi) ! pos)) \<and>
       it = \<lparr>gi_object = oi, gi_section = sec_index (sections (objs ! oi) ! pos), gi_pos = pos\<rparr>)"
proof (cases "fst k < length objs")
  case True
  then have "objs ! fst k \<in> set objs" by simp
  then have pos: "section_pos (objs ! fst k) i = Some p \<longleftrightarrow>
      p < length (sections (objs ! fst k)) \<and> sec_index (sections (objs ! fst k) ! p) = i" for i p
    using assms(1) by (auto simp: objs_indexed_def)
  have "item_for_key ctx k = Some it \<longleftrightarrow>
      (\<exists>p. section_pos (objs ! fst k) (snd k) = Some p \<and> it = \<lparr>gi_object = fst k, gi_section = snd k, gi_pos = p\<rparr>)"
    using True assms(2) by (auto simp: item_for_key_def get_def)
  then show ?thesis unfolding pos using True by (cases k) auto
next
  case False
  then show ?thesis using assms(2) by (auto simp: item_for_key_def get_def)
qed

lemma item_known:
  assumes "objs_indexed objs" "gx_objects ctx = objs"
  shows "item_for_key ctx k \<noteq> None \<longleftrightarrow> known objs k"
proof -
  have "item_for_key ctx k \<noteq> None \<longleftrightarrow> (\<exists>it. item_for_key ctx k = Some it)" by auto
  then show ?thesis
    unfolding item_for_key_iff [OF assms] known_def by (cases k) (force simp: in_set_conv_nth)
qed

lemma graph_edges:
  assumes "objs_indexed objs" "gx_objects (gt_context t) = objs"
  shows "GcEdge k k' why \<in> set (gg_edges (extract_graph t entry ex)) \<longleftrightarrow> k' \<in> set (succs (gt_context t) k)"
proof -
  let ?ctx = "gt_context t"
  have "GcEdge k k' why \<in> set (gg_edges (extract_graph t entry ex)) \<longleftrightarrow>
      (\<exists>(oi, obj) \<in> set (enumerate 0 objs). \<exists>(pos, s) \<in> set (enumerate 0 (sections obj)).
        k = (oi, sec_index s) \<and>
        k' \<in> set (fst (collect_targets ?ctx \<lparr>gi_object = oi, gi_section = sec_index s, gi_pos = pos\<rparr>)))"
    using assms(2) by (cases why) (fastforce simp: extract_graph_def Let_def)
  also have "\<dots> \<longleftrightarrow> (\<exists>oi < length objs. \<exists>pos < length (sections (objs ! oi)).
        k = (oi, sec_index (sections (objs ! oi) ! pos)) \<and>
        k' \<in> set (fst (collect_targets ?ctx
          \<lparr>gi_object = oi, gi_section = sec_index (sections (objs ! oi) ! pos), gi_pos = pos\<rparr>)))"
    by (simp only: bex_enumerate)
  also have "\<dots> \<longleftrightarrow> (\<exists>it. item_for_key ?ctx k = Some it \<and> k' \<in> set (fst (collect_targets ?ctx it)))"
    unfolding item_for_key_iff [OF assms] by blast
  also have "\<dots> \<longleftrightarrow> k' \<in> set (succs ?ctx k)" by (cases "item_for_key ?ctx k") (auto simp: succs_def)
  finally show ?thesis .
qed

lemma graph_roots:
  "GcRoot k why \<in> set (gg_roots (extract_graph t entry ex)) \<longleftrightarrow> GcRoot k why \<in> set (collect_roots t entry ex)"
  by (simp add: extract_graph_def Let_def)

section \<open>What marking does\<close>

lemma insert_key_simps:
  "gt_context (insert_key k t) = gt_context t"
  "live_room (gt_live (insert_key k t)) = live_room (gt_live t)"
  "live_contains (gt_live (insert_key k t)) j \<longleftrightarrow> live_contains (gt_live t) j \<or> (j = k \<and> k \<in> live_room (gt_live t))"
  "set (gt_frontier (insert_key k t)) = set (gt_frontier t) \<union>
     (if k \<in> live_room (gt_live t) \<and> \<not> live_contains (gt_live t) k
      then set_option (item_for_key (gt_context t) k) else {})"
proof -
  obtain b l where b: "live_insert k (gt_live t) = (b, l)" by force
  note ops = live_ops(1-3) [of k "gt_live t", unfolded b fst_conv snd_conv]
  show "gt_context (insert_key k t) = gt_context t"
    by (cases b) (simp_all add: insert_key_def b split: option.splits)
  show "live_room (gt_live (insert_key k t)) = live_room (gt_live t)"
    using ops(3) by (cases b) (simp_all add: insert_key_def b split: option.splits)
  show "live_contains (gt_live (insert_key k t)) j \<longleftrightarrow>
      live_contains (gt_live t) j \<or> (j = k \<and> k \<in> live_room (gt_live t))"
    using ops(2) by (cases b) (simp_all add: insert_key_def b split: option.splits)
  show "set (gt_frontier (insert_key k t)) = set (gt_frontier t) \<union>
     (if k \<in> live_room (gt_live t) \<and> \<not> live_contains (gt_live t) k
      then set_option (item_for_key (gt_context t) k) else {})"
    using ops(1) by (cases b) (auto simp: insert_key_def b split: option.splits)
qed

lemma fold_insert_key:
  "gt_context (fold insert_key ks t) = gt_context t"
  "live_room (gt_live (fold insert_key ks t)) = live_room (gt_live t)"
  "live_contains (gt_live (fold insert_key ks t)) j \<longleftrightarrow>
     live_contains (gt_live t) j \<or> (j \<in> set ks \<and> j \<in> live_room (gt_live t))"
  "it \<in> set (gt_frontier (fold insert_key ks t)) \<longleftrightarrow> it \<in> set (gt_frontier t) \<or>
     (\<exists>k \<in> set ks. k \<in> live_room (gt_live t) \<and> \<not> live_contains (gt_live t) k \<and>
        item_for_key (gt_context t) k = Some it)"
proof (induction ks arbitrary: t)
  case (Cons k ks)
  { case 1 show ?case using Cons(1) by (simp add: insert_key_simps) }
  { case 2 show ?case using Cons(2) by (simp add: insert_key_simps) }
  { case 3 show ?case using Cons(3) by (auto simp: insert_key_simps) }
  { case 4 show ?case using Cons(4) by (auto simp: insert_key_simps) }
qed simp_all


section \<open>The invariant\<close>

text \<open>\<open>base\<close> is the fresh traversal of the link, which gives the context and the room, and \<open>S\<close> the keys seeded.\<close>

definition gc_inv :: "gc_traversal \<Rightarrow> skey set \<Rightarrow> gc_graph \<Rightarrow> gc_traversal \<Rightarrow> bool" where
  "gc_inv base S g t \<longleftrightarrow>
     gt_context t = gt_context base \<and> live_room (gt_live t) = live_room (gt_live base) \<and>
     (\<forall>k \<in> S. live_contains (gt_live t) k) \<and> (\<forall>k. live_contains (gt_live t) k \<longrightarrow> gc_reachable g k) \<and>
     (\<forall>it \<in> set (gt_frontier t). \<exists>k. item_for_key (gt_context base) k = Some it \<and> live_contains (gt_live t) k) \<and>
     (\<forall>k. live_contains (gt_live t) k \<longrightarrow>
        (\<exists>it \<in> set (gt_frontier t). item_for_key (gt_context base) k = Some it) \<or>
        (\<forall>k' \<in> set (succs (gt_context base) k). k' \<in> live_room (gt_live base) \<longrightarrow> live_contains (gt_live t) k'))"

text \<open>Scanning a set of frontier items and marking their targets keeps it, if the items that stay behind are
  kept in the frontier.\<close>

lemma gc_inv_scan:
  assumes inv: "gc_inv base S g t" and ctx: "gt_context t' = gt_context t" "gt_live t' = gt_live t"
    and split: "set (gt_frontier t) = set (gt_frontier t') \<union> set items"
    and ks: "set ks = (\<Union>it \<in> set items. set (fst (collect_targets (gt_context t) it)))"
    and edges: "\<And>k k'. k' \<in> set (succs (gt_context base) k) \<Longrightarrow> gc_reachable g k \<Longrightarrow> gc_reachable g k'"
  shows "gc_inv base S g (fold insert_key ks t')"
proof -
  let ?t = "fold insert_key ks t'" and ?ctx = "gt_context base" and ?L = "live_contains (gt_live t)"
  have same: "gt_context t' = ?ctx" "live_room (gt_live t') = live_room (gt_live base)"
    and seeds: "\<And>k. k \<in> S \<Longrightarrow> ?L k" and sound: "\<And>k. ?L k \<Longrightarrow> gc_reachable g k"
    and fr: "\<And>it. it \<in> set (gt_frontier t) \<Longrightarrow> \<exists>k. item_for_key ?ctx k = Some it \<and> ?L k"
    and closed: "\<And>k. ?L k \<Longrightarrow> (\<exists>it \<in> set (gt_frontier t). item_for_key ?ctx k = Some it) \<or>
        (\<forall>k' \<in> set (succs ?ctx k). k' \<in> live_room (gt_live base) \<longrightarrow> ?L k')"
    using inv ctx unfolding gc_inv_def by (simp_all del: split_paired_All split_paired_Ex)
  have live: "live_contains (gt_live ?t) j \<longleftrightarrow> ?L j \<or> (j \<in> set ks \<and> j \<in> live_room (gt_live base))" for j
    using ctx(2) same(2) by (simp add: fold_insert_key)
  have front: "it \<in> set (gt_frontier ?t) \<longleftrightarrow> it \<in> set (gt_frontier t') \<or>
     (\<exists>k \<in> set ks. k \<in> live_room (gt_live base) \<and> \<not> ?L k \<and> item_for_key ?ctx k = Some it)" for it
    using ctx(2) same by (simp add: fold_insert_key)
  have item: "\<exists>k. item_for_key ?ctx k = Some it \<and> ?L k \<and> set (fst (collect_targets ?ctx it)) = set (succs ?ctx k)"
    if "it \<in> set (gt_frontier t)" for it
  proof -
    obtain k where k: "item_for_key ?ctx k = Some it" "?L k" using fr [of it] \<open>it \<in> _\<close> by blast
    then have "succs ?ctx k = fst (collect_targets ?ctx it)" by (simp add: succs_def)
    then show ?thesis using k by (intro exI [of _ k]) simp
  qed
  have reach: "gc_reachable g j" if "j \<in> set ks" for j
  proof -
    have "j \<in> (\<Union>it \<in> set items. set (fst (collect_targets ?ctx it)))" using that ks same(1) ctx(1) by simp
    then obtain it where it: "it \<in> set items" "j \<in> set (fst (collect_targets ?ctx it))" by blast
    then have "it \<in> set (gt_frontier t)" using split by blast
    then obtain k where "?L k" "j \<in> set (succs ?ctx k)" using item [of it] it(2) by blast
    then show ?thesis using edges sound by blast
  qed
  have done_or_waiting: "(\<exists>it \<in> set (gt_frontier ?t). item_for_key ?ctx k = Some it) \<or>
      (\<forall>k' \<in> set (succs ?ctx k). k' \<in> live_room (gt_live base) \<longrightarrow> live_contains (gt_live ?t) k')"
    if k: "live_contains (gt_live ?t) k" for k
  proof (cases "?L k")
    case True
    then consider it where "it \<in> set (gt_frontier t)" "item_for_key ?ctx k = Some it"
      | "\<forall>k' \<in> set (succs ?ctx k). k' \<in> live_room (gt_live base) \<longrightarrow> ?L k'"
      using closed [of k] by blast
    then show ?thesis
    proof cases
      case 1
      then show ?thesis
      proof (cases "it \<in> set items")
        case True
        have "succs ?ctx k = fst (collect_targets (gt_context t) it)"
          using 1 same(1) ctx(1) by (simp add: succs_def)
        then have "set (succs ?ctx k) \<subseteq> set ks" using True ks by auto
        then show ?thesis using live by blast
      qed (use split front 1 in blast)
    qed (use live in blast)
  next
    case False
    then have k': "k \<in> set ks" "k \<in> live_room (gt_live base)" using k live by auto
    show ?thesis
    proof (cases "item_for_key ?ctx k")
      case None
      then show ?thesis by (simp add: succs_def)
    next
      case (Some it)
      then show ?thesis using front k' False by blast
    qed
  qed
  have "\<exists>k. item_for_key ?ctx k = Some it \<and> live_contains (gt_live ?t) k" if "it \<in> set (gt_frontier ?t)" for it
    using that front live item split by (metis Un_iff)
  moreover have "gc_reachable g k" if "live_contains (gt_live ?t) k" for k
    using that reach sound live by blast
  moreover have "live_contains (gt_live ?t) k" if "k \<in> S" for k using that seeds live by blast
  ultimately show ?thesis
    unfolding gc_inv_def using done_or_waiting same by (simp add: fold_insert_key(1,2))
qed

lemma gc_inv_sound: "gc_inv base S g t \<Longrightarrow> live_contains (gt_live t) k \<Longrightarrow> gc_reachable g k"
  by (simp add: gc_inv_def del: split_paired_All)

lemma gc_inv_count [simp]: "gc_inv base S g (count_scan a b t) \<longleftrightarrow> gc_inv base S g t"
  by (simp add: gc_inv_def count_scan_def)

lemma serial_step_inv:
  assumes "gc_inv base S g t" "gt_frontier t \<noteq> []"
    and "\<And>k k'. k' \<in> set (succs (gt_context base) k) \<Longrightarrow> gc_reachable g k \<Longrightarrow> gc_reachable g k'"
  shows "gc_inv base S g (serial_step t)"
proof -
  obtain ks n where c: "collect_targets (gt_context t) (last (gt_frontier t)) = (ks, n)" by force
  have "set (gt_frontier t) = set (butlast (gt_frontier t)) \<union> {last (gt_frontier t)}"
    using append_butlast_last_id [OF assms(2)] by (metis list.simps(15) list.set(1) set_append)
  then show ?thesis
    using gc_inv_scan [OF assms(1), of "count_scan 1 n (t\<lparr>gt_frontier := butlast (gt_frontier t)\<rparr>)"
        "[last (gt_frontier t)]" ks] assms(3) c
    by (simp add: serial_step_def count_scan_def)
qed

lemma drain_serial_inv:
  assumes "\<And>k k'. k' \<in> set (succs (gt_context base) k) \<Longrightarrow> gc_reachable g k \<Longrightarrow> gc_reachable g k'"
  shows "gc_inv base S g t \<Longrightarrow> gc_inv base S g (drain_serial_stack t)"
proof (induction t rule: drain_serial_stack.induct)
  case (1 t)
  then show ?case
    using serial_step_inv [of base S g t] assms by (subst drain_serial_stack.simps) simp
qed

lemma drain_parallel_inv:
  assumes "gc_inv base S g t" "\<forall>xs. set (deliver xs) = set xs"
    and "\<And>k k'. k' \<in> set (succs (gt_context base) k) \<Longrightarrow> gc_reachable g k \<Longrightarrow> gc_reachable g k'"
  shows "gc_inv base S g (drain_parallel_level deliver t)"
proof -
  have "set (deliver (concat (map fst (map (collect_targets (gt_context t)) (gt_frontier t))))) =
      (\<Union>it \<in> set (gt_frontier t). set (fst (collect_targets (gt_context t) it)))"
    using assms(2) by auto
  from gc_inv_scan [OF assms(1) _ _ _ this assms(3), where t' = "count_scan a b (t\<lparr>gt_frontier := []\<rparr>)" for a b]
  show ?thesis by (simp add: drain_parallel_level_def collect_parallel_level_def Let_def count_scan_def)
qed

lemma gc_loop_inv:
  assumes "\<And>k k'. k' \<in> set (succs (gt_context base) k) \<Longrightarrow> gc_reachable g k \<Longrightarrow> gc_reachable g k'"
  shows "gc_inv base S g t \<Longrightarrow> \<forall>xs. set (deliver xs) = set xs \<Longrightarrow>
    gc_inv base S g (gc_loop n deliver t) \<and> gt_frontier (gc_loop n deliver t) = []"
proof (induction n deliver t rule: gc_loop.induct)
  case (1 n deliver t)
  consider "gt_frontier t = []" | "gt_frontier t \<noteq> []" "worker_count n (length (gt_frontier t)) = 1"
    | "gt_frontier t \<noteq> []" "worker_count n (length (gt_frontier t)) \<noteq> 1" by blast
  then show ?case
  proof cases
    case 1
    then show ?thesis using "1.prems" by (simp add: gc_loop.simps [of n deliver t])
  next
    case 2
    then show ?thesis
      using "1.IH"(1) [OF 2 drain_serial_inv [OF assms "1.prems"(1)] "1.prems"(2)]
      by (simp add: gc_loop.simps [of n deliver t])
  next
    case 3
    then show ?thesis
      using "1.IH"(2) [OF 3 drain_parallel_inv [OF "1.prems" assms] "1.prems"(2)]
      by (simp add: gc_loop.simps [of n deliver t])
  qed
qed

section \<open>The roots\<close>

definition root_item :: "gc_context \<Rightarrow> gc_root \<Rightarrow> gc_work_item option" where
  "root_item ctx r = item_for_key ctx (root_section r)"

text \<open>Seeding is marking the root keys that are sections, up to the counter of roots.\<close>

lemma insert_known_root_key:
  assumes "item_for_key (gt_context t) k = Some it"
  shows "\<exists>st. insert_known_root it t = (insert_key k t)\<lparr>gt_stats := st\<rparr>"
proof -
  have k: "(gi_object it, gi_section it) = k" using item_for_key_Some [OF assms] by simp
  obtain b l where b: "live_insert k (gt_live t) = (b, l)" by force
  show ?thesis
  proof (cases b)
    case True
    then show ?thesis using assms b by (auto simp: insert_known_root_def insert_key_def k)
  next
    case False
    then have "insert_known_root it t = (insert_key k t)\<lparr>gt_stats := gt_stats t\<rparr>"
      using b by (simp add: insert_known_root_def insert_key_def k)
    then show ?thesis by blast
  qed
qed

lemma seed_fold:
  "\<exists>st. fold (\<lambda>r t. case item_for_key (gt_context t) (root_section r) of
             Some it \<Rightarrow> insert_known_root it t | None \<Rightarrow> t) roots t =
     (fold insert_key (filter (\<lambda>k. item_for_key (gt_context t) k \<noteq> None) (map root_section roots)) t)\<lparr>gt_stats := st\<rparr>"
proof (induction roots arbitrary: t)
  case Nil
  show ?case by (rule exI [of _ "gt_stats t"]) simp
next
  case (Cons r roots)
  have upd: "fold insert_key ks (t\<lparr>gt_stats := st\<rparr>) = (fold insert_key ks t)\<lparr>gt_stats := st\<rparr>" for ks t st
  proof (induction ks arbitrary: t)
    case (Cons k ks)
    have "insert_key k (t\<lparr>gt_stats := st\<rparr>) = (insert_key k t)\<lparr>gt_stats := st\<rparr>"
      by (simp add: insert_key_def split: prod.splits bool.splits option.splits)
    then show ?case using Cons by simp
  qed simp
  show ?case
  proof (cases "item_for_key (gt_context t) (root_section r)")
    case None
    then show ?thesis using Cons [of t] by simp
  next
    case (Some it)
    obtain st where st: "insert_known_root it t = (insert_key (root_section r) t)\<lparr>gt_stats := st\<rparr>"
      using insert_known_root_key [OF Some] by blast
    show ?thesis
      using Cons [of "(insert_key (root_section r) t)\<lparr>gt_stats := st\<rparr>"] Some
      by (auto simp: st upd insert_key_simps(1))
  qed
qed

lemma live_room_known: "known objs k \<Longrightarrow> k \<in> live_room (live_new objs)"
  using live_room_section [of "fst k" objs] by (cases k) (auto simp: known_def)

text \<open>The traversal ends, marks within its room, and marks the sections that are reachable from a root.\<close>

lemma gc_live_reachable:
  assumes "objs_indexed objs" "\<forall>xs. set (deliver xs) = set xs"
  shows "known objs k \<Longrightarrow> live_contains (fst (gc_sections_rooted_with_stats max_threads deliver objs st entry ex)) k \<longleftrightarrow>
      gc_reachable (gc_graph_rooted objs st entry ex) k"
    and "live_room (fst (gc_sections_rooted_with_stats max_threads deliver objs st entry ex)) = live_room (live_new objs)"
proof -
  let ?b = "traversal_new objs st" and ?g = "gc_graph_rooted objs st entry ex"
  let ?t = "seed_roots entry ex ?b"
  let ?e = "gc_loop max_threads deliver ?t"
  have objs: "gx_objects (gt_context ?b) = objs" and new: "gt_live ?b = live_new objs" "gt_frontier ?b = []"
    by (simp_all add: traversal_new_def Let_def)
  have g: "?g = extract_graph ?b entry ex" by (simp add: gc_graph_rooted_def)
  have edges: "gc_reachable ?g j \<Longrightarrow> j' \<in> set (succs (gt_context ?b) j) \<Longrightarrow> gc_reachable ?g j'" for j j'
    using graph_edges [OF assms(1) objs] gc_reachable.edge g by metis
  let ?ks = "filter (\<lambda>k. item_for_key (gt_context ?b) k \<noteq> None) (map root_section (collect_roots ?b entry ex))"
  obtain stt where seed: "?t = (fold insert_key ?ks ?b)\<lparr>gt_stats := stt\<rparr>"
    using seed_fold unfolding seed_roots_def by blast
  have live: "live_contains (gt_live ?t) j \<longleftrightarrow> j \<in> set ?ks" for j
  proof -
    have "j \<in> set ?ks \<Longrightarrow> j \<in> live_room (live_new objs)"
      using item_known [OF assms(1) objs] live_room_known by auto
    then show ?thesis by (auto simp: seed fold_insert_key new live_new_empty)
  qed
  have "gc_reachable ?g j" if "j \<in> set ?ks" for j
  proof -
    have "j \<in> root_section ` set (collect_roots ?b entry ex)" using that by simp
    then obtain r where "r \<in> set (collect_roots ?b entry ex)" "root_section r = j" by blast
    then show ?thesis using graph_roots gc_reachable.root g by (metis gc_root.collapse)
  qed
  moreover have "\<exists>it \<in> set (gt_frontier ?t). item_for_key (gt_context ?b) j = Some it" if "j \<in> set ?ks" for j
  proof -
    have "item_for_key (gt_context ?b) j \<noteq> None" using that by simp
    then obtain it where "item_for_key (gt_context ?b) j = Some it" by blast
    moreover have "j \<in> live_room (live_new objs)"
      using that item_known [OF assms(1) objs] live_room_known by auto
    ultimately show ?thesis using that by (auto simp: seed fold_insert_key new live_new_empty)
  qed
  moreover have "\<exists>j. item_for_key (gt_context ?b) j = Some it \<and> live_contains (gt_live ?t) j"
    if "it \<in> set (gt_frontier ?t)" for it
  proof -
    have "\<exists>k \<in> set ?ks. item_for_key (gt_context ?b) k = Some it"
      using that by (simp add: seed fold_insert_key(4) new del: set_filter) blast
    then show ?thesis using live by blast
  qed
  ultimately have "gc_inv ?b (set ?ks) ?g ?t"
    unfolding gc_inv_def using live by (simp add: seed fold_insert_key(1,2))
  then have inv: "gc_inv ?b (set ?ks) ?g ?e" and fin: "gt_frontier ?e = []"
    using gc_loop_inv [of ?b ?g "set ?ks" ?t deliver max_threads] edges assms(2) by blast+
  have live_e: "fst (gc_sections_rooted_with_stats max_threads deliver objs st entry ex) = gt_live ?e"
    by (simp add: gc_sections_rooted_with_stats_def run_traversal_def Let_def)
  have "live_contains (gt_live ?e) j" if "gc_reachable ?g j" "known objs j" for j
    using that
  proof (induction rule: gc_reachable.induct)
    case (root j why)
    then have "GcRoot j why \<in> set (collect_roots ?b entry ex)" using graph_roots g by metis
    then have "j \<in> set (map root_section (collect_roots ?b entry ex))" by force
    then have "j \<in> set ?ks" using item_known [OF assms(1) objs] root.prems by simp
    then show ?case using inv unfolding gc_inv_def by blast
  next
    case (edge j j' why)
    then have j': "j' \<in> set (succs (gt_context ?b) j)" using graph_edges [OF assms(1) objs] g by metis
    then have "item_for_key (gt_context ?b) j \<noteq> None"
      by (cases "item_for_key (gt_context ?b) j") (simp_all add: succs_def)
    then have "live_contains (gt_live ?e) j" using edge.IH item_known [OF assms(1) objs] by blast
    moreover have "j' \<in> live_room (gt_live ?b)" using live_room_known [OF edge.prems] new by simp
    ultimately show ?case using inv fin j' unfolding gc_inv_def by (metis empty_iff list.set(1))
  qed
  then show "live_contains (fst (gc_sections_rooted_with_stats max_threads deliver objs st entry ex)) k \<longleftrightarrow> gc_reachable ?g k"
    if "known objs k" unfolding live_e using gc_inv_sound [OF inv] that by blast
  show "live_room (fst (gc_sections_rooted_with_stats max_threads deliver objs st entry ex)) = live_room (live_new objs)"
    using inv new live_e by (simp add: gc_inv_def)
qed


section \<open>A link with one dead section\<close>

definition demo_section :: "nat \<Rightarrow> name \<Rightarrow> input_reloc list \<Rightarrow> input_section" where
  "demo_section i n rs =
     \<lparr>sec_index = i, sec_name = n, sec_kind = Text, sec_sh_type = 1, sec_data = section_data_EMPTY, sec_align = 1,
      sec_size = 0, sec_flags = 6, sec_relocs = rs\<rparr>"

definition demo_local :: "nat \<Rightarrow> nat \<Rightarrow> input_symbol" where
  "demo_local i sec =
     \<lparr>sym_index = i, sym_name = [], sym_binding = Local, sym_is_undefined = False, sym_is_common = False,
      sym_is_ifunc = False, sym_st_type = 3, sym_visibility = 0, sym_section = Some sec, sym_value = 0, sym_size = 0\<rparr>"

definition demo_objects :: "input_object list" where
  "demo_objects =
     [parsed_object (3, 2) ''a.o''
        [demo_section 1 ''.text'' [\<lparr>r_offset = 1, r_type = 4, r_symbol = 1, r_addend = -4\<rparr>],
         demo_section 2 ''.text.used'' [], demo_section 3 ''.text.dead'' []]
        [demo_local 1 2] []]"

definition demo_table :: symbol_table where
  "demo_table =
     \<lparr>resolutions = [(''_start'', make_undefined_resolution\<lparr>res_defined_in := Some 0, res_section_index := Some 1\<rparr>)],
      names = [], object_paths = [''a.o'']\<rparr>"

lemma demo_indexed: "objs_indexed demo_objects"
proof -
  have "section_pos (hd demo_objects) i = Some p \<longleftrightarrow>
      p < length (sections (hd demo_objects)) \<and> sec_index (sections (hd demo_objects) ! p) = i" for i p
    unfolding demo_objects_def list.sel
    by (subst parsed_indexed) (auto simp: demo_section_def parsed_object_def)
  then show ?thesis by (simp add: objs_indexed_def demo_objects_def)
qed

lemma demo_graph:
  "gc_graph_rooted demo_objects demo_table ''_start'' False =
     \<lparr>gg_roots = [GcRoot (0, 1) RootEntry], gg_edges = [GcEdge (0, 1) (0, 2) EdgeRelocation]\<rparr>"
  by (simp add: gc_graph_rooted_def extract_graph_def Let_def traversal_new_def collect_roots_def collect_targets_def
      target_maps_new_def target_get_def item_section_def demo_objects_def demo_table_def parsed_object_def
      demo_section_def demo_local_def build_object_targets_def resolve_symbol_target_def symbol_key_def pack_def
      unpack_def lookup_def res_section_key_def implicit_root_reasons_def starts_with_def target_stats_default_def
      NO_TARGET_def make_undefined_resolution_def)


end
