(* ===== verification/Live_Filter.thy ===== *)
theory Live_Filter
  imports Gc_Reach Script Layout_Model
begin

text \<open>
  The sections a link emits, \<^verbatim>\<open>compute_live\<close> of \<^verbatim>\<open>peony/src/main.rs\<close>: what garbage collection keeps, what the script keeps,
  less the sections of discarded COMDAT groups.
\<close>

section \<open>Which sections are emitted\<close>

datatype live_filter = LiveAll | LiveOnly live_sections | LiveExcept "skey set"

definition add_script_kept_sections :: "input_object list \<Rightarrow> script_layout \<Rightarrow> live_sections \<Rightarrow> live_sections" where
  "add_script_kept_sections objs script live =
     fold (\<lambda>(i, obj). fold (\<lambda>sec l.
         if sec_flags sec AND SHF_ALLOC = 0 then l
         else if keeps_input script (sec_name sec) then snd (live_insert (i, sec_index sec) l) else l) (sections obj))
       (enumerate 0 objs) live"

text \<open>The hash set of excluded sections is a duplicate-free list, in the set's own order.\<close>

definition compute_live ::
  "nat \<Rightarrow> (skey list \<Rightarrow> skey list) \<Rightarrow> input_object list \<Rightarrow> bool \<Rightarrow> symbol_table \<Rightarrow> name \<Rightarrow> skey list \<Rightarrow> bool \<Rightarrow>
   script_layout option \<Rightarrow> live_filter" where
  "compute_live max_threads deliver objs gc st entry comdat_excluded export_roots script =
     (if \<not> gc then (if comdat_excluded = [] then LiveAll else LiveExcept (set comdat_excluded))
      else (let live = fst (gc_sections_rooted_with_stats max_threads deliver objs st entry export_roots);
                live' = (case script of Some s \<Rightarrow> add_script_kept_sections objs s live | None \<Rightarrow> live)
            in LiveOnly (fold (\<lambda>k l. snd (live_remove k l)) comdat_excluded live')))"

fun as_filter :: "live_filter \<Rightarrow> section_filter" where
  "as_filter LiveAll = All"
| "as_filter (LiveOnly l) = OnlyLive {k. live_contains l k}"
| "as_filter (LiveExcept s) = Except s"

section \<open>What is emitted\<close>

text \<open>A section that a script keeps: allocated, and its name matches a \<^verbatim>\<open>KEEP\<close> pattern.\<close>

definition kept_by_script :: "script_layout \<Rightarrow> input_section \<Rightarrow> bool" where
  "kept_by_script script sec \<longleftrightarrow> sec_flags sec AND SHF_ALLOC \<noteq> 0 \<and> keeps_input script (sec_name sec)"

lemma keep_sections:
  "live_contains (fold (\<lambda>sec l. if sec_flags sec AND SHF_ALLOC = 0 then l
       else if keeps_input script (sec_name sec) then snd (live_insert (i, sec_index sec) l) else l) secs l) k \<longleftrightarrow>
     live_contains l k \<or> k \<in> live_room l \<and> (\<exists>sec \<in> set secs. kept_by_script script sec \<and> k = (i, sec_index sec))"
  "live_room (fold (\<lambda>sec l. if sec_flags sec AND SHF_ALLOC = 0 then l
       else if keeps_input script (sec_name sec) then snd (live_insert (i, sec_index sec) l) else l) secs l) = live_room l"
  by (induction secs arbitrary: l) (auto simp: live_ops kept_by_script_def)

lemma keep_objects:
  "live_contains (fold (\<lambda>(i, obj). fold (\<lambda>sec l. if sec_flags sec AND SHF_ALLOC = 0 then l
       else if keeps_input script (sec_name sec) then snd (live_insert (i, sec_index sec) l) else l) (sections obj)) os l) k \<longleftrightarrow>
     live_contains l k \<or> k \<in> live_room l \<and>
       (\<exists>(i, obj) \<in> set os. \<exists>sec \<in> set (sections obj). kept_by_script script sec \<and> k = (i, sec_index sec))"
proof (induction os arbitrary: l)
  case (Cons x os)
  obtain i obj where x: "x = (i, obj)" by force
  show ?case by (simp only: x fold_Cons comp_apply case_prod_conv Cons.IH keep_sections list.set bex_simps) blast
qed simp

lemma add_script_kept_sections_spec:
  "live_contains (add_script_kept_sections objs script l) k \<longleftrightarrow>
     live_contains l k \<or> k \<in> live_room l \<and> fst k < length objs \<and>
       (\<exists>sec \<in> set (sections (objs ! fst k)). kept_by_script script sec \<and> sec_index sec = snd k)"
proof -
  have "(\<exists>(i, obj) \<in> set (enumerate 0 objs). \<exists>sec \<in> set (sections obj). kept_by_script script sec \<and> k = (i, sec_index sec)) \<longleftrightarrow>
      (\<exists>i < length objs. \<exists>sec \<in> set (sections (objs ! i)). kept_by_script script sec \<and> k = (i, sec_index sec))"
    by (rule bex_enumerate)
  also have "\<dots> \<longleftrightarrow> fst k < length objs \<and> (\<exists>sec \<in> set (sections (objs ! fst k)). kept_by_script script sec \<and> sec_index sec = snd k)"
    by (metis fst_conv prod.collapse snd_conv)
  finally show ?thesis unfolding add_script_kept_sections_def keep_objects by blast
qed

lemma remove_all: "live_contains (fold (\<lambda>k l. snd (live_remove k l)) ks l) k \<longleftrightarrow> live_contains l k \<and> k \<notin> set ks"
  by (induction ks arbitrary: l) (auto simp: live_ops)

text \<open>C5: What a link emits.  For a link whose index tables are those of its sections, any entry symbol,
  any number of threads and any order in which parallel workers deliver their targets: a section is emitted if and only
  if no discarded COMDAT group owns it and, under \<^verbatim>\<open>--gc-sections\<close>, it is reachable from a root through relocation edges
  or a \<^verbatim>\<open>KEEP\<close> of the script names it.  In particular the traversal ends, and discarding wins over keeping.\<close>

theorem compute_live_spec:
  assumes "objs_indexed objs" "\<forall>xs. set (deliver xs) = set xs" "known objs k"
  shows "emits (as_filter (compute_live max_threads deliver objs gc st entry excluded ex script)) k \<longleftrightarrow>
     k \<notin> set excluded \<and>
     (gc \<longrightarrow> gc_reachable (gc_graph_rooted objs st entry ex) k \<or>
        (\<exists>s sec. script = Some s \<and> sec \<in> set (sections (objs ! fst k)) \<and> sec_index sec = snd k \<and> kept_by_script s sec))"
proof (cases gc)
  case True
  let ?l = "fst (gc_sections_rooted_with_stats max_threads deliver objs st entry ex)"
  have "live_contains ?l k \<longleftrightarrow> gc_reachable (gc_graph_rooted objs st entry ex) k"
    using gc_live_reachable(1) [OF assms] .
  moreover have "k \<in> live_room ?l"
    using live_room_known [OF assms(3)] gc_live_reachable(2) [OF assms(1,2)] by simp
  moreover have "fst k < length objs" using assms(3) by (simp add: known_def)
  ultimately show ?thesis
    using True by (cases script) (auto simp: compute_live_def Let_def remove_all add_script_kept_sections_spec)
qed (simp add: compute_live_def)

text \<open>A link with a reachable, a kept and a dead section.\<close>

theorem compute_live_spec_witness:
  "map (emits (as_filter (compute_live 8 rev demo_objects True demo_table ''_start'' [] False
       (Some \<lparr>sl_output_sections = [], sl_keep_patterns = [''.text.d*'']\<rparr>)))) [(0, 2), (0, 3)] = [True, True] \<and>
   \<not> emits (as_filter (compute_live 8 rev demo_objects True demo_table ''_start'' [(0, 2)] False None)) (0, 2) \<and>
   \<not> emits (as_filter (compute_live 8 rev demo_objects True demo_table ''_start'' [] False None)) (0, 3)"
proof -
  let ?g = "gc_graph_rooted demo_objects demo_table ''_start'' False"
  have k: "known demo_objects (0, 2)" "known demo_objects (0, 3)"
    by (auto simp: known_def demo_objects_def parsed_object_def demo_section_def)
  have d: "\<forall>xs :: skey list. set (rev xs) = set xs" by simp
  note spec = compute_live_spec [OF demo_indexed d k(1), where max_threads = 8 and gc = True]
    compute_live_spec [OF demo_indexed d k(2), where max_threads = 8 and gc = True]
  have "gc_reachable ?g (0, 1)" by (rule gc_reachable.root [of _ RootEntry]) (simp add: demo_graph)
  then have r2: "gc_reachable ?g (0, 2)" by (rule gc_reachable.edge [of _ _ _ EdgeRelocation]) (simp add: demo_graph)
  have "gc_reachable ?g k \<Longrightarrow> k \<noteq> (0, 3)" for k
    by (induction rule: gc_reachable.induct) (auto simp: demo_graph)
  then have r3: "\<not> gc_reachable ?g (0, 3)" by blast
  have "keeps_input \<lparr>sl_output_sections = [], sl_keep_patterns = [''.text.d*'']\<rparr> ''.text.dead''" by code_simp
  then have "kept_by_script \<lparr>sl_output_sections = [], sl_keep_patterns = [''.text.d*'']\<rparr> (demo_section 3 ''.text.dead'' [])"
    by (simp add: kept_by_script_def demo_section_def)
  moreover have "demo_section 3 ''.text.dead'' [] \<in> set (sections (demo_objects ! 0))" "sec_index (demo_section 3 ''.text.dead'' []) = 3"
    by (simp_all add: demo_objects_def parsed_object_def demo_section_def)
  ultimately have "\<exists>sec. sec \<in> set (sections (demo_objects ! 0)) \<and> sec_index sec = 3 \<and>
      kept_by_script \<lparr>sl_output_sections = [], sl_keep_patterns = [''.text.d*'']\<rparr> sec" by blast
  then show ?thesis using r2 r3 by (simp add: spec)
qed

end
