(* ===== verification/Icf.thy ===== *)
theory Icf
  imports Object_Input
begin

text \<open>
  Identical code folding, \<^verbatim>\<open>peony-layout/src/icf.rs\<close>: which symbols are address-significant, the key of a
  section's observable content, and the fold map.  The theory gives the fold map in closed form, a
  foldable section goes to the first section with its key when their bytes are equal, and the decoder of
  the ULEB128 lists inverts the standard encoding.  A missing arena range is the panic of \<^verbatim>\<open>arena.bytes\<close>.
\<close>

section \<open>Keys\<close>

record fold_key =
  fk_flags :: u64
  fk_digest :: "u64 \<times> u64"
  fk_len :: u32
  fk_relocs :: "(u64 \<times> u32 \<times> i64 \<times> name) list"

text \<open>The 128-bit digest as its two halves.\<close>

definition content_digest :: "bytes \<Rightarrow> u64 \<times> u64" where
  "content_digest bs =
     fold (\<lambda>b (h1, h2). ((h1 XOR ucast b) * 0x00000100000001b3,
                         ((h2 + ucast b) * 0x00000100000001b3) XOR drop_bit 29 h2)) bs
       (0xcbf29ce484222325, 0x9e3779b97f4a7c15)"

definition reloc_target_name :: "input_object \<Rightarrow> nat \<Rightarrow> name option" where
  "reloc_target_name obj i = map_option sym_name (symbol_by_index obj i)"

definition reloc_takes_address :: "u32 \<Rightarrow> bool" where
  "reloc_takes_address t \<longleftrightarrow> t \<noteq> 0 \<and> t \<noteq> 2 \<and> t \<noteq> 4"

definition SHT_LLVM_ADDRSIG :: u32 where
  "SHT_LLVM_ADDRSIG = 0x6fff4c03"

section \<open>Address significance\<close>

record addr_taint =
  at_names :: "name set"
  at_sections :: "(nat \<times> nat) set"
  at_objects :: "nat set"
  at_syms :: "(nat \<times> nat) set"

definition addr_taint_default :: addr_taint where
  "addr_taint_default = \<lparr>at_names = {}, at_sections = {}, at_objects = {}, at_syms = {}\<rparr>"

function uleb_from :: "bytes \<Rightarrow> nat \<Rightarrow> u64 \<Rightarrow> nat \<Rightarrow> (u64 \<times> nat) option" where
  "uleb_from data pos result shift =
     (case get data pos of
        None \<Rightarrow> None
      | Some b \<Rightarrow>
          let result' = result OR push_bit shift (ucast (b AND 0x7f)) in
          if b AND 0x80 = 0 then Some (result', pos + 1)
          else if 64 \<le> shift + 7 then None else uleb_from data (pos + 1) result' (shift + 7))"
  by pat_completeness auto
termination by (relation "measure (\<lambda>(data, pos, _). length data - pos)") (auto simp: get_Some_iff)

declare uleb_from.simps [simp del]

definition read_uleb128 :: "bytes \<Rightarrow> nat \<Rightarrow> (u64 \<times> nat) option" where
  "read_uleb128 data pos = uleb_from data pos 0 0"

lemma uleb_from_pos:
  "uleb_from data pos r sh = Some (v, pos') \<Longrightarrow> pos < pos' \<and> pos' \<le> length data"
proof (induction data pos r sh rule: uleb_from.induct)
  case (1 data pos r sh)
  then show ?case
    by (subst (asm) (2) uleb_from.simps) (fastforce simp: get_Some_iff Let_def split: option.splits if_splits)
qed

text \<open>The table of one object: \<open>None\<close> where an entry does not decode or names no symbol.\<close>

function addrsig_entries :: "input_object \<Rightarrow> nat \<Rightarrow> bytes \<Rightarrow> nat \<Rightarrow> (nat \<times> nat) list option" where
  "addrsig_entries obj obj_id data pos =
     (if length data \<le> pos then Some []
      else case read_uleb128 data pos of
        None \<Rightarrow> None
      | Some (i, pos') \<Rightarrow>
          (case symbol_pos obj (unat i) of
             None \<Rightarrow> None
           | Some p \<Rightarrow> map_option ((#) (obj_id, p)) (addrsig_entries obj obj_id data pos')))"
  by pat_completeness auto
termination
  by (relation "measure (\<lambda>(_, _, data, pos). length data - pos)")
     (auto simp: read_uleb128_def dest!: uleb_from_pos)

declare addrsig_entries.simps [simp del]

definition parse_addrsig ::
  "input_arena \<Rightarrow> addr_taint \<Rightarrow> input_object \<Rightarrow> nat \<Rightarrow> (unit, addr_taint) outcome" where
  "parse_addrsig arena t obj obj_id =
     (case find (\<lambda>s. sec_sh_type s = SHT_LLVM_ADDRSIG) (sections obj) of
        None \<Rightarrow> Ok t
      | Some sec \<Rightarrow>
          (case arena_bytes arena (sec_data sec) of
             None \<Rightarrow> Panic
           | Some data \<Rightarrow>
               (case addrsig_entries obj obj_id data 0 of
                  None \<Rightarrow> Ok t
                | Some es \<Rightarrow> Ok (t\<lparr>at_objects := insert obj_id (at_objects t), at_syms := at_syms t \<union> set es\<rparr>))))"

definition taint_one_reloc :: "input_object \<Rightarrow> nat \<Rightarrow> input_reloc \<Rightarrow> addr_taint \<Rightarrow> addr_taint" where
  "taint_one_reloc obj obj_id r t =
     (if \<not> reloc_takes_address (r_type r) then t
      else case symbol_by_index obj (r_symbol r) of
        None \<Rightarrow> t
      | Some s \<Rightarrow>
          if sym_name s = []
          then (case sym_section s of
                  Some si \<Rightarrow> t\<lparr>at_sections := insert (obj_id, si) (at_sections t)\<rparr> | None \<Rightarrow> t)
          else t\<lparr>at_names := insert (sym_name s) (at_names t)\<rparr>)"

fun address_taint_from ::
  "input_arena \<Rightarrow> nat \<Rightarrow> input_object list \<Rightarrow> addr_taint \<Rightarrow> (unit, addr_taint) outcome" where
  "address_taint_from arena i [] t = Ok t"
| "address_taint_from arena i (obj # objs) t =
     bind_outcome
       (parse_addrsig arena (fold (\<lambda>sec t. fold (taint_one_reloc obj i) (sec_relocs sec) t) (sections obj) t) obj i)
       (address_taint_from arena (i + 1) objs)"

definition address_taint :: "input_arena \<Rightarrow> input_object list \<Rightarrow> (unit, addr_taint) outcome" where
  "address_taint arena objs = address_taint_from arena 0 objs addr_taint_default"

definition symbol_significant :: "addr_taint \<Rightarrow> nat \<Rightarrow> nat \<Rightarrow> nat \<times> input_symbol \<Rightarrow> bool" where
  "symbol_significant taint obj_id sidx = (\<lambda>(pos, s).
     sym_section s = Some sidx \<and> \<not> sym_is_undefined s \<and>
     ((obj_id, pos) \<in> at_syms taint \<or>
      (sym_name s \<noteq> [] \<and>
       (starts_with (sym_name s) ''_ZTV'' \<or> starts_with (sym_name s) ''_ZTI'' \<or> starts_with (sym_name s) ''_ZTS'' \<or>
        sym_name s \<in> at_names taint \<or> sym_binding s = Weak \<or>
        (sym_binding s \<noteq> Local \<and> sym_visibility s = 0)))))"

definition defines_address_significant :: "input_object \<Rightarrow> nat \<Rightarrow> nat \<Rightarrow> addr_taint \<Rightarrow> bool" where
  "defines_address_significant obj obj_id sec_pos taint =
     (case get (sections obj) sec_pos of
        None \<Rightarrow> True
      | Some sec \<Rightarrow>
          obj_id \<notin> at_objects taint \<or> (obj_id, sec_index sec) \<in> at_sections taint \<or>
          (\<exists>ps \<in> set (enumerate 0 (symbols obj)). symbol_significant taint obj_id (sec_index sec) ps))"

section \<open>The fold map\<close>

fun reloc_keys :: "input_object \<Rightarrow> input_reloc list \<Rightarrow> (u64 \<times> u32 \<times> i64 \<times> name) list option" where
  "reloc_keys obj [] = Some []"
| "reloc_keys obj (r # rs) =
     Option.bind (reloc_target_name obj (r_symbol r)) (\<lambda>n.
       map_option ((#) (r_offset r, r_type r, r_addend r, n)) (reloc_keys obj rs))"

text \<open>\<open>Ok None\<close> for a section that is not eligible.\<close>

definition fold_key_for ::
  "input_arena \<Rightarrow> input_object \<Rightarrow> nat \<Rightarrow> nat \<Rightarrow> addr_taint \<Rightarrow> (unit, fold_key option) outcome" where
  "fold_key_for arena obj obj_id pos taint =
     (case get (sections obj) pos of
        None \<Rightarrow> Ok None
      | Some sec \<Rightarrow>
          if sec_kind sec \<noteq> Text \<or> section_data_is_empty (sec_data sec) \<or>
             defines_address_significant obj obj_id pos taint
          then Ok None
          else (case reloc_keys obj (sec_relocs sec) of
            None \<Rightarrow> Ok None
          | Some rs \<Rightarrow>
              (case arena_bytes arena (sec_data sec) of
                 None \<Rightarrow> Panic
               | Some bs \<Rightarrow>
                   Ok (Some \<lparr>fk_flags = sec_flags sec, fk_digest = content_digest bs,
                             fk_len = of_nat (section_data_len (sec_data sec)), fk_relocs = rs\<rparr>))))"

type_synonym fold_map = "((nat \<times> nat) \<times> (nat \<times> nat)) list"

type_synonym fold_state = "(fold_key \<times> (nat \<times> nat \<times> nat)) list \<times> fold_map"

definition bytes_at :: "input_arena \<Rightarrow> input_object list \<Rightarrow> nat \<Rightarrow> nat \<Rightarrow> bytes option" where
  "bytes_at arena objs oi pos = arena_bytes arena (sec_data (sections (objs ! oi) ! pos))"

text \<open>One section; \<open>Panic\<close> where its bytes or those of the canonical section are missing.\<close>

definition fold_step ::
  "input_arena \<Rightarrow> input_object list \<Rightarrow> addr_taint \<Rightarrow> nat \<times> nat \<Rightarrow> fold_state \<Rightarrow> (unit, fold_state) outcome" where
  "fold_step arena objs taint = (\<lambda>(oi, pos) (canon, folds).
     bind_outcome (fold_key_for arena (objs ! oi) oi pos taint) (\<lambda>key.
       case key of
         None \<Rightarrow> Ok (canon, folds)
       | Some k \<Rightarrow>
           let idx = sec_index (sections (objs ! oi) ! pos) in
           (case map_of canon k of
              None \<Rightarrow> Ok (AList.update k (oi, pos, idx) canon, folds)
            | Some (c_obj, c_pos, c_index) \<Rightarrow>
                (case (bytes_at arena objs oi pos, bytes_at arena objs c_obj c_pos) of
                   (Some here, Some canonical) \<Rightarrow>
                     Ok (canon, if here = canonical then AList.update (oi, idx) (c_obj, c_index) folds else folds)
                 | _ \<Rightarrow> Panic))))"

fun fold_loop ::
  "input_arena \<Rightarrow> input_object list \<Rightarrow> addr_taint \<Rightarrow> (nat \<times> nat) list \<Rightarrow> fold_state \<Rightarrow> (unit, fold_state) outcome" where
  "fold_loop arena objs taint [] s = Ok s"
| "fold_loop arena objs taint (p # ps) s =
     bind_outcome (fold_step arena objs taint p s) (fold_loop arena objs taint ps)"

definition section_positions :: "input_object list \<Rightarrow> (nat \<times> nat) list" where
  "section_positions objs =
     concat (map (\<lambda>(oi, obj). map (Pair oi) [0..<length (sections obj)]) (enumerate 0 objs))"

definition compute_fold_map :: "input_arena \<Rightarrow> input_object list \<Rightarrow> (unit, fold_map) outcome" where
  "compute_fold_map arena objs =
     bind_outcome (address_taint arena objs) (\<lambda>taint.
       bind_outcome (fold_loop arena objs taint (section_positions objs) ([], [])) (\<lambda>(canon, folds). Ok folds))"

section \<open>ULEB128\<close>

text \<open>The standard encoding, seven bits a byte, low bits first.\<close>

function uleb_encode :: "u64 \<Rightarrow> bytes" where
  "uleb_encode v =
     (if v < 128 then [ucast v] else (ucast (v AND 0x7f) OR 0x80) # uleb_encode (drop_bit 7 v))"
  by pat_completeness auto
termination
  by (relation "measure unat") (auto simp: unat_drop_bit_eq drop_bit_eq_div word_less_nat_alt unat_div)

declare uleb_encode.simps [simp del]

lemma mask_7f: "(0x7f :: 'a::len word) = mask 7"
  by (simp add: mask_eq_exp_minus_1)

lemma bit_80:
  "bit (0x80 :: 'a::len word) n \<longleftrightarrow> n = 7 \<and> n < LENGTH('a)"
  "bit (0x80 :: int) n \<longleftrightarrow> n = 7"
proof -
  have w: "(0x80 :: 'a word) = 2 ^ 7" and i: "(0x80 :: int) = 2 ^ 7" by simp_all
  show "bit (0x80 :: 'a word) n \<longleftrightarrow> n = 7 \<and> n < LENGTH('a)"
    by (simp only: w bit_exp_iff possible_bit_word) auto
  show "bit (0x80 :: int) n \<longleftrightarrow> n = 7"
    by (simp only: i bit_exp_iff) auto
qed

lemma uleb_more_byte:
  "ucast ((ucast (v AND 0x7f) OR 0x80 :: u8) AND 0x7f) = (v AND 0x7f :: u64)"
  "(ucast (v AND 0x7f) OR 0x80 :: u8) AND 0x80 \<noteq> 0"
proof -
  show "ucast ((ucast (v AND 0x7f) OR 0x80 :: u8) AND 0x7f) = (v AND 0x7f :: u64)"
    unfolding mask_7f
    by (rule bit_word_eqI) (auto simp: bit_and_iff bit_or_iff bit_ucast_iff bit_mask_iff bit_80)
  have "bit ((ucast (v AND 0x7f) OR 0x80 :: u8) AND 0x80) 7"
    by (simp add: bit_and_iff bit_or_iff bit_80)
  then show "(ucast (v AND 0x7f) OR 0x80 :: u8) AND 0x80 \<noteq> 0" by force
qed

lemma small_bits:
  assumes "v < (128 :: u64)"
  shows "v AND mask 7 = v"
  using assms by (simp add: take_bit_eq_mask [symmetric] take_bit_eq_mod unat_mod word_unat_eq_iff word_less_nat_alt)

lemma uleb_last_byte:
  assumes "v < (128 :: u64)"
  shows "ucast ((ucast v :: u8) AND 0x7f) = v" "(ucast v :: u8) AND 0x80 = 0"
proof -
  have v: "v AND mask 7 = v" by (rule small_bits [OF assms])
  have b: "\<not> bit v i" if "7 \<le> i" for i
    using that by (subst v [symmetric]) (simp add: bit_and_iff bit_mask_iff)
  show "ucast ((ucast v :: u8) AND 0x7f) = v"
    unfolding mask_7f
    by (rule bit_word_eqI) (use b in \<open>auto simp: bit_and_iff bit_ucast_iff bit_mask_iff not_le intro: ccontr\<close>)
  show "(ucast v :: u8) AND 0x80 = 0"
    by (rule bit_word_eqI) (use b in \<open>auto simp: bit_and_iff bit_ucast_iff bit_80\<close>)
qed

lemma split_seven:
  "push_bit sh (v AND 0x7f) OR push_bit (sh + 7) (drop_bit 7 v) = push_bit sh (v :: u64)"
proof (rule bit_word_eqI)
  fix n assume n: "n < LENGTH(64)"
  have "7 + (n - (sh + 7)) = n - sh" if "sh + 7 \<le> n" using that by simp
  then show "bit (push_bit sh (v AND 0x7f) OR push_bit (sh + 7) (drop_bit 7 v)) n \<longleftrightarrow> bit (push_bit sh v) n"
    using n unfolding mask_7f
    by (cases "sh + 7 \<le> n") (auto simp: bit_or_iff bit_and_iff bit_push_bit_iff bit_drop_bit_eq bit_mask_iff)
qed

lemma get_drop: "drop pos data = x # xs \<Longrightarrow> get data pos = Some x \<and> drop (pos + 1) data = xs"
  by (metis Suc_eq_plus1 drop_Suc get_Some_iff hd_drop_conv_nth length_drop list.sel(1,3)
      list.simps(3) not_less drop_all tl_drop)

lemma uleb_from_encode:
  assumes "drop pos data = uleb_encode v @ ys" "unat v * 2 ^ sh < 2 ^ 64"
  shows "uleb_from data pos r sh = Some (r OR push_bit sh v, pos + length (uleb_encode v))"
  using assms
proof (induction v arbitrary: pos r sh rule: uleb_encode.induct)
  case (1 v)
  show ?case
  proof (cases "v < 128")
    case True
    then have "get data pos = Some (ucast v)"
      using 1(2) get_drop [of pos data "ucast v" ys] by (simp add: uleb_encode.simps [of v])
    then show ?thesis
      using True uleb_last_byte [OF True] by (simp add: uleb_from.simps [of data pos] uleb_encode.simps [of v])
  next
    case False
    define b :: u8 where "b = ucast (v AND 0x7f) OR 0x80"
    have e: "uleb_encode v = b # uleb_encode (drop_bit 7 v)"
      using False by (simp add: uleb_encode.simps [of v] b_def)
    have g: "get data pos = Some b" "drop (pos + 1) data = uleb_encode (drop_bit 7 v) @ ys"
      using 1(2) get_drop [of pos data b "uleb_encode (drop_bit 7 v) @ ys"] by (simp_all add: e)
    have v: "128 \<le> unat v" using False by (simp add: word_less_nat_alt)
    have "(2::nat) ^ (sh + 7) = 128 * 2 ^ sh" by (simp add: power_add)
    also have "\<dots> \<le> unat v * 2 ^ sh" using v by (rule mult_le_mono1)
    also have "\<dots> < 2 ^ 64" by (rule 1(3))
    finally have sh: "sh + 7 < 64" by (rule power_less_imp_less_exp [rotated]) simp
    have "unat (drop_bit 7 v) * 2 ^ (sh + 7) \<le> unat v * 2 ^ sh"
      by (simp add: unat_drop_bit_eq drop_bit_eq_div unat_div power_add)
    then have lt: "unat (drop_bit 7 v) * 2 ^ (sh + 7) < 2 ^ 64" using 1(3) by linarith
    have "uleb_from data pos r sh = uleb_from data (pos + 1) (r OR push_bit sh (v AND 0x7f)) (sh + 7)"
      using g(1) uleb_more_byte [of v, folded b_def] sh
      by (simp add: uleb_from.simps [of data pos])
    also have "\<dots> = Some ((r OR push_bit sh (v AND 0x7f)) OR push_bit (sh + 7) (drop_bit 7 v),
        pos + 1 + length (uleb_encode (drop_bit 7 v)))"
      by (rule 1(1) [OF False g(2) lt])
    finally show ?thesis unfolding e or.assoc split_seven by simp
  qed
qed

lemma length_uleb_encode: "length (uleb_encode v) \<ge> 1"
  by (subst uleb_encode.simps) simp

text \<open>\<^verbatim>\<open>read_uleb128\<close> inverts the standard ULEB128 encoding of every 64-bit value: wherever an
  encoding stands in the data, reading at its start returns the value and the position behind the encoding.
\<close>

theorem uleb_roundtrip:
  "read_uleb128 (pre @ uleb_encode v @ post) (length pre) = Some (v, length pre + length (uleb_encode v))"
proof -
  have "unat v * 2 ^ 0 < 2 ^ 64" using unsigned_less [of v] by simp
  then show ?thesis
    using uleb_from_encode [of "length pre" "pre @ uleb_encode v @ post" v post 0 0] by (simp add: read_uleb128_def)
qed

section \<open>The fold map in closed form\<close>

definition key_at :: "input_arena \<Rightarrow> input_object list \<Rightarrow> addr_taint \<Rightarrow> nat \<times> nat \<Rightarrow> fold_key option" where
  "key_at arena objs taint p =
     (case fold_key_for arena (objs ! fst p) (fst p) (snd p) taint of Ok k \<Rightarrow> k | _ \<Rightarrow> None)"

definition index_at :: "input_object list \<Rightarrow> nat \<times> nat \<Rightarrow> nat" where
  "index_at objs p = sec_index (sections (objs ! fst p) ! snd p)"

text \<open>The first of some sections with a key.\<close>

definition leader :: "(nat \<times> nat \<Rightarrow> fold_key option) \<Rightarrow> (nat \<times> nat) list \<Rightarrow> fold_key \<Rightarrow> (nat \<times> nat) option" where
  "leader key ps k = find (\<lambda>p. key p = Some k) ps"

text \<open>Section \<open>p\<close> folds onto section \<open>c\<close>.\<close>

definition folds_onto ::
  "input_arena \<Rightarrow> input_object list \<Rightarrow> addr_taint \<Rightarrow> (nat \<times> nat) list \<Rightarrow> nat \<times> nat \<Rightarrow> nat \<times> nat \<Rightarrow> bool" where
  "folds_onto arena objs taint ps p c \<longleftrightarrow>
     p \<in> set ps \<and> p \<noteq> c \<and>
     Option.bind (key_at arena objs taint p) (leader (key_at arena objs taint) ps) = Some c \<and>
     bytes_at arena objs (fst p) (snd p) = bytes_at arena objs (fst c) (snd c)"

lemma find_append: "find P (xs @ ys) = (case find P xs of None \<Rightarrow> find P ys | Some x \<Rightarrow> Some x)"
  by (induction xs) auto

lemma find_SomeD: "find P xs = Some x \<Longrightarrow> x \<in> set xs \<and> P x"
  by (induction xs) (auto split: if_splits)

lemma leader_append:
  "leader key (ps @ [p]) k =
     (case leader key ps k of None \<Rightarrow> if key p = Some k then Some p else None | Some c \<Rightarrow> Some c)"
  by (simp add: leader_def find_append split: option.split)

lemma leader_mem: "leader key ps k = Some c \<Longrightarrow> c \<in> set ps \<and> key c = Some k"
  by (auto simp: leader_def dest: find_SomeD)

lemma leader_None: "leader key ps k = None \<longleftrightarrow> (\<forall>p \<in> set ps. key p \<noteq> Some k)"
  by (auto simp: leader_def find_None_iff)

text \<open>The positions: all sections, each once.\<close>

lemma section_positions_mem:
  "(oi, pos) \<in> set (section_positions objs) \<longleftrightarrow> oi < length objs \<and> pos < length (sections (objs ! oi))"
  by (force simp: section_positions_def in_set_enumerate_eq)

lemma section_positions_sorted: "sorted_wrt (\<lambda>p q. fst p < fst q \<or> fst p = fst q \<and> snd p < snd q) (section_positions objs)"
proof -
  have "sorted_wrt (\<lambda>p q. fst p < fst q \<or> fst p = fst q \<and> snd p < snd q)
      (concat (map (\<lambda>(oi, obj). map (Pair oi) [0..<length (sections obj)]) (enumerate n xs)))
    \<and> (\<forall>p \<in> set (concat (map (\<lambda>(oi, obj). map (Pair oi) [0..<length (sections obj)]) (enumerate n xs))). n \<le> fst p)"
    for n and xs :: "input_object list"
  proof (induction xs arbitrary: n)
    case (Cons x xs)
    then show ?case by (force simp: sorted_wrt_append sorted_wrt_map)
  qed simp
  then show ?thesis unfolding section_positions_def by blast
qed

lemma sorted_wrt_distinct: "sorted_wrt P xs \<Longrightarrow> (\<And>x. \<not> P x x) \<Longrightarrow> distinct xs"
  by (induction xs) auto

lemma section_positions_distinct: "distinct (section_positions objs)"
  by (rule sorted_wrt_distinct [OF section_positions_sorted]) simp

lemma index_at_inj:
  assumes "\<forall>obj \<in> set objs. distinct (map sec_index (sections obj))"
    and "p \<in> set (section_positions objs)" "q \<in> set (section_positions objs)"
    and "fst p = fst q" "index_at objs p = index_at objs q"
  shows "p = q"
proof (cases p)
  case (Pair oi i)
  obtain j where q: "q = (oi, j)" using Pair assms(4) by (cases q) auto
  have "oi < length objs" "i < length (sections (objs ! oi))" "j < length (sections (objs ! oi))"
    using assms(2,3) Pair q by (simp_all add: section_positions_mem)
  moreover from this have "distinct (map sec_index (sections (objs ! oi)))" using assms(1) by simp
  ultimately have "i = j"
    using assms(5) Pair q nth_eq_iff_index_eq [of "map sec_index (sections (objs ! oi))" i j]
    by (simp add: index_at_def)
  then show ?thesis using Pair q by simp
qed

lemma bytes_at_readable:
  "sections_readable arena objs \<Longrightarrow> p \<in> set (section_positions objs) \<Longrightarrow>
     \<exists>bs. bytes_at arena objs (fst p) (snd p) = Some bs"
  by (cases p) (auto simp: bytes_at_def sections_readable_def section_positions_mem dest!: nth_mem)

lemma fold_key_for_total:
  assumes "sections_readable arena objs" "p \<in> set (section_positions objs)"
  shows "fold_key_for arena (objs ! fst p) (fst p) (snd p) taint = Ok (key_at arena objs taint p)"
proof -
  obtain bs where "bytes_at arena objs (fst p) (snd p) = Some bs"
    using bytes_at_readable [OF assms] by blast
  moreover have "snd p < length (sections (objs ! fst p))"
    using assms(2) section_positions_mem [of "fst p" "snd p" objs] by simp
  then have "get (sections (objs ! fst p)) (snd p) = Some (sections (objs ! fst p) ! snd p)"
    by (simp add: get_Some_iff)
  ultimately show ?thesis
    by (auto simp: key_at_def fold_key_for_def bytes_at_def split: option.split)
qed

text \<open>
  The state of the loop after the sections \<open>done\<close>: each key's first section, and the folds among
  \<open>done\<close>.
\<close>

definition fold_inv ::
  "input_arena \<Rightarrow> input_object list \<Rightarrow> addr_taint \<Rightarrow> (nat \<times> nat) list \<Rightarrow> fold_state \<Rightarrow> bool" where
  "fold_inv arena objs taint ps = (\<lambda>(canon, folds).
     (\<forall>k. map_of canon k =
        map_option (\<lambda>c. (fst c, snd c, index_at objs c)) (leader (key_at arena objs taint) ps k)) \<and>
     (\<forall>x y. map_of folds x = Some y \<longleftrightarrow>
        (\<exists>p c. x = (fst p, index_at objs p) \<and> y = (fst c, index_at objs c) \<and>
               folds_onto arena objs taint ps p c)))"

lemma folds_onto_snoc:
  assumes "p \<notin> set ps"
  shows "folds_onto arena objs taint (ps @ [p]) q c \<longleftrightarrow>
     folds_onto arena objs taint ps q c \<or>
     (q = p \<and> Option.bind (key_at arena objs taint p) (leader (key_at arena objs taint) ps) = Some c \<and>
      bytes_at arena objs (fst p) (snd p) = bytes_at arena objs (fst c) (snd c))"
proof (cases "q = p")
  case True
  then show ?thesis
    using assms leader_mem [of "key_at arena objs taint" ps]
    by (cases "key_at arena objs taint p") (auto simp: folds_onto_def leader_append split: option.splits)
next
  case False
  have "leader (key_at arena objs taint) (ps @ [p]) k = leader (key_at arena objs taint) ps k"
    if "q \<in> set ps" "key_at arena objs taint q = Some k" for k
    using that leader_None [of "key_at arena objs taint" ps k]
    by (auto simp: leader_append split: option.split)
  then show ?thesis
    using False by (cases "key_at arena objs taint q") (auto simp: folds_onto_def)
qed

lemma fold_step_cases:
  assumes inv: "fold_inv arena objs taint ps (canon, folds)"
    and read: "sections_readable arena objs"
    and sub: "set (ps @ [p]) \<subseteq> set (section_positions objs)"
  shows "fold_step arena objs taint p (canon, folds) =
      (case key_at arena objs taint p of None \<Rightarrow> Ok (canon, folds)
       | Some k \<Rightarrow> (case leader (key_at arena objs taint) ps k of
            None \<Rightarrow> Ok (AList.update k (fst p, snd p, index_at objs p) canon, folds)
          | Some c \<Rightarrow> Ok (canon,
              if bytes_at arena objs (fst p) (snd p) = bytes_at arena objs (fst c) (snd c)
              then AList.update (fst p, index_at objs p) (fst c, index_at objs c) folds else folds)))"
proof -
  let ?key = "key_at arena objs taint"
  let ?bytes = "\<lambda>p. bytes_at arena objs (fst p) (snd p)"
  have p: "p \<in> set (section_positions objs)" using sub by simp
  show ?thesis
  proof (cases "?key p")
    case (Some k)
    have canon: "map_of canon k = map_option (\<lambda>c. (fst c, snd c, index_at objs c)) (leader ?key ps k)"
      using inv by (simp add: fold_inv_def)
    obtain here where "?bytes p = Some here" using bytes_at_readable [OF read p] by blast
    moreover have "\<exists>bs. ?bytes c = Some bs" if "leader ?key ps k = Some c" for c
      using bytes_at_readable [OF read, of c] leader_mem [OF that] sub by auto
    ultimately show ?thesis
      using fold_key_for_total [OF read p, of taint] Some canon
      by (cases "leader ?key ps k") (auto simp: fold_step_def case_prod_unfold index_at_def)
  qed (use fold_key_for_total [OF read p, of taint] in \<open>simp add: fold_step_def case_prod_unfold\<close>)
qed

lemma fold_inv_no_key:
  "fold_inv arena objs taint ps s \<Longrightarrow> key_at arena objs taint p = None \<Longrightarrow> p \<notin> set ps \<Longrightarrow>
     fold_inv arena objs taint (ps @ [p]) s"
  by (simp add: fold_inv_def folds_onto_snoc leader_append option.case_eq_if case_prod_unfold)

lemma fold_inv_leader:
  assumes "fold_inv arena objs taint ps (canon, folds)" "key_at arena objs taint p = Some k"
    and "leader (key_at arena objs taint) ps k = None" "p \<notin> set ps"
  shows "fold_inv arena objs taint (ps @ [p]) (AList.update k (fst p, snd p, index_at objs p) canon, folds)"
  using assms
  by (auto simp: fold_inv_def folds_onto_snoc leader_append update_conv' split: option.split)

lemma fold_inv_follow:
  assumes inv: "fold_inv arena objs taint ps (canon, folds)"
    and key: "key_at arena objs taint p = Some k" "leader (key_at arena objs taint) ps k = Some c"
    and dist: "\<forall>obj \<in> set objs. distinct (map sec_index (sections obj))"
    and sub: "set (ps @ [p]) \<subseteq> set (section_positions objs)" "p \<notin> set ps"
  shows "fold_inv arena objs taint (ps @ [p]) (canon,
     if bytes_at arena objs (fst p) (snd p) = bytes_at arena objs (fst c) (snd c)
     then AList.update (fst p, index_at objs p) (fst c, index_at objs c) folds else folds)"
proof -
  let ?b = "bytes_at arena objs (fst p) (snd p) = bytes_at arena objs (fst c) (snd c)"
  have new: "folds_onto arena objs taint (ps @ [p]) q d \<longleftrightarrow>
      folds_onto arena objs taint ps q d \<or> q = p \<and> d = c \<and> ?b" for q d
    using key by (auto simp: folds_onto_snoc [OF sub(2)])
  have old: "(fst q, index_at objs q) \<noteq> (fst p, index_at objs p)" if "folds_onto arena objs taint ps q d" for q d
  proof
    assume "(fst q, index_at objs q) = (fst p, index_at objs p)"
    moreover have "q \<in> set ps" using that by (simp add: folds_onto_def)
    ultimately have "q = p" using index_at_inj [OF dist, of q p] sub(1) by auto
    then show False using \<open>q \<in> set ps\<close> sub(2) by simp
  qed
  have canon: "map_of canon k' = map_option (\<lambda>c. (fst c, snd c, index_at objs c))
      (leader (key_at arena objs taint) (ps @ [p]) k')" for k'
    using inv key by (auto simp: fold_inv_def leader_append split: option.split)
  have folds: "map_of folds x = Some y \<longleftrightarrow>
        (\<exists>p c. x = (fst p, index_at objs p) \<and> y = (fst c, index_at objs c) \<and>
               folds_onto arena objs taint ps p c)" for x y
    using inv unfolding fold_inv_def by blast
  show ?thesis
  proof (cases ?b)
    case True
    have "map_of (AList.update (fst p, index_at objs p) (fst c, index_at objs c) folds) x = Some y \<longleftrightarrow>
        (\<exists>q d. x = (fst q, index_at objs q) \<and> y = (fst d, index_at objs d) \<and>
               folds_onto arena objs taint (ps @ [p]) q d)" for x y
    proof (cases "x = (fst p, index_at objs p)")
      case x: True
      have "(\<exists>q d. x = (fst q, index_at objs q) \<and> y = (fst d, index_at objs d) \<and>
               folds_onto arena objs taint (ps @ [p]) q d) \<longleftrightarrow> y = (fst c, index_at objs c)"
        unfolding new using True old x by metis
      then show ?thesis using x by (auto simp: update_conv')
    next
      case x: False
      have "map_of (AList.update (fst p, index_at objs p) (fst c, index_at objs c) folds) x = map_of folds x"
        using x by (simp add: update_conv')
      then show ?thesis unfolding new using x by (simp only: folds) metis
    qed
    then show ?thesis using True unfolding fold_inv_def prod.case if_P [OF True] by (intro conjI allI) (rule canon)
  next
    case False
    then have same: "folds_onto arena objs taint (ps @ [p]) q d \<longleftrightarrow> folds_onto arena objs taint ps q d" for q d
      by (simp add: new)
    show ?thesis unfolding fold_inv_def prod.case if_not_P [OF False] same
      by (intro conjI allI) (rule canon, rule folds)
  qed
qed

lemma fold_step_inv:
  assumes inv: "fold_inv arena objs taint ps s"
    and dist: "\<forall>obj \<in> set objs. distinct (map sec_index (sections obj))"
    and read: "sections_readable arena objs"
    and sub: "set (ps @ [p]) \<subseteq> set (section_positions objs)" "p \<notin> set ps"
  shows "\<exists>s'. fold_step arena objs taint p s = Ok s' \<and> fold_inv arena objs taint (ps @ [p]) s'"
proof (cases s)
  case (Pair canon folds)
  note inv = inv [unfolded Pair]
  show ?thesis
    unfolding Pair fold_step_cases [OF inv read sub(1)]
    using fold_inv_no_key [OF inv _ sub(2)] fold_inv_leader [OF inv _ _ sub(2)]
      fold_inv_follow [OF inv _ _ dist sub]
    by (auto split: option.split)
qed

lemma fold_loop_inv:
  assumes dist: "\<forall>obj \<in> set objs. distinct (map sec_index (sections obj))"
    and read: "sections_readable arena objs"
  shows "fold_inv arena objs taint ps s \<Longrightarrow> set (ps @ qs) \<subseteq> set (section_positions objs) \<Longrightarrow> distinct (ps @ qs) \<Longrightarrow>
     \<exists>s'. fold_loop arena objs taint qs s = Ok s' \<and> fold_inv arena objs taint (ps @ qs) s'"
proof (induction qs arbitrary: ps s)
  case (Cons q qs)
  have "set (ps @ [q]) \<subseteq> set (section_positions objs)" "q \<notin> set ps" using Cons.prems by auto
  from fold_step_inv [OF Cons.prems(1) dist read this]
  obtain s' where s': "fold_step arena objs taint q s = Ok s'" "fold_inv arena objs taint (ps @ [q]) s'" by blast
  show ?case using Cons.IH [OF s'(2)] Cons.prems(2,3) s'(1) by simp
qed simp

lemma addrsig_total:
  "sections_readable arena (objs @ [obj]) \<Longrightarrow> \<exists>t'. parse_addrsig arena t obj i = Ok t'"
  by (auto simp: parse_addrsig_def sections_readable_def split: option.split dest!: find_SomeD)

lemma address_taint_total:
  "sections_readable arena objs \<Longrightarrow> \<exists>t'. address_taint_from arena i objs t = Ok t'"
proof (induction objs arbitrary: i t)
  case (Cons obj objs)
  obtain t1 where "parse_addrsig arena
      (fold (\<lambda>sec t. fold (taint_one_reloc obj i) (sec_relocs sec) t) (sections obj) t) obj i = Ok t1"
    using addrsig_total [of arena "[]" obj] Cons.prems unfolding sections_readable_def
    by (metis append_Nil list.set_intros(1) set_ConsD empty_iff list.set(1))
  then show ?case using Cons.IH [of "i + 1" t1] Cons.prems by (simp add: sections_readable_def)
qed simp

lemma compute_fold_map_inv:
  assumes "sections_readable arena objs" "\<forall>obj \<in> set objs. distinct (map sec_index (sections obj))"
  shows "\<exists>taint canon folds. address_taint arena objs = Ok taint \<and> compute_fold_map arena objs = Ok folds \<and>
     fold_inv arena objs taint (section_positions objs) (canon, folds)"
proof -
  obtain t where t: "address_taint arena objs = Ok t"
    using address_taint_total [OF assms(1)] unfolding address_taint_def by blast
  have "fold_inv arena objs t [] ([], [])"
    by (simp add: fold_inv_def leader_def folds_onto_def)
  then obtain s where s: "fold_loop arena objs t (section_positions objs) ([], []) = Ok s"
      "fold_inv arena objs t (section_positions objs) s"
    using fold_loop_inv [OF assms(2,1), of t "[]" "([], [])" "section_positions objs"] section_positions_distinct
    by auto
  obtain canon folds where "s = (canon, folds)" by (cases s)
  then show ?thesis using t s by (auto simp: compute_fold_map_def)
qed

lemma fold_inv_folds:
  "fold_inv arena objs taint ps (canon, folds) \<Longrightarrow>
     map_of folds x = Some y \<longleftrightarrow>
       (\<exists>p c. x = (fst p, index_at objs p) \<and> y = (fst c, index_at objs c) \<and> folds_onto arena objs taint ps p c)"
  by (simp add: fold_inv_def del: split_paired_All split_paired_Ex)

text \<open>C32: Where every section's bytes are readable and an object's section indices are distinct, the fold map is
  computed without a panic and holds exactly the pairs of \<open>folds_onto\<close>: section \<open>p\<close> folds onto \<open>c\<close> iff both
  are foldable with the same key, \<open>c\<close> is the first section with that key in the order of the objects and
  their sections, \<open>c\<close> is not \<open>p\<close> and the bytes of the two are equal.
\<close>

theorem fold_map_spec:
  assumes "sections_readable arena objs" "\<forall>obj \<in> set objs. distinct (map sec_index (sections obj))"
  shows "\<exists>taint folds. address_taint arena objs = Ok taint \<and> compute_fold_map arena objs = Ok folds \<and>
     (\<forall>x y. map_of folds x = Some y \<longleftrightarrow>
        (\<exists>p c. x = (fst p, index_at objs p) \<and> y = (fst c, index_at objs c) \<and>
               folds_onto arena objs taint (section_positions objs) p c))"
  using compute_fold_map_inv [OF assms] fold_inv_folds by blast

text \<open>What a key says of its section.\<close>

lemma key_at_sound:
  assumes "p \<in> set (section_positions objs)" "key_at arena objs taint p = Some k"
  shows "sec_kind (sections (objs ! fst p) ! snd p) = Text"
    "section_data_len (sec_data (sections (objs ! fst p) ! snd p)) > 0"
    "\<not> defines_address_significant (objs ! fst p) (fst p) (snd p) taint"
    "fk_flags k = sec_flags (sections (objs ! fst p) ! snd p)"
    "reloc_keys (objs ! fst p) (sec_relocs (sections (objs ! fst p) ! snd p)) = Some (fk_relocs k)"
proof -
  have "get (sections (objs ! fst p)) (snd p) = Some (sections (objs ! fst p) ! snd p)"
    using assms(1) section_positions_mem [of "fst p" "snd p" objs] by (simp add: get_Some_iff)
  then have "sec_kind (sections (objs ! fst p) ! snd p) = Text \<and>
      \<not> section_data_is_empty (sec_data (sections (objs ! fst p) ! snd p)) \<and>
      \<not> defines_address_significant (objs ! fst p) (fst p) (snd p) taint \<and>
      fk_flags k = sec_flags (sections (objs ! fst p) ! snd p) \<and>
      reloc_keys (objs ! fst p) (sec_relocs (sections (objs ! fst p) ! snd p)) = Some (fk_relocs k)"
    using assms(2) by (auto simp: key_at_def fold_key_for_def split: option.splits if_splits outcome.splits)
  then show "sec_kind (sections (objs ! fst p) ! snd p) = Text"
    "section_data_len (sec_data (sections (objs ! fst p) ! snd p)) > 0"
    "\<not> defines_address_significant (objs ! fst p) (fst p) (snd p) taint"
    "fk_flags k = sec_flags (sections (objs ! fst p) ! snd p)"
    "reloc_keys (objs ! fst p) (sec_relocs (sections (objs ! fst p) ! snd p)) = Some (fk_relocs k)"
    by (simp_all add: section_data_is_empty_def section_data_len_def unat_gt_0)
qed

lemma folds_ontoD:
  assumes "folds_onto arena objs taint ps p c" "p \<in> set ps"
  obtains k where "key_at arena objs taint p = Some k" "key_at arena objs taint c = Some k" "c \<in> set ps" "p \<noteq> c"
    "leader (key_at arena objs taint) ps k = Some c"
  using assms by (auto simp: folds_onto_def bind_eq_Some_conv dest: leader_mem)

lemma canonical_not_folded:
  assumes "folds_onto arena objs taint ps p c" shows "\<not> folds_onto arena objs taint ps c d"
proof
  assume "folds_onto arena objs taint ps c d"
  moreover obtain k where "key_at arena objs taint c = Some k" "leader (key_at arena objs taint) ps k = Some c"
    using assms folds_ontoD [OF assms] by (auto simp: folds_onto_def)
  ultimately show False by (auto simp: folds_onto_def)
qed

text \<open>C36: What the fold map promises the link: a folded section and the section that stands for it are two
  different non-empty \<open>Text\<close> sections with the same bytes, the same flags and the same relocation list up to
  the symbol indices, neither of them defines an address-significant symbol, and the one that stands for
  the other is itself never folded, so no alias chain arises.
\<close>

theorem folded_sections_safe:
  assumes "sections_readable arena objs" "\<forall>obj \<in> set objs. distinct (map sec_index (sections obj))"
    and "compute_fold_map arena objs = Ok folds" "map_of folds (o1, i) = Some (o2, j)"
  shows "\<exists>taint p q s r. address_taint arena objs = Ok taint \<and> (o1, p) \<noteq> (o2, q) \<and>
     get (sections (objs ! o1)) p = Some s \<and> sec_index s = i \<and>
     get (sections (objs ! o2)) q = Some r \<and> sec_index r = j \<and>
     sec_kind s = Text \<and> sec_kind r = Text \<and> sec_flags s = sec_flags r \<and>
     arena_bytes arena (sec_data s) = arena_bytes arena (sec_data r) \<and> section_data_len (sec_data s) > 0 \<and>
     reloc_keys (objs ! o1) (sec_relocs s) \<noteq> None \<and>
     reloc_keys (objs ! o1) (sec_relocs s) = reloc_keys (objs ! o2) (sec_relocs r) \<and>
     \<not> defines_address_significant (objs ! o1) o1 p taint \<and>
     \<not> defines_address_significant (objs ! o2) o2 q taint \<and>
     map_of folds (o2, j) = None"
proof -
  let ?ps = "section_positions objs"
  obtain taint where t: "address_taint arena objs = Ok taint"
    and spec: "\<And>x y. map_of folds x = Some y \<longleftrightarrow>
        (\<exists>p c. x = (fst p, index_at objs p) \<and> y = (fst c, index_at objs c) \<and> folds_onto arena objs taint ?ps p c)"
    using compute_fold_map_inv [OF assms(1,2)] fold_inv_folds assms(3) by (metis outcome.inject(1))
  obtain p q where p: "index_at objs (o1, p) = i" "index_at objs (o2, q) = j"
      and f: "folds_onto arena objs taint ?ps (o1, p) (o2, q)"
    using assms(4) unfolding spec by force
  have m: "(o1, p) \<in> set ?ps" using f by (simp add: folds_onto_def)
  obtain k where k: "key_at arena objs taint (o1, p) = Some k" "key_at arena objs taint (o2, q) = Some k"
      "(o2, q) \<in> set ?ps" "(o1, p) \<noteq> (o2, q)"
    by (rule folds_ontoD [OF f m])
  have g: "get (sections (objs ! o1)) p = Some (sections (objs ! o1) ! p)"
      "get (sections (objs ! o2)) q = Some (sections (objs ! o2) ! q)"
    using m k(3) by (simp_all add: section_positions_mem get_Some_iff)
  have "map_of folds (o2, j) \<noteq> Some y" for y
  proof
    assume "map_of folds (o2, j) = Some y"
    then obtain c d where c: "(o2, j) = (fst c, index_at objs c)" "folds_onto arena objs taint ?ps c d"
      unfolding spec by blast
    have "c \<in> set ?ps" using c(2) unfolding folds_onto_def by blast
    moreover have "fst c = fst (o2, q)" "index_at objs c = index_at objs (o2, q)"
      using c(1) unfolding p(2) by (metis Pair_inject fst_conv)+
    ultimately have "c = (o2, q)" by (rule index_at_inj [OF assms(2) _ k(3)])
    then show False using canonical_not_folded [OF f] c(2) by simp
  qed
  then have none: "map_of folds (o2, j) = None" by (cases "map_of folds (o2, j)") blast+
  note left = key_at_sound [OF m k(1), unfolded fst_conv snd_conv]
  note right = key_at_sound [OF k(3,2), unfolded fst_conv snd_conv]
  have bytes: "arena_bytes arena (sec_data (sections (objs ! o1) ! p)) = arena_bytes arena (sec_data (sections (objs ! o2) ! q))"
    using f unfolding folds_onto_def bytes_at_def fst_conv snd_conv by blast
  have keys: "reloc_keys (objs ! o1) (sec_relocs (sections (objs ! o1) ! p)) =
        reloc_keys (objs ! o2) (sec_relocs (sections (objs ! o2) ! q))"
      "reloc_keys (objs ! o1) (sec_relocs (sections (objs ! o1) ! p)) \<noteq> None"
    by (simp_all only: left(5) right(5) option.distinct not_False_eq_True)
  have flags: "sec_flags (sections (objs ! o1) ! p) = sec_flags (sections (objs ! o2) ! q)"
    using left(4) right(4) by (rule subst)
  show ?thesis
    using t k(4) g p [unfolded index_at_def fst_conv snd_conv] left(1-3) right(1,3) flags bytes keys none by blast
qed

section \<open>Concrete links\<close>

text \<open>
  Two objects with an empty \<^verbatim>\<open>.llvm_addrsig\<close> each, a function \<open>f\<close> of one byte whose relocation names the local
  symbol \<^verbatim>\<open>h\<close>, and that symbol's own section, whose bytes differ.
\<close>

definition icf_section :: "nat \<Rightarrow> u32 \<Rightarrow> u32 \<Rightarrow> u32 \<Rightarrow> input_reloc list \<Rightarrow> input_section" where
  "icf_section i ty off len rs =
     \<lparr>sec_index = i, sec_name = ''.text'', sec_kind = Text, sec_sh_type = ty,
      sec_data = \<lparr>sd_src = Owned 0, sd_off = off, sd_len = len\<rparr>, sec_align = 1, sec_size = ucast len,
      sec_flags = 6, sec_relocs = rs\<rparr>"

definition icf_symbol :: input_symbol where
  "icf_symbol =
     \<lparr>sym_index = 0, sym_name = ''h'', sym_binding = Local, sym_is_undefined = False, sym_is_common = False,
      sym_is_ifunc = False, sym_st_type = STT_FUNC, sym_visibility = STV_DEFAULT, sym_section = Some 3,
      sym_value = 0, sym_size = 1\<rparr>"

definition icf_object :: "u32 \<Rightarrow> input_object" where
  "icf_object off =
     \<lparr>path = ''o'',
      sections = [icf_section 1 SHT_LLVM_ADDRSIG 0 0 [],
                  icf_section 2 1 0 1 [\<lparr>r_offset = 0, r_type = 4, r_symbol = 0, r_addend = 0\<rparr>],
                  icf_section 3 1 off 1 []],
      symbols = [icf_symbol], section_map = Sparse [], symbol_map = Sparse [(0, 0)], comdat_groups = []\<rparr>"

definition icf_arena :: input_arena where
  "icf_arena = \<lparr>mmaps = [], owned = [[0xe8, 0xc3, 0x90]], arena_names = {}\<rparr>"

lemmas icf_demo = icf_arena_def icf_object_def icf_symbol_def icf_section_def

lemma icf_demo_readable: "sections_readable icf_arena [icf_object 1, icf_object 2]"
  by (simp add: sections_readable_def icf_demo arena_bytes_def slice_def)

lemma icf_demo_distinct: "\<forall>obj \<in> set [icf_object 1, icf_object 2]. distinct (map sec_index (sections obj))"
  by (simp add: icf_demo)

lemma icf_demo_taint:
  "address_taint icf_arena [icf_object 1, icf_object 2] =
     Ok \<lparr>at_names = {}, at_sections = {}, at_objects = {0, 1}, at_syms = {}\<rparr>"
  by (simp add: address_taint_def icf_demo addr_taint_default_def parse_addrsig_def arena_bytes_def slice_def
      taint_one_reloc_def reloc_takes_address_def SHT_LLVM_ADDRSIG_def addrsig_entries.simps insert_commute)

text \<open>
  The two \<open>f\<close> fold onto each other although their calls go to different local functions: the key compares
  the targets of relocations by name alone.
\<close>

lemma icf_name_only_fold:
  "compute_fold_map icf_arena [icf_object 1, icf_object 2] = Ok [((1, 2), (0, 2))] \<and>
   bytes_at icf_arena [icf_object 1, icf_object 2] 0 2 = Some [0xc3] \<and>
   bytes_at icf_arena [icf_object 1, icf_object 2] 1 2 = Some [0x90]"
  unfolding compute_fold_map_def icf_demo_taint bind_outcome.simps
  by (simp add: section_positions_def fold_step_def fold_key_for_def icf_demo
      defines_address_significant_def symbol_significant_def section_data_is_empty_def section_data_len_def
      arena_bytes_def slice_def reloc_target_name_def symbol_by_index_def symbol_pos_def content_digest_def
      bytes_at_def SHT_LLVM_ADDRSIG_def)

theorem fold_map_spec_witness:
  "\<exists>taint p c. folds_onto icf_arena [icf_object 1, icf_object 2] taint
     (section_positions [icf_object 1, icf_object 2]) p c \<and>
     (fst p, index_at [icf_object 1, icf_object 2] p) = (1, 2) \<and>
     (fst c, index_at [icf_object 1, icf_object 2] c) = (0, 2)"
proof -
  obtain taint folds where f: "compute_fold_map icf_arena [icf_object 1, icf_object 2] = Ok folds"
    and iff: "\<And>x y. map_of folds x = Some y \<longleftrightarrow> (\<exists>p c. x = (fst p, index_at [icf_object 1, icf_object 2] p) \<and>
        y = (fst c, index_at [icf_object 1, icf_object 2] c) \<and>
        folds_onto icf_arena [icf_object 1, icf_object 2] taint (section_positions [icf_object 1, icf_object 2]) p c)"
    using fold_map_spec [OF icf_demo_readable icf_demo_distinct] by blast
  have "folds = [((1, 2), (0, 2))]" using f conjunct1 [OF icf_name_only_fold] by (metis outcome.inject(1))
  then have "map_of folds (1, 2) = Some (0, 2)" by simp
  then show ?thesis unfolding iff by metis
qed

theorem folded_sections_safe_witness:
  "\<exists>s r. s \<in> set (sections (icf_object 2)) \<and> r \<in> set (sections (icf_object 1)) \<and>
     sec_index s = 2 \<and> sec_index r = 2 \<and> sec_kind s = Text \<and> sec_kind r = Text \<and>
     arena_bytes icf_arena (sec_data s) = arena_bytes icf_arena (sec_data r)"
proof -
  have m: "map_of [((1, 2), (0, 2))] (1, 2) = Some (0 :: nat, 2 :: nat)" by simp
  show ?thesis
    using folded_sections_safe [OF icf_demo_readable icf_demo_distinct _ m] icf_name_only_fold
    by (auto dest!: get_in_set)
qed

end
