(* ===== verification/Reloc_Scan.thy ===== *)
theory Reloc_Scan
  imports Reloc_Types "HOL-Library.Char_ord" "HOL-Library.List_Lexorder"
begin

text \<open>
  The relocation scan of \<^verbatim>\<open>peony-reloc/src/scan.rs\<close> and \<^verbatim>\<open>copy.rs\<close>: which GOT, PLT and TLS slots the
  relocations of the inputs ask for, which weak references get a symbol id before the scan, and which
  imported data symbols need a COPY relocation.  \<open>rayon\<close>'s \<^verbatim>\<open>par_iter().map().collect()\<close> keeps the order of
  its items, so the parallel and the serial arm of both scans are one expression.

  The scan is shown to give each slot some relocation asks for exactly once; the list of COPY symbols
  is shown not to depend on the order of the objects nor on the iteration order of the hash map.
\<close>

section \<open>Weak references\<close>

definition is_weak_undef :: "symbol_table \<Rightarrow> name \<Rightarrow> bool" where
  "is_weak_undef st n =
     (case lookup st n of Some r \<Rightarrow> \<not> is_defined r \<and> \<not> res_import r | None \<Rightarrow> False)"

definition assign_weak_reloc :: "input_object \<Rightarrow> input_reloc \<Rightarrow> symbol_table \<Rightarrow> symbol_table" where
  "assign_weak_reloc obj r st =
     (if \<not> needs_got (decode (r_type r)) then st
      else case symbol_by_index obj (r_symbol r) of
        None \<Rightarrow> st
      | Some s \<Rightarrow>
          if sym_binding s \<noteq> Weak then st
          else if is_weak_undef st (sym_name s) then snd (ensure_id (sym_name s) st) else st)"

definition assign_weak_got_ids :: "input_object list \<Rightarrow> symbol_table \<Rightarrow> symbol_table" where
  "assign_weak_got_ids objs st =
     fold (\<lambda>obj. fold (\<lambda>sec. fold (assign_weak_reloc obj) (sec_relocs sec)) (sections obj)) objs st"

section \<open>The scan\<close>

definition scan_tls_ref :: "symbol_table \<Rightarrow> nat \<Rightarrow> nat \<Rightarrow> input_symbol \<Rightarrow> tls_ref" where
  "scan_tls_ref st obj_id sym_pos s =
     (if sym_binding s = Local then TlsLocal obj_id sym_pos
      else case lookup st (sym_name s) of
        Some r \<Rightarrow> TlsGlobal (res_id r)
      | None \<Rightarrow> TlsLocal obj_id sym_pos)"

definition is_import :: "symbol_table \<Rightarrow> name \<Rightarrow> bool" where
  "is_import st n = (case lookup st n of Some r \<Rightarrow> res_import r | None \<Rightarrow> False)"

text \<open>The GOT or PLT slot of a relocation that is not a TLS one.\<close>

definition scan_global_slot ::
  "symbol_table \<Rightarrow> bool \<Rightarrow> rtype \<Rightarrow> input_symbol \<Rightarrow> synthetic_slot option" where
  "scan_global_slot st shared t s =
     (case lookup st (sym_name s) of
        None \<Rightarrow> None
      | Some res \<Rightarrow>
          if needs_got t \<and> (is_defined res \<or> res_import res \<or> res_binding res = Weak)
          then Some (Got (res_id res))
          else if t = R_PLT32 then
            (let tls_helper = (sym_name s = ''__tls_get_addr'');
                 import_plt = (res_import res \<and> (shared \<or> \<not> tls_helper));
                 ifunc_plt = (res_is_ifunc res \<and> is_defined res \<and> \<not> res_import res)
             in if import_plt \<or> ifunc_plt then Some (Plt (res_id res)) else None)
          else None)"

definition scan_reloc ::
  "input_object \<Rightarrow> nat \<Rightarrow> symbol_table \<Rightarrow> bool \<Rightarrow> input_reloc \<Rightarrow> synthetic_slot option" where
  "scan_reloc obj obj_id st shared r =
     (case symbol_pos obj (r_symbol r) of
        None \<Rightarrow> None
      | Some p \<Rightarrow>
          (case get (symbols obj) p of
             None \<Rightarrow> None
           | Some s \<Rightarrow>
               let t = decode (r_type r); ref = scan_tls_ref st obj_id p s in
               if t = R_GOTTPOFF then Some (TlsIe ref)
               else if \<not> shared \<and> (t = R_TLSGD \<or> t = R_GOTPC32_TLSDESC) \<and> sym_binding s \<noteq> Local \<and>
                       is_import st (sym_name s)
               then Some (TlsIe ref)
               else if shared \<and> t = R_TLSGD then Some (TlsGd ref)
               else if shared \<and> t = R_TLSLD then Some TlsLdm
               else if shared \<and> t = R_GOTPC32_TLSDESC then Some (TlsDesc ref)
               else scan_global_slot st shared t s))"

definition scan_object ::
  "input_object \<Rightarrow> nat \<Rightarrow> symbol_table \<Rightarrow> bool \<Rightarrow> synthetic_slot list" where
  "scan_object obj obj_id st shared =
     concat (map (\<lambda>sec. List.map_filter (scan_reloc obj obj_id st shared) (sec_relocs sec)) (sections obj))"

definition scan_relocations :: "input_object list \<Rightarrow> symbol_table \<Rightarrow> bool \<Rightarrow> scan_result" where
  "scan_relocations objs st shared =
     fold add_slot (concat (map (\<lambda>(obj_id, obj). scan_object obj obj_id st shared) (enumerate 0 objs)))
       scan_result_new"

section \<open>COPY relocations\<close>

definition copy_candidate :: "symbol_table \<Rightarrow> input_object \<Rightarrow> input_reloc \<Rightarrow> (u32 \<times> name) option" where
  "copy_candidate st obj r =
     (if \<not> may_need_copy_reloc (decode (r_type r)) then None
      else case symbol_by_index obj (r_symbol r) of
        None \<Rightarrow> None
      | Some s \<Rightarrow>
          if sym_binding s = Local then None
          else if starts_with (sym_name s) ''_ZTV'' \<or> starts_with (sym_name s) ''_ZTT'' \<or>
                  starts_with (sym_name s) ''_ZTS'' then None
          else case lookup st (sym_name s) of
            None \<Rightarrow> None
          | Some res \<Rightarrow>
              if \<not> res_import res then None
              else if res_visibility res = STV_HIDDEN \<or> res_visibility res = STV_PROTECTED then None
              else if res_st_type res = STT_FUNC \<or> res_st_type res = STT_GNU_IFUNC \<or>
                      res_st_type res = STT_TLS then None
              else if res_size res = 0 \<and> res_st_type res \<noteq> STT_OBJECT then None
              else Some (res_id res, sym_name s))"

definition copy_candidates :: "symbol_table \<Rightarrow> input_object \<Rightarrow> (u32 \<times> name) list" where
  "copy_candidates st obj =
     concat (map (\<lambda>sec.
       if sec_flags sec AND SHF_ALLOC = 0 \<or> sec_flags sec AND SHF_WRITE \<noteq> 0 then []
       else List.map_filter (copy_candidate st obj) (sec_relocs sec)) (sections obj))"

definition or_insert :: "'k \<times> 'v \<Rightarrow> ('k \<times> 'v) list \<Rightarrow> ('k \<times> 'v) list" where
  "or_insert = (\<lambda>(k, v) m. if map_of m k = None then m @ [(k, v)] else m)"

text \<open>\<open>iter\<close> is the order in which the hash map yields its entries.\<close>

definition copy_reloc_symbols ::
  "((u32 \<times> name) list \<Rightarrow> (u32 \<times> name) list) \<Rightarrow> input_object list \<Rightarrow> symbol_table \<Rightarrow> u32 list" where
  "copy_reloc_symbols iter objs st =
     map fst (sort_key snd (iter (fold or_insert (concat (map (copy_candidates st) objs)) [])))"

section \<open>What the scan asks for\<close>

lemma fold_add_slot:
  "slots_ok r \<Longrightarrow> slots_ok (fold add_slot xs r) \<and> set (slots (fold add_slot xs r)) = set xs \<union> set (slots r)"
  by (induction xs arbitrary: r) (auto simp: slots_ok_add set_add_slot)

lemma set_map_filter: "set (List.map_filter f xs) = {y. \<exists>x \<in> set xs. f x = Some y}"
  by (force simp: List.map_filter_def)

lemma scan_slots:
  "slots_ok (scan_relocations objs st shared) \<and>
   set (slots (scan_relocations objs st shared)) =
     {s. \<exists>i < length objs. \<exists>sec \<in> set (sections (objs ! i)). \<exists>r \<in> set (sec_relocs sec).
        scan_reloc (objs ! i) i st shared r = Some s}"
proof -
  have "set (concat (map (\<lambda>(obj_id, obj). scan_object obj obj_id st shared) (enumerate 0 objs))) =
     {s. \<exists>i < length objs. \<exists>sec \<in> set (sections (objs ! i)). \<exists>r \<in> set (sec_relocs sec).
        scan_reloc (objs ! i) i st shared r = Some s}"
    by (force simp: scan_object_def set_map_filter in_set_enumerate_eq)
  then show ?thesis
    using fold_add_slot [OF slots_ok_new,
        of "concat (map (\<lambda>(obj_id, obj). scan_object obj obj_id st shared) (enumerate 0 objs))"]
    by (simp add: scan_relocations_def) (simp add: scan_result_new_def)
qed

lemma map_filter_case:
  "i \<in> set (List.map_filter f xs) \<longleftrightarrow> (\<exists>x \<in> set xs. f x = Some i)"
  by (simp add: set_map_filter)

lemma got_symbols_iff: "i \<in> set (got_symbols r) \<longleftrightarrow> Got i \<in> set (slots r)"
proof -
  have "(case x of Got j \<Rightarrow> Some j | _ \<Rightarrow> None) = Some i \<longleftrightarrow> x = Got i" for x
    by (simp split: synthetic_slot.split)
  then show ?thesis by (simp add: got_symbols_def map_filter_case)
qed

lemma plt_symbols_iff: "i \<in> set (plt_symbols r) \<longleftrightarrow> Plt i \<in> set (slots r)"
proof -
  have "(case x of Plt j \<Rightarrow> Some j | _ \<Rightarrow> None) = Some i \<longleftrightarrow> x = Plt i" for x
    by (simp split: synthetic_slot.split)
  then show ?thesis by (simp add: plt_symbols_def map_filter_case)
qed

lemma scan_reloc_Got:
  "scan_reloc obj k st shared r = Some (Got i) \<longleftrightarrow>
     (\<exists>s res. symbol_by_index obj (r_symbol r) = Some s \<and> lookup st (sym_name s) = Some res \<and>
        needs_got (decode (r_type r)) \<and> (is_defined res \<or> res_binding res = Weak) \<and> res_id res = i)"
  by (auto simp: scan_reloc_def scan_global_slot_def symbol_by_index_def Let_def needs_got_def is_defined_def
      simp del: get_None_iff split: option.splits if_splits)

lemma scan_reloc_Plt:
  "scan_reloc obj k st shared r = Some (Plt i) \<longleftrightarrow>
     (\<exists>s res. symbol_by_index obj (r_symbol r) = Some s \<and> lookup st (sym_name s) = Some res \<and>
        decode (r_type r) = R_PLT32 \<and> res_id res = i \<and>
        (if res_import res then shared \<or> sym_name s \<noteq> ''__tls_get_addr'' else res_is_ifunc res \<and> is_defined res))"
  by (auto simp: scan_reloc_def scan_global_slot_def symbol_by_index_def Let_def needs_got_def is_defined_def
      simp del: get_None_iff split: option.splits if_splits)

text \<open>The relocations of a link, with the symbol they name.\<close>

definition refers :: "input_object list \<Rightarrow> input_reloc \<Rightarrow> input_symbol \<Rightarrow> bool" where
  "refers objs r s \<longleftrightarrow>
     (\<exists>obj \<in> set objs. \<exists>sec \<in> set (sections obj).
        r \<in> set (sec_relocs sec) \<and> symbol_by_index obj (r_symbol r) = Some s)"

lemma distinct_map_filter:
  "distinct xs \<Longrightarrow> (\<And>x y z. f x = Some z \<Longrightarrow> f y = Some z \<Longrightarrow> x = y) \<Longrightarrow> distinct (List.map_filter f xs)"
  by (induction xs) (auto simp: set_map_filter map_filter_simps split: option.split)

text \<open>A \<^verbatim>\<open>PLT32\<close> reference asks for a stub when its symbol is imported, or is a defined IFUNC.\<close>

definition wants_plt :: "bool \<Rightarrow> input_symbol \<Rightarrow> resolution \<Rightarrow> bool" where
  "wants_plt shared s res \<longleftrightarrow>
     (if res_import res then shared \<or> sym_name s \<noteq> ''__tls_get_addr'' else res_is_ifunc res \<and> is_defined res)"

text \<open>C29: The scan allocates each slot once and allocates exactly the slots the link asks
  for: a symbol id has a GOT slot iff some relocation of a GOT-referencing type names a symbol that
  resolves to that id and is defined, imported or weak; it has a PLT slot iff some \<^verbatim>\<open>PLT32\<close> relocation
  names a symbol resolving to it that is imported (in an executable, other than \<^verbatim>\<open>__tls_get_addr\<close>) or a
  defined IFUNC.\<close>

theorem scan_slots_exact:
  "distinct (slots (scan_relocations objs st shared)) \<and>
   distinct (got_symbols (scan_relocations objs st shared)) \<and>
   distinct (plt_symbols (scan_relocations objs st shared)) \<and>
   (i \<in> set (got_symbols (scan_relocations objs st shared)) \<longleftrightarrow>
      (\<exists>r s res. refers objs r s \<and> lookup st (sym_name s) = Some res \<and> res_id res = i \<and>
         needs_got (decode (r_type r)) \<and> (is_defined res \<or> res_binding res = Weak))) \<and>
   (i \<in> set (plt_symbols (scan_relocations objs st shared)) \<longleftrightarrow>
      (\<exists>r s res. refers objs r s \<and> lookup st (sym_name s) = Some res \<and> res_id res = i \<and>
         decode (r_type r) = R_PLT32 \<and> wants_plt shared s res))"
proof -
  have d: "distinct (slots (scan_relocations objs st shared))"
    using scan_slots [of objs st shared] by (simp add: slots_ok_def)
  have d': "distinct (got_symbols (scan_relocations objs st shared))"
      "distinct (plt_symbols (scan_relocations objs st shared))"
    unfolding got_symbols_def plt_symbols_def
    by (rule distinct_map_filter [OF d]; simp split: synthetic_slot.splits)+
  have slot: "x \<in> set (slots (scan_relocations objs st shared)) \<longleftrightarrow>
      (\<exists>k < length objs. \<exists>sec \<in> set (sections (objs ! k)). \<exists>r \<in> set (sec_relocs sec).
         scan_reloc (objs ! k) k st shared r = Some x)" for x
    using scan_slots [of objs st shared] by simp
  have all: "(\<exists>k < length objs. \<exists>sec \<in> set (sections (objs ! k)). \<exists>r \<in> set (sec_relocs sec).
        \<exists>s res. symbol_by_index (objs ! k) (r_symbol r) = Some s \<and> P r s res) \<longleftrightarrow>
      (\<exists>r s res. refers objs r s \<and> P r s res)" for P :: "input_reloc \<Rightarrow> input_symbol \<Rightarrow> resolution \<Rightarrow> bool"
    unfolding refers_def using in_set_conv_nth [of _ objs] by metis
  show ?thesis
    using d d' unfolding wants_plt_def got_symbols_iff plt_symbols_iff slot scan_reloc_Got scan_reloc_Plt all
    by (intro conjI; (assumption | fast))
qed

section \<open>The COPY list in closed form\<close>

definition needs_copy :: "symbol_table \<Rightarrow> input_object list \<Rightarrow> name \<Rightarrow> bool" where
  "needs_copy st objs n \<longleftrightarrow>
     (\<exists>obj \<in> set objs. \<exists>sec \<in> set (sections obj). \<exists>r \<in> set (sec_relocs sec). \<exists>i.
        sec_flags sec AND SHF_ALLOC \<noteq> 0 \<and> sec_flags sec AND SHF_WRITE = 0 \<and> copy_candidate st obj r = Some (i, n))"

lemma copy_candidateD:
  "copy_candidate st obj r = Some (i, n) \<Longrightarrow> \<exists>res. lookup st n = Some res \<and> res_import res \<and> res_id res = i"
  by (auto simp: copy_candidate_def split: option.splits if_splits)

lemma set_copy_candidates:
  "set (concat (map (copy_candidates st) objs)) =
     {(res_id (the (lookup st n)), n) | n. needs_copy st objs n}"
  (is "?L = ?R")
proof (rule set_eqI)
  fix x :: "u32 \<times> name"
  obtain i n where x: "x = (i, n)" by (cases x)
  have "x \<in> ?L \<longleftrightarrow> (\<exists>obj \<in> set objs. \<exists>sec \<in> set (sections obj). \<exists>r \<in> set (sec_relocs sec).
      sec_flags sec AND SHF_ALLOC \<noteq> 0 \<and> sec_flags sec AND SHF_WRITE = 0 \<and> copy_candidate st obj r = Some (i, n))"
    by (auto simp: x copy_candidates_def set_map_filter split: if_splits)
  also have "\<dots> \<longleftrightarrow> i = res_id (the (lookup st n)) \<and> needs_copy st objs n"
    unfolding needs_copy_def using copy_candidateD [of st _ _ _ n] by (metis option.sel)
  also have "\<dots> \<longleftrightarrow> x \<in> ?R" by (auto simp: x)
  finally show "x \<in> ?L \<longleftrightarrow> x \<in> ?R" .
qed

lemma fold_or_insert:
  assumes "distinct (map fst m)" "\<And>k v w. (k, v) \<in> set xs \<union> set m \<Longrightarrow> (k, w) \<in> set xs \<union> set m \<Longrightarrow> v = w"
  shows "distinct (map fst (fold or_insert xs m)) \<and> set (fold or_insert xs m) = set xs \<union> set m"
  using assms
proof (induction xs arbitrary: m)
  case (Cons x xs)
  obtain k v where x: "x = (k, v)" by (cases x)
  have "distinct (map fst (or_insert x m)) \<and> set (or_insert x m) = insert x (set m)"
  proof (cases "map_of m k")
    case None
    then show ?thesis using Cons.prems(1) by (auto simp: or_insert_def x map_of_eq_None_iff)
  next
    case (Some w)
    then have "w = v" using map_of_SomeD [OF Some] Cons.prems(2) [of k w v] by (simp add: x)
    then have "x \<in> set m" using map_of_SomeD [OF Some] by (simp add: x)
    then show ?thesis using Cons.prems(1) Some by (simp add: or_insert_def x insert_absorb)
  qed
  then show ?case using Cons.IH [of "or_insert x m"] Cons.prems(2) by auto
qed simp

lemma ids_determine_names:
  "ids_ok st \<Longrightarrow> lookup st n = Some r \<Longrightarrow> lookup st m = Some q \<Longrightarrow> res_id r \<noteq> - 1 \<Longrightarrow> res_id q = res_id r \<Longrightarrow> n = m"
  unfolding ids_ok_def by metis

text \<open>In a table whose ids are sound and whose imports all have one, the COPY
  list is the ids of exactly the names some read-only allocated section needs copied, in the order of the
  names.  It depends neither on the order of the objects nor on the order in which the hash map is
  traversed.\<close>

theorem copy_reloc_symbols_spec:
  assumes iter: "\<And>m. mset (iter m) = mset m"
    and ids: "ids_ok st" "\<And>n r. lookup st n = Some r \<Longrightarrow> res_import r \<Longrightarrow> res_id r \<noteq> - 1"
  shows "copy_reloc_symbols iter objs st =
     map (\<lambda>n. res_id (the (lookup st n))) (sorted_list_of_set {n. needs_copy st objs n})"
proof -
  let ?C = "concat (map (copy_candidates st) objs)"
  let ?M = "fold or_insert ?C []"
  let ?S = "sort_key snd (iter ?M)"
  have cand: "\<exists>r. lookup st n = Some r \<and> res_import r \<and> res_id r = i" if "(i, n) \<in> set ?C" for i n
    using that by (auto simp: copy_candidates_def set_map_filter split: if_splits dest!: copy_candidateD)
  have fun1: "n = m" if "(i, n) \<in> set ?C" "(i, m) \<in> set ?C" for i n m
    using cand [OF that(1)] cand [OF that(2)] ids ids_determine_names [OF ids(1)] by metis
  have M: "distinct (map fst ?M)" "set ?M = set ?C"
    using fold_or_insert [of "[]" ?C] fun1 by auto
  have mset: "mset ?S = mset ?M" using iter by simp
  then have set: "set ?S = set ?C" using M(2) by (metis set_mset_mset)
  have "i = j" if "(i, n) \<in> set ?C" "(j, n) \<in> set ?C" for i j n
    using cand [OF that(1)] cand [OF that(2)] by auto
  then have "inj_on snd (set ?M)" unfolding M(2) inj_on_def by (metis prod.collapse)
  moreover have "distinct ?M" using M(1) by (simp add: distinct_map)
  ultimately have "distinct (map snd ?M)" by (simp add: distinct_map)
  moreover have "mset (map snd ?S) = mset (map snd ?M)" using mset by simp
  ultimately have "distinct (map snd ?S)" using mset_eq_imp_distinct_iff by blast
  moreover have "sorted (map snd ?S)" by simp
  moreover have "set (map snd ?S) = {n. needs_copy st objs n}"
    unfolding set_map set set_copy_candidates by force
  ultimately have "map snd ?S = sorted_list_of_set {n. needs_copy st objs n}"
    by (metis sorted_list_of_set.idem_if_sorted_distinct)
  moreover have "fst x = res_id (the (lookup st (snd x)))" if "x \<in> set ?S" for x
    using cand [of "fst x" "snd x"] that unfolding set by auto
  then have "map fst ?S = map (\<lambda>n. res_id (the (lookup st n))) (map snd ?S)"
    unfolding map_map comp_def by (rule map_cong [OF refl])
  ultimately show ?thesis unfolding copy_reloc_symbols_def by metis
qed

definition scan_object_demo :: "name \<Rightarrow> input_object" where
  "scan_object_demo n =
     \<lparr>path = ''a.o'',
      sections = [\<lparr>sec_index = 1, sec_name = ''.text'', sec_kind = Text, sec_sh_type = 1,
                   sec_data = section_data_EMPTY, sec_align = 16, sec_size = 4, sec_flags = 6,
                   sec_relocs = [\<lparr>r_offset = 0, r_type = 2, r_symbol = 1, r_addend = - 4\<rparr>]\<rparr>],
      symbols = [example_symbol 1 n], section_map = Sparse [(1, 0)], symbol_map = Sparse [(1, 0)],
      comdat_groups = []\<rparr>"

definition scan_table_demo :: symbol_table where
  "scan_table_demo =
     \<lparr>resolutions =
        [(''b'', make_undefined_resolution\<lparr>res_id := 0, res_import := True, res_st_type := STT_OBJECT\<rparr>),
         (''a'', make_undefined_resolution\<lparr>res_id := 1, res_import := True, res_st_type := STT_OBJECT\<rparr>)],
      names = [''b'', ''a''], object_paths = [''a.o'']\<rparr>"

theorem copy_reloc_symbols_spec_witness:
  "copy_reloc_symbols rev [scan_object_demo ''b'', scan_object_demo ''a''] scan_table_demo = [1, 0]"
proof -
  have ids: "ids_ok scan_table_demo"
    by (auto simp: ids_ok_def scan_table_demo_def lookup_def split: if_splits)
  have imp: "res_id r \<noteq> - 1" if "lookup scan_table_demo n = Some r" "res_import r" for n r
    using that by (auto simp: scan_table_demo_def lookup_def split: if_splits)
  have ty: "decode 2 = R_PC32" by (simp add: decode_def rtype_codes_def)
  have "{n. needs_copy scan_table_demo [scan_object_demo ''b'', scan_object_demo ''a''] n} = {''a'', ''b''}"
    by (auto simp: needs_copy_def scan_object_demo_def copy_candidate_def ty may_need_copy_reloc_def
        symbol_by_index_def symbol_pos_def example_symbol_def starts_with_def scan_table_demo_def lookup_def
          make_undefined_resolution_def)
  moreover have "sorted_list_of_set {''a'', ''b''} = [''a'', ''b'']" by simp
  ultimately show ?thesis
    using copy_reloc_symbols_spec [of rev, OF _ ids imp]
    by (simp add: scan_table_demo_def lookup_def)
qed

end
