(* ===== verification/Dyn_Relocs.thy ===== *)
theory Dyn_Relocs
  imports Reloc_Scan "HOL-Library.Product_Lexorder"
begin

text \<open>
  The dynamic relocations of \<^verbatim>\<open>peony-reloc/src/dynamic.rs\<close> and \<^verbatim>\<open>tls.rs\<close>: the counts that size
  \<^verbatim>\<open>.rela.dyn\<close> before layout, and the lists collected after it.  The theory relates the two, each list is
  the count less the sites that have no address, and shows the fused collection equal to the two separate
  passes.  \<open>sort_unstable\<close> on tuples is the sort by the tuple, the signed addend read by \<open>sint\<close>.
\<close>

section \<open>The sites\<close>

text \<open>The \<^verbatim>\<open>R64\<close> relocations of the allocated sections whose symbol index is known.\<close>

definition section_refs :: "input_object \<Rightarrow> input_section \<Rightarrow> (input_section \<times> input_reloc \<times> input_symbol) list" where
  "section_refs obj sec =
     (if sec_flags sec AND SHF_ALLOC = 0 then []
      else List.map_filter
        (\<lambda>r. if decode (r_type r) \<noteq> R_64 then None
             else map_option (\<lambda>s. (sec, r, s)) (symbol_by_index obj (r_symbol r))) (sec_relocs sec))"

definition object_refs :: "input_object \<Rightarrow> (input_section \<times> input_reloc \<times> input_symbol) list" where
  "object_refs obj = concat (map (section_refs obj) (sections obj))"

definition link_refs :: "input_object list \<Rightarrow> (nat \<times> input_section \<times> input_reloc \<times> input_symbol) list" where
  "link_refs objs = concat (map (\<lambda>(i, obj). map (Pair i) (object_refs obj)) (enumerate 0 objs))"

definition res_of_id :: "symbol_table \<Rightarrow> u32 \<Rightarrow> resolution option" where
  "res_of_id st i = Option.bind (name_by_id st i) (lookup st)"

section \<open>Counting\<close>

record dyn_counts =
  relative_total :: nat
  irelative :: nat
  symbolic_data :: nat
  tls_count :: nat

definition counts_zero :: dyn_counts where
  "counts_zero = \<lparr>relative_total = 0, irelative = 0, symbolic_data = 0, tls_count = 0\<rparr>"

definition counts_add :: "dyn_counts \<Rightarrow> dyn_counts \<Rightarrow> dyn_counts" where
  "counts_add a b =
     \<lparr>relative_total = relative_total a + relative_total b, irelative = irelative a + irelative b,
      symbolic_data = symbolic_data a + symbolic_data b, tls_count = tls_count a + tls_count b\<rparr>"

definition count_ref ::
  "symbol_table \<Rightarrow> input_section \<times> input_reloc \<times> input_symbol \<Rightarrow> dyn_counts \<Rightarrow> dyn_counts" where
  "count_ref st = (\<lambda>(sec, r, s) c.
     if sym_binding s = Local then
       (if sym_section s \<noteq> None
        then c\<lparr>relative_total := relative_total c + 1, irelative := irelative c + of_bool (sym_is_ifunc s)\<rparr> else c)
     else case lookup st (sym_name s) of
       None \<Rightarrow> c
     | Some res \<Rightarrow>
         if res_import res \<and> \<not> res_copy_reloc res then c\<lparr>symbolic_data := symbolic_data c + 1\<rparr>
         else if is_defined res
         then c\<lparr>relative_total := relative_total c + 1,
                irelative := irelative c + of_bool (\<not> res_import res \<and> res_is_ifunc res)\<rparr>
         else c)"

definition count_obj :: "symbol_table \<Rightarrow> input_object \<Rightarrow> dyn_counts" where
  "count_obj st obj = fold (count_ref st) (object_refs obj) counts_zero"

definition count_got :: "symbol_table \<Rightarrow> u32 \<Rightarrow> dyn_counts \<Rightarrow> dyn_counts" where
  "count_got st i c =
     (case res_of_id st i of
        None \<Rightarrow> c
      | Some res \<Rightarrow>
          if (\<not> res_import res \<or> res_copy_reloc res) \<and> is_defined res
          then c\<lparr>relative_total := relative_total c + 1,
                 irelative := irelative c + of_bool (\<not> res_import res \<and> res_is_ifunc res)\<rparr>
          else c)"

definition tls_imported :: "symbol_table \<Rightarrow> tls_ref \<Rightarrow> bool" where
  "tls_imported st t =
     (case t of
        TlsLocal _ _ \<Rightarrow> False
      | TlsGlobal i \<Rightarrow> (case res_of_id st i of Some r \<Rightarrow> res_defined_in r = None | None \<Rightarrow> True))"

definition count_tls_relocs :: "symbol_table \<Rightarrow> tls_got_info \<Rightarrow> bool \<Rightarrow> nat" where
  "count_tls_relocs st tls shared =
     (if \<not> shared then length (tg_ie tls)
      else sum_list (map (\<lambda>t. if tls_imported st t then 2 else 1) (tg_gd tls)) +
           length (tg_desc tls) + length (tg_ie tls) + of_bool (tg_ldm tls))"

text \<open>
  From 64 objects on \<open>rayon\<close> reduces the objects in chunks of its own choice, which \<open>chop\<close> stands for.
\<close>

definition count_objects ::
  "(input_object list \<Rightarrow> input_object list list) \<Rightarrow> symbol_table \<Rightarrow> input_object list \<Rightarrow> dyn_counts" where
  "count_objects chop st objs =
     (if 64 \<le> length objs
      then foldr counts_add (map (\<lambda>c. foldl counts_add counts_zero (map (count_obj st) c)) (chop objs)) counts_zero
      else foldl counts_add counts_zero (map (count_obj st) objs))"

definition count_dynamic_relocs ::
  "(input_object list \<Rightarrow> input_object list list) \<Rightarrow> input_object list \<Rightarrow> symbol_table \<Rightarrow> u32 list \<Rightarrow>
   tls_got_info \<Rightarrow> bool \<Rightarrow> dyn_counts" where
  "count_dynamic_relocs chop objs st got_syms tls shared =
     (fold (count_got st) got_syms (count_objects chop st objs))\<lparr>tls_count := count_tls_relocs st tls shared\<rparr>"

definition count_relative :: "input_object list \<Rightarrow> symbol_table \<Rightarrow> nat" where
  "count_relative objs st =
     length (filter (\<lambda>(i, sec, r, s).
       if sym_binding s = Local then sym_section s \<noteq> None
       else case lookup st (sym_name s) of
         Some res \<Rightarrow> is_defined res \<and> (\<not> res_import res \<or> res_copy_reloc res) | None \<Rightarrow> False) (link_refs objs))"

definition count_symbolic_data_relocs :: "input_object list \<Rightarrow> symbol_table \<Rightarrow> nat" where
  "count_symbolic_data_relocs objs st =
     length (filter (\<lambda>(i, sec, r, s).
       sym_binding s \<noteq> Local \<and>
       (case lookup st (sym_name s) of Some res \<Rightarrow> res_import res \<and> \<not> res_copy_reloc res | None \<Rightarrow> False))
       (link_refs objs))"

definition count_got_relative :: "u32 list \<Rightarrow> symbol_table \<Rightarrow> nat" where
  "count_got_relative got_syms st =
     length (filter (\<lambda>i. case res_of_id st i of
       Some r \<Rightarrow> (\<not> res_import r \<or> res_copy_reloc r) \<and> is_defined r | None \<Rightarrow> False) got_syms)"

definition count_irelative :: "input_object list \<Rightarrow> symbol_table \<Rightarrow> u32 list \<Rightarrow> nat" where
  "count_irelative objs st got_syms =
     length (filter (\<lambda>(i, sec, r, s).
       if sym_binding s = Local then sym_section s \<noteq> None \<and> sym_is_ifunc s
       else case lookup st (sym_name s) of
         Some res \<Rightarrow> is_defined res \<and> \<not> res_import res \<and> res_is_ifunc res | None \<Rightarrow> False) (link_refs objs)) +
     length (filter (\<lambda>i. case res_of_id st i of
       Some r \<Rightarrow> \<not> res_import r \<and> is_defined r \<and> res_is_ifunc r | None \<Rightarrow> False) got_syms)"

section \<open>Collecting\<close>

text \<open>Where a site goes: the base-relative list, the IFUNC list or the symbolic list.\<close>

datatype dyn_site = Relative u64 u64 | Irelative u64 u64 | Symbolic u64 u32 i64

definition relatives :: "dyn_site list \<Rightarrow> (u64 \<times> u64) list" where
  "relatives xs = sort (List.map_filter (\<lambda>x. case x of Relative s v \<Rightarrow> Some (s, v) | _ \<Rightarrow> None) xs)"

definition irelatives :: "dyn_site list \<Rightarrow> (u64 \<times> u64) list" where
  "irelatives xs = sort (List.map_filter (\<lambda>x. case x of Irelative s v \<Rightarrow> Some (s, v) | _ \<Rightarrow> None) xs)"

definition symbolics :: "dyn_site list \<Rightarrow> (u64 \<times> u32 \<times> i64) list" where
  "symbolics xs =
     sort_key (\<lambda>(s, d, a). (s, d, sint a))
       (List.map_filter (\<lambda>x. case x of Symbolic s d a \<Rightarrow> Some (s, d, a) | _ \<Rightarrow> None) xs)"

text \<open>The target of a site that stays in the image, and whether it is an IFUNC.\<close>

definition image_target ::
  "symbol_table \<Rightarrow> layout \<Rightarrow> nat \<Rightarrow> input_symbol \<Rightarrow> (u64 \<times> bool) option" where
  "image_target st ly obj_id s =
     (if sym_binding s = Local
      then map_option (\<lambda>va. (va + sym_value s, sym_is_ifunc s)) (Option.bind (sym_section s) (address_of ly obj_id))
      else case lookup st (sym_name s) of
        Some r \<Rightarrow> if is_defined r \<and> (\<not> res_import r \<or> res_copy_reloc r)
                  then Some (res_virtual_address r, res_is_ifunc r) else None
      | None \<Rightarrow> None)"

definition data_site ::
  "symbol_table \<Rightarrow> layout \<Rightarrow> nat \<times> input_section \<times> input_reloc \<times> input_symbol \<Rightarrow> dyn_site option" where
  "data_site st ly = (\<lambda>(obj_id, sec, r, s).
     case image_target st ly obj_id s of
       None \<Rightarrow> None
     | Some (target, ifunc) \<Rightarrow>
         (case address_of ly obj_id (sec_index sec) of
            None \<Rightarrow> None
          | Some site_va \<Rightarrow>
              let site = site_va + r_offset r in
              Some (if ifunc then Irelative site target else Relative site (target + r_addend r))))"

definition symbolic_site ::
  "symbol_table \<Rightarrow> layout \<Rightarrow> nat \<times> input_section \<times> input_reloc \<times> input_symbol \<Rightarrow> dyn_site option" where
  "symbolic_site st ly = (\<lambda>(obj_id, sec, r, s).
     if sym_binding s = Local then None
     else case lookup st (sym_name s) of
       None \<Rightarrow> None
     | Some res \<Rightarrow>
         if \<not> res_import res \<or> res_copy_reloc res \<or> res_dynsym_index res = 0 then None
         else map_option (\<lambda>site_va. Symbolic (site_va + r_offset r) (res_dynsym_index res) (r_addend r))
                (address_of ly obj_id (sec_index sec)))"

definition got_site :: "symbol_table \<Rightarrow> layout \<Rightarrow> nat \<times> u32 \<Rightarrow> dyn_site option" where
  "got_site st ly = (\<lambda>(i, id).
     case res_of_id st id of
       None \<Rightarrow> None
     | Some res \<Rightarrow>
         if res_import res \<and> \<not> res_copy_reloc res \<or> \<not> is_defined res then None
         else let site = got_base ly + of_nat i * 8 in
           Some (if res_is_ifunc res then Irelative site (res_virtual_address res)
                 else Relative site (res_virtual_address res)))"

definition got_sites :: "symbol_table \<Rightarrow> layout \<Rightarrow> dyn_site list" where
  "got_sites st ly = List.map_filter (got_site st ly) (enumerate 0 (got_slots ly))"

definition collect_symbolic_data_relocs ::
  "input_object list \<Rightarrow> symbol_table \<Rightarrow> layout \<Rightarrow> (u64 \<times> u32 \<times> i64) list" where
  "collect_symbolic_data_relocs objs st ly = symbolics (List.map_filter (symbolic_site st ly) (link_refs objs))"

definition collect_dynamic_data_relocs ::
  "input_object list \<Rightarrow> symbol_table \<Rightarrow> layout \<Rightarrow> (u64 \<times> u64) list \<times> (u64 \<times> u64) list" where
  "collect_dynamic_data_relocs objs st ly =
     (let xs = List.map_filter (data_site st ly) (link_refs objs) @ got_sites st ly
      in (relatives xs, irelatives xs))"

definition collect_relative :: "input_object list \<Rightarrow> symbol_table \<Rightarrow> layout \<Rightarrow> (u64 \<times> u64) list" where
  "collect_relative objs st ly = fst (collect_dynamic_data_relocs objs st ly)"

text \<open>The fused pass resolves the section's address once and classifies each site once.\<close>

definition fused_site ::
  "symbol_table \<Rightarrow> layout \<Rightarrow> nat \<Rightarrow> u64 \<Rightarrow> input_reloc \<times> input_symbol \<Rightarrow> dyn_site option" where
  "fused_site st ly obj_id site_va = (\<lambda>(r, s).
     let site = site_va + r_offset r in
     if sym_binding s = Local then
       (case Option.bind (sym_section s) (address_of ly obj_id) of
          None \<Rightarrow> None
        | Some va \<Rightarrow>
            let target = va + sym_value s in
            Some (if sym_is_ifunc s then Irelative site target else Relative site (target + r_addend r)))
     else case lookup st (sym_name s) of
       None \<Rightarrow> None
     | Some res \<Rightarrow>
         if is_defined res \<and> (\<not> res_import res \<or> res_copy_reloc res)
         then Some (if res_is_ifunc res then Irelative site (res_virtual_address res)
                    else Relative site (res_virtual_address res + r_addend r))
         else if res_import res \<and> \<not> res_copy_reloc res \<and> res_dynsym_index res \<noteq> 0
         then Some (Symbolic site (res_dynsym_index res) (r_addend r))
         else None)"

definition fused_section :: "symbol_table \<Rightarrow> layout \<Rightarrow> nat \<Rightarrow> input_object \<Rightarrow> input_section \<Rightarrow> dyn_site list" where
  "fused_section st ly obj_id obj sec =
     (if sec_flags sec AND SHF_ALLOC = 0 then []
      else case address_of ly obj_id (sec_index sec) of
        None \<Rightarrow> []
      | Some site_va \<Rightarrow>
          List.map_filter (\<lambda>r.
            if decode (r_type r) \<noteq> R_64 then None
            else Option.bind (symbol_by_index obj (r_symbol r)) (\<lambda>s. fused_site st ly obj_id site_va (r, s)))
            (sec_relocs sec))"

definition collect_data_and_symbolic_relocs ::
  "input_object list \<Rightarrow> symbol_table \<Rightarrow> layout \<Rightarrow>
   (u64 \<times> u64) list \<times> (u64 \<times> u64) list \<times> (u64 \<times> u32 \<times> i64) list" where
  "collect_data_and_symbolic_relocs objs st ly =
     (let xs = concat (map (\<lambda>(i, obj). concat (map (fused_section st ly i obj) (sections obj))) (enumerate 0 objs)) @
               got_sites st ly
      in (relatives xs, irelatives xs, symbolics xs))"

section \<open>The TLS part of the GOT\<close>

type_synonym tls_dyn_reloc = "u64 \<times> u32 \<times> u32 \<times> i64"

record tls_got_contents =
  tc_relocs :: "tls_dyn_reloc list"
  tc_static_writes :: "(u64 \<times> u64) list"

text \<open>The offset in the module's TLS block, and whether the symbol is imported.\<close>

definition tls_ref_offset ::
  "tls_ref \<Rightarrow> input_object list \<Rightarrow> symbol_table \<Rightarrow> layout \<Rightarrow> (u64 \<times> bool) option" where
  "tls_ref_offset t objs st ly =
     (case t of
        TlsLocal obj_id p \<Rightarrow>
          Option.bind (get objs obj_id) (\<lambda>obj. Option.bind (get (symbols obj) p) (\<lambda>s.
            Option.bind (sym_section s) (\<lambda>si.
              map_option (\<lambda>b. (b + sym_value s, False)) (tls_offset ly obj_id si))))
      | TlsGlobal i \<Rightarrow>
          Option.bind (res_of_id st i) (\<lambda>res.
            case (res_defined_in res, res_section_index res) of
              (Some def, Some si) \<Rightarrow> map_option (\<lambda>b. (b + res_value res, False)) (tls_offset ly (unat def) si)
            | _ \<Rightarrow> Some (0, True)))"

definition tls_ref_dynidx :: "tls_ref \<Rightarrow> symbol_table \<Rightarrow> u32" where
  "tls_ref_dynidx t st =
     (case t of
        TlsGlobal i \<Rightarrow> (case res_of_id st i of Some r \<Rightarrow> res_dynsym_index r | None \<Rightarrow> 0)
      | TlsLocal _ _ \<Rightarrow> 0)"

definition tls_resolve :: "tls_ref \<Rightarrow> input_object list \<Rightarrow> symbol_table \<Rightarrow> layout \<Rightarrow> u64 \<times> bool" where
  "tls_resolve t objs st ly = (case tls_ref_offset t objs st ly of Some r \<Rightarrow> r | None \<Rightarrow> (0, True))"

type_synonym tls_out = "tls_dyn_reloc list \<times> (u64 \<times> u64) list"

definition tls_gd_out :: "input_object list \<Rightarrow> symbol_table \<Rightarrow> layout \<Rightarrow> tls_ref \<Rightarrow> tls_out" where
  "tls_gd_out objs st ly t =
     (case map_of (tls_gd_addr ly) t of
        None \<Rightarrow> ([], [])
      | Some pair \<Rightarrow>
          let (offset, imported) = tls_resolve t objs st ly in
          if imported
          then (let d = tls_ref_dynidx t st in ([(pair, 16, d, 0), (pair + 8, 17, d, 0)], []))
          else ([(pair, 16, 0, 0)], [(pair + 8, offset)]))"

definition tls_desc_out :: "input_object list \<Rightarrow> symbol_table \<Rightarrow> layout \<Rightarrow> tls_ref \<Rightarrow> tls_out" where
  "tls_desc_out objs st ly t =
     (case map_of (tls_desc_addr ly) t of
        None \<Rightarrow> ([], [])
      | Some pair \<Rightarrow>
          let (offset, imported) = tls_resolve t objs st ly in
          ([(pair, 36, if imported then tls_ref_dynidx t st else 0, if imported then 0 else offset)], []))"

definition tls_ldm_out :: "layout \<Rightarrow> tls_out" where
  "tls_ldm_out ly =
     (case tls_ldm_addr ly of None \<Rightarrow> ([], []) | Some ldm \<Rightarrow> ([(ldm, 16, 0, 0)], [(ldm + 8, 0)]))"

definition tls_ie_out :: "bool \<Rightarrow> input_object list \<Rightarrow> symbol_table \<Rightarrow> layout \<Rightarrow> tls_ref \<Rightarrow> tls_out" where
  "tls_ie_out shared objs st ly t =
     (case map_of (tls_ie_addr ly) t of
        None \<Rightarrow> ([], [])
      | Some slot \<Rightarrow>
          let (offset, imported) = tls_resolve t objs st ly in
          if imported then ([(slot, 18, tls_ref_dynidx t st, 0)], [])
          else if shared then ([(slot, 18, 0, offset)], [])
          else ([], [(slot, offset - tls_size ly)]))"

definition collect_tls_got ::
  "input_object list \<Rightarrow> symbol_table \<Rightarrow> layout \<Rightarrow> tls_got_info \<Rightarrow> bool \<Rightarrow> tls_got_contents" where
  "collect_tls_got objs st ly tls shared =
     (let outs = (if shared then map (tls_gd_out objs st ly) (tg_gd tls) @
                                 map (tls_desc_out objs st ly) (tg_desc tls) @ [tls_ldm_out ly] else []) @
                 map (tls_ie_out shared objs st ly) (tg_ie tls)
      in \<lparr>tc_relocs = concat (map fst outs), tc_static_writes = concat (map snd outs)\<rparr>)"

section \<open>One pass or two\<close>

text \<open>Facts on \<open>map_filter\<close> that turn the nested loops into one list of references.\<close>

lemma map_filter_append: "List.map_filter f (xs @ ys) = List.map_filter f xs @ List.map_filter f ys"
  by (simp add: List.map_filter_def)

lemma map_filter_concat: "List.map_filter f (concat xss) = concat (map (List.map_filter f) xss)"
  by (induction xss) (simp_all add: map_filter_append map_filter_simps)

lemma map_filter_map_filter:
  "List.map_filter g (List.map_filter f xs) = List.map_filter (\<lambda>x. Option.bind (f x) g) xs"
  by (induction xs) (auto simp: map_filter_simps split: option.split)

lemma map_filter_map: "List.map_filter f (map g xs) = List.map_filter (f \<circ> g) xs"
  by (simp add: List.map_filter_def comp_def filter_map)

lemma map_filter_cong:
  "(\<And>x. x \<in> set xs \<Longrightarrow> f x = g x) \<Longrightarrow> List.map_filter f xs = List.map_filter g xs"
  by (simp add: List.map_filter_def cong: filter_cong map_cong)

lemma length_map_filter: "length (List.map_filter f xs) = length (filter (\<lambda>x. f x \<noteq> None) xs)"
  by (simp add: List.map_filter_def)

definition fused_ref ::
  "symbol_table \<Rightarrow> layout \<Rightarrow> nat \<times> input_section \<times> input_reloc \<times> input_symbol \<Rightarrow> dyn_site option" where
  "fused_ref st ly = (\<lambda>(i, sec, r, s).
     Option.bind (address_of ly i (sec_index sec)) (\<lambda>va. fused_site st ly i va (r, s)))"

lemma fused_section_refs:
  "fused_section st ly i obj sec = List.map_filter (fused_ref st ly \<circ> Pair i) (section_refs obj sec)"
proof (cases "address_of ly i (sec_index sec)")
  case None
  then have "List.map_filter (fused_ref st ly \<circ> Pair i) (section_refs obj sec) = List.map_filter (\<lambda>x. None) (section_refs obj sec)"
    by (intro map_filter_cong) (auto simp: fused_ref_def section_refs_def set_map_filter split: if_splits)
  then show ?thesis using None by (simp add: fused_section_def List.map_filter_def)
next
  case (Some va)
  then show ?thesis
    by (auto simp: fused_section_def section_refs_def map_filter_map_filter fused_ref_def
        map_filter_simps bind_map_option comp_def intro!: map_filter_cong)
qed

lemma fused_sites_refs:
  "concat (map (\<lambda>(i, obj). concat (map (fused_section st ly i obj) (sections obj))) (enumerate 0 objs)) =
     List.map_filter (fused_ref st ly) (link_refs objs)"
  unfolding link_refs_def object_refs_def map_filter_concat map_map
  by (intro arg_cong [where f = concat] map_cong [OF refl])
     (auto simp: fused_section_refs [abs_def] map_filter_map map_filter_concat comp_def)

lemma fused_ref_split:
  "fused_ref st ly x = (case data_site st ly x of Some d \<Rightarrow> Some d | None \<Rightarrow> symbolic_site st ly x)"
  by (cases x)
     (auto simp: fused_ref_def fused_site_def data_site_def symbolic_site_def image_target_def Let_def
       split: option.splits Option.bind_splits)

lemma data_site_kind: "data_site st ly x \<noteq> Some (Symbolic a b c)"
  by (auto simp: data_site_def Let_def split: prod.splits option.splits if_splits)

lemma symbolic_site_kind: "symbolic_site st ly x = Some d \<Longrightarrow> \<exists>a b c. d = Symbolic a b c"
  by (auto simp: symbolic_site_def split: prod.splits option.splits if_splits)

lemma data_site_not_symbolic: "data_site st ly x = Some d \<Longrightarrow> symbolic_site st ly x = None"
  by (auto simp: data_site_def symbolic_site_def image_target_def split: prod.splits option.splits if_splits)

lemma got_sites_kind: "Symbolic a b c \<notin> set (got_sites st ly)"
  by (auto simp: got_sites_def List.map_filter_def got_site_def Let_def split: option.splits if_splits)

text \<open>Each of the three lists reads off the sites of its own kind.\<close>

lemma fused_relatives:
  assumes "\<And>a b c. f (Symbolic a b c) = None"
  shows "List.map_filter f (List.map_filter (fused_ref st ly) xs) = List.map_filter f (List.map_filter (data_site st ly) xs)"
  unfolding map_filter_map_filter
proof (rule map_filter_cong)
  fix x
  show "Option.bind (fused_ref st ly x) f = Option.bind (data_site st ly x) f"
    using assms symbolic_site_kind [of st ly x]
    by (cases "data_site st ly x"; cases "symbolic_site st ly x") (auto simp: fused_ref_split)
qed

lemma fused_symbolics:
  assumes "\<And>a b. f (Relative a b) = None" "\<And>a b. f (Irelative a b) = None"
  shows "List.map_filter f (List.map_filter (fused_ref st ly) xs) = List.map_filter f (List.map_filter (symbolic_site st ly) xs)"
  unfolding map_filter_map_filter
proof (rule map_filter_cong)
  fix x
  show "Option.bind (fused_ref st ly x) f = Option.bind (symbolic_site st ly x) f"
  proof (cases "data_site st ly x")
    case (Some d)
    then have "f d = None" using assms data_site_kind [of st ly x] by (cases d) auto
    then show ?thesis using Some data_site_not_symbolic [OF Some] by (simp add: fused_ref_split)
  qed (simp add: fused_ref_split split: option.split)
qed

lemma got_sites_symbolic:
  assumes "\<And>a b. f (Relative a b) = None" "\<And>a b. f (Irelative a b) = None"
  shows "List.map_filter f (got_sites st ly) = []"
proof -
  have "f d = None" if "d \<in> set (got_sites st ly)" for d
  proof (cases d)
    case (Symbolic a b c)
    then show ?thesis using that got_sites_kind by blast
  qed (simp_all add: assms)
  then show ?thesis by (simp add: List.map_filter_def)
qed

text \<open>The single walk that assembles \<^verbatim>\<open>.rela.dyn\<close> returns exactly what the two
  passes it replaced return: the base-relative and IFUNC lists of \<^verbatim>\<open>collect_dynamic_data_relocs\<close> and the
  symbolic list of \<^verbatim>\<open>collect_symbolic_data_relocs\<close>, for every link and every layout.\<close>

theorem fused_collect_separate:
  "collect_data_and_symbolic_relocs objs st ly =
     (fst (collect_dynamic_data_relocs objs st ly), snd (collect_dynamic_data_relocs objs st ly),
      collect_symbolic_data_relocs objs st ly)"
  unfolding collect_data_and_symbolic_relocs_def collect_dynamic_data_relocs_def collect_symbolic_data_relocs_def
    relatives_def irelatives_def symbolics_def Let_def fst_conv snd_conv fused_sites_refs map_filter_append
  by (simp add: fused_relatives fused_symbolics got_sites_symbolic)

section \<open>Counts and lists\<close>

text \<open>A reference whose value the loader must bias, and one it must bind to an imported symbol.\<close>

definition in_image :: "symbol_table \<Rightarrow> input_symbol \<Rightarrow> bool" where
  "in_image st s \<longleftrightarrow>
     (if sym_binding s = Local then sym_section s \<noteq> None
      else case lookup st (sym_name s) of
        Some res \<Rightarrow> is_defined res \<and> (\<not> res_import res \<or> res_copy_reloc res) | None \<Rightarrow> False)"

definition bound_by_loader :: "symbol_table \<Rightarrow> input_symbol \<Rightarrow> bool" where
  "bound_by_loader st s \<longleftrightarrow> sym_binding s \<noteq> Local \<and>
     (case lookup st (sym_name s) of Some res \<Rightarrow> res_import res \<and> \<not> res_copy_reloc res | None \<Rightarrow> False)"

definition got_in_image :: "symbol_table \<Rightarrow> u32 \<Rightarrow> bool" where
  "got_in_image st i \<longleftrightarrow>
     (case res_of_id st i of Some r \<Rightarrow> (\<not> res_import r \<or> res_copy_reloc r) \<and> is_defined r | None \<Rightarrow> False)"

text \<open>Sites the layout gives no address: their own section or the target's was dropped.\<close>

definition unplaced :: "layout \<Rightarrow> nat \<times> input_section \<times> input_reloc \<times> input_symbol \<Rightarrow> bool" where
  "unplaced ly = (\<lambda>(i, sec, r, s).
     address_of ly i (sec_index sec) = None \<or>
     (sym_binding s = Local \<and> Option.bind (sym_section s) (address_of ly i) = None))"

definition unbindable :: "symbol_table \<Rightarrow> layout \<Rightarrow> nat \<times> input_section \<times> input_reloc \<times> input_symbol \<Rightarrow> bool" where
  "unbindable st ly = (\<lambda>(i, sec, r, s).
     address_of ly i (sec_index sec) = None \<or>
     (case lookup st (sym_name s) of Some res \<Rightarrow> res_dynsym_index res = 0 | None \<Rightarrow> False))"

interpretation counts: comm_monoid counts_add counts_zero
  by unfold_locales (simp_all add: counts_add_def counts_zero_def)

lemma counts_select [simp]:
  "relative_total (counts_add a b) = relative_total a + relative_total b"
  "irelative (counts_add a b) = irelative a + irelative b"
  "symbolic_data (counts_add a b) = symbolic_data a + symbolic_data b"
  "relative_total counts_zero = 0" "irelative counts_zero = 0" "symbolic_data counts_zero = 0"
  by (simp_all add: counts_add_def counts_zero_def)

lemma foldl_counts: "foldl counts_add a xs = counts_add a (foldr counts_add xs counts_zero)"
  by (induction xs arbitrary: a) (simp_all add: counts.assoc)

lemma foldr_counts: "foldr counts_add xs a = counts_add (foldr counts_add xs counts_zero) a"
  by (induction xs) (simp_all add: counts.assoc)

lemma foldr_counts_concat:
  "foldr counts_add (map (\<lambda>c. foldr counts_add (map f c) counts_zero) cs) counts_zero =
     foldr counts_add (map f (concat cs)) counts_zero"
proof (induction cs)
  case (Cons c cs)
  then show ?case
    using foldr_counts [of "map f c" "foldr counts_add (map f (concat cs)) counts_zero"] by simp
qed simp

lemma count_objects_eq:
  assumes "\<And>xs. concat (chop xs) = xs"
  shows "count_objects chop st objs = foldr counts_add (map (count_obj st) objs) counts_zero"
  unfolding count_objects_def foldl_counts counts.left_neutral foldr_counts_concat by (simp add: assms)

lemma count_ref_step:
  "relative_total (count_ref st (sec, r, s) c) = relative_total c + of_bool (in_image st s)"
  "symbolic_data (count_ref st (sec, r, s) c) = symbolic_data c + of_bool (bound_by_loader st s)"
  by (auto simp: count_ref_def in_image_def bound_by_loader_def is_defined_def split: option.splits)

lemma count_refs:
  "relative_total (fold (count_ref st) xs c) = relative_total c + length (filter (\<lambda>(sec, r, s). in_image st s) xs)"
  "symbolic_data (fold (count_ref st) xs c) = symbolic_data c + length (filter (\<lambda>(sec, r, s). bound_by_loader st s) xs)"
  by (induction xs arbitrary: c) (auto simp: count_ref_step)

lemma count_gots:
  "relative_total (fold (count_got st) is c) = relative_total c + length (filter (got_in_image st) is)"
  "symbolic_data (fold (count_got st) is c) = symbolic_data c"
  by (induction "is" arbitrary: c) (auto simp: count_got_def got_in_image_def split: option.splits)

lemma filter_link_refs:
  "length (filter (\<lambda>(i, x). P x) (concat (map (\<lambda>(i, obj). map (Pair i) (object_refs obj)) (enumerate n objs)))) =
     sum_list (map (\<lambda>obj. length (filter P (object_refs obj))) objs)"
  by (induction objs arbitrary: n) (simp_all add: comp_def filter_map)

lemma count_dynamic_eq:
  assumes "\<And>xs. concat (chop xs) = xs"
  shows "relative_total (count_dynamic_relocs chop objs st is tls shared) =
       length (filter (\<lambda>(i, sec, r, s). in_image st s) (link_refs objs)) + length (filter (got_in_image st) is)"
    and "symbolic_data (count_dynamic_relocs chop objs st is tls shared) =
       length (filter (\<lambda>(i, sec, r, s). bound_by_loader st s) (link_refs objs))"
proof -
  have "relative_total (foldr counts_add (map (count_obj st) objs) counts_zero) =
      sum_list (map (\<lambda>obj. length (filter (\<lambda>(sec, r, s). in_image st s) (object_refs obj))) objs)"
    "symbolic_data (foldr counts_add (map (count_obj st) objs) counts_zero) =
      sum_list (map (\<lambda>obj. length (filter (\<lambda>(sec, r, s). bound_by_loader st s) (object_refs obj))) objs)"
    by (induction objs) (simp_all add: count_obj_def count_refs)
  then show "relative_total (count_dynamic_relocs chop objs st is tls shared) =
       length (filter (\<lambda>(i, sec, r, s). in_image st s) (link_refs objs)) + length (filter (got_in_image st) is)"
    and "symbolic_data (count_dynamic_relocs chop objs st is tls shared) =
       length (filter (\<lambda>(i, sec, r, s). bound_by_loader st s) (link_refs objs))"
    unfolding link_refs_def filter_link_refs
    by (simp_all add: count_dynamic_relocs_def count_objects_eq [OF assms] count_gots)
qed

lemma data_site_iff:
  "data_site st ly (i, sec, r, s) \<noteq> None \<longleftrightarrow> in_image st s \<and> \<not> unplaced ly (i, sec, r, s)"
  by (auto simp: data_site_def image_target_def in_image_def unplaced_def Let_def split: option.splits Option.bind_splits)

lemma symbolic_site_iff:
  "symbolic_site st ly (i, sec, r, s) \<noteq> None \<longleftrightarrow> bound_by_loader st s \<and> \<not> unbindable st ly (i, sec, r, s)"
  by (auto simp: symbolic_site_def bound_by_loader_def unbindable_def split: option.splits)

lemma got_sites_length: "length (got_sites st ly) = length (filter (got_in_image st) (got_slots ly))"
proof -
  have eq: "(got_site st ly x \<noteq> None) = got_in_image st (snd x)" for x
    by (auto simp: got_site_def got_in_image_def Let_def split: prod.splits option.splits)
  have "length (filter (\<lambda>x. P (snd x)) (enumerate n xs)) = length (filter P xs)" for P and n and xs :: "u32 list"
    by (induction xs arbitrary: n) simp_all
  then show ?thesis unfolding got_sites_def length_map_filter eq .
qed

lemma sites_partition:
  assumes "\<And>a b c. Symbolic a b c \<notin> set xs"
  shows "length (relatives xs) + length (irelatives xs) = length xs"
  using assms
proof (induction xs)
  case (Cons x xs)
  have IH: "length (relatives xs) + length (irelatives xs) = length xs" using Cons by simp
  show ?case
  proof (cases x)
    case (Symbolic a b c)
    then show ?thesis using Cons.prems [of a b c] by simp
  qed (use IH in \<open>simp_all add: relatives_def irelatives_def map_filter_simps\<close>)
qed (simp add: relatives_def irelatives_def map_filter_simps)

lemma symbolics_length:
  assumes "\<And>x. x \<in> set xs \<Longrightarrow> \<exists>a b c. x = Symbolic a b c"
  shows "length (symbolics xs) = length xs"
  using assms by (induction xs) (force simp: symbolics_def map_filter_simps)+

lemma filter_split: "length (filter (\<lambda>x. P x \<and> \<not> Q x) xs) + length (filter (\<lambda>x. P x \<and> Q x) xs) = length (filter P xs)"
  by (induction xs) auto

lemma dyn_counts_parts:
  assumes "\<And>xs. concat (chop xs) = xs" "got_slots ly = got_syms"
    and "collect_data_and_symbolic_relocs objs st ly = (rel, irel, sy)"
  shows "length rel + length irel + length (filter (\<lambda>x. in_image st (snd (snd (snd x))) \<and> unplaced ly x) (link_refs objs)) =
           relative_total (count_dynamic_relocs chop objs st got_syms tls shared) \<and>
         length sy + length (filter (\<lambda>x. bound_by_loader st (snd (snd (snd x))) \<and> unbindable st ly x) (link_refs objs)) =
           symbolic_data (count_dynamic_relocs chop objs st got_syms tls shared)"
proof -
  let ?D = "List.map_filter (data_site st ly) (link_refs objs)"
  let ?S = "List.map_filter (symbolic_site st ly) (link_refs objs)"
  have out: "collect_data_and_symbolic_relocs objs st ly =
      (relatives (?D @ got_sites st ly), irelatives (?D @ got_sites st ly), symbolics ?S)"
    by (simp add: relatives_def irelatives_def symbolics_def collect_data_and_symbolic_relocs_def Let_def fused_sites_refs
        map_filter_append fused_relatives fused_symbolics got_sites_symbolic)
  have "Symbolic a b c \<notin> set (?D @ got_sites st ly)" for a b c
    using data_site_kind [of st ly _ a b c] got_sites_kind [of a b c st ly] by (auto simp: set_map_filter)
  then have r: "length rel + length irel = length (?D @ got_sites st ly)"
    using sites_partition [of "?D @ got_sites st ly"] out assms(3) by simp
  have "length (symbolics ?S) = length ?S"
    by (rule symbolics_length) (auto simp: set_map_filter dest: symbolic_site_kind)
  then have y: "length sy = length ?S" using out assms(3) by simp
  have d: "length ?D = length (filter (\<lambda>x. in_image st (snd (snd (snd x))) \<and> \<not> unplaced ly x) (link_refs objs))"
      "length ?S = length (filter (\<lambda>x. bound_by_loader st (snd (snd (snd x))) \<and> \<not> unbindable st ly x) (link_refs objs))"
    unfolding length_map_filter
    by (intro arg_cong [where f = length] filter_cong refl, metis data_site_iff symbolic_site_iff prod.collapse)+
  show ?thesis
    unfolding count_dynamic_eq [OF assms(1)] r y d length_append got_sites_length assms(2)
    using filter_split [of "\<lambda>x. in_image st (snd (snd (snd x)))" "unplaced ly" "link_refs objs"]
      filter_split [of "\<lambda>x. bound_by_loader st (snd (snd (snd x)))" "unbindable st ly" "link_refs objs"]
    by (simp add: case_prod_unfold)
qed

lemma dyn_counts_bound:
  assumes "\<And>xs. concat (chop xs) = xs" "got_slots ly = got_syms"
    and "collect_data_and_symbolic_relocs objs st ly = (rel, irel, sy)"
  shows "length rel + length irel \<le> relative_total (count_dynamic_relocs chop objs st got_syms tls shared) \<and>
         length sy \<le> symbolic_data (count_dynamic_relocs chop objs st got_syms tls shared)"
  using dyn_counts_parts [OF assms, of tls shared] by linarith




section \<open>TLS relocations\<close>

text \<open>Every General-Dynamic reference is either imported or resolves in this module.\<close>

definition tls_accounted :: "input_object list \<Rightarrow> symbol_table \<Rightarrow> layout \<Rightarrow> tls_got_info \<Rightarrow> bool" where
  "tls_accounted objs st ly tls \<longleftrightarrow>
     (\<forall>t \<in> set (tg_gd tls). tls_imported st t \<or> (\<exists>off. tls_ref_offset t objs st ly = Some (off, False))) \<and>
     (tls_ldm_addr ly \<noteq> None \<longrightarrow> tg_ldm tls)"

lemma sum_list_le: "(\<And>x. x \<in> set xs \<Longrightarrow> f x \<le> (g x :: nat)) \<Longrightarrow> sum_list (map f xs) \<le> sum_list (map g xs)"
  by (rule sum_list_mono)

lemma tls_out_lengths:
  "length (fst (tls_gd_out objs st ly t)) \<le> 2"
  "tls_ref_offset t objs st ly = Some (off, False) \<Longrightarrow> length (fst (tls_gd_out objs st ly t)) \<le> 1"
  "length (fst (tls_desc_out objs st ly t)) \<le> 1"
  "length (fst (tls_ie_out shared objs st ly t)) \<le> 1"
  "length (fst (tls_ldm_out ly)) = of_bool (tls_ldm_addr ly \<noteq> None)"
  by (auto simp: tls_gd_out_def tls_desc_out_def tls_ie_out_def tls_ldm_out_def tls_resolve_def Let_def
      split: option.splits prod.splits)

text \<open>Then the TLS relocations collected after layout fit the room \<^verbatim>\<open>count_tls_relocs\<close> reserved before it.\<close>

lemma tls_relocs_bound:
  assumes "tls_accounted objs st ly tls"
  shows "length (tc_relocs (collect_tls_got objs st ly tls shared)) \<le> count_tls_relocs st tls shared"
proof -
  let ?n = "\<lambda>f xs. sum_list (map (\<lambda>t. length (fst (f t))) xs)"
  have "?n (tls_gd_out objs st ly) (tg_gd tls) \<le> sum_list (map (\<lambda>t. if tls_imported st t then 2 else 1) (tg_gd tls))"
    using assms tls_out_lengths(1,2) [where objs = objs and st = st and ly = ly] by (intro sum_list_le) (fastforce simp: tls_accounted_def)
  moreover have "?n (tls_desc_out objs st ly) (tg_desc tls) \<le> sum_list (map (\<lambda>t. 1) (tg_desc tls))"
    by (intro sum_list_le tls_out_lengths)
  moreover have "?n (tls_ie_out shared objs st ly) (tg_ie tls) \<le> sum_list (map (\<lambda>t. 1) (tg_ie tls))"
    by (intro sum_list_le tls_out_lengths)
  moreover have "length (fst (tls_ldm_out ly)) \<le> of_bool (tg_ldm tls)"
    using assms by (simp add: tls_out_lengths tls_accounted_def)
  ultimately show ?thesis
    by (auto simp: collect_tls_got_def count_tls_relocs_def Let_def length_concat comp_def sum_list_triv)
qed

section \<open>Concrete layouts\<close>

definition blank_blobs :: dyn_blobs where
  "blank_blobs =
     \<lparr>db_interp = [], db_hash = [], db_dynsym = [], db_dynstr = [], db_rela_dyn = [], db_dynamic = [],
      db_plt = [], db_got_plt = [], db_rela_plt = [], db_gnu_version = [], db_gnu_version_r = [],
      db_verneed_num = 0, db_rela_glob_dat = [], db_rela_copy = [], db_eh_frame_hdr = [], db_gnu_hash = []\<rparr>"

definition blank_layout :: layout where
  "blank_layout =
     \<lparr>output_sections = [], addresses = [], segments = [], ly_entry = 0, ly_e_type = 3, ly_phoff = 64,
      ly_phnum = 0, ly_shoff = 0, ly_shnum = 0, ly_shstrndx = 0, ly_file_size = 0, got_slots = [],
      got_base = 0, ly_strtab = [], ly_shstrtab = [], ly_symtab = [], ly_symtab_shndx = [], image_base = 0,
      bss_start = 0, edata = 0, image_end = 0, ly_common = [], ly_copy_relocs = [], ly_dyn = blank_blobs,
      plt_slots = [], plt_base = 0, ifunc_plt_patches = [], tls_size = 0, tls_offsets = [],
      tls_gd_addr = [], tls_ie_addr = [], tls_desc_addr = [], tls_ldm_addr = None, ly_shared = True,
      tls_got_writes = [], emit_relocs = [], gnu_property_note = []\<rparr>"

definition dyn_layout_demo :: layout where
  "dyn_layout_demo =
     blank_layout\<lparr>addresses := [((0, 1), 0x1000)], got_slots := [0], got_base := 0x3000\<rparr>"

definition dyn_object_demo :: input_object where
  "dyn_object_demo =
     \<lparr>path = ''a.o'',
      sections = [\<lparr>sec_index = 1, sec_name = ''.data'', sec_kind = KData, sec_sh_type = 1,
                   sec_data = section_data_EMPTY, sec_align = 8, sec_size = 16, sec_flags = 3,
                   sec_relocs = [\<lparr>r_offset = 0, r_type = 1, r_symbol = 1, r_addend = 4\<rparr>,
                                 \<lparr>r_offset = 8, r_type = 1, r_symbol = 2, r_addend = 0\<rparr>]\<rparr>],
      symbols = [example_symbol 1 ''f'', example_symbol 2 ''environ''], section_map = Sparse [(1, 0)],
      symbol_map = Sparse [(1, 0), (2, 1)], comdat_groups = []\<rparr>"

definition dyn_table_demo :: symbol_table where
  "dyn_table_demo =
     \<lparr>resolutions = [(''f'', (cached_defined 0x1008 0 0 4)\<lparr>res_id := 0\<rparr>),
                     (''environ'', make_undefined_resolution\<lparr>res_id := 1, res_import := True, res_dynsym_index := 1\<rparr>)],
      names = [''f'', ''environ''], object_paths = [''a.o'']\<rparr>"

lemmas dyn_demo = dyn_layout_demo_def dyn_object_demo_def dyn_table_demo_def blank_layout_def blank_blobs_def
  example_symbol_def cached_defined_def make_undefined_resolution_def




definition tls_gd_demo :: "tls_ref list \<Rightarrow> tls_got_info" where
  "tls_gd_demo ts = \<lparr>tg_gd = ts, tg_ie = [], tg_desc = [], tg_ldm = False\<rparr>"

definition tls_layout_demo :: "tls_ref list \<Rightarrow> layout" where
  "tls_layout_demo ts = blank_layout\<lparr>tls_gd_addr := map (\<lambda>t. (t, 0x2000)) ts, tls_offsets := [((0, 1), 16)]\<rparr>"

text \<open>
  Without that, the count falls short: a General-Dynamic reference to a local symbol whose section was
  dropped is counted as one relocation and collected as the two of an imported one.
\<close>

lemma tls_count_short:
  "length (tc_relocs (collect_tls_got [dyn_object_demo] dyn_table_demo
      ((tls_layout_demo [TlsLocal 0 0])\<lparr>tls_offsets := []\<rparr>) (tls_gd_demo [TlsLocal 0 0]) True)) = 2 \<and>
   count_tls_relocs dyn_table_demo (tls_gd_demo [TlsLocal 0 0]) True = 1"
  by (simp add: collect_tls_got_def tls_gd_out_def tls_ldm_out_def tls_layout_demo_def tls_gd_demo_def dyn_demo
      tls_resolve_def tls_ref_offset_def tls_offset_def get_def count_tls_relocs_def tls_imported_def Let_def)

end
