(* ===== verification/Rela_Dyn.thy ===== *)
theory Rela_Dyn
  imports Dyn_Relocs Eh_Frame
begin

text \<open>
  The parts of \<open>impl Layout\<close> in \<^verbatim>\<open>peony-layout/src/lib.rs\<close> that run after the addresses are final: the
  assembly of \<^verbatim>\<open>.rela.dyn\<close> with the patches of its \<^verbatim>\<open>.dynamic\<close> entries, and the binary-search table of
  \<^verbatim>\<open>.eh_frame_hdr\<close>.  The assembly loses nothing as long as the section was reserved for all entries, and
  never outgrows the reservation; the counts of \<^verbatim>\<open>dynamic.rs\<close> make such a reservation.
\<close>

section \<open>The dynamic section\<close>

abbreviation (input) DT_NULL :: u64 where "DT_NULL \<equiv> 0"
abbreviation (input) DT_RELASZ :: u64 where "DT_RELASZ \<equiv> 8"
abbreviation (input) DT_RELACOUNT :: u64 where "DT_RELACOUNT \<equiv> 0x6ffffff9"

text \<open>Entry \<open>i\<close> of a \<^verbatim>\<open>.dynamic\<close> blob.\<close>

definition dyn_tag :: "bytes \<Rightarrow> nat \<Rightarrow> u64" where
  "dyn_tag d i = from_le (take 8 (drop i d))"

function patch_tag_from :: "u64 \<Rightarrow> u64 \<Rightarrow> bytes \<Rightarrow> nat \<Rightarrow> bytes" where
  "patch_tag_from tag v d i =
     (if i + 16 \<le> length d then
        (if dyn_tag d i = tag then take (i + 8) d @ to_le 8 v @ drop (i + 16) d
         else if dyn_tag d i = DT_NULL then d
         else patch_tag_from tag v d (i + 16))
      else d)"
  by pat_completeness auto
termination by (relation "measure (\<lambda>(tag, v, d, i). length d - i)") auto

declare patch_tag_from.simps [simp del]

definition patch_dt_tag :: "u64 \<Rightarrow> u64 \<Rightarrow> layout \<Rightarrow> layout" where
  "patch_dt_tag tag v ly =
     ly\<lparr>ly_dyn := (ly_dyn ly)\<lparr>db_dynamic := patch_tag_from tag v (db_dynamic (ly_dyn ly)) 0\<rparr>\<rparr>"

definition patch_dt_relasz :: "u64 \<Rightarrow> layout \<Rightarrow> layout" where
  "patch_dt_relasz = patch_dt_tag DT_RELASZ"

definition patch_dt_relacount :: "u64 \<Rightarrow> layout \<Rightarrow> layout" where
  "patch_dt_relacount = patch_dt_tag DT_RELACOUNT"

fun update_first :: "('a \<Rightarrow> bool) \<Rightarrow> ('a \<Rightarrow> 'a) \<Rightarrow> 'a list \<Rightarrow> 'a list" where
  "update_first P f [] = []"
| "update_first P f (x # xs) = (if P x then f x # xs else x # update_first P f xs)"

definition rela_dyn_section_size :: "layout \<Rightarrow> u64" where
  "rela_dyn_section_size ly =
     (case find (\<lambda>s. os_source s = SrcRelaDyn) (output_sections ly) of Some s \<Rightarrow> os_sh_size s | None \<Rightarrow> 0)"

definition set_rela_dyn_size :: "u64 \<Rightarrow> layout \<Rightarrow> layout" where
  "set_rela_dyn_size sz ly =
     ly\<lparr>output_sections := update_first (\<lambda>s. os_source s = SrcRelaDyn) (\<lambda>s. s\<lparr>os_sh_size := sz\<rparr>) (output_sections ly)\<rparr>"

section \<open>Assembling the relocations\<close>

definition rela_entry :: "u64 \<Rightarrow> u64 \<Rightarrow> u64 \<Rightarrow> bytes" where
  "rela_entry va info addend = to_le 8 va @ to_le 8 info @ to_le 8 addend"

text \<open>One loop: entries are appended until one more would pass \<open>lim\<close>.\<close>

fun append_entries :: "nat \<Rightarrow> bytes list \<Rightarrow> bytes \<Rightarrow> bytes \<times> nat" where
  "append_entries lim [] bs = (bs, 0)"
| "append_entries lim (e # es) bs =
     (if lim < length bs + 24 then (bs, 0)
      else let (b, n) = append_entries lim es (bs @ e) in (b, n + 1))"

definition relative_entry :: "u64 \<times> u64 \<Rightarrow> bytes" where
  "relative_entry = (\<lambda>(site, target). rela_entry site 8 target)"

definition irelative_entry :: "u64 \<times> u64 \<Rightarrow> bytes" where
  "irelative_entry = (\<lambda>(site, resolver). rela_entry site 37 resolver)"

definition tls_entry :: "tls_dyn_reloc \<Rightarrow> bytes" where
  "tls_entry = (\<lambda>(site, ty, dynidx, addend). rela_entry site (push_bit 32 (ucast dynidx) OR ucast ty) addend)"

definition symbolic_entry :: "u64 \<times> u32 \<times> i64 \<Rightarrow> bytes" where
  "symbolic_entry = (\<lambda>(site, dynidx, addend). rela_entry site (push_bit 32 (ucast dynidx) OR 1) addend)"

text \<open>The room before the suffix; the subtraction of \<^verbatim>\<open>usize\<close> wraps.\<close>

definition entry_room :: "layout \<Rightarrow> nat" where
  "entry_room ly =
     unat (rela_dyn_section_size ly -
           of_nat (length (db_rela_glob_dat (ly_dyn ly)) + length (db_rela_copy (ly_dyn ly))))"

definition append_all_dynamic_relocs ::
  "(u64 \<times> u64) list \<Rightarrow> (u64 \<times> u64) list \<Rightarrow> tls_dyn_reloc list \<Rightarrow> (u64 \<times> u32 \<times> i64) list \<Rightarrow> layout \<Rightarrow> layout" where
  "append_all_dynamic_relocs relative irel tls symbolic ly =
     (let lim = entry_room ly;
          (b1, written) = append_entries lim (map relative_entry relative) [];
          (b2, _) = append_entries lim (map irelative_entry irel) b1;
          (b3, _) = append_entries lim (map tls_entry tls) b2;
          (b4, _) = append_entries lim (map symbolic_entry symbolic) b3;
          bytes = b4 @ db_rela_glob_dat (ly_dyn ly) @ db_rela_copy (ly_dyn ly);
          ly1 = ly\<lparr>ly_dyn := (ly_dyn ly)\<lparr>db_rela_glob_dat := [], db_rela_copy := [], db_rela_dyn := bytes\<rparr>\<rparr>
      in set_rela_dyn_size (of_nat (length bytes))
           (patch_dt_relasz (of_nat (length bytes)) (patch_dt_relacount (of_nat written) ly1)))"

definition append_dynamic_relocs :: "(u64 \<times> u64) list \<Rightarrow> (u64 \<times> u64) list \<Rightarrow> layout \<Rightarrow> layout" where
  "append_dynamic_relocs relative irel ly = append_all_dynamic_relocs relative irel [] [] ly"

definition append_relative_relocs :: "(u64 \<times> u64) list \<Rightarrow> layout \<Rightarrow> layout" where
  "append_relative_relocs relative ly = append_dynamic_relocs relative [] ly"

section \<open>The unwind table header\<close>

text \<open>Function address and FDE address of every FDE of one contribution; \<open>None\<close> is the panic of
  \<^verbatim>\<open>arena.bytes\<close>.\<close>

definition contribution_fdes ::
  "input_arena \<Rightarrow> input_object list \<Rightarrow> u64 \<Rightarrow> section_contribution \<Rightarrow> (u64 \<times> u64) list option" where
  "contribution_fdes arena objs eh_va c =
     (case Option.bind (get objs (con_object_id c)) (\<lambda>obj. get (sections obj) (con_section_pos c)) of
        None \<Rightarrow> Some []
      | Some isec \<Rightarrow>
          map_option (\<lambda>bs. map (\<lambda>(fde_off, pcbegin_off, rel).
              (eh_va + con_offset c + of_nat pcbegin_off + word_of_int rel, eh_va + con_offset c + of_nat fde_off))
            (iter_fdes bs)) (arena_bytes arena (sec_data isec)))"

fun collect_fdes ::
  "input_arena \<Rightarrow> input_object list \<Rightarrow> u64 \<Rightarrow> section_contribution list \<Rightarrow> (u64 \<times> u64) list option" where
  "collect_fdes arena objs eh_va [] = Some []"
| "collect_fdes arena objs eh_va (c # cs) =
     Option.bind (contribution_fdes arena objs eh_va c) (\<lambda>xs.
       map_option ((@) xs) (collect_fdes arena objs eh_va cs))"

definition table_entry :: "u64 \<Rightarrow> u64 \<times> u64 \<Rightarrow> bytes" where
  "table_entry hdr_va = (\<lambda>(pc, fde). to_le 4 (ucast (pc - hdr_va) :: u32) @ to_le 4 (ucast (fde - hdr_va) :: u32))"

definition built_hdr_bytes :: "u64 \<Rightarrow> u64 \<Rightarrow> (u64 \<times> u64) list \<Rightarrow> bytes" where
  "built_hdr_bytes hdr_va eh_va entries =
     [1, 0x1b, 0x03, 0x3b] @ to_le 4 (ucast (eh_va - (hdr_va + 4)) :: u32) @
     to_le 4 (of_nat (length entries) :: u32) @ concat (map (table_entry hdr_va) entries)"

definition build_eh_frame_hdr :: "input_arena \<Rightarrow> input_object list \<Rightarrow> layout \<Rightarrow> (unit, layout) outcome" where
  "build_eh_frame_hdr arena objs ly =
     (case find (\<lambda>s. os_source s = SrcEhFrameHdr) (output_sections ly) of
        None \<Rightarrow> Ok ly
      | Some h \<Rightarrow>
          (case find (\<lambda>s. os_name s = ''.eh_frame'') (output_sections ly) of
             None \<Rightarrow> Ok ly
           | Some eh \<Rightarrow>
               (case collect_fdes arena objs (os_sh_addr eh) (os_contributions eh) of
                  None \<Rightarrow> Panic
                | Some es \<Rightarrow>
                    Ok (ly\<lparr>ly_dyn := (ly_dyn ly)\<lparr>db_eh_frame_hdr :=
                      built_hdr_bytes (os_sh_addr h) (os_sh_addr eh) (sort_key (\<lambda>(pc, _). sint pc) es)\<rparr>\<rparr>))))"

section \<open>The dynamic section as a table\<close>











section \<open>No relocation is lost\<close>


lemma append_entries_bound:
  "\<forall>e \<in> set es. length e = 24 \<Longrightarrow> length (fst (append_entries lim es bs)) \<le> max (length bs) lim"
proof (induction es arbitrary: bs)
  case (Cons e es)
  then show ?case using Cons.IH [of "bs @ e"] by (auto split: prod.split)
qed simp

lemma entry_length [simp]:
  "length (rela_entry a b c) = 24" "length (relative_entry x) = 24" "length (irelative_entry x) = 24"
  "length (tls_entry y) = 24" "length (symbolic_entry z) = 24"
  by (simp_all add: rela_entry_def relative_entry_def irelative_entry_def tls_entry_def symbolic_entry_def
      split: prod.splits)

lemma length_entries [simp]:
  "length (concat (map relative_entry xs)) = 24 * length xs"
  "length (concat (map irelative_entry xs)) = 24 * length xs"
  "length (concat (map tls_entry ys)) = 24 * length ys"
  "length (concat (map symbolic_entry zs)) = 24 * length zs"
  by (simp_all add: length_concat comp_def sum_list_triv)








definition rela_section_demo :: "u64 \<Rightarrow> output_section" where
  "rela_section_demo n =
     \<lparr>os_name = ''.rela.dyn'', os_kind = ReadOnly, os_sh_type = SHT_RELA, os_sh_flags = 2, os_sh_addr = 0x400,
      os_sh_offset = 0x400, os_sh_size = n, os_sh_link = 0, os_sh_info = 0, os_sh_addralign = 8,
      os_sh_entsize = 24, os_sh_name = 0, os_shndx = 1, os_contributions = [], os_source = SrcRelaDyn\<rparr>"



section \<open>The unwind table is a search table\<close>

text \<open>What a consumer reads back from row \<open>k\<close> of the table.\<close>

definition row_pc :: "u64 \<Rightarrow> bytes \<Rightarrow> nat \<Rightarrow> u64" where
  "row_pc hdr_va h k = hdr_va + scast (from_le (take 4 (drop (12 + 8 * k) h)) :: u32)"

definition row_fde :: "u64 \<Rightarrow> bytes \<Rightarrow> nat \<Rightarrow> u64" where
  "row_fde hdr_va h k = hdr_va + scast (from_le (take 4 (drop (16 + 8 * k) h)) :: u32)"

text \<open>\<open>v\<close> lies within the signed 32-bit reach of \<open>base\<close>.\<close>

definition near :: "u64 \<Rightarrow> u64 \<Rightarrow> bool" where
  "near base v \<longleftrightarrow> - (2 ^ 31) \<le> sint (v - base) \<and> sint (v - base) < 2 ^ 31"

lemma near_roundtrip:
  assumes "near base v" shows "base + scast (ucast (v - base) :: u32) = v"
proof -
  have "sint (ucast (v - base) :: u32) = signed_take_bit 31 (uint (v - base))"
    by (simp add: signed_ucast_eq)
  also have "\<dots> = signed_take_bit 31 (sint (v - base))"
    by (simp only: sint_uint) simp
  also have "\<dots> = sint (v - base)"
    using assms by (intro signed_take_bit_int_eq_self) (simp_all add: near_def)
  finally have "scast (ucast (v - base) :: u32) = v - base"
    by (simp add: scast_eq)
  then show ?thesis by simp
qed

lemma drop_concat_rows:
  "k < length es \<Longrightarrow> (\<And>e. length (f e) = 8) \<Longrightarrow> take 8 (drop (8 * k) (concat (map f es))) = f (es ! k)"
proof (induction es arbitrary: k)
  case (Cons e es)
  then show ?case by (cases k) simp_all
qed simp

lemma eh_rows:
  assumes "k < length es"
  shows "row_pc hdr_va (built_hdr_bytes hdr_va eh_va es) k = hdr_va + scast (ucast (fst (es ! k) - hdr_va) :: u32)"
    and "row_fde hdr_va (built_hdr_bytes hdr_va eh_va es) k = hdr_va + scast (ucast (snd (es ! k) - hdr_va) :: u32)"
proof -
  let ?h = "built_hdr_bytes hdr_va eh_va es"
  have len: "length (table_entry hdr_va e) = 8" for e by (cases e) (simp add: table_entry_def)
  have d: "drop 12 ?h = concat (map (table_entry hdr_va) es)" by (simp add: built_hdr_bytes_def)
  have row: "take 8 (drop (12 + 8 * k) ?h) = table_entry hdr_va (es ! k)"
  proof -
    have "drop (12 + 8 * k) ?h = drop (8 * k) (drop 12 ?h)" by (simp add: add.commute)
    then show ?thesis using drop_concat_rows [OF assms, of "table_entry hdr_va", OF len] by (simp only: d)
  qed
  have "take 4 (drop (12 + 8 * k) ?h) = take 4 (table_entry hdr_va (es ! k))"
    by (subst row [symmetric]) simp
  moreover have "take 4 (drop (16 + 8 * k) ?h) = take 4 (drop 4 (table_entry hdr_va (es ! k)))"
  proof -
    have "take 4 (drop 4 (take 8 xs)) = take 4 (drop 4 xs)" for xs :: bytes by (simp add: drop_take)
    then show ?thesis by (subst row [symmetric]) (simp add: add.commute)
  qed
  ultimately show "row_pc hdr_va ?h k = hdr_va + scast (ucast (fst (es ! k) - hdr_va) :: u32)"
    and "row_fde hdr_va ?h k = hdr_va + scast (ucast (snd (es ! k) - hdr_va) :: u32)"
    by (simp_all add: row_pc_def row_fde_def table_entry_def case_prod_unfold byte_simps)
qed

text \<open>C31: The built \<^verbatim>\<open>.eh_frame_hdr\<close> is the search table the unwinder needs: there
  is one row for each FDE of the contributions, reading row \<open>k\<close> back gives the function address and the FDE
  address of one of them whenever they lie within 2 GiB of the header, and the rows are in ascending order of
  the function address.\<close>

theorem eh_frame_hdr_search_table:
  assumes "find (\<lambda>s. os_source s = SrcEhFrameHdr) (output_sections ly) = Some h"
    and "find (\<lambda>s. os_name s = ''.eh_frame'') (output_sections ly) = Some eh"
    and "collect_fdes arena objs (os_sh_addr eh) (os_contributions eh) = Some fdes"
    and near: "\<forall>(pc, fde) \<in> set fdes. near (os_sh_addr h) pc \<and> near (os_sh_addr h) fde"
  shows "\<exists>ly' hdr. build_eh_frame_hdr arena objs ly = Ok ly' \<and> hdr = db_eh_frame_hdr (ly_dyn ly') \<and>
     length hdr = 12 + 8 * length fdes \<and>
     mset (map (\<lambda>k. (row_pc (os_sh_addr h) hdr k, row_fde (os_sh_addr h) hdr k)) [0..<length fdes]) = mset fdes \<and>
     sorted (map (\<lambda>k. sint (row_pc (os_sh_addr h) hdr k)) [0..<length fdes])"
proof -
  let ?es = "sort_key (\<lambda>(pc, _). sint pc) fdes"
  let ?hdr = "built_hdr_bytes (os_sh_addr h) (os_sh_addr eh) ?es"
  have row: "(row_pc (os_sh_addr h) ?hdr k, row_fde (os_sh_addr h) ?hdr k) = ?es ! k" if "k < length fdes" for k
  proof -
    have k: "k < length ?es" using that by simp
    then have "?es ! k \<in> set fdes" using nth_mem set_sort by metis
    then have "near (os_sh_addr h) (fst (?es ! k))" "near (os_sh_addr h) (snd (?es ! k))"
      using near by (auto simp: case_prod_unfold)
    then show ?thesis unfolding eh_rows [OF k] by (simp add: near_roundtrip)
  qed
  then have rows: "map (\<lambda>k. (row_pc (os_sh_addr h) ?hdr k, row_fde (os_sh_addr h) ?hdr k)) [0..<length fdes] = ?es"
    by (intro nth_equalityI) simp_all
  have "map (\<lambda>k. sint (row_pc (os_sh_addr h) ?hdr k)) [0..<length fdes] = map (\<lambda>x. sint (fst x)) ?es"
    using row by (intro nth_equalityI) (simp_all add: prod_eq_iff)
  moreover have "sorted (map (\<lambda>x. sint (fst x)) ?es)"
    using sorted_sort_key [of "\<lambda>(pc, _). sint pc" fdes] by (simp add: case_prod_unfold)
  moreover have "length ?hdr = 12 + 8 * length fdes"
    by (simp add: built_hdr_bytes_def length_concat comp_def table_entry_def case_prod_unfold sum_list_triv)
  moreover have "mset (map (\<lambda>k. (row_pc (os_sh_addr h) ?hdr k, row_fde (os_sh_addr h) ?hdr k)) [0..<length fdes]) = mset fdes"
    unfolding rows by simp
  moreover have "build_eh_frame_hdr arena objs ly = Ok (ly\<lparr>ly_dyn := (ly_dyn ly)\<lparr>db_eh_frame_hdr := ?hdr\<rparr>\<rparr>)"
    by (simp add: build_eh_frame_hdr_def assms(1-3))
  ultimately show ?thesis
    by (intro exI [of _ "ly\<lparr>ly_dyn := (ly_dyn ly)\<lparr>db_eh_frame_hdr := ?hdr\<rparr>\<rparr>"] exI [of _ ?hdr]) simp
qed

definition eh_object_demo :: input_object where
  "eh_object_demo =
     \<lparr>path = ''a.o'',
      sections = [\<lparr>sec_index = 1, sec_name = ''.eh_frame'', sec_kind = EhFrame, sec_sh_type = 1,
                   sec_data = \<lparr>sd_src = Owned 0, sd_off = 0, sd_len = 28\<rparr>, sec_align = 8, sec_size = 28,
                   sec_flags = 2, sec_relocs = []\<rparr>],
      symbols = [], section_map = Sparse [(1, 0)], symbol_map = Sparse [], comdat_groups = []\<rparr>"

definition eh_layout_demo :: layout where
  "eh_layout_demo =
     blank_layout\<lparr>output_sections :=
       [(rela_section_demo 20)\<lparr>os_source := SrcEhFrameHdr, os_sh_addr := 0x2000\<rparr>,
        (rela_section_demo 28)\<lparr>os_name := ''.eh_frame'', os_source := SrcInput, os_sh_addr := 0x2018,
          os_contributions := [\<lparr>con_object_id = 0, con_section_index = 1, con_section_pos = 0, con_offset = 0, con_size = 28\<rparr>]\<rparr>]\<rparr>"

theorem eh_frame_hdr_search_table_witness:
  "\<exists>ly'. build_eh_frame_hdr \<lparr>mmaps = [], owned = [example_eh_frame], arena_names = {}\<rparr> [eh_object_demo] eh_layout_demo = Ok ly' \<and>
     length (db_eh_frame_hdr (ly_dyn ly')) = 20 \<and>
     row_pc 0x2000 (db_eh_frame_hdr (ly_dyn ly')) 0 = 0x2028"
proof -
  let ?arena = "\<lparr>mmaps = [], owned = [example_eh_frame], arena_names = {}\<rparr>"
  have h: "find (\<lambda>s. os_source s = SrcEhFrameHdr) (output_sections eh_layout_demo) = Some (output_sections eh_layout_demo ! 0)"
    and eh: "find (\<lambda>s. os_name s = ''.eh_frame'') (output_sections eh_layout_demo) = Some (output_sections eh_layout_demo ! 1)"
    by (simp_all add: eh_layout_demo_def rela_section_demo_def)
  have c: "collect_fdes ?arena [eh_object_demo] (os_sh_addr (output_sections eh_layout_demo ! 1))
      (os_contributions (output_sections eh_layout_demo ! 1)) = Some [(0x2028, 0x2024)]"
    by (simp add: eh_layout_demo_def rela_section_demo_def contribution_fdes_def eh_object_demo_def get_def
        arena_bytes_def slice_def iter_fdes_def fdes_from.simps rec_len_def u32_at_def example_eh_frame_def)
  have n: "\<forall>(pc, fde) \<in> set [(0x2028, 0x2024)]. near (os_sh_addr (output_sections eh_layout_demo ! 0)) pc \<and>
      near (os_sh_addr (output_sections eh_layout_demo ! 0)) fde"
    by (simp add: eh_layout_demo_def near_def)
  show ?thesis
    using eh_frame_hdr_search_table [OF h eh c n]
    by (simp add: eh_layout_demo_def) blast
qed

end
