(* ===== verification/Layout_Synth.thy ===== *)
theory Layout_Synth
  imports Dyn_Prebuild
begin

text \<open>
  The sections \<^verbatim>\<open>compute_layout_icf\<close> makes for a dynamic link, the size of \<^verbatim>\<open>.dynamic\<close>, and the ordering of
  the buckets by name or by the linker script.  Together with grouping this is everything that is decided
  before addresses are assigned.
\<close>

section \<open>Sections of a dynamic link\<close>

abbreviation (input) SHT_GNU_HASH :: u32 where "SHT_GNU_HASH \<equiv> 0x6ffffff6"
abbreviation (input) SHT_GNU_VERNEED :: u32 where "SHT_GNU_VERNEED \<equiv> 0x6ffffffe"
abbreviation (input) SHT_GNU_VERSYM :: u32 where "SHT_GNU_VERSYM \<equiv> 0x6fffffff"
abbreviation (input) RELA_SIZE :: nat where "RELA_SIZE \<equiv> 24"

text \<open>How many entries \<^verbatim>\<open>.rela.dyn\<close> is reserved for.\<close>

definition n_rela_dyn :: "layout_args \<Rightarrow> dynamic_info \<Rightarrow> nat" where
  "n_rela_dyn la d =
     n_glob_dat (la_symbols la) (la_got_syms la) + di_n_relative d + di_n_tls_reloc d +
     length (di_copy_relocs d) + di_n_symbolic_data d"

definition ro_dyn_table :: "layout_args \<Rightarrow> dynamic_info \<Rightarrow> dyn_blobs \<Rightarrow> (name \<times> u32 \<times> u64 \<times> u64) list" where
  "ro_dyn_table la d db =
     [(''.interp'', SHT_PROGBITS, 1, of_nat (length (db_interp db))),
      (''.hash'', SHT_HASH, 8, of_nat (length (db_hash db))),
      (''.gnu.hash'', SHT_GNU_HASH, 8, of_nat (length (db_gnu_hash db))),
      (''.dynsym'', SHT_DYNSYM, 8, of_nat (length (db_dynsym db))),
      (''.dynstr'', SHT_STRTAB, 1, of_nat (length (db_dynstr db))),
      (''.gnu.version'', SHT_GNU_VERSYM, 2, of_nat (length (db_gnu_version db))),
      (''.gnu.version_r'', SHT_GNU_VERNEED, 8, of_nat (length (db_gnu_version_r db))),
      (''.rela.dyn'', SHT_RELA, 8, of_nat (n_rela_dyn la d) * of_nat RELA_SIZE)]"

definition synth_ro_dyn :: "layout_args \<Rightarrow> dynamic_info \<Rightarrow> dyn_blobs \<Rightarrow> buckets \<Rightarrow> buckets" where
  "synth_ro_dyn la d db k =
     fold (\<lambda>(n, sh_type, align, sz). if sz = 0 then id else add_ro (ro_builder n sh_type align sz)) (ro_dyn_table la d db) k"

definition synth_plt :: "nat \<Rightarrow> buckets \<Rightarrow> buckets" where
  "synth_plt n_plt k =
     (if 0 < n_plt then
        add_ro (ro_builder ''.rela.plt'' SHT_RELA 8 (of_nat n_plt * of_nat RELA_SIZE))
          (add_rw (rw_builder ''.got.plt'' SHT_PROGBITS (of_nat (n_plt + 3) * 8))
            (add_rx \<lparr>bd_name = ''.plt'', bd_kind = Text, bd_sh_flags = SHF_ALLOC OR SHF_EXECINSTR,
               bd_sh_type = SHT_PROGBITS, bd_align = 16, bd_size = of_nat n_plt * 16, bd_perm = Rx,
               bd_is_nobits = False, bd_contributions = []\<rparr> k))
      else k)"

definition count_named :: "name \<Rightarrow> builder list \<Rightarrow> nat" where
  "count_named n bs = length (filter (\<lambda>b. bd_name b = n) bs)"

text \<open>How many entries \<^verbatim>\<open>.dynamic\<close> will have, its final \<^verbatim>\<open>DT_NULL\<close> included.\<close>

definition dyn_entry_count :: "layout_args \<Rightarrow> dynamic_info \<Rightarrow> dyn_prebuild \<Rightarrow> buckets \<Rightarrow> nat" where
  "dyn_entry_count la d p k =
     (let db = pb_blobs p; n_plt = length (la_plt_syms la);
          n_initfini = count_named ''.init_array'' (bk_rw_pb k) + count_named ''.fini_array'' (bk_rw_pb k);
          n_flags = (if di_pie d \<or> di_shared d then 2 else if 0 < n_plt then 1 else 0)
      in length (di_needed d) + 4 + of_bool (db_hash db \<noteq> []) + of_bool (db_gnu_hash db \<noteq> []) +
         of_bool (pb_soname_off p \<noteq> None) + of_bool (pb_rpath_off p \<noteq> None) +
         (if 0 < n_rela_dyn la d then 3 else 0) + (if di_n_irelative d < di_n_relative d then 1 else 0) +
         (if 0 < n_plt then 4 else 0) + (if 0 < db_verneed_num db then 3 else 0) +
         count_named ''.init'' (bk_rx k) + count_named ''.fini'' (bk_rx k) + n_flags + n_initfini * 2 + 1)"

definition synth_dynamic :: "layout_args \<Rightarrow> dynamic_info \<Rightarrow> dyn_prebuild \<Rightarrow> buckets \<Rightarrow> buckets" where
  "synth_dynamic la d p k =
     (let k1 = synth_plt (length (la_plt_syms la)) (synth_ro_dyn la d (pb_blobs p) k)
      in add_rw (rw_builder ''.dynamic'' SHT_DYNAMIC (of_nat (dyn_entry_count la d p k1) * 16)) k1)"

section \<open>Order\<close>

text \<open>Sections the script lists come first, in its order; the others follow by name.\<close>

definition script_rank :: "script_layout option \<Rightarrow> builder \<Rightarrow> nat \<times> nat \<times> name" where
  "script_rank script b =
     (case Option.bind script (\<lambda>sl. order_of sl (bd_name b)) of
        Some i \<Rightarrow> (0, i, bd_name b) | None \<Rightarrow> (1, 0, bd_name b))"

definition sort_builders_by_script :: "script_layout option \<Rightarrow> builder list \<Rightarrow> builder list" where
  "sort_builders_by_script script bs = sort_key (script_rank script) bs"

definition sort_buckets :: "script_layout option \<Rightarrow> buckets \<Rightarrow> buckets" where
  "sort_buckets script k =
     \<lparr>bk_ro = sort_builders_by_script script (bk_ro k), bk_rx = sort_builders_by_script script (bk_rx k),
      bk_rw_pb = sort_builders_by_script script (bk_rw_pb k), bk_rw_bss = sort_builders_by_script script (bk_rw_bss k)\<rparr>"

section \<open>The plan before placement\<close>

record section_plan =
  sp_buckets :: buckets
  sp_bss :: bss_alloc
  sp_note :: bytes
  sp_n_fdes :: nat

definition plan_sections :: "layout_args \<Rightarrow> dyn_prebuild \<Rightarrow> (layout_error, section_plan) outcome" where
  "plan_sections la p =
     (case group_input_sections la of
        Err e \<Rightarrow> Err e
      | Panic \<Rightarrow> Panic
      | Ok bs \<Rightarrow>
          (case (merge_gnu_property_notes (la_arena la) (la_objects la), link_fdes (la_arena la) (la_objects la)) of
             (Ok note, Some n_fdes) \<Rightarrow>
               (let note = (case note of Some n \<Rightarrow> n | None \<Rightarrow> []);
                    bss = alloc_bss (la_symbols la) (la_dynamic la);
                    k = synth_eh_frame_hdr n_fdes
                          (synth_notes note (cfg_build_id (la_config la))
                            (synth_bss bss (synth_got (la_got_syms la) (la_tls la) (bucket_builders bs))));
                    k = (case la_dynamic la of Some d \<Rightarrow> synth_dynamic la d p k | None \<Rightarrow> k)
                in Ok \<lparr>sp_buckets = sort_buckets (cfg_script (la_config la)) k, sp_bss = bss, sp_note = note,
                       sp_n_fdes = n_fdes\<rparr>)
           | _ \<Rightarrow> Panic))"

section \<open>All builders of the plan\<close>

definition all_builders :: "buckets \<Rightarrow> builder list" where
  "all_builders k = bk_ro k @ bk_rx k @ bk_rw_pb k @ bk_rw_bss k"

text \<open>Builders the linker made: no contributions, a power of two as alignment, none of them an initialiser section.\<close>

definition init_names :: "name list" where
  "init_names = [''.init'', ''.fini'', ''.init_array'', ''.fini_array'']"

definition synthetic_builder :: "builder \<Rightarrow> bool" where
  "synthetic_builder b \<longleftrightarrow> bd_contributions b = [] \<and> is_power_of_two (bd_align b) \<and> bd_name b \<notin> set init_names"

definition only_synthetic :: "buckets \<Rightarrow> buckets \<Rightarrow> bool" where
  "only_synthetic k k' \<longleftrightarrow>
     (\<exists>new. mset (all_builders k') = mset (all_builders k) + mset new \<and> list_all synthetic_builder new)"

lemma only_synthetic_refl [simp]: "only_synthetic k k"
  by (auto simp: only_synthetic_def intro: exI [of _ "[]"])

lemma only_synthetic_trans [trans]: "only_synthetic a b \<Longrightarrow> only_synthetic b c \<Longrightarrow> only_synthetic a c"
  unfolding only_synthetic_def
proof (elim exE conjE)
  fix new new'
  assume "mset (all_builders b) = mset (all_builders a) + mset new" "list_all synthetic_builder new"
    "mset (all_builders c) = mset (all_builders b) + mset new'" "list_all synthetic_builder new'"
  then show "\<exists>new. mset (all_builders c) = mset (all_builders a) + mset new \<and> list_all synthetic_builder new"
    by (intro exI [of _ "new @ new'"]) simp
qed

lemma only_synthetic_add:
  assumes "synthetic_builder b"
  shows "only_synthetic k (add_ro b k)" "only_synthetic k (add_rx b k)" "only_synthetic k (add_rw b k)"
    "only_synthetic k (add_bss b k)"
  using assms
  by (auto simp: only_synthetic_def all_builders_def add_ro_def add_rx_def add_rw_def add_bss_def intro: exI [of _ "[b]"])

lemma is_power_of_two_lits [simp]:
  "is_power_of_two 1" "is_power_of_two 2" "is_power_of_two 4" "is_power_of_two 8" "is_power_of_two 16"
proof -
  have "is_power_of_two (2 ^ k)" if "k < 64" for k using that by (auto simp: is_power_of_two_def list_ex_iff)
  from this [of 0] this [of 1] this [of 2] this [of 3] this [of 4]
  show "is_power_of_two 1" "is_power_of_two 2" "is_power_of_two 4" "is_power_of_two 8" "is_power_of_two 16"
    by simp_all
qed

lemma synthetic_builders [simp]:
  "is_power_of_two align \<Longrightarrow> n \<notin> set init_names \<Longrightarrow> synthetic_builder (ro_builder n t align sz)"
  "n \<notin> set init_names \<Longrightarrow> synthetic_builder (rw_builder n t sz)"
  by (simp_all add: synthetic_builder_def ro_builder_def rw_builder_def)

section \<open>No builder is lost or invented\<close>

lemma mset_bucket_builders: "mset (all_builders (bucket_builders bs)) = mset bs"
proof -
  have "mset bs = filter_mset (\<lambda>b. bd_perm b = Ro) (mset bs) + filter_mset (\<lambda>b. bd_perm b = Rx) (mset bs) +
      filter_mset (\<lambda>b. bd_perm b = Rw \<and> \<not> bd_is_nobits b) (mset bs) +
      filter_mset (\<lambda>b. bd_perm b = Rw \<and> bd_is_nobits b) (mset bs)"
  proof (induction bs)
    case (Cons b bs)
    then show ?case by (cases "bd_perm b") auto
  qed simp
  then show ?thesis by (simp add: all_builders_def bucket_builders_def add.assoc)
qed

lemma mset_sort_buckets: "mset (all_builders (sort_buckets script k)) = mset (all_builders k)"
  by (simp add: all_builders_def sort_buckets_def sort_builders_by_script_def)

text \<open>Every common symbol asks for a power of two.\<close>

definition commons_aligned :: "symbol_table \<Rightarrow> bool" where
  "commons_aligned st \<longleftrightarrow> list_all (\<lambda>(_, _, al). is_power_of_two (max al 1)) (common_syms st)"

lemma alloc_common_align:
  "list_all (\<lambda>(_, _, al). is_power_of_two (max al 1)) cs \<Longrightarrow> is_power_of_two (ba_align a) \<Longrightarrow>
     is_power_of_two (ba_align (fold alloc_common cs a))"
proof (induction cs arbitrary: a)
  case (Cons c cs)
  then have "is_power_of_two (ba_align (alloc_common c a))"
    by (auto simp: alloc_common_def Let_def case_prod_unfold pow2_max_dvd(3))
  then show ?case using Cons by simp
qed simp

lemma copy_reloc_align_pow2: "is_power_of_two (copy_reloc_align sz)"
  by (simp add: copy_reloc_align_def)

lemma alloc_copy_align: "is_power_of_two (ba_align a) \<Longrightarrow> is_power_of_two (ba_align (fold (alloc_copy st) is a))"
proof (induction "is" arbitrary: a)
  case (Cons i "is")
  have "is_power_of_two (ba_align (alloc_copy st i a))"
    using Cons.prems by (auto simp: alloc_copy_def Let_def pow2_max_dvd(3) copy_reloc_align_pow2 split: option.split)
  then show ?case using Cons by simp
qed simp

lemma alloc_bss_align: "commons_aligned st \<Longrightarrow> is_power_of_two (ba_align (alloc_bss st dynamic))"
  unfolding alloc_bss_def commons_aligned_def by (intro alloc_copy_align alloc_common_align) simp_all

lemma only_synthetic_stages:
  "only_synthetic k (synth_got got tls k)"
  "is_power_of_two (ba_align a) \<Longrightarrow> only_synthetic k (synth_bss a k)"
  "only_synthetic k (synth_notes note bid k)"
  "only_synthetic k (synth_eh_frame_hdr n k)"
  "only_synthetic k (synth_plt n k)"
proof -
  show "only_synthetic k (synth_got got tls k)"
    by (simp add: synth_got_def Let_def only_synthetic_add init_names_def)
  show "is_power_of_two (ba_align a) \<Longrightarrow> only_synthetic k (synth_bss a k)"
    by (simp add: synth_bss_def only_synthetic_add synthetic_builder_def init_names_def)
  have "only_synthetic k (if note = [] then k
      else add_ro (ro_builder ''.note.gnu.property'' SHT_NOTE 8 (of_nat (length note))) k)" (is "only_synthetic k ?k1")
    by (simp add: only_synthetic_add init_names_def)
  also have "only_synthetic ?k1 (synth_notes note bid k)"
    by (simp only: synth_notes_def Let_def only_synthetic_add synthetic_builders is_power_of_two_lits only_synthetic_refl
        split: if_split) (simp add: init_names_def only_synthetic_add)
  finally show "only_synthetic k (synth_notes note bid k)" .
  show "only_synthetic k (synth_eh_frame_hdr n k)"
    by (simp add: synth_eh_frame_hdr_def only_synthetic_add init_names_def)
  let ?x = "\<lparr>bd_name = ''.plt'', bd_kind = Text, bd_sh_flags = SHF_ALLOC OR SHF_EXECINSTR,
               bd_sh_type = SHT_PROGBITS, bd_align = 16, bd_size = of_nat n * 16, bd_perm = Rx,
               bd_is_nobits = False, bd_contributions = []\<rparr>"
  have "only_synthetic k (add_rx ?x k)" by (intro only_synthetic_add) (simp add: synthetic_builder_def init_names_def)
  also have "only_synthetic (add_rx ?x k) (add_rw (rw_builder ''.got.plt'' SHT_PROGBITS (of_nat (n + 3) * 8)) (add_rx ?x k))"
    by (intro only_synthetic_add) (simp add: init_names_def)
  also have "only_synthetic \<dots> (add_ro (ro_builder ''.rela.plt'' SHT_RELA 8 (of_nat n * of_nat RELA_SIZE)) \<dots>)"
    by (intro only_synthetic_add) (simp add: init_names_def)
  finally show "only_synthetic k (synth_plt n k)" by (simp add: synth_plt_def)
qed

lemma only_synthetic_table:
  "list_all (\<lambda>(n, t, align, sz). is_power_of_two align \<and> n \<notin> set init_names) rows \<Longrightarrow>
     only_synthetic k (fold (\<lambda>(n, t, align, sz). if sz = 0 then id else add_ro (ro_builder n t align sz)) rows k)"
proof (induction rows arbitrary: k)
  case (Cons r rows)
  obtain n t align sz where r: "r = (n, t, align, sz)" by (cases r)
  have "only_synthetic k (if sz = 0 then k else add_ro (ro_builder n t align sz) k)" (is "only_synthetic k ?k1")
    using Cons.prems r by (simp add: only_synthetic_add)
  also have "only_synthetic ?k1 (fold (\<lambda>(n, t, align, sz). if sz = 0 then id else add_ro (ro_builder n t align sz)) rows ?k1)"
    using Cons by simp
  finally show ?case by (cases "sz = 0") (simp_all add: r)
qed simp

lemma only_synthetic_dynamic: "only_synthetic k (synth_dynamic la d p k)"
proof -
  have "only_synthetic k (synth_ro_dyn la d (pb_blobs p) k)"
    unfolding synth_ro_dyn_def by (rule only_synthetic_table) (simp add: ro_dyn_table_def init_names_def)
  also have "only_synthetic \<dots> (synth_plt (length (la_plt_syms la)) \<dots>)" by (rule only_synthetic_stages)
  also have "only_synthetic \<dots> (synth_dynamic la d p k)"
    unfolding synth_dynamic_def Let_def by (rule only_synthetic_add) (simp add: init_names_def)
  finally show ?thesis .
qed

lemma plan_sections_builders:
  assumes "plan_sections la p = Ok sp" "commons_aligned (la_symbols la)"
  obtains bs new where "group_input_sections la = Ok bs"
    "mset (all_builders (sp_buckets sp)) = mset bs + mset new" "list_all synthetic_builder new"
proof -
  obtain bs nt n_fdes where g: "group_input_sections la = Ok bs"
      "merge_gnu_property_notes (la_arena la) (la_objects la) = Ok nt"
      "link_fdes (la_arena la) (la_objects la) = Some n_fdes"
    using assms(1) by (auto simp: plan_sections_def split: outcome.splits option.splits)
  define bss where "bss = alloc_bss (la_symbols la) (la_dynamic la)"
  define k1 where "k1 = synth_got (la_got_syms la) (la_tls la) (bucket_builders bs)"
  define k2 where "k2 = synth_bss bss k1"
  define k3 where "k3 = synth_notes (case nt of Some n \<Rightarrow> n | None \<Rightarrow> []) (cfg_build_id (la_config la)) k2"
  define k4 where "k4 = synth_eh_frame_hdr n_fdes k3"
  define k5 where "k5 = (case la_dynamic la of Some d \<Rightarrow> synth_dynamic la d p k4 | None \<Rightarrow> k4)"
  have sp: "sp_buckets sp = sort_buckets (cfg_script (la_config la)) k5"
    using assms(1) by (auto simp: plan_sections_def g Let_def k1_def k2_def k3_def k4_def k5_def bss_def split: option.splits)
  have "only_synthetic (bucket_builders bs) k1" unfolding k1_def by (rule only_synthetic_stages)
  also have "only_synthetic k1 k2"
    unfolding k2_def bss_def by (rule only_synthetic_stages(2)) (rule alloc_bss_align [OF assms(2)])
  also have "only_synthetic k2 k3" unfolding k3_def by (rule only_synthetic_stages)
  also have "only_synthetic k3 k4" unfolding k4_def by (rule only_synthetic_stages)
  also have "only_synthetic k4 k5" unfolding k5_def by (simp add: only_synthetic_dynamic split: option.split)
  finally obtain new where "mset (all_builders k5) = mset bs + mset new" "list_all synthetic_builder new"
    by (auto simp: only_synthetic_def mset_bucket_builders)
  then show ?thesis using that [OF g(1)] by (simp add: sp mset_sort_buckets)
qed

end
