(* ===== verification/Layout_Place.thy ===== *)
theory Layout_Place
  imports Layout_Synth
begin

text \<open>
  Address assignment in \<^verbatim>\<open>compute_layout_icf\<close>: the number of program headers, the order of the writable
  sections with RELRO first, the alignment of the TLS block, \<^verbatim>\<open>place\<close> for each group with page steps between
  the segments, and the aliasing of folded sections.

  Every section the filters keep is shown to get an address at its alignment, apart from every other.
\<close>

section \<open>Output sections\<close>

definition source_of :: "builder \<Rightarrow> sec_source" where
  "source_of b =
     (let n = bd_name b in
      if n = ''.got'' then SrcGot
      else if n = ''.note.gnu.build-id'' then SrcNoteBuildId
      else if n = ''.note.gnu.property'' then SrcNoteGnuProperty
      else if n = ''.interp'' then SrcInterp
      else if n = ''.hash'' then SrcHash
      else if n = ''.gnu.hash'' then SrcGnuHash
      else if n = ''.dynsym'' then SrcDynSym
      else if n = ''.dynstr'' then SrcDynStr
      else if n = ''.rela.dyn'' then SrcRelaDyn
      else if n = ''.dynamic'' then SrcDynamic
      else if n = ''.plt'' then SrcPlt
      else if n = ''.got.plt'' then SrcGotPlt
      else if n = ''.rela.plt'' then SrcRelaPlt
      else if n = ''.gnu.version'' then SrcGnuVersion
      else if n = ''.gnu.version_r'' then SrcGnuVersionR
      else if n = ''.eh_frame_hdr'' then SrcEhFrameHdr
      else if bd_is_nobits b then SrcBss
      else SrcInput)"

definition entsize_of :: "u32 \<Rightarrow> u64" where
  "entsize_of t =
     (if t = SHT_SYMTAB \<or> t = SHT_DYNSYM then 24 else if t = SHT_RELA then 24 else if t = SHT_DYNAMIC then 16
      else if t = SHT_HASH then 4 else if t = SHT_GNU_VERSYM then 2 else 0)"

definition output_of :: "u64 \<Rightarrow> u64 \<Rightarrow> builder \<Rightarrow> output_section" where
  "output_of base sh_addr b =
     \<lparr>os_name = bd_name b, os_kind = bd_kind b, os_sh_type = bd_sh_type b, os_sh_flags = bd_sh_flags b,
      os_sh_addr = sh_addr, os_sh_offset = sh_addr - base, os_sh_size = bd_size b, os_sh_link = 0, os_sh_info = 0,
      os_sh_addralign = bd_align b, os_sh_entsize = entsize_of (bd_sh_type b), os_sh_name = 0, os_shndx = 0,
      os_contributions = bd_contributions b, os_source = source_of b\<rparr>"

record place_state =
  pl_va :: u64
  pl_sections :: "output_section list"
  pl_addresses :: "(sec_key \<times> u64) list"
  pl_sec_to_out :: "(sec_key \<times> nat) list"

definition contribution_key :: "section_contribution \<Rightarrow> sec_key" where
  "contribution_key c = (con_object_id c, con_section_index c)"

definition place_builder :: "u64 \<Rightarrow> builder \<Rightarrow> place_state \<Rightarrow> place_state" where
  "place_builder base b s =
     (let sh_addr = align_up (pl_va s) (bd_align b); out_idx = length (pl_sections s) in
      \<lparr>pl_va = sh_addr + bd_size b,
       pl_sections = pl_sections s @ [output_of base sh_addr b],
       pl_addresses = fold (\<lambda>c. AList.update (contribution_key c) (sh_addr + con_offset c)) (bd_contributions b) (pl_addresses s),
       pl_sec_to_out = fold (\<lambda>c. AList.update (contribution_key c) out_idx) (bd_contributions b) (pl_sec_to_out s)\<rparr>)"

definition place :: "u64 \<Rightarrow> builder list \<Rightarrow> place_state \<Rightarrow> place_state" where
  "place base bs s = fold (place_builder base) bs s"

definition page_step :: "u64 \<Rightarrow> place_state \<Rightarrow> place_state" where
  "page_step page s = s\<lparr>pl_va := align_up (pl_va s) page\<rparr>"

section \<open>Order within the writable segment\<close>

definition is_relro :: "name \<Rightarrow> bool" where
  "is_relro n \<longleftrightarrow> n \<in> {''.data.rel.ro'', ''.dynamic'', ''.fini_array'', ''.got'', ''.got.plt'', ''.init_array''}"

definition order_rw :: "builder list \<Rightarrow> builder list" where
  "order_rw bs = sort_key (\<lambda>b. (\<not> is_relro (bd_name b), bd_name b, bd_kind b = Tdata)) bs"

definition order_bss :: "builder list \<Rightarrow> builder list" where
  "order_bss bs = sort_key (\<lambda>b. bd_kind b \<noteq> Tbss) bs"

definition is_tls_builder :: "builder \<Rightarrow> bool" where
  "is_tls_builder b \<longleftrightarrow> bd_kind b = Tdata \<or> bd_kind b = Tbss"

definition max_tls_align :: "builder list \<Rightarrow> builder list \<Rightarrow> u64" where
  "max_tls_align rw bss =
     (case filter is_tls_builder (rw @ bss) of [] \<Rightarrow> 1 | b # bs \<Rightarrow> fold (\<lambda>b. max (bd_align b)) bs (bd_align b))"

text \<open>Raises the alignment of the first builder that satisfies \<open>P\<close>.\<close>

fun raise_first :: "(builder \<Rightarrow> bool) \<Rightarrow> u64 \<Rightarrow> builder list \<Rightarrow> builder list" where
  "raise_first P a [] = []"
| "raise_first P a (b # bs) = (if P b then b\<lparr>bd_align := max (bd_align b) a\<rparr> # bs else b # raise_first P a bs)"

definition align_tls_block :: "builder list \<Rightarrow> builder list \<Rightarrow> builder list \<times> builder list" where
  "align_tls_block rw bss =
     (let a = max_tls_align rw bss in
      if a \<le> 1 then (rw, bss)
      else if list_ex (\<lambda>b. bd_kind b = Tdata) rw
      then (rev (raise_first (\<lambda>b. bd_kind b = Tdata) a (rev rw)), bss)
      else (rw, raise_first (\<lambda>b. bd_kind b = Tbss) a bss))"

section \<open>Program header count\<close>

abbreviation (input) EHDR_SIZE :: u64 where "EHDR_SIZE \<equiv> 64"
abbreviation (input) PHDR_SIZE :: u64 where "PHDR_SIZE \<equiv> 56"

definition plan_has_rx :: "section_plan \<Rightarrow> bool" where
  "plan_has_rx sp \<longleftrightarrow> bk_rx (sp_buckets sp) \<noteq> []"

definition plan_has_rw :: "section_plan \<Rightarrow> bool" where
  "plan_has_rw sp \<longleftrightarrow> bk_rw_pb (sp_buckets sp) \<noteq> [] \<or> bk_rw_bss (sp_buckets sp) \<noteq> []"

definition plan_has_tls :: "section_plan \<Rightarrow> bool" where
  "plan_has_tls sp \<longleftrightarrow> list_ex is_tls_builder (bk_rw_pb (sp_buckets sp) @ bk_rw_bss (sp_buckets sp))"

definition plan_has_property :: "section_plan \<Rightarrow> bool" where
  "plan_has_property sp \<longleftrightarrow> list_ex (\<lambda>b. bd_name b = ''.note.gnu.property'') (bk_ro (sp_buckets sp))"

definition n_dyn_segs :: "layout_args \<Rightarrow> nat" where
  "n_dyn_segs la = (case la_dynamic la of Some _ \<Rightarrow> if cfg_shared (la_config la) then 1 else 2 | None \<Rightarrow> 0)"

definition plan_phnum :: "layout_args \<Rightarrow> section_plan \<Rightarrow> nat" where
  "plan_phnum la sp =
     1 + of_bool (cfg_build_id (la_config la)) + n_dyn_segs la + of_bool (plan_has_tls sp) +
     of_bool (0 < sp_n_fdes sp) + of_bool (plan_has_property sp) + of_bool (la_dynamic la \<noteq> None) +
     (1 + of_bool (plan_has_rx sp) + of_bool (plan_has_rw sp)) + 1"

definition header_size :: "nat \<Rightarrow> u64" where
  "header_size phnum = EHDR_SIZE + of_nat phnum * PHDR_SIZE"

section \<open>The segments\<close>

record placement =
  pm_state :: place_state
  pm_phnum :: nat
  pm_ro_end :: u64
  pm_rx_seg :: "(u64 \<times> u64) option"
  pm_rw_seg :: "(u64 \<times> u64 \<times> u64) option"

definition layout_page :: "layout_args \<Rightarrow> u64" where
  "layout_page la = max (cfg_page_size (la_config la)) 1"

definition place_ro :: "layout_args \<Rightarrow> section_plan \<Rightarrow> place_state" where
  "place_ro la sp =
     (let base = cfg_base_address (la_config la) in
      place base (bk_ro (sp_buckets sp))
        \<lparr>pl_va = base + header_size (plan_phnum la sp), pl_sections = [], pl_addresses = [], pl_sec_to_out = []\<rparr>)"

definition place_rx :: "layout_args \<Rightarrow> section_plan \<Rightarrow> place_state \<Rightarrow> place_state \<times> (u64 \<times> u64) option" where
  "place_rx la sp s =
     (if plan_has_rx sp then
        (let s1 = page_step (layout_page la) s;
             s2 = place (cfg_base_address (la_config la)) (bk_rx (sp_buckets sp)) s1
         in (s2, Some (pl_va s1, pl_va s2)))
      else (s, None))"

definition place_rw :: "layout_args \<Rightarrow> section_plan \<Rightarrow> place_state \<Rightarrow> place_state \<times> (u64 \<times> u64 \<times> u64) option" where
  "place_rw la sp s =
     (if plan_has_rw sp then
        (let base = cfg_base_address (la_config la); page = layout_page la in
         case align_tls_block (order_rw (bk_rw_pb (sp_buckets sp))) (order_bss (bk_rw_bss (sp_buckets sp))) of (rw, bss) \<Rightarrow>
           (let s1 = page_step page s;
                relro = takeWhile (\<lambda>b. is_relro (bd_name b)) rw; rest = dropWhile (\<lambda>b. is_relro (bd_name b)) rw;
                s2 = place base relro s1;
                s3 = (if rest \<noteq> [] \<or> bss \<noteq> [] then page_step page s2 else s2);
                s4 = place base rest s3;
                s5 = place base bss s4
            in (s5, Some (pl_va s1, pl_va s4, pl_va s5))))
      else (s, None))"

text \<open>A folded section shares the address and the output section of its canonical copy.\<close>

definition alias_folded :: "(sec_key \<times> sec_key) list option \<Rightarrow> place_state \<Rightarrow> place_state" where
  "alias_folded fold_map s =
     (case fold_map of
        None \<Rightarrow> s
      | Some fm \<Rightarrow>
          fold (\<lambda>(dup, canon) s.
            s\<lparr>pl_addresses := (case map_of (pl_addresses s) canon of
                 Some va \<Rightarrow> AList.update dup va (pl_addresses s) | None \<Rightarrow> pl_addresses s),
              pl_sec_to_out := (case map_of (pl_sec_to_out s) canon of
                 Some out \<Rightarrow> AList.update dup out (pl_sec_to_out s) | None \<Rightarrow> pl_sec_to_out s)\<rparr>) fm s)"

definition place_sections :: "layout_args \<Rightarrow> section_plan \<Rightarrow> placement" where
  "place_sections la sp =
     (let s1 = place_ro la sp in
      case place_rx la sp s1 of (s2, rx) \<Rightarrow>
      case place_rw la sp s2 of (s3, rw) \<Rightarrow>
        \<lparr>pm_state = alias_folded (la_fold_map la) s3, pm_phnum = plan_phnum la sp, pm_ro_end = pl_va s1,
         pm_rx_seg = rx, pm_rw_seg = rw\<rparr>)"

definition file_content_end :: "layout_args \<Rightarrow> placement \<Rightarrow> u64" where
  "file_content_end la pm =
     (let base = cfg_base_address (la_config la) in
      case (pm_rw_seg pm, pm_rx_seg pm) of
        (Some (_, file_end, _), _) \<Rightarrow> file_end - base
      | (None, Some (_, e)) \<Rightarrow> e - base
      | (None, None) \<Rightarrow> pm_ro_end pm - base)"

section \<open>What placing keeps\<close>

definition keys_of :: "builder list \<Rightarrow> sec_key list" where
  "keys_of bs = map contribution_key (concat (map bd_contributions bs))"

definition builder_room :: "builder \<Rightarrow> nat" where
  "builder_room b = unat (bd_size b) + unat (bd_align b)"

text \<open>Key, address and size of every contribution of the placed sections.\<close>

definition section_extents :: "output_section \<Rightarrow> (sec_key \<times> u64 \<times> u64) list" where
  "section_extents x = map (\<lambda>c. (contribution_key c, os_sh_addr x + con_offset c, con_size c)) (os_contributions x)"

definition extents :: "output_section list \<Rightarrow> (sec_key \<times> u64 \<times> u64) list" where
  "extents xs = concat (map section_extents xs)"

definition sections_apart :: "output_section list \<Rightarrow> bool" where
  "sections_apart = sorted_wrt (\<lambda>x y. unat (os_sh_addr x) + unat (os_sh_size x) \<le> unat (os_sh_addr y))"

definition same_section :: "builder \<Rightarrow> output_section \<Rightarrow> bool" where
  "same_section b x \<longleftrightarrow> os_name x = bd_name b \<and> os_sh_size x = bd_size b \<and> os_sh_addralign x = bd_align b \<and>
     os_contributions x = bd_contributions b"

definition place_inv :: "u64 \<Rightarrow> builder list \<Rightarrow> place_state \<Rightarrow> bool" where
  "place_inv base bs s \<longleftrightarrow>
     list_all2 same_section bs (pl_sections s) \<and> sections_apart (pl_sections s) \<and>
     (\<forall>x \<in> set (pl_sections s). unat (os_sh_addr x) + unat (os_sh_size x) \<le> unat (pl_va s) \<and>
        unat (os_sh_addralign x) dvd unat (os_sh_addr x) \<and> os_sh_offset x = os_sh_addr x - base) \<and>
     (\<forall>k a. map_of (pl_addresses s) k = Some a \<longleftrightarrow> (\<exists>n. (k, a, n) \<in> set (extents (pl_sections s)))) \<and>
     (\<forall>k i. map_of (pl_sec_to_out s) k = Some i \<longleftrightarrow>
        i < length (pl_sections s) \<and> k \<in> contribution_key ` set (os_contributions (pl_sections s ! i)))"

lemma fold_update_map_of:
  "distinct (map f cs) \<Longrightarrow>
   map_of (fold (\<lambda>c. AList.update (f c) (g c)) cs m) k = Some v \<longleftrightarrow>
     (\<exists>c \<in> set cs. f c = k \<and> g c = v) \<or> (k \<notin> f ` set cs \<and> map_of m k = Some v)"
proof (induction cs arbitrary: m)
  case (Cons c cs)
  then show ?case by (auto simp: update_conv' image_iff)
qed simp

lemma extents_snoc: "extents (xs @ [x]) = extents xs @ section_extents x"
  by (simp add: extents_def)

lemma extents_keys:
  "(\<exists>a n. (k, a, n) \<in> set (extents xs)) \<longleftrightarrow> (\<exists>x \<in> set xs. k \<in> contribution_key ` set (os_contributions x))"
  by (auto simp: extents_def section_extents_def image_iff)

lemma place_inv_keys:
  assumes "place_inv base bs s"
  shows "map_of (pl_addresses s) k = None \<longleftrightarrow> k \<notin> set (keys_of bs)"
    "map_of (pl_sec_to_out s) k = None \<longleftrightarrow> k \<notin> set (keys_of bs)"
proof -
  have l: "list_all2 same_section bs (pl_sections s)" using assms by (simp add: place_inv_def)
  then have "map os_contributions (pl_sections s) = map bd_contributions bs"
    by (induction rule: list_all2_induct) (simp_all add: same_section_def)
  then have k: "k \<in> set (keys_of bs) \<longleftrightarrow> (\<exists>x \<in> set (pl_sections s). k \<in> contribution_key ` set (os_contributions x))"
  proof -
    assume m: "map os_contributions (pl_sections s) = map bd_contributions bs"
    show ?thesis unfolding keys_of_def m [symmetric] by auto
  qed
  have "\<forall>a. map_of (pl_addresses s) k = Some a \<longleftrightarrow> (\<exists>n. (k, a, n) \<in> set (extents (pl_sections s)))"
    using assms unfolding place_inv_def by blast
  then have "(\<exists>a. map_of (pl_addresses s) k = Some a) \<longleftrightarrow> k \<in> set (keys_of bs)"
    unfolding k extents_keys [symmetric] by blast
  then show "map_of (pl_addresses s) k = None \<longleftrightarrow> k \<notin> set (keys_of bs)" by (metis not_None_eq)
  have "\<forall>i. map_of (pl_sec_to_out s) k = Some i \<longleftrightarrow>
      i < length (pl_sections s) \<and> k \<in> contribution_key ` set (os_contributions (pl_sections s ! i))"
    using assms unfolding place_inv_def by blast
  then have "(\<exists>i. map_of (pl_sec_to_out s) k = Some i) \<longleftrightarrow> k \<in> set (keys_of bs)"
    unfolding k by (simp add: set_conv_nth [of "pl_sections s"]) blast
  then show "map_of (pl_sec_to_out s) k = None \<longleftrightarrow> k \<notin> set (keys_of bs)" by (metis not_None_eq)
qed

lemma keys_of_append: "keys_of (as @ bs) = keys_of as @ keys_of bs"
  by (simp add: keys_of_def)

lemma keys_of_prefix: "distinct (keys_of (as @ bs @ cs)) \<Longrightarrow> distinct (keys_of (as @ bs))"
  unfolding append_assoc [symmetric] keys_of_append [of "as @ bs"] by simp

lemma keys_of_snoc: "keys_of (bs @ [b]) = keys_of bs @ map contribution_key (bd_contributions b)"
  by (simp add: keys_of_def)

lemma place_builder_inv:
  assumes inv: "place_inv base bs s" and al: "is_power_of_two (bd_align b)"
    and room: "unat (pl_va s) + builder_room b < 2 ^ 64" and keys: "distinct (keys_of (bs @ [b]))"
  shows "place_inv base (bs @ [b]) (place_builder base b s) \<and>
    unat (pl_va s) \<le> unat (pl_va (place_builder base b s)) \<and>
    unat (pl_va (place_builder base b s)) \<le> unat (pl_va s) + builder_room b"
proof -
  let ?a = "align_up (pl_va s) (bd_align b)"
  let ?x = "output_of base ?a b"
  let ?s' = "place_builder base b s"
  have a: "unat (pl_va s) \<le> unat ?a" "unat ?a < unat (pl_va s) + unat (bd_align b)" "unat (bd_align b) dvd unat ?a"
    using align_up_spec [OF al, of "pl_va s"] room by (auto simp: builder_room_def dvd_eq_mod_eq_0)
  have va: "pl_va ?s' = ?a + bd_size b" "unat (?a + bd_size b) = unat ?a + unat (bd_size b)"
    using a room unat_add_no_wrap [of ?a "bd_size b"] by (simp_all add: place_builder_def Let_def builder_room_def)
  have secs: "pl_sections ?s' = pl_sections s @ [?x]" by (simp add: place_builder_def Let_def)
  have x: "os_sh_addr ?x = ?a" "os_sh_size ?x = bd_size b" "os_sh_addralign ?x = bd_align b" "os_sh_offset ?x = ?a - base"
    "os_contributions ?x = bd_contributions b" "same_section b ?x"
    by (simp_all add: output_of_def same_section_def)
  have below: "\<forall>y \<in> set (pl_sections s). unat (os_sh_addr y) + unat (os_sh_size y) \<le> unat ?a"
    using inv a(1) unfolding place_inv_def by (meson order_trans)
  have dk: "distinct (map contribution_key (bd_contributions b))"
      "\<forall>c \<in> set (bd_contributions b). contribution_key c \<notin> set (keys_of bs)"
    using keys by (auto simp: keys_of_snoc)
  have addr: "map_of (pl_addresses ?s') k = Some v \<longleftrightarrow> (\<exists>n. (k, v, n) \<in> set (extents (pl_sections ?s')))" for k v
  proof -
    have old: "map_of (pl_addresses s) k = Some v \<longleftrightarrow> (\<exists>n. (k, v, n) \<in> set (extents (pl_sections s)))"
      using inv unfolding place_inv_def by blast
    have fresh: "k \<in> contribution_key ` set (bd_contributions b) \<Longrightarrow> map_of (pl_addresses s) k = None"
      unfolding place_inv_keys(1) [OF inv] using dk(2) by auto
    have "map_of (pl_addresses ?s') k = Some v \<longleftrightarrow>
        (\<exists>c \<in> set (bd_contributions b). contribution_key c = k \<and> ?a + con_offset c = v) \<or>
        (k \<notin> contribution_key ` set (bd_contributions b) \<and> map_of (pl_addresses s) k = Some v)"
      by (simp add: place_builder_def Let_def fold_update_map_of [OF dk(1)] del: map_of_eq_Some_iff)
    also have "\<dots> \<longleftrightarrow> (\<exists>n. (k, v, n) \<in> set (section_extents ?x)) \<or> (\<exists>n. (k, v, n) \<in> set (extents (pl_sections s)))"
      using old fresh by (auto simp: section_extents_def x)
    finally show ?thesis by (auto simp: secs extents_snoc)
  qed
  have out: "map_of (pl_sec_to_out ?s') k = Some i \<longleftrightarrow>
      i < length (pl_sections ?s') \<and> k \<in> contribution_key ` set (os_contributions (pl_sections ?s' ! i))" for k i
  proof -
    have old: "map_of (pl_sec_to_out s) k = Some i \<longleftrightarrow>
        i < length (pl_sections s) \<and> k \<in> contribution_key ` set (os_contributions (pl_sections s ! i))"
      using inv unfolding place_inv_def by blast
    have fresh: "k \<in> contribution_key ` set (bd_contributions b) \<Longrightarrow> map_of (pl_sec_to_out s) k = None"
      unfolding place_inv_keys(2) [OF inv] using dk(2) by auto
    have "map_of (pl_sec_to_out ?s') k = Some i \<longleftrightarrow>
        (\<exists>c \<in> set (bd_contributions b). contribution_key c = k \<and> length (pl_sections s) = i) \<or>
        (k \<notin> contribution_key ` set (bd_contributions b) \<and> map_of (pl_sec_to_out s) k = Some i)"
      by (simp add: place_builder_def Let_def fold_update_map_of [OF dk(1)] del: map_of_eq_Some_iff)
    then show ?thesis
      using old fresh by (cases "i = length (pl_sections s)") (auto simp: secs nth_append x(5))
  qed
  have "place_inv base (bs @ [b]) ?s'"
    unfolding place_inv_def
  proof (intro conjI allI)
    show "list_all2 same_section (bs @ [b]) (pl_sections ?s')"
      using inv x(6) by (simp add: secs place_inv_def list_all2_appendI)
    show "sections_apart (pl_sections ?s')"
      using inv below by (simp add: secs sections_apart_def sorted_wrt_append place_inv_def x)
    show "\<forall>y \<in> set (pl_sections ?s'). unat (os_sh_addr y) + unat (os_sh_size y) \<le> unat (pl_va ?s') \<and>
        unat (os_sh_addralign y) dvd unat (os_sh_addr y) \<and> os_sh_offset y = os_sh_addr y - base"
      using inv below a(3) by (auto simp: secs place_inv_def va x)
  qed (fact addr out)+
  then show ?thesis using a va room by (simp add: builder_room_def)
qed

lemma place_inv_run:
  assumes "place_inv base pre s" "list_all (\<lambda>b. is_power_of_two (bd_align b)) bs"
    "unat (pl_va s) + sum_list (map builder_room bs) < 2 ^ 64" "distinct (keys_of (pre @ bs))"
  shows "place_inv base (pre @ bs) (place base bs s) \<and> unat (pl_va s) \<le> unat (pl_va (place base bs s)) \<and>
    unat (pl_va (place base bs s)) \<le> unat (pl_va s) + sum_list (map builder_room bs)"
  using assms
proof (induction bs arbitrary: pre s)
  case Nil
  then show ?case by (simp add: place_def)
next
  case (Cons b bs)
  let ?s = "place_builder base b s"
  have "distinct (keys_of (pre @ [b]))" using keys_of_prefix [of pre "[b]" bs] Cons.prems(4) by simp
  then have 1: "place_inv base (pre @ [b]) ?s" "unat (pl_va s) \<le> unat (pl_va ?s)"
      "unat (pl_va ?s) \<le> unat (pl_va s) + builder_room b"
    using place_builder_inv [OF Cons.prems(1), of b] Cons.prems by simp_all
  have "unat (pl_va ?s) + sum_list (map builder_room bs) < 2 ^ 64" using 1(3) Cons.prems(3) by simp
  then have "place_inv base ((pre @ [b]) @ bs) (place base bs ?s) \<and> unat (pl_va ?s) \<le> unat (pl_va (place base bs ?s)) \<and>
      unat (pl_va (place base bs ?s)) \<le> unat (pl_va ?s) + sum_list (map builder_room bs)"
    using Cons.IH [OF 1(1)] Cons.prems by simp
  moreover have "place base (b # bs) s = place base bs ?s" by (simp add: place_def)
  ultimately show ?case using 1 by simp
qed

lemma place_inv_page:
  assumes "place_inv base bs s" "is_power_of_two page" "unat (pl_va s) + unat page \<le> 2 ^ 64"
  shows "place_inv base bs (page_step page s) \<and> unat (pl_va s) \<le> unat (pl_va (page_step page s)) \<and>
    unat (pl_va (page_step page s)) \<le> unat (pl_va s) + unat page"
proof -
  have a: "unat (pl_va s) \<le> unat (align_up (pl_va s) page)" "unat (align_up (pl_va s) page) < unat (pl_va s) + unat page"
    using align_up_spec [OF assms(2,3)] by simp_all
  then have "\<forall>x \<in> set (pl_sections s). unat (os_sh_addr x) + unat (os_sh_size x) \<le> unat (align_up (pl_va s) page)"
    using assms(1) unfolding place_inv_def by (meson order_trans)
  then show ?thesis using assms(1) a by (simp add: place_inv_def page_step_def)
qed

text \<open>The builders in the order they are placed.\<close>

definition rw_order :: "section_plan \<Rightarrow> builder list \<times> builder list" where
  "rw_order sp = align_tls_block (order_rw (bk_rw_pb (sp_buckets sp))) (order_bss (bk_rw_bss (sp_buckets sp)))"

definition placed_builders :: "section_plan \<Rightarrow> builder list" where
  "placed_builders sp = bk_ro (sp_buckets sp) @ bk_rx (sp_buckets sp) @ fst (rw_order sp) @ snd (rw_order sp)"

definition placement_fits :: "layout_args \<Rightarrow> section_plan \<Rightarrow> bool" where
  "placement_fits la sp \<longleftrightarrow>
     unat (cfg_base_address (la_config la)) + 64 + 56 * plan_phnum la sp + 3 * unat (layout_page la) +
       sum_list (map builder_room (placed_builders sp)) < 2 ^ 64"

definition place_final :: "layout_args \<Rightarrow> section_plan \<Rightarrow> place_state" where
  "place_final la sp = fst (place_rw la sp (fst (place_rx la sp (place_ro la sp))))"

lemma pm_state_place_sections: "pm_state (place_sections la sp) = alias_folded (la_fold_map la) (place_final la sp)"
  by (simp add: place_sections_def place_final_def Let_def split: prod.split)

lemma phnum_le: "plan_phnum la sp \<le> 13"
  by (auto simp: plan_phnum_def n_dyn_segs_def split: option.split)

lemma unat_of_nat_u64: "n < 2 ^ 64 \<Longrightarrow> unat (of_nat n :: u64) = n"
  by (simp add: unat_of_nat)

lemma unat_header_size: "unat (header_size (plan_phnum la sp)) = 64 + 56 * plan_phnum la sp"
proof -
  define n where "n = plan_phnum la sp"
  have n: "n \<le> 13" by (simp add: n_def phnum_le)
  have "header_size n = of_nat (64 + 56 * n)" by (simp add: header_size_def)
  moreover have "unat (of_nat (64 + 56 * n) :: u64) = 64 + 56 * n"
    using n by (intro unat_of_nat_u64) simp
  ultimately show ?thesis by (simp add: n_def)
qed

lemma place_rw_empty: "\<not> plan_has_rw sp \<Longrightarrow> rw_order sp = ([], [])"
  by (simp add: plan_has_rw_def rw_order_def order_rw_def order_bss_def align_tls_block_def max_tls_align_def)

lemma place_final_inv:
  assumes page: "is_power_of_two (layout_page la)" and fits: "placement_fits la sp"
    and al: "list_all (\<lambda>b. is_power_of_two (bd_align b)) (placed_builders sp)"
    and keys: "distinct (keys_of (placed_builders sp))"
  shows "place_inv (cfg_base_address (la_config la)) (placed_builders sp) (place_final la sp)"
proof -
  let ?base = "cfg_base_address (la_config la)" and ?page = "layout_page la"
  let ?room = "\<lambda>bs. sum_list (map builder_room bs)"
  define ro rx rw bss where "ro = bk_ro (sp_buckets sp)" and "rx = bk_rx (sp_buckets sp)"
    and "rw = fst (rw_order sp)" and "bss = snd (rw_order sp)"
  note bs = ro_def rx_def rw_def bss_def
  have all: "placed_builders sp = ro @ rx @ rw @ bss" by (simp add: placed_builders_def bs)
  define h where "h = unat ?base + 64 + 56 * plan_phnum la sp"
  have f: "h + 3 * unat ?page + ?room ro + ?room rx + ?room rw + ?room bss < 2 ^ 64"
    using fits by (simp add: placement_fits_def all h_def)
  have k: "distinct (keys_of (ro @ rx @ rw @ bss))" using keys by (simp add: all)
  then have ks: "distinct (keys_of ([] @ ro))" "distinct (keys_of (ro @ rx))"
    using keys_of_prefix [of "[]" ro "rx @ rw @ bss"] keys_of_prefix [of ro rx "rw @ bss"] by simp_all
  have al4: "list_all (\<lambda>b. is_power_of_two (bd_align b)) ro" "list_all (\<lambda>b. is_power_of_two (bd_align b)) rx"
      "list_all (\<lambda>b. is_power_of_two (bd_align b)) rw" "list_all (\<lambda>b. is_power_of_two (bd_align b)) bss"
    using al by (simp_all add: all)
  define s0 where "s0 = \<lparr>pl_va = ?base + header_size (plan_phnum la sp), pl_sections = [], pl_addresses = [], pl_sec_to_out = []\<rparr>"
  have va0: "unat (pl_va s0) = h"
    using f by (simp add: s0_def h_def unat_add_no_wrap unat_header_size)
  have i0: "place_inv ?base [] s0" by (simp add: place_inv_def s0_def sections_apart_def extents_def)
  define s1 where "s1 = place ?base ro s0"
  have s1: "place_inv ?base ro s1" "unat (pl_va s1) \<le> h + ?room ro"
    using place_inv_run [OF i0 al4(1) _ ks(1)] va0 f by (simp_all add: s1_def)
  define s2 where "s2 = fst (place_rx la sp s1)"
  have s2: "place_inv ?base (ro @ rx) s2" "unat (pl_va s2) \<le> h + ?room ro + unat ?page + ?room rx"
  proof -
    have "place_inv ?base (ro @ rx) s2 \<and> unat (pl_va s2) \<le> h + ?room ro + unat ?page + ?room rx"
    proof (cases "plan_has_rx sp")
      case True
      have p: "place_inv ?base ro (page_step ?page s1)" "unat (pl_va (page_step ?page s1)) \<le> unat (pl_va s1) + unat ?page"
        using place_inv_page [OF s1(1) page] s1(2) f by simp_all
      have "s2 = place ?base rx (page_step ?page s1)" using True by (simp add: s2_def place_rx_def Let_def rx_def)
      then show ?thesis
        using place_inv_run [OF p(1) al4(2) _ ks(2)] p(2) s1(2) f by simp
    next
      case False
      then show ?thesis using s1 by (simp add: s2_def place_rx_def plan_has_rx_def rx_def)
    qed
    then show "place_inv ?base (ro @ rx) s2" "unat (pl_va s2) \<le> h + ?room ro + unat ?page + ?room rx" by simp_all
  qed
  have "place_inv ?base ((ro @ rx) @ rw @ bss) (fst (place_rw la sp s2))"
  proof (cases "plan_has_rw sp")
    case True
    define a b where "a = takeWhile (\<lambda>b. is_relro (bd_name b)) rw" and "b = dropWhile (\<lambda>b. is_relro (bd_name b)) rw"
    have ab: "rw = a @ b" by (simp add: a_def b_def)
    have al2: "list_all (\<lambda>b. is_power_of_two (bd_align b)) a" "list_all (\<lambda>b. is_power_of_two (bd_align b)) b"
      using al4(3) by (simp_all add: ab)
    have kt: "distinct (keys_of ((ro @ rx) @ a))" "distinct (keys_of (((ro @ rx) @ a) @ b))"
        "distinct (keys_of ((((ro @ rx) @ a) @ b) @ bss))"
      using k keys_of_prefix [of "ro @ rx" a "b @ bss"] keys_of_prefix [of "ro @ rx @ a" b bss] by (simp_all add: ab)
    define t1 where "t1 = page_step ?page s2"
    have t1: "place_inv ?base (ro @ rx) t1" "unat (pl_va t1) \<le> unat (pl_va s2) + unat ?page"
      using place_inv_page [OF s2(1) page] s2(2) f by (simp_all add: t1_def)
    define t2 where "t2 = place ?base a t1"
    have t2: "place_inv ?base ((ro @ rx) @ a) t2" "unat (pl_va t2) \<le> unat (pl_va t1) + ?room a"
      using place_inv_run [OF t1(1) al2(1) _ kt(1)] t1(2) s2(2) f by (simp_all add: t2_def ab)
    define t3 where "t3 = (if b \<noteq> [] \<or> bss \<noteq> [] then page_step ?page t2 else t2)"
    have t3: "place_inv ?base ((ro @ rx) @ a) t3" "unat (pl_va t3) \<le> unat (pl_va t2) + unat ?page"
      using place_inv_page [OF t2(1) page] t2 t1(2) s2(2) f by (simp_all add: t3_def ab)
    define t4 where "t4 = place ?base b t3"
    have t4: "place_inv ?base (((ro @ rx) @ a) @ b) t4" "unat (pl_va t4) \<le> unat (pl_va t3) + ?room b"
      using place_inv_run [OF t3(1) al2(2) _ kt(2)] t3(2) t2(2) t1(2) s2(2) f by (simp_all add: t4_def ab)
    have "place_inv ?base ((((ro @ rx) @ a) @ b) @ bss) (place ?base bss t4)"
      using place_inv_run [OF t4(1) al4(4) _ kt(3)] t4(2) t3(2) t2(2) t1(2) s2(2) f by (simp add: ab)
    moreover have "fst (place_rw la sp s2) = place ?base bss t4"
      using True by (simp add: place_rw_def Let_def rw_order_def [symmetric] t4_def t3_def t2_def t1_def a_def b_def rw_def bss_def
          split: prod.split)
    ultimately show ?thesis by (simp add: ab)
  next
    case False
    then show ?thesis using s2(1) place_rw_empty [OF False] by (simp add: place_rw_def rw_def bss_def)
  qed
  moreover have "place_final la sp = fst (place_rw la sp s2)"
    by (simp add: place_final_def s2_def s1_def place_ro_def s0_def ro_def Let_def)
  ultimately show ?thesis by (simp add: all)
qed

section \<open>From builders to placed builders\<close>

text \<open>The same section, its alignment at most raised.\<close>

definition raised :: "builder \<Rightarrow> builder \<Rightarrow> bool" where
  "raised b b' \<longleftrightarrow> bd_name b' = bd_name b \<and> bd_contributions b' = bd_contributions b \<and> bd_size b' = bd_size b \<and>
     unat (bd_align b) dvd unat (bd_align b') \<and> is_power_of_two (bd_align b')"

lemma raised_refl: "list_all (\<lambda>b. is_power_of_two (bd_align b)) bs \<Longrightarrow> list_all2 raised bs bs"
  by (induction bs) (auto simp: raised_def)

lemma raised_first:
  "is_power_of_two a \<Longrightarrow> list_all (\<lambda>b. is_power_of_two (bd_align b)) bs \<Longrightarrow> list_all2 raised bs (raise_first P a bs)"
  by (induction bs) (auto simp: raised_def pow2_max_dvd raised_refl)

lemma max_tls_align_pow2:
  assumes "list_all (\<lambda>b. is_power_of_two (bd_align b)) (rw @ bss)"
  shows "is_power_of_two (max_tls_align rw bss)"
proof -
  have run: "is_power_of_two (fold (\<lambda>b. max (bd_align b)) bs a)"
    if "is_power_of_two a" "list_all (\<lambda>b. is_power_of_two (bd_align b)) bs" for bs a
    using that by (induction bs arbitrary: a) (auto simp: pow2_max_dvd)
  have l: "list_all (\<lambda>b. is_power_of_two (bd_align b)) (filter is_tls_builder (rw @ bss))"
    using assms by (auto simp: list_all_iff)
  show ?thesis
  proof (cases "filter is_tls_builder (rw @ bss)")
    case Nil
    then show ?thesis by (simp add: max_tls_align_def)
  next
    case (Cons b bs)
    then show ?thesis using l run [of "bd_align b" bs] by (simp add: max_tls_align_def)
  qed
qed

lemma align_tls_block_raised:
  assumes "list_all (\<lambda>b. is_power_of_two (bd_align b)) (rw @ bss)" "align_tls_block rw bss = (rw', bss')"
  shows "list_all2 raised (rw @ bss) (rw' @ bss')"
proof -
  let ?a = "max_tls_align rw bss"
  have a: "is_power_of_two ?a" by (rule max_tls_align_pow2 [OF assms(1)])
  have r: "list_all2 raised rw rw" "list_all2 raised bss bss" using assms(1) by (simp_all add: raised_refl)
  have "list_all2 raised (rev rw) (raise_first (\<lambda>b. bd_kind b = Tdata) ?a (rev rw))"
    using assms(1) by (intro raised_first [OF a]) (simp add: list_all_iff)
  then have "list_all2 raised rw (rev (raise_first (\<lambda>b. bd_kind b = Tdata) ?a (rev rw)))"
    using list_all2_rev [of raised "rev rw"] by simp
  moreover have "list_all2 raised bss (raise_first (\<lambda>b. bd_kind b = Tbss) ?a bss)"
    using assms(1) by (intro raised_first [OF a]) simp
  ultimately show ?thesis
    using assms(2) r by (auto simp: align_tls_block_def Let_def list_all2_appendI split: if_splits)
qed

lemma placed_builders_raised:
  assumes "list_all (\<lambda>b. is_power_of_two (bd_align b)) (all_builders (sp_buckets sp))"
  obtains qs where "mset qs = mset (all_builders (sp_buckets sp))" "list_all2 raised qs (placed_builders sp)"
proof -
  let ?rw = "order_rw (bk_rw_pb (sp_buckets sp))" and ?bss = "order_bss (bk_rw_bss (sp_buckets sp))"
  have al: "list_all (\<lambda>b. is_power_of_two (bd_align b)) (bk_ro (sp_buckets sp))"
      "list_all (\<lambda>b. is_power_of_two (bd_align b)) (bk_rx (sp_buckets sp))"
      "list_all (\<lambda>b. is_power_of_two (bd_align b)) (?rw @ ?bss)"
    using assms by (simp_all add: all_builders_def order_rw_def order_bss_def list_all_iff)
  obtain rw' bss' where r: "rw_order sp = (rw', bss')" by fastforce
  then have "list_all2 raised (?rw @ ?bss) (rw' @ bss')"
    using align_tls_block_raised [OF al(3)] by (simp add: rw_order_def)
  then have "list_all2 raised (bk_ro (sp_buckets sp) @ bk_rx (sp_buckets sp) @ ?rw @ ?bss) (placed_builders sp)"
    using al(1,2) by (simp add: placed_builders_def r list_all2_appendI raised_refl)
  then show ?thesis by (rule that [rotated]) (simp add: all_builders_def order_rw_def order_bss_def)
qed

section \<open>Extents\<close>

definition contributions_inside :: "output_section \<Rightarrow> bool" where
  "contributions_inside x \<longleftrightarrow>
     sorted_wrt (\<lambda>c d. unat (con_offset c) + unat (con_size c) \<le> unat (con_offset d)) (os_contributions x) \<and>
     (\<forall>c \<in> set (os_contributions x). unat (con_offset c) + unat (con_size c) \<le> unat (os_sh_size x)) \<and>
     unat (os_sh_addr x) + unat (os_sh_size x) < 2 ^ 64"

definition extent_before :: "sec_key \<times> u64 \<times> u64 \<Rightarrow> sec_key \<times> u64 \<times> u64 \<Rightarrow> bool" where
  "extent_before e f \<longleftrightarrow> unat (fst (snd e)) + unat (snd (snd e)) \<le> unat (fst (snd f))"

lemma section_extents_inside:
  assumes "contributions_inside x" "(k, a, n) \<in> set (section_extents x)"
  shows "unat (os_sh_addr x) \<le> unat a" "unat a + unat n \<le> unat (os_sh_addr x) + unat (os_sh_size x)"
proof -
  obtain c where c: "c \<in> set (os_contributions x)" "a = os_sh_addr x + con_offset c" "n = con_size c"
    using assms(2) by (auto simp: section_extents_def)
  then have "unat (con_offset c) + unat (con_size c) \<le> unat (os_sh_size x)"
      "unat (os_sh_addr x) + unat (os_sh_size x) < 2 ^ 64"
    using assms(1) by (simp_all add: contributions_inside_def)
  then show "unat (os_sh_addr x) \<le> unat a" "unat a + unat n \<le> unat (os_sh_addr x) + unat (os_sh_size x)"
    using unat_add_no_wrap [of "os_sh_addr x" "con_offset c"] c by simp_all
qed

lemma section_extents_sorted:
  assumes "contributions_inside x"
  shows "sorted_wrt extent_before (section_extents x)"
proof -
  have u: "unat (os_sh_addr x + con_offset c) = unat (os_sh_addr x) + unat (con_offset c)"
    if "c \<in> set (os_contributions x)" for c
    using assms that by (intro unat_add_no_wrap) (auto simp: contributions_inside_def)
  have "sorted_wrt (\<lambda>c d. unat (con_offset c) + unat (con_size c) \<le> unat (con_offset d)) (os_contributions x)"
    using assms by (simp add: contributions_inside_def)
  then show ?thesis
    unfolding section_extents_def sorted_wrt_map
    by (rule sorted_wrt_mono_rel [rotated]) (simp add: extent_before_def u)
qed

lemma extents_sorted:
  "sections_apart xs \<Longrightarrow> list_all contributions_inside xs \<Longrightarrow> sorted_wrt extent_before (extents xs)"
proof (induction xs)
  case Nil
  then show ?case by (simp add: extents_def)
next
  case (Cons x xs)
  have "extent_before e f" if e: "e \<in> set (section_extents x)" and f: "f \<in> set (extents xs)" for e f
  proof -
    obtain y where y: "y \<in> set xs" "f \<in> set (section_extents y)" using f by (auto simp: extents_def)
    obtain k a n k' a' n' where ef: "e = (k, a, n)" "f = (k', a', n')" by (cases e, cases f) auto
    have "unat a + unat n \<le> unat (os_sh_addr x) + unat (os_sh_size x)"
      using section_extents_inside(2) e Cons.prems(2) by (simp add: ef)
    also have "\<dots> \<le> unat (os_sh_addr y)" using Cons.prems(1) y(1) by (simp add: sections_apart_def)
    also have "\<dots> \<le> unat a'"
      using section_extents_inside(1) [of y] y Cons.prems(2) by (auto simp: ef list_all_iff)
    finally show ?thesis by (simp add: extent_before_def ef)
  qed
  then show ?case
    using Cons section_extents_sorted [of x] by (simp add: extents_def sorted_wrt_append sections_apart_def)
qed

lemma sorted_wrt_apart:
  "sorted_wrt R xs \<Longrightarrow> x \<in> set xs \<Longrightarrow> y \<in> set xs \<Longrightarrow> x \<noteq> y \<Longrightarrow> R x y \<or> R y x"
  by (induction xs) auto

section \<open>Every selected section has its place\<close>

definition input_key :: "placed_input \<Rightarrow> sec_key" where
  "input_key y = (pi_object y, sec_index (pi_section y))"

lemma concat_filter_perm:
  "distinct ns \<Longrightarrow> (\<forall>y \<in> set ys. f y \<in> set ns) \<Longrightarrow> mset (concat (map (\<lambda>n. filter (\<lambda>y. f y = n) ys) ns)) = mset ys"
proof (induction ns arbitrary: ys)
  case (Cons n ns)
  have f: "filter (\<lambda>y. f y = m) ys = filter (\<lambda>y. f y = m) (filter (\<lambda>y. f y \<noteq> n) ys)" if "m \<in> set ns" for m
    using that Cons.prems(1) by (auto intro!: filter_cong)
  have e: "map (\<lambda>m. filter (\<lambda>y. f y = m) ys) ns = map (\<lambda>m. filter (\<lambda>y. f y = m) (filter (\<lambda>y. f y \<noteq> n) ys)) ns"
    using f by (intro map_cong) auto
  have "mset (concat (map (\<lambda>m. filter (\<lambda>y. f y = m) ys) ns)) = mset (filter (\<lambda>y. f y \<noteq> n) ys)"
    unfolding e using Cons.prems by (intro Cons.IH) auto
  then show ?case by simp
qed simp

lemma keys_of_mset: "mset as = mset bs \<Longrightarrow> mset (keys_of as) = mset (keys_of bs)"
proof -
  have "mset (keys_of xs) = (\<Sum>b \<in># mset xs. mset (map contribution_key (bd_contributions b)))" for xs
    by (induction xs) (simp_all add: keys_of_def)
  then show "mset as = mset bs \<Longrightarrow> mset (keys_of as) = mset (keys_of bs)" by simp
qed

lemma keys_of_grouped:
  assumes "builders_ok script ys bs"
  shows "mset (keys_of bs) = mset (map input_key ys)"
proof -
  have k: "map contribution_key (bd_contributions b) =
      map input_key (filter (\<lambda>y. placed_out script y = bd_name b) ys)" if "b \<in> set bs" for b
  proof -
    have "map con_key (bd_contributions b) = map placed_key (filter (\<lambda>y. placed_out script y = bd_name b) ys)"
      using assms that by (simp add: builders_ok_def packed_def)
    then have "map (\<lambda>x. (fst x, fst (snd x))) (map con_key (bd_contributions b)) =
        map (\<lambda>x. (fst x, fst (snd x))) (map placed_key (filter (\<lambda>y. placed_out script y = bd_name b) ys))"
      by (rule arg_cong)
    then show ?thesis by (simp add: comp_def con_key_def placed_key_def contribution_key_def [abs_def] input_key_def [abs_def])
  qed
  have "keys_of bs = concat (map (\<lambda>b. map contribution_key (bd_contributions b)) bs)"
    by (simp add: keys_of_def map_concat comp_def)
  also have "\<dots> = concat (map (\<lambda>b. map input_key (filter (\<lambda>y. placed_out script y = bd_name b) ys)) bs)"
    using k by (intro arg_cong [of _ _ concat] map_cong) auto
  also have "\<dots> = map input_key (concat (map (\<lambda>n. filter (\<lambda>y. placed_out script y = n) ys) (map bd_name bs)))"
    by (simp add: map_concat comp_def)
  also have "mset \<dots> = image_mset input_key (mset ys)"
    using assms by (simp only: mset_map) (subst concat_filter_perm, auto simp: builders_ok_def)
  finally show ?thesis by simp
qed

lemma keys_of_synthetic: "list_all synthetic_builder new \<Longrightarrow> keys_of new = []"
  by (induction new) (auto simp: keys_of_def synthetic_builder_def)

lemma keys_of_raised: "list_all2 raised as bs \<Longrightarrow> keys_of bs = keys_of as"
  by (induction rule: list_all2_induct) (auto simp: keys_of_def raised_def)

text \<open>What the pieces give for one placed section.\<close>

definition plan_ok :: "layout_args \<Rightarrow> dyn_prebuild \<Rightarrow> section_plan \<Rightarrow> bool" where
  "plan_ok la p sp \<longleftrightarrow>
     plan_sections la p = Ok sp \<and> commons_aligned (la_symbols la) \<and> is_power_of_two (layout_page la) \<and>
     placement_fits la sp \<and> sum_list (map placed_room (selected_sections la)) < 2 ^ 64 \<and>
     distinct (map input_key (selected_sections la))"

lemma plan_ok_grouped:
  assumes "plan_ok la p sp"
  obtains bs new where "builders_ok (cfg_script (la_config la)) (selected_sections la) bs"
    "mset (all_builders (sp_buckets sp)) = mset bs + mset new" "list_all synthetic_builder new"
proof -
  obtain bs new where b: "group_input_sections la = Ok bs"
      "mset (all_builders (sp_buckets sp)) = mset bs + mset new" "list_all synthetic_builder new"
    using assms plan_sections_builders [of la p sp] unfolding plan_ok_def by blast
  have "builders_ok (cfg_script (la_config la)) (selected_sections la) bs"
    using assms b(1) by (auto simp: plan_ok_def group_input_sections_def group_sections_Ok intro: builders_ok_fold)
  then show ?thesis using that b by blast
qed

lemma builders_aligned:
  assumes "builders_ok script ys bs" "list_all synthetic_builder new" "mset as = mset bs + mset new"
  shows "list_all (\<lambda>b. is_power_of_two (bd_align b)) as"
proof -
  have "set as = set bs \<union> set new" using assms(3) by (metis set_append mset_append set_mset_mset)
  moreover have "\<forall>b \<in> set bs. is_power_of_two (bd_align b)" using assms(1) by (simp add: builders_ok_def packed_def)
  moreover have "\<forall>b \<in> set new. is_power_of_two (bd_align b)" using assms(2) by (simp add: list_all_iff synthetic_builder_def)
  ultimately show ?thesis by (auto simp: list_all_iff)
qed

lemma place_final_ok:
  assumes ok: "plan_ok la p sp"
  shows "place_inv (cfg_base_address (la_config la)) (placed_builders sp) (place_final la sp)"
    "list_all contributions_inside (pl_sections (place_final la sp))"
    "\<And>y. y \<in> set (selected_sections la) \<Longrightarrow> \<exists>x c. x \<in> set (pl_sections (place_final la sp)) \<and> c \<in> set (os_contributions x) \<and>
       con_key c = placed_key y \<and> unat (placed_align y) dvd unat (con_offset c) \<and>
       unat (placed_align y) dvd unat (os_sh_addralign x)"
proof -
  let ?script = "cfg_script (la_config la)" and ?s = "place_final la sp"
  obtain bs new where g: "builders_ok ?script (selected_sections la) bs"
      "mset (all_builders (sp_buckets sp)) = mset bs + mset new" "list_all synthetic_builder new"
    by (rule plan_ok_grouped [OF ok])
  have al: "list_all (\<lambda>b. is_power_of_two (bd_align b)) (all_builders (sp_buckets sp))"
    by (rule builders_aligned [OF g(1) g(3) g(2)])
  obtain qs where q: "mset qs = mset (all_builders (sp_buckets sp))" "list_all2 raised qs (placed_builders sp)"
    by (rule placed_builders_raised [OF al])
  have qset: "set qs = set bs \<union> set new" using q(1) g(2) by (metis set_append mset_append set_mset_mset)
  have "mset (keys_of (placed_builders sp)) = mset (keys_of (bs @ new))"
    using keys_of_mset [of qs "bs @ new"] q g(2) by (simp add: keys_of_raised [OF q(2)])
  then have "mset (keys_of (placed_builders sp)) = mset (map input_key (selected_sections la))"
    using keys_of_grouped [OF g(1)] keys_of_synthetic [OF g(3)] by (simp add: keys_of_append)
  then have keys: "distinct (keys_of (placed_builders sp))"
    using ok unfolding plan_ok_def by (metis mset_eq_imp_distinct_iff)
  have pal: "list_all (\<lambda>b. is_power_of_two (bd_align b)) (placed_builders sp)"
    using q(2) by (auto simp: list_all_iff raised_def list_all2_conv_all_nth in_set_conv_nth)
  show inv: "place_inv (cfg_base_address (la_config la)) (placed_builders sp) ?s"
    using ok keys pal by (intro place_final_inv) (auto simp: plan_ok_def)
  have same: "list_all2 same_section (placed_builders sp) (pl_sections ?s)" using inv by (simp add: place_inv_def)
  have both: "list_all2 (\<lambda>b x. \<exists>b'. raised b b' \<and> same_section b' x) qs (pl_sections ?s)"
    by (rule list_all2_trans [OF _ q(2) same]) blast
  show "list_all contributions_inside (pl_sections ?s)"
    unfolding list_all_iff
  proof
    fix x
    assume x: "x \<in> set (pl_sections ?s)"
    then obtain i where i: "i < length (pl_sections ?s)" "x = pl_sections ?s ! i" by (auto simp: in_set_conv_nth)
    have b: "qs ! i \<in> set qs" "os_contributions x = bd_contributions (qs ! i)" "os_sh_size x = bd_size (qs ! i)"
      using list_all2_nthD2 [OF both i(1)] list_all2_lengthD [OF both] i by (auto simp: raised_def same_section_def)
    define b where "b = qs ! i"
    note b = b [folded b_def]
    have "sorted_wrt (\<lambda>c d. unat (con_offset c) + unat (con_size c) \<le> unat (con_offset d)) (bd_contributions b) \<and>
        (\<forall>c \<in> set (bd_contributions b). unat (con_offset c) + unat (con_size c) \<le> unat (bd_size b))"
      using b(1) g(1,3) by (auto simp: qset builders_ok_def packed_def list_all_iff synthetic_builder_def)
    moreover have "unat (os_sh_addr x) + unat (os_sh_size x) \<le> unat (pl_va ?s)"
      using inv x by (simp add: place_inv_def)
    then have "unat (os_sh_addr x) + unat (os_sh_size x) < 2 ^ 64"
      by (rule le_less_trans) (rule order.strict_trans2 [OF unsigned_less], simp)
    ultimately show "contributions_inside x" by (simp add: contributions_inside_def b)
  qed
  show "\<exists>x c. x \<in> set (pl_sections ?s) \<and> c \<in> set (os_contributions x) \<and> con_key c = placed_key y \<and>
      unat (placed_align y) dvd unat (con_offset c) \<and> unat (placed_align y) dvd unat (os_sh_addralign x)"
    if y: "y \<in> set (selected_sections la)" for y
  proof -
    obtain b where b: "b \<in> set bs" "bd_name b = placed_out ?script y"
      using g(1) y unfolding builders_ok_def by (metis (no_types, lifting) image_iff)
    let ?zs = "filter (\<lambda>z. placed_out ?script z = bd_name b) (selected_sections la)"
    have pk: "packed ?zs b" using g(1) b(1) by (simp add: builders_ok_def)
    have "y \<in> set ?zs" using y b(2) by simp
    then obtain j where j: "j < length ?zs" "?zs ! j = y" by (metis in_set_conv_nth)
    have len: "length (bd_contributions b) = length ?zs" using pk unfolding packed_def by (metis length_map)
    have keq: "map con_key (bd_contributions b) = map placed_key ?zs" and
      dv: "list_all2 (\<lambda>y c. unat (placed_align y) dvd unat (con_offset c)) ?zs (bd_contributions b)" and
      da: "\<forall>y \<in> set ?zs. unat (placed_align y) dvd unat (bd_align b)"
      using pk unfolding packed_def by blast+
    have c1: "con_key (bd_contributions b ! j) = placed_key y"
      using arg_cong [OF keq, of "\<lambda>xs. xs ! j"] j len by (simp del: nth_map add: nth_map)
    have c2: "unat (placed_align y) dvd unat (con_offset (bd_contributions b ! j))"
      using list_all2_nthD [OF dv j(1)] j(2) by simp
    have c3: "bd_contributions b ! j \<in> set (bd_contributions b)" using j(1) len by simp
    have c4: "unat (placed_align y) dvd unat (bd_align b)" using da \<open>y \<in> set ?zs\<close> by blast
    note c = c1 c2 c3 c4
    obtain i where i: "i < length qs" "qs ! i = b" using b(1) qset by (metis UnI1 in_set_conv_nth)
    then obtain b' where b': "raised b b'" "same_section b' (pl_sections ?s ! i)" "i < length (pl_sections ?s)"
      using both by (auto simp: list_all2_conv_all_nth)
    then show ?thesis
      using c by (intro exI [of _ "pl_sections ?s ! i"] exI [of _ "bd_contributions b ! j"])
        (auto simp: raised_def same_section_def intro: dvd_trans)
  qed
qed

lemma alias_folded_other:
  "k \<notin> fst ` set fm \<Longrightarrow> map_of (pl_addresses (alias_folded (Some fm) s)) k = map_of (pl_addresses s) k"
  "pl_sections (alias_folded fmo s) = pl_sections s"
proof -
  have "k \<notin> fst ` set fm \<Longrightarrow> map_of (pl_addresses (fold (\<lambda>(dup, canon) s.
            s\<lparr>pl_addresses := (case map_of (pl_addresses s) canon of
                 Some va \<Rightarrow> AList.update dup va (pl_addresses s) | None \<Rightarrow> pl_addresses s),
              pl_sec_to_out := (case map_of (pl_sec_to_out s) canon of
                 Some out \<Rightarrow> AList.update dup out (pl_sec_to_out s) | None \<Rightarrow> pl_sec_to_out s)\<rparr>) fm s)) k =
      map_of (pl_addresses s) k"
    by (induction fm arbitrary: s) (auto simp: update_conv' split: option.split simp del: map_of_eq_None_iff map_of_eq_Some_iff)
  then show "k \<notin> fst ` set fm \<Longrightarrow> map_of (pl_addresses (alias_folded (Some fm) s)) k = map_of (pl_addresses s) k"
    by (simp add: alias_folded_def)
  have "pl_sections (fold (\<lambda>(dup, canon) s.
            s\<lparr>pl_addresses := (case map_of (pl_addresses s) canon of
                 Some va \<Rightarrow> AList.update dup va (pl_addresses s) | None \<Rightarrow> pl_addresses s),
              pl_sec_to_out := (case map_of (pl_sec_to_out s) canon of
                 Some out \<Rightarrow> AList.update dup out (pl_sec_to_out s) | None \<Rightarrow> pl_sec_to_out s)\<rparr>) fm s) = pl_sections s" for fm
    by (induction fm arbitrary: s) auto
  then show "pl_sections (alias_folded fmo s) = pl_sections s" by (simp add: alias_folded_def split: option.split)
qed

lemma selected_not_folded:
  assumes "y \<in> set (selected_sections la)" "la_fold_map la = Some fm"
  shows "input_key y \<notin> fst ` set fm"
proof -
  have "section_selected la (pi_object y) (pi_section y)"
    using assms(1) by (auto simp: selected_sections_def)
  then have "map_of fm (input_key y) = None"
    using assms(2) unfolding section_selected_def input_key_def by (simp only: option.case)
  then show ?thesis by (simp only: map_of_eq_None_iff not_False_eq_True)
qed

lemma selected_address:
  assumes ok: "plan_ok la p sp" and y: "y \<in> set (selected_sections la)"
  shows "\<exists>a. map_of (pl_addresses (pm_state (place_sections la sp))) (input_key y) = Some a \<and>
      unat (placed_align y) dvd unat a \<and>
      (input_key y, a, sec_size (pi_section y)) \<in> set (extents (pl_sections (place_final la sp)))"
proof -
  let ?s = "place_final la sp"
  note inv = place_final_ok(1) [OF ok]
  obtain x c where xc: "x \<in> set (pl_sections ?s)" "c \<in> set (os_contributions x)" "con_key c = placed_key y"
      "unat (placed_align y) dvd unat (con_offset c)" "unat (placed_align y) dvd unat (os_sh_addralign x)"
    using place_final_ok(3) [OF ok y] by blast
  have k: "contribution_key c = input_key y" "con_size c = sec_size (pi_section y)"
    using xc(3) by (simp_all add: con_key_def placed_key_def contribution_key_def input_key_def)
  have "contributions_inside x" using place_final_ok(2) [OF ok] xc(1) by (simp add: list_all_iff)
  then have "unat (os_sh_addr x + con_offset c) = unat (os_sh_addr x) + unat (con_offset c)"
    using xc(2) by (intro unat_add_no_wrap) (auto simp: contributions_inside_def)
  moreover have "unat (os_sh_addralign x) dvd unat (os_sh_addr x)" using inv xc(1) by (simp add: place_inv_def)
  ultimately have dv: "unat (placed_align y) dvd unat (os_sh_addr x + con_offset c)"
    using dvd_add [OF dvd_trans [OF xc(5)] xc(4)] by simp
  have e: "(input_key y, os_sh_addr x + con_offset c, sec_size (pi_section y)) \<in> set (extents (pl_sections ?s))"
    using xc(1,2) k by (force simp: extents_def section_extents_def)
  then have "map_of (pl_addresses ?s) (input_key y) = Some (os_sh_addr x + con_offset c)"
    using inv unfolding place_inv_def by blast
  then have "map_of (pl_addresses (pm_state (place_sections la sp))) (input_key y) = Some (os_sh_addr x + con_offset c)"
    using alias_folded_other(1) [OF selected_not_folded [OF y]]
    by (cases "la_fold_map la") (simp_all add: pm_state_place_sections alias_folded_def)
  then show ?thesis using dv e by blast
qed

text \<open>The bytes two inputs occupy do not overlap.\<close>

definition apart :: "u64 \<Rightarrow> u64 \<Rightarrow> u64 \<Rightarrow> u64 \<Rightarrow> bool" where
  "apart a n b m \<longleftrightarrow> unat a + unat n \<le> unat b \<or> unat b + unat m \<le> unat a"

text \<open>C4: 
  Every section the filters keep is given an address that is a multiple of its alignment, and the address
  ranges of two different sections never overlap, whatever output sections and segments they went to (when
  the image fits the address space and the page size is a power of two).\<close>

theorem layout_sections_disjoint:
  assumes "plan_ok la p sp" "y \<in> set (selected_sections la)"
  shows "\<exists>a. map_of (pl_addresses (pm_state (place_sections la sp))) (input_key y) = Some a \<and>
      unat (placed_align y) dvd unat a \<and>
      (\<forall>z \<in> set (selected_sections la). z \<noteq> y \<longrightarrow>
        (\<exists>b. map_of (pl_addresses (pm_state (place_sections la sp))) (input_key z) = Some b \<and>
           apart a (sec_size (pi_section y)) b (sec_size (pi_section z))))"
proof -
  let ?E = "extents (pl_sections (place_final la sp))"
  have sorted: "sorted_wrt extent_before ?E"
    using place_final_ok(1,2) [OF assms(1)] by (intro extents_sorted) (simp_all add: place_inv_def)
  have inj: "inj_on input_key (set (selected_sections la))"
    using assms(1) by (simp add: plan_ok_def distinct_map)
  obtain a where a: "map_of (pl_addresses (pm_state (place_sections la sp))) (input_key y) = Some a"
      "unat (placed_align y) dvd unat a" "(input_key y, a, sec_size (pi_section y)) \<in> set ?E"
    using selected_address [OF assms] by blast
  have "\<exists>b. map_of (pl_addresses (pm_state (place_sections la sp))) (input_key z) = Some b \<and>
        apart a (sec_size (pi_section y)) b (sec_size (pi_section z))"
    if z: "z \<in> set (selected_sections la)" "z \<noteq> y" for z
  proof -
    obtain b where b: "map_of (pl_addresses (pm_state (place_sections la sp))) (input_key z) = Some b"
        "(input_key z, b, sec_size (pi_section z)) \<in> set ?E"
      using selected_address [OF assms(1) z(1)] by blast
    have "input_key y \<noteq> input_key z" using inj assms(2) z by (auto simp: inj_on_def)
    then have "extent_before (input_key y, a, sec_size (pi_section y)) (input_key z, b, sec_size (pi_section z)) \<or>
        extent_before (input_key z, b, sec_size (pi_section z)) (input_key y, a, sec_size (pi_section y))"
      using sorted_wrt_apart [OF sorted a(3) b(2)] by simp
    then show ?thesis using b(1) by (auto simp: extent_before_def apart_def)
  qed
  then show ?thesis using a(1,2) by blast
qed

text \<open>Subtracting a multiple of the page size keeps the place in the page, wrapped or not.\<close>

lemma minus_multiple_mod:
  fixes a b p :: u64
  assumes "p = 2 ^ k" "k < 64" "unat p dvd unat b"
  shows "unat (a - b) mod unat p = unat a mod unat p"
proof -
  have p: "uint p = 2 ^ k"
    unfolding assms(1) using assms(2) uint_2p [of k, where 'a = 64] by (simp add: word_gt_0)
  then have dv: "uint p dvd (2 :: int) ^ 64" unfolding p using assms(2) by (intro le_imp_power_dvd) simp
  have pb: "uint b mod uint p = 0" using assms(3) by (metis dvd_imp_mod_0 of_nat_dvd_iff uint_nat)
  have "uint (a - b) mod uint p = (uint a - uint b) mod uint p"
    using mod_mod_cancel [OF dv] by (simp add: uint_word_ariths)
  also have "\<dots> = uint a mod uint p" using pb by (metis diff_zero mod_diff_right_eq)
  finally show ?thesis by (metis nat_int of_nat_mod uint_nat)
qed

text \<open>C18: 
  When the alignment of every common symbol is a power of two (\<open>commons_aligned\<close>, a part of \<open>plan_ok\<close>; the code does
  not check it), the page size is one and the image fits the address space: the output sections follow each other
  without overlap, each at a multiple of its alignment and at the file offset that is its address minus the base.  When
  the base address is a multiple of the page size, address and offset agree modulo the page size.\<close>

theorem output_sections_apart:
  assumes "plan_ok la p sp"
  shows "sections_apart (pl_sections (pm_state (place_sections la sp))) \<and>
    (\<forall>x \<in> set (pl_sections (pm_state (place_sections la sp))).
      os_sh_offset x = os_sh_addr x - cfg_base_address (la_config la) \<and>
      unat (os_sh_addralign x) dvd unat (os_sh_addr x) \<and>
      (unat (layout_page la) dvd unat (cfg_base_address (la_config la)) \<longrightarrow>
         unat (os_sh_offset x) mod unat (layout_page la) = unat (os_sh_addr x) mod unat (layout_page la)))"
proof -
  have "is_power_of_two (layout_page la)" using assms by (simp add: plan_ok_def)
  then obtain k where k: "layout_page la = 2 ^ k" "k < 64" by (auto simp: is_power_of_two_def list_ex_iff)
  show ?thesis
    using place_final_ok(1) [OF assms] minus_multiple_mod [OF k]
    by (simp add: pm_state_place_sections alias_folded_other(2) place_inv_def)
qed

section \<open>Three sections placed\<close>

lemma plan_demo:
  "\<exists>sp. plan_ok group_demo prebuild_empty sp"
proof -
  obtain b where gb: "group_input_sections group_demo = Ok [b]" and b: "bd_perm b = Rx" "unat (bd_size b) = 21" "unat (bd_align b) = 16"
    by (rule that [OF group_demo_builders]) (simp_all add: new_builder_def code_section_def perm_of_def)
  have note0: "merge_gnu_property_notes (la_arena group_demo) (la_objects group_demo) = Ok None"
    by (simp add: merge_gnu_property_notes_def property_sections_def group_demo_def demo_args_def parsed_object_def code_section_def)
  have fdes: "link_fdes (la_arena group_demo) (la_objects group_demo) = Some 0"
    by (simp add: link_fdes_def eh_sections_def group_demo_def demo_args_def parsed_object_def code_section_def)
  have cfg: "la_config group_demo = config_default" "la_dynamic group_demo = None" "la_symbols group_demo = symbol_table_new"
      "la_got_syms group_demo = []" "la_tls group_demo = \<lparr>tg_gd = [], tg_ie = [], tg_desc = [], tg_ldm = False\<rparr>"
    by (simp_all add: group_demo_def demo_args_def)
  define k where "k = \<lparr>bk_ro = [], bk_rx = [b], bk_rw_pb = [], bk_rw_bss = []\<rparr>"
  have k1: "bucket_builders [b] = k" by (simp add: bucket_builders_def b k_def)
  have k2: "synth_got [] \<lparr>tg_gd = [], tg_ie = [], tg_desc = [], tg_ldm = False\<rparr> k = k"
    by (simp add: synth_got_def tls_got_byte_size_def)
  have al: "alloc_bss symbol_table_new None = \<lparr>ba_common = [], ba_copy = [], ba_size = 0, ba_align = 1\<rparr>"
    by (simp add: alloc_bss_def common_syms_def symbol_table_new_def map_filter_simps)
  have k3: "synth_bss \<lparr>ba_common = [], ba_copy = [], ba_size = 0, ba_align = 1\<rparr> k = k" by (simp add: synth_bss_def)
  have k4: "synth_eh_frame_hdr 0 (synth_notes [] False k) = k" by (simp add: synth_eh_frame_hdr_def synth_notes_def)
  have k5: "sort_buckets None k = k" by (simp add: sort_buckets_def sort_builders_by_script_def k_def)
  have dflt: "cfg_build_id config_default = False" "cfg_script config_default = None"
    by (simp_all add: config_default_def)
  define sp where "sp = \<lparr>sp_buckets = k, sp_bss = \<lparr>ba_common = [], ba_copy = [], ba_size = 0, ba_align = 1\<rparr>, sp_note = [],
    sp_n_fdes = 0\<rparr>"
  have sp: "plan_sections group_demo prebuild_empty = Ok sp"
    unfolding plan_sections_def gb note0 fdes cfg dflt outcome.case option.case prod.case Let_def k1 k2 al k3 k4 k5 sp_def ..
  have k: "sp_buckets sp = k" "sp_n_fdes sp = 0" by (simp_all add: sp_def)
  have page: "layout_page group_demo = 2 ^ 12" by (simp add: layout_page_def cfg config_default_def max_def word_le_nat_alt)
  have "is_power_of_two (2 ^ 12)" unfolding is_power_of_two_def list_ex_iff by (intro bexI [of _ 12] refl) simp
  then have "is_power_of_two (layout_page group_demo)" by (simp only: page)
  moreover have "placement_fits group_demo sp"
    using phnum_le [of group_demo sp]
    by (simp add: placement_fits_def page placed_builders_def k k_def b rw_order_def order_rw_def order_bss_def align_tls_block_def
        max_tls_align_def builder_room_def cfg config_default_def)
  moreover have "sum_list (map placed_room (selected_sections group_demo)) < 2 ^ 64"
    by (simp add: group_demo_selected placed_room_def placed_align_def section_align_def code_section_def)
  moreover have "distinct (map input_key (selected_sections group_demo))"
    by (simp add: group_demo_selected input_key_def)
  moreover have "commons_aligned (la_symbols group_demo)"
    by (simp add: commons_aligned_def common_syms_def cfg symbol_table_new_def map_filter_simps)
  ultimately show ?thesis using sp by (auto simp: plan_ok_def)
qed

theorem layout_sections_disjoint_witness:
  "\<exists>sp a b. map_of (pl_addresses (pm_state (place_sections group_demo sp))) (0, 1) = Some a \<and>
     map_of (pl_addresses (pm_state (place_sections group_demo sp))) (1, 1) = Some b \<and>
     4 dvd unat a \<and> apart a 10 b 5"
proof -
  obtain sp where ok: "plan_ok group_demo prebuild_empty sp" using plan_demo by blast
  let ?y = "\<lparr>pi_object = 0, pi_path = ''a.o'', pi_pos = 0, pi_section = code_section 1 ''.text.f'' 4 10\<rparr>"
  let ?z = "\<lparr>pi_object = 1, pi_path = ''b.o'', pi_pos = 0, pi_section = code_section 1 ''.text.h'' 16 5\<rparr>"
  have y: "?y \<in> set (selected_sections group_demo)" and z: "?z \<in> set (selected_sections group_demo)" "?z \<noteq> ?y"
    by (simp_all add: group_demo_selected)
  have f: "input_key ?y = (0, 1)" "input_key ?z = (1, 1)" "placed_align ?y = 4" "sec_size (pi_section ?y) = 10" "sec_size (pi_section ?z) = 5"
    by (simp_all add: input_key_def placed_align_def section_align_def code_section_def)
  obtain a where a: "map_of (pl_addresses (pm_state (place_sections group_demo sp))) (input_key ?y) = Some a"
      "unat (placed_align ?y) dvd unat a"
      "\<forall>z \<in> set (selected_sections group_demo). z \<noteq> ?y \<longrightarrow>
        (\<exists>b. map_of (pl_addresses (pm_state (place_sections group_demo sp))) (input_key z) = Some b \<and>
           apart a (sec_size (pi_section ?y)) b (sec_size (pi_section z)))"
    using layout_sections_disjoint [OF ok y] by blast
  from a(3) [THEN bspec, THEN mp, OF z(1) z(2)] obtain b
    where "map_of (pl_addresses (pm_state (place_sections group_demo sp))) (input_key ?z) = Some b"
      "apart a (sec_size (pi_section ?y)) b (sec_size (pi_section ?z))"
    by (elim exE conjE)
  then show ?thesis using a(1,2) unfolding f by auto
qed

theorem output_sections_apart_witness:
  "\<exists>sp. sections_apart (pl_sections (pm_state (place_sections group_demo sp))) \<and>
     list_all (\<lambda>x. unat (os_sh_offset x) mod unat (layout_page group_demo) = unat (os_sh_addr x) mod unat (layout_page group_demo))
       (pl_sections (pm_state (place_sections group_demo sp)))"
proof -
  obtain sp where ok: "plan_ok group_demo prebuild_empty sp" using plan_demo by blast
  have "layout_page group_demo = 4096" "cfg_base_address (la_config group_demo) = 0x400000"
    by (simp_all add: layout_page_def group_demo_def demo_args_def config_default_def max_def word_le_nat_alt)
  then have "unat (layout_page group_demo) dvd unat (cfg_base_address (la_config group_demo))" by simp
  then show ?thesis using output_sections_apart [OF ok] by (auto simp: list_all_iff)
qed

end
