(* ===== verification/Layout_Meta.thy ===== *)
theory Layout_Meta
  imports Layout_Place
begin

text \<open>
  The sections of the file that are not loaded, in \<^verbatim>\<open>peony-layout/src/lib.rs\<close>: the plan of \<^verbatim>\<open>.symtab\<close> and
  \<^verbatim>\<open>.strtab\<close>, \<^verbatim>\<open>.symtab_shndx\<close>, the relocation sections of \<^verbatim>\<open>--emit-relocs\<close>, the debug and metadata sections
  copied through, \<^verbatim>\<open>.shstrtab\<close>, the header links and the size of the file.  Names are taken to be valid
  UTF-8, on which \<^verbatim>\<open>from_utf8_lossy\<close> is the identity.
\<close>

section \<open>The symbol table plan\<close>

abbreviation (input) SHN_ABS :: u16 where "SHN_ABS \<equiv> 0xfff1"
abbreviation (input) SHN_LORESERVE :: u32 where "SHN_LORESERVE \<equiv> 0xff00"
abbreviation (input) SHN_RESERVED_HI :: u32 where "SHN_RESERVED_HI \<equiv> 0x10000"

definition tls_rank :: "output_section \<Rightarrow> nat" where
  "tls_rank s = (if os_kind s = Tdata then 0 else if os_kind s = Tbss then 1 else 2)"

definition tls_base_va :: "output_section list \<Rightarrow> u64 option" where
  "tls_base_va secs =
     (case sort_key (\<lambda>s. (tls_rank s, os_sh_addr s)) (filter (\<lambda>s. os_sh_flags s AND SHF_TLS \<noteq> 0) secs) of
        [] \<Rightarrow> None | s # _ \<Rightarrow> Some (os_sh_addr s))"

text \<open>The raw index is used as a position here, as the source does.\<close>

definition in_tls_section :: "input_object list \<Rightarrow> nat \<Rightarrow> nat \<Rightarrow> bool" where
  "in_tls_section objs obj_id si =
     (case Option.bind (get objs obj_id) (\<lambda>o'. get (sections o') si) of
        Some s \<Rightarrow> sec_flags s AND SHF_TLS \<noteq> 0 | None \<Rightarrow> False)"

definition tls_value :: "u64 option \<Rightarrow> u64 \<Rightarrow> u64 \<Rightarrow> u64" where
  "tls_value tls_base sec_va v = saturating_sub sec_va (case tls_base of Some b \<Rightarrow> b | None \<Rightarrow> sec_va) + v"

text \<open>A symbol of the plan before its name has an offset.\<close>

type_synonym planned = "name \<times> u32 \<times> u8 \<times> (u64 \<times> u64) option"

definition local_planned ::
  "input_object list \<Rightarrow> place_state \<Rightarrow> u64 option \<Rightarrow> nat \<Rightarrow> input_symbol \<Rightarrow> planned option" where
  "local_planned objs ps tls_base obj_id s =
     (if sym_binding s \<noteq> Local \<or> sym_is_undefined s \<or> sym_is_common s \<or> sym_name s = [] then None
      else case sym_section s of
        None \<Rightarrow> None
      | Some si \<Rightarrow>
          (case (map_of (pl_sec_to_out ps) (obj_id, si), map_of (pl_addresses ps) (obj_id, si)) of
             (Some out, Some sec_va) \<Rightarrow>
               (let tls = in_tls_section objs obj_id si;
                    typ = (if tls then STT_TLS else sym_st_type s);
                    v = (if tls then tls_value tls_base sec_va (sym_value s) else sec_va + sym_value s)
                in Some (sym_name s, of_nat (out + 1), st_info 0 typ, Some (v, sym_size s)))
           | _ \<Rightarrow> None))"

definition local_plan :: "input_object list \<Rightarrow> place_state \<Rightarrow> u64 option \<Rightarrow> planned list" where
  "local_plan objs ps tls_base =
     concat (map (\<lambda>(i, obj). List.map_filter (local_planned objs ps tls_base i) (symbols obj)) (enumerate 0 objs))"

definition global_in_tls :: "input_object list \<Rightarrow> resolution \<Rightarrow> bool" where
  "global_in_tls objs r =
     (case (res_section_index r, res_defined_in r) of
        (Some si, Some obj) \<Rightarrow> in_tls_section objs (unat obj) si | _ \<Rightarrow> False)"

text \<open>The outer \<open>None\<close> is the failed \<^verbatim>\<open>unwrap\<close> of \<^verbatim>\<open>defined_in\<close>, the inner one a symbol left out.\<close>

definition global_planned ::
  "input_object list \<Rightarrow> place_state \<Rightarrow> u64 option \<Rightarrow> name \<times> resolution \<Rightarrow> planned option option" where
  "global_planned objs ps tls_base = (\<lambda>(n, r).
     (let bind = (if res_binding r = Weak then 2 else 1);
          tls = global_in_tls objs r;
          info = st_info bind (if tls then STT_TLS else res_st_type r)
      in case res_section_index r of
        None \<Rightarrow> Some (Some (n, ucast SHN_ABS, info, None))
      | Some si \<Rightarrow>
          (case res_defined_in r of
             None \<Rightarrow> None
           | Some obj \<Rightarrow>
               Some (map_option
                 (\<lambda>out. (n, of_nat (out + 1), info,
                    if tls then map_option (\<lambda>sec_va. (tls_value tls_base sec_va (res_value r), res_size r))
                                  (map_of (pl_addresses ps) (unat obj, si))
                    else None))
                 (map_of (pl_sec_to_out ps) (unat obj, si))))))"

definition defined_globals :: "symbol_table \<Rightarrow> (name \<times> resolution) list" where
  "defined_globals st = sort_key fst (filter (\<lambda>(n, r). is_defined r) (resolutions st))"

definition global_plan ::
  "symbol_table \<Rightarrow> input_object list \<Rightarrow> place_state \<Rightarrow> u64 option \<Rightarrow> planned list option" where
  "global_plan st objs ps tls_base =
     (let gs = map (global_planned objs ps tls_base) (defined_globals st) in
      if None \<in> set gs then None else Some (List.map_filter (\<lambda>g. the g) gs))"

definition name_entries :: "planned list \<Rightarrow> u32 list \<Rightarrow> sym_entry list" where
  "name_entries ps offs =
     map (\<lambda>((n, shndx, info, loc), off). \<lparr>se_name = n, se_name_off = off, se_shndx = shndx, se_info = info, se_local = loc\<rparr>)
       (zip ps offs)"

definition build_symtab_plan ::
  "symbol_table \<Rightarrow> input_object list \<Rightarrow> place_state \<Rightarrow> u64 option \<Rightarrow> (sym_entry list \<times> bytes \<times> nat) option" where
  "build_symtab_plan st objs ps tls_base =
     map_option (\<lambda>globals.
       (let locals = local_plan objs ps tls_base; plan = locals @ globals in
        case push_strs (map fst plan) [0] of (offs, strtab) \<Rightarrow> (name_entries plan offs, strtab, length locals)))
       (global_plan st objs ps tls_base)"

definition build_symtab_shndx :: "sym_entry list \<Rightarrow> bytes" where
  "build_symtab_shndx symtab =
     (if list_ex (\<lambda>e. SHN_RESERVED_HI \<le> se_shndx e) symtab
      then to_le 4 (0 :: u32) @
           concat (map (\<lambda>e. to_le 4 (if SHN_RESERVED_HI \<le> se_shndx e then se_shndx e else 0)) symtab)
      else [])"

section \<open>Sections without an address\<close>

record meta_state =
  ms_foff :: u64
  ms_sections :: "output_section list"
  ms_addresses :: "(sec_key \<times> u64) list"
  ms_emit :: "bytes list"

definition meta_section ::
  "name \<Rightarrow> u32 \<Rightarrow> u64 \<Rightarrow> u64 \<Rightarrow> u32 \<Rightarrow> u64 \<Rightarrow> u64 \<Rightarrow> sec_source \<Rightarrow> output_section" where
  "meta_section n t off sz info align entsize src =
     \<lparr>os_name = n, os_kind = Other, os_sh_type = t, os_sh_flags = 0, os_sh_addr = 0, os_sh_offset = off,
      os_sh_size = sz, os_sh_link = 0, os_sh_info = info, os_sh_addralign = align, os_sh_entsize = entsize,
      os_sh_name = 0, os_shndx = 0, os_contributions = [], os_source = src\<rparr>"

definition push_meta :: "output_section \<Rightarrow> meta_state \<Rightarrow> meta_state" where
  "push_meta x s = s\<lparr>ms_sections := ms_sections s @ [x], ms_foff := os_sh_offset x + os_sh_size x\<rparr>"

definition add_symtab :: "sym_entry list \<Rightarrow> bytes \<Rightarrow> nat \<Rightarrow> meta_state \<Rightarrow> meta_state" where
  "add_symtab symtab strtab num_locals s =
     (let size = of_nat (length symtab + 1) * 24;
          s1 = push_meta (meta_section ''.symtab'' SHT_SYMTAB (ms_foff s) size (of_nat (num_locals + 1)) 8 24 SrcSymTab) s;
          s2 = push_meta (meta_section ''.strtab'' SHT_STRTAB (ms_foff s1) (of_nat (length strtab)) 0 1 0 SrcStrTab) s1;
          x = build_symtab_shndx symtab
      in if x = [] then s2
         else push_meta (meta_section ''.symtab_shndx'' SHT_SYMTAB_SHNDX (align_up (ms_foff s2) 4) (of_nat (length x)) 0 4 4
                SrcSymTabShndx) s2)"

subsection \<open>--emit-relocs\<close>

definition symtab_index :: "sym_entry list \<Rightarrow> name \<Rightarrow> u32" where
  "symtab_index symtab n =
     (case map_of (map (\<lambda>(i, e). (se_name e, of_nat (i + 1))) (filter (\<lambda>(i, e). se_name e \<noteq> []) (enumerate 0 symtab))) n of
        Some i \<Rightarrow> i | None \<Rightarrow> 0)"

definition emitted_rela :: "sym_entry list \<Rightarrow> input_object \<Rightarrow> section_contribution \<Rightarrow> input_reloc \<Rightarrow> bytes" where
  "emitted_rela symtab obj c r =
     (let i = (case symbol_by_index obj (r_symbol r) of Some s \<Rightarrow> symtab_index symtab (sym_name s) | None \<Rightarrow> 0) in
      to_le 8 (con_offset c + r_offset r) @ to_le 8 (push_bit 32 (ucast i) OR ucast (r_type r) :: u64) @ to_le 8 (r_addend r))"

definition contribution_relas :: "input_object list \<Rightarrow> sym_entry list \<Rightarrow> section_contribution \<Rightarrow> bytes" where
  "contribution_relas objs symtab c =
     (case get objs (con_object_id c) of
        None \<Rightarrow> []
      | Some obj \<Rightarrow>
          (case get (sections obj) (con_section_pos c) of
             None \<Rightarrow> []
           | Some sec \<Rightarrow> concat (map (emitted_rela symtab obj c) (sec_relocs sec))))"

definition emit_target_relocs ::
  "input_object list \<Rightarrow> sym_entry list \<Rightarrow> nat \<times> output_section \<Rightarrow> meta_state \<Rightarrow> meta_state" where
  "emit_target_relocs objs symtab = (\<lambda>(target_idx, target) s.
     (let rela = concat (map (contribution_relas objs symtab) (os_contributions target)) in
      if os_source target \<noteq> SrcInput \<or> os_sh_flags target AND SHF_ALLOC = 0 \<or> rela = [] then s
      else push_meta
        (meta_section (''.rela'' @ os_name target) SHT_RELA (align_up (ms_foff s) 8) (of_nat (length rela))
          (of_nat (target_idx + 1)) 8 24 (SrcRelaEmit (length (ms_emit s))))
        (s\<lparr>ms_emit := ms_emit s @ [rela]\<rparr>)))"

definition add_emit_relocs :: "input_object list \<Rightarrow> sym_entry list \<Rightarrow> meta_state \<Rightarrow> meta_state" where
  "add_emit_relocs objs symtab s = fold (emit_target_relocs objs symtab) (enumerate 0 (ms_sections s)) s"

subsection \<open>Sections copied through\<close>

definition should_passthrough :: "bool \<Rightarrow> input_section \<Rightarrow> bool" where
  "should_passthrough strip_debug s \<longleftrightarrow>
     sec_flags s AND SHF_ALLOC = 0 \<and> \<not> section_data_is_empty (sec_data s) \<and>
     (sec_name s \<in> {''.rustc'', ''.comment'', ''.gnu_debugaltlink''} \<or>
      (\<not> strip_debug \<and>
        (sec_kind s = Debug \<or> sec_name s = ''.debug'' \<or> starts_with (sec_name s) ''.debug_'' \<or>
         starts_with (sec_name s) ''.zdebug_'' \<or> starts_with (sec_name s) ''.gnu.debuglto_'')))"

definition passthrough_names :: "bool \<Rightarrow> input_object list \<Rightarrow> name list" where
  "passthrough_names strip_debug objs =
     rev (remdups (rev (map sec_name (filter (should_passthrough strip_debug) (concat (map sections objs))))))"

definition indexed_sections :: "input_object list \<Rightarrow> (nat \<times> nat \<times> input_section) list" where
  "indexed_sections objs =
     concat (map (\<lambda>(i, obj). map (Pair i) (enumerate 0 (sections obj))) (enumerate 0 objs))"

definition pass_contribution ::
  "nat \<times> nat \<times> input_section \<Rightarrow> section_contribution list \<times> u64 \<times> u64 \<Rightarrow> section_contribution list \<times> u64 \<times> u64" where
  "pass_contribution = (\<lambda>(obj_idx, pos, sec) (cs, off, max_align).
     (let align = max (sec_align sec) 1; off = align_up off align; len = of_nat (section_data_len (sec_data sec)) in
      (cs @ [\<lparr>con_object_id = obj_idx, con_section_index = sec_index sec, con_section_pos = pos, con_offset = off,
              con_size = len\<rparr>], off + len, max max_align align)))"

definition passthrough_contributions :: "input_object list \<Rightarrow> name \<Rightarrow> section_contribution list \<times> u64 \<times> u64" where
  "passthrough_contributions objs n =
     fold pass_contribution
       (filter (\<lambda>(i, pos, sec). sec_name sec = n \<and> \<not> section_data_is_empty (sec_data sec)) (indexed_sections objs))
       ([], 0, 1)"

definition add_passthrough :: "input_object list \<Rightarrow> name \<Rightarrow> meta_state \<Rightarrow> meta_state" where
  "add_passthrough objs n s =
     (case passthrough_contributions objs n of (cs, off, max_align) \<Rightarrow>
        if cs = [] then s
        else push_meta
          ((meta_section n SHT_PROGBITS (align_up (ms_foff s) max_align) off 0 max_align 0 SrcInput)\<lparr>os_contributions := cs\<rparr>)
          (s\<lparr>ms_addresses := fold (\<lambda>c. AList.update (contribution_key c) (con_offset c)) cs (ms_addresses s)\<rparr>))"

section \<open>Links, names and sizes\<close>

definition number_sections :: "output_section list \<Rightarrow> output_section list" where
  "number_sections secs = map (\<lambda>(i, s). s\<lparr>os_shndx := of_nat (i + 1)\<rparr>) (enumerate 0 secs)"

definition shndx_of_source :: "output_section list \<Rightarrow> sec_source \<Rightarrow> u32" where
  "shndx_of_source secs src = (case find (\<lambda>s. os_source s = src) secs of Some s \<Rightarrow> os_shndx s | None \<Rightarrow> 0)"

definition is_rela_emit :: "sec_source \<Rightarrow> bool" where
  "is_rela_emit src = (case src of SrcRelaEmit _ \<Rightarrow> True | _ \<Rightarrow> False)"

text \<open>The positions of \<^verbatim>\<open>.symtab\<close> and its companions are remembered in the source; they are the only sections
  with those sources.\<close>

definition link_symtab :: "output_section list \<Rightarrow> output_section list" where
  "link_symtab secs =
     map (\<lambda>s. if os_source s = SrcSymTab then s\<lparr>os_sh_link := shndx_of_source secs SrcStrTab\<rparr>
              else if os_source s = SrcSymTabShndx \<or> is_rela_emit (os_source s)
              then s\<lparr>os_sh_link := shndx_of_source secs SrcSymTab\<rparr> else s) secs"

definition link_dynamic :: "u64 \<Rightarrow> output_section list \<Rightarrow> output_section list" where
  "link_dynamic verneed_num secs =
     (let dynstr = shndx_of_source secs SrcDynStr; dynsym = shndx_of_source secs SrcDynSym in
      map (\<lambda>s. case os_source s of
            SrcDynSym \<Rightarrow> s\<lparr>os_sh_link := dynstr, os_sh_info := 1\<rparr>
          | SrcHash \<Rightarrow> s\<lparr>os_sh_link := dynsym\<rparr>
          | SrcGnuHash \<Rightarrow> s\<lparr>os_sh_link := dynsym\<rparr>
          | SrcRelaDyn \<Rightarrow> s\<lparr>os_sh_link := dynsym\<rparr>
          | SrcRelaPlt \<Rightarrow> s\<lparr>os_sh_link := dynsym\<rparr>
          | SrcDynamic \<Rightarrow> s\<lparr>os_sh_link := dynstr\<rparr>
          | SrcGnuVersion \<Rightarrow> s\<lparr>os_sh_link := dynsym\<rparr>
          | SrcGnuVersionR \<Rightarrow> s\<lparr>os_sh_link := dynstr, os_sh_info := ucast verneed_num\<rparr>
          | _ \<Rightarrow> s) secs)"

definition name_sections :: "output_section list \<Rightarrow> output_section list \<times> bytes" where
  "name_sections secs =
     (case push_strs (map os_name secs) [0] of (offs, shstrtab) \<Rightarrow>
        (map (\<lambda>(s, off). s\<lparr>os_sh_name := off\<rparr>) (zip secs offs), shstrtab))"

record meta_plan =
  mp_sections :: "output_section list"
  mp_addresses :: "(sec_key \<times> u64) list"
  mp_symtab :: "sym_entry list"
  mp_strtab :: bytes
  mp_symtab_shndx :: bytes
  mp_emit_relocs :: "bytes list"
  mp_shstrtab :: bytes
  mp_shoff :: u64
  mp_shnum :: u64
  mp_shstrndx :: u64
  mp_file_size :: u64

definition finish_sections :: "layout_args \<Rightarrow> u64 \<Rightarrow> meta_state \<Rightarrow> output_section list \<times> bytes" where
  "finish_sections la verneed_num s =
     (let secs = ms_sections s @ [meta_section ''.shstrtab'' SHT_STRTAB (align_up (ms_foff s) 1) 0 0 1 0 SrcShStrTab];
          secs = link_symtab (number_sections secs);
          secs = (if la_dynamic la \<noteq> None then link_dynamic verneed_num secs else secs)
      in case name_sections secs of (secs, shstrtab) \<Rightarrow>
        (secs[length (ms_sections s) := (secs ! length (ms_sections s))\<lparr>os_sh_size := of_nat (length shstrtab)\<rparr>], shstrtab))"

definition meta_sections :: "layout_args \<Rightarrow> dyn_prebuild \<Rightarrow> placement \<Rightarrow> meta_plan option" where
  "meta_sections la p pm =
     (let cfg = la_config la; objs = la_objects la; ps = pm_state pm;
          plan = (if cfg_strip cfg then Some ([], [], 0)
                  else build_symtab_plan (la_symbols la) objs ps (tls_base_va (pl_sections ps)))
      in map_option (\<lambda>(symtab, strtab, num_locals).
        (let s0 = \<lparr>ms_foff = align_up (file_content_end la pm) 8, ms_sections = pl_sections ps,
                   ms_addresses = pl_addresses ps, ms_emit = []\<rparr>;
             s1 = (if cfg_strip cfg then s0 else add_symtab symtab strtab num_locals s0);
             s2 = (if cfg_emit_relocs cfg \<and> \<not> cfg_strip cfg then add_emit_relocs objs symtab s1 else s1);
             s3 = fold (add_passthrough objs) (passthrough_names (cfg_strip_debug cfg) objs) s2
         in case finish_sections la (db_verneed_num (pb_blobs p)) s3 of (secs, shstrtab) \<Rightarrow>
           (let shoff = align_up (align_up (ms_foff s3) 1 + of_nat (length shstrtab)) 8; shnum = of_nat (length secs + 1) in
            \<lparr>mp_sections = secs, mp_addresses = ms_addresses s3, mp_symtab = symtab, mp_strtab = strtab,
             mp_symtab_shndx = (if cfg_strip cfg then [] else build_symtab_shndx symtab), mp_emit_relocs = ms_emit s3,
             mp_shstrtab = shstrtab, mp_shoff = shoff, mp_shnum = shnum,
             mp_shstrndx = of_nat (length (ms_sections s3) + 1), mp_file_size = shoff + shnum * 64\<rparr>))) plan)"

section \<open>The loaded sections stay as placed\<close>

text \<open>A section the meta stage adds: not loaded, and its name outside a set \<open>N\<close> of names of interest.\<close>

definition meta_like :: "name set \<Rightarrow> output_section \<Rightarrow> bool" where
  "meta_like N x \<longleftrightarrow> os_sh_flags x = 0 \<and> os_name x \<notin> N \<and> os_kind x = Other \<and>
     (os_source x \<in> {SrcInput, SrcSymTab, SrcStrTab, SrcSymTabShndx, SrcShStrTab} \<or> is_rela_emit (os_source x))"

definition meta_extends :: "name set \<Rightarrow> meta_state \<Rightarrow> meta_state \<Rightarrow> bool" where
  "meta_extends N s s' \<longleftrightarrow> (\<exists>new. ms_sections s' = ms_sections s @ new \<and> list_all (meta_like N) new)"

lemma meta_extends_refl [simp]: "meta_extends N s s"
  by (simp add: meta_extends_def)

lemma meta_extends_trans [trans]: "meta_extends N a b \<Longrightarrow> meta_extends N b c \<Longrightarrow> meta_extends N a c"
  unfolding meta_extends_def
proof (elim exE conjE)
  fix u v
  assume "ms_sections b = ms_sections a @ u" "list_all (meta_like N) u" "ms_sections c = ms_sections b @ v" "list_all (meta_like N) v"
  then show "\<exists>new. ms_sections c = ms_sections a @ new \<and> list_all (meta_like N) new"
    by (intro exI [of _ "u @ v"]) simp
qed

lemma push_meta_extends: "meta_like N x \<Longrightarrow> ms_sections s' = ms_sections s \<Longrightarrow> meta_extends N s (push_meta x s')"
  by (simp add: meta_extends_def push_meta_def)

lemma meta_like_section [simp]:
  "meta_like N (meta_section n t off sz info align entsize src) \<longleftrightarrow>
     n \<notin> N \<and> (src \<in> {SrcInput, SrcSymTab, SrcStrTab, SrcSymTabShndx, SrcShStrTab} \<or> is_rela_emit src)"
  by (auto simp: meta_like_def meta_section_def)

text \<open>The names the linker itself gives to such sections.\<close>

definition no_meta_name :: "name set \<Rightarrow> bool" where
  "no_meta_name N \<longleftrightarrow>
     N \<inter> {''.symtab'', ''.strtab'', ''.symtab_shndx'', ''.shstrtab''} = {} \<and> (\<forall>n. ''.rela'' @ n \<notin> N)"

lemma add_symtab_extends:
  assumes "no_meta_name N"
  shows "meta_extends N s (add_symtab symtab strtab k s)"
proof -
  let ?s1 = "push_meta (meta_section ''.symtab'' SHT_SYMTAB (ms_foff s) (of_nat (length symtab + 1) * 24) (of_nat (k + 1)) 8 24 SrcSymTab) s"
  let ?s2 = "push_meta (meta_section ''.strtab'' SHT_STRTAB (ms_foff ?s1) (of_nat (length strtab)) 0 1 0 SrcStrTab) ?s1"
  have "meta_extends N s ?s1" using assms by (intro push_meta_extends) (auto simp: no_meta_name_def)
  also have "meta_extends N ?s1 ?s2" using assms by (intro push_meta_extends) (auto simp: no_meta_name_def)
  also have "meta_extends N ?s2 (add_symtab symtab strtab k s)"
    using assms by (auto simp: add_symtab_def Let_def no_meta_name_def intro: push_meta_extends)
  finally show ?thesis .
qed

lemma add_emit_relocs_extends:
  assumes "no_meta_name N"
  shows "meta_extends N s (add_emit_relocs objs symtab s)"
proof -
  have step: "meta_extends N s (emit_target_relocs objs symtab t s)" for t s
    using assms
    by (auto simp: emit_target_relocs_def Let_def no_meta_name_def is_rela_emit_def split: prod.split intro!: push_meta_extends)
  have "meta_extends N s (fold (emit_target_relocs objs symtab) ts s)" for ts
    by (induction ts arbitrary: s) (auto intro: meta_extends_trans [OF step])
  then show ?thesis by (simp add: add_emit_relocs_def)
qed

lemma add_passthrough_extends: "n \<notin> N \<Longrightarrow> meta_extends N s (add_passthrough objs n s)"
  by (auto simp: add_passthrough_def meta_like_def meta_section_def split: prod.split intro!: push_meta_extends)

lemma passthrough_extends: "set ns \<inter> N = {} \<Longrightarrow> meta_extends N s (fold (add_passthrough objs) ns s)"
proof (induction ns arbitrary: s)
  case (Cons n ns)
  then show ?case using meta_extends_trans [OF add_passthrough_extends [of n N s objs]] by auto
qed simp

text \<open>What numbering, linking and naming leave alone.\<close>

definition same_body :: "output_section \<Rightarrow> output_section \<Rightarrow> bool" where
  "same_body x y \<longleftrightarrow> os_name y = os_name x \<and> os_kind y = os_kind x \<and> os_sh_type y = os_sh_type x \<and>
     os_sh_flags y = os_sh_flags x \<and> os_sh_addr y = os_sh_addr x \<and> os_sh_offset y = os_sh_offset x \<and>
     os_sh_size y = os_sh_size x \<and> os_sh_addralign y = os_sh_addralign x \<and>
     os_contributions y = os_contributions x \<and> os_source y = os_source x"

lemma same_body_trans: "same_body x y \<Longrightarrow> same_body y z \<Longrightarrow> same_body x z"
  by (simp add: same_body_def)

lemma same_body_number: "list_all2 same_body xs (number_sections xs)"
  by (auto simp: list_all2_conv_all_nth number_sections_def nth_enumerate_eq same_body_def)

lemma same_body_link: "list_all2 same_body xs (link_symtab xs)" "list_all2 same_body xs (link_dynamic n xs)"
  by (auto simp: list_all2_conv_all_nth link_symtab_def link_dynamic_def Let_def same_body_def split: sec_source.split)

lemma same_body_name: "name_sections xs = (ys, d) \<Longrightarrow> list_all2 same_body xs ys"
  using length_push_strs
  by (fastforce simp: list_all2_conv_all_nth name_sections_def same_body_def split: prod.splits)

lemma same_body_meta_like: "same_body x y \<Longrightarrow> meta_like N y = meta_like N x"
  by (simp add: same_body_def meta_like_def)

lemma finish_sections_body:
  assumes "finish_sections la vn s = (ys, d)" "no_meta_name N"
  obtains ys1 ys2 where "ys = ys1 @ ys2" "list_all2 same_body (ms_sections s) ys1" "list_all (meta_like N) ys2"
proof -
  let ?x = "meta_section ''.shstrtab'' SHT_STRTAB (align_up (ms_foff s) 1) 0 0 1 0 SrcShStrTab"
  define zs where "zs = link_symtab (number_sections (ms_sections s @ [?x]))"
  define zs' where "zs' = (if la_dynamic la \<noteq> None then link_dynamic vn zs else zs)"
  obtain ws d' where w': "name_sections zs' = (ws, d')" by (cases "name_sections zs'")
  then have w: "name_sections zs' = (ws, d)"
    and ys: "ys = ws[length (ms_sections s) := (ws ! length (ms_sections s))\<lparr>os_sh_size := of_nat (length d)\<rparr>]"
    using assms(1) unfolding finish_sections_def Let_def zs_def [symmetric] zs'_def [symmetric] by auto
  have z: "list_all2 same_body (ms_sections s @ [?x]) zs"
    unfolding zs_def by (rule list_all2_trans [OF same_body_trans same_body_number same_body_link(1)])
  have z': "list_all2 same_body (ms_sections s @ [?x]) zs'"
    unfolding zs'_def using z list_all2_trans [OF same_body_trans z same_body_link(2)] by simp
  have b: "list_all2 same_body (ms_sections s @ [?x]) ws"
    by (rule list_all2_trans [OF same_body_trans z' same_body_name [OF w]])
  then obtain ws1 y where ws: "ws = ws1 @ [y]" "list_all2 same_body (ms_sections s) ws1" "same_body ?x y"
    by (auto simp: list_all2_append1 list_all2_Cons1)
  have len: "length ws1 = length (ms_sections s)" using list_all2_lengthD [OF ws(2)] by simp
  have "meta_like N y" using assms(2) same_body_meta_like [OF ws(3)] by (simp add: no_meta_name_def)
  then have "meta_like N (y\<lparr>os_sh_size := of_nat (length d)\<rparr>)" by (simp add: meta_like_def)
  then show ?thesis
    by (intro that [of ws1 "[y\<lparr>os_sh_size := of_nat (length d)\<rparr>]"])
      (simp_all add: ys ws(1,2) len [symmetric])
qed

lemma meta_sections_body:
  assumes "meta_sections la p pm = Some mp" "no_meta_name N"
    "set (passthrough_names (cfg_strip_debug (la_config la)) (la_objects la)) \<inter> N = {}"
  obtains ys new where "mp_sections mp = ys @ new" "list_all2 same_body (pl_sections (pm_state pm)) ys" "list_all (meta_like N) new"
proof -
  let ?cfg = "la_config la"
  define s0 where "s0 = \<lparr>ms_foff = align_up (file_content_end la pm) 8, ms_sections = pl_sections (pm_state pm),
    ms_addresses = pl_addresses (pm_state pm), ms_emit = []\<rparr>"
  obtain symtab strtab k where plan: "(if cfg_strip ?cfg then Some ([], [], 0)
      else build_symtab_plan (la_symbols la) (la_objects la) (pm_state pm) (tls_base_va (pl_sections (pm_state pm)))) =
      Some (symtab, strtab, k)"
    using assms(1) unfolding meta_sections_def Let_def by (auto split: if_splits)
  define s1 where "s1 = (if cfg_strip ?cfg then s0 else add_symtab symtab strtab k s0)"
  define s2 where "s2 = (if cfg_emit_relocs ?cfg \<and> \<not> cfg_strip ?cfg then add_emit_relocs (la_objects la) symtab s1 else s1)"
  define s3 where "s3 = fold (add_passthrough (la_objects la)) (passthrough_names (cfg_strip_debug ?cfg) (la_objects la)) s2"
  obtain xs d where fin: "finish_sections la (db_verneed_num (pb_blobs p)) s3 = (xs, d)" by fastforce
  have "mp_sections mp = xs"
    using assms(1)
    unfolding meta_sections_def Let_def plan option.map prod.case s0_def [symmetric] s1_def [symmetric] s2_def [symmetric]
      s3_def [symmetric] fin by auto
  then have s: "s1 = s0 \<or> s1 = add_symtab symtab strtab k s0" "s2 = s1 \<or> s2 = add_emit_relocs (la_objects la) symtab s1"
      "s3 = fold (add_passthrough (la_objects la)) (passthrough_names (cfg_strip_debug ?cfg) (la_objects la)) s2"
      "finish_sections la (db_verneed_num (pb_blobs p)) s3 = (mp_sections mp, d)"
    using fin by (simp_all add: s1_def s2_def s3_def)
  have "meta_extends N s0 s1" using s(1) add_symtab_extends [OF assms(2)] by auto
  also have "meta_extends N s1 s2" using s(2) add_emit_relocs_extends [OF assms(2)] by auto
  also have "meta_extends N s2 s3" unfolding s(3) by (rule passthrough_extends [OF assms(3)])
  finally obtain more where m: "ms_sections s3 = pl_sections (pm_state pm) @ more" "list_all (meta_like N) more"
    by (auto simp: meta_extends_def s0_def)
  obtain ys1 ys2 where y: "mp_sections mp = ys1 @ ys2" "list_all2 same_body (ms_sections s3) ys1" "list_all (meta_like N) ys2"
    by (rule finish_sections_body [OF s(4) assms(2)])
  then obtain ys ym where "ys1 = ys @ ym" "list_all2 same_body (pl_sections (pm_state pm)) ys" "list_all2 same_body more ym"
    by (auto simp: m(1) list_all2_append1)
  moreover have "list_all (meta_like N) ym"
    using m(2) \<open>list_all2 same_body more ym\<close> same_body_meta_like by (auto simp: list_all_length list_all2_conv_all_nth)
  ultimately show ?thesis using y by (intro that [of ys "ym @ ys2"]) simp_all
qed

section \<open>What the symbol table holds\<close>

text \<open>An entry is local exactly when its binding, the high half of \<open>se_info\<close>, is zero.\<close>

definition entry_binding :: "sym_entry \<Rightarrow> u8" where
  "entry_binding e = drop_bit 4 (se_info e)"

lemma st_info_binding: "bind < 16 \<Longrightarrow> drop_bit 4 (st_info bind t) = bind"
proof -
  assume b: "bind < 16"
  have "take_bit 4 bind = bind" using less_mask_eq [of bind 4] b by (simp add: take_bit_eq_mask)
  then have hi: "\<not> bit bind k" if "4 \<le> k" for k using that by (metis bit_take_bit_iff not_le)
  have t: "\<not> bit (15 :: u8) k" if "4 \<le> k" for k
    using that bit_mask_iff [where 'a = u8, of 4 k] by (simp add: mask_eq_exp_minus_1)
  show ?thesis
    by (rule bit_word_eqI) (use hi t not_le in \<open>auto simp: st_info_def bit_simps\<close>)
qed

definition entry_type :: "sym_entry \<Rightarrow> u8" where
  "entry_type e = se_info e AND 15"

lemma st_info_type: "bind < 16 \<Longrightarrow> st_info bind t AND 15 = t AND 15"
  unfolding st_info_def mask_eq_exp_minus_1 [of 4, where 'a = u8, simplified, symmetric]
  by (rule bit_word_eqI) (auto simp: bit_simps)

lemma set_map_filter_iff: "y \<in> set (List.map_filter f xs) \<longleftrightarrow> (\<exists>x \<in> set xs. f x = Some y)"
  by (induction xs) (auto simp: map_filter_simps split: option.splits)

lemma list_all2_in_set: "list_all2 R xs ys \<Longrightarrow> x \<in> set xs \<Longrightarrow> \<exists>y \<in> set ys. R x y"
  by (induction rule: list_all2_induct) auto

lemma list_all2_in_set': "list_all2 R xs ys \<Longrightarrow> y \<in> set ys \<Longrightarrow> \<exists>x \<in> set xs. R x y"
  by (induction rule: list_all2_induct) auto

lemma map_filter_all2: "list_all2 (\<lambda>x y. f x = Some y) (filter (\<lambda>x. f x \<noteq> None) xs) (List.map_filter f xs)"
  by (induction xs) (auto simp: map_filter_simps split: option.splits)

text \<open>
  The specification of the table, over the objects, the placement and the resolutions alone.  Whether a symbol counts
  as thread-local is read off the section at list position \<^verbatim>\<open>k\<close> where \<^verbatim>\<open>k\<close> is the raw index of the symbol's
  section: what the source does, although positions and raw indices differ.
\<close>

definition tls_at_position :: "input_object list \<Rightarrow> nat \<Rightarrow> nat \<Rightarrow> bool" where
  "tls_at_position objs i k \<longleftrightarrow>
     i < length objs \<and> k < length (sections (objs ! i)) \<and> sec_flags (sections (objs ! i) ! k) AND SHF_TLS \<noteq> 0"

definition tls_offset_of :: "u64 option \<Rightarrow> u64 \<Rightarrow> u64" where
  "tls_offset_of tls va = (case tls of None \<Rightarrow> 0 | Some b \<Rightarrow> if b \<le> va then va - b else 0)"

definition placed_local :: "place_state \<Rightarrow> nat \<times> input_symbol \<Rightarrow> bool" where
  "placed_local ps = (\<lambda>(i, s).
     sym_binding s = Local \<and> \<not> sym_is_undefined s \<and> \<not> sym_is_common s \<and> sym_name s \<noteq> [] \<and>
     (case sym_section s of None \<Rightarrow> False
      | Some si \<Rightarrow> map_of (pl_sec_to_out ps) (i, si) \<noteq> None \<and> map_of (pl_addresses ps) (i, si) \<noteq> None))"

definition local_row ::
  "input_object list \<Rightarrow> place_state \<Rightarrow> u64 option \<Rightarrow> nat \<times> input_symbol \<Rightarrow> sym_entry \<Rightarrow> bool" where
  "local_row objs ps tls = (\<lambda>(i, s) e.
     \<exists>si out va. sym_section s = Some si \<and> map_of (pl_sec_to_out ps) (i, si) = Some out \<and>
       map_of (pl_addresses ps) (i, si) = Some va \<and>
       se_name e = sym_name s \<and> se_shndx e = of_nat out + 1 \<and> entry_binding e = 0 \<and>
       (if tls_at_position objs i si
        then entry_type e = 6 \<and> se_local e = Some (tls_offset_of tls va + sym_value s, sym_size s)
        else entry_type e = sym_st_type s AND 15 \<and> se_local e = Some (va + sym_value s, sym_size s)))"

definition placed_global :: "place_state \<Rightarrow> resolution \<Rightarrow> bool" where
  "placed_global ps r \<longleftrightarrow>
     (res_defined_in r \<noteq> None \<or> res_import r) \<and>
     (case res_section_index r of None \<Rightarrow> True
      | Some si \<Rightarrow> \<exists>obj. res_defined_in r = Some obj \<and> map_of (pl_sec_to_out ps) (unat obj, si) \<noteq> None)"

definition global_row ::
  "input_object list \<Rightarrow> place_state \<Rightarrow> u64 option \<Rightarrow> name \<times> resolution \<Rightarrow> sym_entry \<Rightarrow> bool" where
  "global_row objs ps tls = (\<lambda>(n, r) e.
     se_name e = n \<and> entry_binding e = (if res_binding r = Weak then 2 else 1) \<and>
     (case res_section_index r of
        None \<Rightarrow> se_shndx e = 0xfff1 \<and> entry_type e = res_st_type r AND 15 \<and> se_local e = None
      | Some si \<Rightarrow>
          \<exists>obj out. res_defined_in r = Some obj \<and> map_of (pl_sec_to_out ps) (unat obj, si) = Some out \<and>
            se_shndx e = of_nat out + 1 \<and>
            (if tls_at_position objs (unat obj) si
             then entry_type e = 6 \<and>
               se_local e = map_option (\<lambda>va. (tls_offset_of tls va + res_value r, res_size r))
                 (map_of (pl_addresses ps) (unat obj, si))
             else entry_type e = res_st_type r AND 15 \<and> se_local e = None)))"

definition object_symbols :: "input_object list \<Rightarrow> (nat \<times> input_symbol) list" where
  "object_symbols objs = concat (map (\<lambda>i. map (Pair i) (symbols (objs ! i))) [0..<length objs])"

definition symtab_ok ::
  "symbol_table \<Rightarrow> input_object list \<Rightarrow> place_state \<Rightarrow> u64 option \<Rightarrow> sym_entry list \<Rightarrow> bytes \<Rightarrow> nat \<Rightarrow> bool" where
  "symtab_ok st objs ps tls symtab strtab n \<longleftrightarrow>
     list_all (\<lambda>e. cstr_at strtab (unat (se_name_off e)) = ascii (se_name e)) symtab \<and>
     list_all2 (local_row objs ps tls) (filter (placed_local ps) (object_symbols objs)) (take n symtab) \<and>
     sorted (map se_name (drop n symtab)) \<and>
     length (drop n symtab) = length (filter (\<lambda>x. placed_global ps (snd x)) (resolutions st)) \<and>
     (\<forall>x \<in> set (resolutions st). placed_global ps (snd x) \<longrightarrow> (\<exists>e \<in> set (drop n symtab). global_row objs ps tls x e)) \<and>
     (\<forall>e \<in> set (drop n symtab). \<exists>x \<in> set (resolutions st). placed_global ps (snd x) \<and> global_row objs ps tls x e)"

definition entry_row :: "sym_entry \<Rightarrow> planned" where
  "entry_row e = (se_name e, se_shndx e, se_info e, se_local e)"

lemma entry_row_names: "length offs = length ps \<Longrightarrow> map entry_row (name_entries ps offs) = ps"
  by (rule nth_equalityI) (simp_all add: name_entries_def entry_row_def case_prod_unfold)

lemma name_entries_off: "length offs = length ps \<Longrightarrow> k < length ps \<Longrightarrow> se_name_off (name_entries ps offs ! k) = offs ! k"
  by (simp add: name_entries_def case_prod_unfold)

lemma in_tls_position: "in_tls_section objs i k \<longleftrightarrow> tls_at_position objs i k"
  by (simp add: in_tls_section_def tls_at_position_def get_def)

lemma tls_value_offset: "tls_value tls va v = tls_offset_of tls va + v"
  by (auto simp: tls_value_def tls_offset_of_def saturating_sub_def split: option.split)

lemma entry_row_eq:
  assumes "entry_row e = (n, shndx, st_info bind t, loc)" "bind < 16"
  shows "se_name e = n" "se_shndx e = shndx" "entry_binding e = bind" "entry_type e = t AND 15" "se_local e = loc"
  using assms by (simp_all add: entry_row_def entry_binding_def entry_type_def st_info_binding st_info_type)

lemma local_planned_row:
  assumes "local_planned objs ps tls i s = Some (entry_row e)"
  shows "local_row objs ps tls (i, s) e"
proof -
  obtain si out va where si: "sym_section s = Some si" "map_of (pl_sec_to_out ps) (i, si) = Some out"
      "map_of (pl_addresses ps) (i, si) = Some va"
    using assms by (auto simp: local_planned_def split: if_splits option.splits)
  let ?tls = "tls_at_position objs i si"
  have "entry_row e = (sym_name s, of_nat out + 1, st_info 0 (if ?tls then 6 else sym_st_type s),
      Some (if ?tls then tls_offset_of tls va + sym_value s else va + sym_value s, sym_size s))"
    using assms si by (simp add: local_planned_def Let_def in_tls_position tls_value_offset add.commute split: if_splits)
  note row = entry_row_eq [OF this]
  show ?thesis using si row by (auto simp: local_row_def)
qed

lemma local_planned_iff: "local_planned objs ps tls i s \<noteq> None \<longleftrightarrow> placed_local ps (i, s)"
  by (auto simp: local_planned_def placed_local_def Let_def split: option.split)

lemma local_plan_flat:
  "local_plan objs ps tls = List.map_filter (\<lambda>(i, s). local_planned objs ps tls i s) (object_symbols objs)"
proof -
  have app: "List.map_filter f (xs @ ys) = List.map_filter f xs @ List.map_filter f ys" for f :: "'a \<Rightarrow> 'b option" and xs ys
    by (simp add: List.map_filter_def)
  have cat: "List.map_filter f (concat xss) = concat (map (List.map_filter f) xss)" for f :: "'a \<Rightarrow> 'b option" and xss
    by (induction xss) (simp_all add: app List.map_filter_def [of f "[]"])
  have pair: "List.map_filter (\<lambda>(i, s). f i s) (map (Pair i) xs) = List.map_filter (f i) xs"
    for f :: "'i \<Rightarrow> 's \<Rightarrow> 'b option" and i xs
    by (simp add: List.map_filter_def filter_map o_def)
  have enum: "enumerate 0 objs = map (\<lambda>i. (i, objs ! i)) [0..<length objs]"
    by (rule nth_equalityI) (simp_all add: nth_enumerate_eq)
  show ?thesis by (simp add: local_plan_def object_symbols_def cat pair enum o_def)
qed

lemma local_plan_rows:
  assumes "map entry_row es = local_plan objs ps tls"
  shows "list_all2 (local_row objs ps tls) (filter (placed_local ps) (object_symbols objs)) es"
proof -
  let ?f = "\<lambda>(i, s). local_planned objs ps tls i s"
  have "filter (\<lambda>x. ?f x \<noteq> None) (object_symbols objs) = filter (placed_local ps) (object_symbols objs)"
    by (rule filter_cong) (auto simp only: split_beta local_planned_iff prod.collapse)
  then have "list_all2 (\<lambda>x q. ?f x = Some q) (filter (placed_local ps) (object_symbols objs)) (map entry_row es)"
    using map_filter_all2 [of ?f "object_symbols objs"] unfolding assms local_plan_flat by simp
  then show ?thesis
    unfolding list_all2_map2
    by (rule list_all2_mono) (auto intro: local_planned_row)
qed

lemma global_planned_row:
  assumes "global_planned objs ps tls (n, r) = Some (Some (entry_row e))"
  shows "global_row objs ps tls (n, r) e"
proof (cases "res_section_index r")
  case None
  then have "entry_row e = (n, 0xfff1, st_info (if res_binding r = Weak then 2 else 1) (res_st_type r), None)"
    using assms by (simp add: global_planned_def global_in_tls_def Let_def split: if_splits)
  note row = entry_row_eq [OF this]
  show ?thesis using None row by (simp add: global_row_def)
next
  case (Some si)
  then obtain obj out where si: "res_defined_in r = Some obj" "map_of (pl_sec_to_out ps) (unat obj, si) = Some out"
    using assms by (auto simp: global_planned_def Let_def split: option.splits)
  let ?tls = "tls_at_position objs (unat obj) si"
  have "entry_row e = (n, of_nat out + 1, st_info (if res_binding r = Weak then 2 else 1) (if ?tls then 6 else res_st_type r),
      if ?tls then map_option (\<lambda>va. (tls_offset_of tls va + res_value r, res_size r)) (map_of (pl_addresses ps) (unat obj, si))
      else None)"
    using assms Some si
    by (simp add: global_planned_def global_in_tls_def Let_def in_tls_position tls_value_offset add.commute split: if_splits)
  note row = entry_row_eq [OF this]
  show ?thesis using Some si row by (auto simp: global_row_def)
qed

lemma global_planned_iff:
  assumes "is_defined r" "global_planned objs ps tls (n, r) \<noteq> None"
  shows "the (global_planned objs ps tls (n, r)) \<noteq> None \<longleftrightarrow> placed_global ps r"
  using assms
  by (auto simp: global_planned_def placed_global_def is_defined_def Let_def split: option.splits)

lemma global_planned_name: "global_planned objs ps tls (n, r) = Some (Some q) \<Longrightarrow> fst q = n"
  by (auto simp: global_planned_def Let_def split: option.splits)

lemma global_plan_rows:
  assumes g: "global_plan st objs ps tls = Some (map entry_row es)"
  shows "sorted (map se_name es)"
    "length es = length (filter (\<lambda>x. placed_global ps (snd x)) (resolutions st))"
    "x \<in> set (resolutions st) \<Longrightarrow> placed_global ps (snd x) \<Longrightarrow> \<exists>e \<in> set es. global_row objs ps tls x e"
    "e \<in> set es \<Longrightarrow> \<exists>x \<in> set (resolutions st). placed_global ps (snd x) \<and> global_row objs ps tls x e"
proof -
  let ?f = "\<lambda>x. the (global_planned objs ps tls x)" and ?ds = "defined_globals st"
  let ?keep = "\<lambda>x :: name \<times> resolution. placed_global ps (snd x)"
  have all: "\<exists>p. global_planned objs ps tls x = Some p" if "x \<in> set ?ds" for x
    using g that by (auto simp: global_plan_def Let_def split: if_splits) (metis image_eqI not_Some_eq)
  have def: "is_defined (snd x)" if "x \<in> set ?ds" for x using that by (auto simp: defined_globals_def)
  have gs: "map entry_row es = List.map_filter ?f ?ds"
    using g by (auto simp: global_plan_def Let_def List.map_filter_def filter_map o_def split: if_splits)
  have "?f x \<noteq> None \<longleftrightarrow> ?keep x" if x: "x \<in> set ?ds" for x
    using global_planned_iff [of "snd x" objs ps tls "fst x"] all [OF x] def [OF x] by simp
  then have kept: "filter (\<lambda>x. ?f x \<noteq> None) ?ds = filter ?keep ?ds" by (rule filter_cong [OF refl])
  have rows: "list_all2 (\<lambda>x e. ?f x = Some (entry_row e)) (filter ?keep ?ds) es"
    using map_filter_all2 [of ?f ?ds] unfolding gs [symmetric] list_all2_map2 kept .
  have row: "global_row objs ps tls x e \<and> se_name e = fst x" if "x \<in> set ?ds" "?f x = Some (entry_row e)" for x e
  proof -
    have "global_planned objs ps tls (fst x, snd x) = Some (Some (entry_row e))" using all [OF that(1)] that(2) by auto
    then show ?thesis using global_planned_row [of objs ps tls "fst x" "snd x" e] global_planned_name [of objs ps tls "fst x" "snd x" "entry_row e"]
      by (simp only: prod.collapse) (simp add: entry_row_def)
  qed
  have all2: "list_all2 (\<lambda>x e. global_row objs ps tls x e \<and> se_name e = fst x) (filter ?keep ?ds) es"
    by (rule list.rel_mono_strong [OF rows]) (use row in auto)
  have "map se_name es = map fst (filter ?keep ?ds)"
    using all2 by (auto simp: list_all2_conv_all_nth intro: nth_equalityI)
  then show "sorted (map se_name es)"
    by (simp only:) (rule sorted_filter, simp add: defined_globals_def)
  have mem: "x \<in> set (filter ?keep ?ds) \<longleftrightarrow> x \<in> set (resolutions st) \<and> ?keep x" for x
    by (auto simp: defined_globals_def placed_global_def is_defined_def)
  have "mset (filter ?keep ?ds) = filter_mset ?keep (mset (resolutions st))"
    by (auto simp: defined_globals_def filter_filter_mset placed_global_def is_defined_def intro: filter_mset_cong)
  then have "size (mset (filter ?keep ?ds)) = size (mset (filter ?keep (resolutions st)))" by (simp only: mset_filter)
  then show "length es = length (filter (\<lambda>x. placed_global ps (snd x)) (resolutions st))"
    using list_all2_lengthD [OF all2] by (simp only: size_mset)
  show "x \<in> set (resolutions st) \<Longrightarrow> placed_global ps (snd x) \<Longrightarrow> \<exists>e \<in> set es. global_row objs ps tls x e"
    using list_all2_in_set [OF all2] mem by blast
  show "e \<in> set es \<Longrightarrow> \<exists>x \<in> set (resolutions st). placed_global ps (snd x) \<and> global_row objs ps tls x e"
    using list_all2_in_set' [OF all2] mem by blast
qed

text \<open>C28: 
  When the table is built, the names contain no NUL and \<^verbatim>\<open>.strtab\<close> stays below 4 GiB: every entry's name offset
  leads to its name in \<^verbatim>\<open>.strtab\<close>.  The entries below \<^verbatim>\<open>sh_info\<close> are, one for one and in object and symbol order,
  the named local symbols whose section has a place in the output: local binding, the header index of that output
  section (one more than its position), the symbol's type, size and address, the address being its section's plus
  its value.  The entries above are in name order and as many as the defined globals that are absolute (or
  imported) or whose section has a place: global or weak binding, header index, type.  A symbol whose raw section
  index is the list position of a thread-local section (the source looks the flag up by position, although
  positions and indices differ) has type TLS and its offset in the TLS image instead.\<close>

theorem symtab_plan_spec:
  assumes p: "build_symtab_plan st objs ps tls = Some (symtab, strtab, n)"
    and small: "length strtab < 2 ^ 32" and nn: "list_all (\<lambda>e. no_nul (se_name e)) symtab"
  shows "symtab_ok st objs ps tls symtab strtab n"
proof -
  define ls where "ls = local_plan objs ps tls"
  obtain gs where g: "global_plan st objs ps tls = Some gs" using p by (auto simp: build_symtab_plan_def)
  obtain offs d where push': "push_strs (map fst (ls @ gs)) [0] = (offs, d)" by fastforce
  have push: "push_strs (map fst (ls @ gs)) [0] = (offs, strtab)"
    and sy: "symtab = name_entries (ls @ gs) offs" and n: "n = length ls"
    using p push' by (simp_all add: build_symtab_plan_def Let_def ls_def [symmetric] g)
  have lo: "length offs = length (ls @ gs)" using length_push_strs [OF push] by simp
  have rows: "map entry_row symtab = ls @ gs" unfolding sy by (rule entry_row_names [OF lo])
  have len: "length symtab = length (ls @ gs)" using rows by (metis length_map)
  have names: "map se_name symtab = map fst (ls @ gs)"
    unfolding rows [symmetric] by (simp add: entry_row_def)
  have nul: "\<forall>s \<in> set (map fst (ls @ gs)). no_nul s"
    using nn by (simp only: names [symmetric]) (simp add: list_all_iff)
  have "cstr_at strtab (unat (se_name_off (symtab ! k))) = ascii (se_name (symtab ! k))" if "k < length symtab" for k
    using push_strs_spec(3) [OF push nul, of k "[]"] that small len name_entries_off [OF lo, of k] nth_map [of k symtab se_name]
    by (simp only: sy [symmetric] names append_Nil2 length_map)
  then have "list_all (\<lambda>e. cstr_at strtab (unat (se_name_off e)) = ascii (se_name e)) symtab" by (simp add: list_all_length)
  moreover have "map entry_row (take n symtab) = ls" "map entry_row (drop n symtab) = gs"
    by (simp_all add: take_map [symmetric] drop_map [symmetric] rows n)
  ultimately show ?thesis
    using local_plan_rows [of "take n symtab" objs ps tls] global_plan_rows [of st objs ps tls "drop n symtab"] g
    unfolding symtab_ok_def ls_def by blast
qed

text \<open>A local \<open>helper\<close> and a global \<open>main\<close>, both in the first output section.\<close>

definition meta_symbol :: "name \<Rightarrow> binding \<Rightarrow> u64 \<Rightarrow> input_symbol" where
  "meta_symbol n b v =
     \<lparr>sym_index = 1, sym_name = n, sym_binding = b, sym_is_undefined = False, sym_is_common = False,
      sym_is_ifunc = False, sym_st_type = 2, sym_visibility = 0, sym_section = Some 1, sym_value = v, sym_size = 4\<rparr>"

definition meta_resolution :: resolution where
  "meta_resolution =
     \<lparr>res_id = 0, res_binding = Global, res_defined_in = Some 0, res_section_index = Some 1, res_value = 4,
      res_size = 6, res_common = None, res_import = False, res_copy_reloc = False, res_dynsym_index = 0,
      res_virtual_address = 0, res_got_address = 0, res_plt_address = 0, res_gottp_address = 0,
      res_version = None, res_soname = None, res_is_ifunc = False, res_st_type = 2, res_visibility = 0\<rparr>"

definition meta_objects :: "input_object list" where
  "meta_objects = [parsed_object (1, 2) ''a.o'' [code_section 1 ''.text'' 4 10]
     [meta_symbol ''helper'' Local 0, meta_symbol ''main'' Global 4] []]"

definition meta_table :: symbol_table where
  "meta_table = symbol_table_new\<lparr>resolutions := [(''main'', meta_resolution)], names := [''main'']\<rparr>"

definition meta_places :: place_state where
  "meta_places = \<lparr>pl_va = 0x40100a, pl_sections = [], pl_addresses = [((0, 1), 0x401000)], pl_sec_to_out = [((0, 1), 0)]\<rparr>"

theorem symtab_plan_spec_witness:
  "\<exists>symtab strtab. build_symtab_plan meta_table meta_objects meta_places None = Some (symtab, strtab, 1) \<and>
     map se_name symtab = [''helper'', ''main''] \<and> symtab_ok meta_table meta_objects meta_places None symtab strtab 1"
proof -
  have l: "local_plan meta_objects meta_places None = [(''helper'', 1, st_info 0 2, Some (0x401000, 4))]"
    by (simp add: local_plan_def meta_objects_def meta_symbol_def meta_places_def parsed_object_def map_filter_simps
        local_planned_def in_tls_section_def code_section_def get_def)
  have g: "global_plan meta_table meta_objects meta_places None = Some [(''main'', 1, st_info 1 2, None)]"
    by (simp add: global_plan_def defined_globals_def meta_table_def is_defined_def meta_resolution_def meta_places_def
        global_planned_def global_in_tls_def in_tls_section_def meta_objects_def parsed_object_def code_section_def
        map_filter_simps get_def symbol_table_new_def)
  obtain symtab strtab where p: "build_symtab_plan meta_table meta_objects meta_places None = Some (symtab, strtab, 1)"
    and names: "map se_name symtab = [''helper'', ''main'']" and len: "length strtab = 13"
    by (simp add: build_symtab_plan_def l g push_str_def name_entries_def Let_def ascii_def)
  have nn: "list_all (\<lambda>e. no_nul (se_name e)) symtab"
  proof -
    have "list_all no_nul (map se_name symtab)" unfolding names by (simp add: no_nul_def ascii_def)
    then show ?thesis by (simp add: list.pred_map o_def)
  qed
  show ?thesis using p names symtab_plan_spec [OF p _ nn] by (auto simp: len)
qed

end
