(* ===== verification/Layout_Dynamic.thy ===== *)
theory Layout_Dynamic
  imports Layout_Meta Reloc_Apply
begin

text \<open>
  What \<^verbatim>\<open>compute_layout_icf\<close> fills in once addresses are known: the GOT base and the TLS part of the GOT,
  the storage of common and copied symbols, the TLS block, the entry address, the relocations of
  \<^verbatim>\<open>.rela.dyn\<close> that name symbols, the PLT with its slots and relocations, \<^verbatim>\<open>.dynamic\<close>, and the values of the
  exported and copied \<^verbatim>\<open>.dynsym\<close> entries.
\<close>

section \<open>The GOT and the synthetic storage\<close>

definition section_of_source :: "output_section list \<Rightarrow> sec_source \<Rightarrow> output_section option" where
  "section_of_source secs src = find (\<lambda>s. os_source s = src) secs"

definition va_of :: "output_section list \<Rightarrow> sec_source \<Rightarrow> u64" where
  "va_of secs src = (case section_of_source secs src of Some s \<Rightarrow> os_sh_addr s | None \<Rightarrow> 0)"

definition synthetic_bss :: "output_section list \<Rightarrow> output_section option" where
  "synthetic_bss secs = find (\<lambda>s. os_source s = SrcBss \<and> os_contributions s = []) secs"

definition bss_addresses :: "output_section list \<Rightarrow> (u32 \<times> u64) list \<Rightarrow> (u32 \<times> u64) list" where
  "bss_addresses secs offs =
     (let base = (case synthetic_bss secs of Some s \<Rightarrow> os_sh_addr s | None \<Rightarrow> 0) in map (\<lambda>(i, off). (i, base + off)) offs)"

definition synthetic_bss_shndx :: "output_section list \<Rightarrow> u16" where
  "synthetic_bss_shndx secs = (case synthetic_bss secs of Some s \<Rightarrow> ucast (os_shndx s) | None \<Rightarrow> SHN_ABS)"

record tls_addrs =
  ta_gd :: "(tls_ref \<times> u64) list"
  ta_desc :: "(tls_ref \<times> u64) list"
  ta_ldm :: "u64 option"
  ta_ie :: "(tls_ref \<times> u64) list"
  ta_end :: u64

definition assign_slots :: "u64 \<Rightarrow> tls_ref list \<Rightarrow> u64 \<Rightarrow> (tls_ref \<times> u64) list \<times> u64" where
  "assign_slots width refs cur = fold (\<lambda>r (m, cur). (AList.update r cur m, cur + width)) refs ([], cur)"

definition tls_got_addrs :: "u64 \<Rightarrow> nat \<Rightarrow> tls_got_info \<Rightarrow> tls_addrs" where
  "tls_got_addrs base n_got tls =
     (case assign_slots 16 (tg_gd tls) (base + of_nat n_got * 8) of (gd, c1) \<Rightarrow>
      case assign_slots 16 (tg_desc tls) c1 of (desc, c2) \<Rightarrow>
      let c3 = (if tg_ldm tls then c2 + 16 else c2) in
      case assign_slots 8 (tg_ie tls) c3 of (ie, c4) \<Rightarrow>
        \<lparr>ta_gd = gd, ta_desc = desc, ta_ldm = (if tg_ldm tls then Some c2 else None), ta_ie = ie, ta_end = c4\<rparr>)"

section \<open>The TLS block\<close>

record tls_block =
  tb_off :: u64
  tb_align :: u64
  tb_vaddr :: u64
  tb_file_off :: u64
  tb_filesz :: u64
  tb_first :: bool
  tb_offsets :: "(sec_key \<times> u64) list"

definition tls_block_step :: "output_section \<Rightarrow> tls_block \<Rightarrow> tls_block" where
  "tls_block_step s b =
     (let align = max (os_sh_addralign s) 1; off = align_up (tb_off b) align in
      b\<lparr>tb_align := max (tb_align b) align,
        tb_vaddr := (if tb_first b then os_sh_addr s else tb_vaddr b),
        tb_file_off := (if tb_first b then os_sh_offset s else tb_file_off b),
        tb_first := False,
        tb_offsets := fold (\<lambda>c. AList.update (contribution_key c) (off + con_offset c)) (os_contributions s) (tb_offsets b),
        tb_filesz := (if os_kind s = Tdata then tb_filesz b + os_sh_size s else tb_filesz b),
        tb_off := off + os_sh_size s\<rparr>)"

definition tls_layout :: "output_section list \<Rightarrow> tls_block" where
  "tls_layout secs =
     fold tls_block_step (filter (\<lambda>s. os_kind s = Tdata) secs @ filter (\<lambda>s. os_kind s = Tbss) secs)
       \<lparr>tb_off = 0, tb_align = 1, tb_vaddr = 0, tb_file_off = 0, tb_filesz = 0, tb_first = True, tb_offsets = []\<rparr>"

definition tls_block_size :: "tls_block \<Rightarrow> u64" where
  "tls_block_size b = align_up (tb_off b) (tb_align b)"

section \<open>Entry\<close>

text \<open>A defined symbol with a section but no defining object panics (the failed \<^verbatim>\<open>unwrap\<close>).\<close>

definition resolve_entry :: "symbol_table \<Rightarrow> (sec_key \<times> u64) list \<Rightarrow> name \<Rightarrow> (layout_error, u64) outcome" where
  "resolve_entry st addrs entry =
     (case lookup st entry of
        None \<Rightarrow> Err (NoEntry entry)
      | Some r \<Rightarrow>
          if \<not> is_defined r then Err (NoEntry entry)
          else (case res_section_index r of
            None \<Rightarrow> Ok (res_value r)
          | Some si \<Rightarrow>
              (case res_defined_in r of
                 None \<Rightarrow> Panic
               | Some obj \<Rightarrow>
                   (case map_of addrs (unat obj, si) of Some va \<Rightarrow> Ok (va + res_value r) | None \<Rightarrow> Err (NoEntry entry)))))"

definition layout_entry :: "layout_args \<Rightarrow> (sec_key \<times> u64) list \<Rightarrow> (layout_error, u64) outcome" where
  "layout_entry la addrs =
     (case resolve_entry (la_symbols la) addrs (cfg_entry_symbol (la_config la)) of
        Err e \<Rightarrow> if cfg_shared (la_config la) then Ok 0 else Err e
      | r \<Rightarrow> r)"

section \<open>Relocations that name symbols\<close>

definition rela_bytes :: "u64 \<Rightarrow> u64 \<Rightarrow> u64 \<Rightarrow> bytes" where
  "rela_bytes slot info addend = to_le 8 slot @ to_le 8 info @ to_le 8 addend"

definition rela_info :: "u32 \<Rightarrow> u64 \<Rightarrow> u64" where
  "rela_info dynidx t = push_bit 32 (ucast dynidx) OR t"

definition dynidx_of :: "dyn_prebuild \<Rightarrow> name \<Rightarrow> u32" where
  "dynidx_of p n = (case map_of (pb_import_dynsym p) n of Some i \<Rightarrow> i | None \<Rightarrow> 0)"

definition glob_dat_bytes :: "layout_args \<Rightarrow> dyn_prebuild \<Rightarrow> u64 \<Rightarrow> bytes" where
  "glob_dat_bytes la p base =
     concat (map (\<lambda>(i, sid). rela_bytes (base + of_nat i * 8)
         (rela_info (case name_by_id (la_symbols la) sid of Some n \<Rightarrow> dynidx_of p n | None \<Rightarrow> 0) 6) 0)
       (filter (\<lambda>(i, sid). is_glob_dat (la_symbols la) sid) (enumerate 0 (la_got_syms la))))"

definition copy_bytes :: "symbol_table \<Rightarrow> dyn_prebuild \<Rightarrow> (u32 \<times> u64) list \<Rightarrow> bytes" where
  "copy_bytes st p copies =
     concat (map (\<lambda>(sid, va). case name_by_id st sid of
         None \<Rightarrow> [] | Some n \<Rightarrow> rela_bytes va (rela_info (dynidx_of p n) 5) 0) copies)"

section \<open>The PLT\<close>

definition is_plt_ifunc :: "symbol_table \<Rightarrow> u32 \<Rightarrow> bool" where
  "is_plt_ifunc st sid =
     (case Option.bind (name_by_id st sid) (lookup st) of
        Some r \<Rightarrow> res_is_ifunc r \<and> is_defined r \<and> \<not> res_import r | None \<Rightarrow> False)"

definition plt_slot_va :: "u64 \<Rightarrow> nat \<Rightarrow> u64" where
  "plt_slot_va gotplt i = gotplt + of_nat (i + 3) * 8"

definition plt_stub :: "u64 \<Rightarrow> u64 \<Rightarrow> nat \<Rightarrow> bytes" where
  "plt_stub plt gotplt i =
     (let disp = ucast (plt_slot_va gotplt i - (plt + of_nat i * 16 + 6)) :: u32 in
      [0xff, 0x25] @ to_le 4 disp @ replicate 10 0x90)"

definition plt_rela :: "symbol_table \<Rightarrow> dyn_prebuild \<Rightarrow> u64 \<Rightarrow> nat \<Rightarrow> u32 \<Rightarrow> bytes" where
  "plt_rela st p gotplt i sid =
     rela_bytes (plt_slot_va gotplt i)
       (if is_plt_ifunc st sid then 37
        else rela_info (case name_by_id st sid of Some n \<Rightarrow> dynidx_of p n | None \<Rightarrow> 0) 7) 0"

record plt_plan =
  pp_plt :: bytes
  pp_got_plt :: bytes
  pp_rela_plt :: bytes
  pp_ifuncs :: "(nat \<times> u32) list"

definition build_plt :: "symbol_table \<Rightarrow> dyn_prebuild \<Rightarrow> u32 list \<Rightarrow> u64 \<Rightarrow> u64 \<Rightarrow> u64 \<Rightarrow> plt_plan" where
  "build_plt st p plt_syms plt gotplt dynamic_va =
     (if plt_syms = [] then \<lparr>pp_plt = [], pp_got_plt = [], pp_rela_plt = [], pp_ifuncs = []\<rparr>
      else
       \<lparr>pp_plt = concat (map (\<lambda>(i, sid). plt_stub plt gotplt i) (enumerate 0 plt_syms)),
        pp_got_plt = to_le 8 dynamic_va @ to_le 8 (0 :: u64) @ to_le 8 (0 :: u64) @
          concat (map (\<lambda>sid. to_le 8 (0 :: u64)) plt_syms),
        pp_rela_plt = concat (map (\<lambda>(i, sid). plt_rela st p gotplt i sid) (enumerate 0 plt_syms)),
        pp_ifuncs = map (\<lambda>(i, sid). (24 * i + 16, sid)) (filter (\<lambda>(i, sid). is_plt_ifunc st sid) (enumerate 0 plt_syms))\<rparr>)"


section \<open>.dynamic\<close>

text \<open>\<^verbatim>\<open>total_rela\<close> and the tag list, in the order of the \<^verbatim>\<open>push_dyn\<close> calls.\<close>

definition total_rela :: "layout_args \<Rightarrow> dynamic_info \<Rightarrow> u64" where
  "total_rela la d =
     of_nat (n_glob_dat (la_symbols la) (la_got_syms la) + di_n_relative d + di_n_tls_reloc d + length (di_copy_relocs d) +
             di_n_symbolic_data d) * of_nat RELA_SIZE"

definition dyn_flags :: "dynamic_info \<Rightarrow> bool \<Rightarrow> (u64 \<times> u64) list" where
  "dyn_flags d has_plt =
     (if di_pie d then [(30, 8), (0x6ffffffb, 1 OR 0x08000000)]
      else if di_shared d then [(30, 8), (0x6ffffffb, 1)]
      else if has_plt then [(30, 8)] else [])"

definition dyn_named :: "output_section list \<Rightarrow> name \<Rightarrow> (output_section \<Rightarrow> (u64 \<times> u64) list) \<Rightarrow> (u64 \<times> u64) list" where
  "dyn_named secs n f = (case find (\<lambda>s. os_name s = n) secs of Some s \<Rightarrow> f s | None \<Rightarrow> [])"

definition dyn_array :: "u64 \<Rightarrow> u64 \<Rightarrow> output_section \<Rightarrow> (u64 \<times> u64) list" where
  "dyn_array tag_arr tag_sz s = [(tag_arr, os_sh_addr s), (tag_sz, os_sh_size s)]"

definition dyn_opt :: "u64 \<Rightarrow> u32 option \<Rightarrow> (u64 \<times> u64) list" where
  "dyn_opt tag off = (case off of Some off \<Rightarrow> [(tag, ucast off)] | None \<Rightarrow> [])"

definition dyn_tags :: "layout_args \<Rightarrow> dynamic_info \<Rightarrow> dyn_prebuild \<Rightarrow> output_section list \<Rightarrow> (u64 \<times> u64) list" where
  "dyn_tags la d p secs =
     (let db = pb_blobs p; va = va_of secs; has_plt = (la_plt_syms la \<noteq> []) in
      map (\<lambda>off. (1, ucast off)) (pb_needed_off p) @
      dyn_opt 14 (pb_soname_off p) @
      dyn_opt (if di_enable_new_dtags d then 29 else 15) (pb_rpath_off p) @
      (if db_hash db \<noteq> [] then [(4, va SrcHash)] else []) @
      (if db_gnu_hash db \<noteq> [] then [(0x6ffffef5, va SrcGnuHash)] else []) @
      [(5, va SrcDynStr), (6, va SrcDynSym), (10, of_nat (length (db_dynstr db))), (11, 24)] @
      (if 0 < total_rela la d then [(7, va SrcRelaDyn), (8, total_rela la d), (9, of_nat RELA_SIZE)] else []) @
      (if di_n_irelative d < di_n_relative d then [(0x6ffffff9, of_nat (di_n_relative d - di_n_irelative d))] else []) @
      (if has_plt then [(3, va SrcGotPlt), (2, of_nat (length (la_plt_syms la)) * of_nat RELA_SIZE), (20, 7), (23, va SrcRelaPlt)]
       else []) @
      (if 0 < db_verneed_num db
       then [(0x6ffffff0, va SrcGnuVersion), (0x6ffffffe, va SrcGnuVersionR), (0x6fffffff, db_verneed_num db)] else []) @
      dyn_flags d has_plt @
      dyn_named secs ''.init'' (\<lambda>s. [(12, os_sh_addr s)]) @
      dyn_named secs ''.fini'' (\<lambda>s. [(13, os_sh_addr s)]) @
      dyn_named secs ''.init_array'' (dyn_array 25 27) @
      dyn_named secs ''.fini_array'' (dyn_array 26 28) @
      [(0, 0)])"

definition push_dyn :: "u64 \<times> u64 \<Rightarrow> bytes" where
  "push_dyn = (\<lambda>(tag, val). to_le 8 tag @ to_le 8 val)"

definition dynamic_bytes :: "layout_args \<Rightarrow> dynamic_info \<Rightarrow> dyn_prebuild \<Rightarrow> output_section list \<Rightarrow> bytes" where
  "dynamic_bytes la d p secs = concat (map push_dyn (dyn_tags la d p secs))"

section \<open>Values of exported and copied symbols\<close>

text \<open>The section index, value and size of the \<^verbatim>\<open>.dynsym\<close> entry at an offset; \<open>None\<close> is an entry out of range.\<close>

definition patch_entry :: "nat \<Rightarrow> u16 \<Rightarrow> u64 \<Rightarrow> u64 \<Rightarrow> bytes \<Rightarrow> bytes option" where
  "patch_entry off shndx v sz dynsym = splice dynsym (off + 6) (to_le 2 shndx @ to_le 8 v @ to_le 8 sz)"

definition export_value :: "place_state \<Rightarrow> resolution \<Rightarrow> u16 \<times> u64" where
  "export_value ps r =
     (case res_section_index r of
        None \<Rightarrow> (SHN_ABS, res_value r)
      | Some si \<Rightarrow>
          (let key = (case res_defined_in r of Some obj \<Rightarrow> unat obj | None \<Rightarrow> 0, si) in
           case map_of (pl_sec_to_out ps) key of
             Some out \<Rightarrow>
               (of_nat (out + 1), (case map_of (pl_addresses ps) key of Some va \<Rightarrow> va | None \<Rightarrow> 0) + res_value r)
           | None \<Rightarrow> (SHN_ABS, res_value r)))"

definition patch_export :: "symbol_table \<Rightarrow> place_state \<Rightarrow> name \<times> nat \<Rightarrow> bytes \<Rightarrow> bytes option" where
  "patch_export st ps = (\<lambda>(n, off) dynsym.
     (case lookup st n of
        None \<Rightarrow> Some dynsym
      | Some r \<Rightarrow> (case export_value ps r of (shndx, v) \<Rightarrow> patch_entry off shndx v (res_size r) dynsym)))"

definition patch_copy :: "symbol_table \<Rightarrow> u16 \<Rightarrow> (u32 \<times> u64) list \<Rightarrow> u32 \<times> nat \<Rightarrow> bytes \<Rightarrow> bytes option" where
  "patch_copy st shndx copies = (\<lambda>(sid, off) dynsym.
     (case Option.bind (name_by_id st sid) (lookup st) of
        None \<Rightarrow> Some dynsym
      | Some r \<Rightarrow>
          (case find (\<lambda>(copy_id, _). copy_id = sid) copies of
             None \<Rightarrow> Some dynsym
           | Some (_, v) \<Rightarrow> patch_entry off shndx v (res_size r) dynsym)))"

definition patch_all :: "('a \<Rightarrow> bytes \<Rightarrow> bytes option) \<Rightarrow> 'a list \<Rightarrow> bytes \<Rightarrow> bytes option" where
  "patch_all f xs b = fold (\<lambda>x b. Option.bind b (f x)) xs (Some b)"

definition patch_dynsym ::
  "symbol_table \<Rightarrow> place_state \<Rightarrow> dyn_prebuild \<Rightarrow> u16 \<Rightarrow> (u32 \<times> u64) list \<Rightarrow> bytes option" where
  "patch_dynsym st ps p bss_shndx copies =
     Option.bind (patch_all (patch_export st ps) (pb_export_patch p) (db_dynsym (pb_blobs p)))
       (patch_all (patch_copy st bss_shndx copies) (pb_copy_patch p))"

section \<open>The blobs of a dynamic link\<close>

record dyn_fill =
  df_blobs :: dyn_blobs
  df_plt_base :: u64
  df_ifuncs :: "(nat \<times> u32) list"

definition fill_dynamic ::
  "layout_args \<Rightarrow> dynamic_info \<Rightarrow> dyn_prebuild \<Rightarrow> place_state \<Rightarrow> output_section list \<Rightarrow> (u32 \<times> u64) list \<Rightarrow>
   dyn_fill option" where
  "fill_dynamic la d p ps secs copies =
     (let st = la_symbols la; db = pb_blobs p; plt_base = va_of secs SrcPlt;
          plt = build_plt st p (la_plt_syms la) plt_base (va_of secs SrcGotPlt) (va_of secs SrcDynamic)
      in map_option (\<lambda>dynsym.
           \<lparr>df_blobs = db\<lparr>db_rela_glob_dat := glob_dat_bytes la p (va_of secs SrcGot),
              db_rela_copy := copy_bytes st p copies, db_rela_dyn := [],
              db_plt := pp_plt plt, db_got_plt := pp_got_plt plt, db_rela_plt := pp_rela_plt plt,
              db_dynamic := dynamic_bytes la d p secs, db_dynsym := dynsym\<rparr>,
            df_plt_base = plt_base, df_ifuncs = pp_ifuncs plt\<rparr>)
         (patch_dynsym st ps p (synthetic_bss_shndx secs) copies))"

section \<open>The PLT leads to its slots\<close>

text \<open>Where the processor finds the target of stub \<open>i\<close>: \<^verbatim>\<open>jmp *disp(%rip)\<close> is six bytes long and reads the slot at
  the address after it plus the sign-extended displacement.\<close>

definition stub_slot :: "bytes \<Rightarrow> u64 \<Rightarrow> nat \<Rightarrow> u64" where
  "stub_slot code plt i = plt + of_nat i * 16 + 6 + scast (from_le (take 4 (drop (16 * i + 2) code)) :: u32)"

definition rela_slot :: "bytes \<Rightarrow> nat \<Rightarrow> u64" where
  "rela_slot rela i = from_le (take 8 (drop (24 * i) rela))"

definition rela_word :: "bytes \<Rightarrow> nat \<Rightarrow> u64" where
  "rela_word rela i = from_le (take 8 (drop (24 * i + 8) rela))"

lemma take_drop_in_row:
  assumes "\<forall>b \<in> set bs. length b = n" "k < length bs" "j + m \<le> n"
  shows "take m (drop (n * k + j) (concat bs)) = take m (drop j (bs ! k))"
proof -
  have "take m (drop j (take n (drop (n * k) (concat bs @ [])))) = take m (drop j (bs ! k))"
    by (simp only: take_drop_rows [OF assms(1,2)])
  moreover have "min m (n - j) = m" using assms(3) by simp
  ultimately show ?thesis by (simp add: drop_take add.commute)
qed

lemma length_plt_stub [simp]: "length (plt_stub plt gotplt i) = 16"
  by (simp add: plt_stub_def Let_def)

lemma length_plt_rela [simp]: "length (plt_rela st p gotplt i sid) = 24"
  by (simp add: plt_rela_def rela_bytes_def)

lemma plt_rela_words:
  "from_le (take 8 (plt_rela st p gotplt i sid)) = plt_slot_va gotplt i"
  "from_le (take 8 (drop 8 (plt_rela st p gotplt i sid))) =
     (if is_plt_ifunc st sid then 37
      else rela_info (case name_by_id st sid of Some n \<Rightarrow> dynidx_of p n | None \<Rightarrow> 0) 7)"
  by (simp_all add: plt_rela_def rela_bytes_def byte_simps)

lemma build_plt_rows:
  assumes "i < length syms"
  shows "stub_slot (pp_plt (build_plt st p syms plt gotplt dynamic_va)) plt i =
      plt + of_nat i * 16 + 6 + scast (ucast (plt_slot_va gotplt i - (plt + of_nat i * 16 + 6)) :: u32)"
    "rela_slot (pp_rela_plt (build_plt st p syms plt gotplt dynamic_va)) i = plt_slot_va gotplt i"
    "rela_word (pp_rela_plt (build_plt st p syms plt gotplt dynamic_va)) i =
      (if is_plt_ifunc st (syms ! i) then 37
       else rela_info (case name_by_id st (syms ! i) of Some n \<Rightarrow> dynidx_of p n | None \<Rightarrow> 0) 7)"
proof -
  define pl where "pl = build_plt st p syms plt gotplt dynamic_va"
  define stubs where "stubs = map (\<lambda>(i, sid). plt_stub plt gotplt i) (enumerate 0 syms)"
  define relas where "relas = map (\<lambda>(i, sid). plt_rela st p gotplt i sid) (enumerate 0 syms)"
  have pl: "pp_plt pl = concat stubs" "pp_rela_plt pl = concat relas"
    using assms by (auto simp: pl_def build_plt_def stubs_def relas_def)
  have s: "\<forall>b \<in> set stubs. length b = 16" "i < length stubs" "stubs ! i = plt_stub plt gotplt i"
    using assms by (auto simp: stubs_def nth_enumerate_eq)
  have r: "\<forall>b \<in> set relas. length b = 24" "i < length relas" "relas ! i = plt_rela st p gotplt i (syms ! i)"
    using assms by (auto simp: relas_def nth_enumerate_eq)
  have "take 4 (drop 2 (plt_stub plt gotplt i)) = to_le 4 (ucast (plt_slot_va gotplt i - (plt + of_nat i * 16 + 6)) :: u32)"
    by (simp add: plt_stub_def Let_def)
  then show "stub_slot (pp_plt pl) plt i =
      plt + of_nat i * 16 + 6 + scast (ucast (plt_slot_va gotplt i - (plt + of_nat i * 16 + 6)) :: u32)"
    using take_drop_in_row [OF s(1,2), of 2 4] by (simp add: stub_slot_def pl(1) s(3) byte_simps)
  show "rela_slot (pp_rela_plt pl) i = plt_slot_va gotplt i"
    using take_drop_in_row [OF r(1,2), of 0 8] by (simp add: rela_slot_def pl(2) r(3) plt_rela_words)
  show "rela_word (pp_rela_plt pl) i =
      (if is_plt_ifunc st (syms ! i) then 37
       else rela_info (case name_by_id st (syms ! i) of Some n \<Rightarrow> dynidx_of p n | None \<Rightarrow> 0) 7)"
    using take_drop_in_row [OF r(1,2), of 8 8] by (simp only: rela_word_def pl(2) r(3) plt_rela_words)
qed

text \<open>C23: 
  When the slots are within 2 GiB of the stubs, every PLT stub jumps through its own word of \<^verbatim>\<open>.got.plt\<close>,
  which is also the word the entry of \<^verbatim>\<open>.rela.plt\<close> with the same index tells the loader to fill; that entry is
  \<^verbatim>\<open>IRELATIVE\<close> for a defined ifunc and otherwise \<^verbatim>\<open>JUMP_SLOT\<close> for the symbol's \<^verbatim>\<open>.dynsym\<close> index; the three tables
  have one entry per symbol, and \<^verbatim>\<open>.got.plt\<close> three reserved words before them.\<close>

theorem plt_stub_reaches_slot:
  assumes "syms \<noteq> []"
    and near: "\<forall>i < length syms. fits_i32 (gotplt + of_nat (i + 3) * 8 - (plt + of_nat i * 16 + 6))"
  shows "(let pl = build_plt st p syms plt gotplt dynamic_va in
     length (pp_plt pl) = 16 * length syms \<and> length (pp_rela_plt pl) = 24 * length syms \<and>
     length (pp_got_plt pl) = 8 * (length syms + 3) \<and>
     (\<forall>i < length syms.
        stub_slot (pp_plt pl) plt i = gotplt + of_nat (i + 3) * 8 \<and>
        rela_slot (pp_rela_plt pl) i = gotplt + of_nat (i + 3) * 8 \<and>
        rela_word (pp_rela_plt pl) i =
          (if is_plt_ifunc st (syms ! i) then 37
           else rela_info (case name_by_id st (syms ! i) of Some n \<Rightarrow> dynidx_of p n | None \<Rightarrow> 0) 7)))"
proof -
  have "length (concat (map (\<lambda>(i, sid). plt_stub plt gotplt i) (enumerate 0 syms))) = 16 * length syms"
    "length (concat (map (\<lambda>(i, sid). plt_rela st p gotplt i sid) (enumerate 0 syms))) = 24 * length syms"
    "length (concat (map (\<lambda>sid. to_le 8 (0 :: u64)) syms)) = 8 * length syms"
    by (simp_all add: length_concat o_def case_prod_unfold sum_list_triv)
  then have len: "length (pp_plt (build_plt st p syms plt gotplt dynamic_va)) = 16 * length syms"
    "length (pp_rela_plt (build_plt st p syms plt gotplt dynamic_va)) = 24 * length syms"
    "length (pp_got_plt (build_plt st p syms plt gotplt dynamic_va)) = 8 * (length syms + 3)"
    using assms(1) by (simp_all add: build_plt_def)
  have "stub_slot (pp_plt (build_plt st p syms plt gotplt dynamic_va)) plt i = gotplt + of_nat (i + 3) * 8"
    if "i < length syms" for i
  proof -
    have "scast (ucast (plt_slot_va gotplt i - (plt + of_nat i * 16 + 6)) :: u32) = plt_slot_va gotplt i - (plt + of_nat i * 16 + 6)"
      using near that by (intro scast_ucast_fits) (simp only: plt_slot_va_def)
    then show ?thesis by (simp only: build_plt_rows(1) [OF that]) (simp add: plt_slot_va_def)
  qed
  then show ?thesis using len by (simp add: Let_def build_plt_rows(2,3) plt_slot_va_def)
qed

theorem plt_stub_reaches_slot_witness:
  "stub_slot (pp_plt (build_plt meta_table prebuild_empty [0, 5] 0x401020 0x403000 0x402f00)) 0x401020 1 = 0x403020 \<and>
   rela_slot (pp_rela_plt (build_plt meta_table prebuild_empty [0, 5] 0x401020 0x403000 0x402f00)) 1 = 0x403020"
proof -
  have near: "\<forall>i < length [0, 5 :: u32]. fits_i32 (0x403000 + of_nat (i + 3) * 8 - (0x401020 + of_nat i * 16 + 6))"
    by (simp add: fits_i32_def less_Suc_eq all_simps)
  have "([0, 5] :: u32 list) \<noteq> []" by simp
  from plt_stub_reaches_slot [OF this near, of meta_table prebuild_empty "0x402f00"] show ?thesis
    by (simp only: Let_def) simp
qed

section \<open>The size of .dynamic\<close>

lemma length_concat_rows: "\<forall>b \<in> set bs. length b = n \<Longrightarrow> length (concat bs) = n * length bs"
  by (induction bs) auto

lemma length_dynamic_bytes: "length (dynamic_bytes la d p secs) = 16 * length (dyn_tags la d p secs)"
  unfolding dynamic_bytes_def by (subst length_concat_rows [where n = 16]) (auto simp: push_dyn_def)

lemma length_dyn_opt [simp]: "length (dyn_opt t off) = of_bool (off \<noteq> None)"
  by (simp add: dyn_opt_def split: option.split)

lemma length_dyn_named:
  "(\<And>s. length (f s) = k) \<Longrightarrow> length (dyn_named secs n f) = k * of_bool (n \<in> os_name ` set secs)"
  by (auto simp: dyn_named_def find_None_iff find_Some_iff image_iff split: option.split)

lemma length_dyn_array [simp]: "length (dyn_array a b s) = 2"
  by (simp add: dyn_array_def)

lemma total_rela_pos: "n_rela_dyn la d < 2 ^ 59 \<Longrightarrow> 0 < total_rela la d \<longleftrightarrow> 0 < n_rela_dyn la d"
proof -
  assume n: "n_rela_dyn la d < 2 ^ 59"
  have t: "total_rela la d = of_nat (n_rela_dyn la d * 24)"
    by (simp add: total_rela_def n_rela_dyn_def)
  have "unat (of_nat (n_rela_dyn la d * 24) :: u64) = n_rela_dyn la d * 24"
    using n by (intro unat_of_nat_u64) simp
  then show ?thesis by (simp add: t word_less_nat_alt del: of_nat_mult)
qed

lemma length_dyn_tags:
  assumes "n_rela_dyn la d < 2 ^ 59" "length (pb_needed_off p) = length (di_needed d)"
    "\<And>n. n \<in> {''.init'', ''.fini''} \<Longrightarrow> count_named n (bk_rx k) = of_bool (n \<in> os_name ` set secs)"
    "\<And>n. n \<in> {''.init_array'', ''.fini_array''} \<Longrightarrow> count_named n (bk_rw_pb k) = of_bool (n \<in> os_name ` set secs)"
  shows "length (dyn_tags la d p secs) = dyn_entry_count la d p k"
proof -
  have flags: "length (dyn_flags d (la_plt_syms la \<noteq> [])) =
      (if di_pie d \<or> di_shared d then 2 else if 0 < length (la_plt_syms la) then 1 else 0)"
    by (simp add: dyn_flags_def)
  have nm: "length (dyn_named secs ''.init'' (\<lambda>s. [(12, os_sh_addr s)])) = count_named ''.init'' (bk_rx k)"
    "length (dyn_named secs ''.fini'' (\<lambda>s. [(13, os_sh_addr s)])) = count_named ''.fini'' (bk_rx k)"
    "length (dyn_named secs ''.init_array'' (dyn_array 25 27)) = count_named ''.init_array'' (bk_rw_pb k) * 2"
    "length (dyn_named secs ''.fini_array'' (dyn_array 26 28)) = count_named ''.fini_array'' (bk_rw_pb k) * 2"
    by (simp_all add: length_dyn_named [where k = 1] length_dyn_named [where k = 2] assms(3,4) del: of_bool_eq_iff)
  have rel: "length (if 0 < total_rela la d then [(7, va_of secs SrcRelaDyn), (8, total_rela la d), (9, of_nat RELA_SIZE)] else []) =
      (if 0 < n_rela_dyn la d then 3 else 0)" for va
    using total_rela_pos [OF assms(1)] by simp
  show ?thesis
    unfolding dyn_tags_def dyn_entry_count_def Let_def length_append length_map length_dyn_opt flags nm rel assms(2)
    by simp
qed

text \<open>What the plan holds of a name that is not synthetic: one builder when some input maps to it, else none.\<close>

lemma count_named_mset: "mset as = mset bs \<Longrightarrow> count_named n as = count_named n bs"
  by (metis count_named_def mset_filter size_mset)

lemma count_named_append [simp]: "count_named n (as @ bs) = count_named n as + count_named n bs"
  by (simp add: count_named_def)

lemma count_named_none: "n \<notin> bd_name ` set bs \<Longrightarrow> count_named n bs = 0"
  by (auto simp: count_named_def filter_empty_conv)

lemma count_named_distinct: "distinct (map bd_name bs) \<Longrightarrow> count_named n bs = of_bool (n \<in> bd_name ` set bs)"
  by (induction bs) (auto simp: count_named_def image_iff filter_empty_conv)

lemma count_named_plan:
  assumes "plan_ok la p sp" "n \<in> set init_names"
  shows "count_named n (all_builders (sp_buckets sp)) = of_bool (n \<in> bd_name ` set (all_builders (sp_buckets sp)))"
proof -
  obtain bs new where g: "builders_ok (cfg_script (la_config la)) (selected_sections la) bs"
      "mset (all_builders (sp_buckets sp)) = mset bs + mset new" "list_all synthetic_builder new"
    by (rule plan_ok_grouped [OF assms(1)])
  have none: "n \<notin> bd_name ` set new" using g(3) assms(2) by (auto simp: list_all_iff synthetic_builder_def)
  have "count_named n (all_builders (sp_buckets sp)) = count_named n (bs @ new)"
    by (rule count_named_mset) (simp add: g(2))
  also have "\<dots> = of_bool (n \<in> bd_name ` set bs)"
    using g(1) by (simp add: count_named_none [OF none] count_named_distinct builders_ok_def)
  also have "set_mset (mset (all_builders (sp_buckets sp))) = set_mset (mset bs + mset new)" by (simp only: g(2))
  then have "set (all_builders (sp_buckets sp)) = set bs \<union> set new" by simp
  then have "n \<in> bd_name ` set bs \<longleftrightarrow> n \<in> bd_name ` set (all_builders (sp_buckets sp))"
    using none by (simp add: image_Un)
  finally show ?thesis .
qed

text \<open>Initialiser sections where the reservation looks for them.\<close>

definition init_in_place :: "section_plan \<Rightarrow> bool" where
  "init_in_place sp \<longleftrightarrow>
     (let k = sp_buckets sp in
      (\<forall>b \<in> set (bk_ro k @ bk_rw_pb k @ bk_rw_bss k). bd_name b \<noteq> ''.init'' \<and> bd_name b \<noteq> ''.fini'') \<and>
      (\<forall>b \<in> set (bk_ro k @ bk_rx k @ bk_rw_bss k). bd_name b \<noteq> ''.init_array'' \<and> bd_name b \<noteq> ''.fini_array''))"

lemma count_named_in_place:
  assumes "plan_ok la p sp" "init_in_place sp"
  shows "n \<in> {''.init'', ''.fini''} \<Longrightarrow>
      count_named n (bk_rx (sp_buckets sp)) = of_bool (n \<in> bd_name ` set (all_builders (sp_buckets sp)))"
    "n \<in> {''.init_array'', ''.fini_array''} \<Longrightarrow>
      count_named n (bk_rw_pb (sp_buckets sp)) = of_bool (n \<in> bd_name ` set (all_builders (sp_buckets sp)))"
proof -
  assume n: "n \<in> {''.init'', ''.fini''}"
  then have init: "n \<in> set init_names" by (auto simp: init_names_def)
  have z: "count_named n (bk_ro (sp_buckets sp)) = 0" "count_named n (bk_rw_pb (sp_buckets sp)) = 0"
      "count_named n (bk_rw_bss (sp_buckets sp)) = 0"
    using assms(2) n by (simp_all add: init_in_place_def Let_def) (fastforce intro: count_named_none)+
  show "count_named n (bk_rx (sp_buckets sp)) = of_bool (n \<in> bd_name ` set (all_builders (sp_buckets sp)))"
    using count_named_plan [OF assms(1), of n] init unfolding all_builders_def count_named_append z by simp
next
  assume n: "n \<in> {''.init_array'', ''.fini_array''}"
  then have init: "n \<in> set init_names" by (auto simp: init_names_def)
  have z: "count_named n (bk_ro (sp_buckets sp)) = 0" "count_named n (bk_rx (sp_buckets sp)) = 0"
      "count_named n (bk_rw_bss (sp_buckets sp)) = 0"
    using assms(2) n by (simp_all add: init_in_place_def Let_def) (fastforce intro: count_named_none)+
  show "count_named n (bk_rw_pb (sp_buckets sp)) = of_bool (n \<in> bd_name ` set (all_builders (sp_buckets sp)))"
    using count_named_plan [OF assms(1), of n] init unfolding all_builders_def count_named_append z by simp
qed

lemma dynamic_builder:
  assumes "plan_sections la p = Ok sp" "la_dynamic la = Some d"
  obtains b where "b \<in> set (bk_rw_pb (sp_buckets sp))" "bd_name b = ''.dynamic''"
    "bd_size b = of_nat (dyn_entry_count la d p (sp_buckets sp)) * 16"
proof -
  obtain k where k: "sp_buckets sp = sort_buckets (cfg_script (la_config la)) (synth_dynamic la d p k)"
    using assms by (auto simp: plan_sections_def Let_def split: outcome.splits option.splits)
  define k1 where "k1 = synth_plt (length (la_plt_syms la)) (synth_ro_dyn la d (pb_blobs p) k)"
  define b where "b = rw_builder ''.dynamic'' SHT_DYNAMIC (of_nat (dyn_entry_count la d p k1) * 16)"
  have dy: "synth_dynamic la d p k = add_rw b k1" by (simp add: synth_dynamic_def k1_def b_def Let_def)
  have "count_named n (bk_rx (sp_buckets sp)) = count_named n (bk_rx k1)" for n
    by (rule count_named_mset) (simp add: k dy sort_buckets_def sort_builders_by_script_def add_rw_def)
  moreover have "count_named n (bk_rw_pb (sp_buckets sp)) = count_named n (bk_rw_pb k1)" if "n \<noteq> ''.dynamic''" for n
  proof -
    have "count_named n (bk_rw_pb (sp_buckets sp)) = count_named n (bk_rw_pb k1 @ [b])"
      by (rule count_named_mset) (simp add: k dy sort_buckets_def sort_builders_by_script_def add_rw_def)
    then show ?thesis using that by (simp add: count_named_none b_def rw_builder_def)
  qed
  ultimately have "dyn_entry_count la d p (sp_buckets sp) = dyn_entry_count la d p k1"
    by (simp add: dyn_entry_count_def Let_def)
  then show ?thesis
    by (intro that [of b]) (simp_all add: k dy sort_buckets_def sort_builders_by_script_def add_rw_def b_def rw_builder_def)
qed

text \<open>The placed sections, one for each builder of the plan.\<close>

definition placed_as :: "builder \<Rightarrow> output_section \<Rightarrow> bool" where
  "placed_as b x \<longleftrightarrow> os_name x = bd_name b \<and> os_sh_size x = bd_size b \<and> os_contributions x = bd_contributions b"

lemma placed_sections_as:
  assumes "plan_ok la p sp"
  obtains qs where "mset qs = mset (all_builders (sp_buckets sp))"
    "list_all2 placed_as qs (pl_sections (pm_state (place_sections la sp)))"
proof -
  obtain bs new where g: "builders_ok (cfg_script (la_config la)) (selected_sections la) bs"
      "mset (all_builders (sp_buckets sp)) = mset bs + mset new" "list_all synthetic_builder new"
    by (rule plan_ok_grouped [OF assms])
  obtain qs where q: "mset qs = mset (all_builders (sp_buckets sp))" "list_all2 raised qs (placed_builders sp)"
    by (rule placed_builders_raised [OF builders_aligned [OF g(1) g(3) g(2)]])
  have "list_all2 same_section (placed_builders sp) (pl_sections (place_final la sp))"
    using place_final_ok(1) [OF assms] by (simp add: place_inv_def)
  then have "list_all2 placed_as qs (pl_sections (place_final la sp))"
    by (rule list_all2_trans [OF _ q(2), rotated]) (simp add: raised_def same_section_def placed_as_def)
  then show ?thesis using q(1) by (intro that) (simp_all add: pm_state_place_sections alias_folded_other(2))
qed

lemma final_names:
  assumes ok: "plan_ok la p sp" and mp: "meta_sections la p (place_sections la sp) = Some mp"
    and n: "no_meta_name N" "set (passthrough_names (cfg_strip_debug (la_config la)) (la_objects la)) \<inter> N = {}" "m \<in> N"
  shows "m \<in> os_name ` set (mp_sections mp) \<longleftrightarrow> m \<in> bd_name ` set (all_builders (sp_buckets sp))"
proof -
  obtain qs where q: "mset qs = mset (all_builders (sp_buckets sp))"
      "list_all2 placed_as qs (pl_sections (pm_state (place_sections la sp)))"
    by (rule placed_sections_as [OF ok])
  obtain ys new where y: "mp_sections mp = ys @ new"
      "list_all2 same_body (pl_sections (pm_state (place_sections la sp))) ys" "list_all (meta_like N) new"
    by (rule meta_sections_body [OF mp n(1,2)])
  have "map bd_name qs = map os_name (pl_sections (pm_state (place_sections la sp)))"
    using q(2) by (induction rule: list_all2_induct) (simp_all add: placed_as_def)
  moreover have "map os_name (pl_sections (pm_state (place_sections la sp))) = map os_name ys"
    using y(2) by (induction rule: list_all2_induct) (simp_all add: same_body_def)
  ultimately have "map os_name ys = map bd_name qs" by simp
  from arg_cong [OF this, of set] have "os_name ` set ys = bd_name ` set qs" by simp
  moreover have "set qs = set (all_builders (sp_buckets sp))" by (rule mset_eq_setD [OF q(1)])
  moreover have "m \<notin> os_name ` set new" using y(3) n(3) by (auto simp: list_all_iff meta_like_def)
  ultimately show ?thesis by (simp add: y(1) image_Un)
qed

text \<open>C22: 
  In a dynamic link whose initialiser sections are where the reservation counts them (no \<^verbatim>\<open>.init\<close> or \<^verbatim>\<open>.fini\<close> outside
  the executable sections, no \<^verbatim>\<open>.init_array\<close> or \<^verbatim>\<open>.fini_array\<close> outside the writable ones with content:
  \<open>init_in_place\<close>), in which no section copied through has one of these names, the placement is well formed
  (\<open>plan_ok\<close>) and fewer than 2^59 relocations are reserved: the tags written to \<^verbatim>\<open>.dynamic\<close> after placement take
  exactly the bytes the section was given before it, that is, some output section named \<^verbatim>\<open>.dynamic\<close> has the size of
  the finished blob.  A read-only \<^verbatim>\<open>.init_array\<close> is not covered: its tags were not reserved.\<close>

theorem dynamic_fills_section:
  assumes ok: "plan_ok la p sp" and d: "la_dynamic la = Some d"
    and pre: "prebuild_dynamic (la_symbols la) (cfg_shared (la_config la)) d = Ok p"
    and mp: "meta_sections la p (place_sections la sp) = Some mp"
    and few: "n_rela_dyn la d < 2 ^ 59" and here: "init_in_place sp"
    and pass: "set (passthrough_names (cfg_strip_debug (la_config la)) (la_objects la)) \<inter> set init_names = {}"
  shows "\<exists>x \<in> set (mp_sections mp). os_name x = ''.dynamic'' \<and>
     os_sh_size x = of_nat (length (dynamic_bytes la d p (mp_sections mp)))"
proof -
  have nm: "no_meta_name (set init_names)" by (simp add: no_meta_name_def init_names_def)
  have "length (pb_needed_off p) = length (di_needed d)"
    using pre length_push_strs by (auto simp: prebuild_dynamic_def Let_def split: prod.splits if_splits)
  moreover have "count_named n (bk_rx (sp_buckets sp)) = of_bool (n \<in> os_name ` set (mp_sections mp))"
    if "n \<in> {''.init'', ''.fini''}" for n
    using count_named_in_place(1) [OF ok here that] final_names [OF ok mp nm pass, of n] that by (auto simp: init_names_def)
  moreover have "count_named n (bk_rw_pb (sp_buckets sp)) = of_bool (n \<in> os_name ` set (mp_sections mp))"
    if "n \<in> {''.init_array'', ''.fini_array''}" for n
    using count_named_in_place(2) [OF ok here that] final_names [OF ok mp nm pass, of n] that by (auto simp: init_names_def)
  ultimately have len: "length (dyn_tags la d p (mp_sections mp)) = dyn_entry_count la d p (sp_buckets sp)"
    by (intro length_dyn_tags [OF few]) auto
  have plan: "plan_sections la p = Ok sp" using ok by (simp add: plan_ok_def)
  obtain b where b: "b \<in> set (bk_rw_pb (sp_buckets sp))" "bd_name b = ''.dynamic''"
      "bd_size b = of_nat (dyn_entry_count la d p (sp_buckets sp)) * 16"
    by (rule dynamic_builder [OF plan d])
  obtain qs where q: "mset qs = mset (all_builders (sp_buckets sp))"
      "list_all2 placed_as qs (pl_sections (pm_state (place_sections la sp)))"
    by (rule placed_sections_as [OF ok])
  have "b \<in> set qs" using b(1) mset_eq_setD [OF q(1)] by (simp add: all_builders_def)
  then obtain i where i: "i < length qs" "qs ! i = b" by (auto simp: in_set_conv_nth)
  obtain ys new where y: "mp_sections mp = ys @ new"
      "list_all2 same_body (pl_sections (pm_state (place_sections la sp))) ys"
    by (rule meta_sections_body [OF mp nm pass])
  let ?x = "ys ! i"
  have "placed_as b (pl_sections (pm_state (place_sections la sp)) ! i)" "i < length (pl_sections (pm_state (place_sections la sp)))"
    using list_all2_nthD [OF q(2) i(1)] list_all2_lengthD [OF q(2)] i by simp_all
  then have "i < length ys" "os_name ?x = ''.dynamic''" "os_sh_size ?x = bd_size b"
    using list_all2_nthD [OF y(2), of i] list_all2_lengthD [OF y(2)] b(2) by (simp_all add: placed_as_def same_body_def)
  moreover have "bd_size b = of_nat (length (dynamic_bytes la d p (mp_sections mp)))"
    by (simp add: length_dynamic_bytes len b(3))
  ultimately show ?thesis by (intro bexI [of _ ?x]) (auto simp: y(1))
qed

text \<open>An executable with an interpreter and nothing imported.\<close>

definition dyn_least :: dynamic_info where
  "dyn_least =
     \<lparr>di_imports = [], di_import_versions = [], di_import_sonames = [], di_needed = [], di_interp = None, di_rpath = None,
      di_enable_new_dtags = True, di_hash_style = Sysv, di_pie = False, di_n_relative = 0, di_n_irelative = 0,
      di_shared = False, di_soname = None, di_exports = [], di_n_tls_reloc = 0, di_copy_relocs = [], di_n_symbolic_data = 0\<rparr>"

definition dyn_link :: layout_args where
  "dyn_link = group_demo\<lparr>la_dynamic := Some dyn_least\<rparr>"

lemma dyn_link_prebuild:
  obtains p where "prebuild_dynamic (la_symbols dyn_link) (cfg_shared (la_config dyn_link)) dyn_least = Ok p"
    "length (db_interp (pb_blobs p)) = 28" "length (db_hash (pb_blobs p)) = 16" "db_gnu_hash (pb_blobs p) = []"
    "length (db_dynsym (pb_blobs p)) = 24" "length (db_dynstr (pb_blobs p)) = 1" "db_gnu_version (pb_blobs p) = []"
    "db_gnu_version_r (pb_blobs p) = []" "pb_soname_off p = None" "pb_rpath_off p = None" "db_verneed_num (pb_blobs p) = 0"
proof -
  have fields: "di_imports dyn_least = []" "di_import_versions dyn_least = []" "di_import_sonames dyn_least = []"
    "di_needed dyn_least = []" "di_exports dyn_least = []" "di_soname dyn_least = None" "di_rpath dyn_least = None"
    "di_hash_style dyn_least = Sysv" by (simp_all add: dyn_least_def)
  have sub: "length (interp_of dyn_least) = 28" "length (build_sysv_hash symbol_table_new dyn_least) = 16"
    "length (build_dynsym symbol_table_new dyn_least [] []) = 24" "active_libs [] s = []" "verneed_bytes [] = []" for s
    by (simp_all add: interp_of_def dyn_least_def ascii_def ends_with_def build_sysv_hash_def sysv_tables_def hashed_symbols_def
        copy_import_indices_def total_dynsym_def build_dynsym_def active_libs_def)
  have "\<exists>p. prebuild_dynamic (la_symbols dyn_link) (cfg_shared (la_config dyn_link)) dyn_least = Ok p \<and>
    length (db_interp (pb_blobs p)) = 28 \<and> length (db_hash (pb_blobs p)) = 16 \<and> db_gnu_hash (pb_blobs p) = [] \<and>
    length (db_dynsym (pb_blobs p)) = 24 \<and> length (db_dynstr (pb_blobs p)) = 1 \<and> db_gnu_version (pb_blobs p) = [] \<and>
    db_gnu_version_r (pb_blobs p) = [] \<and> pb_soname_off p = None \<and> pb_rpath_off p = None \<and> db_verneed_num (pb_blobs p) = 0"
    unfolding prebuild_dynamic_def Let_def by (simp add: dyn_link_def group_demo_def demo_args_def config_default_def push_opt_def
        collect_versions_def version_reqs_def fields sub blobs_empty_def)
  then show ?thesis by (elim exE conjE) (rule that)
qed

lemma dyn_link_plan:
  assumes "length (db_interp (pb_blobs p)) = 28" "length (db_hash (pb_blobs p)) = 16" "db_gnu_hash (pb_blobs p) = []"
    "length (db_dynsym (pb_blobs p)) = 24" "length (db_dynstr (pb_blobs p)) = 1" "db_gnu_version (pb_blobs p) = []"
    "db_gnu_version_r (pb_blobs p) = []" "pb_soname_off p = None" "pb_rpath_off p = None" "db_verneed_num (pb_blobs p) = 0"
  obtains sp where "plan_ok dyn_link p sp" "init_in_place sp" "\<not> plan_has_tls sp"
    "''.eh_frame_hdr'' \<notin> bd_name ` set (all_builders (sp_buckets sp))"
proof -
  obtain b where gb: "group_input_sections group_demo = Ok [b]" and b: "bd_perm b = Rx" "unat (bd_size b) = 21" "unat (bd_align b) = 16"
    and bn: "bd_name b = ''.text''"
    by (rule that [OF group_demo_builders]) (simp_all add: new_builder_def code_section_def perm_of_def)
  have cfg: "la_config dyn_link = config_default" "la_dynamic dyn_link = Some dyn_least" "la_symbols dyn_link = symbol_table_new"
      "la_got_syms dyn_link = []" "la_tls dyn_link = \<lparr>tg_gd = [], tg_ie = [], tg_desc = [], tg_ldm = False\<rparr>"
      "la_plt_syms dyn_link = []" "la_arena dyn_link = la_arena group_demo" "la_objects dyn_link = la_objects group_demo"
    by (simp_all add: dyn_link_def group_demo_def demo_args_def)
  have gd: "group_input_sections dyn_link = Ok [b]" "selected_sections dyn_link = selected_sections group_demo"
    using gb by (simp_all add: group_input_sections_def selected_sections_def section_selected_def dyn_link_def)
  have note0: "merge_gnu_property_notes (la_arena group_demo) (la_objects group_demo) = Ok None"
    by (simp add: merge_gnu_property_notes_def property_sections_def group_demo_def demo_args_def parsed_object_def code_section_def)
  have fdes: "link_fdes (la_arena group_demo) (la_objects group_demo) = Some 0"
    by (simp add: link_fdes_def eh_sections_def group_demo_def demo_args_def parsed_object_def code_section_def)
  define ro where "ro = [ro_builder ''.interp'' SHT_PROGBITS 1 28, ro_builder ''.hash'' SHT_HASH 8 16,
    ro_builder ''.dynsym'' SHT_DYNSYM 8 24, ro_builder ''.dynstr'' SHT_STRTAB 1 1]"
  define dy where "dy = rw_builder ''.dynamic'' SHT_DYNAMIC 96"
  define k where "k = \<lparr>bk_ro = [], bk_rx = [b], bk_rw_pb = [], bk_rw_bss = []\<rparr>"
  have k1: "bucket_builders [b] = k" by (simp add: bucket_builders_def b k_def)
  have k2: "synth_got [] \<lparr>tg_gd = [], tg_ie = [], tg_desc = [], tg_ldm = False\<rparr> k = k"
    by (simp add: synth_got_def tls_got_byte_size_def)
  have al: "alloc_bss symbol_table_new (Some dyn_least) = \<lparr>ba_common = [], ba_copy = [], ba_size = 0, ba_align = 1\<rparr>"
    by (simp add: alloc_bss_def common_syms_def symbol_table_new_def map_filter_simps dyn_least_def)
  have k3: "synth_bss \<lparr>ba_common = [], ba_copy = [], ba_size = 0, ba_align = 1\<rparr> k = k" by (simp add: synth_bss_def)
  have k4: "synth_eh_frame_hdr 0 (synth_notes [] False k) = k" by (simp add: synth_eh_frame_hdr_def synth_notes_def)
  have rela: "n_rela_dyn dyn_link dyn_least = 0" by (simp add: n_rela_dyn_def n_glob_dat_def cfg) (simp add: dyn_least_def)
  have ne: "db_hash (pb_blobs p) \<noteq> []" using assms(2) by auto
  have k5: "synth_dynamic dyn_link dyn_least p k = \<lparr>bk_ro = ro, bk_rx = [b], bk_rw_pb = [dy], bk_rw_bss = []\<rparr>"
    by (simp add: synth_dynamic_def synth_ro_dyn_def ro_dyn_table_def synth_plt_def assms rela cfg k_def ro_def dy_def
        add_ro_def add_rw_def dyn_entry_count_def Let_def ne count_named_def bn) (simp add: dyn_least_def)
  have dflt: "cfg_build_id config_default = False" "cfg_script config_default = None"
    by (simp_all add: config_default_def)
  define ks where "ks = sort_buckets None \<lparr>bk_ro = ro, bk_rx = [b], bk_rw_pb = [dy], bk_rw_bss = []\<rparr>"
  define sp where "sp = \<lparr>sp_buckets = ks, sp_bss = \<lparr>ba_common = [], ba_copy = [], ba_size = 0, ba_align = 1\<rparr>, sp_note = [],
    sp_n_fdes = 0\<rparr>"
  have sp: "plan_sections dyn_link p = Ok sp"
    unfolding plan_sections_def gd note0 fdes cfg dflt outcome.case option.case prod.case Let_def k1 k2 al k3 k4 k5 sp_def ks_def ..
  have ks: "set (bk_ro ks) = set ro" "bk_rx ks = [b]" "bk_rw_pb ks = [dy]" "bk_rw_bss ks = []" "mset (bk_ro ks) = mset ro"
    by (simp_all add: ks_def sort_buckets_def sort_builders_by_script_def)
  have sb: "sp_buckets sp = ks" by (simp add: sp_def)
  have here: "init_in_place sp"
    by (auto simp: init_in_place_def sb ks bn ro_def dy_def ro_builder_def rw_builder_def)
  have tls: "\<not> plan_has_tls sp" by (simp add: plan_has_tls_def sb ks is_tls_builder_def dy_def rw_builder_def)
  have eh: "''.eh_frame_hdr'' \<notin> bd_name ` set (all_builders (sp_buckets sp))"
    by (simp add: sb all_builders_def ks bn ro_def dy_def ro_builder_def rw_builder_def)
  have page: "layout_page dyn_link = 2 ^ 12" by (simp add: layout_page_def cfg config_default_def max_def word_le_nat_alt)
  have "is_power_of_two (2 ^ 12)" unfolding is_power_of_two_def list_ex_iff by (intro bexI [of _ 12] refl) simp
  then have "is_power_of_two (layout_page dyn_link)" by (simp only: page)
  moreover have "placement_fits dyn_link sp"
  proof -
    have "mset (map builder_room (bk_ro ks)) = mset (map builder_room ro)" using ks(5) by simp
    then have "sum_list (map builder_room (bk_ro ks)) = sum_list (map builder_room ro)" by (metis sum_mset_sum_list)
    also have "\<dots> = 87" by (simp add: ro_def builder_room_def ro_builder_def)
    finally have r: "sum_list (map builder_room (bk_ro ks)) = 87" .
    have rw: "rw_order sp = ([dy], [])"
      by (simp add: rw_order_def sb ks order_rw_def order_bss_def align_tls_block_def max_tls_align_def is_tls_builder_def
          dy_def rw_builder_def)
    show ?thesis
      using phnum_le [of dyn_link sp]
      by (simp add: placement_fits_def page placed_builders_def sb ks b rw r cfg config_default_def)
        (simp add: builder_room_def dy_def rw_builder_def b)
  qed
  moreover have "sum_list (map placed_room (selected_sections dyn_link)) < 2 ^ 64"
    by (simp add: gd(2) group_demo_selected placed_room_def placed_align_def section_align_def code_section_def)
  moreover have "distinct (map input_key (selected_sections dyn_link))"
    by (simp add: gd(2) group_demo_selected input_key_def)
  moreover have "commons_aligned (la_symbols dyn_link)"
    by (simp add: commons_aligned_def common_syms_def cfg symbol_table_new_def map_filter_simps)
  ultimately show ?thesis using sp here tls eh by (intro that) (auto simp: plan_ok_def)
qed

lemma dyn_link_meta:
  obtains mp where "meta_sections dyn_link p pm = Some mp"
    "set (passthrough_names (cfg_strip_debug (la_config dyn_link)) (la_objects dyn_link)) \<inter> set init_names = {}"
proof -
  have cfg: "la_config dyn_link = config_default" "la_symbols dyn_link = symbol_table_new" "la_objects dyn_link = la_objects group_demo"
    "cfg_strip config_default = False" by (simp_all add: dyn_link_def group_demo_def demo_args_def config_default_def)
  have "build_symtab_plan symbol_table_new (la_objects group_demo) ps tb = Some ([], [0], 0)" for ps tb
    by (simp add: build_symtab_plan_def local_plan_def global_plan_def defined_globals_def symbol_table_new_def group_demo_def
        demo_args_def parsed_object_def map_filter_simps name_entries_def)
  then have "\<exists>mp. meta_sections dyn_link p pm = Some mp" by (simp add: meta_sections_def cfg Let_def)
  moreover have "passthrough_names strip (la_objects group_demo) = []" for strip
    by (simp add: passthrough_names_def group_demo_def demo_args_def parsed_object_def code_section_def should_passthrough_def)
  ultimately show ?thesis using that by (auto simp: cfg)
qed

theorem dynamic_fills_section_witness:
  "\<exists>p sp (mp :: meta_plan) x. plan_ok dyn_link p sp \<and> x \<in> set (mp_sections mp) \<and> os_name x = ''.dynamic'' \<and>
     os_sh_size x = of_nat (length (dynamic_bytes dyn_link dyn_least p (mp_sections mp)))"
proof -
  obtain p where p: "prebuild_dynamic (la_symbols dyn_link) (cfg_shared (la_config dyn_link)) dyn_least = Ok p"
    and sizes: "length (db_interp (pb_blobs p)) = 28" "length (db_hash (pb_blobs p)) = 16" "db_gnu_hash (pb_blobs p) = []"
    "length (db_dynsym (pb_blobs p)) = 24" "length (db_dynstr (pb_blobs p)) = 1" "db_gnu_version (pb_blobs p) = []"
    "db_gnu_version_r (pb_blobs p) = []" "pb_soname_off p = None" "pb_rpath_off p = None" "db_verneed_num (pb_blobs p) = 0"
    by (rule dyn_link_prebuild)
  obtain sp where sp: "plan_ok dyn_link p sp" "init_in_place sp" using dyn_link_plan [OF sizes] by blast
  obtain mp where mp: "meta_sections dyn_link p (place_sections dyn_link sp) = Some mp"
      "set (passthrough_names (cfg_strip_debug (la_config dyn_link)) (la_objects dyn_link)) \<inter> set init_names = {}"
    by (rule dyn_link_meta)
  have d: "la_dynamic dyn_link = Some dyn_least" by (simp add: dyn_link_def)
  have few: "n_rela_dyn dyn_link dyn_least < 2 ^ 59"
    by (simp add: n_rela_dyn_def n_glob_dat_def dyn_link_def group_demo_def demo_args_def dyn_least_def)
  obtain x where x: "x \<in> set (mp_sections mp)" "os_name x = ''.dynamic''"
      "os_sh_size x = of_nat (length (dynamic_bytes dyn_link dyn_least p (mp_sections mp)))"
    by (rule bexE [OF dynamic_fills_section [OF sp(1) d p mp(1) few sp(2) mp(2)]]) (elim conjE, rule that)
  show ?thesis by (intro exI [of _ p] exI [of _ sp] exI [of _ mp] exI [of _ x] conjI sp(1) x)
qed

end
