(* ===== verification/Layout_Segments.thy ===== *)
theory Layout_Segments
  imports Layout_Dynamic
begin

text \<open>
  The end of \<^verbatim>\<open>compute_layout_icf\<close>: the program headers, the RELRO span, the check that as many headers were
  made as room was reserved for, the linker-defined addresses, and the finished \<open>layout\<close>.  \<open>compute_layout\<close>
  is the whole of the layout stage.
\<close>

section \<open>Program headers\<close>

abbreviation (input) PT_LOAD :: u32 where "PT_LOAD \<equiv> 1"
abbreviation (input) PT_DYNAMIC :: u32 where "PT_DYNAMIC \<equiv> 2"
abbreviation (input) PT_INTERP :: u32 where "PT_INTERP \<equiv> 3"
abbreviation (input) PT_NOTE :: u32 where "PT_NOTE \<equiv> 4"
abbreviation (input) PT_PHDR :: u32 where "PT_PHDR \<equiv> 6"
abbreviation (input) PT_TLS :: u32 where "PT_TLS \<equiv> 7"
abbreviation (input) PT_GNU_EH_FRAME :: u32 where "PT_GNU_EH_FRAME \<equiv> 0x6474e550"
abbreviation (input) PT_GNU_STACK :: u32 where "PT_GNU_STACK \<equiv> 0x6474e551"
abbreviation (input) PT_GNU_RELRO :: u32 where "PT_GNU_RELRO \<equiv> 0x6474e552"
abbreviation (input) PT_GNU_PROPERTY :: u32 where "PT_GNU_PROPERTY \<equiv> 0x6474e553"

definition phdr :: "u32 \<Rightarrow> u32 \<Rightarrow> u64 \<Rightarrow> u64 \<Rightarrow> u64 \<Rightarrow> u64 \<Rightarrow> u64 \<Rightarrow> program_header" where
  "phdr t flags off va filesz memsz align =
     \<lparr>p_type = t, p_flags = flags, p_offset = off, p_vaddr = va, p_paddr = va, p_filesz = filesz, p_memsz = memsz,
      p_align = align\<rparr>"

text \<open>A header that covers one section.\<close>

definition section_phdr :: "u32 \<Rightarrow> u32 \<Rightarrow> u64 \<Rightarrow> output_section \<Rightarrow> program_header" where
  "section_phdr t flags align s = phdr t flags (os_sh_offset s) (os_sh_addr s) (os_sh_size s) (os_sh_size s) align"

definition load_phdrs :: "layout_args \<Rightarrow> placement \<Rightarrow> program_header list" where
  "load_phdrs la pm =
     (let base = cfg_base_address (la_config la); page = layout_page la; n = of_nat (pm_phnum pm) * PHDR_SIZE in
      [phdr PT_PHDR 4 EHDR_SIZE (base + EHDR_SIZE) n n 8,
       phdr PT_LOAD 4 0 base (pm_ro_end pm - base) (pm_ro_end pm - base) page] @
      (case pm_rx_seg pm of None \<Rightarrow> []
       | Some (start, e) \<Rightarrow> [phdr PT_LOAD 5 (start - base) start (e - start) (e - start) page]) @
      (case pm_rw_seg pm of None \<Rightarrow> []
       | Some (start, file_end, mem_end) \<Rightarrow>
           [phdr PT_LOAD 6 (start - base) start (file_end - start) (mem_end - start) page]))"

definition insert_second :: "program_header option \<Rightarrow> program_header list \<Rightarrow> program_header list" where
  "insert_second x segs = (case x of None \<Rightarrow> segs | Some p \<Rightarrow> take 1 segs @ p # drop 1 segs)"

definition push_phdr :: "program_header option \<Rightarrow> program_header list \<Rightarrow> program_header list" where
  "push_phdr x segs = (case x of None \<Rightarrow> segs | Some p \<Rightarrow> segs @ [p])"

definition when_found :: "bool \<Rightarrow> output_section option \<Rightarrow> (output_section \<Rightarrow> program_header) \<Rightarrow> program_header option" where
  "when_found b x f = (if b then map_option f x else None)"

section \<open>RELRO\<close>

text \<open>Start, end and file offset of the run of RELRO sections, over the writable sections in address order.\<close>

fun relro_span :: "output_section list \<Rightarrow> (u64 \<times> u64 \<times> u64) option \<Rightarrow> (u64 \<times> u64 \<times> u64) option" where
  "relro_span [] sp = sp"
| "relro_span (s # ss) sp =
     (if is_relro (os_name s) then
        (case sp of
           None \<Rightarrow> relro_span ss (Some (os_sh_addr s, os_sh_addr s + os_sh_size s, os_sh_offset s))
         | Some (lo, hi, off) \<Rightarrow>
             if hi = os_sh_addr s then relro_span ss (Some (lo, os_sh_addr s + os_sh_size s, off)) else sp)
      else if sp \<noteq> None then sp else relro_span ss sp)"

definition relro_phdr :: "output_section list \<Rightarrow> program_header" where
  "relro_phdr secs =
     (case relro_span (sort_key os_sh_addr
             (filter (\<lambda>s. os_sh_flags s AND SHF_ALLOC \<noteq> 0 \<and> os_sh_flags s AND SHF_WRITE \<noteq> 0) secs)) None of
        Some (lo, hi, off) \<Rightarrow> phdr PT_GNU_RELRO 4 off lo (hi - lo) (hi - lo) 1
      | None \<Rightarrow> phdr PT_GNU_RELRO 4 0 0 0 0 1)"

section \<open>The segment list\<close>

definition tls_phdr :: "tls_block \<Rightarrow> program_header option" where
  "tls_phdr b =
     (if 0 < tls_block_size b
      then Some (phdr PT_TLS 4 (tb_file_off b) (tb_vaddr b) (tb_filesz b) (tls_block_size b) (tb_align b)) else None)"

definition build_segments ::
  "layout_args \<Rightarrow> section_plan \<Rightarrow> placement \<Rightarrow> output_section list \<Rightarrow> tls_block \<Rightarrow> program_header list" where
  "build_segments la sp pm secs tls =
     (let dyn = (la_dynamic la \<noteq> None);
          s1 = insert_second (when_found (cfg_build_id (la_config la)) (section_of_source secs SrcNoteBuildId)
                 (section_phdr PT_NOTE 4 4)) (load_phdrs la pm);
          s2 = push_phdr (when_found (plan_has_property sp) (find (\<lambda>s. os_name s = ''.note.gnu.property'') secs)
                 (\<lambda>s. section_phdr PT_GNU_PROPERTY 4 (max (os_sh_addralign s) 1) s)) s1;
          s3 = insert_second (when_found dyn (section_of_source secs SrcInterp) (section_phdr PT_INTERP 4 1)) s2;
          s4 = push_phdr (when_found dyn (section_of_source secs SrcDynamic) (section_phdr PT_DYNAMIC 6 8)) s3;
          s5 = push_phdr (tls_phdr tls) s4;
          s6 = push_phdr (when_found True (section_of_source secs SrcEhFrameHdr) (section_phdr PT_GNU_EH_FRAME 4 4)) s5;
          s7 = push_phdr (if dyn then Some (relro_phdr secs) else None) s6
      in s7 @ [phdr PT_GNU_STACK 6 0 0 0 0 0])"

definition checked_segments ::
  "layout_args \<Rightarrow> section_plan \<Rightarrow> placement \<Rightarrow> output_section list \<Rightarrow> tls_block \<Rightarrow>
   (layout_error, program_header list) outcome" where
  "checked_segments la sp pm secs tls =
     (let segs = build_segments la sp pm secs tls in
      if length segs \<noteq> pm_phnum pm then Err (PhdrCountMismatch (of_nat (pm_phnum pm)) (of_nat (length segs))) else Ok segs)"

section \<open>Linker-defined addresses\<close>

record image_bounds =
  ib_end :: u64
  ib_edata :: u64
  ib_bss_lo :: "u64 option"

definition bounds_step :: "output_section \<Rightarrow> image_bounds \<Rightarrow> image_bounds" where
  "bounds_step s b =
     (if os_sh_flags s AND SHF_ALLOC = 0 then b
      else let s_end = os_sh_addr s + os_sh_size s; b = b\<lparr>ib_end := max (ib_end b) s_end\<rparr> in
        if os_sh_type s = SHT_NOBITS
        then b\<lparr>ib_bss_lo := Some (case ib_bss_lo b of None \<Rightarrow> os_sh_addr s | Some lo \<Rightarrow> min lo (os_sh_addr s))\<rparr>
        else b\<lparr>ib_edata := max (ib_edata b) s_end\<rparr>)"

definition image_bounds_of :: "u64 \<Rightarrow> output_section list \<Rightarrow> image_bounds" where
  "image_bounds_of base secs = fold bounds_step secs \<lparr>ib_end = base, ib_edata = base, ib_bss_lo = None\<rparr>"

section \<open>The whole layout\<close>

definition finish_layout ::
  "layout_args \<Rightarrow> section_plan \<Rightarrow> placement \<Rightarrow> meta_plan \<Rightarrow> u64 \<Rightarrow> dyn_fill \<Rightarrow> program_header list \<Rightarrow> layout" where
  "finish_layout la sp pm mp start dyn segs =
     (let cfg = la_config la; secs = mp_sections mp; tls = tls_layout secs;
          got = tls_got_addrs (va_of secs SrcGot) (length (la_got_syms la)) (la_tls la);
          b = image_bounds_of (cfg_base_address cfg) secs
      in \<lparr>output_sections = secs, addresses = mp_addresses mp, segments = segs, ly_entry = start,
          ly_e_type = (if cfg_pie cfg \<or> cfg_shared cfg then 3 else 2), ly_phoff = EHDR_SIZE,
          ly_phnum = of_nat (pm_phnum pm), ly_shoff = mp_shoff mp, ly_shnum = mp_shnum mp, ly_shstrndx = mp_shstrndx mp,
          ly_file_size = mp_file_size mp, got_slots = la_got_syms la, got_base = va_of secs SrcGot,
          ly_strtab = mp_strtab mp, ly_shstrtab = mp_shstrtab mp, ly_symtab = mp_symtab mp,
          ly_symtab_shndx = mp_symtab_shndx mp, image_base = cfg_base_address cfg,
          bss_start = (case ib_bss_lo b of Some lo \<Rightarrow> lo | None \<Rightarrow> ib_edata b), edata = ib_edata b, image_end = ib_end b,
          ly_common = bss_addresses secs (ba_common (sp_bss sp)), ly_copy_relocs = bss_addresses secs (ba_copy (sp_bss sp)),
          ly_dyn = df_blobs dyn, plt_slots = la_plt_syms la, plt_base = df_plt_base dyn, ifunc_plt_patches = df_ifuncs dyn,
          tls_size = tls_block_size tls, tls_offsets = tb_offsets tls, tls_gd_addr = ta_gd got, tls_ie_addr = ta_ie got,
          tls_desc_addr = ta_desc got, tls_ldm_addr = ta_ldm got, ly_shared = cfg_shared cfg, tls_got_writes = [],
          emit_relocs = mp_emit_relocs mp, gnu_property_note = sp_note sp\<rparr>)"

definition dynamic_fill_of ::
  "layout_args \<Rightarrow> dyn_prebuild \<Rightarrow> section_plan \<Rightarrow> placement \<Rightarrow> meta_plan \<Rightarrow> dyn_fill option" where
  "dynamic_fill_of la p sp pm mp =
     (case la_dynamic la of
        None \<Rightarrow> Some \<lparr>df_blobs = pb_blobs p, df_plt_base = 0, df_ifuncs = []\<rparr>
      | Some d \<Rightarrow>
          fill_dynamic la d p ((pm_state pm)\<lparr>pl_addresses := mp_addresses mp\<rparr>) (mp_sections mp)
            (bss_addresses (mp_sections mp) (ba_copy (sp_bss sp))))"

definition of_option :: "'a option \<Rightarrow> ('e, 'a) outcome" where
  "of_option x = (case x of Some v \<Rightarrow> Ok v | None \<Rightarrow> Panic)"

definition layout_from ::
  "layout_args \<Rightarrow> dyn_prebuild \<Rightarrow> section_plan \<Rightarrow> (layout_error, layout) outcome" where
  "layout_from la p sp =
     (let pm = place_sections la sp in
      bind_outcome (of_option (meta_sections la p pm)) (\<lambda>mp.
      bind_outcome (layout_entry la (mp_addresses mp)) (\<lambda>start.
      bind_outcome (of_option (dynamic_fill_of la p sp pm mp)) (\<lambda>dyn.
      bind_outcome (checked_segments la sp pm (mp_sections mp) (tls_layout (mp_sections mp))) (\<lambda>segs.
        Ok (finish_layout la sp pm mp start dyn segs))))))"

definition compute_layout :: "layout_args \<Rightarrow> (layout_error, layout) outcome" where
  "compute_layout la =
     bind_outcome (case la_dynamic la of
         None \<Rightarrow> Ok prebuild_empty | Some d \<Rightarrow> prebuild_dynamic (la_symbols la) (cfg_shared (la_config la)) d) (\<lambda>p.
     bind_outcome (plan_sections la p) (layout_from la p))"

section \<open>Sections found by their source\<close>

definition named_sources :: "(name \<times> sec_source) list" where
  "named_sources = [(''.note.gnu.build-id'', SrcNoteBuildId), (''.interp'', SrcInterp), (''.dynamic'', SrcDynamic),
     (''.eh_frame_hdr'', SrcEhFrameHdr)]"

lemma source_of_named: "(n, src) \<in> set named_sources \<Longrightarrow> source_of b = src \<longleftrightarrow> bd_name b = n"
  by (auto simp: named_sources_def source_of_def Let_def)

definition sourced :: "place_state \<Rightarrow> bool" where
  "sourced s \<longleftrightarrow> (\<forall>x \<in> set (pl_sections s). \<exists>b. os_source x = source_of b \<and> os_name x = bd_name b)"

lemma sourced_place: "sourced s \<Longrightarrow> sourced (place base bs s)"
proof (induction bs arbitrary: s)
  case (Cons b bs)
  have "sourced (place_builder base b s)"
    using Cons.prems by (auto simp: sourced_def place_builder_def Let_def output_of_def)
  from Cons.IH [OF this] show ?case by (simp add: place_def)
qed (simp add: place_def)

lemma sourced_page: "sourced s \<Longrightarrow> sourced (page_step page s)"
  by (simp add: sourced_def page_step_def)

lemma sourced_rx: "sourced s \<Longrightarrow> sourced (fst (place_rx la sp s))"
  by (simp add: place_rx_def Let_def sourced_place sourced_page)

lemma sourced_rw: "sourced s \<Longrightarrow> sourced (fst (place_rw la sp s))"
  unfolding place_rw_def Let_def
  by (cases "align_tls_block (order_rw (bk_rw_pb (sp_buckets sp))) (order_bss (bk_rw_bss (sp_buckets sp)))")
    (simp add: sourced_place sourced_page)

lemma placed_sources: "sourced (pm_state (place_sections la sp))"
proof -
  have "sourced (place_ro la sp)"
    unfolding place_ro_def Let_def by (rule sourced_place) (simp add: sourced_def)
  then have "sourced (place_final la sp)" unfolding place_final_def by (intro sourced_rw sourced_rx)
  then show ?thesis by (simp add: sourced_def pm_state_place_sections alias_folded_other(2))
qed

lemma found_iff:
  assumes ok: "plan_ok la p sp" and mp: "meta_sections la p (place_sections la sp) = Some mp"
    and n: "(n, src) \<in> set named_sources"
  shows "section_of_source (mp_sections mp) src \<noteq> None \<longleftrightarrow> n \<in> bd_name ` set (all_builders (sp_buckets sp))"
proof -
  obtain qs where q: "mset qs = mset (all_builders (sp_buckets sp))"
      "list_all2 placed_as qs (pl_sections (pm_state (place_sections la sp)))"
    by (rule placed_sections_as [OF ok])
  have "no_meta_name {}" "set (passthrough_names (cfg_strip_debug (la_config la)) (la_objects la)) \<inter> {} = {}"
    by (simp_all add: no_meta_name_def)
  then obtain ys new where y: "mp_sections mp = ys @ new"
      "list_all2 same_body (pl_sections (pm_state (place_sections la sp))) ys" "list_all (meta_like {}) new"
    by (rule meta_sections_body [OF mp])
  have "src \<notin> os_source ` set new"
    using y(3) n by (auto simp: list_all_iff meta_like_def named_sources_def is_rela_emit_def)
  moreover have "map os_source ys = map os_source (pl_sections (pm_state (place_sections la sp)))"
    using y(2) by (induction rule: list_all2_induct) (simp_all add: same_body_def)
  from arg_cong [OF this, of set]
  have "os_source ` set ys = os_source ` set (pl_sections (pm_state (place_sections la sp)))" by simp
  moreover have "map os_name (pl_sections (pm_state (place_sections la sp))) = map bd_name qs"
    using q(2) by (induction rule: list_all2_induct) (simp_all add: placed_as_def)
  from arg_cong [OF this, of set]
  have "os_name ` set (pl_sections (pm_state (place_sections la sp))) = bd_name ` set (all_builders (sp_buckets sp))"
    using mset_eq_setD [OF q(1)] by simp
  moreover have "src \<in> os_source ` set (pl_sections (pm_state (place_sections la sp))) \<longleftrightarrow>
      n \<in> os_name ` set (pl_sections (pm_state (place_sections la sp)))"
    (is "?l \<longleftrightarrow> ?r")
  proof
    assume ?l
    then obtain x where x: "x \<in> set (pl_sections (pm_state (place_sections la sp)))" "os_source x = src" by auto
    then obtain b where "src = source_of b" "os_name x = bd_name b" using placed_sources unfolding sourced_def by blast
    then have "os_name x = n" using source_of_named [OF n, of b] by simp
    then show ?r using x(1) by auto
  next
    assume ?r
    then obtain x where x: "x \<in> set (pl_sections (pm_state (place_sections la sp)))" "os_name x = n" by auto
    then obtain b where b: "os_source x = source_of b" "n = bd_name b" using placed_sources unfolding sourced_def by blast
    then have "os_source x = src" using source_of_named [OF n, of b] by simp
    then show ?l using x(1) by auto
  qed
  moreover have "section_of_source (mp_sections mp) src \<noteq> None \<longleftrightarrow> src \<in> os_source ` set (mp_sections mp)"
    by (auto simp: section_of_source_def find_None_iff image_iff)
  ultimately show ?thesis by (simp add: y(1) image_Un)
qed

lemma property_found:
  assumes ok: "plan_ok la p sp" and mp: "meta_sections la p (place_sections la sp) = Some mp"
    and n: "n \<in> bd_name ` set (all_builders (sp_buckets sp))"
  shows "find (\<lambda>s. os_name s = n) (mp_sections mp) \<noteq> None"
proof -
  obtain qs where q: "mset qs = mset (all_builders (sp_buckets sp))"
      "list_all2 placed_as qs (pl_sections (pm_state (place_sections la sp)))"
    by (rule placed_sections_as [OF ok])
  have "no_meta_name {}" "set (passthrough_names (cfg_strip_debug (la_config la)) (la_objects la)) \<inter> {} = {}"
    by (simp_all add: no_meta_name_def)
  then obtain ys new where y: "mp_sections mp = ys @ new"
      "list_all2 same_body (pl_sections (pm_state (place_sections la sp))) ys"
    by (rule meta_sections_body [OF mp])
  have "map os_name ys = map os_name (pl_sections (pm_state (place_sections la sp)))"
    using y(2) by (induction rule: list_all2_induct) (simp_all add: same_body_def)
  also have "\<dots> = map bd_name qs" using q(2) by (induction rule: list_all2_induct) (simp_all add: placed_as_def)
  finally have "set (map os_name ys) = set (map bd_name qs)" by (rule arg_cong)
  then have "n \<in> os_name ` set ys" using n mset_eq_setD [OF q(1)] by simp
  then show ?thesis by (auto simp: find_None_iff y(1))
qed

section \<open>Synthetic sections are in the plan\<close>

lemma only_synthetic_set: "only_synthetic k k' \<Longrightarrow> b \<in> set (all_builders k) \<Longrightarrow> b \<in> set (all_builders k')"
  unfolding only_synthetic_def by (metis UnCI set_mset_mset set_mset_union)

lemma plan_names:
  assumes plan: "plan_sections la p = Ok sp"
  shows "cfg_build_id (la_config la) \<Longrightarrow> ''.note.gnu.build-id'' \<in> bd_name ` set (all_builders (sp_buckets sp))"
    "0 < sp_n_fdes sp \<Longrightarrow> ''.eh_frame_hdr'' \<in> bd_name ` set (all_builders (sp_buckets sp))"
    "la_dynamic la = Some d \<Longrightarrow> (of_nat (length (db_interp (pb_blobs p))) :: u64) \<noteq> 0 \<Longrightarrow>
       ''.interp'' \<in> bd_name ` set (all_builders (sp_buckets sp))"
proof -
  obtain bs nt n_fdes where g: "group_input_sections la = Ok bs"
      "merge_gnu_property_notes (la_arena la) (la_objects la) = Ok nt"
      "link_fdes (la_arena la) (la_objects la) = Some n_fdes"
    using plan by (auto simp: plan_sections_def split: outcome.splits option.splits)
  define k2 where "k2 = synth_bss (alloc_bss (la_symbols la) (la_dynamic la)) (synth_got (la_got_syms la) (la_tls la) (bucket_builders bs))"
  define k3 where "k3 = synth_notes (case nt of Some n \<Rightarrow> n | None \<Rightarrow> []) (cfg_build_id (la_config la)) k2"
  define k4 where "k4 = synth_eh_frame_hdr n_fdes k3"
  define k5 where "k5 = (case la_dynamic la of Some d \<Rightarrow> synth_dynamic la d p k4 | None \<Rightarrow> k4)"
  have sp: "sp_buckets sp = sort_buckets (cfg_script (la_config la)) k5" "sp_n_fdes sp = n_fdes"
    using plan by (auto simp: plan_sections_def g Let_def k2_def k3_def k4_def k5_def split: option.splits)
  have fin: "b \<in> set (all_builders (sp_buckets sp)) \<longleftrightarrow> b \<in> set (all_builders k5)" for b
    using mset_eq_setD [OF mset_sort_buckets [of "cfg_script (la_config la)" k5]] by (simp add: sp(1))
  have s45: "only_synthetic k4 k5" unfolding k5_def by (simp add: only_synthetic_dynamic split: option.split)
  have s34: "only_synthetic k3 k4" unfolding k4_def by (rule only_synthetic_stages)
  show "''.note.gnu.build-id'' \<in> bd_name ` set (all_builders (sp_buckets sp))" if "cfg_build_id (la_config la)"
  proof -
    have "ro_builder ''.note.gnu.build-id'' SHT_NOTE 4 BUILD_ID_NOTE_SIZE \<in> set (all_builders k3)"
      using that by (simp add: k3_def synth_notes_def Let_def all_builders_def add_ro_def)
    then have "ro_builder ''.note.gnu.build-id'' SHT_NOTE 4 BUILD_ID_NOTE_SIZE \<in> set (all_builders (sp_buckets sp))"
      unfolding fin by (intro only_synthetic_set [OF s45] only_synthetic_set [OF s34])
    then show ?thesis by (rule rev_image_eqI) (simp add: ro_builder_def)
  qed
  show "''.eh_frame_hdr'' \<in> bd_name ` set (all_builders (sp_buckets sp))" if "0 < sp_n_fdes sp"
  proof -
    have "ro_builder ''.eh_frame_hdr'' SHT_PROGBITS 4 (12 + 8 * of_nat n_fdes) \<in> set (all_builders k4)"
      using that by (simp add: sp(2) k4_def synth_eh_frame_hdr_def all_builders_def add_ro_def)
    then have "ro_builder ''.eh_frame_hdr'' SHT_PROGBITS 4 (12 + 8 * of_nat n_fdes) \<in> set (all_builders (sp_buckets sp))"
      unfolding fin by (rule only_synthetic_set [OF s45])
    then show ?thesis by (rule rev_image_eqI) (simp add: ro_builder_def)
  qed
  show "''.interp'' \<in> bd_name ` set (all_builders (sp_buckets sp))"
    if d: "la_dynamic la = Some d" and i: "(of_nat (length (db_interp (pb_blobs p))) :: u64) \<noteq> 0"
  proof -
    let ?b = "ro_builder ''.interp'' SHT_PROGBITS 1 (of_nat (length (db_interp (pb_blobs p))))"
    let ?step = "\<lambda>(n, sh_type, align, sz). if sz = 0 then id else add_ro (ro_builder n sh_type align sz)"
    obtain rest where rest: "ro_dyn_table la d (pb_blobs p) = (''.interp'', SHT_PROGBITS, 1, of_nat (length (db_interp (pb_blobs p)))) # rest"
      "list_all (\<lambda>(n, t, align, sz). is_power_of_two align \<and> n \<notin> set init_names) rest"
      by (simp add: ro_dyn_table_def init_names_def)
    have "?b \<in> set (all_builders (add_ro ?b k4))" by (simp add: all_builders_def add_ro_def)
    then have "?b \<in> set (all_builders (fold ?step rest (add_ro ?b k4)))"
      by (rule only_synthetic_set [OF only_synthetic_table [OF rest(2)]])
    then have "?b \<in> set (all_builders (synth_ro_dyn la d (pb_blobs p) k4))" by (simp add: synth_ro_dyn_def rest(1) i)
    then have "?b \<in> set (all_builders (synth_plt (length (la_plt_syms la)) (synth_ro_dyn la d (pb_blobs p) k4)))"
      by (rule only_synthetic_set [OF only_synthetic_stages(5)])
    then have "?b \<in> set (all_builders k5)"
      by (auto simp: k5_def d synth_dynamic_def Let_def all_builders_def add_rw_def)
    then have "?b \<in> set (all_builders (sp_buckets sp))" unfolding fin .
    then show ?thesis by (rule rev_image_eqI) (simp add: ro_builder_def)
  qed
qed


section \<open>Counting the headers\<close>

lemma length_insert_second [simp]: "length (insert_second x segs) = length segs + of_bool (x \<noteq> None)"
  by (cases segs) (simp_all add: insert_second_def split: option.split)

lemma length_push_phdr [simp]: "length (push_phdr x segs) = length segs + of_bool (x \<noteq> None)"
  by (simp add: push_phdr_def split: option.split)

lemma when_found_None [simp]: "when_found b x f = None \<longleftrightarrow> \<not> b \<or> x = None"
  by (simp add: when_found_def)

lemma tls_phdr_None [simp]: "tls_phdr b = None \<longleftrightarrow> \<not> 0 < tls_block_size b"
  by (simp add: tls_phdr_def)

lemma length_load_phdrs: "length (load_phdrs la pm) = 2 + of_bool (pm_rx_seg pm \<noteq> None) + of_bool (pm_rw_seg pm \<noteq> None)"
  by (simp add: load_phdrs_def Let_def split: option.split prod.split)

lemma place_segs:
  "pm_rx_seg (place_sections la sp) \<noteq> None \<longleftrightarrow> plan_has_rx sp" "pm_rw_seg (place_sections la sp) \<noteq> None \<longleftrightarrow> plan_has_rw sp"
  "pm_phnum (place_sections la sp) = plan_phnum la sp"
  by (simp_all add: place_sections_def place_rx_def place_rw_def Let_def split: prod.split)

text \<open>Headers made that no room was reserved for: an interpreter section in a shared object, an \<^verbatim>\<open>.eh_frame_hdr\<close>
  that came from an input, and a TLS header the plan did not expect (or one it expected and that is not made).\<close>

definition extra_phdrs :: "layout_args \<Rightarrow> section_plan \<Rightarrow> tls_block \<Rightarrow> int" where
  "extra_phdrs la sp tls =
     (let names = bd_name ` set (all_builders (sp_buckets sp)) in
      of_bool (la_dynamic la \<noteq> None \<and> cfg_shared (la_config la) \<and> ''.interp'' \<in> names) +
      of_bool (sp_n_fdes sp = 0 \<and> ''.eh_frame_hdr'' \<in> names) +
      of_bool (0 < tls_block_size tls) - of_bool (plan_has_tls sp))"

definition prebuilt :: "layout_args \<Rightarrow> dyn_prebuild \<Rightarrow> bool" where
  "prebuilt la p \<longleftrightarrow>
     (case la_dynamic la of None \<Rightarrow> p = prebuild_empty
      | Some d \<Rightarrow> prebuild_dynamic (la_symbols la) (cfg_shared (la_config la)) d = Ok p) \<and>
     length (db_interp (pb_blobs p)) < 2 ^ 64"

lemma prebuilt_interp:
  assumes "prebuilt la p" "la_dynamic la = Some d" "\<not> cfg_shared (la_config la)"
  shows "(of_nat (length (db_interp (pb_blobs p))) :: u64) \<noteq> 0"
proof -
  have "interp_of d \<noteq> []" by (auto simp: interp_of_def Let_def ends_with_def)
  then have "db_interp (pb_blobs p) \<noteq> []"
    using assms by (auto simp: prebuilt_def prebuild_dynamic_def Let_def split: prod.splits if_splits)
  moreover have "unat (of_nat (length (db_interp (pb_blobs p))) :: u64) = length (db_interp (pb_blobs p))"
    using assms(1) by (intro unat_of_nat_u64) (simp add: prebuilt_def)
  ultimately show ?thesis by (metis length_0_conv unsigned_0)
qed

lemma length_build_segments:
  assumes ok: "plan_ok la p sp" and pre: "prebuilt la p" and mp: "meta_sections la p (place_sections la sp) = Some mp"
  shows "int (length (build_segments la sp (place_sections la sp) (mp_sections mp) tls)) =
    int (plan_phnum la sp) + extra_phdrs la sp tls"
proof -
  let ?names = "bd_name ` set (all_builders (sp_buckets sp))"
  have plan: "plan_sections la p = Ok sp" using ok by (simp add: plan_ok_def)
  have f: "section_of_source (mp_sections mp) SrcNoteBuildId \<noteq> None \<longleftrightarrow> ''.note.gnu.build-id'' \<in> ?names"
    "section_of_source (mp_sections mp) SrcInterp \<noteq> None \<longleftrightarrow> ''.interp'' \<in> ?names"
    "section_of_source (mp_sections mp) SrcDynamic \<noteq> None \<longleftrightarrow> ''.dynamic'' \<in> ?names"
    "section_of_source (mp_sections mp) SrcEhFrameHdr \<noteq> None \<longleftrightarrow> ''.eh_frame_hdr'' \<in> ?names"
    by (rule found_iff [OF ok mp], simp add: named_sources_def)+
  have bid: "cfg_build_id (la_config la) \<and> section_of_source (mp_sections mp) SrcNoteBuildId \<noteq> None \<longleftrightarrow> cfg_build_id (la_config la)"
    using plan_names(1) [OF plan] f(1) by blast
  have gprop: "plan_has_property sp \<and> find (\<lambda>s. os_name s = ''.note.gnu.property'') (mp_sections mp) \<noteq> None \<longleftrightarrow> plan_has_property sp"
  proof -
    have "''.note.gnu.property'' \<in> ?names" if "plan_has_property sp"
      using that by (force simp: plan_has_property_def list_ex_iff all_builders_def)
    then show ?thesis using property_found [OF ok mp] by blast
  qed
  have dyn: "la_dynamic la \<noteq> None \<and> section_of_source (mp_sections mp) SrcDynamic \<noteq> None \<longleftrightarrow> la_dynamic la \<noteq> None"
  proof -
    have "''.dynamic'' \<in> ?names" if d: "la_dynamic la = Some d" for d
    proof -
      obtain b where "b \<in> set (bk_rw_pb (sp_buckets sp))" "bd_name b = ''.dynamic''" by (rule dynamic_builder [OF plan d])
      then show ?thesis by (force simp: all_builders_def)
    qed
    then show ?thesis using f(3) by blast
  qed
  have interp: "of_bool (la_dynamic la \<noteq> None \<and> section_of_source (mp_sections mp) SrcInterp \<noteq> None) + of_bool (la_dynamic la \<noteq> None) =
      int (n_dyn_segs la) + of_bool (la_dynamic la \<noteq> None \<and> cfg_shared (la_config la) \<and> ''.interp'' \<in> ?names)"
  proof (cases "la_dynamic la")
    case (Some d)
    have "''.interp'' \<in> ?names" if "\<not> cfg_shared (la_config la)"
      by (rule plan_names(3) [OF plan Some prebuilt_interp [OF pre Some that]])
    then show ?thesis using f(2) Some by (cases "cfg_shared (la_config la)") (simp_all add: n_dyn_segs_def)
  qed (simp add: n_dyn_segs_def)
  have eh: "of_bool (section_of_source (mp_sections mp) SrcEhFrameHdr \<noteq> None) =
      (of_bool (0 < sp_n_fdes sp) + of_bool (sp_n_fdes sp = 0 \<and> ''.eh_frame_hdr'' \<in> ?names) :: int)"
    using plan_names(2) [OF plan] f(4) by auto
  have "int (length (build_segments la sp (place_sections la sp) (mp_sections mp) tls)) =
      2 + of_bool (plan_has_rx sp) + of_bool (plan_has_rw sp) +
      of_bool (cfg_build_id (la_config la) \<and> section_of_source (mp_sections mp) SrcNoteBuildId \<noteq> None) +
      of_bool (plan_has_property sp \<and> find (\<lambda>s. os_name s = ''.note.gnu.property'') (mp_sections mp) \<noteq> None) +
      of_bool (la_dynamic la \<noteq> None \<and> section_of_source (mp_sections mp) SrcInterp \<noteq> None) +
      of_bool (la_dynamic la \<noteq> None \<and> section_of_source (mp_sections mp) SrcDynamic \<noteq> None) +
      of_bool (0 < tls_block_size tls) + of_bool (section_of_source (mp_sections mp) SrcEhFrameHdr \<noteq> None) +
      of_bool (la_dynamic la \<noteq> None) + 1"
    by (simp only: build_segments_def Let_def length_append length_push_phdr length_insert_second length_load_phdrs place_segs
        when_found_None tls_phdr_None list.size de_Morgan_conj not_not simp_thms) simp
  then show ?thesis
    unfolding bid gprop dyn eh
    using interp by (simp add: plan_phnum_def extra_phdrs_def Let_def)
qed

text \<open>C24: 
  The number of program headers made differs from the number room was reserved for by exactly the headers
  nobody reserved: an input \<^verbatim>\<open>.interp\<close> in a shared object, an input \<^verbatim>\<open>.eh_frame_hdr\<close> where no frame entry was
  counted, and a TLS block that is empty where one was planned or not where none was.  The layout is refused
  with \<open>PhdrCountMismatch\<close>, naming both counts, exactly when these do not cancel out.\<close>

theorem phdr_count_exact:
  assumes "plan_ok la p sp" "prebuilt la p" "meta_sections la p (place_sections la sp) = Some mp"
  shows "checked_segments la sp (place_sections la sp) (mp_sections mp) tls =
    (if extra_phdrs la sp tls = 0 then Ok (build_segments la sp (place_sections la sp) (mp_sections mp) tls)
     else Err (PhdrCountMismatch (of_nat (plan_phnum la sp)) (of_nat (nat (int (plan_phnum la sp) + extra_phdrs la sp tls)))))"
proof -
  define n where "n = length (build_segments la sp (place_sections la sp) (mp_sections mp) tls)"
  have len: "int n = int (plan_phnum la sp) + extra_phdrs la sp tls"
    using length_build_segments [OF assms, of tls] by (simp only: n_def)
  then have "nat (int (plan_phnum la sp) + extra_phdrs la sp tls) = n" by (simp flip: len)
  moreover have "n = plan_phnum la sp \<longleftrightarrow> extra_phdrs la sp tls = 0" using len by linarith
  ultimately show ?thesis
    by (simp only: checked_segments_def Let_def place_segs(3) n_def [symmetric]) simp
qed

text \<open>The least dynamic executable: as many headers as reserved.\<close>

theorem phdr_count_exact_witness:
  "\<exists>p sp (mp :: meta_plan) segs. plan_ok dyn_link p sp \<and>
     checked_segments dyn_link sp (place_sections dyn_link sp) (mp_sections mp) (tls_layout []) = Ok segs"
proof -
  obtain p where p: "prebuild_dynamic (la_symbols dyn_link) (cfg_shared (la_config dyn_link)) dyn_least = Ok p"
    and sizes: "length (db_interp (pb_blobs p)) = 28" "length (db_hash (pb_blobs p)) = 16" "db_gnu_hash (pb_blobs p) = []"
    "length (db_dynsym (pb_blobs p)) = 24" "length (db_dynstr (pb_blobs p)) = 1" "db_gnu_version (pb_blobs p) = []"
    "db_gnu_version_r (pb_blobs p) = []" "pb_soname_off p = None" "pb_rpath_off p = None" "db_verneed_num (pb_blobs p) = 0"
    by (rule dyn_link_prebuild)
  obtain sp where sp: "plan_ok dyn_link p sp" "\<not> plan_has_tls sp" "''.eh_frame_hdr'' \<notin> bd_name ` set (all_builders (sp_buckets sp))"
    using dyn_link_plan [OF sizes] by blast
  obtain mp where mp: "meta_sections dyn_link p (place_sections dyn_link sp) = Some mp" by (rule dyn_link_meta)
  have pre: "prebuilt dyn_link p" using p sizes(1) by (simp add: prebuilt_def dyn_link_def)
  have "extra_phdrs dyn_link sp (tls_layout []) = 0"
    using sp(2,3) by (simp add: extra_phdrs_def tls_layout_def tls_block_size_def align_up_def dyn_link_def group_demo_def
        demo_args_def config_default_def Let_def)
  then have "checked_segments dyn_link sp (place_sections dyn_link sp) (mp_sections mp) (tls_layout []) =
      Ok (build_segments dyn_link sp (place_sections dyn_link sp) (mp_sections mp) (tls_layout []))"
    using phdr_count_exact [OF sp(1) pre mp, of "tls_layout []"] by simp
  then show ?thesis using sp(1) by (intro exI [of _ p] exI [of _ sp] exI [of _ mp] exI conjI)
qed

end
