(* ===== verification/Layout_Final.thy ===== *)
theory Layout_Final
  imports Layout_Model
begin

text \<open>
  What follows \<^verbatim>\<open>compute_layout\<close> in \<^verbatim>\<open>peony-layout/src/lib.rs\<close>: \<^verbatim>\<open>finalize_symbols\<close> writes addresses into the symbol
  table, \<^verbatim>\<open>patch_ifunc_plt_relocs\<close> completes \<^verbatim>\<open>.rela.plt\<close>, and \<^verbatim>\<open>check_undefined\<close> refuses a link with strong
  undefined symbols.  A hash map's entries are taken in the order of the association list.
\<close>

section \<open>Addresses of symbols\<close>

definition map_resolutions :: "(resolution \<Rightarrow> resolution) \<Rightarrow> symbol_table \<Rightarrow> symbol_table" where
  "map_resolutions f st = st\<lparr>resolutions := map (\<lambda>(n, r). (n, f r)) (resolutions st)\<rparr>"

definition lookup_update :: "name \<Rightarrow> (resolution \<Rightarrow> resolution) \<Rightarrow> symbol_table \<Rightarrow> symbol_table" where
  "lookup_update n f st = (case lookup st n of Some r \<Rightarrow> put_res n (f r) st | None \<Rightarrow> st)"

definition section_va :: "layout \<Rightarrow> resolution \<Rightarrow> resolution" where
  "section_va ly r =
     (if res_common r \<noteq> None then r
      else case res_defined_in r of
        None \<Rightarrow> r
      | Some obj \<Rightarrow>
          (case res_section_index r of
             None \<Rightarrow> r\<lparr>res_virtual_address := res_value r\<rparr>
           | Some si \<Rightarrow>
               (case map_of (addresses ly) (unat obj, si) of
                  Some va \<Rightarrow> r\<lparr>res_virtual_address := va + res_value r\<rparr> | None \<Rightarrow> r)))"

text \<open>The pairs of a name and an address one of the four updates goes through.\<close>

definition named :: "symbol_table \<Rightarrow> (u32 \<times> u64) list \<Rightarrow> (name \<times> u64) list" where
  "named st ids = List.map_filter (\<lambda>(sid, a). map_option (\<lambda>n. (n, a)) (name_by_id st sid)) ids"

definition slots_at :: "u64 \<Rightarrow> u64 \<Rightarrow> u32 list \<Rightarrow> (u32 \<times> u64) list" where
  "slots_at base width ids = map (\<lambda>(i, sid). (sid, base + of_nat i * width)) (enumerate 0 ids)"

definition set_all :: "(u64 \<Rightarrow> resolution \<Rightarrow> resolution) \<Rightarrow> (name \<times> u64) list \<Rightarrow> symbol_table \<Rightarrow> symbol_table" where
  "set_all f xs st = fold (\<lambda>(n, a). lookup_update n (f a)) xs st"

definition set_va :: "u64 \<Rightarrow> resolution \<Rightarrow> resolution" where "set_va a r = r\<lparr>res_virtual_address := a\<rparr>"
definition set_got :: "u64 \<Rightarrow> resolution \<Rightarrow> resolution" where "set_got a r = r\<lparr>res_got_address := a\<rparr>"
definition set_plt :: "u64 \<Rightarrow> resolution \<Rightarrow> resolution" where "set_plt a r = r\<lparr>res_plt_address := a\<rparr>"

definition finalize_symbols :: "layout \<Rightarrow> symbol_table \<Rightarrow> symbol_table" where
  "finalize_symbols ly st =
     (let st1 = map_resolutions (section_va ly) st;
          st2 = set_all set_va (named st1 (ly_common ly)) st1;
          st3 = set_all set_va (named st2 (ly_copy_relocs ly)) st2;
          st4 = set_all set_got (named st3 (slots_at (got_base ly) 8 (got_slots ly))) st3
      in set_all set_plt (named st4 (slots_at (plt_base ly) 16 (plt_slots ly))) st4)"

section \<open>Ifunc entries of .rela.plt\<close>

definition patch_ifunc :: "symbol_table \<Rightarrow> nat \<times> u32 \<Rightarrow> bytes \<Rightarrow> bytes" where
  "patch_ifunc st = (\<lambda>(off, sid) rela.
     (let va = (case Option.bind (name_by_id st sid) (lookup st) of Some r \<Rightarrow> res_virtual_address r | None \<Rightarrow> 0) in
      case splice rela off (to_le 8 va) of Some rela' \<Rightarrow> rela' | None \<Rightarrow> rela))"

definition patch_ifunc_plt_relocs :: "symbol_table \<Rightarrow> layout \<Rightarrow> layout" where
  "patch_ifunc_plt_relocs st ly =
     ly\<lparr>ly_dyn := (ly_dyn ly)\<lparr>db_rela_plt := fold (patch_ifunc st) (ifunc_plt_patches ly) (db_rela_plt (ly_dyn ly))\<rparr>\<rparr>"

section \<open>Undefined symbols\<close>

definition strong_undefined :: "name \<times> resolution \<Rightarrow> bool" where
  "strong_undefined = (\<lambda>(n, r). n \<noteq> ''__tls_get_addr'' \<and> \<not> is_defined r \<and> res_binding r \<noteq> Weak)"

definition check_undefined :: "symbol_table \<Rightarrow> (layout_error, unit) outcome" where
  "check_undefined st =
     (case find strong_undefined (resolutions st) of Some (n, _) \<Rightarrow> Err (Undefined n) | None \<Rightarrow> Ok ())"

section \<open>What finalising leaves in the table\<close>

lemma lookup_map_resolutions: "lookup (map_resolutions f st) n = map_option f (lookup st n)"
  by (simp add: lookup_def map_resolutions_def map_of_map)

lemma lookup_update_lookup:
  "lookup (lookup_update m f st) n = (if n = m then map_option f (lookup st n) else lookup st n)"
  by (simp add: lookup_update_def lookup_def put_res_def update_conv' split: option.split)

lemma names_set_all [simp]: "names (lookup_update n f st) = names st" "names (map_resolutions g st) = names st"
  by (simp_all add: lookup_update_def map_resolutions_def put_res_def split: option.split)

lemma names_set_all' [simp]: "names (set_all f xs st) = names st"
  by (induction xs arbitrary: st) (auto simp: set_all_def)

lemma lookup_set_all:
  assumes "\<And>a b r. f a (f b r) = f a r"
  shows "lookup (set_all f xs st) n =
     map_option (\<lambda>r. case map_of (rev xs) n of Some a \<Rightarrow> f a r | None \<Rightarrow> r) (lookup st n)"
proof (induction xs arbitrary: st)
  case (Cons x xs)
  obtain m a where x: "x = (m, a)" by (cases x)
  have "lookup (set_all f (x # xs) st) n = lookup (set_all f xs (lookup_update m (f a) st)) n"
    by (simp add: set_all_def x)
  then show ?case
    by (cases "lookup st n")
      (auto simp: Cons.IH lookup_update_lookup x map_add_def assms simp del: map_of_eq_None_iff split: option.split)
qed (simp add: set_all_def option.map_ident)

lemma named_cong: "names st = names st' \<Longrightarrow> named st ids = named st' ids"
  by (simp add: named_def name_by_id_def)

text \<open>
  The specification, written over the layout's tables and the id list of the symbol table alone, without any of
  the operations above.  A table of ids has its slot \<^verbatim>\<open>k\<close> for a name when the id there is the name's and no later one is.
\<close>

definition id_names :: "symbol_table \<Rightarrow> u32 \<Rightarrow> name \<Rightarrow> bool" where
  "id_names st i n \<longleftrightarrow> unat i < length (names st) \<and> names st ! unat i = n"

definition last_slot :: "symbol_table \<Rightarrow> u32 list \<Rightarrow> name \<Rightarrow> nat \<Rightarrow> bool" where
  "last_slot st ids n k \<longleftrightarrow>
     k < length ids \<and> id_names st (ids ! k) n \<and> (\<forall>j. k < j \<longrightarrow> j < length ids \<longrightarrow> \<not> id_names st (ids ! j) n)"

definition no_slot :: "symbol_table \<Rightarrow> u32 list \<Rightarrow> name \<Rightarrow> bool" where
  "no_slot st ids n \<longleftrightarrow> (\<forall>i \<in> set ids. \<not> id_names st i n)"

text \<open>The address of a symbol with neither a COPY slot nor a common one: kept when it is undefined or common, its
  value when it is absolute, else the address of the input section it is defined in plus its value.\<close>

definition own_address :: "layout \<Rightarrow> resolution \<Rightarrow> u64 \<Rightarrow> bool" where
  "own_address ly r a \<longleftrightarrow>
     (\<forall>obj sec base. res_defined_in r = Some obj \<and> res_common r = None \<and> res_section_index r = Some sec \<and>
        map_of (addresses ly) (unat obj, sec) = Some base \<longrightarrow> a = base + res_value r) \<and>
     (\<forall>obj. res_defined_in r = Some obj \<and> res_common r = None \<and> res_section_index r = None \<longrightarrow> a = res_value r) \<and>
     (\<forall>obj sec. res_defined_in r = Some obj \<and> res_common r = None \<and> res_section_index r = Some sec \<and>
        map_of (addresses ly) (unat obj, sec) = None \<longrightarrow> a = res_virtual_address r) \<and>
     (res_defined_in r = None \<or> res_common r \<noteq> None \<longrightarrow> a = res_virtual_address r)"

definition va_placed :: "layout \<Rightarrow> symbol_table \<Rightarrow> name \<Rightarrow> resolution \<Rightarrow> u64 \<Rightarrow> bool" where
  "va_placed ly st n r a \<longleftrightarrow>
     (\<forall>k. last_slot st (map fst (ly_copy_relocs ly)) n k \<longrightarrow> a = snd (ly_copy_relocs ly ! k)) \<and>
     (no_slot st (map fst (ly_copy_relocs ly)) n \<longrightarrow>
        (\<forall>k. last_slot st (map fst (ly_common ly)) n k \<longrightarrow> a = snd (ly_common ly ! k)) \<and>
        (no_slot st (map fst (ly_common ly)) n \<longrightarrow> own_address ly r a))"

text \<open>Slot \<^verbatim>\<open>k\<close> of a table of entries \<^verbatim>\<open>width\<close> bytes wide is \<^verbatim>\<open>k * width\<close> bytes into it; a name without a slot keeps
  the address it had.\<close>

definition slot_placed :: "symbol_table \<Rightarrow> u32 list \<Rightarrow> name \<Rightarrow> u64 \<Rightarrow> nat \<Rightarrow> u64 \<Rightarrow> u64 \<Rightarrow> bool" where
  "slot_placed st ids n base width old a \<longleftrightarrow>
     (\<forall>k. last_slot st ids n k \<longrightarrow> a = base + of_nat (k * width)) \<and> (no_slot st ids n \<longrightarrow> a = old)"

definition finalised :: "layout \<Rightarrow> symbol_table \<Rightarrow> name \<Rightarrow> resolution \<Rightarrow> resolution \<Rightarrow> bool" where
  "finalised ly st n r r' \<longleftrightarrow>
     va_placed ly st n r (res_virtual_address r') \<and>
     slot_placed st (got_slots ly) n (got_base ly) 8 (res_got_address r) (res_got_address r') \<and>
     slot_placed st (plt_slots ly) n (plt_base ly) 16 (res_plt_address r) (res_plt_address r') \<and>
     r' = r\<lparr>res_virtual_address := res_virtual_address r', res_got_address := res_got_address r',
            res_plt_address := res_plt_address r'\<rparr>"

lemma id_names_iff: "id_names st i n \<longleftrightarrow> name_by_id st i = Some n"
  by (auto simp: id_names_def name_by_id_def get_def)

lemma named_snoc: "named st (xs @ [(i, a)]) =
    named st xs @ (case name_by_id st i of Some n \<Rightarrow> [(n, a)] | None \<Rightarrow> [])"
  by (simp add: named_def List.map_filter_def split: option.split)

lemma slots_at_nth: "k < length ids \<Longrightarrow> slots_at base w ids ! k = (ids ! k, base + of_nat k * w)"
  by (simp add: slots_at_def nth_enumerate_eq)

lemma length_slots_at [simp]: "length (slots_at base w ids) = length ids"
  by (simp add: slots_at_def)

lemma map_fst_slots_at [simp]: "map fst (slots_at base w ids) = ids"
  by (rule nth_equalityI) (simp_all add: slots_at_nth)

lemma last_slot_snoc:
  "last_slot st (ids @ [i]) n k \<longleftrightarrow>
     (if id_names st i n then k = length ids else last_slot st ids n k)"
  by (auto simp: last_slot_def nth_append less_Suc_eq)

text \<open>The last pair the updates go through for a name is that of its last slot.\<close>

lemma last_named:
  "case map_of (rev (named st xs)) n of
     Some a \<Rightarrow> \<exists>k. last_slot st (map fst xs) n k \<and> a = snd (xs ! k)
   | None \<Rightarrow> no_slot st (map fst xs) n"
proof (induction xs rule: rev_induct)
  case (snoc x xs)
  obtain i a where x: "x = (i, a)" by (cases x)
  have old: "last_slot st (map fst xs) n k \<Longrightarrow> k < length xs" for k by (simp add: last_slot_def)
  show ?case
  proof (cases "id_names st i n")
    case True
    then have "map_of (rev (named st (xs @ [x]))) n = Some a" by (simp add: x named_snoc id_names_iff)
    then show ?thesis using True by (simp add: x last_slot_snoc)
  next
    case False
    then have "map_of (rev (named st (xs @ [x]))) n = map_of (rev (named st xs)) n"
      by (auto simp: x named_snoc id_names_iff split: option.split)
    then show ?thesis using snoc.IH False old
      by (auto simp: x last_slot_snoc no_slot_def nth_append split: option.splits)
  qed
qed (simp add: named_def no_slot_def List.map_filter_def)

lemma last_slot_unique: "last_slot st ids n k \<Longrightarrow> last_slot st ids n k' \<Longrightarrow> k' = k"
  unfolding last_slot_def by (metis linorder_neqE_nat)

lemma last_slot_not_none: "last_slot st ids n k \<Longrightarrow> \<not> no_slot st ids n"
  by (auto simp: last_slot_def no_slot_def)

lemma slot_placed_slots:
  "slot_placed st ids n base w old
     (case map_of (rev (named st (slots_at base (of_nat w) ids))) n of Some a \<Rightarrow> a | None \<Rightarrow> old)"
proof (cases "map_of (rev (named st (slots_at base (of_nat w) ids))) n")
  case None
  then have "no_slot st ids n" using last_named [of st "slots_at base (of_nat w) ids" n] by simp
  then show ?thesis using last_slot_not_none [of st ids n] by (auto simp: None slot_placed_def)
next
  case (Some a)
  then obtain k where k: "last_slot st ids n k" "a = snd (slots_at base (of_nat w) ids ! k)"
    using last_named [of st "slots_at base (of_nat w) ids" n] by auto
  then have "a = base + of_nat (k * w)" by (simp add: last_slot_def slots_at_nth)
  then show ?thesis
    using last_slot_not_none [OF k(1)] last_slot_unique [OF k(1)] by (auto simp: Some slot_placed_def)
qed

lemma va_placed_section:
  "va_placed ly st n r
     (case map_of (rev (named st (ly_copy_relocs ly))) n of Some a \<Rightarrow> a
      | None \<Rightarrow> (case map_of (rev (named st (ly_common ly))) n of Some a \<Rightarrow> a
          | None \<Rightarrow> res_virtual_address (section_va ly r)))"
proof -
  have own: "own_address ly r (res_virtual_address (section_va ly r))"
    by (auto simp: own_address_def section_va_def split: option.split)
  show ?thesis
    using last_named [of st "ly_copy_relocs ly" n] last_named [of st "ly_common ly" n] own
    by (fastforce simp: va_placed_def dest: last_slot_unique last_slot_not_none split: option.splits)
qed

lemma section_va_set: "section_va ly r = set_va (res_virtual_address (section_va ly r)) r"
  by (simp add: section_va_def set_va_def split: option.split)

lemma lookup_finalize_symbols:
  "lookup (finalize_symbols ly st) n = map_option (\<lambda>r.
     r\<lparr>res_virtual_address :=
         (case map_of (rev (named st (ly_copy_relocs ly))) n of Some a \<Rightarrow> a
          | None \<Rightarrow> (case map_of (rev (named st (ly_common ly))) n of Some a \<Rightarrow> a
              | None \<Rightarrow> res_virtual_address (section_va ly r))),
       res_got_address :=
         (case map_of (rev (named st (slots_at (got_base ly) 8 (got_slots ly)))) n of Some a \<Rightarrow> a | None \<Rightarrow> res_got_address r),
       res_plt_address :=
         (case map_of (rev (named st (slots_at (plt_base ly) 16 (plt_slots ly)))) n of Some a \<Rightarrow> a | None \<Rightarrow> res_plt_address r)\<rparr>)
     (lookup st n)"
proof -
  have idem: "set_va a (set_va b r) = set_va a r" "set_got a (set_got b r) = set_got a r" "set_plt a (set_plt b r) = set_plt a r"
    for a b r by (simp_all add: set_va_def set_got_def set_plt_def)
  have nm: "named (set_all f xs st') ids = named st' ids" "named (map_resolutions g st') ids = named st' ids" for f xs st' g ids
    by (rule named_cong, simp)+
  define sv where "sv r = res_virtual_address (section_va ly r)" for r
  have sv: "section_va ly r = set_va (sv r) r" for r unfolding sv_def by (rule section_va_set)
  show ?thesis
    unfolding finalize_symbols_def Let_def
      lookup_set_all [where f = set_va, OF idem(1)] lookup_set_all [where f = set_got, OF idem(2)]
      lookup_set_all [where f = set_plt, OF idem(3)] lookup_map_resolutions nm sv
    unfolding option.map_comp comp_def
    by (rule option.map_cong0) (simp add: set_va_def set_got_def set_plt_def split: option.split)
qed

text \<open>C25: 
  Finalising writes to every symbol exactly the addresses the layout gives it.  Its virtual address is that of its
  last COPY slot; without one, that of its last common slot; without either, the address of the input section it
  is defined in plus its value (its value alone when it has no section; nothing is written for an undefined or
  common symbol, or a section with no address).  Its GOT address is the GOT's base plus eight bytes for every slot
  before its last one, its PLT address the table's base plus sixteen.  A symbol without a slot keeps the address
  it had, every other field stays as it was, and no name comes or goes.\<close>

theorem finalize_symbols_refines:
  "case lookup st n of
     None \<Rightarrow> lookup (finalize_symbols ly st) n = None
   | Some r \<Rightarrow> \<exists>r'. lookup (finalize_symbols ly st) n = Some r' \<and> finalised ly st n r r'"
proof (cases "lookup st n")
  case (Some r)
  show ?thesis
    using va_placed_section [of ly st n r] slot_placed_slots [of st "got_slots ly" n "got_base ly" 8 "res_got_address r"]
      slot_placed_slots [of st "plt_slots ly" n "plt_base ly" 16 "res_plt_address r"]
    by (simp add: Some lookup_finalize_symbols finalised_def)
qed (simp add: lookup_finalize_symbols)

text \<open>C27: 
  The check passes exactly when every referenced symbol other than \<^verbatim>\<open>__tls_get_addr\<close> is defined or weak; when it
  fails the error names a strong symbol without a definition.\<close>

theorem check_undefined_spec:
  "case check_undefined st of
     Ok () \<Rightarrow> (\<forall>(n, r) \<in> set (resolutions st). n = ''__tls_get_addr'' \<or> is_defined r \<or> res_binding r = Weak)
   | Err e \<Rightarrow> (\<exists>n r. e = Undefined n \<and> (n, r) \<in> set (resolutions st) \<and> n \<noteq> ''__tls_get_addr'' \<and> \<not> is_defined r \<and>
       res_binding r \<noteq> Weak)
   | Panic \<Rightarrow> False"
proof (cases "find strong_undefined (resolutions st)")
  case None
  then have "check_undefined st = Ok ()" by (simp only: check_undefined_def option.case)
  moreover have "n = ''__tls_get_addr'' \<or> is_defined r \<or> res_binding r = Weak" if "(n, r) \<in> set (resolutions st)" for n r
    using None that by (fastforce simp: find_None_iff strong_undefined_def)
  ultimately show ?thesis by (simp only: outcome.case unit.case) blast
next
  case (Some x)
  then have "x \<in> set (resolutions st)" "strong_undefined x" by (auto simp: find_Some_iff)
  then show ?thesis using Some by (cases x) (auto simp: check_undefined_def strong_undefined_def)
qed


theorem check_undefined_spec_witness:
  "check_undefined (symbol_table_new\<lparr>resolutions := [(''f'', make_undefined_resolution), (''w'', make_undefined_resolution\<lparr>res_binding := Weak\<rparr>)]\<rparr>) =
     Err (Undefined ''f'') \<and>
   check_undefined (symbol_table_new\<lparr>resolutions := [(''w'', make_undefined_resolution\<lparr>res_binding := Weak\<rparr>)]\<rparr>) = Ok ()"
proof -
  let ?t = "symbol_table_new\<lparr>resolutions := [(''w'', make_undefined_resolution\<lparr>res_binding := Weak\<rparr>)]\<rparr>"
  have "check_undefined ?t = Ok ()"
  proof (cases "check_undefined ?t")
    case (Err e)
    obtain n r where "(n, r) \<in> set (resolutions ?t)" "res_binding r \<noteq> Weak"
      using check_undefined_spec [of ?t] unfolding Err outcome.case by (elim exE conjE)
    then show ?thesis by simp
  next
    case Panic
    then show ?thesis using check_undefined_spec [of ?t] unfolding Panic outcome.case by simp
  qed simp
  moreover have "check_undefined (symbol_table_new\<lparr>resolutions := [(''f'', make_undefined_resolution),
      (''w'', make_undefined_resolution\<lparr>res_binding := Weak\<rparr>)]\<rparr>) = Err (Undefined ''f'')"
    by (simp add: check_undefined_def strong_undefined_def is_defined_def make_undefined_resolution_def)
  ultimately show ?thesis by simp
qed

end
