(* ===== verification/Driver.thy ===== *)
theory Driver
  imports Link_Inputs Relocatable Daemon Live_Filter Icf Dyn_Relocs Rela_Dyn Layout_Segments Layout_Final
begin

text \<open>
  The link as the driver composes it (\<^verbatim>\<open>main\<close> of \<^verbatim>\<open>peony/src/main.rs\<close>): from the arguments and the input files to the final
  layout and symbol table, the output, and the cache records.  Each step is the definition of its component; this theory is
  the order in which they run and what each hands to the next.

  \<open>dynsym_index_names_import\<close> spans the components: the index the driver gives an import, which ends up in every dynamic
  relocation against it, is the index of the entry that bears its name in the \<^verbatim>\<open>.dynsym\<close> the layout builds.
\<close>

section \<open>Options and base address\<close>

datatype driver_error = DriverArgs arg_error | DriverOption option_error | DriverInput input_error | DriverLoad load_error
  | DriverLayout layout_error | DriverCache cache_error | DriverEmit emit_error | DriverRelink relink_error
  | UnsupportedFlags "name list" | BadBaseAddress name

definition reject_unsupported_flags :: "link_args \<Rightarrow> (driver_error, unit) outcome" where
  "reject_unsupported_flags a =
     (if arg_unsupported_flags a = [] then Ok () else Err (UnsupportedFlags (arg_unsupported_flags a)))"

text \<open>The environment variable \<^verbatim>\<open>PEONY_INCREMENTAL\<close>, and \<^verbatim>\<open>-r\<close>, turn the cache off.\<close>

definition run_mode :: "name option \<Rightarrow> link_args \<Rightarrow> link_args" where
  "run_mode env a =
     (if env \<in> Some ` {''0'', ''false'', ''no''} \<or> arg_relocatable a
      then a\<lparr>arg_incremental := False, arg_daemon := False\<rparr> else a)"

definition apply_controls :: "script_controls \<Rightarrow> link_args \<Rightarrow> link_args" where
  "apply_controls sc a =
     (let a1 = (case sc_entry sc of Some e \<Rightarrow> if arg_entry_explicit a then a else a\<lparr>arg_entry := e\<rparr> | None \<Rightarrow> a);
          a2 = (case sc_base_address sc of Some b \<Rightarrow> if arg_base_address_explicit a1 then a1 else a1\<lparr>arg_base_address := b\<rparr>
                | None \<Rightarrow> a1)
      in if arg_shared a2 then a2\<lparr>arg_pie := False\<rparr> else a2)"

definition et_dyn :: "link_args \<Rightarrow> bool" where
  "et_dyn a \<longleftrightarrow> arg_pie a \<or> arg_shared a"

definition base_address :: "link_args \<Rightarrow> (driver_error, u64) outcome" where
  "base_address a =
     (if et_dyn a then Ok 0
      else case parse_hex_or_dec (arg_base_address a) of
        Some b \<Rightarrow> Ok b
      | None \<Rightarrow> Err (BadBaseAddress (arg_base_address a)))"

section \<open>After the relocation scan\<close>

text \<open>Scheduling and hash orders: threads, the delivery order of garbage collection's work, the orders of the set of excluded
  sections and of the map of copy candidates, the chunks of the parallel count, the batches of the emitter.\<close>

record driver_env =
  de_threads :: nat
  de_deliver :: "skey list \<Rightarrow> skey list"
  de_keys :: "skey set \<Rightarrow> skey list"
  de_copies :: "(u32 \<times> name) list \<Rightarrow> (u32 \<times> name) list"
  de_chop :: "input_object list \<Rightarrow> input_object list list"
  de_sched :: "(nat \<times> nat) list"
  de_cache :: cache_env
  de_codec :: layout_codec
  de_world :: link_world
  de_host :: link_host

definition tls_info :: "scan_result \<Rightarrow> tls_got_info" where
  "tls_info scan =
     \<lparr>tg_gd = tls_gd_refs scan, tg_ie = tls_ie_refs scan, tg_desc = tls_desc_refs scan, tg_ldm = needs_tls_ldm scan\<rparr>"

definition copies_of :: "driver_env \<Rightarrow> link_args \<Rightarrow> input_object list \<Rightarrow> symbol_table \<Rightarrow> u32 list" where
  "copies_of env a objs st = (if arg_shared a then [] else copy_reloc_symbols (de_copies env) objs st)"

definition mark_copies :: "u32 list \<Rightarrow> symbol_table \<Rightarrow> symbol_table" where
  "mark_copies copies st = fold mark_copy_reloc (List.map_filter (name_by_id st) copies) st"

definition export_requested :: "link_args \<Rightarrow> bool" where
  "export_requested a \<longleftrightarrow> arg_shared a \<or> arg_export_dynamic a \<or> arg_export_dynamic_patterns a \<noteq> []"

definition select_live ::
  "driver_env \<Rightarrow> link_args \<Rightarrow> script_layout \<Rightarrow> resolved \<Rightarrow> symbol_table \<Rightarrow> live_filter" where
  "select_live env a script rz st =
     compute_live (de_threads env) (de_deliver env) (rz_objects rz) (arg_gc_sections a) st (arg_entry a)
       (de_keys env (rz_comdat_excluded rz)) (export_requested a) (Some script)"

definition imports_of :: "symbol_table \<Rightarrow> name list" where
  "imports_of st = sort (map fst (filter (\<lambda>(n, r). res_import r) (resolutions st)))"

definition number_import :: "nat \<times> name \<Rightarrow> symbol_table \<Rightarrow> symbol_table" where
  "number_import x st =
     (case lookup st (snd x) of
        Some r \<Rightarrow> put_res (snd x) (r\<lparr>res_dynsym_index := of_nat (fst x + 1)\<rparr>) st
      | None \<Rightarrow> st)"

definition number_imports :: "name list \<Rightarrow> symbol_table \<Rightarrow> symbol_table" where
  "number_imports imports st = fold number_import (enumerate 0 imports) st"

definition dynamic_counts ::
  "driver_env \<Rightarrow> link_args \<Rightarrow> input_object list \<Rightarrow> symbol_table \<Rightarrow> u32 list \<Rightarrow> tls_got_info \<Rightarrow> name list \<Rightarrow> dyn_counts" where
  "dynamic_counts env a objs st got_syms tls imports =
     (if et_dyn a then count_dynamic_relocs (de_chop env) objs st got_syms tls (arg_shared a)
      else if imports \<noteq> [] then counts_zero\<lparr>tls_count := count_tls_relocs st tls (arg_shared a)\<rparr>
      else counts_zero)"

definition is_exported :: "link_args \<Rightarrow> version_script option \<Rightarrow> symbol_table \<Rightarrow> name \<times> resolution \<Rightarrow> bool" where
  "is_exported a vs st = (\<lambda>(n, r).
     is_export r \<and> \<not> excluded_by_exclude_libs (arg_exclude_libs a) r st \<and>
     (if arg_shared a then (case vs of Some v \<Rightarrow> exports v n | None \<Rightarrow> True)
      else arg_export_dynamic a \<or> export_pattern_matches (arg_export_dynamic_patterns a) n))"

definition export_of :: "name \<times> resolution \<Rightarrow> export_sym" where
  "export_of = (\<lambda>(n, r).
     \<lparr>ex_name = n, ex_info = st_info (if res_binding r = Weak then 2 else 1) (res_st_type r), ex_other = res_visibility r\<rparr>)"

definition exports_of :: "link_args \<Rightarrow> version_script option \<Rightarrow> symbol_table \<Rightarrow> export_sym list" where
  "exports_of a vs st =
     (if export_requested a
      then sort_key ex_name (map export_of (filter (is_exported a vs st) (resolutions st))) else [])"

definition soname_of :: "link_args \<Rightarrow> name option" where
  "soname_of a =
     (if \<not> arg_shared a then None
      else Some (case arg_soname a of
          Some s \<Rightarrow> s
        | None \<Rightarrow> (case file_name (arg_output a) of Some f \<Rightarrow> from_utf8_lossy f | None \<Rightarrow> ''a.out'')))"

definition interp_arg :: "link_args \<Rightarrow> bytes option" where
  "interp_arg a = map_option (\<lambda>s. if ends_with (ascii s) [0] then ascii s else ascii s @ [0]) (arg_dynamic_linker a)"

fun join_colon :: "name list \<Rightarrow> name" where
  "join_colon [] = []"
| "join_colon [x] = x"
| "join_colon (x # xs) = x @ '':'' @ join_colon xs"

definition rpath_arg :: "link_args \<Rightarrow> name option" where
  "rpath_arg a = (if arg_rpaths a = [] then None else Some (join_colon (arg_rpaths a)))"

definition dynamic_needed :: "link_args \<Rightarrow> name list \<Rightarrow> string list \<Rightarrow> bool" where
  "dynamic_needed a imports needed \<longleftrightarrow>
     imports \<noteq> [] \<or> needed \<noteq> [] \<or> et_dyn a \<or> export_requested a \<or> rpath_arg a \<noteq> None \<or> interp_arg a \<noteq> None"

text \<open>\<open>st\<close> is the table the imports were found in, \<open>st'\<close> the one that numbers them.\<close>

definition dynamic_info_of ::
  "link_args \<Rightarrow> version_script option \<Rightarrow> dyn_counts \<Rightarrow> u32 list \<Rightarrow> string list \<Rightarrow> symbol_table \<Rightarrow> symbol_table \<Rightarrow>
   dynamic_info option" where
  "dynamic_info_of a vs counts copies needed st st' =
     (let imports = imports_of st in
      if \<not> dynamic_needed a imports needed then None
      else Some
        \<lparr>di_imports = imports, di_import_versions = map (\<lambda>n. Option.bind (lookup st n) res_version) imports,
         di_import_sonames = map (\<lambda>n. Option.bind (lookup st n) res_soname) imports, di_needed = needed,
         di_interp = interp_arg a, di_rpath = rpath_arg a, di_enable_new_dtags = arg_enable_new_dtags a,
         di_hash_style = arg_hash_style a, di_pie = arg_pie a, di_n_relative = relative_total counts,
         di_n_irelative = irelative counts, di_shared = arg_shared a, di_soname = soname_of a,
         di_exports = exports_of a vs st', di_n_tls_reloc = tls_count counts, di_copy_relocs = copies,
         di_n_symbolic_data = symbolic_data counts\<rparr>)"

definition config_of :: "link_args \<Rightarrow> u64 \<Rightarrow> script_layout \<Rightarrow> layout_config" where
  "config_of a base script =
     config_default\<lparr>cfg_base_address := base, cfg_entry_symbol := arg_entry a, cfg_build_id := arg_build_id a,
       cfg_strip := arg_strip_all a, cfg_strip_debug := arg_strip_debug a \<or> arg_strip_all a, cfg_pie := arg_pie a,
       cfg_shared := arg_shared a, cfg_emit_relocs := arg_emit_relocs a \<and> \<not> arg_strip_all a,
       cfg_script := (if sl_output_sections script = [] then None else Some script)\<rparr>"

section \<open>What goes into the layout\<close>

record prepared =
  pr_symbols :: symbol_table
  pr_got_syms :: "u32 list"
  pr_plt_syms :: "u32 list"
  pr_tls :: tls_got_info
  pr_live :: live_filter
  pr_dynamic :: "dynamic_info option"
  pr_provided :: "provided_symbol list"
  pr_config :: layout_config
  pr_fold_map :: "fold_map option"

definition version_script_arg :: "text_files \<Rightarrow> link_args \<Rightarrow> (driver_error, version_script option) outcome" where
  "version_script_arg fs a =
     (case arg_version_script a of
        Some p \<Rightarrow> bind_outcome (map_err DriverOption (parse_version_script fs p)) (\<lambda>v. Ok (Some v))
      | None \<Rightarrow> Ok None)"

definition fold_map_arg :: "link_args \<Rightarrow> resolved \<Rightarrow> (driver_error, fold_map option) outcome" where
  "fold_map_arg a rz =
     (if arg_icf a
      then (case compute_fold_map (rz_arena rz) (rz_objects rz) of Ok fm \<Rightarrow> Ok (Some fm) | _ \<Rightarrow> Panic) else Ok None)"

definition prepare ::
  "driver_env \<Rightarrow> text_files \<Rightarrow> link_args \<Rightarrow> u64 \<Rightarrow> script_layout \<Rightarrow> resolved \<Rightarrow> (driver_error, prepared) outcome" where
  "prepare env fs a base script rz =
     (let objs = rz_objects rz; st1 = assign_weak_got_ids objs (rz_symbols rz);
          scan = scan_relocations objs st1 (arg_shared a); got_syms = got_symbols scan; tls = tls_info scan;
          copies = copies_of env a objs st1; st2 = mark_copies copies st1;
          live = select_live env a script rz st2;
          imports = imports_of st2; st3 = number_imports imports st2;
          counts = dynamic_counts env a objs st3 got_syms tls imports
      in bind_outcome (version_script_arg fs a) (\<lambda>vs.
           let dynamic = dynamic_info_of a vs counts copies (rz_needed rz) st2 st3; (st4, provided) = predefine_linker_symbols st3
           in bind_outcome (map_err DriverOption (apply_defsym (arg_defsym a) st4)) (\<lambda>st5.
              bind_outcome (fold_map_arg a rz) (\<lambda>fold_map.
                Ok \<lparr>pr_symbols = st5, pr_got_syms = got_syms, pr_plt_syms = plt_symbols scan, pr_tls = tls, pr_live = live,
                    pr_dynamic = dynamic, pr_provided = provided, pr_config = config_of a base script,
                    pr_fold_map = fold_map\<rparr>))))"

definition layout_args_of :: "resolved \<Rightarrow> prepared \<Rightarrow> layout_args" where
  "layout_args_of rz pr =
     \<lparr>la_arena = rz_arena rz, la_objects = rz_objects rz, la_symbols = pr_symbols pr, la_got_syms = pr_got_syms pr,
      la_plt_syms = pr_plt_syms pr, la_live = as_filter (pr_live pr), la_dynamic = pr_dynamic pr, la_config = pr_config pr,
      la_tls = pr_tls pr, la_fold_map = pr_fold_map pr\<rparr>"

section \<open>Layout and final addresses\<close>

definition layout_eligible :: "link_args \<Rightarrow> bool" where
  "layout_eligible a \<longleftrightarrow> arg_incremental a \<and> \<not> arg_gc_sections a \<and> \<not> arg_icf a"

text \<open>The layout, and what a reused one came with.\<close>

definition choose_layout ::
  "driver_env \<Rightarrow> cache_fs \<Rightarrow> link_args \<Rightarrow> string list \<Rightarrow> u64 \<Rightarrow> resolved \<Rightarrow> prepared \<Rightarrow>
   (driver_error, layout \<times> (front_end_snapshot \<times> nat set) option) outcome" where
  "choose_layout env fs a inputs key rz pr =
     bind_outcome (map_err DriverCache (try_reuse_layout (de_cache env) (de_codec env) fs (arg_output a) inputs key
         (layout_eligible a) (rz_arena rz) (rz_objects rz) (pr_symbols pr) (pr_got_syms pr) (pr_plt_syms pr)
         (as_filter (pr_live pr)) (pr_config pr) (pr_tls pr) (pr_fold_map pr))) (\<lambda>reused.
       case reused of
         Some (ly, snap, changed) \<Rightarrow> Ok (ly, Some (snap, changed))
       | None \<Rightarrow> bind_outcome (map_err DriverLayout (compute_layout (layout_args_of rz pr))) (\<lambda>ly. Ok (ly, None)))"

definition final_symbols :: "prepared \<Rightarrow> layout \<Rightarrow> symbol_table" where
  "final_symbols pr ly = finalize_symbols ly (set_linker_addresses ly (pr_provided pr) (pr_symbols pr))"

definition check_symbols :: "link_args \<Rightarrow> symbol_table \<Rightarrow> (driver_error, unit) outcome" where
  "check_symbols a st =
     bind_outcome (if \<not> arg_shared a \<or> arg_no_undefined a then map_err DriverLayout (check_undefined st) else Ok ()) (\<lambda>_.
       map_err DriverOption (check_required_defined st (arg_require_defined a)))"

definition tls_is_empty :: "tls_got_info \<Rightarrow> bool" where
  "tls_is_empty t \<longleftrightarrow> tg_gd t = [] \<and> tg_ie t = [] \<and> tg_desc t = [] \<and> \<not> tg_ldm t"

definition fill_dynamic_relocs :: "link_args \<Rightarrow> input_object list \<Rightarrow> symbol_table \<Rightarrow> tls_got_info \<Rightarrow> layout \<Rightarrow> layout" where
  "fill_dynamic_relocs a objs st tls ly =
     (let (rel, irel, sy) = (if et_dyn a then collect_data_and_symbolic_relocs objs st ly else ([], [], []));
          contents = collect_tls_got objs st ly tls (arg_shared a)
      in if tls_is_empty tls then append_all_dynamic_relocs rel irel [] sy ly
         else append_all_dynamic_relocs rel irel (tc_relocs contents) sy
                (ly\<lparr>tls_got_writes := tc_static_writes contents\<rparr>))"

definition final_layout ::
  "link_args \<Rightarrow> input_object list \<Rightarrow> symbol_table \<Rightarrow> prepared \<Rightarrow> bool \<Rightarrow> layout \<Rightarrow> layout" where
  "final_layout a objs st pr reused ly =
     (let ly1 = patch_ifunc_plt_relocs st ly in
      if pr_dynamic pr \<noteq> None \<and> \<not> reused then fill_dynamic_relocs a objs st (pr_tls pr) ly1 else ly1)"

section \<open>Output and records\<close>

definition emit_plan ::
  "driver_env \<Rightarrow> cache_fs \<Rightarrow> link_args \<Rightarrow> string list \<Rightarrow> u64 \<Rightarrow> resolved \<Rightarrow> symbol_table \<Rightarrow> layout \<Rightarrow> bool \<Rightarrow>
   (driver_error, incremental_emit_plan) outcome" where
  "emit_plan env fs a inputs key rz st ly reused =
     (if arg_incremental a
      then (case incremental_emit_plan (de_cache env) fs (arg_output a) inputs key (rz_objects rz) st ly reused of
              Some p \<Rightarrow> map_err DriverCache p | None \<Rightarrow> Panic)
      else Ok Disabled)"

text \<open>With a reused layout only the changed objects are written, else the red sections; \<open>None\<close> is a patch that was not
  accepted or that the emitter declined.\<close>

definition emit_patch ::
  "driver_env \<Rightarrow> bytes option \<Rightarrow> resolved \<Rightarrow> symbol_table \<Rightarrow> layout \<Rightarrow> incremental_emit_plan \<Rightarrow> nat set option \<Rightarrow>
   (driver_error, bytes option) outcome" where
  "emit_patch env existing rz st ly plan changed =
     (case plan of
        Patch pl \<Rightarrow>
          map_err DriverEmit (case changed of
            Some c \<Rightarrow> emit_partial_objects existing (rz_arena rz) (rz_objects rz) st ly c (de_sched env)
          | None \<Rightarrow> emit_partial existing (rz_arena rz) (rz_objects rz) st ly (pl_red pl) (de_sched env))
      | _ \<Rightarrow> Ok None)"

definition write_output ::
  "driver_env \<Rightarrow> cache_fs \<Rightarrow> link_args \<Rightarrow> resolved \<Rightarrow> symbol_table \<Rightarrow> layout \<Rightarrow> incremental_emit_plan \<Rightarrow> nat set option \<Rightarrow>
   (driver_error, cache_fs) outcome" where
  "write_output env fs a rz st ly plan changed =
     (let existing = output_bytes fs (arg_output a); put = (\<lambda>b. put_output (de_cache env) (arg_output a) b fs) in
      bind_outcome (emit_patch env existing rz st ly plan changed) (\<lambda>patched.
        case patched of
          Some b \<Rightarrow> Ok (put b)
        | None \<Rightarrow>
            bind_outcome (map_err DriverEmit (emit_full existing (rz_arena rz) (rz_objects rz) st ly (de_sched env)))
              (\<lambda>out. case out of Some b \<Rightarrow> Ok (put b) | None \<Rightarrow> Ok fs)))"

definition record_output ::
  "driver_env \<Rightarrow> cache_fs \<Rightarrow> link_args \<Rightarrow> string list \<Rightarrow> u64 \<Rightarrow> symbol_table \<Rightarrow> layout \<Rightarrow> front_end_snapshot option \<Rightarrow> bytes option \<Rightarrow>
   (driver_error, cache_fs) outcome" where
  "record_output env fs a inputs key st ly snap blob =
     (if arg_incremental a
      then map_err DriverCache (record_link_with_sections (de_cache env) (arg_output a) inputs key (section_records ly)
             (symbol_records st) snap blob fs)
      else Ok fs)"

definition link_resolved ::
  "driver_env \<Rightarrow> cache_fs \<Rightarrow> link_args \<Rightarrow> u64 \<Rightarrow> script_layout \<Rightarrow> string list \<Rightarrow> u64 \<Rightarrow> resolved \<Rightarrow> (driver_error, cache_fs) outcome" where
  "link_resolved env fs a base script inputs key rz =
     bind_outcome (prepare env (ho_files (de_host env)) a base script rz) (\<lambda>pr.
     bind_outcome (choose_layout env fs a inputs key rz pr) (\<lambda>(ly0, reused).
     let st = final_symbols pr ly0 in
     bind_outcome (check_symbols a st) (\<lambda>_.
     let ly = final_layout a (rz_objects rz) st pr (reused \<noteq> None) ly0 in
     bind_outcome (map_err DriverCache (build_front_end_snapshot (de_codec env) (layout_eligible a) (rz_arena rz) (rz_objects rz)
         st (pr_got_syms pr) (pr_plt_syms pr) (as_filter (pr_live pr)) (pr_config pr) (pr_tls pr) (pr_fold_map pr)
         (map_option fst reused) ly)) (\<lambda>(snap, blob).
     bind_outcome (emit_plan env fs a inputs key rz st ly (reused \<noteq> None)) (\<lambda>plan.
     bind_outcome (write_output env fs a rz st ly plan (map_option snd reused)) (\<lambda>fs1.
       record_output env fs1 a inputs key st ly snap blob))))))"

section \<open>Before the inputs are parsed\<close>

text \<open>What the driver starts and does not compute itself: the hand-off of a link to another linker, the daemon it serves or
  asks.  Each gives the file system it leaves, or \<open>None\<close> where the driver goes on.\<close>

record driver_extern =
  dx_lto :: "link_args \<Rightarrow> cache_fs \<Rightarrow> (driver_error, cache_fs option) outcome"
  dx_relocatable :: "link_args \<Rightarrow> cache_fs \<Rightarrow> (driver_error, cache_fs) outcome"
  dx_serve :: "link_args \<Rightarrow> string list \<Rightarrow> u64 \<Rightarrow> cache_fs \<Rightarrow> (driver_error, cache_fs) outcome"
  dx_delegate :: "link_args \<Rightarrow> u64 \<Rightarrow> cache_fs \<Rightarrow> cache_fs option"

definition link_relocatable ::
  "driver_env \<Rightarrow> driver_extern \<Rightarrow> cache_fs \<Rightarrow> link_args \<Rightarrow> resolved \<Rightarrow> (driver_error, cache_fs) outcome" where
  "link_relocatable env ext fs a rz =
     bind_outcome (map_err DriverOption (apply_defsym (arg_defsym a) (rz_symbols rz))) (\<lambda>st.
       if list_ex (\<lambda>obj. comdat_groups obj \<noteq> []) (rz_objects rz) then dx_relocatable ext a fs
       else case emit_relocatable (rz_arena rz) (rz_objects rz) st of
         Some b \<Rightarrow> Ok (put_output (de_cache env) (arg_output a) b fs) | None \<Rightarrow> Panic)"

definition link_inputs ::
  "driver_env \<Rightarrow> driver_extern \<Rightarrow> cache_fs \<Rightarrow> link_args \<Rightarrow> u64 \<Rightarrow> script_layout \<Rightarrow> resolved_input list \<Rightarrow> string list \<Rightarrow> string list \<Rightarrow>
   u64 \<Rightarrow> (driver_error, cache_fs) outcome option" where
  "link_inputs env ext fs a base script inputs injected paths key =
     map_option (\<lambda>loaded. bind_outcome (map_err DriverLoad loaded) (\<lambda>rz.
         if arg_relocatable a then link_relocatable env ext fs a rz
         else link_resolved env fs a base script paths key rz))
       (load_and_resolve_with_crt_fallback (de_world env) inputs injected (arg_undefined a))"

text \<open>The paths that answer without parsing every input: the unchanged output, then the objects that changed.\<close>

definition fast_paths ::
  "driver_env \<Rightarrow> driver_extern \<Rightarrow> cache_fs \<Rightarrow> link_args \<Rightarrow> string list \<Rightarrow> u64 \<Rightarrow> (driver_error, cache_fs option) outcome" where
  "fast_paths env ext fs a paths key =
     (if arg_daemon a then bind_outcome (dx_serve ext a paths key fs) (\<lambda>fs'. Ok (Some fs'))
      else if \<not> arg_incremental a then Ok None
      else case dx_delegate ext a key fs of
        Some fs' \<Rightarrow> Ok (Some fs')
      | None \<Rightarrow>
          bind_outcome (map_err DriverCache (try_reuse (de_cache env) fs (arg_output a) paths key)) (\<lambda>same.
            if same then Ok (Some fs)
            else if arg_gc_sections a \<or> arg_icf a then Ok None
            else bind_outcome (map_err DriverRelink (try_parse_only_changed (de_cache env) (de_codec env) (de_world env)
                     (arg_output a) paths key (de_sched env) fs)) (\<lambda>(done, fs').
                   Ok (if done then Some fs' else None))))"

definition run_link ::
  "driver_env \<Rightarrow> driver_extern \<Rightarrow> cache_fs \<Rightarrow> link_args \<Rightarrow> script_controls \<Rightarrow> (driver_error, cache_fs) outcome option" where
  "run_link env ext fs a sc =
     (case base_address a of
        Err e \<Rightarrow> Some (Err e)
      | Panic \<Rightarrow> Some Panic
      | Ok base \<Rightarrow>
          (case resolve_inputs (de_host env) a of
             Err e \<Rightarrow> Some (Err (DriverInput e))
           | Panic \<Rightarrow> Some Panic
           | Ok listed \<Rightarrow>
               Option.bind (expand_inputs (de_host env) (library_search_paths (de_host env) (arg_library_paths a)) listed)
                 (\<lambda>expanded. case expanded of
                    Err e \<Rightarrow> Some (Err (DriverOption e))
                  | Panic \<Rightarrow> Some Panic
                  | Ok found \<Rightarrow>
                      (let (inputs, injected) = (if arg_shared a then (found, []) else inject_crt_objects (de_host env) found a);
                           paths = map ri_path inputs; key = hash_args (cache_key_args (arg_raw_args a))
                       in case fast_paths env ext fs a paths key of
                            Err e \<Rightarrow> Some (Err e)
                          | Panic \<Rightarrow> Some Panic
                          | Ok (Some fs') \<Rightarrow> Some (Ok fs')
                          | Ok None \<Rightarrow> link_inputs env ext fs a base (sc_layout sc) inputs injected paths key))))"

text \<open>\<^verbatim>\<open>main\<close>: the arguments, the checks that come before anything is read, the hand-off, the linker scripts, the link.\<close>

definition main ::
  "driver_env \<Rightarrow> driver_extern \<Rightarrow> name option \<Rightarrow> (string \<Rightarrow> string option) \<Rightarrow> name list \<Rightarrow> cache_fs \<Rightarrow>
   (driver_error, cache_fs) outcome option" where
  "main env ext incremental_var canon argv fs =
     (case parse_args canon (ho_files (de_host env)) argv of
        Err e \<Rightarrow> Some (Err (DriverArgs e))
      | Panic \<Rightarrow> Some Panic
      | Ok parsed \<Rightarrow>
          if arg_help parsed then Some (Ok fs)
          else (let a = run_mode incremental_var parsed in
            case bind_outcome (reject_unsupported_flags a) (\<lambda>_. dx_lto ext a fs) of
              Err e \<Rightarrow> Some (Err e)
            | Panic \<Rightarrow> Some Panic
            | Ok (Some fs') \<Rightarrow> Some (Ok fs')
            | Ok None \<Rightarrow>
                (case parse_linker_script_controls (ho_files (de_host env)) (arg_linker_scripts a) of
                   Err e \<Rightarrow> Some (Err (DriverOption e))
                 | Panic \<Rightarrow> Some Panic
                 | Ok sc \<Rightarrow> run_link env ext fs (apply_controls sc a) sc)))"

section \<open>An import's index names it\<close>

text \<open>A step that keeps the \<^verbatim>\<open>.dynsym\<close> index of every symbol of the table.\<close>

definition keeps_indices :: "symbol_table \<Rightarrow> symbol_table \<Rightarrow> bool" where
  "keeps_indices st st' \<longleftrightarrow>
     (\<forall>n r. lookup st n = Some r \<longrightarrow> (\<exists>r'. lookup st' n = Some r' \<and> res_dynsym_index r' = res_dynsym_index r))"

named_theorems keeps_intros

lemma keeps_refl [keeps_intros]: "keeps_indices st st"
  by (simp add: keeps_indices_def)

lemma keeps_trans [trans]: "keeps_indices st1 st2 \<Longrightarrow> keeps_indices st2 st3 \<Longrightarrow> keeps_indices st1 st3"
  unfolding keeps_indices_def by metis

lemma keeps_fold: "(\<And>x st. keeps_indices st (f x st)) \<Longrightarrow> keeps_indices st (fold f xs st)"
  by (induction xs arbitrary: st) (auto intro: keeps_intros keeps_trans)

lemma keeps_define_absolute [keeps_intros]: "keeps_indices st (define_absolute n v st)"
  by (auto simp: keeps_indices_def lookup_define_absolute)

lemma keeps_apply_defsym: "apply_defsym ds st = Ok st' \<Longrightarrow> keeps_indices st st'"
proof (induction ds arbitrary: st)
  case (Cons d ds)
  then obtain n v x where "apply_defsym ds (define_absolute (trim n) x st) = Ok st'"
    by (auto split: option.splits)
  then have "keeps_indices (define_absolute (trim n) x st) st'" by (rule Cons.IH)
  then show ?case by (rule keeps_trans [OF keeps_define_absolute])
qed (simp add: keeps_refl)

lemma keeps_provide_fixed: "keeps_indices st (fst (provide_fixed ns st out))"
  by (induction ns st out rule: provide_fixed.induct) (auto simp: keeps_refl intro: keeps_trans [OF keeps_define_absolute])

lemma keeps_predefine: "keeps_indices st (fst (predefine_linker_symbols st))"
proof -
  obtain st1 out where p: "provide_fixed LINKER_SYMS st [] = (st1, out)" by force
  have "keeps_indices st st1" using keeps_provide_fixed [of st LINKER_SYMS "[]"] by (simp add: p)
  also have "keeps_indices st1 (fold (\<lambda>s. define_absolute (provided_name s) 0) (dynamic_provided st1) st1)"
    by (rule keeps_fold) (rule keeps_define_absolute)
  finally show ?thesis by (simp add: predefine_linker_symbols_def p Let_def)
qed

lemma keeps_set_linker_addresses: "keeps_indices st (set_linker_addresses ly provided st)"
  unfolding set_linker_addresses_def
  by (rule keeps_fold) (auto simp: keeps_indices_def set_linker_address_def split: option.split)

lemma keeps_finalize_symbols: "keeps_indices st (finalize_symbols ly st)"
  by (simp add: keeps_indices_def lookup_finalize_symbols)

lemma number_imports_index:
  assumes "distinct ns" "k < length ns" "lookup st (ns ! k) \<noteq> None"
  shows "\<exists>r. lookup (fold number_import (enumerate b ns) st) (ns ! k) = Some r \<and> res_dynsym_index r = of_nat (b + k + 1)"
  using assms
proof (induction ns arbitrary: b k st)
  case (Cons n ns)
  have other: "lookup (fold number_import (enumerate c ms) st') m = lookup st' m" if "m \<notin> set ms" for c ms m st'
    using that by (induction ms arbitrary: c st') (auto simp: number_import_def split: option.split)
  show ?case
  proof (cases k)
    case 0
    then obtain r where "lookup st n = Some r" using Cons.prems by auto
    then have "lookup (number_import (b, n) st) n = Some (r\<lparr>res_dynsym_index := of_nat (b + 1)\<rparr>)"
      by (simp add: number_import_def)
    then show ?thesis using 0 Cons.prems other [of n ns "Suc b" "number_import (b, n) st"] by simp
  next
    case (Suc j)
    have "lookup (number_import (b, n) st) (ns ! j) \<noteq> None"
      using Cons.prems Suc by (auto simp: number_import_def split: option.splits)
    then show ?thesis using Cons.IH [of j "number_import (b, n) st" "Suc b"] Cons.prems Suc by simp
  qed
qed simp

lemma prepare_imports:
  assumes "prepare env fs a base script rz = Ok pr" "pr_dynamic pr = Some d"
  obtains st2 where "di_imports d = imports_of st2" "keeps_indices (number_imports (imports_of st2) st2) (pr_symbols pr)"
proof -
  let ?st1 = "assign_weak_got_ids (rz_objects rz) (rz_symbols rz)"
  let ?st2 = "mark_copies (copies_of env a (rz_objects rz) ?st1) ?st1"
  let ?st3 = "number_imports (imports_of ?st2) ?st2"
  obtain st4 provided where p: "predefine_linker_symbols ?st3 = (st4, provided)" by force
  obtain vs st5 counts where s: "apply_defsym (arg_defsym a) st4 = Ok st5" "pr_symbols pr = st5"
      "pr_dynamic pr = dynamic_info_of a vs counts (copies_of env a (rz_objects rz) ?st1) (rz_needed rz) ?st2 ?st3"
    using assms(1) p by (auto simp: prepare_def Let_def elim!: bind_outcome_Ok)
  have "keeps_indices ?st3 st4" using keeps_predefine [of ?st3] by (simp add: p)
  also have "keeps_indices st4 st5" by (rule keeps_apply_defsym [OF s(1)])
  finally have "keeps_indices ?st3 (pr_symbols pr)" by (simp add: s(2))
  moreover have "di_imports d = imports_of ?st2"
    using assms(2) s(3) by (auto simp: dynamic_info_of_def Let_def split: if_splits)
  ultimately show thesis by (rule that [rotated])
qed

text \<open>The index every later table uses for an import is that of the entry with its name in \<^verbatim>\<open>.dynsym\<close>.\<close>

theorem dynsym_index_names_import:
  assumes pr: "prepare env fs a base script rz = Ok pr" "pr_dynamic pr = Some d"
    and p: "prebuild_dynamic (pr_symbols pr) (arg_shared a) d = Ok p" and ok: "dyn_names_ok d p"
    and n: "n \<in> set (di_imports d)"
  shows "\<exists>r. lookup (final_symbols pr ly) n = Some r \<and> res_dynsym_index r \<noteq> 0 \<and>
    dynsym_name (pb_blobs p) (res_dynsym_index r) = ascii n"
proof -
  obtain st2 where st2: "di_imports d = imports_of st2"
      "keeps_indices (number_imports (imports_of st2) st2) (pr_symbols pr)"
    by (rule prepare_imports [OF pr])
  obtain k where k: "k < length (di_imports d)" "n = di_imports d ! k" using n by (auto simp: in_set_conv_nth)
  have dist: "distinct (imports_of st2)" using ok by (simp add: dyn_names_ok_def dyn_names_def st2(1))
  have "lookup st2 n \<noteq> None"
    using n by (auto simp: st2(1) imports_of_def lookup_def map_of_eq_None_iff rev_image_eqI)
  then obtain r where r: "lookup (number_imports (imports_of st2) st2) n = Some r" "res_dynsym_index r = of_nat (Suc k)"
    using number_imports_index [OF dist, of k st2 0] k by (auto simp: number_imports_def st2(1))
  have "keeps_indices (number_imports (imports_of st2) st2) (final_symbols pr ly)"
    unfolding final_symbols_def
    by (rule keeps_trans [OF st2(2) keeps_trans [OF keeps_set_linker_addresses keeps_finalize_symbols]])
  then obtain r' where r': "lookup (final_symbols pr ly) n = Some r'" "res_dynsym_index r' = of_nat (Suc k)"
    using r unfolding keeps_indices_def by metis
  have small: "Suc k < 2 ^ 32" using ok k(1) by (simp add: dyn_names_ok_def total_dynsym_def)
  have "k < length (dyn_names d)" "dyn_names d ! k = n" using k by (simp_all add: dyn_names_def nth_append)
  then have "dynsym_name (pb_blobs p) (of_nat (Suc k)) = ascii n"
    using dynsym_name_index [OF p, of k] ok small by (auto simp: dyn_names_ok_def list_all_iff)
  moreover have "(of_nat (Suc k) :: u32) \<noteq> 0"
  proof
    assume "(of_nat (Suc k) :: u32) = 0"
    then have "unat (of_nat (Suc k) :: u32) = 0" by simp
    then show False using small by (simp add: unat_of_nat del: of_nat_Suc)
  qed
  ultimately show ?thesis using r' by (simp del: of_nat_Suc)
qed

section \<open>What a successful link guarantees\<close>

text \<open>An executable that links has every strong symbol defined and every required one, and the output is written.\<close>

lemma check_undefined_Ok:
  "check_undefined st = Ok () \<Longrightarrow> (n, r) \<in> set (resolutions st) \<Longrightarrow> n \<noteq> ''__tls_get_addr'' \<Longrightarrow>
     is_defined r \<or> res_binding r = Weak"
  by (fastforce simp: check_undefined_def find_None_iff strong_undefined_def split: option.splits)

lemma link_resolved_checked:
  assumes "link_resolved env fs a base script inputs key rz = Ok fs'"
  obtains pr ly reused where "prepare env (ho_files (de_host env)) a base script rz = Ok pr"
    "choose_layout env fs a inputs key rz pr = Ok (ly, reused)" "check_symbols a (final_symbols pr ly) = Ok ()"
  using assms unfolding link_resolved_def Let_def
  by (auto elim!: bind_outcome_Ok)

theorem linked_symbols_defined:
  assumes "link_resolved env fs a base script inputs key rz = Ok fs'"
  obtains pr ly reused where "choose_layout env fs a inputs key rz pr = Ok (ly, reused)"
    "\<not> arg_shared a \<or> arg_no_undefined a \<Longrightarrow>
       \<forall>(n, r) \<in> set (resolutions (final_symbols pr ly)). n = ''__tls_get_addr'' \<or> is_defined r \<or> res_binding r = Weak"
    "\<forall>n \<in> set (arg_require_defined a). \<exists>r. lookup (final_symbols pr ly) n = Some r \<and> is_defined r"
proof (rule link_resolved_checked [OF assms])
  fix pr ly reused
  assume c: "choose_layout env fs a inputs key rz pr = Ok (ly, reused)" "check_symbols a (final_symbols pr ly) = Ok ()"
  let ?st = "final_symbols pr ly"
  have req: "check_required_defined ?st (arg_require_defined a) = Ok ()"
    and und: "\<not> arg_shared a \<or> arg_no_undefined a \<Longrightarrow> check_undefined ?st = Ok ()"
    using c(2) by (auto simp: check_symbols_def elim!: bind_outcome_Ok split: if_splits)
  have "\<forall>n \<in> set (arg_require_defined a). \<exists>r. lookup ?st n = Some r \<and> is_defined r"
    using req by (fastforce simp: check_required_defined_def Let_def filter_empty_conv split: if_splits option.splits)
  then show thesis using that [OF c(1)] check_undefined_Ok [OF und] by fastforce
qed

end
