(* ===== verification/Emit_Steady.thy ===== *)
theory Emit_Steady
  imports Emit_Image
begin

text \<open>
  Writers that do not look at the buffer they write to.  On buffers of one length every header, synthetic
  section and TLS slot writer of the emit path either writes fixed bytes at fixed positions or never
  succeeds (\<open>steady\<close>); a write is then a partial map from positions to bytes.
\<close>

section \<open>Writes as maps from positions to bytes\<close>

definition masked :: "(nat \<rightharpoonup> u8) \<Rightarrow> bytes \<Rightarrow> bytes" where
  "masked f b = map (\<lambda>i. case f i of Some v \<Rightarrow> v | None \<Rightarrow> b ! i) [0..<length b]"

lemma length_masked [simp]: "length (masked f b) = length b"
  by (simp add: masked_def)

lemma nth_masked: "i < length b \<Longrightarrow> masked f b ! i = (case f i of Some v \<Rightarrow> v | None \<Rightarrow> b ! i)"
  by (auto simp: masked_def split: option.splits)

lemma masked_masked: "masked g (masked f b) = masked (f ++ g) b"
  by (rule nth_equalityI) (auto simp: nth_masked map_add_def split: option.splits)

lemma masked_empty [simp]: "masked Map.empty b = b"
  by (rule nth_equalityI) (auto simp: nth_masked)

definition write_map :: "nat \<Rightarrow> bytes \<Rightarrow> nat \<rightharpoonup> u8" where
  "write_map off bs i = (if off \<le> i \<and> i < off + length bs then Some (bs ! (i - off)) else None)"

lemma overwrite_masked: "overwrite off bs b = masked (write_map off bs) b"
  by (rule nth_equalityI) (auto simp: nth_masked nth_overwrite write_map_def)

text \<open>A writer that, on buffers of one length, either writes fixed bytes at fixed places or never succeeds.\<close>

definition writes_map :: "nat \<Rightarrow> (bytes \<Rightarrow> ('e, bytes) outcome) \<Rightarrow> (nat \<rightharpoonup> u8) \<Rightarrow> bool" where
  "writes_map n W f \<longleftrightarrow> (\<forall>b. length b = n \<longrightarrow> W b = Ok (masked f b))"

definition steady :: "nat \<Rightarrow> (bytes \<Rightarrow> ('e, bytes) outcome) \<Rightarrow> bool" where
  "steady n W \<longleftrightarrow> (\<exists>f. writes_map n W f) \<or> (\<forall>b b'. length b = n \<longrightarrow> W b \<noteq> Ok b')"

named_theorems steady_intros

lemma steadyI: "(\<And>b. W b = V b) \<Longrightarrow> steady n V \<Longrightarrow> steady n W"
  by (simp add: steady_def writes_map_def)

lemma steady_Ok [steady_intros]: "steady n Ok" "steady n (\<lambda>b. Ok b)"
  by (auto simp: steady_def writes_map_def intro!: exI [of _ Map.empty])

lemma steady_bind [steady_intros]:
  assumes "steady n W" "steady n V"
  shows "steady n (\<lambda>b. bind_outcome (W b) V)"
proof (cases "\<exists>f. writes_map n W f")
  case True
  then obtain f where f: "writes_map n W f" by blast
  show ?thesis
  proof (cases "\<exists>g. writes_map n V g")
    case True
    then obtain g where "writes_map n V g" by blast
    then have "writes_map n (\<lambda>b. bind_outcome (W b) V) (f ++ g)"
      using f by (simp add: writes_map_def masked_masked)
    then show ?thesis by (auto simp: steady_def)
  next
    case False
    then show ?thesis using f assms(2) by (auto simp: steady_def writes_map_def)
  qed
next
  case False
  then have "W b \<noteq> Ok b'" if "length b = n" for b b' using assms(1) that by (auto simp: steady_def)
  then have "bind_outcome (W b) V \<noteq> Ok b'" if "length b = n" for b b'
    using that by (cases "W b") auto
  then show ?thesis by (auto simp: steady_def)
qed

lemma steady_bind_Let:
  fixes V :: "bytes \<Rightarrow> ('e, bytes) outcome"
  shows "steady n (\<lambda>b. Ok (g b) :: ('e, bytes) outcome) \<Longrightarrow> steady n V \<Longrightarrow> steady n (\<lambda>b. V (g b))"
  using steady_bind [of n "\<lambda>b. Ok (g b)" V] by simp

lemma steady_if [steady_intros]:
  "steady n W \<Longrightarrow> steady n V \<Longrightarrow> steady n (\<lambda>b. if P (length b) then W b else V b)"
  "steady n W \<Longrightarrow> steady n V \<Longrightarrow> steady n (\<lambda>b. if c then W b else V b)"
  by (cases "P n"; auto simp: steady_def writes_map_def) (cases c; simp)

lemma splice_steady: "steady n (\<lambda>b. put_slice b off bs)"
proof (cases "off + length bs \<le> n")
  case True
  then have "writes_map n (\<lambda>b. put_slice b off bs) (write_map off bs)"
    by (simp add: writes_map_def put_slice_def splice_overwrite overwrite_masked)
  then show ?thesis by (auto simp: steady_def)
next
  case False
  then show ?thesis by (auto simp: steady_def put_slice_def splice_Some_iff split: option.splits)
qed

lemma put_slice_steady [steady_intros]: "steady n (\<lambda>b. put_slice b off bs)"
  by (rule splice_steady)

lemma put_guarded_steady [steady_intros]: "steady n (\<lambda>b. put_guarded b off bs)"
  by (rule steadyI [OF put_guarded_def])
     (rule steady_if(1) [where P = "\<lambda>l. usize_add off (length bs) \<le> l", OF put_slice_steady steady_Ok(2)])

lemma zero_section_steady [steady_intros]: "steady n (\<lambda>b. Ok (zero_section b off sz))"
proof (cases "unat off + unat sz < 2 ^ 64 \<and> unat off + unat sz \<le> n")
  case True
  then have "writes_map n (\<lambda>b. Ok (zero_section b off sz)) (write_map (unat off) (replicate (unat sz) 0))"
    by (simp add: writes_map_def zero_section_def overwrite_masked)
  then show ?thesis by (auto simp: steady_def)
next
  case False
  then have "writes_map n (\<lambda>b. Ok (zero_section b off sz)) Map.empty"
    by (auto simp: writes_map_def zero_section_def)
  then show ?thesis by (auto simp: steady_def)
qed

lemma write_section_bytes_steady [steady_intros]: "steady n (\<lambda>b. write_section_bytes b off sz bs)"
  by (rule steadyI [OF write_section_bytes_def [unfolded write_bytes_def]])
     (rule steady_bind_Let [OF zero_section_steady put_guarded_steady])

lemma zero_gaps_cursor: "fst (zero_gaps_from so cs c b) = fst (zero_gaps_from so cs c b')"
  by (induction cs arbitrary: c b b') (simp_all add: Let_def)

lemma zero_gaps_steady: "steady n (\<lambda>b. Ok (snd (zero_gaps_from so cs c b)))"
proof (induction cs arbitrary: c)
  case Nil
  then show ?case by (simp add: steady_Ok)
next
  case (Cons x cs)
  let ?s = "saturating_add so (con_offset x)"
  have "steady n (\<lambda>b. Ok (if c < ?s then zero_section b c (?s - c) else b) :: ('a, bytes) outcome)"
    by (cases "c < ?s") (simp_all add: zero_section_steady steady_Ok)
  from steady_bind_Let [OF this Cons.IH [of "max c (saturating_add ?s (con_size x))"]]
  show ?case by (simp add: Let_def)
qed

lemma zero_input_gaps_steady [steady_intros]: "steady n (\<lambda>b. Ok (zero_input_gaps b so sz cs))"
proof -
  let ?e = "saturating_add so sz"
  obtain c where c: "\<And>b. fst (zero_gaps_from so cs so b) = c"
    using zero_gaps_cursor by blast
  have eq: "zero_input_gaps b so sz cs =
      (if c < ?e then zero_section (snd (zero_gaps_from so cs so b)) c (?e - c)
       else snd (zero_gaps_from so cs so b))" for b
    using c [of b] by (cases "zero_gaps_from so cs so b") (simp add: zero_input_gaps_def Let_def)
  show ?thesis
    by (cases "c < ?e") (simp_all add: eq zero_gaps_steady steady_bind_Let [OF zero_gaps_steady zero_section_steady])
qed

lemma write_phdrs_steady [steady_intros]: "steady n (write_phdrs o' phs)"
proof (induction phs arbitrary: o')
  case Nil
  show ?case by (rule steadyI [OF write_phdrs.simps(1) steady_Ok(1)])
next
  case (Cons ph phs)
  show ?case by (rule steadyI [OF write_phdrs.simps(2)]) (intro steady_bind put_slice_steady Cons.IH)
qed

lemma write_headers_steady [steady_intros]: "steady n (write_headers ly)"
  by (rule steadyI [OF write_headers_def]) (intro steady_bind put_slice_steady write_phdrs_steady)

lemma write_shdrs_steady [steady_intros]: "steady n (write_shdrs sh ss)"
proof (induction ss)
  case (Cons s ss)
  let ?o = "usize_add sh (unat (os_shndx s) * 64)"
  have "steady n (\<lambda>b. if length b < usize_add ?o 64 then Ok b
      else bind_outcome (put_slice b ?o (shdr_bytes s)) (write_shdrs sh ss))"
    using steady_if(1) [of n Ok "\<lambda>b. bind_outcome (put_slice b ?o (shdr_bytes s)) (write_shdrs sh ss)"
        "\<lambda>l. l < usize_add ?o 64"] Cons.IH
    by (simp add: steady_Ok steady_bind put_slice_steady)
  from steadyI [OF write_shdrs.simps(2) [unfolded Let_def] this] show ?case .
next
  case Nil
  show ?case by (rule steadyI [OF write_shdrs.simps(1) steady_Ok(1)])
qed

lemma write_section_headers_steady [steady_intros]: "steady n (write_section_headers ly)"
proof -
  have a: "steady n (\<lambda>b. if usize_add sh 64 \<le> length b \<and> P then put_slice b o' bs else Ok b)"
    for sh P o' bs
    using steady_if(1) [of n "\<lambda>b. put_slice b o' bs" Ok "\<lambda>l. usize_add sh 64 \<le> l \<and> P"]
    by (simp add: steady_Ok put_slice_steady)
  show ?thesis
    unfolding write_section_headers_def Let_def
    by (intro steady_bind a write_shdrs_steady)
qed

lemma write_got_slots_steady [steady_intros]: "steady n (write_got_slots st off i xs)"
proof (induction xs arbitrary: i)
  case Nil
  show ?case by (rule steadyI [OF write_got_slots.simps(1) steady_Ok(1)])
next
  case (Cons x xs)
  show ?case
    by (rule steadyI [OF write_got_slots.simps(2) [unfolded Let_def]])
       (intro steady_bind put_guarded_steady Cons.IH)
qed

lemma write_symtab_steady [steady_intros]: "steady n (write_symtab st base i ents)"
proof (induction ents arbitrary: i)
  case (Cons e ents)
  let ?o = "unat (base + of_nat (i + 1) * 24)"
  have "steady n (\<lambda>b. if length b < usize_add ?o 24 then Ok b
      else bind_outcome (put_slice b ?o (symtab_entry_bytes st e)) (write_symtab st base (i + 1) ents))"
    using steady_if(1) [of n Ok
        "\<lambda>b. bind_outcome (put_slice b ?o (symtab_entry_bytes st e)) (write_symtab st base (i + 1) ents)"
        "\<lambda>l. l < usize_add ?o 24"] Cons.IH
    by (simp only: steady_Ok steady_bind put_slice_steady simp_thms)
  from steadyI [OF write_symtab.simps(2) [unfolded Let_def] this] show ?case .
next
  case Nil
  show ?case by (rule steadyI [OF write_symtab.simps(1) steady_Ok(1)])
qed

lemma write_build_id_steady: "steady n (\<lambda>b. write_build_id b off)"
  by (rule steadyI [OF write_build_id_def put_guarded_steady])

lemma steady_option:
  "(\<And>x. steady n (W x)) \<Longrightarrow> steady n (\<lambda>b. case o' of Some x \<Rightarrow> W x b | None \<Rightarrow> Ok b)"
  by (cases o') (simp_all add: steady_Ok)

lemma write_synthetic_steady [steady_intros]: "steady n (write_synthetic st ly flt s)"
  by (rule steadyI [OF write_synthetic_def [unfolded Let_def]], cases "os_source s")
     (simp_all add: steady_Ok steady_if(2) steady_option zero_input_gaps_steady zero_section_steady
        write_section_bytes_steady steady_bind_Let [OF zero_section_steady write_got_slots_steady]
        steady_bind_Let [OF zero_section_steady write_symtab_steady]
        steady_bind_Let [OF zero_section_steady write_build_id_steady])

lemma write_synthetics_steady [steady_intros]: "steady n (write_synthetics st ly flt ss)"
proof (induction ss)
  case Nil
  show ?case by (rule steadyI [OF write_synthetics.simps(1) steady_Ok(1)])
next
  case (Cons s ss)
  show ?case by (rule steadyI [OF write_synthetics.simps(2)]) (intro steady_bind write_synthetic_steady Cons.IH)
qed

lemma write_tls_slots_steady [steady_intros]: "steady n (write_tls_slots got ws)"
proof (induction ws)
  case Nil
  show ?case by (rule steadyI [OF write_tls_slots.simps(1) steady_Ok(1)])
next
  case (Cons w ws)
  obtain va v where w: "w = (va, v)" by force
  show ?case
    unfolding w
    by (rule steadyI [OF write_tls_slots.simps(2) [unfolded Let_def]])
       (intro steady_if(2) steady_bind put_guarded_steady Cons.IH)
qed

lemma write_tls_got_steady [steady_intros]: "steady n (write_tls_got ly)"
  by (rule steadyI [OF write_tls_got_def])
     (intro steady_if(2) steady_Ok steady_option write_tls_slots_steady)

end
