(* ===== verification/Emit_Regions.thy ===== *)
theory Emit_Regions
  imports Emit_Steady
begin

text \<open>
  Where the passes after the copy of the input sections write, and what they read: the section headers,
  the TLS slots, the unwind table, which depends on the bytes of \<^verbatim>\<open>.eh_frame\<close> only, and the build id,
  which does not depend on the stale one.
\<close>

section \<open>Agreement outside a set of positions\<close>

definition agree_off :: "nat set \<Rightarrow> bytes \<Rightarrow> bytes \<Rightarrow> bool" where
  "agree_off R b b' \<longleftrightarrow> length b = length b' \<and> (\<forall>k < length b. k \<notin> R \<longrightarrow> b ! k = b' ! k)"

lemma agree_offD:
  "agree_off R b b' \<Longrightarrow> length b = length b'"
  "agree_off R b b' \<Longrightarrow> k < length b \<Longrightarrow> k \<notin> R \<Longrightarrow> b ! k = b' ! k"
  by (auto simp: agree_off_def)

lemma agree_off_refl [simp]: "agree_off R b b"
  by (simp add: agree_off_def)

lemma agree_off_sym: "agree_off R b b' \<Longrightarrow> agree_off R b' b"
  by (simp add: agree_off_def)

lemma agree_off_trans: "agree_off R a b \<Longrightarrow> agree_off R b c \<Longrightarrow> agree_off R a c"
  by (simp add: agree_off_def)

lemma agree_off_mono: "agree_off R a b \<Longrightarrow> R \<subseteq> S \<Longrightarrow> agree_off S a b"
  by (auto simp: agree_off_def)

text \<open>A writer that changes no byte outside \<open>R\<close> in a buffer of length \<open>n\<close>.\<close>

definition stays_in :: "nat \<Rightarrow> nat set \<Rightarrow> (bytes \<Rightarrow> ('e, bytes) outcome) \<Rightarrow> bool" where
  "stays_in n R W \<longleftrightarrow> (\<forall>b b'. length b = n \<longrightarrow> W b = Ok b' \<longrightarrow> agree_off R b b')"

lemma stays_inD: "stays_in n R W \<Longrightarrow> W b = Ok b' \<Longrightarrow> length b = n \<Longrightarrow> agree_off R b b'"
  by (simp add: stays_in_def)

lemma stays_in_bind:
  assumes "stays_in n R W" "stays_in n R V"
  shows "stays_in n R (\<lambda>b. bind_outcome (W b) V)"
  unfolding stays_in_def
proof (intro allI impI)
  fix b b'
  assume n: "length b = n" and "bind_outcome (W b) V = Ok b'"
  then obtain c where c: "W b = Ok c" "V c = Ok b'" by (auto elim: bind_outcome_Ok)
  have "agree_off R b c" using stays_inD [OF assms(1) c(1) n] .
  moreover from this have "agree_off R c b'"
    using stays_inD [OF assms(2) c(2)] n by (simp add: agree_off_def)
  ultimately show "agree_off R b b'" by (rule agree_off_trans)
qed

lemma stays_in_Ok: "stays_in n R Ok"
  by (simp add: stays_in_def)

lemma stays_in_put: "{off ..< off + length bs} \<subseteq> R \<Longrightarrow> stays_in n R (\<lambda>b. put_slice b off bs)"
  by (auto simp: stays_in_def put_slice_def agree_off_def splice_length nth_splice split: option.splits)

lemma stays_in_guarded: "{off ..< off + length bs} \<subseteq> R \<Longrightarrow> stays_in n R (\<lambda>b. put_guarded b off bs)"
  using stays_in_put [of off bs R n] by (auto simp: stays_in_def put_guarded_def)

section \<open>The build id forgets the stale one\<close>

definition desc_region :: "nat \<Rightarrow> layout \<Rightarrow> nat set" where
  "desc_region n ly =
     (case build_id_descriptor_offset ly of
        None \<Rightarrow> {}
      | Some off \<Rightarrow> if n < usize_add off 16 then {} else {off ..< off + 16})"

lemma length_build_id_hash: "length (build_id_hash b) = 16"
  by (simp add: build_id_hash_def split: prod.splits)

lemma finalize_build_id_cases:
  "finalize_build_id ly b =
     (if desc_region (length b) ly = {} then Ok b
      else case splice b (the (build_id_descriptor_offset ly)) (replicate 16 0) of
        None \<Rightarrow> Panic
      | Some c \<Rightarrow> put_slice c (the (build_id_descriptor_offset ly)) (build_id_hash c))"
proof (cases "build_id_descriptor_offset ly")
  case (Some off)
  then show ?thesis
    by (cases "splice b off (replicate 16 0)")
       (simp_all add: finalize_build_id_def desc_region_def put_slice_def del: splice_defined)
qed (simp add: finalize_build_id_def desc_region_def)

lemma desc_region_nonempty:
  "desc_region n ly \<noteq> {} \<Longrightarrow>
     desc_region n ly = {the (build_id_descriptor_offset ly) ..< the (build_id_descriptor_offset ly) + 16}"
  by (auto simp: desc_region_def split: option.splits if_splits)

lemma finalize_build_id_stays: "stays_in n (desc_region n ly) (finalize_build_id ly)"
proof (cases "desc_region n ly = {}")
  case True
  then show ?thesis by (auto simp: stays_in_def finalize_build_id_cases)
next
  case False
  show ?thesis
    unfolding desc_region_nonempty [OF False]
    using False
    by (auto simp: stays_in_def finalize_build_id_cases put_slice_def agree_off_def splice_length nth_splice
        length_build_id_hash split: option.splits)
qed

lemma zeroed_slice_eq:
  assumes "agree_off {off ..< off + n} b b'"
  shows "splice b off (replicate n 0) = splice b' off (replicate n 0)"
proof (cases "splice b off (replicate n 0)")
  case None
  then have "length b < off + n" by simp
  moreover have "length b' < off + n" using calculation assms by (simp add: agree_off_def)
  ultimately have "splice b off (replicate n 0) = None" "splice b' off (replicate n 0) = None"
    by (simp_all only: splice_defined length_replicate)
  then show ?thesis by (simp only:)
next
  case (Some c)
  then obtain c' where c': "splice b' off (replicate n 0) = Some c'"
    using assms by (auto simp: splice_def agree_off_def split: if_splits)
  have "c' = c"
    using assms
    by (intro nth_equalityI)
       (auto simp: splice_length [OF c'] splice_length [OF Some] nth_splice [OF c'] nth_splice [OF Some]
          agree_off_def)
  then show ?thesis using c' Some by simp
qed

lemma finalize_build_id_forgets:
  assumes "agree_off (desc_region (length b) ly) b b'"
  shows "finalize_build_id ly b = finalize_build_id ly b'"
proof (cases "desc_region (length b) ly = {}")
  case True
  then have "b = b'" using assms by (auto simp: agree_off_def intro: nth_equalityI)
  then show ?thesis by simp
next
  case False
  have len: "length b = length b'" using assms by (simp add: agree_off_def)
  show ?thesis
    using assms [unfolded desc_region_nonempty [OF False]] zeroed_slice_eq False
    by (simp add: finalize_build_id_cases len [symmetric])
qed

section \<open>Where the later passes write\<close>

definition shdr_region :: "layout \<Rightarrow> nat set" where
  "shdr_region ly =
     {unat (ly_shoff ly) ..< unat (ly_shoff ly) + 64} \<union>
     (\<Union>s \<in> set (output_sections ly).
        (let o' = usize_add (unat (ly_shoff ly)) (unat (os_shndx s) * 64) in {o' ..< o' + 64}))"

definition tls_region :: "layout \<Rightarrow> nat set" where
  "tls_region ly =
     (case find (\<lambda>s. os_source s = SrcGot) (output_sections ly) of
        None \<Rightarrow> {}
      | Some got \<Rightarrow>
          \<Union>(va, v) \<in> set (tls_got_writes ly).
            (let o' = unat (os_sh_offset got + (va - os_sh_addr got)) in {o' ..< o' + 8}))"

definition hdr_region :: "layout \<Rightarrow> nat set" where
  "hdr_region ly =
     (case find (\<lambda>s. os_source s = SrcEhFrameHdr) (output_sections ly) of
        None \<Rightarrow> {}
      | Some hdr \<Rightarrow> {unat (os_sh_offset hdr) ..< unat (os_sh_offset hdr) + unat (os_sh_size hdr)})"

definition eh_region :: "layout \<Rightarrow> nat set" where
  "eh_region ly =
     (case find (\<lambda>s. os_name s = ''.eh_frame'') (output_sections ly) of
        None \<Rightarrow> {}
      | Some eh \<Rightarrow> {unat (os_sh_offset eh) ..< unat (os_sh_offset eh) + unat (os_sh_size eh)})"

lemma length_shdr_bytes [simp]: "length (shdr_bytes s) = 64"
  by (simp add: shdr_bytes_def)

lemma write_shdrs_stays:
  assumes "\<forall>s \<in> set ss. (let o' = usize_add sh (unat (os_shndx s) * 64) in {o' ..< o' + 64}) \<subseteq> R"
  shows "stays_in n R (write_shdrs sh ss)"
  using assms
proof (induction ss)
  case Nil
  have "write_shdrs sh [] = Ok" by (rule ext) simp
  then show ?case by (simp add: stays_in_Ok)
next
  case (Cons s ss)
  let ?o = "usize_add sh (unat (os_shndx s) * 64)"
  have "stays_in n R (\<lambda>b. bind_outcome (put_slice b ?o (shdr_bytes s)) (write_shdrs sh ss))"
    using Cons by (intro stays_in_bind stays_in_put) (simp_all add: Let_def)
  then show ?case by (simp add: stays_in_def Let_def)
qed

lemma write_section_headers_stays: "stays_in n (shdr_region ly) (write_section_headers ly)"
proof -
  let ?sh = "unat (ly_shoff ly)"
  have put: "stays_in n (shdr_region ly) (\<lambda>b. if usize_add ?sh 64 \<le> length b \<and> P
      then put_slice b (?sh + k) bs else Ok b)" if "k + length bs \<le> 64" for k bs P
  proof -
    have "{?sh + k ..< ?sh + k + length bs} \<subseteq> shdr_region ly"
      using that by (auto simp: shdr_region_def)
    from stays_in_put [OF this] show ?thesis by (simp add: stays_in_def)
  qed
  show ?thesis
    unfolding write_section_headers_def Let_def
    by (intro stays_in_bind put write_shdrs_stays) (auto simp: shdr_region_def Let_def)
qed

lemma write_tls_slots_stays:
  assumes "\<forall>(va, v) \<in> set ws.
    (let o' = unat (os_sh_offset got + (va - os_sh_addr got)) in {o' ..< o' + 8}) \<subseteq> R"
  shows "stays_in n R (write_tls_slots got ws)"
  using assms
proof (induction ws)
  case Nil
  have "write_tls_slots got [] = Ok" by (rule ext) simp
  then show ?case by (simp add: stays_in_Ok)
next
  case (Cons w ws)
  obtain va v where w: "w = (va, v)" by force
  let ?o = "unat (os_sh_offset got + (va - os_sh_addr got))"
  have "stays_in n R (\<lambda>b. bind_outcome (put_guarded b ?o (to_le 8 v)) (write_tls_slots got ws))"
    using Cons w by (intro stays_in_bind stays_in_guarded) (simp_all add: Let_def)
  moreover have "stays_in n R (write_tls_slots got ws)" using Cons by simp
  ultimately show ?case by (simp add: stays_in_def Let_def w)
qed

lemma write_tls_got_stays: "stays_in n (tls_region ly) (write_tls_got ly)"
proof (cases "find (\<lambda>s. os_source s = SrcGot) (output_sections ly)")
  case (Some got)
  have "stays_in n (tls_region ly) (write_tls_slots got (tls_got_writes ly))"
    by (rule write_tls_slots_stays) (auto simp: tls_region_def Some Let_def)
  then show ?thesis by (simp add: stays_in_def write_tls_got_def Some)
qed (simp add: stays_in_def write_tls_got_def)

text \<open>The unwind table as a map: what \<open>write_eh_frame_hdr\<close> writes, read off the bytes of \<^verbatim>\<open>.eh_frame\<close>.\<close>

definition hdr_write :: "layout \<Rightarrow> bytes \<Rightarrow> nat \<rightharpoonup> u8" where
  "hdr_write ly buf =
     (case (find (\<lambda>s. os_source s = SrcEhFrameHdr) (output_sections ly),
            find (\<lambda>s. os_name s = ''.eh_frame'') (output_sections ly)) of
        (Some hdr, Some eh) \<Rightarrow>
          if length buf < usize_add (unat (os_sh_offset eh)) (unat (os_sh_size eh)) then Map.empty
          else (case slice (unat (os_sh_offset eh)) (unat (os_sh_size eh)) buf of
            None \<Rightarrow> Map.empty
          | Some eh_bytes \<Rightarrow>
              write_map (unat (os_sh_offset hdr))
                (take (unat (os_sh_size hdr)) (eh_frame_hdr_of ly hdr eh eh_bytes)))
      | _ \<Rightarrow> Map.empty)"

definition hdr_fits :: "nat \<Rightarrow> layout \<Rightarrow> bool" where
  "hdr_fits n ly \<longleftrightarrow> (\<forall>k \<in> hdr_region ly. k < n) \<and> n < 2 ^ 64"

lemma hdr_fits_put:
  assumes "hdr_fits (length b) ly" "find (\<lambda>s. os_source s = SrcEhFrameHdr) (output_sections ly) = Some hdr"
    and "length bs \<le> unat (os_sh_size hdr)"
  shows "put_guarded b (unat (os_sh_offset hdr)) bs = Ok (masked (write_map (unat (os_sh_offset hdr)) bs) b)"
proof (cases "bs = []")
  case True
  then have "write_map (unat (os_sh_offset hdr)) bs = Map.empty" by (simp add: write_map_def fun_eq_iff)
  moreover have "usize_add (unat (os_sh_offset hdr)) 0 = unat (os_sh_offset hdr)"
    using mod_less [of "unat (os_sh_offset hdr)" "2 ^ 64"] unsigned_less [of "os_sh_offset hdr", where 'a = nat]
    by (simp add: usize_add_def)
  ultimately show ?thesis using True by (simp add: put_guarded_def put_slice_def splice_def)
next
  case False
  let ?o = "unat (os_sh_offset hdr)" and ?s = "unat (os_sh_size hdr)"
  have "?o + ?s - 1 \<in> hdr_region ly"
    using False assms(2,3) by (cases bs) (auto simp: hdr_region_def)
  then have "?o + ?s - 1 < length b" "length b < 2 ^ 64" using assms(1) by (auto simp: hdr_fits_def)
  then have "?o + length bs \<le> length b" "?o + length bs < 2 ^ 64" using assms(3) False by (auto simp: Suc_le_eq)
  then show ?thesis
    by (simp add: put_guarded_def put_slice_def usize_add_def splice_overwrite overwrite_masked)
qed

lemma write_eh_frame_hdr_masked:
  assumes "hdr_fits (length b) ly"
  shows "write_eh_frame_hdr ly b = Ok (masked (hdr_write ly b) b) \<or> write_eh_frame_hdr ly b = Panic"
  using hdr_fits_put [OF assms]
  by (auto simp: write_eh_frame_hdr_def hdr_write_def split: option.splits)


text \<open>The table depends on the bytes of \<^verbatim>\<open>.eh_frame\<close> only, and grows with the number of its entries.\<close>

definition eh_bytes :: "layout \<Rightarrow> bytes \<Rightarrow> bytes" where
  "eh_bytes ly buf =
     (case find (\<lambda>s. os_name s = ''.eh_frame'') (output_sections ly) of
        None \<Rightarrow> []
      | Some eh \<Rightarrow> take (unat (os_sh_size eh)) (drop (unat (os_sh_offset eh)) buf))"

lemma splice_None_cong:
  "splice b off bs = None \<Longrightarrow> splice b' off bs = Some c \<Longrightarrow> length b \<noteq> length b'"
  by (auto simp: splice_def split: if_splits)

lemma hdr_write_cong:
  assumes "length b = length b'" "\<forall>k \<in> eh_region ly. k < length b \<longrightarrow> b ! k = b' ! k"
  shows "eh_bytes ly b = eh_bytes ly b'" "hdr_write ly b = hdr_write ly b'"
    "write_eh_frame_hdr ly b = Panic \<longleftrightarrow> write_eh_frame_hdr ly b' = Panic"
proof -
  have "take (unat (os_sh_size eh)) (drop (unat (os_sh_offset eh)) b) =
      take (unat (os_sh_size eh)) (drop (unat (os_sh_offset eh)) b')"
    if "find (\<lambda>s. os_name s = ''.eh_frame'') (output_sections ly) = Some eh" for eh
    using assms that by (intro nth_equalityI) (auto simp: eh_region_def)
  then have eq: "slice (unat (os_sh_offset eh)) (unat (os_sh_size eh)) b =
      slice (unat (os_sh_offset eh)) (unat (os_sh_size eh)) b'"
      "take (unat (os_sh_size eh)) (drop (unat (os_sh_offset eh)) b) =
      take (unat (os_sh_size eh)) (drop (unat (os_sh_offset eh)) b')"
    if "find (\<lambda>s. os_name s = ''.eh_frame'') (output_sections ly) = Some eh" for eh
    using that assms(1) by (auto simp: slice_def)
  show "eh_bytes ly b = eh_bytes ly b'" using eq by (auto simp: eh_bytes_def split: option.splits)
  show "hdr_write ly b = hdr_write ly b'"
    using eq assms(1) by (auto simp: hdr_write_def split: option.splits)
  show "write_eh_frame_hdr ly b = Panic \<longleftrightarrow> write_eh_frame_hdr ly b' = Panic"
    using eq assms(1)
    by (auto simp: write_eh_frame_hdr_def put_guarded_def put_slice_def simp del: splice_defined
        split: option.splits dest: splice_None_cong)
qed

lemma hdr_write_region: "dom (hdr_write ly b) \<subseteq> hdr_region ly"
  by (auto simp: hdr_write_def hdr_region_def write_map_def split: option.splits if_splits)

lemma length_eh_frame_hdr_of:
  "length (eh_frame_hdr_of ly hdr eh bs) = 12 + 8 * length (iter_fdes bs)"
proof -
  have "length (concat (map (\<lambda>(pc, fde). to_le 4 (ucast (pc - va) :: u32) @ to_le 4 (ucast (fde - va) :: u32)) es)) =
      8 * length es" for va :: u64 and es :: "(i64 \<times> i64) list"
    by (induction es) (auto split: prod.splits)
  then show ?thesis by (simp add: eh_frame_hdr_of_def eh_frame_hdr_bytes_def)
qed

lemma hdr_write_mono:
  assumes "length b = length b'" "length (iter_fdes (eh_bytes ly b)) \<le> length (iter_fdes (eh_bytes ly b'))"
  shows "dom (hdr_write ly b) \<subseteq> dom (hdr_write ly b')"
proof (cases "find (\<lambda>s. os_source s = SrcEhFrameHdr) (output_sections ly)")
  case (Some hdr)
  show ?thesis
  proof (cases "find (\<lambda>s. os_name s = ''.eh_frame'') (output_sections ly)")
    case (Some eh)
    then show ?thesis
      using assms \<open>find _ _ = Some hdr\<close>
      by (auto simp: hdr_write_def write_map_def length_eh_frame_hdr_of eh_bytes_def slice_def min_def
          split: if_splits)
  qed (simp add: hdr_write_def split: option.splits)
qed (simp add: hdr_write_def)

end
