(* ===== verification/Emit_Items.thy ===== *)
theory Emit_Items
  imports Emit_Regions
begin

text \<open>
  Copying validated work items, without the accepted ranges: which lists of items validate, stated on the
  items, and the dispatch over such a list as one partial map from file positions to bytes.
\<close>

section \<open>Which lists of items validate\<close>

definition item_ok :: "nat \<Rightarrow> work_item \<Rightarrow> bool" where
  "item_ok n item \<longleftrightarrow>
     wi_file_len item = 0 \<or>
     (wi_file_off item + wi_file_len item \<le> n \<and> wi_file_off item + wi_file_len item < 2 ^ 64 \<and>
      item_len item \<le> wi_file_len item \<and>
      validate_relocs 0 0 (item_len item) (sec_relocs (wi_isec item)) = Ok ())"

definition items_apart :: "work_item \<Rightarrow> work_item \<Rightarrow> bool" where
  "items_apart x y \<longleftrightarrow>
     wi_file_len x = 0 \<or> wi_file_len y = 0 \<or>
     wi_file_off x + wi_file_len x \<le> wi_file_off y \<or> wi_file_off y + wi_file_len y \<le> wi_file_off x"

definition items_valid :: "nat \<Rightarrow> work_item list \<Rightarrow> bool" where
  "items_valid n items \<longleftrightarrow> (\<forall>item \<in> set items. item_ok n item) \<and> sorted_wrt items_apart items"

lemma items_valid_filter: "items_valid n items \<Longrightarrow> items_valid n (filter P items)"
  by (auto simp: items_valid_def sorted_wrt_filter)

lemma validate_relocs_index:
  "validate_relocs i k n rs = Ok () \<longleftrightarrow> validate_relocs i' k' n rs = Ok ()"
proof (induction rs arbitrary: k k')
  case (Cons r rs)
  have fp: "relocation_footprint i k r = Ok f \<longleftrightarrow> relocation_footprint i' k' r = Ok f" for f
    by (auto simp: relocation_footprint_def split: option.splits if_splits)
  show ?case
  proof (cases "\<exists>f. relocation_footprint i k r = Ok f")
    case True
    then obtain f where "relocation_footprint i k r = Ok f" "relocation_footprint i' k' r = Ok f"
      using fp by blast
    then show ?thesis using Cons.IH by (cases f) auto
  next
    case False
    then have "relocation_footprint i k r \<noteq> Ok f" "relocation_footprint i' k' r \<noteq> Ok f" for f
      using fp by blast+
    then show ?thesis by (auto elim!: bind_outcome_Ok)
  qed
qed simp

lemma item_valid_ok: "item_valid n i item acc \<Longrightarrow> item_ok n item"
  using validate_relocs_index [of i 0 _ _ 0 0]
  by (auto simp: item_valid_def item_ok_def split: option.splits)

lemma validate_items_from_ok:
  assumes "\<forall>item \<in> set items. item_ok n item"
  shows "\<exists>v rs. validate_items_from n i items = Ok (v, rs)"
  using assms
proof (induction items arbitrary: i)
  case (Cons item items)
  obtain v rs where ih: "validate_items_from n (Suc i) items = Ok (v, rs)" using Cons by fastforce
  show ?case
  proof (cases "wi_file_len item = 0")
    case True
    then show ?thesis using ih by (simp add: range_from_parts_def)
  next
    case False
    then have "item_ok n item" using Cons.prems by simp
    then show ?thesis
      using False ih validate_relocs_index [of i 0 "item_len item" "sec_relocs (wi_isec item)" 0 0]
      by (auto simp: range_from_parts_def item_ok_def validate_item_containment_def item_len_def Let_def)
  qed
qed simp

lemma check_overlaps_ok:
  assumes "sorted_wrt (\<lambda>a b. wr_end a \<le> wr_start b) rs"
    and "\<forall>f. prev = Some f \<longrightarrow> rs = [] \<or> wr_end f \<le> wr_start (hd rs)"
  shows "check_overlaps prev rs = Ok ()"
  using assms
proof (induction rs arbitrary: prev)
  case (Cons r rs)
  have "check_overlaps (Some r) rs = Ok ()"
    using Cons.prems(1) by (intro Cons.IH) (cases rs; simp)+
  then show ?case using Cons.prems(2) by (cases prev) auto
qed simp

lemma mem_map_filter_id: "x \<in> set (List.map_filter id v) \<longleftrightarrow> Some x \<in> set v"
  by (force simp: map_filter_def)

lemma distinct_map_filter_id:
  "sorted_wrt (\<lambda>a b. a = b \<longrightarrow> a = None) v \<Longrightarrow> distinct (List.map_filter id v)"
proof (induction v)
  case (Cons x v)
  then have "sorted_wrt (\<lambda>a b. a = b \<longrightarrow> a = None) v" by (simp only: sorted_wrt.simps)
  then have "distinct (List.map_filter id v)" by (rule Cons.IH)
  then show ?case
    using Cons.prems by (cases x) (auto simp: map_filter_simps id_def mem_map_filter_id [unfolded id_def])
qed (simp add: map_filter_simps)

lemma range_key_start: "range_key a \<le> range_key b \<Longrightarrow> wr_start a \<le> wr_start b"
  by (auto simp: range_key_def less_eq_prod_def)

lemma validate_work_ranges_ok:
  assumes "distinct rs" "\<forall>r \<in> set rs. wr_start r < wr_end r"
    and apart: "\<forall>a \<in> set rs. \<forall>b \<in> set rs. a \<noteq> b \<longrightarrow> wr_end a \<le> wr_start b \<or> wr_end b \<le> wr_start a"
  shows "\<exists>v. validate_work_ranges rs = Ok v"
proof -
  let ?s = "sort_key range_key rs"
  have "sorted_wrt (\<lambda>a b. range_key a \<le> range_key b) ?s"
    using sorted_sort_key [of range_key rs] by (simp add: sorted_wrt_map)
  moreover have "sorted_wrt (\<noteq>) ?s"
    using assms(1) by (auto simp: sorted_wrt_iff_nth_less distinct_sort nth_eq_iff_index_eq)
  ultimately have "sorted_wrt (\<lambda>a b. range_key a \<le> range_key b \<and> a \<noteq> b) ?s"
    by (auto simp: sorted_wrt_iff_nth_less)
  then have "sorted_wrt (\<lambda>a b. wr_end a \<le> wr_start b) ?s"
  proof (rule sorted_wrt_mono_rel [rotated])
    fix a b
    assume "a \<in> set ?s" "b \<in> set ?s" "range_key a \<le> range_key b \<and> a \<noteq> b"
    then have "wr_end a \<le> wr_start b \<or> wr_end b \<le> wr_start a" "wr_start a \<le> wr_start b"
        "wr_start b < wr_end b"
      using assms(2) apart range_key_start by auto
    then show "wr_end a \<le> wr_start b" by linarith
  qed
  from check_overlaps_ok [OF this, of None] show ?thesis
    by (simp add: validate_work_ranges_def Let_def)
qed

lemma validate_iff:
  "(\<exists>acc. validate_work_item_ranges items n = Ok acc) \<longleftrightarrow> items_valid n items"
proof
  assume "\<exists>acc. validate_work_item_ranges items n = Ok acc"
  then obtain acc where acc: "validate_work_item_ranges items n = Ok acc" by blast
  have valid: "item_valid n k (items ! k) (acc ! k)" "length acc = length items" if "k < length items" for k
    using validated_item [OF acc that] by auto
  have "items_apart (items ! i) (items ! j)" if ij: "i < j" "j < length items" for i j
  proof (cases "acc ! i = None \<or> acc ! j = None")
    case True
    then show ?thesis using valid(1) [of i] valid(1) [of j] ij by (auto simp: items_apart_def item_valid_def)
  next
    case False
    then obtain r r' where r: "acc ! i = Some r" "acc ! j = Some r'" by auto
    moreover have "Some r \<in> set acc" "Some r' \<in> set acc" using r ij valid(2) nth_mem by (metis order.strict_trans)+
    moreover have "wr_item r = i" "wr_item r' = j" using valid(1) [of i] valid(1) [of j] ij r by (auto simp: item_valid_def)
    ultimately show ?thesis
      using validated_disjoint [OF acc, of r r'] valid(1) [of i] valid(1) [of j] ij
      by (auto simp: items_apart_def item_valid_def)
  qed
  moreover have "item_ok n item" if "item \<in> set items" for item
    using that valid(1) item_valid_ok by (metis in_set_conv_nth)
  ultimately show "items_valid n items" by (auto simp: items_valid_def sorted_wrt_iff_nth_less)
next
  assume v: "items_valid n items"
  then obtain acc rs where vs: "validate_items_from n 0 items = Ok (acc, rs)"
    using validate_items_from_ok by (fastforce simp: items_valid_def)
  note f = validate_items_from_valid [OF vs]
  have nth: "wr_item r < length items \<and> acc ! wr_item r = Some r \<and> wr_start r = wi_file_off (items ! wr_item r) \<and>
      wr_end r = wi_file_off (items ! wr_item r) + wi_file_len (items ! wr_item r) \<and> wr_start r < wr_end r"
    if "r \<in> set rs" for r
  proof -
    have "Some r \<in> set acc" using that f by (force simp: map_filter_def)
    then obtain k where k: "k < length items" "acc ! k = Some r" using f by (metis in_set_conv_nth)
    then have "item_valid n k (items ! k) (Some r)" using f by (metis add_0)
    then show ?thesis using k by (auto simp: item_valid_def)
  qed
  have "acc ! i = None" if "i < j" "j < length acc" "acc ! i = acc ! j" for i j
  proof -
    have "item_valid n i (items ! i) (acc ! i)" "item_valid n j (items ! j) (acc ! j)" using f that(1,2) by auto
    then show ?thesis using that by (auto simp: item_valid_def split: option.splits)
  qed
  then have "sorted_wrt (\<lambda>a b. a = b \<longrightarrow> a = None) acc" by (simp add: sorted_wrt_iff_nth_less)
  then have "distinct rs" using f distinct_map_filter_id by blast
  moreover have "wr_end a \<le> wr_start b \<or> wr_end b \<le> wr_start a" if "a \<in> set rs" "b \<in> set rs" "a \<noteq> b" for a b
  proof -
    have "wr_item a \<noteq> wr_item b" using nth [OF that(1)] nth [OF that(2)] that(3) by auto
    then have "items_apart (items ! wr_item a) (items ! wr_item b) \<or> items_apart (items ! wr_item b) (items ! wr_item a)"
      using v nth [OF that(1)] nth [OF that(2)]
      by (auto simp: items_valid_def sorted_wrt_iff_nth_less not_less_iff_gr_or_eq dest: linorder_neqE_nat)
    then show ?thesis using nth [OF that(1)] nth [OF that(2)] by (auto simp: items_apart_def)
  qed
  ultimately obtain w where "validate_work_ranges rs = Ok w"
    using validate_work_ranges_ok nth by meson
  then show "\<exists>acc. validate_work_item_ranges items n = Ok acc"
    using vs by (simp add: validate_work_item_ranges_def)
qed


section \<open>Copying as a map\<close>

definition item_write :: "input_arena \<Rightarrow> apply_ctx \<Rightarrow> work_item \<Rightarrow> nat \<rightharpoonup> u8" where
  "item_write arena ctx item =
     (if item_len item = 0 then Map.empty
      else case item_bytes arena ctx item of
        Ok b \<Rightarrow> write_map (wi_file_off item) b | _ \<Rightarrow> Map.empty)"

definition items_map :: "input_arena \<Rightarrow> apply_ctx \<Rightarrow> work_item list \<Rightarrow> nat \<rightharpoonup> u8" where
  "items_map arena ctx items = fold (\<lambda>item m. m ++ item_write arena ctx item) items Map.empty"

definition items_done :: "input_arena \<Rightarrow> apply_ctx \<Rightarrow> work_item list \<Rightarrow> bool" where
  "items_done arena ctx items \<longleftrightarrow>
     (\<forall>item \<in> set items. item_len item \<noteq> 0 \<longrightarrow> (\<exists>b. item_bytes arena ctx item = Ok b))"

lemma item_effect_write:
  assumes v: "validated arena items n acc" and m: "(i, item) \<in> set (enumerate 0 items)"
    and len: "wi_file_len item = item_len item" and d: "items_done arena ctx items"
  shows "fst (item_effect arena ctx acc (i, item) st) = masked (item_write arena ctx item) (fst st)"
proof -
  note g = validated_get [OF v m]
  show ?thesis
  proof (cases "item_len item = 0")
    case True
    then show ?thesis by (simp add: item_effect_def item_write_def)
  next
    case False
    then obtain r where r: "acc ! i = Some r" using g(4) len by (cases "acc ! i") (auto simp: item_valid_def)
    have "item \<in> set items" using g(1,2) nth_mem by metis
    then obtain b where b: "item_bytes arena ctx item = Ok b" using d False by (auto simp: items_done_def)
    then show ?thesis
      using False r g(3)
      by (cases st) (simp add: item_effect_def item_write_def put_item_def overwrite_masked)
  qed
qed

lemma item_error_done:
  assumes v: "validated arena items n acc" and m: "(i, item) \<in> set (enumerate 0 items)"
    and len: "wi_file_len item = item_len item"
  shows "item_error arena ctx acc (i, item) = None \<longleftrightarrow>
    item_len item = 0 \<or> (\<exists>b. item_bytes arena ctx item = Ok b)"
proof -
  note g = validated_get [OF v m]
  show ?thesis
  proof (cases "item_len item = 0")
    case False
    then obtain r where r: "acc ! i = Some r" using g(4) len by (cases "acc ! i") (auto simp: item_valid_def)
    then have "item_bytes arena ctx item \<noteq> Panic"
      using item_bytes_stay [of n i item r arena ctx] g(4,5) by auto
    then show ?thesis using False r g(3) by (cases "item_bytes arena ctx item") (simp_all add: item_error_def)
  qed (simp add: item_error_def)
qed

lemma fold_effect_masked:
  assumes v: "validated arena items n acc" and "set ord \<subseteq> set (enumerate 0 items)"
    and len: "\<forall>item \<in> set items. wi_file_len item = item_len item" and d: "items_done arena ctx items"
  shows "fst (fold (item_effect arena ctx acc) ord (masked m buf, t)) =
    masked (fold (\<lambda>item m. m ++ item_write arena ctx item) (map snd ord) m) buf"
  using assms(2)
proof (induction ord arbitrary: m t)
  case (Cons x ord)
  obtain i item where x: "x = (i, item)" by force
  have mem: "(i, item) \<in> set (enumerate 0 items)" using Cons.prems x by simp
  then have "item \<in> set items" using validated_get(1,2) [OF v mem] nth_mem by metis
  then have "fst (item_effect arena ctx acc x (masked m buf, t)) = masked (m ++ item_write arena ctx item) buf"
    using item_effect_write [OF v mem _ d] len by (simp add: x masked_masked)
  then obtain t' where "item_effect arena ctx acc x (masked m buf, t) = (masked (m ++ item_write arena ctx item) buf, t')"
    by (metis prod.collapse)
  then show ?case using Cons by (simp add: x)
qed simp

text \<open>The serial loop over validated items, as one partial map.\<close>

lemma dispatch_masked:
  assumes v: "validated arena items (length buf) acc"
    and len: "\<forall>item \<in> set items. wi_file_len item = item_len item"
  shows "(\<exists>t'. dispatch_items arena ctx acc (enumerate 0 items) (buf, t) = Ok (buf', t')) \<longleftrightarrow>
    items_done arena ctx items \<and> buf' = masked (items_map arena ctx items) buf"
proof -
  note e = dispatch_eq [OF v subset_refl, of "(buf, t)" ctx]
  have mem: "item \<in> set items" if "(i, item) \<in> set (enumerate 0 items)" for i item
    using validated_get(1,2) [OF v that] nth_mem by metis
  have "List.map_filter (item_error arena ctx acc) (enumerate 0 items) = [] \<longleftrightarrow>
      (\<forall>x \<in> set (enumerate 0 items). item_len (snd x) = 0 \<or> (\<exists>b. item_bytes arena ctx (snd x) = Ok b))"
    using item_error_done [OF v] mem len by (auto simp: map_filter_Nil_iff)
  also have "\<dots> \<longleftrightarrow> (\<forall>item \<in> snd ` set (enumerate 0 items). item_len item = 0 \<or> (\<exists>b. item_bytes arena ctx item = Ok b))"
    by simp
  also have "snd ` set (enumerate 0 items) = set items" by (metis map_snd_enumerate set_map)
  finally have nil: "List.map_filter (item_error arena ctx acc) (enumerate 0 items) = [] \<longleftrightarrow>
      items_done arena ctx items" by (auto simp: items_done_def)
  show ?thesis
  proof (cases "items_done arena ctx items")
    case True
    from fold_effect_masked [OF v subset_refl len True, of Map.empty buf t]
    have "fst (fold (item_effect arena ctx acc) (enumerate 0 items) (buf, t)) = masked (items_map arena ctx items) buf"
      by (simp add: items_map_def)
    then show ?thesis using True nil by (auto simp: e prod_eq_iff)
  next
    case False
    then show ?thesis using nil by (auto simp: e split: list.splits)
  qed
qed

end
