(* ===== verification/Emit_Incremental.thy ===== *)
theory Emit_Incremental
  imports Emit_Items
begin

text \<open>
  Why the partial emit is the full emit.  \<^verbatim>\<open>emit_partial_objects\<close> rewrites only the contributions of the changed
  objects, the unwind table and the build id of an existing output.  The items of a partial emit are a part
  of those of the full emit, and for a relink with an unchanged layout and symbol table the patched file
  is the freshly emitted one.
\<close>

section \<open>Items of a link\<close>

definition emit_ctx :: "input_object list \<Rightarrow> symbol_table \<Rightarrow> layout \<Rightarrow> apply_ctx" where
  "emit_ctx objs st ly =
     \<lparr>cx_symbols = st, cx_layout = ly, cx_shared = ly_shared ly, cx_index = Some (sym_index_build objs st)\<rparr>"

lemma mem_map_filter: "y \<in> set (List.map_filter f xs) \<longleftrightarrow> (\<exists>x \<in> set xs. f x = Some y)"
  by (force simp: map_filter_def)

lemma mem_collect:
  "item \<in> set (collect_input_work_items ly objs flt) \<longleftrightarrow>
     (\<exists>sec \<in> set (output_sections ly). \<exists>c \<in> set (os_contributions sec).
        os_source sec = SrcInput \<and> collects_output_section flt (os_name sec) \<and>
        writes_contribution flt (con_object_id c) \<and> contribution_item objs sec c = Some item)"
  by (auto simp: collect_input_work_items_def mem_map_filter)

lemma contribution_item_Some:
  "contribution_item objs sec c = Some item \<longleftrightarrow>
     con_object_id c < length objs \<and> con_section_pos c < length (sections (objs ! con_object_id c)) \<and>
     item = (let obj = objs ! con_object_id c; isec = sections obj ! con_section_pos c in
       \<lparr>wi_file_off = unat (saturating_add (os_sh_offset sec) (con_offset c)),
        wi_file_len = section_data_len (sec_data isec),
        wi_section_va = saturating_add (os_sh_addr sec) (con_offset c),
        wi_obj = obj, wi_isec = isec, wi_obj_id = con_object_id c,
        wi_section_index = con_section_index c, wi_reloc_count = length (sec_relocs isec)\<rparr>)"
  by (auto simp: contribution_item_def get_def Let_def split: if_splits)

lemma map_filter_filter:
  assumes "\<And>x y. x \<in> set xs \<Longrightarrow> f x = Some y \<Longrightarrow> P y \<longleftrightarrow> Q x"
  shows "filter P (List.map_filter f xs) = List.map_filter f (filter Q xs)"
  using assms by (induction xs) (auto simp: map_filter_simps split: option.splits)

lemma collect_changed:
  "collect_input_work_items ly objs (ChangedObjects C) =
     filter (\<lambda>item. wi_obj_id item \<in> C) (collect_input_work_items ly objs WriteAll)"
proof -
  have "List.map_filter (contribution_item objs sec) (filter (\<lambda>c. con_object_id c \<in> C) cs) =
      filter (\<lambda>item. wi_obj_id item \<in> C) (List.map_filter (contribution_item objs sec) cs)" for sec cs
    by (rule map_filter_filter [symmetric]) (auto simp: contribution_item_Some Let_def)
  then show ?thesis by (simp add: collect_input_work_items_def filter_concat comp_def)
qed

lemma collect_len:
  "item \<in> set (collect_input_work_items ly objs flt) \<Longrightarrow>
     wi_file_len item = item_len item \<and> wi_obj item \<in> set objs \<and> wi_isec item \<in> set (sections (wi_obj item))"
  by (auto simp: mem_collect contribution_item_Some Let_def item_len_def)

lemma collect_readable:
  "sections_readable arena objs \<Longrightarrow>
     \<forall>item \<in> set (collect_input_work_items ly objs flt). arena_bytes arena (sec_data (wi_isec item)) \<noteq> None"
  using collect_len by (fastforce simp: sections_readable_def)

lemma copy_masked:
  fixes arena objs st ly flt
  defines "items \<equiv> collect_input_work_items ly objs flt"
  assumes rd: "sections_readable arena objs" and m: "mset sched = mset (batches (length items))"
  shows "copy_input_sections arena objs st ly flt sched buf = Ok buf' \<longleftrightarrow>
    items_valid (length buf) items \<and> items_done arena (emit_ctx objs st ly) items \<and>
    buf' = masked (items_map arena (emit_ctx objs st ly) items) buf"
proof (cases "items_valid (length buf) items")
  case True
  then obtain acc where acc: "validate_work_item_ranges items (length buf) = Ok acc"
    using validate_iff by blast
  then have v: "validated arena items (length buf) acc"
    using collect_readable [OF rd] by (simp add: validated_def items_def)
  have len: "\<forall>item \<in> set items. wi_file_len item = item_len item"
    using collect_len by (auto simp: items_def)
  let ?ctx = "emit_ctx objs st ly"
  let ?cut = "\<lambda>(s, e). take (e - s) (drop s (enumerate 0 items))"
  have "mset (concat (map ?cut xs)) = (\<Sum>x \<in># mset xs. mset (?cut x))" for xs
    by (induction xs) auto
  then have "mset (concat (map ?cut sched)) = mset (concat (map ?cut (batches (length items))))"
    by (simp only: m)
  then have perm: "mset (concat (map ?cut sched)) = mset (enumerate 0 items)"
    using concat_batches [of "enumerate 0 items"] by simp
  let ?d = "dispatch_items arena ?ctx acc (enumerate 0 items) (buf, totals_zero)"
  have par: "dispatch_parallel arena ?ctx acc items sched (buf, totals_zero) = Ok s \<longleftrightarrow> ?d = Ok s" for s
    using dispatch_permuted [OF v perm, of ?ctx totals_zero] by (auto simp: dispatch_parallel_def split: outcome.splits)
  have "copy_input_sections arena objs st ly flt sched buf = Ok buf' \<longleftrightarrow>
      (\<exists>t'. dispatch_parallel arena ?ctx acc items sched (buf, totals_zero) = Ok (buf', t'))"
    using acc by (auto simp: copy_input_sections_def Let_def items_def [symmetric] emit_ctx_def [symmetric]
        split: outcome.splits)
  then have "copy_input_sections arena objs st ly flt sched buf = Ok buf' \<longleftrightarrow> (\<exists>t'. ?d = Ok (buf', t'))"
    by (simp only: par)
  then show ?thesis using dispatch_masked [OF v len, of ?ctx totals_zero buf'] True by simp
next
  case False
  then have "validate_work_item_ranges items (length buf) \<noteq> Ok acc" for acc
    using validate_iff by blast
  then show ?thesis
    using False by (auto simp: copy_input_sections_def Let_def items_def [symmetric] split: outcome.splits)
qed


section \<open>The map of a list of items\<close>

lemma item_write_dom:
  assumes "item_ok n item" "arena_bytes arena (sec_data (wi_isec item)) \<noteq> None" "wi_file_len item = item_len item"
  shows "dom (item_write arena ctx item) \<subseteq> {wi_file_off item ..< wi_file_off item + wi_file_len item}"
    and "(\<exists>b. item_bytes arena ctx item = Ok b) \<Longrightarrow>
      dom (item_write arena ctx item) = {wi_file_off item ..< wi_file_off item + wi_file_len item}"
proof -
  have len: "length b = item_len item" if "item_bytes arena ctx item = Ok b" "item_len item \<noteq> 0" for b
  proof -
    have "item_valid n 0 item (Some \<lparr>wr_item = 0, wr_start = wi_file_off item,
        wr_end = wi_file_off item + wi_file_len item\<rparr>)"
      using assms that by (simp add: item_valid_def item_ok_def)
    from item_bytes_stay [OF this assms(2), of ctx] show ?thesis using that by simp
  qed
  show "dom (item_write arena ctx item) \<subseteq> {wi_file_off item ..< wi_file_off item + wi_file_len item}"
    using len assms(3)
    by (auto simp: item_write_def write_map_def split: if_splits outcome.splits)
  show "dom (item_write arena ctx item) = {wi_file_off item ..< wi_file_off item + wi_file_len item}"
    if "\<exists>b. item_bytes arena ctx item = Ok b"
    using len assms(3) that by (auto simp: item_write_def write_map_def dom_def split: if_splits)
qed

lemma items_map_Some:
  assumes "items_valid n items" "\<forall>item \<in> set items. wi_file_len item = item_len item \<and>
      arena_bytes arena (sec_data (wi_isec item)) \<noteq> None"
  shows "items_map arena ctx items k = Some v \<longleftrightarrow> (\<exists>item \<in> set items. item_write arena ctx item k = Some v)"
  using assms
proof (induction items rule: rev_induct)
  case (snoc x xs)
  have v: "items_valid n xs" and apart: "\<forall>y \<in> set xs. items_apart y x"
    using snoc.prems(1) by (auto simp: items_valid_def sorted_wrt_append)
  have d: "dom (item_write arena ctx y) \<subseteq> {wi_file_off y ..< wi_file_off y + wi_file_len y}" if "y \<in> set (xs @ [x])" for y
    using snoc.prems that by (intro item_write_dom(1)) (auto simp: items_valid_def)
  have dis: "item_write arena ctx y k = None" if "y \<in> set xs" "item_write arena ctx x k \<noteq> None" for y
  proof (rule ccontr)
    assume "item_write arena ctx y k \<noteq> None"
    then have "k \<in> {wi_file_off y ..< wi_file_off y + wi_file_len y}" "k \<in> {wi_file_off x ..< wi_file_off x + wi_file_len x}"
      using d [of y] d [of x] that by (auto simp: dom_def)
    then show False using apart that(1) by (auto simp: items_apart_def)
  qed
  have "items_map arena ctx (xs @ [x]) = items_map arena ctx xs ++ item_write arena ctx x"
    by (simp add: items_map_def)
  then have "items_map arena ctx (xs @ [x]) k = (case item_write arena ctx x k of
      Some w \<Rightarrow> Some w | None \<Rightarrow> items_map arena ctx xs k)"
    by (simp add: map_add_def)
  moreover have "items_map arena ctx xs k = Some v \<longleftrightarrow> (\<exists>item \<in> set xs. item_write arena ctx item k = Some v)"
    using snoc.IH [OF v] snoc.prems(2) by simp
  ultimately show ?case using dis by (cases "item_write arena ctx x k") auto
qed (simp add: items_map_def)

section \<open>Relinking with changed objects\<close>

text \<open>Two links with the same layout: outside the changed objects \<open>C\<close> nothing differs, and the sections of a
  changed object keep their lengths.\<close>

definition relinked ::
  "nat set \<Rightarrow> input_arena \<Rightarrow> input_object list \<Rightarrow> input_arena \<Rightarrow> input_object list \<Rightarrow> bool" where
  "relinked C a1 objs1 a2 objs2 \<longleftrightarrow>
     map (\<lambda>obj. map (\<lambda>s. section_data_len (sec_data s)) (sections obj)) objs1 =
     map (\<lambda>obj. map (\<lambda>s. section_data_len (sec_data s)) (sections obj)) objs2 \<and>
     (\<forall>i < length objs1. i \<notin> C \<longrightarrow> objs1 ! i = objs2 ! i \<and>
        (\<forall>s \<in> set (sections (objs1 ! i)). arena_bytes a1 (sec_data s) = arena_bytes a2 (sec_data s)))"

lemma relinked_sym: "relinked C a1 o1 a2 o2 \<Longrightarrow> relinked C a2 o2 a1 o1"
  by (auto simp: relinked_def dest: map_eq_imp_length_eq)

lemma apply_relocs_index_cong:
  assumes "get (sym_index_build objs1 st) i = get (sym_index_build objs2 st) i"
  shows "apply_relocs (emit_ctx objs1 st ly) obj i va rs buf = apply_relocs (emit_ctx objs2 st ly) obj i va rs buf"
proof -
  let ?a = "emit_ctx objs1 st ly" and ?b = "emit_ctx objs2 st ly"
  have res: "reloc_resolution ?a i k s = reloc_resolution ?b i k s" for k s
    using assms by (simp add: reloc_resolution_def sym_index_resolution_def emit_ctx_def)
  have addrs: "symbol_addrs ?a = symbol_addrs ?b" "symbol_tls ?a = symbol_tls ?b"
    by (intro ext; simp add: symbol_addrs_def symbol_tls_def emit_ctx_def cong: option.case_cong)+
  have proj: "cx_symbols ?a = cx_symbols ?b" "cx_layout ?a = cx_layout ?b" "cx_shared ?a = cx_shared ?b"
    by (simp_all add: emit_ctx_def)
  have "resolve_reloc_action ?a obj i r va = resolve_reloc_action ?b obj i r va" for r
    by (simp add: resolve_reloc_action_def Let_def res addrs proj cong: option.case_cong if_cong)
  then have "apply_reloc ?a obj i r va b = apply_reloc ?b obj i r va b" for r b by (simp add: apply_reloc_def)
  then have "apply_relocs ?a obj i va rs = apply_relocs ?b obj i va rs"
    for rs
  proof (induction rs)
    case (Cons r rs)
    show ?case by (rule ext) (simp add: Cons \<open>\<And>r b. apply_reloc ?a obj i r va b = _\<close>)
  qed (rule ext, simp)
  then show ?thesis by simp
qed

lemma relinked_item:
  assumes r: "relinked C a1 objs1 a2 objs2" and c: "contribution_item objs1 sec c = Some x"
  shows "\<exists>y. contribution_item objs2 sec c = Some y \<and> wi_file_off y = wi_file_off x \<and>
    wi_file_len y = wi_file_len x \<and> wi_obj_id y = wi_obj_id x \<and>
    (wi_obj_id x \<notin> C \<longrightarrow> item_write a2 (emit_ctx objs2 st ly) y = item_write a1 (emit_ctx objs1 st ly) x)"
proof -
  let ?i = "con_object_id c" and ?j = "con_section_pos c"
  have b: "?i < length objs1" "?j < length (sections (objs1 ! ?i))" using c by (auto simp: contribution_item_Some)
  have eqs: "map (\<lambda>obj. map (\<lambda>s. section_data_len (sec_data s)) (sections obj)) objs1 =
     map (\<lambda>obj. map (\<lambda>s. section_data_len (sec_data s)) (sections obj)) objs2"
    using r by (simp add: relinked_def)
  then have l: "length objs1 = length objs2" by (metis length_map)
  then have row: "map (\<lambda>s. section_data_len (sec_data s)) (sections (objs1 ! ?i)) =
      map (\<lambda>s. section_data_len (sec_data s)) (sections (objs2 ! ?i))"
    using arg_cong [OF eqs, of "\<lambda>l. l ! ?i"] b by simp
  then have l': "length (sections (objs1 ! ?i)) = length (sections (objs2 ! ?i))" by (metis length_map)
  have d: "section_data_len (sec_data (sections (objs1 ! ?i) ! ?j)) =
      section_data_len (sec_data (sections (objs2 ! ?i) ! ?j))"
    using arg_cong [OF row, of "\<lambda>l. l ! ?j"] b l' by simp
  obtain y where y: "contribution_item objs2 sec c = Some y"
    using b l l' by (auto simp: contribution_item_Some)
  have id: "wi_obj_id x = ?i" using c by (simp add: contribution_item_Some Let_def)
  have "item_write a2 (emit_ctx objs2 st ly) y = item_write a1 (emit_ctx objs1 st ly) x" if "?i \<notin> C"
  proof -
    have same: "objs1 ! ?i = objs2 ! ?i"
        "arena_bytes a1 (sec_data (sections (objs1 ! ?i) ! ?j)) = arena_bytes a2 (sec_data (sections (objs1 ! ?i) ! ?j))"
      using r that b nth_mem by (auto simp: relinked_def)
    then have xy: "x = y" using c y by (simp add: contribution_item_Some Let_def)
    have ix: "get (sym_index_build objs1 st) ?i = get (sym_index_build objs2 st) ?i"
      using b l same(1) by (simp add: sym_index_build_def get_def)
    have "item_bytes a2 (emit_ctx objs2 st ly) x = item_bytes a1 (emit_ctx objs1 st ly) x"
      using c same(2) apply_relocs_index_cong [OF ix]
      by (simp add: item_bytes_def contribution_item_Some Let_def split: option.splits)
    then show ?thesis by (simp add: item_write_def xy)
  qed
  then show ?thesis using c y d id by (auto simp: contribution_item_Some Let_def)
qed

text \<open>The map of a full emit, outside the items of the changed objects, is that of the previous link.\<close>

lemma relinked_maps:
  fixes objs1 objs2 st ly C a1 a2
  defines "i1 \<equiv> collect_input_work_items ly objs1 WriteAll" and "i2 \<equiv> collect_input_work_items ly objs2 WriteAll"
  defines "ic \<equiv> collect_input_work_items ly objs2 (ChangedObjects C)"
  assumes r: "relinked C a1 objs1 a2 objs2" and rd: "sections_readable a1 objs1" "sections_readable a2 objs2"
    and v: "items_valid n i1" "items_valid n i2"
    and d: "items_done a1 (emit_ctx objs1 st ly) i1" "items_done a2 (emit_ctx objs2 st ly) i2"
  defines "m1 \<equiv> items_map a1 (emit_ctx objs1 st ly) i1" and "m2 \<equiv> items_map a2 (emit_ctx objs2 st ly) i2"
    and "mc \<equiv> items_map a2 (emit_ctx objs2 st ly) ic"
  shows "mc k = Some w \<Longrightarrow> m2 k = Some w" and "mc k = None \<Longrightarrow> m1 k = m2 k"
proof -
  have ic: "ic = filter (\<lambda>item. wi_obj_id item \<in> C) i2" by (simp add: ic_def i2_def collect_changed)
  have r1: "\<forall>item \<in> set i1. wi_file_len item = item_len item \<and> arena_bytes a1 (sec_data (wi_isec item)) \<noteq> None"
    using collect_len collect_readable [OF rd(1)] by (auto simp: i1_def)
  have r2: "\<forall>item \<in> set i2. wi_file_len item = item_len item \<and> arena_bytes a2 (sec_data (wi_isec item)) \<noteq> None"
    using collect_len collect_readable [OF rd(2)] by (auto simp: i2_def)
  have m1: "m1 k = Some w \<longleftrightarrow> (\<exists>x \<in> set i1. item_write a1 (emit_ctx objs1 st ly) x k = Some w)" for w
    unfolding m1_def by (rule items_map_Some [OF v(1) r1])
  have m2: "m2 k = Some w \<longleftrightarrow> (\<exists>x \<in> set i2. item_write a2 (emit_ctx objs2 st ly) x k = Some w)" for w
    unfolding m2_def by (rule items_map_Some [OF v(2) r2])
  have mc: "mc k = Some w \<longleftrightarrow> (\<exists>x \<in> set i2. wi_obj_id x \<in> C \<and> item_write a2 (emit_ctx objs2 st ly) x k = Some w)" for w
    using items_map_Some [of n ic a2 "emit_ctx objs2 st ly" k w] items_valid_filter [OF v(2)] r2
    by (auto simp: mc_def ic)
  show "mc k = Some w \<Longrightarrow> m2 k = Some w" by (auto simp: mc m2)
  assume none: "mc k = None"
  have "m2 k = Some w \<Longrightarrow> m1 k = Some w" for w
  proof -
    assume "m2 k = Some w"
    then obtain y where y: "y \<in> set i2" "item_write a2 (emit_ctx objs2 st ly) y k = Some w" by (auto simp: m2)
    then have nc: "wi_obj_id y \<notin> C" using none mc by auto
    obtain sec c where c: "contribution_item objs2 sec c = Some y" "sec \<in> set (output_sections ly)"
        "c \<in> set (os_contributions sec)" "os_source sec = SrcInput"
      using y(1) by (auto simp: i2_def mem_collect)
    then obtain x where x: "contribution_item objs1 sec c = Some x"
        "item_write a1 (emit_ctx objs1 st ly) x = item_write a2 (emit_ctx objs2 st ly) y"
      using relinked_item [OF relinked_sym [OF r] c(1)] nc by blast
    have "x \<in> set i1" using x(1) c by (auto simp: i1_def mem_collect)
    then show "m1 k = Some w" unfolding m1 using x(2) y(2) by force
  qed
  moreover have "m1 k = Some w \<Longrightarrow> m2 k = Some w" for w
  proof -
    assume "m1 k = Some w"
    then obtain x where x: "x \<in> set i1" "item_write a1 (emit_ctx objs1 st ly) x k = Some w" by (auto simp: m1)
    then obtain sec c where c: "contribution_item objs1 sec c = Some x" "sec \<in> set (output_sections ly)"
        "c \<in> set (os_contributions sec)" "os_source sec = SrcInput"
      by (auto simp: i1_def mem_collect)
    obtain y where y: "contribution_item objs2 sec c = Some y" "wi_file_off y = wi_file_off x"
        "wi_file_len y = wi_file_len x" "wi_obj_id y = wi_obj_id x"
        "wi_obj_id x \<notin> C \<longrightarrow> item_write a2 (emit_ctx objs2 st ly) y = item_write a1 (emit_ctx objs1 st ly) x"
      using relinked_item [OF r c(1)] by blast
    have y2: "y \<in> set i2" using c y(1) by (auto simp: i2_def mem_collect)
    show "m2 k = Some w"
    proof (cases "wi_obj_id x \<in> C")
      case True
      have "k \<in> {wi_file_off x ..< wi_file_off x + wi_file_len x}"
        using item_write_dom(1) [of n x a1 "emit_ctx objs1 st ly"] x r1 v(1) by (auto simp: items_valid_def)
      then have "item_len y \<noteq> 0" and k: "k \<in> {wi_file_off y ..< wi_file_off y + wi_file_len y}"
        using y r2 y2 by auto
      then have "\<exists>b. item_bytes a2 (emit_ctx objs2 st ly) y = Ok b" using d(2) y2 by (auto simp: items_done_def)
      then have "item_write a2 (emit_ctx objs2 st ly) y k \<noteq> None"
        using item_write_dom(2) [of n y a2 "emit_ctx objs2 st ly"] y2 r2 v(2) k by (auto simp: items_valid_def)
      then show ?thesis using none mc y2 y(4) True by auto
    next
      case False
      then show ?thesis unfolding m2 using x y(5) y2 by force
    qed
  qed
  ultimately show "m1 k = m2 k" by (metis option.exhaust)
qed


section \<open>The partial emit\<close>

text \<open>The regions of the file are where the layout puts them: no input section reaches into the section headers,
  the TLS slots, the unwind table or the build id, \<^verbatim>\<open>.eh_frame\<close> not into the last three of the passes
  after it is read, and the unwind table lies in the file.\<close>

definition item_region :: "layout \<Rightarrow> input_object list \<Rightarrow> nat set" where
  "item_region ly objs =
     (\<Union>item \<in> set (collect_input_work_items ly objs WriteAll).
        {wi_file_off item ..< wi_file_off item + wi_file_len item})"

definition regions_apart :: "layout \<Rightarrow> input_object list \<Rightarrow> bool" where
  "regions_apart ly objs \<longleftrightarrow>
     (let n = unat (ly_file_size ly); d = desc_region n ly in
      item_region ly objs \<inter> (tls_region ly \<union> hdr_region ly \<union> shdr_region ly \<union> d) = {} \<and>
      eh_region ly \<inter> (hdr_region ly \<union> shdr_region ly \<union> d) = {} \<and>
      hdr_region ly \<inter> shdr_region ly = {} \<and> (\<forall>k \<in> hdr_region ly. k < n))"

lemma steady_writes:
  assumes "steady n W" "W b = Ok b'" "length b = n"
  obtains f where "writes_map n W f"
  using assms by (auto simp: steady_def)

lemma steady_length: "W b = Ok b' \<Longrightarrow> steady n W \<Longrightarrow> length b = n \<Longrightarrow> length b' = n"
  by (auto simp: steady_def writes_map_def)

lemma writes_map_unique:
  "writes_map n W f \<Longrightarrow> writes_map n W g \<Longrightarrow> length b = n \<Longrightarrow> masked f b = masked g b"
  by (simp add: writes_map_def)

lemma writes_map_region:
  assumes "writes_map n W f" "stays_in n R W" "f k = Some v" "k < n"
  shows "k \<in> R"
proof (rule ccontr)
  assume "k \<notin> R"
  let ?b = "replicate n (v + 1)"
  have "W ?b = Ok (masked f ?b)" using assms(1) by (simp add: writes_map_def)
  then have "agree_off R ?b (masked f ?b)" using assms(2) by (auto dest: stays_inD)
  then have "v + 1 = v" using \<open>k \<notin> R\<close> assms(3,4) by (auto simp: agree_off_def nth_masked)
  then show False by simp
qed

lemma emit_full_steps:
  assumes "emit_full None arena objs st ly sched = Ok (Some b)"
    and rd: "sections_readable arena objs" and ap: "regions_apart ly objs"
    and m: "mset sched = mset (batches (length (collect_input_work_items ly objs WriteAll)))"
  defines "n \<equiv> unat (ly_file_size ly)" and "items \<equiv> collect_input_work_items ly objs WriteAll"
    and "ctx \<equiv> emit_ctx objs st ly"
  obtains base t s w where
    "bind_outcome (write_headers ly (replicate n 0)) (write_synthetics st ly WriteAll (output_sections ly)) = Ok base"
    "length base = n" "items_valid n items" "items_done arena ctx items"
    "writes_map n (write_tls_got ly) t" "writes_map n (write_section_headers ly) s"
    "w = masked t (masked (items_map arena ctx items) base)"
    "write_eh_frame_hdr ly w \<noteq> Panic"
    "finalize_build_id ly (masked s (masked (hdr_write ly w) w)) = Ok b"
proof -
  have hf: "hdr_fits n ly"
    using ap unsigned_less [of "ly_file_size ly", where 'a = nat]
    by (simp add: regions_apart_def hdr_fits_def Let_def n_def)
  obtain p base c w x z where steps: "write_headers ly (replicate n 0) = Ok p"
      "write_synthetics st ly WriteAll (output_sections ly) p = Ok base"
      "copy_input_sections arena objs st ly WriteAll sched base = Ok c"
      "write_tls_got ly c = Ok w" "write_eh_frame_hdr ly w = Ok x"
      "write_section_headers ly x = Ok z" "finalize_build_id ly z = Ok b"
    using assms(1)
    by (auto simp: emit_full_def emit_with_filter_def Let_def write_section_data_def open_output_map_def n_def
        elim!: bind_outcome_Ok)
  have lp: "length p = n"
    using steady_length [OF steps(1) write_headers_steady] by simp
  have lb: "length base = n"
    using steady_length [OF steps(2) write_synthetics_steady lp] .
  have c: "items_valid n items" "items_done arena ctx items" "c = masked (items_map arena ctx items) base"
    using copy_masked [OF rd m] steps(3) lb by (simp_all add: items_def ctx_def)
  then have lc: "length c = n" using lb by simp
  obtain t where t: "writes_map n (write_tls_got ly) t" using steady_writes [OF write_tls_got_steady steps(4) lc] .
  then have w: "w = masked t c" using steps(4) lc by (simp add: writes_map_def)
  then have lw: "length w = n" using lc by simp
  have x: "x = masked (hdr_write ly w) w" "write_eh_frame_hdr ly w \<noteq> Panic"
    using write_eh_frame_hdr_masked [of w ly] hf steps(5) lw by auto
  then have lx: "length x = n" using lw by simp
  obtain s where s: "writes_map n (write_section_headers ly) s"
    using steady_writes [OF write_section_headers_steady steps(6) lx] .
  then have "z = masked s x" using steps(6) lx by (simp add: writes_map_def)
  then show thesis
    using that [of base t s w] steps(1,2,7) lb c t s w x by simp
qed


lemma nth_masked_cases:
  "k < length b \<Longrightarrow> f k = Some v \<Longrightarrow> masked f b ! k = v"
  "k < length b \<Longrightarrow> f k = None \<Longrightarrow> masked f b ! k = b ! k"
  by (simp_all add: nth_masked)

text \<open>The pointwise argument, on maps: \<open>z1\<close> and \<open>z2\<close> are the two full emits before the build id, \<open>b1\<close> the
  existing file, \<open>y\<close> the file after the changed objects are copied.\<close>

lemma patched_agrees:
  fixes base b1 :: bytes
  assumes len: "length base = n" "length b1 = n"
    and sub: "\<And>k v. mc k = Some v \<Longrightarrow> m2 k = Some v" "\<And>k. mc k = None \<Longrightarrow> m1 k = m2 k"
    and dis: "\<And>k v. k < n \<Longrightarrow> m2 k = Some v \<Longrightarrow> t k = None \<and> h1 k = None \<and> h2 k = None \<and> s k = None \<and> k \<notin> D"
    and dom: "\<And>k. h2 k = None \<Longrightarrow> h1 k = None" "\<And>k v. k < n \<Longrightarrow> s k = Some v \<Longrightarrow> h1 k = None \<and> h2 k = None"
    and z1: "agree_off D (masked s (masked h1 (masked t (masked m1 base)))) b1"
  shows "agree_off D (masked h2 (masked mc b1)) (masked s (masked h2 (masked t (masked m2 base)))) \<and>
    (\<forall>k < n. h1 k = None \<longrightarrow> h2 k = None \<longrightarrow> s k = None \<longrightarrow> k \<notin> D \<longrightarrow>
      masked mc b1 ! k = masked t (masked m2 base) ! k)"
proof -
  let ?w1 = "masked t (masked m1 base)" and ?w2 = "masked t (masked m2 base)"
  have patched: "masked mc b1 ! k = ?w2 ! k"
    if k: "k < n" "h1 k = None" "s k = None" "k \<notin> D" for k
  proof (cases "mc k")
    case None
    have "b1 ! k = ?w1 ! k" using agree_offD(2) [OF z1, of k] k len by (simp add: nth_masked)
    also have "\<dots> = ?w2 ! k" using sub(2) [OF None] k(1) len by (simp add: nth_masked split: option.splits)
    finally show ?thesis using None k(1) len by (simp add: nth_masked)
  next
    case (Some v)
    then show ?thesis using sub(1) [OF Some] dis [OF k(1) sub(1) [OF Some]] k(1) len by (simp add: nth_masked)
  qed
  have "masked h2 (masked mc b1) ! k = masked s (masked h2 ?w2) ! k" if k: "k < n" "k \<notin> D" for k
  proof (cases "s k")
    case (Some v)
    then have h: "h1 k = None" "h2 k = None" using dom(2) k(1) by blast+
    have "mc k = None" using dis [OF k(1) sub(1)] Some by (cases "mc k") fastforce+
    moreover have "b1 ! k = v" using agree_offD(2) [OF z1, of k] k len Some by (simp add: nth_masked)
    ultimately show ?thesis using h Some k(1) len by (simp add: nth_masked)
  next
    case None
    show ?thesis
    proof (cases "h2 k")
      case h2: None
      then show ?thesis using patched [OF k(1) dom(1) [OF h2] None k(2)] None k(1) len by (simp add: nth_masked)
    next
      case (Some v)
      then show ?thesis using None k(1) len by (simp add: nth_masked)
    qed
  qed
  then have "agree_off D (masked h2 (masked mc b1)) (masked s (masked h2 ?w2))"
    using len by (simp add: agree_off_def)
  then show ?thesis using patched by blast
qed

lemma items_map_region:
  assumes "sections_readable arena objs" "items_valid n (collect_input_work_items ly objs WriteAll)"
    and "items_map arena ctx (collect_input_work_items ly objs WriteAll) k = Some v"
  shows "k \<in> item_region ly objs"
proof -
  let ?i = "collect_input_work_items ly objs WriteAll"
  have r: "\<forall>item \<in> set ?i. wi_file_len item = item_len item \<and> arena_bytes arena (sec_data (wi_isec item)) \<noteq> None"
    using collect_len collect_readable [OF assms(1)] by blast
  obtain item where item: "item \<in> set ?i" "item_write arena ctx item k = Some v"
    using items_map_Some [OF assms(2) r] assms(3) by blast
  then have "k \<in> {wi_file_off item ..< wi_file_off item + wi_file_len item}"
    using item_write_dom(1) [of n item arena ctx] assms(2) r by (auto simp: items_valid_def)
  then show ?thesis using item(1) by (auto simp: item_region_def)
qed

lemma later_maps_apart:
  assumes ap: "regions_apart ly objs" and n: "n = unat (ly_file_size ly)"
    and maps: "writes_map n (write_tls_got ly) t" "writes_map n (write_section_headers ly) s"
  shows "k < n \<Longrightarrow> s k = Some v \<Longrightarrow> hdr_write ly b k = None"
    and "k < n \<Longrightarrow> k \<in> item_region ly objs \<Longrightarrow>
      t k = None \<and> hdr_write ly b k = None \<and> s k = None \<and> k \<notin> desc_region n ly"
    and "k < n \<Longrightarrow> k \<in> eh_region ly \<Longrightarrow> hdr_write ly b k = None \<and> s k = None \<and> k \<notin> desc_region n ly"
proof -
  have sreg: "k \<in> shdr_region ly" if "s k = Some v" "k < n" for k v
    using writes_map_region [OF maps(2) write_section_headers_stays that] .
  have treg: "k \<in> tls_region ly" if "t k = Some v" "k < n" for k v
    using writes_map_region [OF maps(1) write_tls_got_stays that] .
  have hreg: "k \<in> hdr_region ly" if "hdr_write ly b k = Some v" for k v
    using that hdr_write_region by blast
  note apart = ap [unfolded regions_apart_def Let_def n [symmetric]]
  show "k < n \<Longrightarrow> s k = Some v \<Longrightarrow> hdr_write ly b k = None"
    using sreg [of k v] hreg [of k] apart by (cases "hdr_write ly b k") auto
  show "t k = None \<and> hdr_write ly b k = None \<and> s k = None \<and> k \<notin> desc_region n ly"
    if k: "k < n" "k \<in> item_region ly objs"
    using k treg [of k] hreg [of k] sreg [of k] apart
    by (cases "t k"; cases "hdr_write ly b k"; cases "s k") auto
  show "hdr_write ly b k = None \<and> s k = None \<and> k \<notin> desc_region n ly" if k: "k < n" "k \<in> eh_region ly"
    using k hreg [of k] sreg [of k] apart by (cases "hdr_write ly b k"; cases "s k") auto
qed

text \<open>The unwind section of an emitted file is the one the table was built from.\<close>

lemma emitted_eh_bytes:
  assumes ap: "regions_apart ly objs" and n: "n = unat (ly_file_size ly)" "length w = n"
    and maps: "writes_map n (write_tls_got ly) t" "writes_map n (write_section_headers ly) s"
    and ag: "agree_off (desc_region n ly) (masked s (masked (hdr_write ly w) w)) b"
  shows "eh_bytes ly b = eh_bytes ly w"
proof (rule hdr_write_cong(1))
  show "length b = length w" using agree_offD(1) [OF ag] by simp
  show "\<forall>k \<in> eh_region ly. k < length b \<longrightarrow> b ! k = w ! k"
  proof (intro ballI impI)
    fix k
    assume k: "k \<in> eh_region ly" "k < length b"
    then have "k < n" using agree_offD(1) [OF ag] n by simp
    then show "b ! k = w ! k"
      using later_maps_apart(3) [OF ap n(1) maps \<open>k < n\<close> k(1), of w] agree_offD(2) [OF ag, of k] n
      by (simp add: nth_masked)
  qed
qed

text \<open>C1: The partial emit is the full emit.  Take an output \<open>b1\<close> that a full emit into a fresh
  file produced, and a relink with the same symbol table and the same layout in which only the objects of \<open>C\<close>
  changed, whose full emit into a fresh file would produce \<open>b2\<close>.  All sections are readable, the regions of the
  layout do not overlap, and the unwind table of \<open>b2\<close> has at least as many entries as that of \<open>b1\<close>.  Then
  overwriting the contributions of the objects of \<open>C\<close> in \<open>b1\<close> succeeds and leaves exactly the bytes of \<open>b2\<close>,
  unwind table and build id included, for every order in which the workers run.  When the unwind table shrinks the
  stale rows stay behind and the files differ, and a full emit into a file that is not fresh keeps bytes of it
  (\<open>emit_full_keeps_stale\<close>): neither is covered.\<close>

theorem emit_partial_full:
  assumes full1: "emit_full None a1 objs1 st ly sched1 = Ok (Some b1)"
    and full2: "emit_full None a2 objs2 st ly sched2 = Ok (Some b2)"
    and rel: "relinked C a1 objs1 a2 objs2"
    and rd: "sections_readable a1 objs1" "sections_readable a2 objs2"
    and ap: "regions_apart ly objs1" "regions_apart ly objs2"
    and fdes: "length (iter_fdes (eh_bytes ly b1)) \<le> length (iter_fdes (eh_bytes ly b2))"
    and m1: "mset sched1 = mset (batches (length (collect_input_work_items ly objs1 WriteAll)))"
    and m2: "mset sched2 = mset (batches (length (collect_input_work_items ly objs2 WriteAll)))"
    and m3: "mset sched3 = mset (batches (length (collect_input_work_items ly objs2 (ChangedObjects C))))"
  shows "emit_partial_objects (Some b1) a2 objs2 st ly C sched3 = Ok (Some b2)"
proof -
  let ?n = "unat (ly_file_size ly)" and ?D = "desc_region (unat (ly_file_size ly)) ly"
  let ?i1 = "collect_input_work_items ly objs1 WriteAll" and ?i2 = "collect_input_work_items ly objs2 WriteAll"
    and ?ic = "collect_input_work_items ly objs2 (ChangedObjects C)"
  let ?c1 = "emit_ctx objs1 st ly" and ?c2 = "emit_ctx objs2 st ly"
  from emit_full_steps [OF full1 rd(1) ap(1) m1] obtain base t s w1 where e1:
    "bind_outcome (write_headers ly (replicate ?n 0)) (write_synthetics st ly WriteAll (output_sections ly)) = Ok base"
    "length base = ?n" "items_valid ?n ?i1" "items_done a1 ?c1 ?i1"
    "writes_map ?n (write_tls_got ly) t" "writes_map ?n (write_section_headers ly) s"
    "w1 = masked t (masked (items_map a1 ?c1 ?i1) base)" "write_eh_frame_hdr ly w1 \<noteq> Panic"
    "finalize_build_id ly (masked s (masked (hdr_write ly w1) w1)) = Ok b1" .
  from emit_full_steps [OF full2 rd(2) ap(2) m2] obtain base' t' s' w2 where e2:
    "bind_outcome (write_headers ly (replicate ?n 0)) (write_synthetics st ly WriteAll (output_sections ly)) = Ok base'"
    "length base' = ?n" "items_valid ?n ?i2" "items_done a2 ?c2 ?i2"
    "writes_map ?n (write_tls_got ly) t'" "writes_map ?n (write_section_headers ly) s'"
    "w2 = masked t' (masked (items_map a2 ?c2 ?i2) base')" "write_eh_frame_hdr ly w2 \<noteq> Panic"
    "finalize_build_id ly (masked s' (masked (hdr_write ly w2) w2)) = Ok b2" .
  have base: "base' = base" using e1(1) e2(1) by simp
  let ?w1 = "masked t (masked (items_map a1 ?c1 ?i1) base)" and ?w2 = "masked t (masked (items_map a2 ?c2 ?i2) base)"
  let ?h1 = "hdr_write ly ?w1" and ?h2 = "hdr_write ly ?w2"
  let ?z1 = "masked s (masked ?h1 ?w1)" and ?z2 = "masked s (masked ?h2 ?w2)"
  have w2: "w2 = ?w2" using writes_map_unique [OF e2(5) e1(5)] e1(2) e2(7) by (simp add: base)
  then have z2: "finalize_build_id ly ?z2 = Ok b2"
    using e2(9) writes_map_unique [OF e2(6) e1(6), of "masked ?h2 ?w2"] e1(2) by simp
  have z1: "finalize_build_id ly ?z1 = Ok b1" using e1(7,9) by simp
  have ag: "agree_off ?D ?z1 b1" "agree_off ?D ?z2 b2"
    using stays_inD [OF finalize_build_id_stays z1, of ?n] stays_inD [OF finalize_build_id_stays z2, of ?n] e1(2)
    by simp_all
  have len: "length b1 = ?n" "length b2 = ?n" using agree_offD(1) [OF ag(1)] agree_offD(1) [OF ag(2)] e1(2) by simp_all
  let ?mc = "items_map a2 ?c2 ?ic"
  note excl = later_maps_apart [OF ap(2) refl e1(5,6)]
  have "eh_bytes ly b1 = eh_bytes ly ?w1" "eh_bytes ly b2 = eh_bytes ly ?w2"
    using emitted_eh_bytes [OF ap(2) refl _ e1(5,6)] ag e1(2) by simp_all
  then have mono: "?h1 k = None" if "?h2 k = None" for k
    using hdr_write_mono [of ?w1 ?w2 ly] fdes that e1(2) by (auto simp: dom_def)
  have maps: "?mc k = Some v \<Longrightarrow> items_map a2 ?c2 ?i2 k = Some v"
      "?mc k = None \<Longrightarrow> items_map a1 ?c1 ?i1 k = items_map a2 ?c2 ?i2 k" for k v
    using relinked_maps [OF rel rd e1(3) e2(3) e1(4) e2(4)] by blast+
  have ireg: "t k = None \<and> ?h1 k = None \<and> ?h2 k = None \<and> s k = None \<and> k \<notin> ?D"
    if "k < ?n" "items_map a2 ?c2 ?i2 k = Some v" for k v
    using excl(2) [OF that(1) items_map_region [OF rd(2) e2(3) that(2)]] by blast
  have sh: "?h1 k = None \<and> ?h2 k = None" if "k < ?n" "s k = Some v" for k v
    using excl(1) [OF that] by simp
  have patched: "agree_off ?D (masked ?h2 (masked ?mc b1)) ?z2 \<and>
      (\<forall>k < ?n. ?h1 k = None \<longrightarrow> ?h2 k = None \<longrightarrow> s k = None \<longrightarrow> k \<notin> ?D \<longrightarrow> masked ?mc b1 ! k = ?w2 ! k)"
    by (rule patched_agrees [OF e1(2) len(1) _ _ _ _ _ ag(1)]) (fact maps ireg mono sh)+
  let ?y = "masked ?mc b1"
  have X: "?y ! k = ?w2 ! k" if "k \<in> eh_region ly" "k < ?n" for k
    using patched excl(3) [OF that(2,1)] that(2) by blast
  then have hy: "hdr_write ly ?y = ?h2" "write_eh_frame_hdr ly ?y \<noteq> Panic"
    using hdr_write_cong [of ?y ?w2 ly] e2(8) w2 len e1(2) by auto
  have ic: "?ic = filter (\<lambda>item. wi_obj_id item \<in> C) ?i2" by (rule collect_changed)
  have "copy_input_sections a2 objs2 st ly (ChangedObjects C) sched3 b1 = Ok ?y"
    using copy_masked [OF rd(2) m3] items_valid_filter [OF e2(3)] e2(4) len(1)
    by (auto simp: ic items_done_def)
  moreover have "write_eh_frame_hdr ly ?y = Ok (masked ?h2 ?y)"
    using write_eh_frame_hdr_masked [of ?y ly] hy ap(2) [unfolded regions_apart_def Let_def] len(1) unsigned_less [of "ly_file_size ly", where 'a = nat]
    by (auto simp: hdr_fits_def)
  moreover have "finalize_build_id ly (masked ?h2 ?y) = Ok b2"
    using finalize_build_id_forgets [of "masked ?h2 ?y" ly ?z2] patched len(1) z2 by simp
  ultimately show ?thesis
    using len(1)
    by (simp add: emit_partial_objects_def emit_with_filter_def Let_def write_section_data_def open_output_map_def)
qed


text \<open>The build id is a function of the rest of the file: replacing the bytes of the
  descriptor by anything before the hash does not change the outcome, so that finalizing an output that
  already carries a build id, as every overwrite in place does, gives the same file, and finalizing twice
  is finalizing once.\<close>

theorem finalize_build_id_idempotent:
  "(\<forall>b'. agree_off (desc_region (length b) ly) b b' \<longrightarrow> finalize_build_id ly b' = finalize_build_id ly b) \<and>
   bind_outcome (finalize_build_id ly b) (finalize_build_id ly) = finalize_build_id ly b"
proof -
  have "finalize_build_id ly c = finalize_build_id ly b" if "finalize_build_id ly b = Ok c" for c
    using finalize_build_id_forgets [OF stays_inD [OF finalize_build_id_stays that refl]] by simp
  then show ?thesis
    using finalize_build_id_forgets [of b ly] by (cases "finalize_build_id ly b") auto
qed

section \<open>A relink of one object\<close>

definition tiny_section :: input_section where
  "tiny_section =
     \<lparr>sec_index = 1, sec_name = ''.text'', sec_kind = Text, sec_sh_type = SHT_PROGBITS,
      sec_data = \<lparr>sd_src = Mmap 0, sd_off = 0, sd_len = 5\<rparr>, sec_align = 1, sec_size = 5, sec_flags = 6,
      sec_relocs = []\<rparr>"

definition tiny_arena :: "bytes \<Rightarrow> input_arena" where
  "tiny_arena code = \<lparr>mmaps = [code], owned = [], arena_names = {}\<rparr>"

definition tiny_objects :: "input_object list" where
  "tiny_objects = [parsed_object (1, 2) ''a.o'' [tiny_section] [] []]"

definition tiny_text :: output_section where
  "tiny_text =
     \<lparr>os_name = ''.text'', os_kind = Text, os_sh_type = 1, os_sh_flags = 6, os_sh_addr = 0x401040,
      os_sh_offset = 64, os_sh_size = 5, os_sh_link = 0, os_sh_info = 0, os_sh_addralign = 1,
      os_sh_entsize = 0, os_sh_name = 1, os_shndx = 1,
      os_contributions = [\<lparr>con_object_id = 0, con_section_index = 1, con_section_pos = 0,
        con_offset = 0, con_size = 5\<rparr>], os_source = SrcInput\<rparr>"

definition tiny_note :: output_section where
  "tiny_note =
     \<lparr>os_name = ''.note.gnu.build-id'', os_kind = ReadOnly, os_sh_type = 7, os_sh_flags = 2,
      os_sh_addr = 0x401048, os_sh_offset = 72, os_sh_size = 32, os_sh_link = 0, os_sh_info = 0,
      os_sh_addralign = 4, os_sh_entsize = 0, os_sh_name = 7, os_shndx = 2, os_contributions = [],
      os_source = SrcNoteBuildId\<rparr>"

definition empty_blobs :: dyn_blobs where
  "empty_blobs =
     \<lparr>db_interp = [], db_hash = [], db_dynsym = [], db_dynstr = [], db_rela_dyn = [], db_dynamic = [],
      db_plt = [], db_got_plt = [], db_rela_plt = [], db_gnu_version = [], db_gnu_version_r = [],
      db_verneed_num = 0, db_rela_glob_dat = [], db_rela_copy = [], db_eh_frame_hdr = [], db_gnu_hash = []\<rparr>"

definition tiny_layout :: layout where
  "tiny_layout =
     \<lparr>output_sections = [tiny_text, tiny_note], addresses = [((0, 1), 0x401040)], segments = [],
      ly_entry = 0x401040, ly_e_type = 2, ly_phoff = 64, ly_phnum = 0, ly_shoff = 104, ly_shnum = 3,
      ly_shstrndx = 0, ly_file_size = 296, got_slots = [], got_base = 0, ly_strtab = [], ly_shstrtab = [],
      ly_symtab = [], ly_symtab_shndx = [], image_base = 0x400000, bss_start = 0, edata = 0, image_end = 0,
      ly_common = [], ly_copy_relocs = [], ly_dyn = empty_blobs, plt_slots = [], plt_base = 0,
      ifunc_plt_patches = [], tls_size = 0, tls_offsets = [], tls_gd_addr = [], tls_ie_addr = [],
      tls_desc_addr = [], tls_ldm_addr = None, ly_shared = False, tls_got_writes = [], emit_relocs = [],
      gnu_property_note = []\<rparr>"

lemmas tiny_defs = tiny_section_def tiny_arena_def tiny_objects_def tiny_text_def tiny_note_def tiny_layout_def
  parsed_object_def

lemma put_slice_ok: "off + length bs \<le> length b \<Longrightarrow> put_slice b off bs = Ok (overwrite off bs b)"
  by (simp add: put_slice_def splice_overwrite)

lemma tiny_items:
  "collect_input_work_items tiny_layout tiny_objects WriteAll =
     [\<lparr>wi_file_off = 64, wi_file_len = 5, wi_section_va = 0x401040, wi_obj = tiny_objects ! 0,
       wi_isec = tiny_section, wi_obj_id = 0, wi_section_index = 1, wi_reloc_count = 0\<rparr>]"
  by (simp add: collect_input_work_items_def contribution_item_def tiny_defs get_def map_filter_simps
      section_data_len_def saturating_add_def)

definition fill_byte :: "bytes option \<Rightarrow> nat \<Rightarrow> u8" where
  "fill_byte existing k = (case existing of Some old \<Rightarrow> old ! k | None \<Rightarrow> 0)"

lemma tiny_emit:
  assumes code: "length code = 5" and old: "\<forall>old. existing = Some old \<longrightarrow> length old = 296"
  shows "\<exists>b. emit_full existing (tiny_arena code) tiny_objects st tiny_layout [(0, 1)] = Ok (Some b) \<and>
    (\<forall>k \<in> {8 ..< 16} \<union> {69 ..< 72}. b ! k = fill_byte existing k)"
proof -
  let ?K = "{8 ..< 16} \<union> {69 ..< 72} :: nat set"
  let ?b0 = "open_output_map existing 296"
  have b0: "length ?b0 = 296" "\<forall>k \<in> ?K. ?b0 ! k = fill_byte existing k"
    using old by (auto simp: open_output_map_def fill_byte_def split: option.splits)
  have rd: "sections_readable (tiny_arena code) tiny_objects"
    using code by (simp add: sections_readable_def tiny_defs arena_bytes_def get_def slice_def)
  have keep: "overwrite off bs b ! k = b ! k" if "k \<in> ?K" "length b = 296" "off + length bs \<le> 8 \<or> 16 \<le> off"
      "off + length bs \<le> 69 \<or> 72 \<le> off" for off bs k and b :: bytes
    using that by (auto simp: nth_overwrite)
  let ?b1 = "overwrite 16 (ehdr_fields tiny_layout) (overwrite 0 ehdr_ident ?b0)"
  have b1: "write_headers tiny_layout ?b0 = Ok ?b1" "length ?b1 = 296" "\<forall>k \<in> ?K. ?b1 ! k = fill_byte existing k"
    using b0 by (simp_all add: write_headers_def put_slice_ok ehdr_ident_def ehdr_fields_def tiny_layout_def keep)
  have gaps: "zero_input_gaps b 64 5 (os_contributions tiny_text) = b" for b
    by (simp add: zero_input_gaps_def Let_def saturating_add_def tiny_text_def)
  have zl: "length (zero_section b o' z) = length b" for b o' z
    by (simp add: zero_section_def)
  let ?id = "to_le 4 (4 :: u32) @ to_le 4 (16 :: u32) @ to_le 4 (3 :: u32) @ [0x47, 0x4e, 0x55, 0] @ replicate 16 0"
  let ?b2 = "overwrite 72 ?id (overwrite 72 (replicate 32 0) ?b1)"
  have b2: "write_synthetics st tiny_layout WriteAll [tiny_text, tiny_note] ?b1 = Ok ?b2" "length ?b2 = 296"
      "\<forall>k \<in> ?K. ?b2 ! k = fill_byte existing k"
  proof -
    have "write_synthetic st tiny_layout WriteAll tiny_text ?b1 = Ok ?b1"
      using gaps by (simp add: write_synthetic_def Let_def tiny_text_def)
    moreover have "zero_section ?b1 72 32 = overwrite 72 (replicate 32 0) ?b1"
      using b1(2) by (simp add: zero_section_def)
    then have "write_synthetic st tiny_layout WriteAll tiny_note ?b1 = Ok ?b2"
      using b1(2) by (simp add: write_synthetic_def Let_def write_build_id_def put_guarded_def put_slice_ok
          usize_add_def tiny_note_def)
    ultimately show "write_synthetics st tiny_layout WriteAll [tiny_text, tiny_note] ?b1 = Ok ?b2" by simp
    show "length ?b2 = 296" using b1(2) by simp
    show "\<forall>k \<in> ?K. ?b2 ! k = fill_byte existing k" using b1(2,3) keep [of _ _ 72] by simp
  qed
  let ?i = "collect_input_work_items tiny_layout tiny_objects WriteAll"
  let ?c = "emit_ctx tiny_objects st tiny_layout"
  let ?b3 = "masked (items_map (tiny_arena code) ?c ?i) ?b2"
  have valid: "items_valid 296 ?i" "items_done (tiny_arena code) ?c ?i"
    using code
    by (simp_all add: tiny_items items_valid_def item_ok_def item_len_def section_data_len_def items_done_def
        item_bytes_def arena_bytes_def slice_def get_def tiny_section_def tiny_arena_def)
  moreover have "mset [(0, 1)] = mset (batches (length ?i))" by (simp add: tiny_items batches_def)
  ultimately have b3: "copy_input_sections (tiny_arena code) tiny_objects st tiny_layout WriteAll [(0, 1)] ?b2 = Ok ?b3"
    using copy_masked [OF rd, of "[(0, 1)]" tiny_layout WriteAll st ?b2] b2(2) by simp
  have "items_map (tiny_arena code) ?c ?i k = None" if "k \<in> ?K" for k
    using items_map_region [OF rd valid(1), of ?c k] that
    by (cases "items_map (tiny_arena code) ?c ?i k") (auto simp: item_region_def tiny_items)
  then have k3: "\<forall>k \<in> ?K. ?b3 ! k = fill_byte existing k"
  proof (intro ballI)
    fix k
    assume k: "k \<in> ?K" "\<And>k. k \<in> ?K \<Longrightarrow> items_map (tiny_arena code) ?c ?i k = None"
    then have "?b3 ! k = ?b2 ! k" using b2(2) by (intro nth_masked_cases(2)) auto
    then show "?b3 ! k = fill_byte existing k" using b2(3) k(1) by (simp only:)
  qed
  let ?b4 = "overwrite 232 (shdr_bytes tiny_note) (overwrite 168 (shdr_bytes tiny_text) ?b3)"
  have b4: "write_section_headers tiny_layout ?b3 = Ok ?b4" "length ?b4 = 296" "\<forall>k \<in> ?K. ?b4 ! k = fill_byte existing k"
    using b2(2) k3 keep
    by (simp_all add: write_section_headers_def Let_def tiny_layout_def tiny_text_def tiny_note_def usize_add_def
        put_slice_ok)
  let ?z = "overwrite 88 (replicate 16 0) ?b4"
  let ?b5 = "overwrite 88 (build_id_hash ?z) ?z"
  have b5: "finalize_build_id tiny_layout ?b4 = Ok ?b5" "\<forall>k \<in> ?K. ?b5 ! k = fill_byte existing k"
  proof -
    have "build_id_descriptor_offset tiny_layout = Some 88"
      by (simp add: build_id_descriptor_offset_def tiny_layout_def tiny_text_def tiny_note_def usize_add_def)
    then show "finalize_build_id tiny_layout ?b4 = Ok ?b5"
      using b4(2) by (simp add: finalize_build_id_def usize_add_def put_slice_ok length_build_id_hash)
    show "\<forall>k \<in> ?K. ?b5 ! k = fill_byte existing k"
      using b4(2,3) keep [of _ _ 88] by (simp add: length_build_id_hash)
  qed
  show ?thesis
    using b1(1) b2(1) b3 b4(1) b5
    by (auto simp: emit_full_def emit_with_filter_def Let_def write_section_data_def
        write_tls_got_def write_eh_frame_hdr_def tiny_layout_def tiny_text_def tiny_note_def)
qed

text \<open>A full emit over an existing file of the right size is not the emit into a fresh file: the padding of the ELF
  identification and the gap between two sections keep whatever the file held.\<close>

lemma emit_full_keeps_stale:
  "\<exists>b b'. emit_full None (tiny_arena [1, 2, 3, 4, 5]) tiny_objects st tiny_layout [(0, 1)] = Ok (Some b) \<and>
     emit_full (Some (replicate 296 0xff)) (tiny_arena [1, 2, 3, 4, 5]) tiny_objects st tiny_layout [(0, 1)] = Ok (Some b') \<and>
     b ! 9 = 0 \<and> b' ! 9 = 0xff \<and> b ! 70 = 0 \<and> b' ! 70 = 0xff"
proof -
  obtain b where b: "emit_full None (tiny_arena [1, 2, 3, 4, 5]) tiny_objects st tiny_layout [(0, 1)] = Ok (Some b)"
      "\<forall>k \<in> {8 ..< 16} \<union> {69 ..< 72}. b ! k = fill_byte None k"
    using tiny_emit [of "[1, 2, 3, 4, 5]" None st] by auto
  obtain b' where b': "emit_full (Some (replicate 296 0xff)) (tiny_arena [1, 2, 3, 4, 5]) tiny_objects st tiny_layout
        [(0, 1)] = Ok (Some b')"
      "\<forall>k \<in> {8 ..< 16} \<union> {69 ..< 72}. b' ! k = fill_byte (Some (replicate 296 0xff)) k"
    using tiny_emit [of "[1, 2, 3, 4, 5]" "Some (replicate 296 0xff)" st] by auto
  show ?thesis
    using b b' bspec [OF b(2), of 9] bspec [OF b(2), of 70] bspec [OF b'(2), of 9] bspec [OF b'(2), of 70]
    by (auto simp: fill_byte_def)
qed

theorem emit_partial_full_witness:
  "\<exists>b1 b2. emit_full None (tiny_arena [0x90, 0x90, 0x90, 0x90, 0xc3]) tiny_objects symbol_table_new tiny_layout [(0, 1)] = Ok (Some b1) \<and>
     emit_full None (tiny_arena [0xb8, 0, 0, 0, 0]) tiny_objects symbol_table_new tiny_layout [(0, 1)] = Ok (Some b2) \<and>
     emit_partial_objects (Some b1) (tiny_arena [0xb8, 0, 0, 0, 0]) tiny_objects symbol_table_new tiny_layout {0} [(0, 1)] =
       Ok (Some b2)"
proof -
  let ?a1 = "tiny_arena [0x90, 0x90, 0x90, 0x90, 0xc3]" and ?a2 = "tiny_arena [0xb8, 0, 0, 0, 0]"
  obtain b1 where b1: "emit_full None ?a1 tiny_objects symbol_table_new tiny_layout [(0, 1)] = Ok (Some b1)"
    using tiny_emit [of "[0x90, 0x90, 0x90, 0x90, 0xc3]" None] by auto
  obtain b2 where b2: "emit_full None ?a2 tiny_objects symbol_table_new tiny_layout [(0, 1)] = Ok (Some b2)"
    using tiny_emit [of "[0xb8, 0, 0, 0, 0]" None] by auto
  have r: "relinked {0} ?a1 tiny_objects ?a2 tiny_objects" by (simp add: relinked_def tiny_objects_def)
  have rd: "sections_readable ?a1 tiny_objects" "sections_readable ?a2 tiny_objects"
    by (simp_all add: sections_readable_def tiny_defs arena_bytes_def get_def slice_def)
  have ap: "regions_apart tiny_layout tiny_objects"
  proof -
    have "item_region tiny_layout tiny_objects = {64 ..< 69}" by (simp add: item_region_def tiny_items)
    moreover have "tls_region tiny_layout = {}" "hdr_region tiny_layout = {}" "eh_region tiny_layout = {}"
        "shdr_region tiny_layout = {104 ..< 168} \<union> {168 ..< 232} \<union> {232 ..< 296}"
      by (simp_all add: tls_region_def hdr_region_def eh_region_def shdr_region_def tiny_layout_def tiny_text_def
          tiny_note_def usize_add_def Un_assoc)
    moreover have "desc_region 296 tiny_layout = {88 ..< 104}" "ly_file_size tiny_layout = 296"
      by (simp_all add: desc_region_def build_id_descriptor_offset_def tiny_layout_def tiny_text_def tiny_note_def
          usize_add_def)
    ultimately show ?thesis by (auto simp: regions_apart_def Let_def)
  qed
  have e: "eh_bytes tiny_layout b = []" for b
    by (simp add: eh_bytes_def tiny_layout_def tiny_text_def tiny_note_def)
  have m: "mset [(0, 1)] = mset (batches (length (collect_input_work_items tiny_layout tiny_objects WriteAll)))"
    by (simp add: tiny_items batches_def)
  have mc: "mset [(0, 1)] = mset (batches (length (collect_input_work_items tiny_layout tiny_objects (ChangedObjects {0}))))"
    by (simp add: collect_changed tiny_items batches_def)
  have f: "length (iter_fdes (eh_bytes tiny_layout b1)) \<le> length (iter_fdes (eh_bytes tiny_layout b2))"
    by (simp add: e)
  show ?thesis using emit_partial_full [OF b1 b2 r rd ap ap f m m mc] b1 b2 by blast
qed

theorem finalize_build_id_idempotent_witness:
  "finalize_build_id tiny_layout (overwrite 88 (replicate 16 0xff) (replicate 296 0)) =
   finalize_build_id tiny_layout (replicate 296 0)"
proof -
  have "desc_region 296 tiny_layout = {88 ..< 104}"
    by (simp add: desc_region_def build_id_descriptor_offset_def tiny_layout_def tiny_text_def tiny_note_def usize_add_def)
  then have "agree_off (desc_region (length (replicate 296 (0 :: u8))) tiny_layout) (replicate 296 0)
      (overwrite 88 (replicate 16 0xff) (replicate 296 0))"
    by (auto simp: agree_off_def nth_overwrite)
  then show ?thesis
    using conjunct1 [OF finalize_build_id_idempotent [of "replicate 296 0" tiny_layout]] by blast
qed

end
