(* ===== verification/Gc_Targets.thy ===== *)
theory Gc_Targets
  imports Gc
begin

text \<open>
  The relocation target tables of the collector: both representations, and the parallel build, store the
  section each symbol resolves to.
\<close>

section \<open>Packing a key\<close>

definition packable :: "skey \<Rightarrow> bool" where
  "packable k \<longleftrightarrow> fst k < 2 ^ 32 \<and> snd k < 2 ^ 32 \<and> k \<noteq> (2 ^ 32 - 1, 2 ^ 32 - 1)"

lemma unat_low_word: "n < 2 ^ 32 \<Longrightarrow> unat (of_nat n :: u64) = n"
  by (simp add: unat_of_nat)

lemma low_bits:
  fixes w :: u64
  assumes "unat w < 2 ^ 32" "bit w i"
  shows "i < 32"
proof -
  have "unat (take_bit 32 w) = unat w"
    using assms(1) by (simp only: unsigned_take_bit_eq take_bit_nat_eq_self)
  then have "take_bit 32 w = w" by (simp only: word_unat_eq_iff)
  then have "bit (take_bit 32 w) i" using assms(2) by simp
  then show ?thesis by (simp add: bit_take_bit_iff)
qed

lemma packed_parts:
  fixes a b :: u64
  assumes "unat a < 2 ^ 32" "unat b < 2 ^ 32"
  shows "drop_bit 32 (push_bit 32 a OR b) = a" "(push_bit 32 a OR b) AND 0xffffffff = b"
proof -
  have m: "(0xffffffff :: u64) = mask 32" by (simp add: mask_eq_exp_minus_1)
  show "drop_bit 32 (push_bit 32 a OR b) = a"
    using low_bits [OF assms(1)] low_bits [OF assms(2)]
    by (intro bit_word_eqI) (auto simp: bit_drop_bit_eq bit_or_iff bit_push_bit_iff)
  show "(push_bit 32 a OR b) AND 0xffffffff = b"
    unfolding m using low_bits [OF assms(2)]
    by (intro bit_word_eqI) (auto simp: bit_and_iff bit_or_iff bit_push_bit_iff bit_mask_iff)
qed

lemma unpack_pack: "Option.bind (pack k) unpack = (if packable k then Some k else None)"
proof (cases "fst k < 2 ^ 32 \<and> snd k < 2 ^ 32")
  case True
  let ?a = "of_nat (fst k) :: u64" and ?b = "of_nat (snd k) :: u64"
  let ?v = "push_bit 32 ?a OR ?b"
  have u: "unat ?a = fst k" "unat ?b = snd k" using True by (simp_all add: unat_low_word)
  then have parts: "drop_bit 32 ?v = ?a" "?v AND 0xffffffff = ?b" using True packed_parts by simp_all
  have "?v = NO_TARGET \<longleftrightarrow> k = (2 ^ 32 - 1, 2 ^ 32 - 1)"
  proof
    assume "?v = NO_TARGET"
    then have "?a = drop_bit 32 (- 1)" "?b = (- 1) AND 0xffffffff" using parts by (simp_all add: NO_TARGET_def)
    then have "fst k = unat (drop_bit 32 (- 1 :: u64))" "snd k = unat (0xffffffff :: u64)" using u by simp_all
    then show "k = (2 ^ 32 - 1, 2 ^ 32 - 1)"
      by (simp add: prod_eq_iff unsigned_drop_bit_eq unsigned_minus_1_eq_mask mask_eq_exp_minus_1 drop_bit_eq_div)
  next
    assume "k = (2 ^ 32 - 1, 2 ^ 32 - 1)"
    then show "?v = NO_TARGET" by (simp add: NO_TARGET_def)
  qed
  then show ?thesis using True parts u by (auto simp: pack_def unpack_def packable_def)
next
  case False
  then show ?thesis by (auto simp: pack_def packable_def)
qed


section \<open>The two representations\<close>

text \<open>A table of packed targets: storing at an index that fits overrides that index only.\<close>

locale target_table =
  fixes upd :: "nat \<Rightarrow> u64 \<Rightarrow> 'm \<Rightarrow> 'm" and look :: "'m \<Rightarrow> nat \<Rightarrow> skey option" and fits :: "'m \<Rightarrow> nat \<Rightarrow> bool"
  assumes look_upd: "fits m i \<Longrightarrow> look (upd i t m) j = (if j = i then unpack t else look m j)"
    and fits_upd: "fits (upd i t m) j = fits m j"
begin

lemma look_fill:
  assumes "\<forall>s \<in> set ss. fits m (sym_index s)" "distinct (map sym_index ss)"
  shows "look (fst (fill_targets upd oi st ss m n)) j =
    (case find (\<lambda>s. sym_index s = j) ss of
       Some s \<Rightarrow> (case resolve_symbol_target oi s st of Some t \<Rightarrow> unpack t | None \<Rightarrow> look m j)
     | None \<Rightarrow> look m j)"
  using assms
proof (induction ss arbitrary: m n)
  case (Cons s ss)
  have rest: "find (\<lambda>s. sym_index s = j) ss = None" if "sym_index s = j"
    using Cons.prems(2) that by (simp add: find_None_iff) (metis image_eqI)
  show ?case
  proof (cases "resolve_symbol_target oi s st")
    case None
    then show ?thesis using Cons rest by (auto split: option.splits)
  next
    case (Some t)
    then show ?thesis
      using Cons.IH [of "upd (sym_index s) t m" "n + 1"] Cons.prems rest
      by (auto simp: look_upd fits_upd split: option.splits)
  qed
qed simp

end

interpretation dense_targets: target_table "\<lambda>i t m. m[i := t]" "\<lambda>m i. object_target (GDense m) i" "\<lambda>m i. i < length m"
  by unfold_locales (auto simp: get_def)

interpretation sparse_targets: target_table AList.update "\<lambda>m i. object_target (GSparse m) i" "\<lambda>m i. True"
  by unfold_locales (auto simp: update_conv')

lemma fill_count: "snd (fill_targets upd oi st ss m n) =
    n + length (filter (\<lambda>s. resolve_symbol_target oi s st \<noteq> None) ss)"
  by (induction ss arbitrary: m n) (auto split: option.splits)

section \<open>What the tables say\<close>

definition symbol_target :: "nat \<Rightarrow> input_object \<Rightarrow> symbol_table \<Rightarrow> nat \<Rightarrow> skey option" where
  "symbol_target oi obj st j =
     Option.bind (find (\<lambda>s. sym_index s = j) (symbols obj)) (\<lambda>s.
       Option.bind (symbol_key oi s st) (\<lambda>k. if packable k then Some k else None))"

lemma symbol_target_resolve:
  "symbol_target oi obj st j =
     (case find (\<lambda>s. sym_index s = j) (symbols obj) of
        Some s \<Rightarrow> Option.bind (resolve_symbol_target oi s st) unpack | None \<Rightarrow> None)"
  by (cases "find (\<lambda>s. sym_index s = j) (symbols obj)")
     (simp_all add: symbol_target_def resolve_symbol_target_def unpack_pack)

lemma object_target_build:
  assumes "distinct (map sym_index (symbols obj))"
  shows "object_target (fst (build_object_targets oi obj st ts)) j = symbol_target oi obj st j"
proof (cases "symbols obj = []")
  case True
  then show ?thesis by (simp add: build_object_targets_def symbol_target_def)
next
  case False
  let ?m = "fold max (map sym_index (symbols obj)) 0"
  have le: "sym_index s \<le> ?m" if "s \<in> set (symbols obj)" for s
    using that by (intro fold_max_ge) auto
  have d: "object_target (GDense (replicate (?m + 1) NO_TARGET)) j = None"
    by (auto simp: get_def unpack_def simp del: replicate_Suc)
  have sp: "object_target (GSparse []) j = None" by simp
  show ?thesis
  proof (cases "?m \<le> max (min (length (symbols obj) * 4) (2 ^ 64 - 1)) 64")
    case True
    have "\<forall>s \<in> set (symbols obj). sym_index s < length (replicate (?m + 1) NO_TARGET)"
      using le by (simp add: less_Suc_eq_le)
    from dense_targets.look_fill [OF this assms, of oi st "ts_entries ts" j] show ?thesis
      using False True d
      by (cases "find (\<lambda>s. sym_index s = j) (symbols obj)")
         (simp_all add: build_object_targets_def Let_def symbol_target_resolve case_prod_unfold
            del: replicate_Suc object_target.simps split: option.splits)
  next
    case False
    from sparse_targets.look_fill [where m = "[]" and j = j, OF _ assms, of oi st "ts_entries ts"] show ?thesis
      using False \<open>symbols obj \<noteq> []\<close> sp
      by (cases "find (\<lambda>s. sym_index s = j) (symbols obj)")
         (simp_all add: build_object_targets_def Let_def symbol_target_resolve case_prod_unfold
            del: object_target.simps split: option.splits)
  qed
qed

definition stats_plus :: "gc_target_stats \<Rightarrow> gc_target_stats \<Rightarrow> gc_target_stats" where
  "stats_plus a b = \<lparr>ts_entries = ts_entries a + ts_entries b, ts_dense = ts_dense a + ts_dense b,
     ts_sparse = ts_sparse a + ts_sparse b\<rparr>"

lemma fill_start: "fst (fill_targets upd oi st ss m n) = fst (fill_targets upd oi st ss m 0)"
proof (induction ss arbitrary: m n)
  case (Cons s ss)
  show ?case
  proof (cases "resolve_symbol_target oi s st")
    case (Some t)
    then show ?thesis using Cons [of "upd (sym_index s) t m" "n + 1"] Cons [of "upd (sym_index s) t m" 1] by simp
  next
    case None
    then show ?thesis using Cons [of m n] by simp
  qed
qed simp

lemma build_stats:
  "build_object_targets oi obj st ts =
     (fst (build_object_targets oi obj st target_stats_default),
      stats_plus ts (snd (build_object_targets oi obj st target_stats_default)))"
  using fill_start [of "\<lambda>i t m. m[i := t]" oi st "symbols obj" _ "ts_entries ts"]
    fill_start [of AList.update oi st "symbols obj" _ "ts_entries ts"]
  by (simp add: build_object_targets_def Let_def stats_plus_def target_stats_default_def fill_count case_prod_unfold)

lemma build_all_spec:
  "build_all_targets i objs st ts =
     (map (\<lambda>(i, obj). fst (build_object_targets i obj st target_stats_default)) (enumerate i objs),
      fold (\<lambda>(i, obj) acc. stats_plus acc (snd (build_object_targets i obj st target_stats_default))) (enumerate i objs) ts)"
proof (induction objs arbitrary: i ts)
  case (Cons obj objs)
  show ?case by (simp add: Cons build_stats [of i obj st ts])
qed simp

lemma build_parallel_spec: "build_targets_parallel objs st = build_all_targets 0 objs st target_stats_default"
proof -
  have plus: "(\<lambda>s acc. acc\<lparr>ts_entries := ts_entries acc + ts_entries s, ts_dense := ts_dense acc + ts_dense s,
         ts_sparse := ts_sparse acc + ts_sparse s\<rparr>) = (\<lambda>s acc. stats_plus acc s)"
    by (intro ext) (simp add: stats_plus_def)
  show ?thesis
    unfolding build_targets_parallel_def Let_def build_all_spec plus
    by (simp add: fold_map comp_def case_prod_unfold)
qed

text \<open>Looking a relocation's symbol up in the target tables gives the section the symbol names, in
  either representation and whether the tables were built serially or in parallel: a local symbol its
  own object's section, any other the section of the definition the symbol table resolved it to, and
  nothing for an undefined symbol, a symbol without a section or an unknown index.  A key whose parts do
  not fit in 32 bits, and the key of two all-ones parts, are the only ones lost.\<close>

theorem target_get_spec:
  assumes "oi < length objs" "distinct (map sym_index (symbols (objs ! oi)))"
  shows "target_get (target_maps_new objs st) oi j = symbol_target oi (objs ! oi) st j"
proof -
  have "tm_objects (target_maps_new objs st) =
      map (\<lambda>(i, obj). fst (build_object_targets i obj st target_stats_default)) (enumerate 0 objs)"
    by (simp add: target_maps_new_def build_parallel_spec build_all_spec)
  then show ?thesis
    using assms(1) object_target_build [OF assms(2), of oi st target_stats_default]
    by (simp add: target_get_def get_def nth_enumerate_eq)
qed

definition target_demo :: "input_object list" where
  "target_demo = [parsed_object (3, 2) ''a.o'' [] [example_symbol 1 ''f'', example_symbol 90 ''g''] []]"

theorem target_get_spec_witness:
  "target_get (target_maps_new target_demo
       \<lparr>resolutions = [(''g'', make_undefined_resolution\<lparr>res_defined_in := Some 0, res_section_index := Some 7\<rparr>)],
        names = [], object_paths = []\<rparr>) 0 90 = Some (0, 7)"
proof -
  have "0 < length target_demo" "distinct (map sym_index (symbols (target_demo ! 0)))"
    by (simp_all add: target_demo_def parsed_object_def example_symbol_def)
  from target_get_spec [OF this] show ?thesis
    by (simp add: symbol_target_def target_demo_def parsed_object_def example_symbol_def symbol_key_def lookup_def
        packable_def make_undefined_resolution_def)
qed

end
