(* ===== verification/Archive_Fixpoint.thy ===== *)
theory Archive_Fixpoint
  imports Resolver
begin

text \<open>
  What member inclusion leaves behind (\<^verbatim>\<open>include_archive_members\<close> of \<^verbatim>\<open>peony/src/main.rs\<close>): the set of undefined names the
  loop updates member by member is always the table's, and when the loop ends no archive holds a member it would still
  pull, although each archive is read only as far as its index asks for.
\<close>

section \<open>The undefined set stays exact\<close>

lemma merge_symbol_other:
  "merge_symbol i s st = Ok st' \<Longrightarrow> n \<noteq> sym_name s \<Longrightarrow> lookup st' n = lookup st n"
  by (auto simp: merge_symbol_def merge_common_def merge_defined_def Let_def elim!: bind_outcome_Ok
      split: option.splits if_splits prod.splits conflict_action.splits)

lemma process_symbols_other:
  "process_symbols i ex syms st = Ok st' \<Longrightarrow> n \<notin> sym_name ` {s \<in> set syms. merges ex s} \<Longrightarrow> lookup st' n = lookup st n"
proof (induction syms arbitrary: st)
  case (Cons s syms)
  show ?case
  proof (cases "merges ex s")
    case True
    then obtain st1 where st1: "merge_symbol i s st = Ok st1" "process_symbols i ex syms st1 = Ok st'"
      using Cons.prems(1) by (auto elim!: bind_outcome_Ok)
    have "n \<noteq> sym_name s" "n \<notin> sym_name ` {s \<in> set syms. merges ex s}" using Cons.prems(2) True by auto
    then show ?thesis using Cons.IH [OF st1(2)] merge_symbol_other [OF st1(1)] by simp
  next
    case False
    then show ?thesis using Cons by auto
  qed
qed simp

lemma in_current_undefined [simp]: "n \<in> current_global_undefined st \<longleftrightarrow> wanted st n"
proof -
  have "wanted st n \<Longrightarrow> n \<in> fst ` set (resolutions st)"
    by (auto simp: wanted_def lookup_def split: option.splits dest!: map_of_SomeD intro: rev_image_eqI)
  then show ?thesis by (auto simp: current_global_undefined_def)
qed

lemma in_reconcile [simp]: "n \<in> reconcile st ns u \<longleftrightarrow> (if n \<in> set ns then wanted st n else n \<in> u)"
  by (induction ns arbitrary: u) auto

lemma resolve_result:
  assumes "resolve obj r = Ok r'"
  obtains own ex st' where "r' = r\<lparr>rv_objects := rv_objects r @ [obj], rv_symbols := st',
       rv_seen_comdat := rv_seen_comdat r', rv_excluded := ex\<rparr>"
    "process_symbols (fst (add_object (path obj) (rv_symbols r))) own (symbols obj)
       (snd (add_object (path obj) (rv_symbols r))) = Ok st'"
  using assms by (auto simp: resolve_def process_object_excluding_def elim!: bind_outcome_Ok split: prod.splits)

lemma resolve_objects: "resolve obj r = Ok r' \<Longrightarrow> rv_objects r' = rv_objects r @ [obj]"
  by (erule resolve_result) (metis resolver.select_convs(2) resolver.surjective resolver.update_convs(2,3,4,5))

lemma resolve_wanted:
  assumes "resolve obj r = Ok r'" "lm_defines m = member_defines obj" "n \<notin> set (member_touched m obj)"
  shows "wanted (rv_symbols r') n \<longleftrightarrow> wanted (rv_symbols r) n"
proof -
  obtain own ex st' where r': "r' = r\<lparr>rv_objects := rv_objects r @ [obj], rv_symbols := st',
       rv_seen_comdat := rv_seen_comdat r', rv_excluded := ex\<rparr>"
    and st': "process_symbols (fst (add_object (path obj) (rv_symbols r))) own (symbols obj)
       (snd (add_object (path obj) (rv_symbols r))) = Ok st'"
    using resolve_result [OF assms(1)] by blast
  have "n \<notin> sym_name ` {s \<in> set (symbols obj). merges own s}"
    using assms(2,3) by (auto simp: member_touched_def member_defines_def merges_def)
  then have "lookup st' n = lookup (rv_symbols r) n"
    using process_symbols_other [OF st'] by (simp add: add_object_def lookup_def)
  moreover have "rv_symbols r' = st'" by (subst r') simp
  ultimately show ?thesis by (simp add: wanted_def)
qed

definition members_ok :: "lazy_member list \<Rightarrow> bool" where
  "members_ok ms \<longleftrightarrow> (\<forall>m \<in> set ms. \<forall>obj. lm_obj m = Some obj \<longrightarrow> lm_defines m = member_defines obj)"

definition idle :: "lazy_member list \<Rightarrow> name set \<Rightarrow> bool" where
  "idle ms u \<longleftrightarrow> (\<forall>m \<in> set ms. lm_obj m \<noteq> None \<longrightarrow> set (lm_defines m) \<inter> u = {})"

definition parsed_objects :: "lazy_member list \<Rightarrow> resolver \<Rightarrow> input_object set" where
  "parsed_objects ms r = set (rv_objects r) \<union> {obj. \<exists>m \<in> set ms. lm_obj m = Some obj}"

lemma members_ok_simps [simp]:
  "members_ok []"
  "members_ok (m # ms) \<longleftrightarrow> (\<forall>obj. lm_obj m = Some obj \<longrightarrow> lm_defines m = member_defines obj) \<and> members_ok ms"
  "members_ok (ms @ ms') \<longleftrightarrow> members_ok ms \<and> members_ok ms'"
  by (auto simp: members_ok_def)

lemma idle_Cons [simp]: "idle (m # ms) u \<longleftrightarrow> (lm_obj m \<noteq> None \<longrightarrow> set (lm_defines m) \<inter> u = {}) \<and> idle ms u"
  "idle [] u"
  by (auto simp: idle_def)

lemma pull_idle: "idle ms u \<Longrightarrow> pull_lazy_members ms r u = Ok (ms, r, u, 0)"
  by (induction ms) (auto split: option.splits)

lemma pull_keeps:
  assumes "pull_lazy_members ms r u = Ok (ms', r', u', k)" "members_ok ms" "u = current_global_undefined (rv_symbols r)"
  shows "u' = current_global_undefined (rv_symbols r') \<and> members_ok ms' \<and>
     parsed_objects ms' r' = parsed_objects ms r \<and>
     (k = 0 \<longrightarrow> idle ms u \<and> ms' = ms \<and> r' = r \<and> u' = u)"
  using assms
proof (induction ms arbitrary: r u ms' k)
  case Nil
  then show ?case by auto
next
  case (Cons m ms)
  show ?case
  proof (cases "\<exists>obj. lm_obj m = Some obj \<and> set (lm_defines m) \<inter> u \<noteq> {}")
    case False
    then obtain ms1 where p: "pull_lazy_members ms r u = Ok (ms1, r', u', k)" "ms' = m # ms1"
      using Cons.prems(1) by (auto split: option.splits if_splits prod.splits elim!: bind_outcome_Ok)
    have "parsed_objects (m # ms) r = parsed_objects ms r \<union> {obj. lm_obj m = Some obj}" for ms r
      by (auto simp: parsed_objects_def)
    then show ?thesis using Cons.IH [OF p(1)] Cons.prems(2,3) p(2) False by auto
  next
    case True
    then obtain obj where obj: "lm_obj m = Some obj" "set (lm_defines m) \<inter> u \<noteq> {}" by blast
    then obtain r1 ms1 k1 where p: "resolve obj r = Ok r1"
        "pull_lazy_members ms r1 (reconcile (rv_symbols r1) (member_touched m obj) u) = Ok (ms1, r', u', k1)"
        "ms' = m\<lparr>lm_obj := None\<rparr> # ms1" "k = Suc k1"
      using Cons.prems(1) by (auto split: prod.splits elim!: bind_outcome_Ok)
    have "reconcile (rv_symbols r1) (member_touched m obj) u = current_global_undefined (rv_symbols r1)"
      using resolve_wanted [OF p(1)] Cons.prems(2,3) obj(1) by (auto simp: set_eq_iff)
    note ih = Cons.IH [OF p(2) _ this]
    have "parsed_objects ms' r' = parsed_objects ms1 r'" "parsed_objects (m # ms) r = parsed_objects ms r1"
      using p(3) resolve_objects [OF p(1)] obj(1) by (auto simp: parsed_objects_def)
    then show ?thesis using ih Cons.prems(2) p(3,4) by simp
  qed
qed


section \<open>What the archives have given so far\<close>

text \<open>A member that parses (into a fresh arena; the arena only moves its handles) is among the objects \<open>objs\<close>.\<close>

definition known :: "link_world \<Rightarrow> string \<Rightarrow> input_object set \<Rightarrow> name \<times> bytes \<Rightarrow> bool" where
  "known w p objs x \<longleftrightarrow>
     (\<forall>y obj0. parse_member w p \<lparr>am_offset = None, am_name = fst x, am_data = snd x\<rparr> arena_new = Ok (y, Some obj0) \<longrightarrow>
        (\<exists>obj \<in> objs. path obj = path obj0 \<and> symbols obj = symbols obj0))"

lemma known_mono: "known w p objs x \<Longrightarrow> objs \<subseteq> objs' \<Longrightarrow> known w p objs' x"
  unfolding known_def by blast

lemma section_handle_shape:
  "section_handle b ob bo sink p rs = Ok x \<Longrightarrow> \<exists>y. section_handle b' ob' bo sink' p rs = Ok y \<and> fst (snd y) = fst (snd x)"
  by (auto simp: section_handle_def Let_def split: if_splits prod.splits option.splits)

lemma parse_section_shape:
  assumes "parse_section b ob bo d p sink rs = Ok x"
  shows "\<exists>y. parse_section b' ob' bo d p sink' rs = Ok y"
proof -
  obtain h where h: "section_handle b ob bo sink p rs = Ok h" using assms by (auto simp: parse_section_def Let_def elim!: bind_outcome_Ok)
  obtain h' where "section_handle b' ob' bo sink' p rs = Ok h'" using section_handle_shape [OF h] by blast
  then show ?thesis
    using assms h by (auto simp: parse_section_def Let_def split: prod.splits if_splits option.splits)
qed

lemma parse_sections_shape:
  "parse_sections b ob bo d p sink rss = Ok x \<Longrightarrow> \<exists>y. parse_sections b' ob' bo d p sink' rss = Ok y"
proof (induction rss arbitrary: sink sink' x)
  case (Cons rs rss)
  then obtain x1 x2 where x: "parse_section b ob bo d p sink rs = Ok x1" "parse_sections b ob bo d p (snd x1) rss = Ok x2"
    by (auto elim!: bind_outcome_Ok split: prod.splits)
  obtain y1 where y1: "parse_section b' ob' bo d p sink' rs = Ok y1" using parse_section_shape [OF x(1)] by blast
  obtain y2 where "parse_sections b' ob' bo d p (snd y1) rss = Ok y2" using Cons.IH [OF x(2)] by blast
  then show ?case using y1 by (cases y1; cases y2) simp
qed simp

lemma parse_backed_shape:
  assumes "parse_backed b ob bo p d e = Ok (obj0, s)"
  shows "\<exists>obj s'. parse_backed b' ob' bo p d e = Ok (obj, s') \<and> path obj = path obj0 \<and> symbols obj = symbols obj0"
proof -
  obtain elf secs where e: "e = Some elf" "parse_sections b ob bo d p [] (re_sections elf) = Ok (secs, s)"
      "obj0 = parsed_object (re_hints elf) p secs (map parse_symbol (re_symbols elf))
         (parse_comdat_groups (re_symbols elf) (re_sections elf))"
    using assms by (auto simp: parse_backed_def elim!: bind_outcome_Ok split: option.splits)
  obtain y where "parse_sections b' ob' bo d p [] (re_sections elf) = Ok y" using parse_sections_shape [OF e(2)] by blast
  then show ?thesis using e by (cases y) (simp add: parse_backed_def parsed_object_def)
qed

lemma parse_member_shape:
  assumes "parse_member w p m0 a0 = Ok (y, Some obj0)" "am_name m0 = am_name m" "am_data m0 = am_data m"
    "parse_member w p m a = Ok (a', o')"
  shows "\<exists>obj. o' = Some obj \<and> path obj = path obj0 \<and> symbols obj = symbols obj0"
proof -
  obtain i0 a1 where a1: "push_owned a0 (am_data m) = (i0, a1)" by force
  obtain s0 where p0: "parse_backed (Owned i0) (of_nat (length (owned a1))) 0 (member_label p (am_name m)) (am_data m) (lw_elf w (am_data m)) = Ok (obj0, s0)"
    using assms(1-3) by (auto simp: a1 parse_member_def parse_owned_member_def parse_into_def elim!: bind_outcome_Ok
        split: prod.splits outcome.splits)
  obtain i a2 where pa: "push_owned a (am_data m) = (i, a2)" by force
  obtain obj s where po: "parse_backed (Owned i) (of_nat (length (owned a2))) 0 (member_label p (am_name m)) (am_data m) (lw_elf w (am_data m)) = Ok (obj, s)"
    and obj: "path obj = path obj0" "symbols obj = symbols obj0"
    using parse_backed_shape [OF p0] by blast
  have "o' = Some obj" using assms(4) by (simp add: parse_member_def pa parse_owned_member_def parse_into_def po)
  then show ?thesis using obj by blast
qed

lemma lazy_members_known:
  "lazy_members w p ms a = Ok (xs, a') \<Longrightarrow> m \<in> set ms \<Longrightarrow>
     known w p {obj. \<exists>x \<in> set xs. lm_obj x = Some obj} (am_name m, am_data m)"
proof (induction ms arbitrary: a xs)
  case (Cons m1 ms)
  then obtain a1 o1 ys where s: "parse_member w p m1 a = Ok (a1, o1)" "lazy_members w p ms a1 = Ok (ys, a')"
      "xs = (case o1 of None \<Rightarrow> ys | Some obj \<Rightarrow> \<lparr>lm_obj = Some obj, lm_defines = member_defines obj\<rparr> # ys)"
    by (auto elim!: bind_outcome_Ok)
  have sub: "{obj. \<exists>x \<in> set ys. lm_obj x = Some obj} \<subseteq> {obj. \<exists>x \<in> set xs. lm_obj x = Some obj}"
    by (auto simp: s(3) split: option.splits)
  show ?case
  proof (cases "m = m1")
    case True
    show ?thesis unfolding known_def
    proof (intro allI impI)
      fix y obj0
      assume "parse_member w p \<lparr>am_offset = None, am_name = fst (am_name m, am_data m), am_data = snd (am_name m, am_data m)\<rparr> arena_new = Ok (y, Some obj0)"
      from parse_member_shape [OF this _ _ s(1)] obtain obj
        where "o1 = Some obj" "path obj = path obj0" "symbols obj = symbols obj0" using True by auto
      then show "\<exists>obj \<in> {obj. \<exists>x \<in> set xs. lm_obj x = Some obj}. path obj = path obj0 \<and> symbols obj = symbols obj0"
        by (auto simp: s(3))
    qed
  next
    case False
    then show ?thesis using Cons.IH [OF s(2)] Cons.prems(2) sub by (auto intro: known_mono)
  qed
qed simp

lemma lazy_members_ok: "lazy_members w p ms a = Ok (xs, a') \<Longrightarrow> members_ok xs"
  by (induction ms arbitrary: a xs) (fastforce elim!: bind_outcome_Ok split: option.splits)+


section \<open>Rounds\<close>

text \<open>An archive without a usable index, whose members are all listed the first time it is read.\<close>

definition needs_listing :: "link_world \<Rightarrow> string \<Rightarrow> bool" where
  "needs_listing w p \<longleftrightarrow>
     (case lw_archive w p of None \<Rightarrow> False | Some a \<Rightarrow> ra_magic a \<and> archive_matching_offsets a (\<lambda>_. True) = None)"

definition read_known :: "link_world \<Rightarrow> input_object set \<Rightarrow> (string \<Rightarrow> u64 set) \<Rightarrow> bool" where
  "read_known w objs seen \<longleftrightarrow>
     (\<forall>p a off x. lw_archive w p = Some a \<longrightarrow> off \<in> seen p \<longrightarrow> ra_member_at a off = Some x \<longrightarrow> known w p objs x)"

definition listed :: "link_world \<Rightarrow> input_object set \<Rightarrow> string \<Rightarrow> bool" where
  "listed w objs p \<longleftrightarrow>
     (\<forall>a x. lw_archive w p = Some a \<longrightarrow> Some x \<in> set (ra_members a) \<longrightarrow> known w p objs x)"

definition drained :: "link_world \<Rightarrow> name set \<Rightarrow> (string \<Rightarrow> u64 set) \<Rightarrow> string \<Rightarrow> bool" where
  "drained w u seen p \<longleftrightarrow>
     (\<forall>a offs. lw_archive w p = Some a \<longrightarrow> ra_magic a \<longrightarrow>
        archive_matching_offsets a (\<lambda>n. n \<in> u) = Some offs \<longrightarrow> set offs \<subseteq> seen p)"

lemma listed_mono: "listed w objs p \<Longrightarrow> objs \<subseteq> objs' \<Longrightarrow> listed w objs' p"
  unfolding listed_def using known_mono by blast

lemma drained_mono: "drained w u seen p \<Longrightarrow> seen p \<subseteq> seen' p \<Longrightarrow> drained w u seen' p"
  unfolding drained_def by blast

lemma needs_listing_drained: "needs_listing w p \<Longrightarrow> drained w u seen p"
  using matching_offsets_None [of _ "\<lambda>_. True" "\<lambda>n. n \<in> u"]
  by (auto simp: needs_listing_def drained_def split: option.splits)

definition round_objects :: "input_object list \<Rightarrow> archive_round \<Rightarrow> input_object set" where
  "round_objects objs rd = set objs \<union> {obj. \<exists>m \<in> set (ar_members rd). lm_obj m = Some obj}"

lemma add_members_known:
  assumes "add_members w p ms rd = Ok rd'"
  shows "round_objects objs rd \<subseteq> round_objects objs rd'"
    "m \<in> set ms \<Longrightarrow> known w p (round_objects objs rd') (am_name m, am_data m)"
    "members_ok (ar_members rd) \<Longrightarrow> members_ok (ar_members rd')"
proof -
  obtain xs a where xs: "lazy_members w p ms (ar_arena rd) = Ok (xs, a)" "ar_members rd' = ar_members rd @ xs"
    using assms by (auto simp: add_members_def elim!: bind_outcome_Ok)
  show "round_objects objs rd \<subseteq> round_objects objs rd'" by (auto simp: round_objects_def xs(2))
  have "{obj. \<exists>x \<in> set xs. lm_obj x = Some obj} \<subseteq> round_objects objs rd'" by (auto simp: round_objects_def xs(2))
  then show "m \<in> set ms \<Longrightarrow> known w p (round_objects objs rd') (am_name m, am_data m)"
    using lazy_members_known [OF xs(1)] known_mono by blast
  show "members_ok (ar_members rd) \<Longrightarrow> members_ok (ar_members rd')" using lazy_members_ok [OF xs(1)] by (simp add: xs(2))
qed

text \<open>What scanning the archives \<open>P\<close> for the names \<open>u\<close> does to a round.\<close>

definition scanned :: "link_world \<Rightarrow> name set \<Rightarrow> input_object list \<Rightarrow> string set \<Rightarrow> archive_round \<Rightarrow> archive_round \<Rightarrow> bool" where
  "scanned w u objs P rd rd' \<longleftrightarrow>
     (\<forall>q. ar_seen rd q \<subseteq> ar_seen rd' q) \<and>
     round_objects objs rd \<subseteq> round_objects objs rd' \<and>
     (members_ok (ar_members rd) \<longrightarrow> members_ok (ar_members rd')) \<and>
     (read_known w (round_objects objs rd) (ar_seen rd) \<longrightarrow> read_known w (round_objects objs rd') (ar_seen rd')) \<and>
     (\<forall>p \<in> P. drained w u (ar_seen rd') p \<and> (needs_listing w p \<longrightarrow> listed w (round_objects objs rd') p)) \<and>
     set (ar_next rd') \<union> set (ar_indexed rd') = set (ar_next rd) \<union> set (ar_indexed rd) \<union> {p \<in> P. \<not> needs_listing w p} \<and>
     set (ar_next rd) \<subseteq> set (ar_next rd') \<and>
     (ar_parsed rd < ar_parsed rd' \<and> (\<exists>p \<in> P. \<not> drained w u (ar_seen rd) p \<or> needs_listing w p) \<or>
      ar_parsed rd' = ar_parsed rd \<and> ar_members rd' = ar_members rd \<and> ar_indexed rd' = ar_indexed rd \<and>
        (\<forall>p \<in> P. \<not> needs_listing w p))"

lemma needs_listing_iff:
  "lw_archive w p = Some a \<Longrightarrow> needs_listing w p \<longleftrightarrow> ra_magic a \<and> archive_matching_offsets a P = None"
  using matching_offsets_None [of a P "\<lambda>_. True"] matching_offsets_None [of a "\<lambda>_. True" P]
  by (auto simp: needs_listing_def)

lemma scan_archive_scanned:
  assumes "scan_archive w u p rd = Ok rd'"
  shows "scanned w u objs {p} rd rd'"
  using assms
proof (cases rule: scan_archive_cases)
  case (skip seen')
  obtain a where a: "lw_archive w p = Some a" using iter_matching_archive [OF skip(1)] by blast
  note nl = needs_listing_iff [OF a, of "\<lambda>n. n \<in> u"]
  show ?thesis
    using skip(1) a
  proof (cases rule: iter_matching_cases)
    case plain
    then show ?thesis
      using a nl skip(2) by (auto simp: scanned_def round_objects_def drained_def)
  next
    case (indexed offs ms)
    then have "seen' = ar_seen rd p" by auto
    then show ?thesis
      using a nl skip(2) indexed by (auto simp: scanned_def round_objects_def drained_def)
  qed simp
next
  case (indexed ms seen')
  obtain a where a: "lw_archive w p = Some a" using iter_matching_archive [OF indexed(1)] by blast
  obtain offs where offs: "ra_magic a" "archive_matching_offsets a (\<lambda>n. n \<in> u) = Some offs"
      "seen' = ar_seen rd p \<union> set offs" "\<not> set offs \<subseteq> ar_seen rd p"
      "\<And>off. off \<in> seen' \<Longrightarrow> off \<notin> ar_seen rd p \<Longrightarrow> \<exists>m \<in> set ms. ra_member_at a off = Some (am_name m, am_data m)"
    using indexed(1) a by (cases rule: iter_matching_cases) (use indexed(2) in auto)
  note spec = add_members_spec [OF indexed(3)]
  note kn = add_members_known(1,2) [OF indexed(3), where objs = objs] add_members_known(3) [OF indexed(3)]
  let ?O = "round_objects objs"
  have O: "?O rd \<subseteq> ?O rd'" using kn(1) by (simp add: round_objects_def)
  have "read_known w (?O rd') (ar_seen rd')" if rk: "read_known w (?O rd) (ar_seen rd)"
    unfolding read_known_def
  proof (intro allI impI)
    fix q b off x
    assume x: "lw_archive w q = Some b" "off \<in> ar_seen rd' q" "ra_member_at b off = Some x"
    show "known w q (?O rd') x"
    proof (cases "off \<in> ar_seen rd q")
      case True
      then have "known w q (?O rd) x" using rk x unfolding read_known_def by blast
      then show ?thesis using O by (rule known_mono)
    next
      case False
      then have q: "q = p" "off \<in> seen'" using x(2) spec(3) by (auto split: if_splits)
      then obtain m where "m \<in> set ms" "x = (am_name m, am_data m)" using offs(5) False x(1,3) a by force
      then show ?thesis using kn(2) q(1) by simp
    qed
  qed
  moreover have "\<not> needs_listing w p" using needs_listing_iff [OF a, of "\<lambda>n. n \<in> u"] offs(2) by simp
  moreover have "drained w u (ar_seen rd') p" "\<not> drained w u (ar_seen rd) p"
    using a offs spec(3) by (auto simp: drained_def)
  moreover have "\<forall>q. ar_seen rd q \<subseteq> ar_seen rd' q" using scan_archive_seen [OF assms] by blast
  ultimately show ?thesis using spec(2,4,5) kn(3) O unfolding scanned_def by auto
next
  case (full ms)
  obtain a where a: "lw_archive w p = Some a" using iter_matching_archive [OF full(1)] by blast
  have un: "ra_magic a" "archive_matching_offsets a (\<lambda>n. n \<in> u) = None"
    using full(1) a by (cases rule: iter_matching_cases; simp)+
  then have nl: "needs_listing w p" using needs_listing_iff [OF a] by blast
  have ms: "archive_members p (ra_members a) = Ok ms"
    using full(2) un(1) a by (auto simp: iter_archive_members_def read_archive_def parse_archive_def elim!: bind_outcome_Ok split: if_splits)
  note spec = add_members_spec [OF full(3)]
  note kn = add_members_known(1,2) [OF full(3), where objs = objs] add_members_known(3) [OF full(3)]
  have "listed w (round_objects objs rd') p"
    unfolding listed_def using a kn(2) archive_members_data [OF ms] by fastforce
  moreover have "read_known w (round_objects objs rd) (ar_seen rd) \<Longrightarrow> read_known w (round_objects objs rd') (ar_seen rd')"
    using kn(1) spec(3) known_mono unfolding read_known_def by metis
  moreover have "drained w u (ar_seen rd') p" using nl by (rule needs_listing_drained)
  ultimately show ?thesis using spec kn(1,3) nl unfolding scanned_def by auto
qed


lemma scannedD:
  assumes "scanned w u objs P rd rd'"
  shows "ar_seen rd q \<subseteq> ar_seen rd' q"
    "round_objects objs rd \<subseteq> round_objects objs rd'"
    "members_ok (ar_members rd) \<Longrightarrow> members_ok (ar_members rd')"
    "read_known w (round_objects objs rd) (ar_seen rd) \<Longrightarrow> read_known w (round_objects objs rd') (ar_seen rd')"
    "p \<in> P \<Longrightarrow> drained w u (ar_seen rd') p"
    "p \<in> P \<Longrightarrow> needs_listing w p \<Longrightarrow> listed w (round_objects objs rd') p"
    "set (ar_next rd') \<union> set (ar_indexed rd') = set (ar_next rd) \<union> set (ar_indexed rd) \<union> {p \<in> P. \<not> needs_listing w p}"
    "set (ar_next rd) \<subseteq> set (ar_next rd')"
    "ar_parsed rd < ar_parsed rd' \<and> (\<exists>p \<in> P. \<not> drained w u (ar_seen rd) p \<or> needs_listing w p) \<or>
      ar_parsed rd' = ar_parsed rd \<and> ar_members rd' = ar_members rd \<and> ar_indexed rd' = ar_indexed rd \<and>
        (\<forall>p \<in> P. \<not> needs_listing w p)"
  using assms unfolding scanned_def by (elim conjE; simp)+

lemma scanned_trans:
  assumes "scanned w u objs P rd rd1" "scanned w u objs Q rd1 rd2"
  shows "scanned w u objs (P \<union> Q) rd rd2"
  unfolding scanned_def
proof (intro conjI allI ballI impI)
  note a = scannedD [OF assms(1)] and b = scannedD [OF assms(2)]
  show "ar_seen rd q \<subseteq> ar_seen rd2 q" for q using a(1) b(1) by (rule order_trans)
  show "round_objects objs rd \<subseteq> round_objects objs rd2" using a(2) b(2) by (rule order_trans)
  show "members_ok (ar_members rd) \<Longrightarrow> members_ok (ar_members rd2)" using a(3) b(3) by blast
  show "read_known w (round_objects objs rd) (ar_seen rd) \<Longrightarrow> read_known w (round_objects objs rd2) (ar_seen rd2)"
    using a(4) b(4) by blast
  show "drained w u (ar_seen rd2) p" if "p \<in> P \<union> Q" for p
    using that a(5) [of p] b(1,5) [of p] drained_mono by blast
  show "listed w (round_objects objs rd2) p" if "p \<in> P \<union> Q" "needs_listing w p" for p
    using that a(6) [of p] b(6) [of p] listed_mono [OF _ b(2)] by blast
  show "set (ar_next rd2) \<union> set (ar_indexed rd2)
      = set (ar_next rd) \<union> set (ar_indexed rd) \<union> {p \<in> P \<union> Q. \<not> needs_listing w p}"
    using a(7) b(7) by auto
  show "set (ar_next rd) \<subseteq> set (ar_next rd2)" using a(8) b(8) by (rule order_trans)
  show "ar_parsed rd < ar_parsed rd2 \<and> (\<exists>p \<in> P \<union> Q. \<not> drained w u (ar_seen rd) p \<or> needs_listing w p) \<or>
      ar_parsed rd2 = ar_parsed rd \<and> ar_members rd2 = ar_members rd \<and> ar_indexed rd2 = ar_indexed rd \<and>
        (\<forall>p \<in> P \<union> Q. \<not> needs_listing w p)"
  proof (cases "ar_parsed rd < ar_parsed rd1")
    case True
    moreover have "ar_parsed rd1 \<le> ar_parsed rd2" using b(9) by linarith
    ultimately show ?thesis using a(9) by auto
  next
    case False
    then have 3: "ar_parsed rd1 = ar_parsed rd" "ar_members rd1 = ar_members rd" "ar_indexed rd1 = ar_indexed rd"
      "\<forall>p \<in> P. \<not> needs_listing w p" using a(9) by blast+
    have "drained w u (ar_seen rd) p \<Longrightarrow> drained w u (ar_seen rd1) p" for p
      using a(1) by (rule drained_mono [rotated])
    then show ?thesis using b(9) 3(4) unfolding 3(1-3) by blast
  qed
qed

lemma scan_archives_scanned: "scan_archives w u ps rd = Ok rd' \<Longrightarrow> scanned w u objs (set ps) rd rd'"
proof (induction ps arbitrary: rd)
  case Nil
  then show ?case by (auto simp: scanned_def)
next
  case (Cons p ps)
  then obtain rd1 where rd1: "scan_archive w u p rd = Ok rd1" "scan_archives w u ps rd1 = Ok rd'"
    by (auto elim!: bind_outcome_Ok)
  then show ?case using scanned_trans [OF scan_archive_scanned [OF rd1(1)] Cons.IH [OF rd1(2)]] by simp
qed

section \<open>The loop\<close>

text \<open>Between rounds either every archive with an index is still pending, or nothing more can be pulled and every
  archive is read as far as its index asks for; either way what was read is linked or waits as a member.\<close>

definition pass_inv :: "link_world \<Rightarrow> string set \<Rightarrow> string list \<Rightarrow> (string \<Rightarrow> u64 set) \<Rightarrow> lazy_member list \<Rightarrow> resolver \<Rightarrow> name set \<Rightarrow> bool" where
  "pass_inv w A pending seen members r u \<longleftrightarrow>
     u = current_global_undefined (rv_symbols r) \<and> members_ok members \<and>
     read_known w (parsed_objects members r) seen \<and>
     (\<forall>p \<in> A. needs_listing w p \<longrightarrow> p \<in> set pending \<or> listed w (parsed_objects members r) p) \<and>
     ((\<forall>p \<in> A. needs_listing w p \<or> p \<in> set pending) \<or>
      idle members u \<and> (\<forall>p \<in> A. drained w u seen p) \<and> (\<forall>p \<in> set pending. \<not> needs_listing w p)) \<and>
     set pending \<subseteq> A"

definition loop_final :: "link_world \<Rightarrow> string set \<Rightarrow> (string \<Rightarrow> u64 set) \<Rightarrow> lazy_member list \<Rightarrow> resolver \<Rightarrow> bool" where
  "loop_final w A seen members r \<longleftrightarrow>
     idle members (current_global_undefined (rv_symbols r)) \<and> members_ok members \<and>
     read_known w (parsed_objects members r) seen \<and>
     (\<forall>p \<in> A. drained w (current_global_undefined (rv_symbols r)) seen p \<and>
        (needs_listing w p \<longrightarrow> listed w (parsed_objects members r) p))"

lemma archive_pass_inv:
  assumes inv: "pass_inv w A pending seen members r u"
    and pass: "archive_pass w pending seen members r u = Ok (rd, ms', r', u', k)"
  shows "if k = 0 \<and> ar_parsed rd = 0 then loop_final w A (ar_seen rd) ms' r'
     else pass_inv w A (if k > 0 then ar_next rd @ ar_indexed rd else ar_next rd) (ar_seen rd) ms' r' u'"
proof -
  note i = inv [unfolded pass_inv_def]
  let ?rd0 = "round_start (rv_arena r) members seen" and ?r = "r\<lparr>rv_arena := ar_arena rd\<rparr>"
  have rd: "scan_archives w u pending ?rd0 = Ok rd"
    and pl: "pull_lazy_members (ar_members rd) ?r u = Ok (ms', r', u', k)"
    using pass by (auto simp: archive_pass_def elim!: bind_outcome_Ok)
  note sc = scannedD [OF scan_archives_scanned [OF rd, of "rv_objects r"]]
  have start: "ar_seen ?rd0 = seen" "ar_members ?rd0 = members" "ar_next ?rd0 = []" "ar_indexed ?rd0 = []"
      "ar_parsed ?rd0 = 0" "round_objects (rv_objects r) ?rd0 = parsed_objects members r"
    by (simp_all add: round_start_def round_objects_def parsed_objects_def)
  have O: "round_objects (rv_objects r) rd = parsed_objects (ar_members rd) ?r" by (simp add: round_objects_def parsed_objects_def)
  have seen: "seen q \<subseteq> ar_seen rd q" for q using sc(1) [of q] start(1) by simp
  have grow: "parsed_objects members r \<subseteq> parsed_objects (ar_members rd) ?r" using sc(2) O start(6) by simp
  have mok: "members_ok (ar_members rd)" using sc(3) i start(2) by simp
  have rk: "read_known w (parsed_objects (ar_members rd) ?r) (ar_seen rd)" using sc(4) i O start(1,6) by simp
  have dr: "\<forall>p \<in> set pending. drained w u (ar_seen rd) p \<and> (needs_listing w p \<longrightarrow> listed w (parsed_objects (ar_members rd) ?r) p)"
    using sc(5,6) O by simp
  have nx: "set (ar_next rd) \<union> set (ar_indexed rd) = {p \<in> set pending. \<not> needs_listing w p}" using sc(7) start(3,4) by simp
  have "u = current_global_undefined (rv_symbols ?r)" using i by simp
  note pk = pull_keeps [OF pl mok this]
  have known: "read_known w (parsed_objects ms' r') (ar_seen rd)" using rk pk by simp
  have lst: "\<forall>p \<in> A. needs_listing w p \<longrightarrow> listed w (parsed_objects ms' r') p"
    using i dr pk grow listed_mono by metis
  have drA: "\<forall>p \<in> A. drained w u (ar_seen rd) p"
  proof
    fix p assume "p \<in> A"
    then have "p \<in> set pending \<or> needs_listing w p \<or> drained w u seen p" using i by blast
    then show "drained w u (ar_seen rd) p"
      using dr seen drained_mono [of w u seen p "ar_seen rd"] needs_listing_drained by blast
  qed
  show ?thesis
  proof (cases "k = 0")
    case True
    then have same: "idle (ar_members rd) u" "ms' = ar_members rd" "r' = ?r" "u' = u" using pk by auto
    have fin: "u = current_global_undefined (rv_symbols r')" using pk same(4) by simp
    show ?thesis
    proof (cases "ar_parsed rd = 0")
      case True
      then show ?thesis using \<open>k = 0\<close> known lst drA same mok fin by (simp add: loop_final_def)
    next
      case False
      have "set (ar_next rd) \<subseteq> A" "\<forall>p \<in> set (ar_next rd). \<not> needs_listing w p" using nx i by blast+
      then show ?thesis using False \<open>k = 0\<close> known lst drA same mok fin by (simp add: pass_inv_def)
    qed
  next
    case False
    have "\<not> (idle members u \<and> (\<forall>p \<in> A. drained w u seen p) \<and> (\<forall>p \<in> set pending. \<not> needs_listing w p))"
    proof
      assume settled: "idle members u \<and> (\<forall>p \<in> A. drained w u seen p) \<and> (\<forall>p \<in> set pending. \<not> needs_listing w p)"
      then have "\<forall>p \<in> set pending. drained w u seen p \<and> \<not> needs_listing w p" using i by blast
      then have "ar_members rd = members" using sc(9) start(1,2) by auto
      then show False using pull_idle [of members u ?r] settled pl False by simp
    qed
    then have "\<forall>p \<in> A. needs_listing w p \<or> p \<in> set pending" using i by blast
    then have "\<forall>p \<in> A. needs_listing w p \<or> p \<in> set (ar_next rd @ ar_indexed rd)" "set (ar_next rd @ ar_indexed rd) \<subseteq> A"
      using nx i by auto
    then show ?thesis using False known lst pk by (simp add: pass_inv_def)
  qed
qed

lemma archive_loop_final:
  assumes "archive_loop w pending seen members r u = Some y" "pass_inv w A pending seen members r u" "y = Ok r'"
  shows "current_global_undefined (rv_symbols r') = {} \<or> (\<exists>seen' ms'. loop_final w A seen' ms' r')"
  using assms
proof (induction "loop_potential w pending seen members" arbitrary: pending seen members r u rule: less_induct)
  case less
  show ?case
  proof (cases "u = {}")
    case True
    then have "r' = r" using less.prems(1,3) by (subst (asm) archive_loop.simps) simp
    then show ?thesis using less.prems(2) True by (simp add: pass_inv_def)
  next
    case False
    note step = less.prems(1) [unfolded archive_loop.simps [of w pending seen members r u]]
    obtain rd ms1 r1 u1 k where x: "archive_pass w pending seen members r u = Ok (rd, ms1, r1, u1, k)"
      using step False less.prems(3) by (auto split: outcome.splits)
    note inv = archive_pass_inv [OF less.prems(2) x]
    show ?thesis
    proof (cases "k = 0 \<and> ar_parsed rd = 0")
      case True
      then have "r' = r1" using step False x less.prems(3) by simp
      then show ?thesis using inv True by auto
    next
      case go: False
      let ?next = "if k > 0 then ar_next rd @ ar_indexed rd else ar_next rd"
      have "loop_potential w ?next (ar_seen rd) ms1 + k + ar_parsed rd \<le> loop_potential w pending seen members"
        using archive_pass_potential [OF x] by (simp add: loop_potential_def)
      then have lt: "loop_potential w ?next (ar_seen rd) ms1 < loop_potential w pending seen members" using go by auto
      have "archive_loop w ?next (ar_seen rd) ms1 r1 u1 = Some y" using step False x go by auto
      then show ?thesis by (rule less.hyps [OF lt]) (use inv go less.prems(3) in auto)
    qed
  qed
qed


lemma set_unique_paths: "set (unique_paths ps seen) = set ps - seen"
  by (induction ps arbitrary: seen) auto

text \<open>The members an archive offers for some names: those its index gives, or all of them where it has none.\<close>

definition offered :: "link_world \<Rightarrow> string \<Rightarrow> name set \<Rightarrow> (name \<times> bytes) set" where
  "offered w p u =
     (case lw_archive w p of None \<Rightarrow> {}
      | Some a \<Rightarrow>
          if \<not> ra_magic a then {}
          else (case archive_matching_offsets a (\<lambda>n. n \<in> u) of
                  None \<Rightarrow> {x. Some x \<in> set (ra_members a)}
                | Some offs \<Rightarrow> {x. \<exists>off \<in> set offs. ra_member_at a off = Some x}))"

lemma offered_known:
  assumes "loop_final w A seen ms r" "p \<in> A" "x \<in> offered w p (current_global_undefined (rv_symbols r))"
  shows "known w p (parsed_objects ms r) x"
proof -
  let ?u = "current_global_undefined (rv_symbols r)"
  obtain a where a: "lw_archive w p = Some a" "ra_magic a" using assms(3) by (auto simp: offered_def split: option.splits if_splits)
  show ?thesis
  proof (cases "archive_matching_offsets a (\<lambda>n. n \<in> ?u)")
    case None
    then have "needs_listing w p" using needs_listing_iff [OF a(1)] a(2) by blast
    then have "listed w (parsed_objects ms r) p" using assms(1,2) by (simp add: loop_final_def)
    then show ?thesis using assms(3) a None by (cases x) (simp add: offered_def listed_def)
  next
    case (Some offs)
    have "drained w ?u seen p" "read_known w (parsed_objects ms r) seen" using assms(1,2) by (simp_all add: loop_final_def)
    then show ?thesis using assms(3) a Some by (cases x) (auto simp: offered_def drained_def read_known_def)
  qed
qed

text \<open>C6: Member inclusion ends at a fixpoint.  When it returns, whichever rounds read which archives
  and however far, every member that an archive offers for the names still undefined (through its symbol index, or
  because it has none) and that parses as an object is either linked, or defines none of those names: no archive that
  was given could still resolve one.\<close>

theorem archive_fixpoint:
  assumes "include_archive_members w archives r = Some (Ok r')" "p \<in> set archives"
    and "(nm, d) \<in> offered w p (current_global_undefined (rv_symbols r'))"
    and "parse_member w p \<lparr>am_offset = None, am_name = nm, am_data = d\<rparr> arena_new = Ok (y, Some obj)"
  shows "(\<exists>obj' \<in> set (rv_objects r'). path obj' = path obj \<and> symbols obj' = symbols obj) \<or>
     (\<forall>n \<in> set (member_defines obj). \<not> wanted (rv_symbols r') n)"
proof -
  have "pass_inv w (set archives) (unique_paths archives {}) (\<lambda>_. {}) [] r (current_global_undefined (rv_symbols r))"
    by (simp add: pass_inv_def set_unique_paths read_known_def)
  from archive_loop_final [OF assms(1) [unfolded include_archive_members_def] this]
  consider "current_global_undefined (rv_symbols r') = {}" | seen ms where "loop_final w (set archives) seen ms r'" by blast
  then show ?thesis
  proof cases
    case 1
    then show ?thesis using in_current_undefined [of _ "rv_symbols r'"] by blast
  next
    case (2 seen ms)
    obtain obj' where obj': "obj' \<in> parsed_objects ms r'" "path obj' = path obj" "symbols obj' = symbols obj"
      using offered_known [OF 2 assms(2,3)] assms(4) by (auto simp: known_def)
    show ?thesis
    proof (cases "obj' \<in> set (rv_objects r')")
      case False
      then obtain m where m: "m \<in> set ms" "lm_obj m = Some obj'" using obj'(1) by (auto simp: parsed_objects_def)
      have "set (lm_defines m) \<inter> current_global_undefined (rv_symbols r') = {}" "lm_defines m = member_defines obj'"
        using 2 m(1) m(2) unfolding loop_final_def idle_def members_ok_def by (metis option.distinct(1), metis)
      moreover have "member_defines obj' = member_defines obj" using obj'(3) by (simp add: member_defines_def)
      ultimately show ?thesis using in_current_undefined [of _ "rv_symbols r'"] by fastforce
    qed (use obj' in blast)
  qed
qed

text \<open>A link that needs \<open>x\<close>, and a library without an index whose one member defines it.\<close>

definition demo_world :: link_world where
  "demo_world =
     \<lparr>lw_bytes = (\<lambda>_. None), lw_header_kind = (\<lambda>_. Bare),
      lw_archive = (\<lambda>p. if p = ''l.a''
        then Some \<lparr>ra_thin = False, ra_magic = True, ra_parses = True, ra_index = NoIndex,
                   ra_members = [Some (''m.o'', [1])], ra_member_at = (\<lambda>_. None)\<rparr> else None),
      lw_shared = (\<lambda>_. None),
      lw_elf = (\<lambda>_. Some \<lparr>re_sections = [],
        re_symbols = [\<lparr>ys_index = 1, ys_name = Some ''x'', ys_compilation_scope = False, ys_weak = False,
          ys_type_visibility = Some (1, 0), ys_undefined = False, ys_common = False, ys_section = None,
          ys_address = 0, ys_size = 4\<rparr>], re_hints = (0, 2)\<rparr>)\<rparr>"

definition demo_start :: resolver where
  "demo_start = resolver_default\<lparr>rv_symbols := force_undefined ''x'' symbol_table_new\<rparr>"

lemmas inclusion_eval =
  archive_pass_def scan_archive_def demo_world_def iter_archive_members_matching_def read_archive_def parse_archive_def
  archive_matching_offsets_def iter_archive_members_def archive_member_def add_members_def parse_member_def push_owned_def
  parse_owned_member_def parse_into_def parse_backed_def round_start_def parse_symbol_def member_defines_def
  parsed_object_def resolve_def add_object_def process_object_excluding_def merges_def merge_symbol_def merge_defined_def
  lookup_def conflict_action_def make_undefined_resolution_def Let_def put_res_def bind_definition_def push_name_def
  next_id_def member_touched_def wanted_def is_defined_def arena_new_def intern_object_names_def
  current_global_undefined_def demo_start_def force_undefined_def resolver_default_def symbol_table_new_def

lemma demo_inclusion:
  "\<exists>r'. include_archive_members demo_world [''l.a''] demo_start = Some (Ok r') \<and> length (rv_objects r') = 1"
proof -
  obtain rd ms r' where pass: "archive_pass demo_world [''l.a''] (\<lambda>_. {}) [] demo_start {''x''} = Ok (rd, ms, r', {}, 1)"
      "length (rv_objects r') = 1"
    by (simp add: inclusion_eval)
  have "archive_loop demo_world [''l.a''] (\<lambda>_. {}) [] demo_start {''x''} = Some (Ok r')"
    by (subst archive_loop.simps) (simp add: pass archive_loop.simps [where undef = "{}"])
  moreover have "current_global_undefined (rv_symbols demo_start) = {''x''}" by (simp add: inclusion_eval)
  ultimately show ?thesis using pass(2) by (simp add: include_archive_members_def)
qed

lemma demo_member:
  "\<exists>y obj. parse_member demo_world ''l.a'' \<lparr>am_offset = None, am_name = ''m.o'', am_data = [1]\<rparr> arena_new = Ok (y, Some obj) \<and>
     member_defines obj = [''x'']"
  by (simp add: inclusion_eval)

theorem archive_fixpoint_witness:
  "\<exists>r' obj. include_archive_members demo_world [''l.a''] demo_start = Some (Ok r') \<and> length (rv_objects r') = 1 \<and>
     member_defines obj = [''x''] \<and>
     ((\<exists>obj' \<in> set (rv_objects r'). path obj' = path obj \<and> symbols obj' = symbols obj) \<or>
      \<not> wanted (rv_symbols r') ''x'')"
proof -
  obtain r' where r': "include_archive_members demo_world [''l.a''] demo_start = Some (Ok r')" "length (rv_objects r') = 1"
    using demo_inclusion by blast
  obtain y obj where obj: "parse_member demo_world ''l.a'' \<lparr>am_offset = None, am_name = ''m.o'', am_data = [1]\<rparr> arena_new = Ok (y, Some obj)"
      "member_defines obj = [''x'']" using demo_member by blast
  have "(''m.o'', [1]) \<in> offered demo_world ''l.a'' (current_global_undefined (rv_symbols r'))"
    by (simp add: offered_def demo_world_def archive_matching_offsets_def)
  from archive_fixpoint [OF r'(1) _ this obj(1)] show ?thesis using r' obj(2) by auto
qed

end
