(* ===== verification/Load_Result.thy ===== *)
theory Load_Result
  imports Archive_Fixpoint
begin

text \<open>
  What a successful load returns (\<^verbatim>\<open>load_and_resolve\<close>, \<^verbatim>\<open>Resolver::resolve\<close> of \<^verbatim>\<open>peony/src/main.rs\<close>).  The locale
  \<open>resolver_property\<close> lifts what \<open>resolve\<close> keeps over every way an object enters the link; \<open>lock_step\<close> is such a property:
  object ids are indices into the object list, a symbol's definer is a loaded object, and the COMDAT exclusion is
  determined by the groups in load order.
\<close>

section \<open>Properties every inclusion keeps\<close>

lemma and_then_Ok:
  "and_then m f = Some (Ok b) \<Longrightarrow> (\<And>a. m = Some (Ok a) \<Longrightarrow> f a = Some (Ok b) \<Longrightarrow> thesis) \<Longrightarrow> thesis"
  by (auto simp: and_then_def split: option.splits outcome.splits)

lemma and_then_Some_Ok:
  "and_then (Some m) f = Some (Ok b) \<Longrightarrow> (\<And>a. m = Ok a \<Longrightarrow> f a = Some (Ok b) \<Longrightarrow> thesis) \<Longrightarrow> thesis"
  by (auto elim: and_then_Ok)

locale resolver_property =
  fixes I :: "resolver \<Rightarrow> bool"
  assumes on_resolve: "I r \<Longrightarrow> resolve obj r = Ok r' \<Longrightarrow> I r'"
    and on_arena: "I r \<Longrightarrow> I (r\<lparr>rv_arena := a\<rparr>)"
    and on_force: "I r \<Longrightarrow> I (r\<lparr>rv_symbols := force_undefined n (rv_symbols r)\<rparr>)"
begin

lemma on_resolve_all: "I r \<Longrightarrow> resolve_all objs r = Ok r' \<Longrightarrow> I r'"
  by (induction objs arbitrary: r) (auto elim!: bind_outcome_Ok dest: on_resolve)

lemma on_pull: "I r \<Longrightarrow> pull_lazy_members ms r u = Ok (ms', r', u', k) \<Longrightarrow> I r'"
  by (induction ms arbitrary: r u ms' k)
     (auto elim!: bind_outcome_Ok split: option.splits if_splits prod.splits, (blast intro: on_resolve)+)

lemma on_whole_members: "I r \<Longrightarrow> whole_members w p ms r = Ok r' \<Longrightarrow> I r'"
  by (induction ms arbitrary: r)
     (auto elim!: bind_outcome_Ok split: option.splits prod.splits, (blast intro: on_resolve on_arena)+)

lemma on_whole: "I r \<Longrightarrow> include_whole_archive_members w ps r = Ok r' \<Longrightarrow> I r'"
  by (induction ps arbitrary: r) (auto elim!: bind_outcome_Ok dest: on_whole_members)

lemma on_start_lib_loop:
  assumes "start_lib_loop ms r u = Some y" "I r" "y = Ok r'"
  shows "I r'"
proof -
  have "I r \<longrightarrow> y = Ok r' \<longrightarrow> I r'"
  proof (rule start_lib_loop.raw_induct [OF _ assms(1), where P = "\<lambda>ms r u y. I r \<longrightarrow> y = Ok r' \<longrightarrow> I r'"], intro impI)
    fix f ms r u y
    assume "\<And>ms r u y. f ms r u = Some y \<Longrightarrow> I r \<longrightarrow> y = Ok r' \<longrightarrow> I r'" "I r" "y = Ok r'"
      "(if u = {} then Some (Ok r) else case pull_lazy_members ms r u of
          Ok (ms', r', u', k) \<Rightarrow> if k = 0 then Some (Ok r') else f ms' r' u'
        | Err e \<Rightarrow> Some (Err e) | Panic \<Rightarrow> Some Panic) = Some y"
    then show "I r'" by (auto split: if_splits outcome.splits prod.splits) (blast dest: on_pull)+
  qed
  then show ?thesis using assms(2,3) by blast
qed

lemma on_archive_pass: "I r \<Longrightarrow> archive_pass w pending seen ms r u = Ok (rd, ms', r', u', k) \<Longrightarrow> I r'"
  by (auto simp: archive_pass_def elim!: bind_outcome_Ok dest: on_pull on_arena)

lemma on_archive_loop:
  assumes "archive_loop w pending seen ms r u = Some y" "I r" "y = Ok r'"
  shows "I r'"
proof -
  have "I r \<longrightarrow> y = Ok r' \<longrightarrow> I r'"
  proof (rule archive_loop.raw_induct [OF _ assms(1), where P = "\<lambda>w pending seen ms r u y. I r \<longrightarrow> y = Ok r' \<longrightarrow> I r'"], intro impI)
    fix f w pending seen ms r u y
    assume "\<And>w pending seen ms r u y. f w pending seen ms r u = Some y \<Longrightarrow> I r \<longrightarrow> y = Ok r' \<longrightarrow> I r'" "I r" "y = Ok r'"
      "(if u = {} then Some (Ok r) else case archive_pass w pending seen ms r u of
          Ok (rd, ms', r', u', k) \<Rightarrow>
            if k = 0 \<and> ar_parsed rd = 0 then Some (Ok r')
            else f w (if k > 0 then ar_next rd @ ar_indexed rd else ar_next rd) (ar_seen rd) ms' r' u'
        | Err e \<Rightarrow> Some (Err e) | Panic \<Rightarrow> Some Panic) = Some y"
    then show "I r'" by (auto split: if_splits outcome.splits prod.splits) (blast dest: on_archive_pass)+
  qed
  then show ?thesis using assms(2,3) by blast
qed

lemma on_load_bare: "I r \<Longrightarrow> load_bare w ps r = Ok r' \<Longrightarrow> I r'"
  by (auto simp: load_bare_def elim!: bind_outcome_Ok split: prod.splits) (blast intro: on_resolve_all on_arena)

lemma on_force_all: "I r \<Longrightarrow> I (force_all ns r)"
proof (induction ns arbitrary: r)
  case Nil
  then show ?case by (simp add: force_all_def)
next
  case (Cons n ns)
  have "force_all (n # ns) r = force_all ns (r\<lparr>rv_symbols := force_undefined n (rv_symbols r)\<rparr>)" by (simp add: force_all_def)
  then show ?case using Cons.IH on_force [OF Cons.prems] by simp
qed

lemma on_load:
  assumes "load_and_resolve w inputs forced = Some (Ok z)" "I resolver_default"
  shows "\<exists>r needed st. I r \<and> register_shared w (filter (\<lambda>x. input_kind w x = Shared) inputs) (rv_symbols r) = Ok (needed, st) \<and>
     rz_objects z = rv_objects r \<and> rz_comdat_excluded z = rv_excluded r \<and> rz_symbols z = st \<and> rz_needed z = needed"
proof -
  obtain r1 r2 r3 r4 ps1 ps2 ps3 ps4 where s: "load_bare w ps1 resolver_default = Ok r1"
      "include_whole_archive_members w ps2 (force_all forced r1) = Ok r2"
      "include_start_lib_members w ps3 r2 = Some (Ok r3)"
      "include_archive_members w ps4 r3 = Some (Ok r4)"
      "load_shared w (filter (\<lambda>x. input_kind w x = Shared) inputs) r4 = Ok z"
    using assms(1) unfolding load_and_resolve_def Let_def 
    by (elim and_then_Some_Ok and_then_Ok option.inject [THEN iffD1, elim_format]) (rule that)
  have "I r1" using on_load_bare [OF assms(2) s(1)] .
  then have "I r2" using on_whole [OF on_force_all s(2)] by blast
  obtain ms a where "start_lib_loop ms (r2\<lparr>rv_arena := a\<rparr>) (current_global_undefined (rv_symbols r2)) = Some (Ok r3)"
    using s(3) by (auto simp: include_start_lib_members_def split: outcome.splits)
  from on_start_lib_loop [OF this on_arena [OF \<open>I r2\<close>] refl] have "I r3" .
  then have "I r4" using s(4) on_archive_loop by (auto simp: include_archive_members_def)
  then show ?thesis using s(5) by (auto simp: load_shared_def elim!: bind_outcome_Ok)
qed

end


section \<open>Objects, ids and COMDAT groups in lock-step\<close>

text \<open>All COMDAT groups with their object's index, in load order, and the members of all but the first group of each
  signature.\<close>

definition group_seq :: "input_object list \<Rightarrow> (nat \<times> comdat_group) list" where
  "group_seq objs = concat (map (\<lambda>i. map (Pair i) (comdat_groups (objs ! i))) [0..<length objs])"

definition signatures :: "(nat \<times> comdat_group) list \<Rightarrow> name set" where
  "signatures gs = {cg_signature (snd x) | x. x \<in> set gs \<and> cg_signature (snd x) \<noteq> []}"

definition repeats :: "(nat \<times> comdat_group) list \<Rightarrow> nat \<Rightarrow> nat \<Rightarrow> nat \<Rightarrow> bool" where
  "repeats gs k i m \<longleftrightarrow> fst (gs ! k) = i \<and> m \<in> set (cg_members (snd (gs ! k))) \<and>
     cg_signature (snd (gs ! k)) \<noteq> [] \<and> (\<exists>k' < k. cg_signature (snd (gs ! k')) = cg_signature (snd (gs ! k)))"

definition repeated :: "(nat \<times> comdat_group) list \<Rightarrow> (nat \<times> nat) set" where
  "repeated gs = {(i, m). \<exists>k < length gs. repeats gs k i m}"

lemma group_seq_snoc: "group_seq (objs @ [obj]) = group_seq objs @ map (Pair (length objs)) (comdat_groups obj)"
proof -
  have "map (\<lambda>i. map (Pair i) (comdat_groups ((objs @ [obj]) ! i))) [0..<length objs]
      = map (\<lambda>i. map (Pair i) (comdat_groups (objs ! i))) [0..<length objs]"
    by (rule map_cong) (auto simp: nth_append)
  then show ?thesis by (simp only: group_seq_def length_append_singleton upt_Suc_append [OF le0] map_append concat_append) simp
qed

lemma signatures_snoc:
  "signatures (gs @ [(i, g)]) = (if cg_signature g = [] then signatures gs else insert (cg_signature g) (signatures gs))"
  by (auto simp: signatures_def)

lemma signatures_nth:
  "s \<in> signatures gs \<longleftrightarrow> s \<noteq> [] \<and> (\<exists>k < length gs. cg_signature (snd (gs ! k)) = s)"
  by (auto simp: signatures_def in_set_conv_nth) (metis in_set_conv_nth prod.collapse snd_conv)

lemma repeats_append: "k < length gs \<Longrightarrow> repeats (gs @ ys) k i m = repeats gs k i m"
proof -
  assume k: "k < length gs"
  have "(gs @ ys) ! j = gs ! j" if "j \<le> k" for j using that k by (simp add: nth_append)
  then show ?thesis by (simp add: repeats_def cong: conj_cong)
qed

lemma repeats_last:
  "repeats (gs @ [(j, g)]) (length gs) i m \<longleftrightarrow> i = j \<and> m \<in> set (cg_members g) \<and> cg_signature g \<in> signatures gs"
proof -
  have 1: "(gs @ [x]) ! k = gs ! k" if "k < length gs" for k and x using that by (simp add: nth_append)
  have "repeats (gs @ [(j, g)]) (length gs) i m \<longleftrightarrow> j = i \<and> m \<in> set (cg_members g) \<and> cg_signature g \<noteq> [] \<and>
      (\<exists>k' < length gs. cg_signature (snd (gs ! k')) = cg_signature g)"
    by (simp add: repeats_def 1 cong: conj_cong)
  then show ?thesis by (simp only: signatures_nth) blast
qed

lemma repeated_snoc:
  "repeated (gs @ [(i, g)]) =
     repeated gs \<union> (if cg_signature g \<in> signatures gs then Pair i ` set (cg_members g) else {})"
proof (rule set_eqI)
  fix x
  have "x \<in> repeated (gs @ [(i, g)]) \<longleftrightarrow>
      (\<exists>k < Suc (length gs). repeats (gs @ [(i, g)]) k (fst x) (snd x))"
    by (cases x) (simp add: repeated_def)
  also have "\<dots> \<longleftrightarrow> fst x = i \<and> snd x \<in> set (cg_members g) \<and> cg_signature g \<in> signatures gs \<or>
      (\<exists>k < length gs. repeats gs k (fst x) (snd x))"
    by (simp add: Ex_less_Suc repeats_last repeats_append cong: conj_cong)
  finally show "x \<in> repeated (gs @ [(i, g)]) \<longleftrightarrow>
      x \<in> repeated gs \<union> (if cg_signature g \<in> signatures gs then Pair i ` set (cg_members g) else {})"
    by (cases x) (auto simp: repeated_def)
qed

lemma exclude_groups_spec:
  "exclude_groups i l (signatures gs) own (repeated gs) = (seen, own', ex) \<Longrightarrow>
     seen = signatures (gs @ map (Pair i) l) \<and> ex = repeated (gs @ map (Pair i) l)"
proof (induction l arbitrary: gs own)
  case (Cons g l)
  let ?gs = "gs @ [(i, g)]"
  have "\<exists>own1. exclude_groups i l (signatures ?gs) own1 (repeated ?gs) = (seen, own', ex)"
  proof (cases "cg_signature g = []")
    case True
    then have "cg_signature g \<notin> signatures gs" by (simp add: signatures_nth)
    then show ?thesis using Cons.prems True by (auto simp: signatures_snoc repeated_snoc)
  next
    case False
    then show ?thesis using Cons.prems by (auto simp: signatures_snoc repeated_snoc insert_absorb split: if_splits)
  qed
  then show ?case using Cons.IH [of ?gs] by auto
qed simp

text \<open>Definers are loaded objects.\<close>

definition definers_loaded :: "symbol_table \<Rightarrow> bool" where
  "definers_loaded st \<longleftrightarrow>
     (\<forall>n res d. lookup st n = Some res \<longrightarrow> res_defined_in res = Some d \<longrightarrow> unat d < length (object_paths st))"

lemma merge_symbol_definers:
  assumes "merge_symbol i s st = Ok st'"
  shows "object_paths st' = object_paths st"
    "definers_loaded st \<Longrightarrow> unat i < length (object_paths st) \<Longrightarrow> definers_loaded st'"
proof -
  show op: "object_paths st' = object_paths st"
    using assms by (auto simp: merge_symbol_def merge_common_def merge_defined_def Let_def elim!: bind_outcome_Ok
        split: option.splits if_splits prod.splits conflict_action.splits)
  show "definers_loaded st'" if "definers_loaded st" "unat i < length (object_paths st)"
    using assms that unfolding definers_loaded_def op
    by (auto simp: merge_symbol_def merge_common_def merge_defined_def Let_def elim!: bind_outcome_Ok
        split: option.splits if_splits prod.splits conflict_action.splits)
qed

lemma process_symbols_paths: "process_symbols i ex syms st = Ok st' \<Longrightarrow> object_paths st' = object_paths st"
  by (induction syms arbitrary: st) (auto split: if_splits elim!: bind_outcome_Ok dest: merge_symbol_definers(1))

lemma process_symbols_definers:
  "process_symbols i ex syms st = Ok st' \<Longrightarrow> definers_loaded st \<Longrightarrow> unat i < length (object_paths st) \<Longrightarrow> definers_loaded st'"
proof (induction syms arbitrary: st)
  case (Cons s syms)
  show ?case
  proof (cases "merges ex s")
    case True
    then obtain st1 where st1: "merge_symbol i s st = Ok st1" "process_symbols i ex syms st1 = Ok st'"
      using Cons.prems(1) by (auto elim!: bind_outcome_Ok)
    then show ?thesis using Cons.IH [OF st1(2)] merge_symbol_definers [OF st1(1)] Cons.prems(2,3) by simp
  next
    case False
    then show ?thesis using Cons by simp
  qed
qed simp

definition lock_step :: "resolver \<Rightarrow> bool" where
  "lock_step r \<longleftrightarrow>
     object_paths (rv_symbols r) = map path (rv_objects r) \<and>
     (length (rv_objects r) \<le> 2 ^ 32 \<longrightarrow>
        definers_loaded (rv_symbols r) \<and>
        rv_seen_comdat r = signatures (group_seq (rv_objects r)) \<and>
        rv_excluded r = repeated (group_seq (rv_objects r)))"


lemma lock_step_resolve:
  assumes "lock_step r" "resolve obj r = Ok r'"
  shows "lock_step r'"
proof -
  let ?st = "snd (add_object (path obj) (rv_symbols r))" and ?oid = "fst (add_object (path obj) (rv_symbols r))"
  have old: "object_paths (rv_symbols r) = map path (rv_objects r)" using assms(1) by (simp add: lock_step_def)
  obtain seen own ex st' where s:
      "exclude_groups (unat ?oid) (comdat_groups obj) (rv_seen_comdat r) {} (rv_excluded r) = (seen, own, ex)"
      "process_symbols ?oid own (symbols obj) ?st = Ok st'"
      "r' = r\<lparr>rv_objects := rv_objects r @ [obj], rv_symbols := st', rv_seen_comdat := seen, rv_excluded := ex\<rparr>"
    using assms(2) by (auto simp: resolve_def process_object_excluding_def elim!: bind_outcome_Ok split: prod.splits)
  have st: "object_paths ?st = map path (rv_objects r @ [obj])" "lookup ?st = lookup (rv_symbols r)"
    using old by (simp_all add: add_object_def lookup_def fun_eq_iff)
  have paths: "object_paths st' = map path (rv_objects r')" using process_symbols_paths [OF s(2)] st(1) s(3) by simp
  have "definers_loaded st' \<and> seen = signatures (group_seq (rv_objects r @ [obj])) \<and> ex = repeated (group_seq (rv_objects r @ [obj]))"
    if len: "length (rv_objects r @ [obj]) \<le> 2 ^ 32"
  proof -
    have r: "definers_loaded (rv_symbols r)" "rv_seen_comdat r = signatures (group_seq (rv_objects r))"
        "rv_excluded r = repeated (group_seq (rv_objects r))"
      using assms(1) len by (simp_all add: lock_step_def)
    have oid: "unat ?oid = length (rv_objects r)" using len old by (simp add: add_object_def unat_of_nat)
    have "definers_loaded ?st" using r(1) st(2) by (force simp: definers_loaded_def add_object_def)
    then have "definers_loaded st'" using process_symbols_definers [OF s(2)] oid st(1) by simp
    then show ?thesis using exclude_groups_spec [OF s(1) [unfolded r(2,3)]] oid by (simp add: group_seq_snoc)
  qed
  then show ?thesis using paths s(3) by (simp add: lock_step_def)
qed

lemma lock_step_force:
  assumes "lock_step r" shows "lock_step (r\<lparr>rv_symbols := force_undefined n (rv_symbols r)\<rparr>)"
  using assms by (auto simp: lock_step_def definers_loaded_def force_undefined_def Let_def split: option.splits)

lemma lock_step_arena: "lock_step r \<Longrightarrow> lock_step (r\<lparr>rv_arena := a\<rparr>)"
  by (simp add: lock_step_def)

interpretation loaded: resolver_property lock_step
  by unfold_locales (rule lock_step_resolve lock_step_arena lock_step_force, assumption+)+

lemma lock_step_default: "lock_step resolver_default"
  by (simp add: lock_step_def resolver_default_def symbol_table_new_def definers_loaded_def lookup_def group_seq_def
      signatures_def repeated_def)

lemma register_export_symbols_definers:
  "definers_loaded st \<Longrightarrow> definers_loaded (snd (register_export_symbols_from exs so cnt st)) \<and>
     object_paths (snd (register_export_symbols_from exs so cnt st)) = object_paths st"
proof (induction exs arbitrary: cnt st)
  case (Cons ex exs)
  have "definers_loaded (import_from n (\<lambda>r. r\<lparr>res_version := v, res_soname := so', res_size := sz, res_st_type := t\<rparr>) st)"
    "object_paths (import_from n (\<lambda>r. r\<lparr>res_version := v, res_soname := so', res_size := sz, res_st_type := t\<rparr>) st) = object_paths st"
    for n v so' sz t
    using Cons.prems by (auto simp: import_from_def definers_loaded_def split: option.splits)
  then show ?case using Cons.IH Cons.prems by simp
qed simp

lemma register_shared_definers:
  "register_shared w inps st = Ok (needed, st') \<Longrightarrow> definers_loaded st \<Longrightarrow>
     definers_loaded st' \<and> object_paths st' = object_paths st"
proof (induction inps arbitrary: st needed)
  case (Cons inp inps)
  obtain lib where lib: "map_err LoadArchive (parse_shared_object (ri_path inp) (lw_shared w (ri_path inp))) = Ok lib"
    using Cons.prems(1) by (auto elim!: bind_outcome_Ok)
  obtain cnt st1 where s1: "register_shared_export_symbols (so_exports lib) (so_soname lib) st = (cnt, st1)" by force
  then obtain needed1 where s: "register_shared_export_symbols (so_exports lib) (so_soname lib) st = (cnt, st1)"
      "register_shared w inps st1 = Ok (needed1, st')"
    using Cons.prems(1) lib by (auto elim!: bind_outcome_Ok)
  have "definers_loaded st1 \<and> object_paths st1 = object_paths st"
    using register_export_symbols_definers [OF Cons.prems(2)] s(1) by (metis register_shared_export_symbols_def snd_conv)
  then show ?case using Cons.IH [OF s(2)] by simp
qed simp

text \<open>C8: A loaded link is consistent.  However its objects came in (named on the command line,
  pulled from archives or \<^verbatim>\<open>--start-lib\<close> groups in any round, whole archives), the symbol table's object ids are the
  indices of the object list, a defined symbol's definer is a loaded object, and of the COMDAT groups with one signature
  the first in load order keeps its sections while exactly the members of the later ones are excluded.\<close>

theorem load_result_sound:
  assumes "load_and_resolve w inputs forced = Some (Ok z)" "length (rz_objects z) \<le> 2 ^ 32"
  shows "object_paths (rz_symbols z) = map path (rz_objects z) \<and>
     definers_loaded (rz_symbols z) \<and>
     rz_comdat_excluded z = repeated (group_seq (rz_objects z))"
proof -
  obtain r needed where r: "lock_step r"
      "register_shared w (filter (\<lambda>x. input_kind w x = Shared) inputs) (rv_symbols r) = Ok (needed, rz_symbols z)"
      "rz_objects z = rv_objects r" "rz_comdat_excluded z = rv_excluded r"
    using loaded.on_load [OF assms(1) lock_step_default] by blast
  then show ?thesis using register_shared_definers [OF r(2)] assms(2) by (simp add: lock_step_def)
qed


text \<open>Two objects with a copy of the same inline function, in section 2 of each.\<close>

definition inline_world :: link_world where
  "inline_world =
     \<lparr>lw_bytes = (\<lambda>_. Some [1]), lw_header_kind = (\<lambda>_. Bare), lw_archive = (\<lambda>_. None), lw_shared = (\<lambda>_. None),
      lw_elf = (\<lambda>_. Some
        \<lparr>re_sections = [\<lparr>rs_index = 1, rs_sh_type = 17, rs_sh_info = 1, rs_name = Some ''.group'', rs_flags = Some 0,
           rs_file_range = None, rs_compressed = False, rs_uncompressed = None,
           rs_data = Some [1, 0, 0, 0, 2, 0, 0, 0], rs_align = 4, rs_size = 8, rs_relocs = []\<rparr>],
         re_symbols = [\<lparr>ys_index = 1, ys_name = Some ''f'', ys_compilation_scope = False, ys_weak = False,
           ys_type_visibility = Some (2, 0), ys_undefined = False, ys_common = False, ys_section = Some 2,
           ys_address = 0, ys_size = 4\<rparr>], re_hints = (2, 2)\<rparr>)\<rparr>"

definition bare_input :: "string \<Rightarrow> resolved_input" where
  "bare_input p = \<lparr>ri_path = p, ri_whole_archive = False, ri_as_needed = False, ri_start_lib_member = False\<rparr>"

lemma inline_kind: "input_kind inline_world x = Bare"
  by (simp add: input_kind_def inline_world_def classify_bytes_def)

lemma no_inclusion:
  "current_global_undefined (rv_symbols r) = {} \<Longrightarrow> include_start_lib_members w [] r = Some (Ok r)"
  "current_global_undefined (rv_symbols r) = {} \<Longrightarrow> include_archive_members w ps r = Some (Ok r)"
  by (simp_all add: include_start_lib_members_def start_lib_loop.simps [where undef = "{}"] include_archive_members_def
      archive_loop.simps [where undef = "{}"])

lemma group_section_name [simp]:
  "\<not> is_debug_section_name ''.group''" "normalize_debug_section_name ''.group'' = ''.group''"
  "classify_section ''.group'' 0 = Other"
  by (simp_all add: is_debug_section_name_def normalize_debug_section_name_def classify_section_def starts_with_def)

lemma inline_bare:
  "\<exists>r. load_bare inline_world [''a.o'', ''b.o''] resolver_default = Ok r \<and> length (rv_objects r) = 2 \<and>
     rv_excluded r = {(1, 2)} \<and> current_global_undefined (rv_symbols r) = {}"
  by (simp add: load_bare_def inclusion_eval inline_world_def push_mmap_def parse_one_def parse_bare_parallel_def
     parse_section_def section_handle_def raw_name_def raw_flags_def raw_range_def raw_symbol_name_def merge_parsed_owned_def)

theorem load_result_sound_witness:
  "\<exists>z. load_and_resolve inline_world [bare_input ''a.o'', bare_input ''b.o''] [] = Some (Ok z) \<and>
     rz_comdat_excluded z = {(1, 2)} \<and>
     object_paths (rz_symbols z) = map path (rz_objects z) \<and> definers_loaded (rz_symbols z) \<and>
     rz_comdat_excluded z = repeated (group_seq (rz_objects z))"
proof -
  obtain r where r: "load_bare inline_world [''a.o'', ''b.o''] resolver_default = Ok r" "length (rv_objects r) = 2"
      "rv_excluded r = {(1, 2)}" "current_global_undefined (rv_symbols r) = {}"
    using inline_bare by blast
  then obtain z where z: "load_and_resolve inline_world [bare_input ''a.o'', bare_input ''b.o''] [] = Some (Ok z)"
      "rz_objects z = rv_objects r" "rz_comdat_excluded z = rv_excluded r"
    by (simp add: load_and_resolve_def inline_kind paths_where_def bare_input_def and_then_def force_all_def
        no_inclusion load_shared_def)
  moreover have "length (rz_objects z) \<le> 2 ^ 32" using z(2) r(2) by simp
  ultimately show ?thesis using load_result_sound r(3) by blast
qed

end
