(* ===== verification/Spec2Isabelle.thy ===== *)
theory Spec2Isabelle
  imports Driver Emit_Incremental Object_Parse Gc_Targets Icf Rela_Dyn Layout_Segments Layout_Final Layout_Fingerprint Load_Result Daemon Link_Inputs Live_Filter
begin

text \<open>
  Peony is an incremental linker for x86-64 ELF, written in Rust.  This library models the linker proper and states what
  makes each of its parts correct.  A link runs through the parts in this order.

  The command line (\<^verbatim>\<open>peony/src/args.rs\<close>) and the input files (\<^verbatim>\<open>inputs.rs\<close>) decide what is linked.  The object parser
  (\<^verbatim>\<open>peony-object\<close>) turns files and archive members into input objects, whose bytes stay in an arena; the resolver
  (\<^verbatim>\<open>main.rs\<close>) feeds them to the symbol table (\<^verbatim>\<open>peony-symbols\<close>) and pulls archive members until nothing new is needed.
  The relocation scan (\<^verbatim>\<open>peony-reloc\<close>) finds the GOT, PLT, TLS and COPY slots; garbage collection and identical code
  folding (\<^verbatim>\<open>peony-layout/src/gc.rs\<close>, \<^verbatim>\<open>icf.rs\<close>) choose the sections.  The layout (\<^verbatim>\<open>peony-layout/src/lib.rs\<close>) groups the
  sections, makes the linker's own, places everything and builds the dynamic tables, symbol table and headers; final
  addresses go back into the symbol table.  The emitter (\<^verbatim>\<open>peony-emit\<close>) copies and relocates the input sections in
  parallel and writes the rest of the file.  The cache (\<^verbatim>\<open>peony-cache\<close>) records the link; a relink reuses the output, the
  layout, or all but the changed sections, in one shot or in a resident daemon (\<^verbatim>\<open>daemon.rs\<close>).
\<close>

section \<open>Theories and sources\<close>

text \<open>
  Shared: \<open>Peony_Prelude\<close> (machine integers, \<open>outcome\<close>, little-endian bytes, slices and in-place writes, list lemmas) and
  \<open>Rust_Text\<close> (the string operations of the standard library the driver's parsers use).

  Objects: \<open>Object_Model\<close> (\<^verbatim>\<open>model.rs\<close>: sections, symbols, index tables, with a locale for the table lookup), \<open>Object_Input\<close>
  (\<^verbatim>\<open>arena.rs\<close>, classification), \<open>Eh_Frame\<close> (the record walkers of \<^verbatim>\<open>eh_frame.rs\<close>), \<open>Object_Parse\<close> (\<^verbatim>\<open>parse.rs\<close>,
  \<^verbatim>\<open>section_parse.rs\<close>), \<open>Archive\<close> (\<^verbatim>\<open>archive.rs\<close>, \<^verbatim>\<open>shared.rs\<close>).

  Symbols and loading: \<open>Symbols\<close> (the table, its merge rules, ids), \<open>Resolver\<close> (loading loops as \<^verbatim>\<open>partial_function\<close>s),
  \<open>Archive_Fixpoint\<close> and \<open>Load_Result\<close> (what loading leaves behind, by invariants carried through a locale),
  \<open>Provided_Symbols\<close> (\<^verbatim>\<open>provided_symbols.rs\<close>), \<open>Link_Options\<close>, \<open>Link_Args\<close>, \<open>Link_Inputs\<close>.

  Relocations: \<open>Reloc_Types\<close>, \<open>Reloc_Apply\<close> (\<^verbatim>\<open>apply.rs\<close>), \<open>Reloc_Scan\<close> (\<^verbatim>\<open>scan.rs\<close>, \<^verbatim>\<open>copy.rs\<close>), \<open>Dyn_Relocs\<close>
  (\<^verbatim>\<open>dynamic.rs\<close>, \<^verbatim>\<open>tls.rs\<close>), \<open>Rela_Dyn\<close> (the assembly of \<^verbatim>\<open>.rela.dyn\<close> and the \<^verbatim>\<open>.eh_frame_hdr\<close> search table).

  Section selection: \<open>Live_Sections\<close> (the bit set), \<open>Gc\<close>, \<open>Gc_Targets\<close>, \<open>Gc_Reach\<close> (collection, serial and parallel),
  \<open>Icf\<close>, \<open>Live_Filter\<close> (\<^verbatim>\<open>compute_live\<close>).

  Layout: \<open>Layout_Model\<close> (its data), \<open>Script\<close>, \<open>Gnu_Property\<close>, \<open>Layout_Group\<close>, \<open>Dyn_Prebuild\<close>, \<open>Layout_Synth\<close>,
  \<open>Layout_Place\<close>, \<open>Layout_Meta\<close>, \<open>Layout_Dynamic\<close> and \<open>Layout_Segments\<close>, which are \<^verbatim>\<open>compute_layout_icf\<close> in its own order,
  \<open>Layout_Final\<close> (what follows it) and \<open>Layout_Fingerprint\<close> (when a cached layout may be used again).

  Emission: \<open>Emit_Work\<close> (work items, their validation and dispatch), \<open>Emit_Image\<close> (all writers and the full and partial
  emission), \<open>Emit_Steady\<close>, \<open>Emit_Regions\<close>, \<open>Emit_Items\<close>, \<open>Emit_Incremental\<close> (why a partial emission is the full one),
  \<open>Relocatable\<close> (\<^verbatim>\<open>-r\<close>).

  Relinking: \<open>Reloc_Index\<close> (the concurrent reverse index), \<open>Link_Cache\<close> (\<^verbatim>\<open>peony-cache/src/lib.rs\<close>), \<open>Relink\<close> (the relink
  paths of \<^verbatim>\<open>main.rs\<close>), \<open>Daemon\<close>.

  The whole: \<open>Driver\<close>, the function \<^verbatim>\<open>main\<close> of \<^verbatim>\<open>main.rs\<close> as the composition of the definitions above, in its order and with
  its early returns.
\<close>

section \<open>How state and effects are modelled\<close>

text \<open>
  A struct is a record, an enum a datatype, a fixed-width integer a word of that width, with the wrapping arithmetic of the
  release profile; \<^verbatim>\<open>usize\<close> positions and lengths are \<open>nat\<close> where the source cannot overflow them, and words where it can.
  A \<^verbatim>\<open>Result\<close> is an \<open>outcome\<close>: \<open>Ok\<close>, \<open>Err\<close> with the error's own datatype, or \<open>Panic\<close> for a failed slice, assertion or
  \<^verbatim>\<open>unwrap\<close>.  Buffers and tables that the source mutates are passed and returned.  A hash map is an association list; where
  the source walks it, its order is the list's, and properties hold for every order.

  Concurrency is explicit.  The reverse index is a step relation over interleaved compare-and-swap steps of its threads
  (\<open>Reloc_Index\<close>); the emitter's batches run in an arbitrary permutation (\<open>sched\<close>); the parallel collector takes the number
  of threads and the order in which marks arrive as parameters; a parallel reduction takes the splitting as a parameter.

  Loops whose end is not structural are \<open>function\<close>s with a measure, or \<open>partial_function (option)\<close>, where \<open>None\<close> is
  divergence: loading and archive inclusion (always returns, \<open>load_terminates\<close>) and script expansion (returns exactly when
  the references are well founded, \<open>expand_inputs_returns\<close>).  The one use of fuel is the walk of a loader over a hash chain
  (\<open>chain_find\<close> of \<open>Dyn_Prebuild\<close>): as many steps as \<^verbatim>\<open>.dynsym\<close> has entries, which \<open>sysv_lookup_finds\<close> shows to be enough.

  Code that is not in the repository is a parameter: what the ELF and archive readers return for a file (\<open>raw_elf\<close>,
  \<open>raw_archive\<close>, \<open>raw_shared\<close>), the codec of the manifest and of the layout blob (whose round trip is a hypothesis where it
  is used), the file system of the cache (\<open>cache_fs\<close>, with the metadata a write leaves given by \<open>ce_stamp\<close>) and of the
  inputs.  Bytes that are not UTF-8 are not distinguished in names shown in error messages.
\<close>

section \<open>What the lemmas show\<close>

text \<open>
  Emission: validated work items are in range and disjoint, so the dispatch never panics and any order of the batches gives
  the serial result; a partial emission over an earlier output is the full emission of the relink, under the conditions it
  names.  Layout: selected sections are aligned and disjoint in memory, output sections in order, headers as many as
  reserved exactly when stated, the dynamic tables as large as reserved, the \<^verbatim>\<open>.symtab\<close> plan and the final addresses as
  an independent specification over the tables gives them.  Selection: liveness is reachability; folding takes the first
  section of a key and never chains.  Symbols: merging refines an abstract resolution, is independent of order where no weak
  choice is left, and keeps ids an index.  Loading: it ends, at the fixpoint of archive inclusion, with the invariants the
  rest relies on.  Relocations: slots, counts and collected relocations agree, under the conditions each states.  Relinking:
  the reverse index loses nothing, a recorded link is reused exactly when nothing changed, sections left alone are current,
  and the daemon's first answer is that of a one-shot relink.  Driver: the index an import is given before the layout is
  that of the entry with its name in the \<^verbatim>\<open>.dynsym\<close> the layout builds (\<open>dynsym_index_names_import\<close>), and a link that
  succeeds has the symbols its options require (\<open>linked_symbols_defined\<close>).

  Several properties carry hypotheses that the code does not establish; each says so in its text, and a lemma beside it
  shows what happens without (\<open>emit_full_keeps_stale\<close>, \<open>tls_count_short\<close>, \<open>moves_ignore_plt\<close>, \<open>idless_not_recorded\<close>,
  \<open>daemon_ignores_output\<close>, \<open>provided_import_replaced\<close>, \<open>missing_note_keeps_bits\<close>, \<open>truncated_object_parses\<close>).
\<close>

section \<open>What is not modelled\<close>

text \<open>
  Logging, profiling and the cache report; the hand-off of LTO inputs and of relocatable links with COMDAT groups to GNU
  ld, which starts other programs; the socket, time-out and spawning of the daemon; the number of threads of the pool; the
  write report and the checkers of \<^verbatim>\<open>peony-verification\<close>, which no link runs; benchmarks and tests.  The hand-offs and the
  daemon's two ends are parameters of \<open>Driver\<close> (\<open>driver_extern\<close>).
\<close>

end
